(* ===== verification/Prelude.thy ===== *)
theory Prelude
  imports
    Main
    "HOL-Library.Char_ord"
    "HOL-Library.List_Lexorder"
    "HOL-Library.Option_ord"
    "HOL-Library.Product_Lexorder"
    "HOL-Library.Sublist"
    "HOL-Library.Multiset"
    "HOL-Library.Word"
begin

text \<open>
  Shared vocabulary of the development: the string operations of the Rust standard library that
  the modelled crates call, canonical (sorted, duplicate-free) lists, and the error type of
  \<^verbatim>\<open>filigrio-core/src/error.rs\<close>.

  A Rust \<^verbatim>\<open>str\<close> is its sequence of UTF-8 bytes, so it is a \<open>string\<close> (a list of bytes) here and
  \<open>length\<close> is Rust's \<open>len\<close>; the order of \<open>HOL-Library.List_Lexorder\<close> is \<open>Ord for str\<close>.
  Patterns that the code searches for (\<open>/\<close>, \<open>::\<close>, \<open>.\<close>, \<open>=\<close>) are ASCII, and an ASCII byte never
  occurs inside a multi-byte character, so searching bytes and searching characters agree.
  \<open>trim\<close> and \<open>to_lowercase\<close> act on the ASCII characters only.
\<close>

named_theorems str_defs \<open>definitions of the string operations\<close>

section \<open>Errors\<close>

datatype error =
    Io string
  | Parse string
  | Storage string
  | NotFound string
  | Protocol string
  | Other string

type_synonym bytes = string

section \<open>Strings\<close>

definition starts_with :: "string \<Rightarrow> string \<Rightarrow> bool" where
  [str_defs]: "starts_with s p \<longleftrightarrow> take (length p) s = p"

definition ends_with :: "string \<Rightarrow> string \<Rightarrow> bool" where
  [str_defs]: "ends_with s p \<longleftrightarrow> length p \<le> length s \<and> drop (length s - length p) s = p"

definition strip_prefix :: "string \<Rightarrow> string \<Rightarrow> string option" where
  [str_defs]: "strip_prefix s p = (if starts_with s p then Some (drop (length p) s) else None)"

definition strip_suffix :: "string \<Rightarrow> string \<Rightarrow> string option" where
  [str_defs]: "strip_suffix s p =
     (if ends_with s p then Some (take (length s - length p) s) else None)"

text \<open>\<open>find c s\<close> and \<open>rfind c s\<close>: the first and the last position of a byte.\<close>

fun find_char :: "char \<Rightarrow> string \<Rightarrow> nat option" where
  "find_char c [] = None"
| "find_char c (x # xs) = (if x = c then Some 0 else map_option Suc (find_char c xs))"

fun rfind_char :: "char \<Rightarrow> string \<Rightarrow> nat option" where
  "rfind_char c [] = None"
| "rfind_char c (x # xs) =
     (case rfind_char c xs of
        Some i \<Rightarrow> Some (Suc i)
      | None \<Rightarrow> if x = c then Some 0 else None)"

text \<open>\<open>split(sep)\<close> for a non-empty separator: the pieces between the non-overlapping occurrences,
  left to right; always at least one piece.\<close>

function split_acc :: "string \<Rightarrow> string \<Rightarrow> string \<Rightarrow> string list" where
  "split_acc sep acc s =
     (if s = [] \<or> sep = [] then [rev acc @ s]
      else if starts_with s sep then rev acc # split_acc sep [] (drop (length sep) s)
      else split_acc sep (hd s # acc) (tl s))"
  by pat_completeness auto
termination
  by (relation "measure (\<lambda>(sep, acc, s). length s)") auto

declare split_acc.simps [simp del]

definition split_str :: "string \<Rightarrow> string \<Rightarrow> string list" where
  [str_defs]: "split_str sep s = split_acc sep [] s"

text \<open>\<open>split_once(sep)\<close>: around the first occurrence.\<close>

fun split_once :: "string \<Rightarrow> string \<Rightarrow> (string \<times> string) option" where
  "split_once sep [] = (if sep = [] then Some ([], []) else None)"
| "split_once sep (x # xs) =
     (if starts_with (x # xs) sep then Some ([], drop (length sep) (x # xs))
      else map_option (\<lambda>(a, b). (x # a, b)) (split_once sep xs))"

text \<open>\<open>rsplit(sep).next()\<close>: what follows the last occurrence of \<open>sep\<close>, or the whole string.\<close>

fun rfind_str :: "string \<Rightarrow> string \<Rightarrow> nat option" where
  "rfind_str sep [] = None"
| "rfind_str sep (x # xs) =
     (case rfind_str sep xs of
        Some i \<Rightarrow> Some (Suc i)
      | None \<Rightarrow> if starts_with (x # xs) sep then Some 0 else None)"

definition rsplit_next :: "string \<Rightarrow> string \<Rightarrow> string" where
  [str_defs]: "rsplit_next sep s =
     (case rfind_str sep s of None \<Rightarrow> s | Some i \<Rightarrow> drop (i + length sep) s)"

definition contains_str :: "string \<Rightarrow> string \<Rightarrow> bool" where
  [str_defs]: "contains_str s p \<longleftrightarrow> split_once p s \<noteq> None"

definition replace_char :: "char \<Rightarrow> char \<Rightarrow> string \<Rightarrow> string" where
  [str_defs]: "replace_char a b s = map (\<lambda>c. if c = a then b else c) s"

fun join_str :: "string \<Rightarrow> string list \<Rightarrow> string" where
  "join_str sep [] = []"
| "join_str sep [x] = x"
| "join_str sep (x # xs) = x @ sep @ join_str sep xs"

definition is_space :: "char \<Rightarrow> bool" where
  [str_defs]: "is_space c \<longleftrightarrow>
     c \<in> set [CHR '' '', CHR 0x09, CHR 0x0A, CHR 0x0B, CHR 0x0C, CHR 0x0D]"

definition trim_start :: "string \<Rightarrow> string" where
  [str_defs]: "trim_start s = dropWhile is_space s"

definition trim_end :: "string \<Rightarrow> string" where
  [str_defs]: "trim_end s = rev (dropWhile is_space (rev s))"

definition trim :: "string \<Rightarrow> string" where
  [str_defs]: "trim s = trim_end (trim_start s)"

definition trim_end_char :: "char \<Rightarrow> string \<Rightarrow> string" where
  [str_defs]: "trim_end_char c s = rev (dropWhile (\<lambda>x. x = c) (rev s))"

definition trim_start_char :: "char \<Rightarrow> string \<Rightarrow> string" where
  [str_defs]: "trim_start_char c s = dropWhile (\<lambda>x. x = c) s"

definition lower_char :: "char \<Rightarrow> char" where
  [str_defs]: "lower_char c =
     (if CHR ''A'' \<le> c \<and> c \<le> CHR ''Z'' then char_of (of_char c + (32 :: nat)) else c)"

definition to_lowercase :: "string \<Rightarrow> string" where
  [str_defs]: "to_lowercase s = map lower_char s"

text \<open>\<open>lines()\<close>: the pieces between line feeds, a carriage return before a line feed dropped, and no
  empty last line. \<open>split_whitespace().next()\<close>: the first word.\<close>

definition strip_cr :: "string \<Rightarrow> string" where
  [str_defs]: "strip_cr s =
     (case strip_suffix s [CHR 0x0D] of None \<Rightarrow> s | Some t \<Rightarrow> t)"

definition lines :: "string \<Rightarrow> string list" where
  [str_defs]: "lines s =
     (let ps = split_str [CHR 0x0A] s
      in map strip_cr (butlast ps) @ (if last ps = [] then [] else [last ps]))"

definition first_word :: "string \<Rightarrow> string option" where
  [str_defs]: "first_word s =
     (let w = takeWhile (\<lambda>c. \<not> is_space c) (dropWhile is_space s)
      in if w = [] then None else Some w)"

section \<open>String lemmas\<close>

lemma starts_with_iff: "starts_with s p \<longleftrightarrow> (\<exists>r. s = p @ r)"
  unfolding starts_with_def by (metis append_eq_conv_conj append_take_drop_id)

lemma starts_with_append [simp]: "starts_with (p @ r) p"
  by (auto simp: starts_with_iff)

lemma starts_with_Nil [simp]: "starts_with s []"
  by (simp add: starts_with_def)

lemma strip_prefix_append [simp]: "strip_prefix (p @ r) p = Some r"
  by (simp add: strip_prefix_def)

lemma strip_prefix_Some_iff: "strip_prefix s p = Some r \<longleftrightarrow> s = p @ r"
  by (auto simp: strip_prefix_def starts_with_iff)

lemma strip_prefix_None_iff: "strip_prefix s p = None \<longleftrightarrow> \<not> starts_with s p"
  by (auto simp: strip_prefix_def)

lemma find_char_None_iff [simp]: "find_char c s = None \<longleftrightarrow> c \<notin> set s"
  by (induction s) auto

lemma find_char_SomeD:
  "find_char c s = Some i \<Longrightarrow> \<exists>a b. s = a @ c # b \<and> length a = i \<and> c \<notin> set a"
proof (induction s arbitrary: i)
  case Nil
  then show ?case by simp
next
  case (Cons x xs)
  show ?case
  proof (cases "x = c")
    case True
    with Cons.prems show ?thesis by (intro exI [of _ "[]"] exI [of _ xs]) simp
  next
    case False
    with Cons.prems obtain j where "find_char c xs = Some j" "i = Suc j" by auto
    with Cons.IH obtain a b where "xs = a @ c # b" "length a = j" "c \<notin> set a" by blast
    with False \<open>i = Suc j\<close> show ?thesis by (intro exI [of _ "x # a"] exI [of _ b]) simp
  qed
qed

lemma find_char_append: "c \<notin> set a \<Longrightarrow> find_char c (a @ c # b) = Some (length a)"
  by (induction a) auto

lemma rfind_char_None_iff [simp]: "rfind_char c s = None \<longleftrightarrow> c \<notin> set s"
  by (induction s) (auto split: option.splits if_splits)

lemma rfind_char_SomeD:
  "rfind_char c s = Some i \<Longrightarrow> \<exists>a b. s = a @ c # b \<and> length a = i \<and> c \<notin> set b"
proof (induction s arbitrary: i)
  case Nil
  then show ?case by simp
next
  case (Cons x xs)
  show ?case
  proof (cases "rfind_char c xs")
    case None
    with Cons.prems have "x = c" "i = 0" "c \<notin> set xs"
      by (auto split: if_splits)
    then show ?thesis by (intro exI [of _ "[]"] exI [of _ xs]) simp
  next
    case (Some j)
    with Cons.IH obtain a b where "xs = a @ c # b" "length a = j" "c \<notin> set b" by blast
    moreover from Some Cons.prems have "i = Suc j" by simp
    ultimately show ?thesis by (intro exI [of _ "x # a"] exI [of _ b]) simp
  qed
qed

lemma rfind_char_append: "c \<notin> set b \<Longrightarrow> rfind_char c (a @ c # b) = Some (length a)"
proof (induction a)
  case Nil
  then have "rfind_char c b = None" by simp
  then show ?case by (simp del: rfind_char_None_iff)
next
  case (Cons x a)
  then show ?case by simp
qed

lemma rfind_char_Some_iff:
  "rfind_char c s = Some i \<longleftrightarrow> (\<exists>a b. s = a @ c # b \<and> length a = i \<and> c \<notin> set b)"
  using rfind_char_SomeD rfind_char_append by metis

lemma rfind_char_less: "rfind_char c s = Some i \<Longrightarrow> i < length s"
  by (auto simp: rfind_char_Some_iff)

lemma split_once_Some_iff_append:
  "split_once sep s = Some (a, b) \<Longrightarrow> s = a @ sep @ b"
proof (induction s arbitrary: a)
  case Nil
  then show ?case by (auto split: if_splits)
next
  case (Cons x xs)
  then show ?case
    by (auto split: if_splits simp: starts_with_iff)
qed

lemma contains_str_append: "contains_str (a @ p @ b) p"
  unfolding contains_str_def
proof (induction a)
  case Nil
  have "starts_with (p @ b) p" by simp
  then show ?case by (cases "p @ b") auto
next
  case (Cons x a)
  then show ?case by auto
qed

lemma contains_str_iff: "contains_str s p \<longleftrightarrow> (\<exists>a b. s = a @ p @ b)"
  using contains_str_append split_once_Some_iff_append
  by (metis contains_str_def not_None_eq surj_pair)

lemma split_acc_Nil [simp]: "split_acc sep acc [] = [rev acc]"
  by (simp add: split_acc.simps)

lemma split_acc_not_Nil [simp]: "split_acc sep acc s \<noteq> []"
  by (induction sep acc s rule: split_acc.induct) (subst split_acc.simps, simp)

lemma split_str_not_Nil [simp]: "split_str sep s \<noteq> []"
  by (simp add: split_str_def)

lemma join_str_Cons: "xs \<noteq> [] \<Longrightarrow> join_str sep (x # xs) = x @ sep @ join_str sep xs"
  by (cases xs) auto

lemma join_split_acc: "join_str sep (split_acc sep acc s) = rev acc @ s"
proof (induction sep acc s rule: split_acc.induct)
  case (1 sep acc s)
  consider "s = [] \<or> sep = []"
    | "\<not> (s = [] \<or> sep = [])" "starts_with s sep"
    | "\<not> (s = [] \<or> sep = [])" "\<not> starts_with s sep" by blast
  then show ?case
  proof cases
    case 1
    then show ?thesis by (subst split_acc.simps) simp
  next
    case 2
    with "1.IH"(1) have "join_str sep (split_acc sep [] (drop (length sep) s)) = drop (length sep) s"
      by simp
    with 2 show ?thesis
      by (subst split_acc.simps) (auto simp: join_str_Cons starts_with_iff)
  next
    case 3
    with "1.IH"(2) show ?thesis by (subst split_acc.simps) simp
  qed
qed

lemma join_split_str: "join_str sep (split_str sep s) = s"
  by (simp add: split_str_def join_split_acc)

section \<open>Canonical lists: sort, then drop adjacent duplicates\<close>

text \<open>\<open>list.sort(); list.dedup()\<close>, and the iteration order of a \<open>BTreeSet\<close>.\<close>

definition canon :: "'a::linorder list \<Rightarrow> 'a list" where
  "canon xs = remdups_adj (sort xs)"

lemma set_canon [simp]: "set (canon xs) = set xs"
  by (simp add: canon_def)

lemma sorted_distinct_remdups_adj:
  "sorted xs \<Longrightarrow> sorted (remdups_adj xs) \<and> distinct (remdups_adj (xs :: 'a::linorder list))"
  by (induction xs rule: remdups_adj.induct) (auto simp: order.strict_iff_order)

lemma sorted_canon [simp]: "sorted (canon xs)"
  and distinct_canon [simp]: "distinct (canon xs)"
  using sorted_distinct_remdups_adj [OF sorted_sort] by (auto simp: canon_def)

lemma canon_cong: "set xs = set ys \<Longrightarrow> canon xs = canon ys"
  by (rule sorted_distinct_set_unique) auto

lemma canon_id: "sorted xs \<Longrightarrow> distinct xs \<Longrightarrow> canon xs = xs"
  by (rule sorted_distinct_set_unique) auto

lemma canon_canon [simp]: "canon (canon xs) = canon xs"
  by (simp add: canon_id)

lemma canon_append_canon [simp]: "canon (canon xs @ ys) = canon (xs @ ys)"
  by (rule canon_cong) simp

lemma canon_Nil [simp]: "canon [] = []"
  by (simp add: canon_def)

lemma canon_eq_Nil_iff [simp]: "canon xs = [] \<longleftrightarrow> xs = []"
  by (metis set_canon set_empty)

lemma canon_filter: "filter P (canon xs) = canon (filter P xs)"
  by (rule sorted_distinct_set_unique) (auto simp: sorted_wrt_filter)

section \<open>Decimal numbers\<close>

type_synonym u32 = "32 word"

definition digit_char :: "nat \<Rightarrow> char" where
  "digit_char d = char_of (48 + d)"

definition char_digit :: "char \<Rightarrow> nat option" where
  "char_digit c = (let n = of_char c in if 48 \<le> n \<and> n \<le> 57 then Some (n - 48) else None)"

fun show_nat :: "nat \<Rightarrow> string" where
  "show_nat n = (if n < 10 then [digit_char n] else show_nat (n div 10) @ [digit_char (n mod 10)])"

declare show_nat.simps [simp del]

text \<open>\<open>u32::from_str\<close>: an optional \<open>+\<close>, then at least one digit; \<open>None\<close> on overflow.\<close>

fun parse_digits :: "nat \<Rightarrow> string \<Rightarrow> nat option" where
  "parse_digits acc [] = Some acc"
| "parse_digits acc (c # cs) =
     (case char_digit c of
        None \<Rightarrow> None
      | Some d \<Rightarrow> if acc * 10 + d < 2 ^ 32 then parse_digits (acc * 10 + d) cs else None)"

definition parse_u32 :: "string \<Rightarrow> u32 option" where
  "parse_u32 s =
     (let ds = (if starts_with s ''+'' then tl s else s)
      in if ds = [] then None else map_option word_of_nat (parse_digits 0 ds))"

lemma char_digit_digit_char: "d < 10 \<Longrightarrow> char_digit (digit_char d) = Some d"
  by (simp add: char_digit_def digit_char_def)

lemma digit_char_not_plus: "d < 10 \<Longrightarrow> digit_char d \<noteq> CHR ''+''"
  using char_digit_digit_char [of d] by (auto simp: char_digit_def)

lemma digit_char_not_minus: "d < 10 \<Longrightarrow> digit_char d \<noteq> CHR ''-''"
  using char_digit_digit_char [of d] by (auto simp: char_digit_def)

lemma show_nat_not_Nil [simp]: "show_nat n \<noteq> []"
  by (subst show_nat.simps) simp

lemma show_nat_digits: "c \<in> set (show_nat n) \<Longrightarrow> \<exists>d < 10. c = digit_char d"
proof (induction n rule: show_nat.induct)
  case (1 n)
  show ?case
  proof (cases "n < 10")
    case True
    with "1.prems" show ?thesis by (subst (asm) show_nat.simps) auto
  next
    case False
    with "1.prems" have "c \<in> set (show_nat (n div 10)) \<or> c = digit_char (n mod 10)"
      by (subst (asm) show_nat.simps) auto
    moreover have "n mod 10 < 10" by simp
    ultimately show ?thesis using "1.IH" [OF False] by blast
  qed
qed

lemma parse_digits_append:
  "parse_digits acc (xs @ ys) =
     (case parse_digits acc xs of None \<Rightarrow> None | Some a \<Rightarrow> parse_digits a ys)"
  by (induction acc xs rule: parse_digits.induct) (auto split: option.split)

lemma parse_digits_show_nat: "n < 2 ^ 32 \<Longrightarrow> parse_digits 0 (show_nat n) = Some n"
proof (induction n rule: show_nat.induct)
  case (1 n)
  show ?case
  proof (cases "n < 10")
    case True
    with "1.prems" show ?thesis
      by (subst show_nat.simps) (simp add: char_digit_digit_char)
  next
    case False
    with 1 have "parse_digits 0 (show_nat (n div 10)) = Some (n div 10)" by simp
    moreover have "n div 10 * 10 + n mod 10 = n" by simp
    ultimately show ?thesis
      using False "1.prems"
      by (subst show_nat.simps) (simp add: parse_digits_append char_digit_digit_char)
  qed
qed

lemma show_nat_no_char:
  "(\<And>d. d < 10 \<Longrightarrow> digit_char d \<noteq> c) \<Longrightarrow> c \<notin> set (show_nat n)"
  using show_nat_digits by blast

lemma parse_u32_show_nat: "parse_u32 (show_nat (unat (w :: u32))) = Some w"
proof -
  have "CHR ''+'' \<notin> set (show_nat (unat w))"
    by (rule show_nat_no_char) (rule digit_char_not_plus)
  then have "\<not> starts_with (show_nat (unat w)) ''+''"
    by (cases "show_nat (unat w)") (auto simp: starts_with_def)
  moreover have "unat w < 2 ^ 32"
    using unsigned_less [of w] by simp
  ultimately show ?thesis
    by (simp add: parse_u32_def parse_digits_show_nat)
qed

end
