(* ===== verification/BTree.thy ===== *)
theory BTree
  imports Prelude
begin

text \<open>
  Rust's \<open>BTreeMap\<close> as the modelled crates use it: a finite map iterated in ascending key order.
  A map is its list of entries; the operations keep it sorted with distinct keys (\<open>bt_ok\<close>), so that
  equality of lists is the derived \<open>Eq\<close> of the Rust type. A \<open>HashMap\<close> whose iteration order the
  code does not observe is modelled by the same type. The interface the other components rely on is
  the locale \<open>ordered_map\<close>; it is interpreted below on these operations.
\<close>

type_synonym ('k, 'v) btree = "('k \<times> 'v) list"

definition bt_empty :: "('k, 'v) btree" where
  "bt_empty = []"

definition bt_get :: "('k, 'v) btree \<Rightarrow> 'k \<Rightarrow> 'v option" where
  "bt_get m k = map_of m k"

fun bt_insert :: "'k::linorder \<Rightarrow> 'v \<Rightarrow> ('k, 'v) btree \<Rightarrow> ('k, 'v) btree" where
  "bt_insert k v [] = [(k, v)]"
| "bt_insert k v ((k', v') # m) =
     (if k < k' then (k, v) # (k', v') # m
      else if k = k' then (k, v) # m
      else (k', v') # bt_insert k v m)"

definition bt_remove :: "'k \<Rightarrow> ('k, 'v) btree \<Rightarrow> ('k, 'v) btree" where
  "bt_remove k m = filter (\<lambda>kv. fst kv \<noteq> k) m"

definition bt_keys :: "('k, 'v) btree \<Rightarrow> 'k list" where
  "bt_keys m = map fst m"

definition bt_values :: "('k, 'v) btree \<Rightarrow> 'v list" where
  "bt_values m = map snd m"

definition bt_ok :: "('k::linorder, 'v) btree \<Rightarrow> bool" where
  "bt_ok m \<longleftrightarrow> sorted_wrt (<) (map fst m)"

text \<open>\<open>entry(k).or_insert(v)\<close>, \<open>entry(k).or_default().push(x)\<close>, \<open>collect()\<close>, \<open>extend\<close>.\<close>

definition bt_or_insert :: "'k::linorder \<Rightarrow> 'v \<Rightarrow> ('k, 'v) btree \<Rightarrow> ('k, 'v) btree" where
  "bt_or_insert k v m = (case bt_get m k of None \<Rightarrow> bt_insert k v m | Some _ \<Rightarrow> m)"

definition bt_get_list :: "('k, 'x list) btree \<Rightarrow> 'k \<Rightarrow> 'x list" where
  "bt_get_list m k = (case bt_get m k of None \<Rightarrow> [] | Some l \<Rightarrow> l)"

definition bt_push :: "'k::linorder \<Rightarrow> 'x \<Rightarrow> ('k, 'x list) btree \<Rightarrow> ('k, 'x list) btree" where
  "bt_push k x m = bt_insert k (bt_get_list m k @ [x]) m"

fun bt_extend :: "('k::linorder, 'v) btree \<Rightarrow> ('k \<times> 'v) list \<Rightarrow> ('k, 'v) btree" where
  "bt_extend m [] = m"
| "bt_extend m ((k, v) # kvs) = bt_extend (bt_insert k v m) kvs"

definition bt_collect :: "('k::linorder \<times> 'v) list \<Rightarrow> ('k, 'v) btree" where
  "bt_collect kvs = bt_extend bt_empty kvs"

definition bt_map_values :: "('v \<Rightarrow> 'w) \<Rightarrow> ('k, 'v) btree \<Rightarrow> ('k, 'w) btree" where
  "bt_map_values f m = map (\<lambda>(k, v). (k, f v)) m"

section \<open>The interface\<close>

locale ordered_map =
  fixes empty :: "'m"
    and get :: "'m \<Rightarrow> 'k::linorder \<Rightarrow> 'v option"
    and insert :: "'k \<Rightarrow> 'v \<Rightarrow> 'm \<Rightarrow> 'm"
    and remove :: "'k \<Rightarrow> 'm \<Rightarrow> 'm"
    and entries :: "'m \<Rightarrow> ('k \<times> 'v) list"
    and ok :: "'m \<Rightarrow> bool"
  assumes get_empty: "get empty k = None"
    and get_insert: "get (insert k v m) k' = (if k' = k then Some v else get m k')"
    and get_remove: "get (remove k m) k' = (if k' = k then None else get m k')"
    and ok_empty: "ok empty"
    and ok_insert: "ok m \<Longrightarrow> ok (insert k v m)"
    and ok_remove: "ok m \<Longrightarrow> ok (remove k m)"
    and entries_sorted: "ok m \<Longrightarrow> sorted_wrt (<) (map fst (entries m))"
    and entries_get: "ok m \<Longrightarrow> (k, v) \<in> set (entries m) \<longleftrightarrow> get m k = Some v"
    and entries_inject: "entries m = entries m' \<Longrightarrow> m = m'"
begin

text \<open>What a client may conclude: a map is determined by its lookups; inserting is idempotent, and
  insertions at different keys commute; the last binding of a key in a bulk insertion wins.\<close>

lemma strict_keys_eq:
  fixes xs ys :: "('k \<times> 'v) list"
  assumes "sorted_wrt (<) (map fst xs)" "sorted_wrt (<) (map fst ys)" "set xs = set ys"
  shows "xs = ys"
proof -
  have inj: "sorted_wrt (<) (map fst zs) \<Longrightarrow> inj_on fst (set zs)" for zs :: "('k \<times> 'v) list"
    by (metis distinct_map strict_sorted_iff)
  have "map fst xs = map fst ys"
    using assms by (intro sorted_distinct_set_unique) (auto simp: strict_sorted_iff)
  with assms(1,3) inj show ?thesis by (metis list.inj_map_strong inj_on_def)
qed

lemma ext_get:
  assumes "ok m" "ok m'" and eq: "\<And>k. get m k = get m' k"
  shows "m = m'"
proof -
  have "set (entries m) = set (entries m')"
    using entries_get [OF \<open>ok m\<close>] entries_get [OF \<open>ok m'\<close>] eq by auto
  with assms have "entries m = entries m'"
    by (intro strict_keys_eq entries_sorted)
  then show ?thesis by (rule entries_inject)
qed

lemma insert_absorb: "ok m \<Longrightarrow> get m k = Some v \<Longrightarrow> insert k v m = m"
  by (rule ext_get) (auto simp: ok_insert get_insert)

lemma insert_commute:
  "ok m \<Longrightarrow> k \<noteq> k' \<Longrightarrow> insert k v (insert k' v' m) = insert k' v' (insert k v m)"
  by (rule ext_get) (auto simp: ok_insert get_insert)

lemma remove_insert: "ok m \<Longrightarrow> get m k = None \<Longrightarrow> remove k (insert k v m) = m"
  by (rule ext_get) (auto simp: ok_insert ok_remove get_insert get_remove)

lemma get_fold_insert:
  "get (fold (\<lambda>(k, v). insert k v) kvs m) k =
     (case map_of (rev kvs) k of None \<Rightarrow> get m k | Some v \<Rightarrow> Some v)"
proof (induction kvs arbitrary: m)
  case Nil
  then show ?case by simp
next
  case (Cons kv kvs)
  show ?case
    by (cases kv) (auto simp: Cons.IH get_insert map_add_def split: option.splits)
qed

lemma ok_fold_insert: "ok m \<Longrightarrow> ok (fold (\<lambda>(k, v). insert k v) kvs m)"
  by (induction kvs arbitrary: m) (auto simp: ok_insert)

end

section \<open>The model's map satisfies it\<close>

lemma bt_get_empty [simp]: "bt_get bt_empty k = None"
  by (simp add: bt_get_def bt_empty_def)

lemma bt_get_Nil [simp]: "bt_get [] k = None"
  by (simp add: bt_get_def)

lemma bt_get_Cons [simp]: "bt_get ((k', v) # m) k = (if k = k' then Some v else bt_get m k)"
  by (simp add: bt_get_def)

lemma bt_get_insert: "bt_get (bt_insert k v m) k' = (if k' = k then Some v else bt_get m k')"
  by (induction k v m rule: bt_insert.induct) auto

lemma bt_get_remove: "bt_get (bt_remove k m) k' = (if k' = k then None else bt_get m k')"
  by (induction m) (auto simp: bt_remove_def)

lemma bt_keys_insert: "set (map fst (bt_insert k v m)) = insert k (set (map fst m))"
  by (induction k v m rule: bt_insert.induct) auto

lemma bt_ok_Nil [simp]: "bt_ok []"
  by (simp add: bt_ok_def)

lemma bt_ok_empty [simp]: "bt_ok bt_empty"
  by (simp add: bt_empty_def)

lemma bt_ok_Cons: "bt_ok ((k, v) # m) \<longleftrightarrow> (\<forall>k' \<in> fst ` set m. k < k') \<and> bt_ok m"
  by (auto simp: bt_ok_def)

lemma bt_ok_insert [intro]: "bt_ok m \<Longrightarrow> bt_ok (bt_insert k v m)"
proof (induction k v m rule: bt_insert.induct)
  case (1 k v)
  then show ?case by (simp add: bt_ok_Cons)
next
  case (2 k v k' v' m)
  then have ok: "bt_ok m" and lt: "\<forall>j \<in> fst ` set m. k' < j" by (auto simp: bt_ok_Cons)
  have keys: "fst ` set (bt_insert k v m) = insert k (fst ` set m)"
    using bt_keys_insert [of k v m] by simp
  show ?case
  proof (cases "k < k'")
    case True
    with 2 lt show ?thesis by (auto simp: bt_ok_Cons)
  next
    case False
    then show ?thesis
      using "2.IH" ok lt keys by (auto simp: bt_ok_Cons)
  qed
qed

lemma bt_ok_remove [intro]: "bt_ok m \<Longrightarrow> bt_ok (bt_remove k m)"
  by (induction m) (auto simp: bt_remove_def bt_ok_Cons)

lemma bt_ok_distinct: "bt_ok m \<Longrightarrow> distinct (map fst m)"
  by (simp add: bt_ok_def strict_sorted_iff)

lemma bt_in_set_iff: "bt_ok m \<Longrightarrow> (k, v) \<in> set m \<longleftrightarrow> bt_get m k = Some v"
  by (simp add: bt_get_def bt_ok_distinct)

interpretation bt: ordered_map bt_empty bt_get bt_insert bt_remove "\<lambda>m. m" bt_ok
proof unfold_locales
qed (auto simp: bt_get_insert bt_get_remove bt_in_set_iff, simp add: bt_ok_def)

section \<open>Derived operations\<close>

lemma bt_extend_fold: "bt_extend m kvs = fold (\<lambda>(k, v). bt_insert k v) kvs m"
  by (induction m kvs rule: bt_extend.induct) auto

lemma bt_get_extend:
  "bt_get (bt_extend m kvs) k =
     (case map_of (rev kvs) k of None \<Rightarrow> bt_get m k | Some v \<Rightarrow> Some v)"
  by (simp only: bt_extend_fold bt.get_fold_insert)

lemma bt_ok_extend [intro]: "bt_ok m \<Longrightarrow> bt_ok (bt_extend m kvs)"
  by (simp only: bt_extend_fold bt.ok_fold_insert)

lemma bt_get_collect: "bt_get (bt_collect kvs) k = map_of (rev kvs) k"
  by (simp add: bt_collect_def bt_get_extend split: option.split)

lemma bt_ok_collect [simp]: "bt_ok (bt_collect kvs)"
  by (simp add: bt_collect_def bt_ok_extend)

lemma bt_get_collect_map:
  "bt_get (bt_collect (map (\<lambda>x. (f x, g x)) xs)) k =
     (case find (\<lambda>x. f x = k) (rev xs) of None \<Rightarrow> None | Some x \<Rightarrow> Some (g x))"
proof -
  have "map_of (map (\<lambda>x. (f x, g x)) ys) k =
      (case find (\<lambda>x. f x = k) ys of None \<Rightarrow> None | Some x \<Rightarrow> Some (g x))" for ys
    by (induction ys) auto
  then show ?thesis by (simp add: bt_get_collect rev_map)
qed

lemma bt_get_list_insert:
  "bt_get_list (bt_insert k v m) k' = (if k' = k then v else bt_get_list m k')"
  by (simp add: bt_get_list_def bt_get_insert)

lemma bt_get_list_empty [simp]: "bt_get_list bt_empty k = []" "bt_get_list [] k = []"
  by (simp_all add: bt_get_list_def)

lemma bt_get_list_push:
  "bt_get_list (bt_push k x m) k' = (if k' = k then bt_get_list m k @ [x] else bt_get_list m k')"
  by (simp add: bt_push_def bt_get_list_insert)

lemma bt_ok_push [intro]: "bt_ok m \<Longrightarrow> bt_ok (bt_push k x m)"
  by (simp add: bt_push_def bt_ok_insert)

lemma bt_get_push:
  "bt_get (bt_push k x m) k' = (if k' = k then Some (bt_get_list m k @ [x]) else bt_get m k')"
  by (simp add: bt_push_def bt_get_insert)

lemma bt_get_or_insert:
  "bt_get (bt_or_insert k v m) k' =
     (if k' = k \<and> bt_get m k = None then Some v else bt_get m k')"
  by (auto simp: bt_or_insert_def bt_get_insert split: option.split)

lemma bt_ok_or_insert [intro]: "bt_ok m \<Longrightarrow> bt_ok (bt_or_insert k v m)"
  by (auto simp: bt_or_insert_def split: option.split)

lemma bt_get_map_values [simp]: "bt_get (bt_map_values f m) k = map_option f (bt_get m k)"
  by (induction m) (auto simp: bt_map_values_def)

lemma bt_keys_map_values [simp]: "map fst (bt_map_values f m) = map fst m"
  by (auto simp: bt_map_values_def)

lemma bt_ok_map_values [simp]: "bt_ok (bt_map_values f m) \<longleftrightarrow> bt_ok m"
  by (simp add: bt_ok_def)

lemma bt_filter_get:
  "bt_ok m \<Longrightarrow> bt_get (filter P m) k =
     (case bt_get m k of None \<Rightarrow> None | Some v \<Rightarrow> if P (k, v) then Some v else None)"
proof (induction m)
  case Nil
  then show ?case by simp
next
  case (Cons kv m)
  obtain k' v' where kv: "kv = (k', v')" by force
  with Cons.prems have ok: "bt_ok m" and "bt_get m k' = None"
    by (auto simp: bt_ok_Cons bt_get_def map_of_eq_None_iff)
  with Cons.IH kv show ?case by (auto split: option.splits)
qed

lemma bt_ok_filter [intro]: "bt_ok m \<Longrightarrow> bt_ok (filter P m)"
proof (induction m)
  case (Cons kv m)
  then show ?case by (cases kv) (auto simp: bt_ok_Cons)
qed simp

lemma bt_values_in: "v \<in> set (bt_values m) \<Longrightarrow> \<exists>k. (k, v) \<in> set m"
  by (auto simp: bt_values_def)

lemma get_list_foldl_push:
  "bt_get_list (foldl (\<lambda>m (n, r). bt_push n r m) m kvs) k
     = bt_get_list m k @ map snd (filter (\<lambda>(n, r). n = k) kvs)"
  by (induction kvs arbitrary: m) (auto simp: bt_get_list_push)

lemma ok_foldl_push: "bt_ok m \<Longrightarrow> bt_ok (foldl (\<lambda>m (n, r). bt_push n r m) m kvs)"
  by (induction kvs arbitrary: m) (auto intro!: bt_ok_push)

lemma get_foldl_push_None:
  "bt_get (foldl (\<lambda>m (n, r). bt_push n r m) m kvs) k = None
     \<longleftrightarrow> bt_get m k = None \<and> k \<notin> fst ` set kvs"
  by (induction kvs arbitrary: m) (auto simp: bt_get_push split: if_splits)

end
