(* ===== verification/Core_Model.thy ===== *)
theory Core_Model
  imports BTree
begin

text \<open>
  The graph data model of \<^verbatim>\<open>filigrio-core/src/model.rs\<close>, \<^verbatim>\<open>graph.rs\<close> and the ports of
  \<^verbatim>\<open>ports.rs\<close>: node identities, spans, nodes, edges with resolved or symbolic targets,
  export tables, extractions, the path classification, the graph container, and the \<open>Source\<close>,
  \<open>Extractor\<close> and \<open>ModuleResolver\<close> ports as records of functions.
\<close>

section \<open>Identities and provenance\<close>

datatype node_id = NodeId (the_id: string)

instantiation node_id :: linorder
begin

definition less_eq_node_id :: "node_id \<Rightarrow> node_id \<Rightarrow> bool" where
  "less_eq_node_id a b \<longleftrightarrow> the_id a \<le> the_id b"

definition less_node_id :: "node_id \<Rightarrow> node_id \<Rightarrow> bool" where
  "less_node_id a b \<longleftrightarrow> the_id a < the_id b"

instance
  by standard (auto simp: less_eq_node_id_def less_node_id_def node_id.expand)

end

lemma less_node_id_simps [simp]:
  "NodeId a \<le> NodeId b \<longleftrightarrow> a \<le> b" "NodeId a < NodeId b \<longleftrightarrow> a < b"
  by (simp_all add: less_eq_node_id_def less_node_id_def)

datatype confidence = Extracted | Inferred | Ambiguous

section \<open>Spans\<close>

record span =
  span_start :: u32
  span_end :: u32

definition span_line :: "u32 \<Rightarrow> span" where
  "span_line line = \<lparr>span_start = line, span_end = line\<rparr>"

definition span_render :: "span \<Rightarrow> string" where
  "span_render s =
     (if span_end s > span_start s
      then ''L'' @ show_nat (unat (span_start s)) @ ''-L'' @ show_nat (unat (span_end s))
      else ''L'' @ show_nat (unat (span_start s)))"

definition span_parse :: "string \<Rightarrow> span option" where
  "span_parse s0 =
     (case strip_prefix s0 ''L'' of
        None \<Rightarrow> None
      | Some s \<Rightarrow>
          (case split_once ''-L'' s of
             Some (a, b) \<Rightarrow>
               (case parse_u32 a of
                  None \<Rightarrow> None
                | Some x \<Rightarrow>
                    (case parse_u32 b of
                       None \<Rightarrow> None
                     | Some y \<Rightarrow> Some \<lparr>span_start = x, span_end = y\<rparr>))
           | None \<Rightarrow>
               (case parse_u32 s of
                  None \<Rightarrow> None
                | Some n \<Rightarrow> Some \<lparr>span_start = n, span_end = n\<rparr>)))"

section \<open>Nodes and edges\<close>

record node =
  n_id :: node_id
  n_label :: string
  n_kind :: string
  n_file :: "string option"
  n_span :: "span option"
  n_attrs :: "(string, string) btree"

definition node_new :: "string \<Rightarrow> string \<Rightarrow> string \<Rightarrow> node" where
  "node_new i label kind =
     \<lparr>n_id = NodeId i, n_label = label, n_kind = kind, n_file = None, n_span = None,
      n_attrs = bt_empty\<rparr>"

definition node_loc :: "node \<Rightarrow> string" where
  "node_loc n = (case n_span n of None \<Rightarrow> [] | Some s \<Rightarrow> span_render s)"

record target_ref =
  t_name :: string
  t_hints :: "(string, string) btree"

definition target_ref_new :: "string \<Rightarrow> target_ref" where
  "target_ref_new name = \<lparr>t_name = name, t_hints = bt_empty\<rparr>"

datatype edge_target = Symbol target_ref | Node node_id

record edge =
  e_source :: node_id
  e_relation :: string
  e_confidence :: confidence
  e_target :: edge_target

datatype export =
    Local string
  | ReExport string string string \<comment> \<open>name, specifier, imported\<close>
  | Star string

record extraction =
  x_nodes :: "node list"
  x_edges :: "edge list"
  x_exports :: "export list"

section \<open>Path classification\<close>

datatype artifact_kind = Code | Doc | OtherKind

record artifact =
  a_path :: string
  a_kind :: artifact_kind
  a_language :: "string option"

text \<open>\<open>rsplit(c).next()\<close>: what follows the last occurrence, the whole string when there is none.\<close>

definition after_last :: "char \<Rightarrow> string \<Rightarrow> string" where
  "after_last c s = (case rfind_char c s of None \<Rightarrow> s | Some i \<Rightarrow> drop (Suc i) s)"

definition classify :: "string \<Rightarrow> artifact" where
  "classify path =
     (let ext = to_lowercase (after_last CHR ''.'' path);
          (kind, language) =
            (if ext = ''rs'' then (Code, Some ''rust'')
             else if ext = ''py'' then (Code, Some ''python'')
             else if ext = ''js'' \<or> ext = ''mjs'' \<or> ext = ''cjs'' then (Code, Some ''javascript'')
             else if ext = ''ts'' \<or> ext = ''tsx'' then (Code, Some ''typescript'')
             else if ext = ''go'' then (Code, Some ''go'')
             else if ext = ''java'' then (Code, Some ''java'')
             else if ext = ''c'' \<or> ext = ''h'' then (Code, Some ''c'')
             else if ext = ''cpp'' \<or> ext = ''cc'' \<or> ext = ''hpp'' then (Code, Some ''cpp'')
             else if ext = ''md'' \<or> ext = ''rst'' \<or> ext = ''txt'' then (Doc, None)
             else (OtherKind, None))
      in \<lparr>a_path = path, a_kind = kind, a_language = language\<rparr>)"

definition MANIFEST_NAMES :: "string list" where
  "MANIFEST_NAMES =
     [''Cargo.toml'', ''package.json'', ''deno.json'', ''deno.jsonc'', ''go.mod'',
      ''pyproject.toml'']"

definition manifest_basename :: "string \<Rightarrow> string option" where
  "manifest_basename path =
     (let base = after_last CHR ''/'' path in find (\<lambda>m. m = base) MANIFEST_NAMES)"

definition is_manifest :: "string \<Rightarrow> bool" where
  "is_manifest path \<longleftrightarrow> manifest_basename path \<noteq> None"

definition is_indexable :: "string \<Rightarrow> bool" where
  "is_indexable path \<longleftrightarrow> a_kind (classify path) = Code \<or> is_manifest path"

section \<open>The graph container\<close>

record graph =
  g_nodes :: "node list"
  g_edges :: "edge list"

definition node_by_id :: "graph \<Rightarrow> node_id \<Rightarrow> node option" where
  "node_by_id g i = find (\<lambda>n. n_id n = i) (g_nodes g)"

definition node_by_label :: "graph \<Rightarrow> string \<Rightarrow> node option" where
  "node_by_label g l = find (\<lambda>n. n_label n = l) (g_nodes g)"

definition out_degree :: "graph \<Rightarrow> node_id \<Rightarrow> nat" where
  "out_degree g i = length (filter (\<lambda>e. e_source e = i) (g_edges g))"

definition in_degree :: "graph \<Rightarrow> node_id \<Rightarrow> nat" where
  "in_degree g i = length (filter (\<lambda>e. e_target e = Node i) (g_edges g))"

definition degree :: "graph \<Rightarrow> node_id \<Rightarrow> nat" where
  "degree g i = out_degree g i + in_degree g i"

definition graph_neighbors :: "graph \<Rightarrow> node_id \<Rightarrow> (edge \<times> node) list" where
  "graph_neighbors g i =
     List.map_filter
       (\<lambda>e. case e_target e of
              Node t \<Rightarrow> map_option (\<lambda>n. (e, n)) (node_by_id g t)
            | Symbol _ \<Rightarrow> None)
       (filter (\<lambda>e. e_source e = i) (g_edges g))"

section \<open>Ports\<close>

text \<open>The traits are parameters of the code that takes them as \<^verbatim>\<open>&dyn\<close>; a record holds the methods
  that the modelled code calls.\<close>

record source_port =
  src_exists :: "string \<Rightarrow> bool"
  src_read :: "string \<Rightarrow> error + bytes"

record extractor_port =
  ext_handles :: "artifact \<Rightarrow> bool"
  ext_extract :: "artifact \<Rightarrow> bytes \<Rightarrow> error + extraction"

type_synonym module_resolver = "string \<Rightarrow> string \<Rightarrow> string option"

section \<open>Spans: rendering and parsing\<close>

lemma split_once_no_minus:
  "CHR ''-'' \<notin> set a \<Longrightarrow> split_once ''-L'' (a @ ''-L'' @ b) = Some (a, b)"
  by (induction a) (auto simp: starts_with_def)

lemma split_once_None_no_minus:
  "CHR ''-'' \<notin> set a \<Longrightarrow> split_once ''-L'' a = None"
  by (induction a) (auto simp: starts_with_def)

lemma show_nat_no_minus: "CHR ''-'' \<notin> set (show_nat n)"
  by (rule show_nat_no_char) (rule digit_char_not_minus)

lemma strip_prefix_L [simp]: "strip_prefix (CHR ''L'' # s) ''L'' = Some s"
  by (simp add: strip_prefix_def starts_with_def)

lemma span_parse_render:
  "span_parse (span_render s) =
     Some (if span_start s < span_end s then s else span_line (span_start s))"
  using split_once_no_minus [OF show_nat_no_minus] split_once_None_no_minus [OF show_nat_no_minus]
  by (simp add: span_parse_def span_render_def parse_u32_show_nat span_line_def)

section \<open>Path classification depends on the basename\<close>

lemma after_last_slash: "CHR ''/'' \<notin> set b \<Longrightarrow> after_last CHR ''/'' (d @ ''/'' @ b) = b"
  by (simp add: after_last_def rfind_char_append)

lemma after_last_append:
  assumes "c \<in> set b"
  shows "after_last c (d @ b) = after_last c b"
proof -
  from assms obtain i where i: "rfind_char c b = Some i"
    using rfind_char_None_iff by blast
  then obtain x y where "b = x @ c # y" "length x = i" "c \<notin> set y"
    by (auto dest: rfind_char_SomeD)
  then have "rfind_char c (d @ b) = Some (length d + i)"
    using rfind_char_append [of c y "d @ x"] by simp
  with i show ?thesis by (simp add: after_last_def)
qed

lemma classify_kind_basename:
  assumes "CHR ''.'' \<in> set b"
  shows "a_kind (classify (d @ b)) = a_kind (classify b)"
  using after_last_append [OF assms, of d]
  by (simp add: classify_def Let_def split: prod.split)

section \<open>Properties\<close>

text \<open>A span survives rendering and parsing, except that a range whose end is not after its start
  comes back as the single line it starts on (\<^verbatim>\<open>render\<close> prints such a span as one line).\<close>

theorem span_roundtrip:
  "span_parse (span_render s) = Some (if span_start s < span_end s then s else span_line (span_start s))"
  by (rule span_parse_render)

text \<open>\<^verbatim>\<open>is_indexable\<close> does not key on the basename: its comment calls the gate
  path-shape-agnostic, but for a name without a dot the extension is the whole path, so the file
  \<^verbatim>\<open>rs\<close> is indexable at the root and not below a directory.\<close>

theorem is_indexable_not_basename_keyed:
  "is_indexable ''rs'' \<and> \<not> is_indexable ''d/rs''"
  by code_simp

end
