(* ===== verification/Relation_Vocab.thy ===== *)
theory Relation_Vocab
  imports Core_Model
begin

text \<open>
  The edge-relation vocabulary and the query-filter contract of
  \<^verbatim>\<open>filigrio-core/src/relation.rs\<close>, and the node-fact keys of \<^verbatim>\<open>attrs.rs\<close> that the
  linker reads. Relations stay strings, as in the code.
\<close>

definition CALLS :: string where "CALLS = ''calls''"
definition CONTAINS :: string where "CONTAINS = ''contains''"
definition IMPORTS :: string where "IMPORTS = ''imports''"
definition DEPENDS_ON :: string where "DEPENDS_ON = ''depends_on''"
definition HAS_VARIANT :: string where "HAS_VARIANT = ''has_variant''"
definition TYPE_FAMILY_PREFIX :: string where "TYPE_FAMILY_PREFIX = ''type/''"
definition FILTER_ANY :: string where "FILTER_ANY = ''any''"
definition FILTER_SEMANTIC :: string where "FILTER_SEMANTIC = ''semantic''"

lemmas relation_consts =
  CALLS_def CONTAINS_def IMPORTS_def DEPENDS_ON_def HAS_VARIANT_def TYPE_FAMILY_PREFIX_def
  FILTER_ANY_def FILTER_SEMANTIC_def

definition is_type_family :: "string \<Rightarrow> bool" where
  "is_type_family relation \<longleftrightarrow> starts_with relation TYPE_FAMILY_PREFIX"

definition is_structural :: "string \<Rightarrow> bool" where
  "is_structural relation \<longleftrightarrow>
     (if is_type_family relation then False
      else relation = CONTAINS \<or> relation = IMPORTS \<or> relation = DEPENDS_ON
         \<or> relation = HAS_VARIANT)"

definition filter_normalize :: "string list \<Rightarrow> string list" where
  "filter_normalize entries = (if entries = [] then [FILTER_SEMANTIC] else entries)"

definition relation_matches_filter :: "string \<Rightarrow> string \<Rightarrow> bool" where
  "relation_matches_filter entry relation \<longleftrightarrow>
     (if entry = FILTER_ANY then True
      else if entry = FILTER_SEMANTIC then \<not> is_structural relation
      else if entry = relation then True
      else
        (let family = (case strip_suffix entry ''/'' of None \<Rightarrow> entry | Some f \<Rightarrow> f)
         in length relation > length family \<and> starts_with relation family
            \<and> relation ! length family = CHR ''/''))"

text \<open>How the read surfaces use it: an edge passes when some entry of the normalised set selects
  its relation.\<close>

definition filter_selects :: "string list \<Rightarrow> string \<Rightarrow> bool" where
  "filter_selects entries relation \<longleftrightarrow>
     list_ex (\<lambda>e. relation_matches_filter e relation) (filter_normalize entries)"

section \<open>The family test is a path-prefix test\<close>

lemma nth_after_prefix_iff:
  "length r > length f \<and> starts_with r f \<and> r ! length f = c \<longleftrightarrow> (\<exists>rest. r = f @ c # rest)"
proof
  assume "length r > length f \<and> starts_with r f \<and> r ! length f = c"
  then obtain s where "r = f @ s" "s \<noteq> []" "s ! 0 = c"
    by (auto simp: starts_with_iff nth_append)
  then show "\<exists>rest. r = f @ c # rest" by (cases s) auto
qed (auto simp: nth_append)

lemma strip_suffix_slash:
  "strip_suffix e ''/'' = (if e \<noteq> [] \<and> last e = CHR ''/'' then Some (butlast e) else None)"
proof (cases e rule: rev_cases)
  case Nil
  then show ?thesis by (simp add: strip_suffix_def ends_with_def)
next
  case (snoc xs x)
  then show ?thesis by (simp add: strip_suffix_def ends_with_def)
qed

text \<open>The relations below an entry in the \<open>/\<close>-separated hierarchy; a trailing \<open>/\<close> of the entry is
  only another spelling.\<close>

definition below_family :: "string \<Rightarrow> string \<Rightarrow> bool" where
  "below_family entry relation \<longleftrightarrow>
     (\<exists>rest. relation = (if entry \<noteq> [] \<and> last entry = CHR ''/'' then butlast entry else entry)
               @ CHR ''/'' # rest)"

lemma family_test:
  "(let family = (case strip_suffix entry ''/'' of None \<Rightarrow> entry | Some f \<Rightarrow> f)
    in length relation > length family \<and> starts_with relation family
       \<and> relation ! length family = CHR ''/'') \<longleftrightarrow> below_family entry relation"
  by (simp add: below_family_def Let_def strip_suffix_slash nth_after_prefix_iff)

lemma relation_matches_filter_iff:
  "relation_matches_filter entry relation \<longleftrightarrow>
     (if entry = FILTER_ANY then True
      else if entry = FILTER_SEMANTIC then \<not> is_structural relation
      else entry = relation \<or> below_family entry relation)"
  unfolding relation_matches_filter_def family_test by simp

lemma is_structural_cases:
  "is_structural r \<longleftrightarrow> r = CONTAINS \<or> r = IMPORTS \<or> r = DEPENDS_ON \<or> r = HAS_VARIANT"
proof -
  have "\<not> is_type_family CONTAINS" "\<not> is_type_family IMPORTS" "\<not> is_type_family DEPENDS_ON"
    "\<not> is_type_family HAS_VARIANT"
    by (simp_all add: is_type_family_def relation_consts starts_with_def)
  then show ?thesis by (auto simp: is_structural_def)
qed

lemma structural_no_slash: "is_structural r \<Longrightarrow> CHR ''/'' \<notin> set r"
  unfolding is_structural_cases by (elim disjE) (simp_all add: relation_consts)

lemma filter_selects_any: "FILTER_ANY \<in> set entries \<Longrightarrow> filter_selects entries r"
proof -
  assume "FILTER_ANY \<in> set entries"
  moreover have "relation_matches_filter FILTER_ANY r" by (simp add: relation_matches_filter_iff)
  ultimately show ?thesis
    by (cases "entries = []") (auto simp: filter_selects_def filter_normalize_def list_ex_iff)
qed

section \<open>Properties\<close>

text \<open>What a relation filter entry selects: \<open>any\<close> everything, \<open>semantic\<close> everything but the
  four structural relations, and any other entry the relation of that name and the relations below
  it in its family (the entry with or without its trailing slash, then a slash).\<close>

theorem filter_entry_selects:
  "relation_matches_filter entry relation \<longleftrightarrow>
     (if entry = FILTER_ANY then True
      else if entry = FILTER_SEMANTIC
      then relation \<notin> {CONTAINS, IMPORTS, DEPENDS_ON, HAS_VARIANT}
      else entry = relation \<or> below_family entry relation)"
  by (simp add: relation_matches_filter_iff is_structural_cases)

end
