(* ===== verification/Core_State.thy ===== *)
theory Core_State
  imports Relation_Vocab
begin

text \<open>
  The incremental engine state of \<^verbatim>\<open>filigrio-core/src/state.rs\<close>: change sets, the file manifest,
  partitions, the workspace of projects, references and the reverse index, export and symbol
  indices, the persisted bundle \<open>graph_state\<close> and the patch \<open>graph_delta\<close>. The workspace lookup
  \<open>project_of\<close> is compared with the containment rule it replaces.
\<close>

section \<open>Change sets\<close>

record change_set =
  added :: "string list"
  modified :: "string list"
  removed :: "string list"

definition all_added :: "string list \<Rightarrow> change_set" where
  "all_added paths = \<lparr>added = paths, modified = [], removed = []\<rparr>"

definition cs_is_empty :: "change_set \<Rightarrow> bool" where
  "cs_is_empty c \<longleftrightarrow> added c = [] \<and> modified c = [] \<and> removed c = []"

definition cs_len :: "change_set \<Rightarrow> nat" where
  "cs_len c = length (added c) + length (modified c) + length (removed c)"

definition to_index :: "change_set \<Rightarrow> string list" where
  "to_index c = added c @ modified c"

definition touched :: "change_set \<Rightarrow> string list" where
  "touched c = added c @ modified c @ removed c"

section \<open>Manifest, partition, symbols\<close>

type_synonym u64 = "64 word"
type_synonym u16 = "16 word"

datatype revision = Revision (the_rev: string)

record manifest_entry =
  me_hash :: u64
  me_last_modified :: "u64 option"
  me_revision :: "revision option"

type_synonym file_manifest = "(string, manifest_entry) btree"

text \<open>\<open>filter_map(revision).max()\<close>: the greatest revision in the derived order of its string.\<close>

definition latest_revision :: "file_manifest \<Rightarrow> revision option" where
  "latest_revision m =
     (case List.map_filter (\<lambda>e. map_option the_rev (me_revision e)) (bt_values m) of
        [] \<Rightarrow> None
      | r # rs \<Rightarrow> Some (Revision (fold max rs r)))"

type_synonym community_id = u64

record community_meta =
  cm_id :: community_id
  cm_label :: string
  cm_size :: nat
  cm_cohesion_permille :: u16

record partition =
  node_community :: "(node_id, community_id) btree"
  communities :: "(community_id, community_meta) btree"

definition partition_default :: partition where
  "partition_default = \<lparr>node_community = bt_empty, communities = bt_empty\<rparr>"

type_synonym symbol_table = "(string, node_id) btree"

section \<open>The workspace\<close>

record project =
  p_root :: string
  p_manifest :: string
  p_name :: "string option"
  p_entry :: "string option"
  p_deps :: "string list"

type_synonym workspace = "(string, project) btree"

text \<open>The ancestor probe of \<open>Workspace::project_of\<close>: the loop over \<open>rfind('/')\<close>.\<close>

function probe_ancestors :: "workspace \<Rightarrow> string \<Rightarrow> project option" where
  "probe_ancestors ws dir =
     (case rfind_char CHR ''/'' dir of
        None \<Rightarrow> bt_get ws []
      | Some i \<Rightarrow>
          (case bt_get ws (take i dir) of
             Some p \<Rightarrow> Some p
           | None \<Rightarrow> probe_ancestors ws (take i dir)))"
  by pat_completeness auto
termination
  by (relation "measure (\<lambda>(ws, dir). length dir)") (auto dest: rfind_char_less)

declare probe_ancestors.simps [simp del]

definition project_of :: "workspace \<Rightarrow> string \<Rightarrow> project option" where
  "project_of ws path =
     (case bt_get ws path of Some p \<Rightarrow> Some p | None \<Rightarrow> probe_ancestors ws path)"

definition root_of :: "workspace \<Rightarrow> string \<Rightarrow> string option" where
  "root_of ws path = map_option p_root (project_of ws path)"

definition by_name :: "workspace \<Rightarrow> (string, project) btree" where
  "by_name ws =
     bt_collect (List.map_filter (\<lambda>p. map_option (\<lambda>n. (n, p)) (p_name p)) (bt_values ws))"

definition depends_on :: "workspace \<Rightarrow> (string, string list) btree" where
  "depends_on ws =
     (let names = by_name ws
      in bt_collect
           (map (\<lambda>p. (p_root p,
                      canon (filter (\<lambda>r. r \<noteq> p_root p)
                        (List.map_filter (\<lambda>d. map_option p_root (bt_get names d)) (p_deps p)))))
                (bt_values ws)))"

text \<open>The containment rule and the scan that \<open>project_of\<close> replaced; the code keeps both as the
  reference of its own test.\<close>

definition path_under :: "string \<Rightarrow> string \<Rightarrow> bool" where
  "path_under path root \<longleftrightarrow>
     root = [] \<or> path = root
     \<or> (case strip_prefix path root of None \<Rightarrow> False | Some rest \<Rightarrow> starts_with rest ''/'')"

text \<open>\<open>max_by_key\<close> returns the last of several maxima.\<close>

fun max_by_len :: "project option \<Rightarrow> project list \<Rightarrow> project option" where
  "max_by_len best [] = best"
| "max_by_len None (p # ps) = max_by_len (Some p) ps"
| "max_by_len (Some b) (p # ps) =
     max_by_len (Some (if length (p_root b) \<le> length (p_root p) then p else b)) ps"

definition project_of_by_scan :: "workspace \<Rightarrow> string \<Rightarrow> project option" where
  "project_of_by_scan ws path =
     max_by_len None (filter (\<lambda>p. path_under path (p_root p)) (bt_values ws))"

text \<open>The keying invariant \<open>maintain_workspace\<close> keeps: every project is stored under its root.\<close>

definition ws_ok :: "workspace \<Rightarrow> bool" where
  "ws_ok ws \<longleftrightarrow> bt_ok ws \<and> (\<forall>(k, p) \<in> set ws. p_root p = k)"

section \<open>References\<close>

text \<open>A reference site. The derived order of the Rust struct is lexicographic in the declared field
  order, \<open>None\<close> before \<open>Some\<close> and \<open>false\<close> before \<open>true\<close>.\<close>

datatype reference = Reference
  (r_source: node_id)
  (r_relation: string)
  (r_type_hint: "string option")
  (r_specifier: "string option")
  (r_imported: "string option")
  (r_recv_opaque: bool)
  (r_recv_returns: "string option")
  (r_recv_returns_owner: "string option")

definition ref_key ::
  "reference \<Rightarrow> node_id \<times> string \<times> string option \<times> string option \<times> string option \<times> bool
      \<times> string option \<times> string option"
where
  "ref_key r =
     (r_source r, r_relation r, r_type_hint r, r_specifier r, r_imported r, r_recv_opaque r,
      r_recv_returns r, r_recv_returns_owner r)"

lemma ref_key_inject [simp]: "ref_key r = ref_key s \<longleftrightarrow> r = s"
  by (cases r; cases s) (auto simp: ref_key_def)

instantiation reference :: linorder
begin

definition less_eq_reference :: "reference \<Rightarrow> reference \<Rightarrow> bool" where
  "less_eq_reference a b \<longleftrightarrow> ref_key a \<le> ref_key b"

definition less_reference :: "reference \<Rightarrow> reference \<Rightarrow> bool" where
  "less_reference a b \<longleftrightarrow> ref_key a < ref_key b"

instance
  by standard
    (auto simp: less_eq_reference_def less_reference_def intro: order.trans
      simp del: not_le dest: order.antisym)

end

type_synonym site = "node_id \<times> string"

definition ref_site :: "reference \<Rightarrow> site" where
  "ref_site r = (r_source r, r_relation r)"

definition edge_site :: "edge \<Rightarrow> site" where
  "edge_site e = (e_source e, e_relation e)"

type_synonym reverse_index = "(string, reference list) btree"
type_synonym export_index = "(string, export list) btree"

record symbol_defs =
  sd_nodes :: "node_id list"
  sd_modules :: "string list"

type_synonym symbol_index = "(string, symbol_defs) btree"

section \<open>The persisted bundle and the patch\<close>

record graph_state =
  s_graph :: graph
  s_partition :: partition
  s_symbols :: symbol_table
  s_reverse :: reverse_index
  s_manifest :: file_manifest
  s_workspace :: workspace
  s_exports :: export_index
  s_symbol_index :: symbol_index

definition graph_state_default :: graph_state where
  "graph_state_default =
     \<lparr>s_graph = \<lparr>g_nodes = [], g_edges = []\<rparr>, s_partition = partition_default,
      s_symbols = bt_empty, s_reverse = bt_empty, s_manifest = bt_empty, s_workspace = bt_empty,
      s_exports = bt_empty, s_symbol_index = bt_empty\<rparr>"

record graph_delta =
  d_nodes_added :: "node list"
  d_nodes_removed :: "node_id list"
  d_edges_added :: "edge list"
  d_edges_removed :: "edge list"
  d_dirty_files :: "string list"
  d_partition :: partition
  d_symbols :: symbol_table
  d_reverse_dropped :: "node_id list"
  d_reverse_added :: "(string \<times> reference) list"
  d_manifest :: file_manifest
  d_workspace :: workspace
  d_exports :: export_index
  d_symbol_index :: symbol_index
  d_affected :: nat
  d_vanished :: nat

section \<open>The ancestor probe agrees with the scan\<close>

lemma path_under_iff:
  "path_under path root \<longleftrightarrow> root = [] \<or> path = root \<or> (\<exists>rest. path = root @ ''/'' @ rest)"
proof (cases "strip_prefix path root")
  case None
  then have "\<forall>r. path \<noteq> root @ r" by (simp add: strip_prefix_None_iff starts_with_iff)
  with None show ?thesis by (auto simp: path_under_def)
next
  case (Some rest)
  then have "path = root @ rest" by (simp add: strip_prefix_Some_iff)
  with Some show ?thesis by (auto simp: path_under_def starts_with_iff)
qed

lemma path_under_same_length:
  "path_under path r \<Longrightarrow> path_under path s \<Longrightarrow> length r = length s \<Longrightarrow> r = s"
  by (auto simp: path_under_iff append_eq_append_conv2)

text \<open>The roots strictly above a path, from the nearest to the top, are those above its parent.\<close>

lemma slash_parent:
  assumes "rfind_char CHR ''/'' path = Some i"
  shows "(\<exists>rest. path = r @ CHR ''/'' # rest)
     \<longleftrightarrow> take i path = r \<or> (\<exists>rest. take i path = r @ CHR ''/'' # rest)"
proof -
  from assms obtain b where p: "path = take i path @ CHR ''/'' # b" and b: "CHR ''/'' \<notin> set b"
    by (auto simp: rfind_char_Some_iff)
  define a where "a = take i path"
  have path: "path = a @ CHR ''/'' # b" using p by (simp add: a_def)
  have "(\<exists>rest. a @ CHR ''/'' # b = r @ CHR ''/'' # rest)
      \<longleftrightarrow> a = r \<or> (\<exists>rest. a = r @ CHR ''/'' # rest)"
  proof
    assume "\<exists>rest. a @ CHR ''/'' # b = r @ CHR ''/'' # rest"
    then obtain rest where "a @ CHR ''/'' # b = r @ CHR ''/'' # rest" ..
    then obtain us where
      "a = r @ us \<and> us @ CHR ''/'' # b = CHR ''/'' # rest
       \<or> a @ us = r \<and> CHR ''/'' # b = us @ CHR ''/'' # rest"
      by (auto simp: append_eq_append_conv2)
    with b show "a = r \<or> (\<exists>rest. a = r @ CHR ''/'' # rest)"
      by (auto simp: Cons_eq_append_conv append_eq_Cons_conv)
  qed auto
  then show ?thesis
    unfolding a_def [symmetric] by (simp add: path)
qed

lemma path_under_parent:
  assumes "rfind_char CHR ''/'' path = Some i"
  shows "path_under path r \<longleftrightarrow> path = r \<or> path_under (take i path) r"
  using slash_parent [OF assms, of r] by (auto simp: path_under_iff)

lemma path_under_no_slash:
  "rfind_char CHR ''/'' path = None \<Longrightarrow> path_under path r \<longleftrightarrow> path = r \<or> r = []"
  by (auto simp: path_under_iff)

lemma probe_ancestors_SomeD:
  "ws_ok ws \<Longrightarrow> probe_ancestors ws path = Some p \<Longrightarrow>
     bt_get ws (p_root p) = Some p \<and> path_under path (p_root p)
     \<and> (\<forall>r. path_under path r \<longrightarrow> r \<noteq> path \<longrightarrow> bt_get ws r \<noteq> None \<longrightarrow> length r \<le> length (p_root p))"
proof (induction ws path rule: probe_ancestors.induct)
  case (1 ws path)
  have keyed: "bt_get ws k = Some q \<Longrightarrow> p_root q = k" for k q
    using "1.prems"(1) by (auto simp: ws_ok_def bt_in_set_iff [symmetric])
  show ?case
  proof (cases "rfind_char CHR ''/'' path")
    case None
    with "1.prems"(2) have "bt_get ws [] = Some p"
      by (subst (asm) probe_ancestors.simps) (simp split: option.splits)
    with None keyed show ?thesis by (auto simp: path_under_no_slash)
  next
    case (Some i)
    note parent = path_under_parent [OF Some]
    show ?thesis
    proof (cases "bt_get ws (take i path)")
      case None
      with Some "1.prems"(2) have "probe_ancestors ws (take i path) = Some p"
        by (subst (asm) probe_ancestors.simps) simp
      from "1.IH" [OF Some None "1.prems"(1) this] None parent show ?thesis by auto
    next
      case (Some q)
      with \<open>rfind_char CHR ''/'' path = Some i\<close> "1.prems"(2) have "bt_get ws (take i path) = Some p"
        by (subst (asm) probe_ancestors.simps) simp
      moreover from this keyed have "p_root p = take i path" by blast
      moreover have "length r \<le> length s" if "path_under s r" for r s
        using that by (auto simp: path_under_iff)
      moreover have "path_under s s" for s by (simp add: path_under_iff)
      ultimately show ?thesis using parent by metis
    qed
  qed
qed

lemma probe_ancestors_NoneD:
  "probe_ancestors ws path = None \<Longrightarrow> path_under path r \<Longrightarrow> r \<noteq> path \<Longrightarrow> bt_get ws r = None"
proof (induction ws path rule: probe_ancestors.induct)
  case (1 ws path)
  show ?case
  proof (cases "rfind_char CHR ''/'' path")
    case None
    with "1.prems" show ?thesis
      by (subst (asm) probe_ancestors.simps) (auto simp: path_under_no_slash)
  next
    case (Some i)
    with "1.prems"(1) have none: "bt_get ws (take i path) = None"
        "probe_ancestors ws (take i path) = None"
      by (subst (asm) probe_ancestors.simps, simp split: option.splits)+
    from "1.prems"(2,3) path_under_parent [OF Some] have "path_under (take i path) r" by auto
    with "1.IH" [OF Some none] none(1) show ?thesis by (cases "r = take i path") auto
  qed
qed

text \<open>What both compute: the stored project whose root is the longest one containing the path.\<close>

definition nearest_project :: "workspace \<Rightarrow> string \<Rightarrow> project option \<Rightarrow> bool" where
  "nearest_project ws path res \<longleftrightarrow>
     (case res of
        None \<Rightarrow> \<forall>r. path_under path r \<longrightarrow> bt_get ws r = None
      | Some p \<Rightarrow> bt_get ws (p_root p) = Some p \<and> path_under path (p_root p)
          \<and> (\<forall>r. path_under path r \<longrightarrow> bt_get ws r \<noteq> None \<longrightarrow> length r \<le> length (p_root p)))"

lemma nearest_project_unique:
  assumes "nearest_project ws path a" "nearest_project ws path b"
  shows "a = b"
proof (cases a; cases b)
  fix p q assume ab: "a = Some p" "b = Some q"
  with assms have "length (p_root p) = length (p_root q)"
    by (intro antisym) (auto simp: nearest_project_def)
  with assms ab have "p_root p = p_root q"
    by (intro path_under_same_length [of path]) (auto simp: nearest_project_def)
  with assms ab show "a = b" by (auto simp: nearest_project_def)
qed (use assms in \<open>auto simp: nearest_project_def\<close>)

lemma project_of_nearest: "ws_ok ws \<Longrightarrow> nearest_project ws path (project_of ws path)"
proof -
  assume ok: "ws_ok ws"
  have self: "path_under path path" by (simp add: path_under_iff)
  have le: "path_under path r \<Longrightarrow> length r \<le> length path" for r
    by (auto simp: path_under_iff)
  have keyed: "bt_get ws k = Some q \<Longrightarrow> p_root q = k" for k q
    using ok by (auto simp: ws_ok_def bt_in_set_iff [symmetric])
  show ?thesis
  proof (cases "bt_get ws path")
    case (Some p)
    with keyed self le show ?thesis by (auto simp: project_of_def nearest_project_def)
  next
    case None
    then have eq: "project_of ws path = probe_ancestors ws path" by (simp add: project_of_def)
    show ?thesis
    proof (cases "probe_ancestors ws path")
      case None
      with eq show ?thesis
        using probe_ancestors_NoneD [OF None] \<open>bt_get ws path = None\<close>
        by (auto simp: nearest_project_def)
    next
      case (Some p)
      with eq show ?thesis
        using probe_ancestors_SomeD [OF ok Some] \<open>bt_get ws path = None\<close>
        by (auto simp: nearest_project_def)
    qed
  qed
qed

lemma max_by_len_Some:
  "\<exists>p. max_by_len (Some b) ps = Some p \<and> p \<in> set (b # ps)
      \<and> (\<forall>q \<in> set (b # ps). length (p_root q) \<le> length (p_root p))"
proof (induction ps arbitrary: b)
  case Nil
  then show ?case by simp
next
  case (Cons x ps)
  from Cons.IH [of "if length (p_root b) \<le> length (p_root x) then x else b"]
  show ?case by (auto split: if_splits)
qed

lemma project_of_by_scan_nearest:
  assumes ok: "ws_ok ws"
  shows "nearest_project ws path (project_of_by_scan ws path)"
proof -
  let ?ps = "filter (\<lambda>p. path_under path (p_root p)) (bt_values ws)"
  have get: "q \<in> set (bt_values ws) \<longleftrightarrow> bt_get ws (p_root q) = Some q" for q
    using ok by (force simp: ws_ok_def bt_in_set_iff [symmetric] bt_values_def)
  have keyed: "bt_get ws k = Some q \<Longrightarrow> p_root q = k" for k q
    using ok by (auto simp: ws_ok_def bt_in_set_iff [symmetric])
  have in_ps: "q \<in> set ?ps \<longleftrightarrow> path_under path (p_root q) \<and> bt_get ws (p_root q) = Some q" for q
    using get by auto
  have some: "\<exists>q \<in> set ?ps. p_root q = r" if r: "path_under path r" "bt_get ws r \<noteq> None" for r
  proof -
    from r obtain q where "bt_get ws r = Some q" by auto
    with keyed r in_ps show ?thesis by auto
  qed
  show ?thesis
  proof (cases ?ps)
    case Nil
    with some have "\<forall>r. path_under path r \<longrightarrow> bt_get ws r = None" by (metis empty_iff empty_set)
    with Nil show ?thesis by (simp add: project_of_by_scan_def nearest_project_def)
  next
    case (Cons b ps)
    with max_by_len_Some [of b ps] obtain p where
      p: "project_of_by_scan ws path = Some p" "p \<in> set ?ps"
         "\<forall>q \<in> set ?ps. length (p_root q) \<le> length (p_root p)"
      unfolding project_of_by_scan_def by auto
    have here: "path_under path (p_root p)" "bt_get ws (p_root p) = Some p"
      using p(2) in_ps by blast+
    have "length r \<le> length (p_root p)" if "path_under path r" "bt_get ws r \<noteq> None" for r
      using some [OF that] p(3) by blast
    with here show ?thesis by (simp add: nearest_project_def p(1))
  qed
qed

section \<open>Properties\<close>

text \<open>The ancestor probe of \<^verbatim>\<open>Workspace::project_of\<close> is the scan it replaced: on a workspace
  keyed by root, probing the path and its ancestors finds the project the longest-root containment
  scan finds, for every path.\<close>

theorem project_of_is_scan:
  "ws_ok ws \<Longrightarrow> project_of ws path = project_of_by_scan ws path"
  using nearest_project_unique project_of_nearest project_of_by_scan_nearest by blast

definition example_ws :: workspace where
  "example_ws =
     bt_collect (map (\<lambda>r. (r, \<lparr>p_root = r, p_manifest = ''Cargo.toml'', p_name = None,
                               p_entry = None, p_deps = []\<rparr>)) [[], ''a'', ''a/b''])"

theorem project_of_is_scan_witness:
  "project_of example_ws ''a/bc/x.rs'' = project_of_by_scan example_ws ''a/bc/x.rs''
     \<and> root_of example_ws ''a/bc/x.rs'' = Some ''a''"
proof
  have "ws_ok example_ws" by code_simp
  then show "project_of example_ws ''a/bc/x.rs'' = project_of_by_scan example_ws ''a/bc/x.rs''"
    by (rule project_of_is_scan)
  show "root_of example_ws ''a/bc/x.rs'' = Some ''a''"
    by code_simp
qed

end
