(* ===== verification/Manifest_Parse.thy ===== *)
theory Manifest_Parse
  imports Core_State
begin

text \<open>
  How a project manifest is read: \<^verbatim>\<open>filigrio-resolve/src/manifest.rs\<close>. The TOML and \<open>go.mod\<close> readers
  are line scans and are translated; \<open>serde_json\<close> is third-party, so the JSON reader takes the parsed
  value from the parameter \<open>from_slice\<close>. \<open>String::from_utf8_lossy\<close> is the identity on UTF-8 input.
\<close>

datatype json =
    JNull
  | JBool bool
  | JNumber string
  | JString string
  | JArray "json list"
  | JObject "(string \<times> json) list"

fun json_get :: "json \<Rightarrow> string \<Rightarrow> json option" where
  "json_get (JObject kvs) k = map_of kvs k"
| "json_get _ k = None"

fun json_as_str :: "json \<Rightarrow> string option" where
  "json_as_str (JString s) = Some s"
| "json_as_str _ = None"

fun json_keys :: "json \<Rightarrow> string list option" where
  "json_keys (JObject kvs) = Some (map fst kvs)"
| "json_keys _ = None"

type_synonym json_reader = "bytes \<Rightarrow> json option"

record manifest =
  mf_name :: "string option"
  mf_entry :: "string option"
  mf_deps :: "string list"

definition manifest_default :: manifest where
  "manifest_default = \<lparr>mf_name = None, mf_entry = None, mf_deps = []\<rparr>"

fun or_else :: "'a option \<Rightarrow> 'a option \<Rightarrow> 'a option" where
  "or_else (Some x) _ = Some x"
| "or_else None y = y"

definition json_str_field :: "json \<Rightarrow> string \<Rightarrow> string option" where
  "json_str_field v k = Option.bind (json_get v k) json_as_str"

definition parse_json :: "json_reader \<Rightarrow> bytes \<Rightarrow> manifest" where
  "parse_json from_slice b =
     (case from_slice b of
        None \<Rightarrow> manifest_default
      | Some v \<Rightarrow>
          \<lparr>mf_name = json_str_field v ''name'',
           mf_entry =
             or_else (or_else (json_str_field v ''main'') (json_str_field v ''module''))
               (json_str_field v ''exports''),
           mf_deps =
             concat (map (\<lambda>field.
                 case Option.bind (json_get v field) json_keys of None \<Rightarrow> [] | Some ks \<Rightarrow> ks)
               [''dependencies'', ''devDependencies'', ''peerDependencies''])\<rparr>)"

definition toml_str_value :: "string \<Rightarrow> string \<Rightarrow> string option" where
  "toml_str_value line key =
     (case split_once ''='' line of
        None \<Rightarrow> None
      | Some (lhs, rhs) \<Rightarrow>
          if trim lhs \<noteq> key then None
          else
            (let val = trim (hd (split_str ''#'' (trim rhs)))
             in case strip_prefix val [CHR 0x22] of
                  None \<Rightarrow> None
                | Some s \<Rightarrow> strip_suffix s [CHR 0x22]))"

text \<open>One line of \<open>parse_toml\<close>; the state is the current table header and the manifest so far.\<close>

definition toml_line :: "string \<Rightarrow> string \<times> manifest \<Rightarrow> string \<Rightarrow> string \<times> manifest" where
  "toml_line section st line =
     (let (cur, m) = st; t = trim line
      in case Option.bind (strip_prefix t ''['') (\<lambda>s. strip_suffix s '']'') of
           Some table \<Rightarrow> (trim table, m)
         | None \<Rightarrow>
             (let m1 =
                (if cur = section
                 then (case toml_str_value t ''name'' of
                         None \<Rightarrow> m
                       | Some name \<Rightarrow> m\<lparr>mf_name := or_else (mf_name m) (Some name)\<rparr>)
                 else m);
                m2 =
                (if cur = ''dependencies'' \<or> cur = ''dev-dependencies''
                 then (case split_once ''='' t of
                         None \<Rightarrow> m1
                       | Some (lhs, _) \<Rightarrow>
                           (let key = trim lhs
                            in if key \<noteq> [] \<and> \<not> starts_with key ''[''
                               then m1\<lparr>mf_deps := mf_deps m1 @ [key]\<rparr> else m1))
                 else m1)
              in (cur, m2)))"

definition parse_toml :: "bytes \<Rightarrow> string \<Rightarrow> manifest" where
  "parse_toml b section = snd (foldl (toml_line section) ([], manifest_default) (lines b))"

definition parse_pyproject :: "bytes \<Rightarrow> manifest" where
  "parse_pyproject b =
     (let project = parse_toml b ''project''
      in if mf_name project \<noteq> None then project\<lparr>mf_deps := []\<rparr>
         else (parse_toml b ''tool.poetry'')\<lparr>mf_deps := []\<rparr>)"

definition trim_quotes :: "string \<Rightarrow> string" where
  "trim_quotes s = trim_end_char (CHR 0x22) (trim_start_char (CHR 0x22) s)"

definition go_mod_line :: "bool \<times> manifest \<Rightarrow> string \<Rightarrow> bool \<times> manifest" where
  "go_mod_line st line =
     (let (in_require, m) = st; t = trim line;
          push = (\<lambda>w. case w of None \<Rightarrow> m | Some path \<Rightarrow> m\<lparr>mf_deps := mf_deps m @ [path]\<rparr>)
      in case strip_prefix t ''module '' of
           Some rest \<Rightarrow>
             (let name = trim (trim_quotes (trim rest))
              in (in_require,
                  if name \<noteq> [] then m\<lparr>mf_name := or_else (mf_name m) (Some name)\<rparr> else m))
         | None \<Rightarrow>
             if t = ''require ('' then (True, m)
             else if in_require \<and> t = '')'' then (False, m)
             else
               (case strip_prefix t ''require '' of
                  Some one \<Rightarrow> (in_require, push (first_word one))
                | None \<Rightarrow> if in_require then (in_require, push (first_word t)) else (in_require, m)))"

definition parse_go_mod :: "bytes \<Rightarrow> manifest" where
  "parse_go_mod b = snd (foldl go_mod_line (False, manifest_default) (lines b))"

definition manifest_parse :: "json_reader \<Rightarrow> string \<Rightarrow> bytes \<Rightarrow> manifest" where
  "manifest_parse from_slice basename b =
     (if basename = ''package.json'' \<or> basename = ''deno.json'' \<or> basename = ''deno.jsonc''
      then parse_json from_slice b
      else if basename = ''Cargo.toml'' then parse_toml b ''package''
      else if basename = ''pyproject.toml'' then parse_pyproject b
      else if basename = ''go.mod'' then parse_go_mod b
      else manifest_default)"

section \<open>What the scans guarantee\<close>

text \<open>The first name wins, and dependency names are never empty.\<close>

lemma or_else_Some_iff: "or_else a b = Some x \<longleftrightarrow> a = Some x \<or> (a = None \<and> b = Some x)"
  by (cases a) auto

lemma toml_line_name_stable:
  "mf_name (snd st) = Some n \<Longrightarrow> mf_name (snd (toml_line sec st line)) = Some n"
  by (cases st) (auto simp: toml_line_def Let_def split: option.splits)

lemma toml_line_deps_nonempty:
  "[] \<notin> set (mf_deps (snd st)) \<Longrightarrow> [] \<notin> set (mf_deps (snd (toml_line sec st line)))"
  by (cases st) (auto simp: toml_line_def Let_def split: option.splits)

lemma foldl_invariant:
  "P s \<Longrightarrow> (\<And>s x. P s \<Longrightarrow> P (f s x)) \<Longrightarrow> P (foldl f s xs)"
  by (induction xs arbitrary: s) auto

lemma parse_toml_deps_nonempty: "[] \<notin> set (mf_deps (parse_toml b sec))"
  unfolding parse_toml_def
  by (rule foldl_invariant [where P = "\<lambda>st. [] \<notin> set (mf_deps (snd st))"])
     (simp_all add: manifest_default_def toml_line_deps_nonempty)

lemma first_word_not_Nil: "first_word s = Some w \<Longrightarrow> w \<noteq> []"
  by (auto simp: first_word_def Let_def split: if_splits)

lemma go_mod_line_deps_nonempty:
  "[] \<notin> set (mf_deps (snd st)) \<Longrightarrow> [] \<notin> set (mf_deps (snd (go_mod_line st line)))"
  by (cases st) (auto simp: go_mod_line_def Let_def dest: first_word_not_Nil split: option.splits)

lemma parse_go_mod_deps_nonempty: "[] \<notin> set (mf_deps (parse_go_mod b))"
  unfolding parse_go_mod_def
  by (rule foldl_invariant [where P = "\<lambda>st. [] \<notin> set (mf_deps (snd st))"])
     (simp_all add: manifest_default_def go_mod_line_deps_nonempty)

section \<open>Properties\<close>

text \<open>No manifest reader returns an empty dependency name: for every TOML section and every
  \<open>go.mod\<close>, whatever the bytes, the names read are non-empty, and a \<open>name\<close> once read is not
  overwritten by a later line of the section.\<close>

theorem manifest_deps_nonempty:
  "[] \<notin> set (mf_deps (parse_toml b sec)) \<and> [] \<notin> set (mf_deps (parse_go_mod b))"
  by (simp add: parse_toml_deps_nonempty parse_go_mod_deps_nonempty)

end
