(* ===== verification/Modres.thy ===== *)
theory Modres
  imports Manifest_Parse
begin

text \<open>
  The source-only module resolver of \<^verbatim>\<open>filigrio-resolve/src/modres.rs\<close> and the module bridge of
  \<^verbatim>\<open>module.rs\<close>: relative specifiers, workspace packages and Rust module paths, probed against the
  \<open>Source\<close> port. It shows that a resolved file exists, that the package lookup by prefixes is the
  longest-name match, and that its notion of the enclosing project is the workspace's.
\<close>

record package =
  pk_dir :: string
  pk_entry :: "string option"

record source_resolver =
  mr_exists :: "string \<Rightarrow> bool"
  mr_packages :: "(string, package) btree"
  mr_roots :: "string list"

definition EXTS :: "string list" where
  "EXTS = [''ts'', ''tsx'', ''js'', ''jsx'', ''mjs'', ''cjs'', ''rs'', ''py'', ''go'']"

definition DEFAULT_ENTRIES :: "string list" where
  "DEFAULT_ENTRIES =
     [''index.ts'', ''index.js'', ''src/index.ts'', ''src/index.js'', ''src/lib.rs'', ''src/main.rs'']"

definition module_of :: "string \<Rightarrow> string" where
  "module_of file = file"

definition from_workspace :: "source_port \<Rightarrow> workspace \<Rightarrow> source_resolver" where
  "from_workspace source ws =
     \<lparr>mr_exists = src_exists source,
      mr_packages =
        bt_map_values (\<lambda>p. \<lparr>pk_dir = p_root p, pk_entry = p_entry p\<rparr>) (by_name ws),
      mr_roots = bt_keys ws\<rparr>"

section \<open>Paths\<close>

definition dir_of :: "string \<Rightarrow> string" where
  "dir_of path = (case rfind_char CHR ''/'' path of Some i \<Rightarrow> take i path | None \<Rightarrow> [])"

definition is_under :: "string \<Rightarrow> string \<Rightarrow> bool" where
  "is_under path pre \<longleftrightarrow>
     length path > length pre \<and> path ! length pre = CHR ''/'' \<and> starts_with path pre"

definition join_path :: "string \<Rightarrow> string \<Rightarrow> string" where
  "join_path dir name = (if dir = [] then name else trim_end_char CHR ''/'' dir @ ''/'' @ name)"

fun normalize_step :: "string list \<Rightarrow> string \<Rightarrow> string list" where
  "normalize_step segs part =
     (if part = [] \<or> part = ''.'' then segs
      else if part = ''..'' then butlast segs
      else segs @ [part])"

definition normalize_join :: "string \<Rightarrow> string \<Rightarrow> string" where
  "normalize_join base rel =
     join_str ''/''
       (foldl normalize_step (if base = [] then [] else split_str ''/'' base)
         (split_str ''/'' rel))"

section \<open>Probing\<close>

definition probe_candidates :: "string \<Rightarrow> string list" where
  "probe_candidates path =
     path # map (\<lambda>e. path @ ''.'' @ e) EXTS @ map (\<lambda>e. path @ ''/index.'' @ e) EXTS"

definition probe :: "source_resolver \<Rightarrow> string \<Rightarrow> string option" where
  "probe r path = find (mr_exists r) (probe_candidates path)"

function package_at :: "source_resolver \<Rightarrow> string \<Rightarrow> (string \<times> package) option" where
  "package_at r s =
     (case bt_get (mr_packages r) s of
        Some pkg \<Rightarrow> Some (s, pkg)
      | None \<Rightarrow>
          (case rfind_char CHR ''/'' s of
             None \<Rightarrow> None
           | Some i \<Rightarrow> package_at r (take i s)))"
  by pat_completeness auto
termination
  by (relation "measure (\<lambda>(r, s). length s)") (auto dest: rfind_char_less)

declare package_at.simps [simp del]

definition package_of :: "source_resolver \<Rightarrow> string \<Rightarrow> (string \<times> package) option" where
  "package_of r specifier = package_at r specifier"

definition entry_of :: "source_resolver \<Rightarrow> package \<Rightarrow> string option" where
  "entry_of r pkg =
     or_else
       (case pk_entry pkg of
          None \<Rightarrow> None
        | Some entry \<Rightarrow> probe r (join_path (pk_dir pkg) entry))
       (find (mr_exists r) (map (join_path (pk_dir pkg)) DEFAULT_ENTRIES))"

section \<open>Rust module paths\<close>

fun longest_root :: "string option \<Rightarrow> string list \<Rightarrow> string option" where
  "longest_root best [] = best"
| "longest_root None (r # rs) = longest_root (Some r) rs"
| "longest_root (Some b) (r # rs) = longest_root (Some (if length b \<le> length r then r else b)) rs"

definition mr_root_of :: "source_resolver \<Rightarrow> string \<Rightarrow> string option" where
  "mr_root_of r file =
     longest_root None (filter (\<lambda>root. root = [] \<or> file = root \<or> is_under file root) (mr_roots r))"

definition crate_module_base :: "source_resolver \<Rightarrow> string \<Rightarrow> string" where
  "crate_module_base r root =
     (let src = join_path root ''src''
      in case find (\<lambda>cand. mr_exists r (join_path cand ''lib.rs'')
                         \<or> mr_exists r (join_path cand ''main.rs'')) [src, root] of
           Some cand \<Rightarrow> cand
         | None \<Rightarrow> src)"

definition module_segments :: "source_resolver \<Rightarrow> string \<Rightarrow> string \<Rightarrow> string list" where
  "module_segments r root file =
     (let base = crate_module_base r root;
          rel = (case strip_prefix file base of
                   Some s \<Rightarrow> trim_start_char CHR ''/'' s
                 | None \<Rightarrow> file);
          stem = (case strip_suffix rel ''.rs'' of Some s \<Rightarrow> s | None \<Rightarrow> rel);
          segs = split_str ''/'' stem
      in if last segs \<in> set [''mod'', ''lib'', ''main''] then butlast segs else segs)"

definition probe_rust_module :: "source_resolver \<Rightarrow> string \<Rightarrow> string list \<Rightarrow> string option" where
  "probe_rust_module r base segs =
     (if segs = []
      then find (mr_exists r) (map (join_path base) [''lib.rs'', ''main.rs'', ''mod.rs''])
      else
        (let stem = join_path base (join_str ''/'' segs)
         in find (mr_exists r) [stem @ ''.rs'', stem @ ''/mod.rs'']))"

definition resolve_rust :: "source_resolver \<Rightarrow> string \<Rightarrow> string \<Rightarrow> string option" where
  "resolve_rust r importing_file spec =
     (case filter (\<lambda>s. s \<noteq> []) (map trim (split_str ''::'' spec)) of
        [] \<Rightarrow> None
      | head # rest \<Rightarrow>
          (case mr_root_of r importing_file of
             None \<Rightarrow> None
           | Some root \<Rightarrow>
               (case
                  (if head = ''crate'' then Some (crate_module_base r root, [])
                   else if head = ''self''
                   then Some (crate_module_base r root, module_segments r root importing_file)
                   else if head = ''super''
                   then Some (crate_module_base r root,
                              butlast (module_segments r root importing_file))
                   else map_option (\<lambda>pkg. (crate_module_base r (pk_dir pkg), []))
                          (bt_get (mr_packages r) head))
                of None \<Rightarrow> None
                 | Some (base, path) \<Rightarrow> probe_rust_module r base (path @ rest))))"

section \<open>The resolver\<close>

definition source_resolve :: "source_resolver \<Rightarrow> module_resolver" where
  "source_resolve r importing_file specifier =
     (if ends_with importing_file ''.rs'' \<and> \<not> starts_with specifier ''.''
         \<and> \<not> starts_with specifier ''@'' \<and> \<not> contains_str specifier ''/''
      then resolve_rust r importing_file specifier
      else if starts_with specifier ''.''
      then probe r (normalize_join (dir_of importing_file) specifier)
      else
        (case package_of r specifier of
           None \<Rightarrow> None
         | Some (name, pkg) \<Rightarrow>
             if specifier = name then entry_of r pkg
             else probe r (join_path (pk_dir pkg) (drop (length name + 1) specifier))))"

section \<open>A resolved file exists\<close>

lemma find_SomeD: "find P xs = Some x \<Longrightarrow> P x \<and> x \<in> set xs"
  by (induction xs) (auto split: if_splits)

lemma probe_exists: "probe r p = Some f \<Longrightarrow> mr_exists r f"
  by (auto simp: probe_def dest: find_SomeD)

lemma entry_of_exists: "entry_of r pkg = Some f \<Longrightarrow> mr_exists r f"
  by (auto simp: entry_of_def or_else_Some_iff dest: find_SomeD probe_exists split: option.splits)

lemma probe_rust_module_exists: "probe_rust_module r base segs = Some f \<Longrightarrow> mr_exists r f"
  by (auto simp: probe_rust_module_def Let_def dest: find_SomeD split: if_splits)

lemma resolve_rust_exists: "resolve_rust r i s = Some f \<Longrightarrow> mr_exists r f"
  by (auto simp: resolve_rust_def dest: probe_rust_module_exists
      split: list.splits option.splits prod.splits if_splits)

lemma source_resolve_exists: "source_resolve r i s = Some f \<Longrightarrow> mr_exists r f"
  by (auto simp: source_resolve_def
      dest: resolve_rust_exists probe_exists entry_of_exists split: if_splits option.splits)

section \<open>The package lookup is the longest-name match\<close>

lemma is_under_iff: "is_under p q \<longleftrightarrow> (\<exists>rest. p = q @ CHR ''/'' # rest)"
  using nth_after_prefix_iff [of q p] by (auto simp: is_under_def)

lemma is_under_length: "is_under p q \<Longrightarrow> length q < length p"
  by (simp add: is_under_def)

lemma is_under_parent:
  "rfind_char CHR ''/'' p = Some i \<Longrightarrow> is_under p q \<longleftrightarrow> take i p = q \<or> is_under (take i p) q"
  unfolding is_under_iff by (rule slash_parent)

lemma is_under_no_slash: "rfind_char CHR ''/'' p = None \<Longrightarrow> \<not> is_under p q"
  by (auto simp: is_under_iff)

definition names_or_holds :: "string \<Rightarrow> string \<Rightarrow> bool" where
  "names_or_holds spec name \<longleftrightarrow> spec = name \<or> is_under spec name"

lemma package_at_SomeD:
  "package_at r s = Some (name, pkg) \<Longrightarrow>
     bt_get (mr_packages r) name = Some pkg \<and> names_or_holds s name
     \<and> (\<forall>n'. bt_get (mr_packages r) n' \<noteq> None \<longrightarrow> names_or_holds s n' \<longrightarrow> length n' \<le> length name)"
proof (induction r s rule: package_at.induct)
  case (1 r s)
  show ?case
  proof (cases "bt_get (mr_packages r) s")
    case (Some q)
    with "1.prems" have "name = s" "pkg = q" by (simp_all add: package_at.simps [of r s])
    with Some show ?thesis by (auto simp: names_or_holds_def dest: is_under_length)
  next
    case None
    with "1.prems" obtain i where i: "rfind_char CHR ''/'' s = Some i"
      "package_at r (take i s) = Some (name, pkg)"
      by (subst (asm) package_at.simps) (auto split: option.splits)
    from "1.IH" [OF None i] None is_under_parent [OF i(1)] show ?thesis
      by (auto simp: names_or_holds_def)
  qed
qed

lemma package_at_NoneD:
  "package_at r s = None \<Longrightarrow> names_or_holds s n' \<Longrightarrow> bt_get (mr_packages r) n' = None"
proof (induction r s rule: package_at.induct)
  case (1 r s)
  from "1.prems"(1) have none: "bt_get (mr_packages r) s = None"
    by (subst (asm) package_at.simps) (auto split: option.splits)
  show ?case
  proof (cases "rfind_char CHR ''/'' s")
    case None
    with none "1.prems"(2) show ?thesis by (auto simp: names_or_holds_def is_under_no_slash)
  next
    case (Some i)
    with none "1.prems"(1) have "package_at r (take i s) = None"
      by (subst (asm) package_at.simps) simp
    from "1.IH" [OF none Some this] none "1.prems"(2) is_under_parent [OF Some] show ?thesis
      by (auto simp: names_or_holds_def)
  qed
qed

lemma names_or_holds_same_length:
  "names_or_holds s a \<Longrightarrow> names_or_holds s b \<Longrightarrow> length a = length b \<Longrightarrow> a = b"
  by (auto simp: names_or_holds_def is_under_iff append_eq_append_conv2)

section \<open>The enclosing root is the workspace's\<close>

lemma longest_root_Some:
  "\<exists>r. longest_root (Some b) rs = Some r \<and> r \<in> set (b # rs)
      \<and> (\<forall>q \<in> set (b # rs). length q \<le> length r)"
proof (induction rs arbitrary: b)
  case Nil
  then show ?case by simp
next
  case (Cons x rs)
  from Cons.IH [of "if length b \<le> length x then x else b"] show ?case by (auto split: if_splits)
qed

lemma under_path_under: "root = [] \<or> file = root \<or> is_under file root \<longleftrightarrow> path_under file root"
  by (auto simp: path_under_iff is_under_iff)

lemma mr_root_of_workspace:
  assumes ok: "ws_ok ws"
  shows "mr_root_of (from_workspace source ws) file = root_of ws file"
proof -
  let ?rs = "filter (path_under file) (bt_keys ws)"
  have keyed: "bt_get ws k = Some q \<Longrightarrow> p_root q = k" for k q
    using ok by (auto simp: ws_ok_def bt_in_set_iff [symmetric])
  have mem: "k \<in> set ?rs \<longleftrightarrow> path_under file k \<and> bt_get ws k \<noteq> None" for k
    by (auto simp: bt_keys_def bt_get_def map_of_eq_None_iff)
  have eq: "mr_root_of (from_workspace source ws) file = longest_root None ?rs"
    by (simp add: mr_root_of_def from_workspace_def under_path_under)
  show ?thesis
  proof (cases ?rs)
    case Nil
    with mem have "\<forall>k. path_under file k \<longrightarrow> bt_get ws k = None"
      by (metis empty_iff empty_set)
    then have "project_of ws file = None"
      using project_of_nearest [OF ok, where path = "file"]
      by (intro nearest_project_unique [of ws "file"]) (auto simp: nearest_project_def)
    with eq Nil show ?thesis by (simp add: root_of_def)
  next
    case (Cons b rs)
    with longest_root_Some [of b rs] eq obtain r where
      r: "mr_root_of (from_workspace source ws) file = Some r" "r \<in> set ?rs"
         "\<forall>q \<in> set ?rs. length q \<le> length r" by auto
    with mem obtain p where p: "bt_get ws r = Some p" by auto
    have "project_of ws file = Some p"
      using project_of_nearest [OF ok, where path = "file"] r p keyed [OF p] mem
      by (intro nearest_project_unique [of ws "file"]) (auto simp: nearest_project_def)
    with r keyed [OF p] show ?thesis by (simp add: root_of_def)
  qed
qed

section \<open>Relative specifiers stay inside\<close>

text \<open>The joined path never gains a \<open>.\<close>, \<open>..\<close> or empty segment from the specifier.\<close>

definition clean_seg :: "string \<Rightarrow> bool" where
  "clean_seg s \<longleftrightarrow> s \<noteq> [] \<and> s \<noteq> ''.'' \<and> s \<noteq> ''..''"

lemma normalize_step_clean:
  "list_all clean_seg segs \<Longrightarrow> list_all clean_seg (normalize_step segs p)"
  by (auto simp: list_all_iff clean_seg_def dest: in_set_butlastD)

lemma foldl_normalize_clean:
  "list_all clean_seg segs \<Longrightarrow> list_all clean_seg (foldl normalize_step segs parts)"
  by (rule foldl_invariant) (auto simp del: normalize_step.simps intro: normalize_step_clean)

section \<open>Properties\<close>

text \<open>A module the resolver returns exists in the source: on every branch (relative path, Rust
  module path, workspace package, package subpath) the file it names was probed.\<close>

theorem resolved_module_exists:
  "source_resolve (from_workspace source ws) importing_file specifier = Some f \<Longrightarrow> src_exists source f"
  using source_resolve_exists [of "from_workspace source ws"] by (simp add: from_workspace_def)

definition example_source :: source_port where
  "example_source = \<lparr>src_exists = (\<lambda>p. p = ''src/a/index.ts''), src_read = (\<lambda>_. Inr [])\<rparr>"

theorem resolved_module_exists_witness: "src_exists example_source ''src/a/index.ts''"
proof -
  have "source_resolve (from_workspace example_source bt_empty) ''src/b/c.ts'' ''../a'' = Some ''src/a/index.ts''"
    by code_simp
  then show ?thesis by (rule resolved_module_exists)
qed

text \<open>The package lookup that strips one path segment of the specifier at a time is the
  longest-name match: it finds the package with the longest name that is the specifier or a path
  prefix of it, and nothing exactly when no package name is one.\<close>

theorem package_lookup_longest:
  "case package_of r specifier of
     Some (name, pkg) \<Rightarrow> bt_get (mr_packages r) name = Some pkg
       \<and> (specifier = name \<or> is_under specifier name)
       \<and> (\<forall>n. length name < length n \<longrightarrow> bt_get (mr_packages r) n = None
               \<or> \<not> (specifier = n \<or> is_under specifier n))
   | None \<Rightarrow> \<forall>n. bt_get (mr_packages r) n = None \<or> \<not> (specifier = n \<or> is_under specifier n)"
proof (cases "package_of r specifier")
  case None
  then show ?thesis
    using package_at_NoneD [of r specifier]
    by (auto simp: package_of_def names_or_holds_def is_under_iff)
next
  case (Some np)
  obtain name pkg where np: "np = (name, pkg)" by force
  from package_at_SomeD [of r specifier name pkg] Some np show ?thesis
    by (auto simp: package_of_def names_or_holds_def is_under_iff not_le [symmetric])
qed

definition example_packages :: source_resolver where
  "example_packages =
     \<lparr>mr_exists = (\<lambda>_. False),
      mr_packages = bt_collect [(''@x'', \<lparr>pk_dir = ''x'', pk_entry = None\<rparr>),
                                (''@x/y'', \<lparr>pk_dir = ''y'', pk_entry = None\<rparr>)],
      mr_roots = []\<rparr>"

theorem package_lookup_longest_witness:
  "package_of example_packages ''@x/y/z'' = Some (''@x/y'', \<lparr>pk_dir = ''y'', pk_entry = None\<rparr>)
   \<and> is_under ''@x/y/z'' ''@x/y''"
proof
  show p: "package_of example_packages ''@x/y/z'' = Some (''@x/y'', \<lparr>pk_dir = ''y'', pk_entry = None\<rparr>)"
    by code_simp
  have "''@x/y/z'' \<noteq> ''@x/y''" by simp
  with package_lookup_longest [of example_packages "''@x/y/z''"] show "is_under ''@x/y/z'' ''@x/y''"
    unfolding p by simp
qed

end
