(* ===== verification/Export_Graph.thy ===== *)
theory Export_Graph
  imports Modres
begin

text \<open>
  The export graph of \<^verbatim>\<open>filigrio-resolve/src/export_graph.rs\<close>: per-module export tables, and the walk
  that follows named and wildcard re-exports to a definition. The Rust walk threads one mutable set
  of visited pairs through its recursion; the model threads it explicitly and spends one unit of fuel
  per call. \<open>walk_enough\<close> shows that the fuel \<open>walk_fuel\<close> is never exhausted, cycles included, so the
  model of \<open>resolve_import\<close> never stops early.
\<close>

datatype entry = Terminal node_id | Follow string string \<comment> \<open>specifier, imported\<close>

type_synonym module_id = string
type_synonym def_map = "(module_id \<times> string, node_id) btree"

record export_graph =
  eg_tables :: "(module_id, (string, entry) btree) btree"
  eg_stars :: "(module_id, string list) btree"
  eg_local_def :: def_map
  eg_resolver :: module_resolver

section \<open>Building the tables\<close>

text \<open>One export of a file: the file's table and the wildcard specifiers.\<close>

fun add_export ::
  "def_map \<Rightarrow> module_id \<Rightarrow> (string, entry) btree \<times> (module_id, string list) btree \<Rightarrow> export \<Rightarrow>
     (string, entry) btree \<times> (module_id, string list) btree"
where
  "add_export local_def m (table, stars) (Local name) =
     (case bt_get local_def (m, name) of
        Some d \<Rightarrow> (bt_insert name (Terminal d) table, stars)
      | None \<Rightarrow> (table, stars))"
| "add_export local_def m (table, stars) (ReExport name specifier imported) =
     (bt_insert name (Follow specifier imported) table, stars)"
| "add_export local_def m (table, stars) (Star specifier) = (table, bt_push m specifier stars)"

definition add_file ::
  "def_map \<Rightarrow> (module_id, (string, entry) btree) btree \<times> (module_id, string list) btree \<Rightarrow>
     string \<times> export list \<Rightarrow>
     (module_id, (string, entry) btree) btree \<times> (module_id, string list) btree"
where
  "add_file local_def st fe =
     (let (tables, stars) = st; (fname, exports) = fe; m = module_of fname;
          table = (case bt_get tables m of None \<Rightarrow> bt_empty | Some t \<Rightarrow> t);
          (table', stars') = foldl (add_export local_def m) (table, stars) exports
      in (bt_insert m table' tables, stars'))"

definition eg_build :: "export_index \<Rightarrow> def_map \<Rightarrow> module_resolver \<Rightarrow> export_graph" where
  "eg_build exports_by_file local_def resolver =
     (let (tables, stars) = foldl (add_file local_def) (bt_empty, bt_empty) exports_by_file
      in \<lparr>eg_tables = tables, eg_stars = stars, eg_local_def = local_def,
          eg_resolver = resolver\<rparr>)"

section \<open>The walk\<close>

definition eg_entry :: "export_graph \<Rightarrow> module_id \<Rightarrow> string \<Rightarrow> entry option" where
  "eg_entry g m name = Option.bind (bt_get (eg_tables g) m) (\<lambda>t. bt_get t name)"

type_synonym visited = "(module_id \<times> string) list"

function walk ::
  "nat \<Rightarrow> export_graph \<Rightarrow> module_id \<Rightarrow> string \<Rightarrow> visited \<Rightarrow> (node_id option \<times> visited) option"
and walk_stars ::
  "nat \<Rightarrow> export_graph \<Rightarrow> module_id \<Rightarrow> string \<Rightarrow> string list \<Rightarrow> visited \<Rightarrow>
     (node_id option \<times> visited) option"
where
  "walk 0 g m name visited = None"
| "walk (Suc fuel) g m name visited =
     (if (m, name) \<in> set visited then Some (None, visited)
      else
        (let visited' = (m, name) # visited
         in case eg_entry g m name of
              Some (Terminal d) \<Rightarrow> Some (Some d, visited')
            | Some (Follow specifier imported) \<Rightarrow>
                (case eg_resolver g m specifier of
                   None \<Rightarrow> Some (None, visited')
                 | Some target \<Rightarrow> walk fuel g (module_of target) imported visited')
            | None \<Rightarrow> walk_stars fuel g m name (bt_get_list (eg_stars g) m) visited'))"
| "walk_stars fuel g m name [] visited = Some (None, visited)"
| "walk_stars fuel g m name (spec # specs) visited =
     (case eg_resolver g m spec of
        None \<Rightarrow> walk_stars fuel g m name specs visited
      | Some target \<Rightarrow>
          (case walk fuel g (module_of target) name visited of
             None \<Rightarrow> None
           | Some (Some d, visited') \<Rightarrow> Some (Some d, visited')
           | Some (None, visited') \<Rightarrow> walk_stars fuel g m name specs visited'))"
  by pat_completeness auto
termination
  by (relation "measures
       [\<lambda>x. case x of Inl (fuel, _) \<Rightarrow> fuel | Inr (fuel, _) \<Rightarrow> fuel,
        \<lambda>x. case x of Inl _ \<Rightarrow> 0 | Inr (_, _, _, _, specs, _) \<Rightarrow> Suc (length specs)]")
     auto

text \<open>The pairs a walk can extend: modules with a table or wildcards, names asked or imported.\<close>

definition walk_modules :: "export_graph \<Rightarrow> module_id list" where
  "walk_modules g = bt_keys (eg_tables g) @ bt_keys (eg_stars g)"

fun entry_names :: "entry \<Rightarrow> string list" where
  "entry_names (Terminal d) = []"
| "entry_names (Follow specifier imported) = [imported]"

definition walk_names :: "export_graph \<Rightarrow> string list" where
  "walk_names g = concat (map entry_names (concat (map bt_values (bt_values (eg_tables g)))))"

definition walk_fuel :: "export_graph \<Rightarrow> nat" where
  "walk_fuel g = Suc (Suc (length (walk_modules g) * Suc (length (walk_names g))))"

definition resolve_import :: "export_graph \<Rightarrow> module_id \<Rightarrow> string \<Rightarrow> node_id option" where
  "resolve_import g m imported =
     or_else
       (case walk (walk_fuel g) g m imported [] of
          None \<Rightarrow> None
        | Some (res, _) \<Rightarrow> res)
       (bt_get (eg_local_def g) (m, imported))"

section \<open>The walk ends\<close>

definition walk_universe :: "export_graph \<Rightarrow> string \<Rightarrow> (module_id \<times> string) set" where
  "walk_universe g name0 = set (walk_modules g) \<times> insert name0 (set (walk_names g))"

lemma finite_walk_universe [simp]: "finite (walk_universe g n0)"
  by (simp add: walk_universe_def)

lemma card_walk_universe: "card (walk_universe g n0) < walk_fuel g"
proof -
  have "card (set (walk_modules g)) \<le> length (walk_modules g)"
    by (rule card_length)
  moreover have "card (insert n0 (set (walk_names g))) \<le> Suc (length (walk_names g))"
    by (metis card_length length_Cons list.simps(15))
  ultimately have
    "card (walk_universe g n0) \<le> length (walk_modules g) * Suc (length (walk_names g))"
    unfolding walk_universe_def card_cartesian_product by (rule mult_le_mono)
  then show ?thesis by (simp add: walk_fuel_def)
qed

lemma eg_entry_module: "eg_entry g m n = Some e \<Longrightarrow> m \<in> set (walk_modules g)"
  by (auto simp: eg_entry_def walk_modules_def bt_keys_def bt_get_def bind_eq_Some_conv
      dest: map_of_SomeD intro: rev_image_eqI)

lemma eg_entry_name: "eg_entry g m n = Some (Follow s i) \<Longrightarrow> i \<in> set (walk_names g)"
proof -
  assume "eg_entry g m n = Some (Follow s i)"
  then obtain t where "(m, t) \<in> set (eg_tables g)" "(n, Follow s i) \<in> set t"
    by (auto simp: eg_entry_def bt_get_def bind_eq_Some_conv dest!: map_of_SomeD)
  then have "Follow s i \<in> set (concat (map bt_values (bt_values (eg_tables g))))"
    by (force simp: bt_values_def)
  then show ?thesis unfolding walk_names_def by force
qed

lemma stars_module: "bt_get_list (eg_stars g) m \<noteq> [] \<Longrightarrow> m \<in> set (walk_modules g)"
  by (auto simp: bt_get_list_def walk_modules_def bt_keys_def bt_get_def
      dest: map_of_SomeD intro: rev_image_eqI split: option.splits)

lemma card_less_visit:
  assumes "(m, n) \<in> walk_universe g n0" "(m, n) \<notin> set vis"
    and "card (walk_universe g n0 - set vis) < Suc fuel"
  shows "card (walk_universe g n0 - set ((m, n) # vis)) < fuel"
proof -
  have "walk_universe g n0 - set ((m, n) # vis) = walk_universe g n0 - set vis - {(m, n)}"
    by auto
  moreover have "card (walk_universe g n0 - set vis - {(m, n)}) < card (walk_universe g n0 - set vis)"
    using assms by (intro card_Diff1_less) auto
  ultimately show ?thesis using assms(3) by simp
qed

lemma card_visited_mono:
  "set vis \<subseteq> set vis' \<Longrightarrow>
     card (walk_universe g n0 - set vis') \<le> card (walk_universe g n0 - set vis)"
  by (rule card_mono) auto

lemma walk_total:
  "\<lbrakk>n = n0 \<or> n \<in> set (walk_names g); card (walk_universe g n0 - set vis) < fuel\<rbrakk> \<Longrightarrow>
     \<exists>res vis'. walk fuel g m n vis = Some (res, vis') \<and> set vis \<subseteq> set vis'"
  "\<lbrakk>n = n0 \<or> n \<in> set (walk_names g); card (walk_universe g n0 - set vis) < fuel \<or> specs = []\<rbrakk> \<Longrightarrow>
     \<exists>res vis'. walk_stars fuel g m n specs vis = Some (res, vis') \<and> set vis \<subseteq> set vis'"
proof (induction fuel g m n vis and fuel g m n specs vis rule: walk_walk_stars.induct)
  case (1 g m name visited)
  then show ?case by simp
next
  case (2 fuel g m name visited)
  let ?vis = "(m, name) # visited"
  show ?case
  proof (cases "(m, name) \<in> set visited")
    case True
    then show ?thesis by simp
  next
    case new: False
    have step: "card (walk_universe g n0 - set ?vis) < fuel" if "m \<in> set (walk_modules g)"
      using that "2.prems" new by (intro card_less_visit) (auto simp: walk_universe_def)
    show ?thesis
    proof (cases "eg_entry g m name")
      case None
      have "card (walk_universe g n0 - set ?vis) < fuel \<or> bt_get_list (eg_stars g) m = []"
        using step stars_module by blast
      from "2.IH"(1) [OF new refl None "2.prems"(1) this] new None show ?thesis by auto
    next
      case (Some e)
      show ?thesis
      proof (cases e)
        case (Terminal d)
        with Some new show ?thesis by auto
      next
        case (Follow s i)
        show ?thesis
        proof (cases "eg_resolver g m s")
          case None
          with Some Follow new show ?thesis by auto
        next
          case target: (Some t)
          have "card (walk_universe g n0 - set ?vis) < fuel"
            using eg_entry_module [OF Some] step by blast
          moreover have "i \<in> set (walk_names g)"
            using Some Follow by (simp add: eg_entry_name)
          ultimately have "\<exists>res vis'. walk fuel g (module_of t) i ?vis = Some (res, vis')
              \<and> set ?vis \<subseteq> set vis'"
            using "2.IH"(2) [OF new refl] Some Follow target by blast
          with Some Follow target new show ?thesis by auto
        qed
      qed
    qed
  qed
next
  case (3 fuel g m name visited)
  then show ?case by simp
next
  case (4 fuel g m name spec specs visited)
  show ?case
  proof (cases "eg_resolver g m spec")
    case None
    with 4 show ?thesis by auto
  next
    case (Some t)
    from 4 have fuel: "card (walk_universe g n0 - set visited) < fuel" by auto
    from "4.IH"(2) [OF Some "4.prems"(1) fuel] obtain res vis' where
      w: "walk fuel g (module_of t) name visited = Some (res, vis')" "set visited \<subseteq> set vis'"
      by blast
    show ?thesis
    proof (cases res)
      case None
      have "card (walk_universe g n0 - set vis') < fuel"
        using fuel card_visited_mono [OF w(2)] by (rule le_less_trans [rotated])
      then have "\<exists>res' vis''. walk_stars fuel g m name specs vis' = Some (res', vis'')
          \<and> set vis' \<subseteq> set vis''"
        using "4.IH"(3) [OF Some w(1) refl] None "4.prems"(1) by blast
      with Some w None show ?thesis by auto
    next
      case (Some d)
      with \<open>eg_resolver g m spec = Some t\<close> w show ?thesis by auto
    qed
  qed
qed

lemma walk_enough: "\<exists>res vis. walk (walk_fuel g) g m n [] = Some (res, vis)"
proof -
  have "card (walk_universe g n - set []) < walk_fuel g"
    using card_walk_universe by simp
  from walk_total(1) [OF disjI1 [OF refl] this] show ?thesis by blast
qed

section \<open>The walk only returns definitions\<close>

definition terminals_ok :: "export_graph \<Rightarrow> bool" where
  "terminals_ok g \<longleftrightarrow>
     (\<forall>m n d. eg_entry g m n = Some (Terminal d) \<longrightarrow> bt_get (eg_local_def g) (m, n) = Some d)"

lemma walk_sound:
  "terminals_ok g \<Longrightarrow> walk fuel g m n vis = Some (Some d, vis') \<Longrightarrow>
     \<exists>m' n'. bt_get (eg_local_def g) (m', n') = Some d"
  "terminals_ok g \<Longrightarrow> walk_stars fuel g m n specs vis = Some (Some d, vis') \<Longrightarrow>
     \<exists>m' n'. bt_get (eg_local_def g) (m', n') = Some d"
proof (induction fuel g m n vis and fuel g m n specs vis arbitrary: vis' and vis'
    rule: walk_walk_stars.induct)
  case (2 fuel g m name visited)
  show ?case
  proof (cases "(m, name) \<in> set visited")
    case True
    with "2.prems" show ?thesis by simp
  next
    case new: False
    show ?thesis
    proof (cases "eg_entry g m name")
      case None
      with new "2.prems" show ?thesis by (auto intro: "2.IH"(1) [OF new refl None])
    next
      case (Some e)
      show ?thesis
      proof (cases e)
        case (Terminal t)
        with Some new "2.prems" have "t = d" by simp
        with Some Terminal "2.prems"(1) have "bt_get (eg_local_def g) (m, name) = Some d"
          by (simp add: terminals_ok_def)
        then show ?thesis by blast
      next
        case (Follow s i)
        with Some new "2.prems" obtain t where
          "eg_resolver g m s = Some t"
          "walk fuel g (module_of t) i ((m, name) # visited) = Some (Some d, vis')"
          by (auto simp: Let_def split: option.splits)
        with Some Follow show ?thesis using "2.IH"(2) [OF new refl] "2.prems"(1) by blast
      qed
    qed
  qed
next
  case (4 fuel g m name spec specs visited)
  show ?case
  proof (cases "eg_resolver g m spec")
    case None
    with 4 show ?thesis by auto
  next
    case (Some t)
    with "4.prems" obtain res v where
      w: "walk fuel g (module_of t) name visited = Some (res, v)" by (auto split: option.splits)
    show ?thesis
    proof (cases res)
      case None
      with Some w "4.prems" show ?thesis by (auto intro: "4.IH"(3) [OF Some w refl])
    next
      case (Some d')
      with w "4.prems" \<open>eg_resolver g m spec = Some t\<close> have "d' = d" by simp
      with w Some "4.IH"(2) [OF \<open>eg_resolver g m spec = Some t\<close> "4.prems"(1)] show ?thesis
        by simp
    qed
  qed
qed auto

text \<open>The tables built from the export lists satisfy \<open>terminals_ok\<close>.\<close>

definition table_ok :: "def_map \<Rightarrow> module_id \<Rightarrow> (string, entry) btree \<Rightarrow> bool" where
  "table_ok ld m t \<longleftrightarrow> (\<forall>n d. bt_get t n = Some (Terminal d) \<longrightarrow> bt_get ld (m, n) = Some d)"

lemma add_export_ok: "table_ok ld m (fst ts) \<Longrightarrow> table_ok ld m (fst (add_export ld m ts e))"
  by (cases ts; cases e) (auto simp: table_ok_def bt_get_insert split: option.split)

lemma foldl_add_export_ok:
  "table_ok ld m (fst ts) \<Longrightarrow> table_ok ld m (fst (foldl (add_export ld m) ts es))"
  by (rule foldl_invariant) (auto intro: add_export_ok)

lemma table_ok_empty [simp]: "table_ok ld m bt_empty"
  by (simp add: table_ok_def)

definition tables_ok :: "def_map \<Rightarrow> (module_id, (string, entry) btree) btree \<Rightarrow> bool" where
  "tables_ok ld tbs \<longleftrightarrow> (\<forall>m t. bt_get tbs m = Some t \<longrightarrow> table_ok ld m t)"

lemma add_file_ok: "tables_ok ld (fst st) \<Longrightarrow> tables_ok ld (fst (add_file ld st fe))"
proof -
  assume ok: "tables_ok ld (fst st)"
  obtain tbs stars f es where st: "st = (tbs, stars)" "fe = (f, es)" by (cases st; cases fe) auto
  let ?t = "case bt_get tbs f of None \<Rightarrow> bt_empty | Some t \<Rightarrow> t"
  have "table_ok ld f ?t" using ok st by (auto simp: tables_ok_def split: option.split)
  then have "table_ok ld f (fst (foldl (add_export ld f) (?t, stars) es))"
    by (intro foldl_add_export_ok) simp
  with ok st show ?thesis
    by (auto simp: add_file_def tables_ok_def module_of_def bt_get_insert split: prod.split)
qed

lemma eg_build_terminals_ok: "terminals_ok (eg_build ex ld rs)"
proof -
  have "tables_ok ld (fst (foldl (add_file ld) (bt_empty, bt_empty) ex))"
    by (rule foldl_invariant [where P = "\<lambda>st. tables_ok ld (fst st)"])
       (auto simp: tables_ok_def [of ld bt_empty] intro: add_file_ok)
  then show ?thesis
    by (auto simp: terminals_ok_def eg_build_def eg_entry_def tables_ok_def table_ok_def
        bind_eq_Some_conv split: prod.split)
qed

lemma eg_build_local_def [simp]: "eg_local_def (eg_build ex ld rs) = ld"
  by (simp add: eg_build_def split: prod.split)

lemma resolve_import_sound:
  assumes "resolve_import (eg_build ex ld rs) m n = Some d"
  shows "\<exists>m' n'. bt_get ld (m', n') = Some d"
proof -
  from assms consider
    v where "walk (walk_fuel (eg_build ex ld rs)) (eg_build ex ld rs) m n [] = Some (Some d, v)"
  | "bt_get ld (m, n) = Some d"
    by (auto simp: resolve_import_def or_else_Some_iff split: option.splits)
  then show ?thesis
    by cases (use walk_sound(1) [OF eg_build_terminals_ok] in \<open>force+\<close>)
qed

section \<open>Properties\<close>

text \<open>C40. Import resolution ends and is sound: the walk over named and wildcard re-exports returns for
  every export graph, cyclic ones included (its fuel is never exhausted), and a node it returns is a
  definition of the graph's \<open>local_def\<close> map.\<close>

theorem import_resolution_total_and_sound:
  "(\<exists>res vis. walk (walk_fuel (eg_build ex ld rs)) (eg_build ex ld rs) m n [] = Some (res, vis))
   \<and> (case resolve_import (eg_build ex ld rs) m n of
        None \<Rightarrow> True | Some d \<Rightarrow> (\<exists>m' n'. bt_get ld (m', n') = Some d))"
  using walk_enough [of "eg_build ex ld rs" m n] resolve_import_sound [of ex ld rs m n]
  by (auto split: option.split)

end
