(* ===== verification/Resolve.thy ===== *)
theory Resolve
  imports Export_Graph
begin

text \<open>
  The link stage of \<^verbatim>\<open>filigrio-resolve/src/lib.rs\<close>: the per-apply lookup maps
  (\<open>build_link_indices\<close>), the workspace-qualifier rules, the resolution of one reference
  (\<open>resolve\<close>, \<open>resolve_p0c\<close>, \<open>resolve_ref\<close>) and of a whole reference universe (\<open>resolve_all\<close>,
  \<open>resolve_impacted\<close>). The locale \<open>footprint_resolver\<close> states what the scoped linker relies on: that
  the resolution of a reference is a function of its footprint.
\<close>

section \<open>Link indices\<close>

definition LINKABLE :: "string list" where
  "LINKABLE =
     [''function'', ''struct'', ''enum'', ''trait'', ''class'', ''interface'', ''type_alias'']"

definition is_linkable :: "node \<Rightarrow> bool" where
  "is_linkable n \<longleftrightarrow> n_kind n \<in> set LINKABLE"

type_synonym candidate_map = "(string, node_id list) btree"

record link_indices =
  li_file_of :: "(node_id, string option) btree"
  li_impl_of :: "(node_id, string option) btree"
  li_returns_of :: "(node_id, string option) btree"
  li_project_of :: "(node_id, string option) btree"
  li_candidates :: candidate_map

definition push_candidate :: "candidate_map \<Rightarrow> node \<Rightarrow> candidate_map" where
  "push_candidate m n = (if is_linkable n then bt_push (n_label n) (n_id n) m else m)"

definition build_candidates :: "node list \<Rightarrow> candidate_map" where
  "build_candidates nodes = bt_map_values canon (foldl push_candidate bt_empty nodes)"

definition build_link_indices :: "node list \<Rightarrow> workspace \<Rightarrow> link_indices" where
  "build_link_indices all_nodes ws =
     \<lparr>li_file_of = bt_collect (map (\<lambda>n. (n_id n, n_file n)) all_nodes),
      li_impl_of = bt_collect (map (\<lambda>n. (n_id n, bt_get (n_attrs n) ''impl'')) all_nodes),
      li_returns_of = bt_collect (map (\<lambda>n. (n_id n, bt_get (n_attrs n) ''returns'')) all_nodes),
      li_project_of =
        bt_collect (map (\<lambda>n. (n_id n, Option.bind (n_file n) (root_of ws))) all_nodes),
      li_candidates = build_candidates all_nodes\<rparr>"

text \<open>\<open>map.get(k).copied().flatten()\<close>.\<close>

definition get_flat :: "('k, 'v option) btree \<Rightarrow> 'k \<Rightarrow> 'v option" where
  "get_flat m k = Option.bind (bt_get m k) (\<lambda>v. v)"

definition build_symbol_index :: "link_indices \<Rightarrow> symbol_index" where
  "build_symbol_index idx =
     bt_collect
       (map (\<lambda>(name, ids).
               (name, \<lparr>sd_nodes = ids,
                       sd_modules =
                         canon (map module_of (List.map_filter (get_flat (li_file_of idx)) ids))\<rparr>))
            (li_candidates idx))"

type_synonym import_scope = "(string \<times> string, node_id) btree"

record link_ctx =
  lc_file_of :: "(node_id, string option) btree"
  lc_impl_of :: "(node_id, string option) btree"
  lc_returns_of :: "(node_id, string option) btree"
  lc_project_of :: "(node_id, string option) btree"
  lc_import_scope :: import_scope
  lc_workspace :: workspace

definition make_link_ctx :: "link_indices \<Rightarrow> import_scope \<Rightarrow> workspace \<Rightarrow> link_ctx" where
  "make_link_ctx idx scope ws =
     \<lparr>lc_file_of = li_file_of idx, lc_impl_of = li_impl_of idx,
      lc_returns_of = li_returns_of idx, lc_project_of = li_project_of idx,
      lc_import_scope = scope, lc_workspace = ws\<rparr>"

section \<open>Names and qualifiers\<close>

definition norm_type :: "string \<Rightarrow> string" where
  "norm_type s = trim (rsplit_next ''::'' (hd (split_str ''<'' s)))"

definition dashes :: "string \<Rightarrow> string" where
  "dashes s = replace_char CHR ''_'' CHR ''-'' s"

definition names_crate :: "string \<Rightarrow> project \<Rightarrow> bool" where
  "names_crate head p \<longleftrightarrow>
     (case p_name p of None \<Rightarrow> False | Some crate_name \<Rightarrow> dashes head = dashes crate_name)"

definition strip_workspace_qualifier :: "string \<Rightarrow> workspace \<Rightarrow> (string \<times> string) option" where
  "strip_workspace_qualifier name ws =
     (if \<not> contains_str name ''::'' then None
      else
        (let head = hd (split_str ''::'' name)
         in case find (names_crate head) (bt_values ws) of
              None \<Rightarrow> None
            | Some _ \<Rightarrow> map_option (\<lambda>s. (s, head)) (strip_prefix name (head @ ''::''))))"

definition find_crate_project_root :: "string \<Rightarrow> workspace \<Rightarrow> string option" where
  "find_crate_project_root crate_name ws =
     map_option p_root (find (names_crate crate_name) (bt_values ws))"

definition slashes :: "string \<Rightarrow> string" where
  "slashes s = replace_char (CHR 0x5C) CHR ''/'' s"

definition disambiguate_by_crate ::
  "node_id list \<Rightarrow> string \<Rightarrow> link_ctx \<Rightarrow> node_id list option"
where
  "disambiguate_by_crate candidates crate_name ctx =
     (case find_crate_project_root crate_name (lc_workspace ctx) of
        None \<Rightarrow> None
      | Some target_root \<Rightarrow>
          (let crate_candidates =
             filter (\<lambda>i. case get_flat (lc_project_of ctx) i of
                           None \<Rightarrow> False
                         | Some root \<Rightarrow> slashes root = slashes target_root) candidates
           in if crate_candidates = [] then None else Some crate_candidates))"

section \<open>Resolving one reference\<close>

definition unresolved :: "string \<Rightarrow> edge_target \<times> confidence" where
  "unresolved name = (Symbol (target_ref_new name), Extracted)"

definition resolve ::
  "string \<Rightarrow> node_id \<Rightarrow> node_id list option \<Rightarrow> string option \<Rightarrow> bool \<Rightarrow> bool \<Rightarrow> link_ctx \<Rightarrow>
     edge_target \<times> confidence"
where
  "resolve name source candidates type_hint recv_opaque allow_cross_project ctx =
     (let src_file = get_flat (lc_file_of ctx) source
      in case Option.bind src_file (\<lambda>f. bt_get (lc_import_scope ctx) (f, name)) of
           Some d \<Rightarrow> (Node d, Extracted)
         | None \<Rightarrow>
             (case candidates of
                None \<Rightarrow> unresolved name
              | Some all_ids \<Rightarrow>
                  if all_ids = [] then unresolved name
                  else
                    (let ids =
                       (if allow_cross_project then all_ids
                        else filter (\<lambda>i. get_flat (lc_project_of ctx) i
                                         = get_flat (lc_project_of ctx) source) all_ids)
                     in if ids = [] then unresolved name
                        else
                          (case type_hint of
                             Some ty \<Rightarrow>
                               (case filter (\<lambda>i. case get_flat (lc_impl_of ctx) i of
                                                   None \<Rightarrow> False
                                                 | Some owner \<Rightarrow> norm_type owner = norm_type ty) ids
                                of [] \<Rightarrow> unresolved name
                                 | [only] \<Rightarrow> (Node only, Extracted)
                                 | first # _ \<Rightarrow> (Node first, Ambiguous))
                           | None \<Rightarrow>
                               (case filter (\<lambda>i. src_file \<noteq> None
                                       \<and> get_flat (lc_file_of ctx) i = src_file) ids
                                of [only] \<Rightarrow> (Node only, Extracted)
                                 | first # _ \<Rightarrow> (Node first, Ambiguous)
                                 | [] \<Rightarrow>
                                     if recv_opaque then unresolved name
                                     else
                                       (case ids of
                                          [only] \<Rightarrow> (Node only, Inferred)
                                        | first # _ \<Rightarrow> (Node first, Ambiguous)
                                        | [] \<Rightarrow> unresolved name))))))"

definition return_type_of ::
  "string \<Rightarrow> string option \<Rightarrow> node_id \<Rightarrow> candidate_map \<Rightarrow> link_ctx \<Rightarrow> string option"
where
  "return_type_of callee owner source candidates ctx =
     (case bt_get candidates callee of
        None \<Rightarrow> None
      | Some ids \<Rightarrow>
          (let pool0 = filter (\<lambda>i. get_flat (lc_project_of ctx) i
                                   = get_flat (lc_project_of ctx) source) ids;
               pool =
                 (case owner of
                    None \<Rightarrow> pool0
                  | Some own \<Rightarrow>
                      filter (\<lambda>i. case get_flat (lc_impl_of ctx) i of
                                    None \<Rightarrow> False
                                  | Some imp \<Rightarrow> norm_type imp = norm_type own) pool0)
           in case canon (List.map_filter (get_flat (lc_returns_of ctx)) pool) of
                [only] \<Rightarrow> Some (norm_type only)
              | _ \<Rightarrow> None))"

definition resolve_p0c ::
  "string \<Rightarrow> node_id \<Rightarrow> node_id list option \<Rightarrow> string option \<Rightarrow> bool \<Rightarrow> bool \<Rightarrow> link_ctx \<Rightarrow>
     string option \<Rightarrow> edge_target \<times> confidence"
where
  "resolve_p0c name source candidates type_hint recv_opaque allow_cross_project ctx
     workspace_qualifier =
     (case (workspace_qualifier, candidates) of
        (Some crate_name, Some cands) \<Rightarrow>
          if length cands > 1
          then (case disambiguate_by_crate cands crate_name ctx of
                  Some disambiguated \<Rightarrow>
                    resolve name source (Some disambiguated) type_hint recv_opaque
                      allow_cross_project ctx
                | None \<Rightarrow> unresolved name)
          else resolve name source candidates type_hint recv_opaque allow_cross_project ctx
      | _ \<Rightarrow> resolve name source candidates type_hint recv_opaque allow_cross_project ctx)"

definition stamp_opaque :: "edge_target \<Rightarrow> edge_target" where
  "stamp_opaque t =
     (case t of
        Symbol tref \<Rightarrow> Symbol (tref\<lparr>t_hints := bt_insert ''recv'' ''opaque'' (t_hints tref)\<rparr>)
      | Node i \<Rightarrow> Node i)"

definition receiver_of :: "reference \<Rightarrow> candidate_map \<Rightarrow> link_ctx \<Rightarrow> string option \<times> bool" where
  "receiver_of r candidates ctx =
     (case r_recv_returns r of
        Some callee \<Rightarrow>
          (case return_type_of callee (r_recv_returns_owner r) (r_source r) candidates ctx of
             Some ty \<Rightarrow> (Some ty, False)
           | None \<Rightarrow> (None, True))
      | None \<Rightarrow> (r_type_hint r, r_recv_opaque r))"

definition resolve_ref ::
  "string \<Rightarrow> reference \<Rightarrow> node_id list option \<Rightarrow> candidate_map \<Rightarrow> bool \<Rightarrow> link_ctx \<Rightarrow>
     string option \<Rightarrow> edge"
where
  "resolve_ref name r cands candidates allow_cross_project ctx workspace_qualifier =
     (let (type_hint, recv_opaque) = receiver_of r candidates ctx;
          (target, confidence) =
            resolve_p0c name (r_source r) cands type_hint recv_opaque allow_cross_project ctx
              workspace_qualifier
      in \<lparr>e_source = r_source r, e_relation = r_relation r, e_confidence = confidence,
          e_target = (if recv_opaque then stamp_opaque target else target)\<rparr>)"

definition is_node_target :: "edge \<Rightarrow> bool" where
  "is_node_target e \<longleftrightarrow> (case e_target e of Node _ \<Rightarrow> True | Symbol _ \<Rightarrow> False)"

text \<open>The body of the loops of \<open>resolve_all\<close> and \<open>resolve_impacted\<close>, which the source writes out
  twice: the qualified name itself, then its workspace-stripped form, then its last segment.\<close>

definition resolve_one :: "candidate_map \<Rightarrow> link_ctx \<Rightarrow> string \<Rightarrow> reference \<Rightarrow> edge" where
  "resolve_one candidates ctx name r =
     (let cands = bt_get candidates name;
          stripped = strip_workspace_qualifier name (lc_workspace ctx);
          workspace_qualifier = map_option snd stripped
      in if cands = None
         then
           (case stripped of
              Some (stripped_name, _) \<Rightarrow>
                (let e = resolve_ref stripped_name r (bt_get candidates stripped_name) candidates
                           True ctx workspace_qualifier
                 in if is_node_target e then e
                    else if contains_str stripped_name ''::''
                    then
                      (let last_segment = last (split_str ''::'' stripped_name);
                           last_edge = resolve_ref last_segment r
                             (bt_get candidates last_segment) candidates True ctx None
                       in if is_node_target last_edge then last_edge
                          else resolve_ref name r cands candidates False ctx None)
                    else resolve_ref name r cands candidates False ctx None)
            | None \<Rightarrow> resolve_ref name r cands candidates False ctx None)
         else resolve_ref name r cands candidates False ctx workspace_qualifier)"

section \<open>Resolving the reference universe\<close>

definition all_refs :: "reverse_index \<Rightarrow> (string \<times> reference) list" where
  "all_refs refs_by_name = concat (map (\<lambda>(name, list). map (Pair name) list) refs_by_name)"

definition resolve_all :: "reverse_index \<Rightarrow> candidate_map \<Rightarrow> link_ctx \<Rightarrow> edge list" where
  "resolve_all refs_by_name candidates ctx =
     map (\<lambda>(name, r). resolve_one candidates ctx name r) (all_refs refs_by_name)"

record impact_report =
  ir_full :: bool
  ir_sites :: "(node_id, string list) btree"
  ir_dirty_names :: "string list"

definition site_impacted :: "impact_report \<Rightarrow> node_id \<Rightarrow> string \<Rightarrow> bool" where
  "site_impacted i source relation \<longleftrightarrow>
     ir_full i \<or> relation \<in> set (bt_get_list (ir_sites i) source)"

definition site_count :: "impact_report \<Rightarrow> nat" where
  "site_count i = sum_list (map length (bt_values (ir_sites i)))"

definition resolve_impacted ::
  "reverse_index \<Rightarrow> candidate_map \<Rightarrow> link_ctx \<Rightarrow> impact_report \<Rightarrow> edge list"
where
  "resolve_impacted refs_by_name candidates ctx impact =
     map (\<lambda>(name, r). resolve_one candidates ctx name r)
       (filter (\<lambda>(name, r). site_impacted impact (r_source r) (r_relation r))
         (all_refs refs_by_name))"

end
