(* ===== verification/Relink.thy ===== *)
theory Relink
  imports Resolve
begin

text \<open>
  The relink engine of \<^verbatim>\<open>filigrio-resolve/src/lib.rs\<close>: how the reference universe, the export
  index and the manifest are maintained, the divergence guard \<open>heal_diverged_refs\<close>, the impact set
  of a change, the import scope, and the carry and diff of the prior edges.
\<close>

section \<open>Maintained indices\<close>

definition rebuild_refs ::
  "reverse_index \<Rightarrow> node_id list \<Rightarrow> (string \<times> reference) list \<Rightarrow> reverse_index"
where
  "rebuild_refs prior dropped_ids new_refs =
     (let kept = filter (\<lambda>(name, r). r_source r \<notin> set dropped_ids) (all_refs prior)
      in bt_map_values canon
           (foldl (\<lambda>m (name, r). bt_push name r m) bt_empty (kept @ new_refs)))"

definition maintain_exports ::
  "export_index \<Rightarrow> string list \<Rightarrow> export_index \<Rightarrow> export_index"
where
  "maintain_exports prior dropped_files new_exports =
     bt_extend (bt_collect (filter (\<lambda>(f, exs). f \<notin> set dropped_files) prior)) new_exports"

definition maintain_manifest :: "file_manifest \<Rightarrow> change_set \<Rightarrow> file_manifest" where
  "maintain_manifest prior changes =
     foldl (\<lambda>m path. bt_remove path m)
       (foldl (\<lambda>m path. bt_insert path
                 \<lparr>me_hash = 0, me_last_modified = None, me_revision = None\<rparr> m)
          prior (to_index changes))
       (removed changes)"

definition compute_affected ::
  "node list \<Rightarrow> node list \<Rightarrow> node list \<Rightarrow> reverse_index \<Rightarrow> nat \<Rightarrow> nat"
where
  "compute_affected dropped_nodes new_nodes surviving_nodes reverse n_removed =
     (let affected_names = map n_label (filter is_linkable (dropped_nodes @ new_nodes));
          surviving_ids = map n_id surviving_nodes;
          relinked =
            canon (filter (\<lambda>src. src \<in> set surviving_ids)
              (map (\<lambda>(name, r). r_source r)
                (filter (\<lambda>(name, r). name \<in> set affected_names) (all_refs reverse))))
      in length new_nodes + n_removed + length relinked)"

section \<open>The divergence guard\<close>

type_synonym balance = "(site, int) btree"

definition count_ref :: "balance \<Rightarrow> reference \<Rightarrow> balance" where
  "count_ref m r =
     bt_insert (ref_site r) ((case bt_get m (ref_site r) of None \<Rightarrow> 0 | Some c \<Rightarrow> c) + 1) m"

definition claim_edge :: "node_id list \<Rightarrow> node_id list \<Rightarrow> balance \<Rightarrow> edge \<Rightarrow> balance" where
  "claim_edge dropped_ids project_ids m e =
     (if e_source e \<in> set dropped_ids \<or> e_source e \<in> set project_ids then m
      else
        (case bt_get m (edge_site e) of
           None \<Rightarrow> m
         | Some c \<Rightarrow> bt_insert (edge_site e) (c - 1) m))"

definition detect_diverged ::
  "reverse_index \<Rightarrow> edge list \<Rightarrow> node_id list \<Rightarrow> node_id list \<Rightarrow> site list"
where
  "detect_diverged refs_by_name prior_edges dropped_ids project_ids =
     map fst (filter (\<lambda>(s, b). b < 0)
       (foldl (claim_edge dropped_ids project_ids)
          (foldl count_ref bt_empty (map snd (all_refs refs_by_name))) prior_edges))"

text \<open>The accounting of one edge of a diverged site: the reference name it was emitted under, when no
  surviving reference claims it.\<close>

definition unclaimed_edge ::
  "(node_id, string) btree \<Rightarrow> string list \<Rightarrow> (site \<times> node_id) list \<Rightarrow> edge \<Rightarrow> (string \<times> bool) option"
where
  "unclaimed_edge label_of names import_claims e =
     (case e_target e of
        Node t \<Rightarrow>
          (case bt_get label_of t of
             None \<Rightarrow> None
           | Some l \<Rightarrow>
               if l \<in> set names \<or> (edge_site e, t) \<in> set import_claims then None
               else Some (l, False))
      | Symbol r \<Rightarrow>
          if t_name r \<in> set names then None
          else Some (t_name r, bt_get (t_hints r) ''recv'' = Some ''opaque''))"

definition healed_ref :: "site \<Rightarrow> string \<times> bool \<Rightarrow> string \<times> reference" where
  "healed_ref s x =
     (fst x, Reference (fst s) (snd s) None None None (snd x) None None)"

definition heal_site ::
  "(node_id, string) btree \<Rightarrow> (site \<times> node_id) list \<Rightarrow> site \<Rightarrow> edge list \<Rightarrow> string list \<Rightarrow>
     (string \<times> reference) list"
where
  "heal_site label_of import_claims s edges names =
     (if length edges \<le> length names then []
      else
        map (healed_ref s)
          (take (length edges - length names)
             (canon (List.map_filter (unclaimed_edge label_of names import_claims) edges))))"

definition healed_refs_of ::
  "reverse_index \<Rightarrow> graph_state \<Rightarrow> node_id list \<Rightarrow> node_id list \<Rightarrow>
     (node_id, string option) btree \<Rightarrow> import_scope \<Rightarrow> (string \<times> reference) list"
where
  "healed_refs_of refs_by_name prior dropped_ids project_ids file_of import_scope =
     (let prior_edges = g_edges (s_graph prior);
          diverged = detect_diverged refs_by_name prior_edges dropped_ids project_ids
      in if diverged = [] then []
         else
           (let label_of = bt_collect (map (\<lambda>n. (n_id n, n_label n)) (g_nodes (s_graph prior)));
                at_risk = filter (\<lambda>(name, r). ref_site r \<in> set diverged) (all_refs refs_by_name);
                refs_of = foldl (\<lambda>m (name, r). bt_push (ref_site r) name m) bt_empty at_risk;
                import_claims =
                  List.map_filter
                    (\<lambda>(name, r). map_option (Pair (ref_site r))
                       (Option.bind (get_flat file_of (r_source r))
                          (\<lambda>f. bt_get import_scope (f, name))))
                    at_risk;
                edges_of =
                  foldl (\<lambda>m e. bt_push (edge_site e) e m) bt_empty
                    (filter (\<lambda>e. edge_site e \<in> set diverged) prior_edges)
            in concat
                 (map (\<lambda>(s, edges).
                         heal_site label_of import_claims s edges (bt_get_list refs_of s))
                    edges_of)))"

definition add_healed :: "reverse_index \<Rightarrow> (string \<times> reference) list \<Rightarrow> reverse_index" where
  "add_healed refs_by_name healed =
     foldl (\<lambda>m (name, r). bt_insert name (canon (bt_get_list m name @ [r])) m) refs_by_name healed"

definition heal_diverged_refs ::
  "reverse_index \<Rightarrow> graph_state \<Rightarrow> node_id list \<Rightarrow> node_id list \<Rightarrow>
     (node_id, string option) btree \<Rightarrow> import_scope \<Rightarrow>
     reverse_index \<times> (string \<times> reference) list"
where
  "heal_diverged_refs refs_by_name prior dropped_ids project_ids file_of import_scope =
     (let healed = healed_refs_of refs_by_name prior dropped_ids project_ids file_of import_scope
      in (add_healed refs_by_name healed, healed))"

section \<open>The impact set\<close>

definition add_site ::
  "(node_id, string list) btree \<Rightarrow> reference \<Rightarrow> (node_id, string list) btree"
where
  "add_site m r =
     bt_insert (r_source r) (canon (bt_get_list m (r_source r) @ [r_relation r])) m"

definition name_dirty :: "string list \<Rightarrow> workspace \<Rightarrow> string \<Rightarrow> bool" where
  "name_dirty dirty ws name \<longleftrightarrow>
     name \<in> set dirty \<or>
     (case strip_workspace_qualifier name ws of
        None \<Rightarrow> False
      | Some (stripped, _) \<Rightarrow> stripped \<in> set dirty)"

definition ref_impacted ::
  "string list \<Rightarrow> workspace \<Rightarrow> (node_id, string option) btree \<Rightarrow> string list \<Rightarrow> string \<times> reference
     \<Rightarrow> bool"
where
  "ref_impacted dirty ws file_of touched_files nr \<longleftrightarrow>
     name_dirty dirty ws (fst nr)
     \<or> (case get_flat file_of (r_source (snd nr)) of
          None \<Rightarrow> False
        | Some f \<Rightarrow> f \<in> set touched_files)
     \<or> (case r_recv_returns (snd nr) of None \<Rightarrow> False | Some c \<Rightarrow> c \<in> set dirty)"

definition compute_impact ::
  "node list \<Rightarrow> node list \<Rightarrow> reverse_index \<Rightarrow> string list \<Rightarrow> export_index \<Rightarrow> export_index \<Rightarrow>
     workspace \<Rightarrow> workspace \<Rightarrow> (node_id, string option) btree \<Rightarrow> impact_report"
where
  "compute_impact dropped_nodes new_nodes refs_by_name touched_files prior_exports exports_by_file
     prior_workspace ws file_of =
     (let workspace_changed = ws \<noteq> prior_workspace;
          export_structure_changed =
            list_ex (\<lambda>f. bt_get_list prior_exports f \<noteq> bt_get_list exports_by_file f) touched_files;
          full = (workspace_changed \<or> export_structure_changed);
          dirty = canon (map n_label (filter is_linkable (dropped_nodes @ new_nodes)));
          sites =
            (if full then bt_empty
             else foldl add_site bt_empty
                    (map snd (filter (ref_impacted dirty ws file_of touched_files)
                       (all_refs refs_by_name))))
      in \<lparr>ir_full = full, ir_sites = sites, ir_dirty_names = dirty\<rparr>)"

section \<open>The import scope\<close>

definition build_local_def :: "node list \<Rightarrow> def_map" where
  "build_local_def all_nodes =
     foldl (\<lambda>m n.
         if is_linkable n
         then (case n_file n of
                 None \<Rightarrow> m
               | Some f \<Rightarrow> bt_or_insert (module_of f, n_label n) (n_id n) m)
         else m)
       bt_empty all_nodes"

definition import_binding ::
  "export_graph \<Rightarrow> (node_id, string option) btree \<Rightarrow> string \<times> reference \<Rightarrow>
     ((string \<times> string) \<times> node_id) option"
where
  "import_binding g file_of nr =
     (let (name, r) = nr
      in if r_relation r \<noteq> IMPORTS then None
         else
           (case (r_specifier r, get_flat file_of (r_source r)) of
              (Some spec, Some importing) \<Rightarrow>
                (case eg_resolver g importing spec of
                   None \<Rightarrow> None
                 | Some target \<Rightarrow>
                     map_option (Pair (importing, name))
                       (resolve_import g (module_of target)
                          (case r_imported r of Some i \<Rightarrow> i | None \<Rightarrow> name)))
            | _ \<Rightarrow> None))"

definition build_import_scope ::
  "reverse_index \<Rightarrow> node list \<Rightarrow> export_index \<Rightarrow> (node_id, string option) btree \<Rightarrow>
     module_resolver \<Rightarrow> import_scope"
where
  "build_import_scope refs_by_name all_nodes exports_by_file file_of resolver =
     (let g = eg_build exports_by_file (build_local_def all_nodes) resolver
      in bt_collect (List.map_filter (import_binding g file_of) (all_refs refs_by_name)))"

section \<open>Carrying and diffing edges\<close>

definition healthy_edge :: "node_id list \<Rightarrow> node_id list \<Rightarrow> edge \<Rightarrow> bool" where
  "healthy_edge dropped_ids project_ids e \<longleftrightarrow>
     e_source e \<notin> set project_ids \<and> e_source e \<notin> set dropped_ids
     \<and> (case e_target e of Node t \<Rightarrow> t \<notin> set dropped_ids | Symbol _ \<Rightarrow> True)"

definition carry_keep ::
  "reverse_index \<Rightarrow> impact_report option \<Rightarrow> node_id list \<Rightarrow> node_id list \<Rightarrow> edge \<Rightarrow> bool"
where
  "carry_keep refs_by_name impact dropped_ids project_ids e \<longleftrightarrow>
     healthy_edge dropped_ids project_ids e
     \<and> \<not> (edge_site e \<in> set (map (\<lambda>(name, r). ref_site r) (all_refs refs_by_name))
          \<and> (case impact of None \<Rightarrow> True
             | Some i \<Rightarrow> site_impacted i (e_source e) (e_relation e)))"

definition carry_prior_edges ::
  "edge list \<Rightarrow> reverse_index \<Rightarrow> impact_report option \<Rightarrow> node_id list \<Rightarrow> node_id list \<Rightarrow>
     edge list \<times> edge list"
where
  "carry_prior_edges prior_edges refs_by_name impact dropped_ids project_ids =
     (filter (carry_keep refs_by_name impact dropped_ids project_ids) prior_edges,
      filter (\<lambda>e. \<not> carry_keep refs_by_name impact dropped_ids project_ids e) prior_edges)"

text \<open>The counting map of \<open>diff_edges\<close> is a multiset of the retired edges not yet matched.\<close>

fun diff_added :: "edge multiset \<Rightarrow> edge list \<Rightarrow> edge list \<times> edge multiset" where
  "diff_added unmatched [] = ([], unmatched)"
| "diff_added unmatched (e # es) =
     (if e \<in># unmatched then diff_added (unmatched - {#e#}) es
      else (let (added, u) = diff_added unmatched es in (e # added, u)))"

fun diff_removed :: "edge multiset \<Rightarrow> edge list \<Rightarrow> edge list" where
  "diff_removed unmatched [] = []"
| "diff_removed unmatched (e # es) =
     (if e \<in># unmatched then e # diff_removed (unmatched - {#e#}) es
      else diff_removed unmatched es)"

definition diff_edges :: "edge list \<Rightarrow> edge list \<Rightarrow> edge list \<times> edge list" where
  "diff_edges retired emitted =
     (if retired = [] then (emitted, [])
      else
        (let (added, unmatched) = diff_added (mset retired) emitted
         in (added, diff_removed unmatched retired)))"

section \<open>The reference universe\<close>

lemma all_refs_Cons [simp]: "all_refs ((n, l) # R) = map (Pair n) l @ all_refs R"
  by (simp add: all_refs_def)

lemma all_refs_Nil [simp]: "all_refs [] = []"
  by (simp add: all_refs_def)

lemma all_refs_in: "(n, r) \<in> set (all_refs R) \<longleftrightarrow> (\<exists>l. (n, l) \<in> set R \<and> r \<in> set l)"
  by (auto simp: all_refs_def)

lemma all_refs_get: "bt_ok R \<Longrightarrow> (n, r) \<in> set (all_refs R) \<longleftrightarrow> r \<in> set (bt_get_list R n)"
  by (cases "bt_get R n") (auto simp: all_refs_in bt_in_set_iff bt_get_list_def)

lemma get_list_map_values: "f [] = [] \<Longrightarrow> bt_get_list (bt_map_values f m) k = f (bt_get_list m k)"
  by (auto simp: bt_get_list_def split: option.split)

lemma rebuild_refs_ok [simp]: "bt_ok (rebuild_refs prior dropped new)"
  by (simp add: rebuild_refs_def Let_def ok_foldl_push)

lemma rebuild_refs_get:
  assumes "bt_ok prior"
  shows "bt_get_list (rebuild_refs prior dropped new) name =
     canon (filter (\<lambda>r. r_source r \<notin> set dropped) (bt_get_list prior name)
        @ map snd (filter (\<lambda>(n, r). n = name) new))"
proof -
  have "set (map snd (filter (\<lambda>(n, r). n = name)
           (filter (\<lambda>(n, r). r_source r \<notin> set dropped) (all_refs prior))))
      = set (filter (\<lambda>r. r_source r \<notin> set dropped) (bt_get_list prior name))"
    using assms by (auto simp: image_iff all_refs_get [symmetric])
  then show ?thesis
    by (auto simp: rebuild_refs_def Let_def get_list_map_values get_list_foldl_push
        intro!: canon_cong)
qed

text \<open>A canonical reverse index: sorted names, and sorted duplicate-free non-empty lists.\<close>

definition reverse_ok :: "reverse_index \<Rightarrow> bool" where
  "reverse_ok R \<longleftrightarrow>
     bt_ok R \<and> (\<forall>(n, l) \<in> set R. sorted l \<and> distinct l \<and> l \<noteq> [])"

lemma rebuild_refs_reverse_ok: "reverse_ok (rebuild_refs prior dropped new)"
proof -
  let ?kvs = "filter (\<lambda>(name, r). r_source r \<notin> set dropped) (all_refs prior) @ new"
  let ?m = "foldl (\<lambda>m (name, r). bt_push name r m) bt_empty ?kvs"
  have ok: "bt_ok ?m" by (simp add: ok_foldl_push)
  have ne: "l \<noteq> []" if "(n, l) \<in> set ?m" for n l
  proof
    assume "l = []"
    with that ok have "bt_get ?m n = Some []" by (simp add: bt_in_set_iff)
    then have empty: "bt_get_list ?m n = []" and some: "bt_get ?m n \<noteq> None"
      by (auto simp: bt_get_list_def)
    from empty have "filter (\<lambda>(n', r). n' = n) ?kvs = []"
      unfolding get_list_foldl_push by simp
    then have "n \<notin> fst ` set ?kvs"
      unfolding filter_empty_conv by auto
    with some get_foldl_push_None [of bt_empty ?kvs n] show False by simp
  qed
  have "\<forall>(n, l) \<in> set (bt_map_values canon ?m). sorted l \<and> distinct l \<and> l \<noteq> []"
    using ne by (auto simp: bt_map_values_def)
  with ok show ?thesis
    by (auto simp: reverse_ok_def rebuild_refs_def Let_def)
qed

section \<open>The diff is the minimal multiset difference\<close>

lemma diff_added_mset:
  "mset (fst (diff_added u es)) = mset es - u \<and> snd (diff_added u es) = u - mset es"
proof (induction u es rule: diff_added.induct)
  case (1 u)
  then show ?case by simp
next
  case (2 u e es)
  show ?case
  proof (cases "e \<in># u")
    case True
    then obtain v where "u = add_mset e v" by (metis insert_DiffM)
    with True 2 show ?thesis by simp
  next
    case False
    with 2 have "mset (fst (diff_added u (e # es))) = add_mset e (mset es - u)"
      "snd (diff_added u (e # es)) = u - mset es"
      by (auto split: prod.splits)
    with False show ?thesis by (auto simp: multiset_eq_iff not_in_iff)
  qed
qed

lemma diff_removed_mset: "mset (diff_removed u es) = u \<inter># mset es"
proof (induction u es rule: diff_removed.induct)
  case (1 u)
  then show ?case by simp
next
  case (2 u e es)
  then show ?case
    by (auto simp: inter_add_right1 inter_add_right2)
qed

lemma diff_edges_mset:
  "mset (fst (diff_edges retired emitted)) = mset emitted - mset retired"
  "mset (snd (diff_edges retired emitted)) = mset retired - mset emitted"
proof -
  show "mset (fst (diff_edges retired emitted)) = mset emitted - mset retired"
    using diff_added_mset [of "mset retired" emitted]
    by (auto simp: diff_edges_def split: prod.split)
  show "mset (snd (diff_edges retired emitted)) = mset retired - mset emitted"
    using diff_added_mset [of "mset retired" emitted]
    by (auto simp: diff_edges_def diff_removed_mset subset_mset.inf.absorb1 diff_subset_eq_self
        split: prod.split)
qed

lemma carry_partition:
  "mset (fst (carry_prior_edges E R i d p)) + mset (snd (carry_prior_edges E R i d p)) = mset E"
  by (simp add: carry_prior_edges_def)

section \<open>Properties\<close>

text \<open>C39. The edge diff is exact and minimal: taking the removed edges out of the retired ones and
  adding the added ones gives the emitted edges, and no edge is both removed and added, as multisets.\<close>

theorem diff_edges_exact_minimal:
  "mset retired - mset (snd (diff_edges retired emitted)) + mset (fst (diff_edges retired emitted))
     = mset emitted
   \<and> mset (fst (diff_edges retired emitted)) \<inter># mset (snd (diff_edges retired emitted)) = {#}"
  unfolding diff_edges_mset by (auto simp: multiset_eq_iff)

end
