(* ===== verification/Engine.thy ===== *)
theory Engine
  imports Relink
begin

text \<open>
  \<open>Engine::apply\<close> of \<^verbatim>\<open>filigrio-resolve/src/lib.rs\<close>: one incremental update of the graph state,
  from the change set to the patch delta, under both link scopes. The ports it is given are collected
  in \<open>engine_env\<close>: the \<open>Source\<close>, the \<open>Extractor\<close>, the third-party JSON reader, the optional
  third-party JS/TS resolver of the \<open>oxc\<close> feature, and the clusterer, which the component
  \<open>Cluster\<close> models. The profiling wrapper \<open>stage\<close> returns its closure's value and is left out.
\<close>

datatype link_scope = Global | Scoped
datatype cluster_timing = Inline | Deferred

type_synonym clusterer = "node list \<Rightarrow> edge list \<Rightarrow> partition \<Rightarrow> error + partition"

record engine_env =
  env_source :: source_port
  env_extractor :: extractor_port
  env_from_slice :: json_reader
  env_js_ts :: "module_resolver option"
  env_cluster :: clusterer

section \<open>The front half: change set, nodes, workspace, extraction\<close>

definition fold_vanished :: "change_set \<Rightarrow> source_port \<Rightarrow> change_set \<times> nat" where
  "fold_vanished changes source =
     (let gone = (\<lambda>p. \<not> src_exists source p)
      in if \<not> list_ex gone (to_index changes) then (changes, 0)
         else
           (\<lparr>added = filter (\<lambda>p. \<not> gone p) (added changes),
             modified = filter (\<lambda>p. \<not> gone p) (modified changes),
             removed = removed changes @ filter gone (added changes @ modified changes)\<rparr>,
            length (filter gone (added changes @ modified changes))))"

record extracted =
  ex_nodes :: "node list"
  ex_structural :: "edge list"
  ex_refs :: "(string \<times> reference) list"
  ex_exports :: export_index

definition extracted_empty :: extracted where
  "extracted_empty = \<lparr>ex_nodes = [], ex_structural = [], ex_refs = [], ex_exports = bt_empty\<rparr>"

definition reference_of :: "edge \<Rightarrow> target_ref \<Rightarrow> string \<times> reference" where
  "reference_of e reff =
     (let hint = bt_get (t_hints reff)
      in (t_name reff,
          Reference (e_source e) (e_relation e) (hint ''type'') (hint ''specifier'')
            (hint ''imported'') (hint ''recv'' = Some ''opaque'') (hint ''recv_returns'')
            (hint ''recv_returns_owner'')))"

definition add_edge :: "extracted \<Rightarrow> edge \<Rightarrow> extracted" where
  "add_edge x e =
     (case e_target e of
        Symbol reff \<Rightarrow> x\<lparr>ex_refs := ex_refs x @ [reference_of e reff]\<rparr>
      | Node _ \<Rightarrow> x\<lparr>ex_structural := ex_structural x @ [e]\<rparr>)"

definition add_extraction :: "string \<Rightarrow> extraction \<Rightarrow> extracted \<Rightarrow> extracted" where
  "add_extraction path extraction x =
     foldl add_edge
       (x\<lparr>ex_nodes := ex_nodes x @ x_nodes extraction,
          ex_exports :=
            (if x_exports extraction \<noteq> []
             then bt_insert path (x_exports extraction) (ex_exports x) else ex_exports x)\<rparr>)
       (x_edges extraction)"

fun extract_paths ::
  "source_port \<Rightarrow> extractor_port \<Rightarrow> string list \<Rightarrow> extracted \<Rightarrow> error + extracted"
where
  "extract_paths source extractor [] x = Inr x"
| "extract_paths source extractor (path # paths) x =
     (let artifact = classify path
      in if \<not> ext_handles extractor artifact then extract_paths source extractor paths x
         else
           (case src_read source path of
              Inl err \<Rightarrow> Inl err
            | Inr b \<Rightarrow>
                (case ext_extract extractor artifact b of
                   Inl err \<Rightarrow> Inl err
                 | Inr extraction \<Rightarrow>
                     extract_paths source extractor paths (add_extraction path extraction x))))"

definition extract_changed ::
  "change_set \<Rightarrow> source_port \<Rightarrow> extractor_port \<Rightarrow> error + extracted"
where
  "extract_changed changes source extractor =
     extract_paths source extractor (to_index changes) extracted_empty"

fun index_manifests ::
  "source_port \<Rightarrow> json_reader \<Rightarrow> string list \<Rightarrow> workspace \<Rightarrow> error + workspace"
where
  "index_manifests source from_slice [] ws = Inr ws"
| "index_manifests source from_slice (path # paths) ws =
     (case manifest_basename path of
        None \<Rightarrow> index_manifests source from_slice paths ws
      | Some base \<Rightarrow>
          (case src_read source path of
             Inl err \<Rightarrow> Inl err
           | Inr b \<Rightarrow>
               (let m = manifest_parse from_slice base b; root = dir_of path
                in index_manifests source from_slice paths
                     (bt_insert root
                        \<lparr>p_root = root, p_manifest = base, p_name = mf_name m,
                         p_entry = mf_entry m, p_deps = mf_deps m\<rparr> ws))))"

definition maintain_workspace ::
  "workspace \<Rightarrow> change_set \<Rightarrow> source_port \<Rightarrow> json_reader \<Rightarrow> error + workspace"
where
  "maintain_workspace prior changes source from_slice =
     index_manifests source from_slice (to_index changes)
       (foldl (\<lambda>ws path. if manifest_basename path \<noteq> None then bt_remove (dir_of path) ws else ws)
          prior (touched changes))"

record front_extract =
  fx_changes :: change_set
  fx_vanished :: nat
  fx_dropped_nodes :: "node list"
  fx_surviving_nodes :: "node list"
  fx_project_nodes :: "node list"
  fx_workspace :: workspace
  fx_extracted :: extracted

definition in_dropped :: "string list \<Rightarrow> node \<Rightarrow> bool" where
  "in_dropped dropped_files n \<longleftrightarrow>
     (case n_file n of None \<Rightarrow> False | Some f \<Rightarrow> f \<in> set dropped_files)"

definition run_front_extract ::
  "graph_state \<Rightarrow> change_set \<Rightarrow> engine_env \<Rightarrow> error + front_extract"
where
  "run_front_extract prior changes0 env =
     (let source = env_source env;
          (changes, vanished) = fold_vanished changes0 source;
          nodes = g_nodes (s_graph prior);
          dropped_nodes = filter (in_dropped (touched changes)) nodes;
          survivors = filter (\<lambda>n. \<not> in_dropped (touched changes) n) nodes;
          project_nodes = filter (\<lambda>n. n_kind n = ''project'') survivors;
          surviving_nodes = filter (\<lambda>n. n_kind n \<noteq> ''project'') survivors
      in case maintain_workspace (s_workspace prior) changes source (env_from_slice env) of
           Inl err \<Rightarrow> Inl err
         | Inr ws \<Rightarrow>
             (case extract_changed changes source (env_extractor env) of
                Inl err \<Rightarrow> Inl err
              | Inr x \<Rightarrow>
                  Inr \<lparr>fx_changes = changes, fx_vanished = vanished,
                       fx_dropped_nodes = dropped_nodes, fx_surviving_nodes = surviving_nodes,
                       fx_project_nodes = project_nodes, fx_workspace = ws, fx_extracted = x\<rparr>))"

section \<open>The front half: indices, references, import scope, healing\<close>

definition is_js_ts :: "string \<Rightarrow> bool" where
  "is_js_ts f \<longleftrightarrow>
     after_last CHR ''.'' f
       \<in> set [''ts'', ''tsx'', ''mts'', ''cts'', ''js'', ''jsx'', ''mjs'', ''cjs'']"

definition build_resolver ::
  "source_port \<Rightarrow> workspace \<Rightarrow> module_resolver option \<Rightarrow> module_resolver"
where
  "build_resolver source ws js_ts =
     (let source_tier = source_resolve (from_workspace source ws)
      in case js_ts of
           None \<Rightarrow> source_tier
         | Some oxc \<Rightarrow>
             (\<lambda>importing_file specifier.
                if is_js_ts importing_file then oxc importing_file specifier
                else source_tier importing_file specifier))"

record front_link =
  fl_dropped_files :: "string list"
  fl_dropped_ids :: "node_id list"
  fl_project_ids :: "node_id list"
  fl_all_nodes :: "node list"
  fl_idx :: link_indices
  fl_refs_by_name :: reverse_index
  fl_exports_by_file :: export_index
  fl_import_scope :: import_scope
  fl_healed_refs :: "(string \<times> reference) list"

definition run_front_link :: "graph_state \<Rightarrow> engine_env \<Rightarrow> front_extract \<Rightarrow> front_link" where
  "run_front_link prior env fx =
     (let ws = fx_workspace fx;
          dropped_files = canon (touched (fx_changes fx));
          dropped_ids = canon (map n_id (fx_dropped_nodes fx));
          project_ids = canon (map n_id (fx_project_nodes fx));
          all_nodes = fx_surviving_nodes fx @ ex_nodes (fx_extracted fx);
          idx = build_link_indices all_nodes ws;
          refs0 = rebuild_refs (s_reverse prior) dropped_ids (ex_refs (fx_extracted fx));
          exports = maintain_exports (s_exports prior) dropped_files (ex_exports (fx_extracted fx));
          resolver = build_resolver (env_source env) ws (env_js_ts env);
          scope = build_import_scope refs0 all_nodes exports (li_file_of idx) resolver;
          (refs, healed) =
            heal_diverged_refs refs0 prior dropped_ids project_ids (li_file_of idx) scope
      in \<lparr>fl_dropped_files = dropped_files, fl_dropped_ids = dropped_ids,
          fl_project_ids = project_ids, fl_all_nodes = all_nodes, fl_idx = idx,
          fl_refs_by_name = refs, fl_exports_by_file = exports, fl_import_scope = scope,
          fl_healed_refs = healed\<rparr>)"

definition front_impact :: "graph_state \<Rightarrow> front_extract \<Rightarrow> front_link \<Rightarrow> impact_report" where
  "front_impact prior fx fl =
     compute_impact (fx_dropped_nodes fx) (ex_nodes (fx_extracted fx)) (fl_refs_by_name fl)
       (fl_dropped_files fl) (s_exports prior) (fl_exports_by_file fl) (s_workspace prior)
       (fx_workspace fx) (li_file_of (fl_idx fl))"

definition run_impact_report ::
  "graph_state \<Rightarrow> change_set \<Rightarrow> engine_env \<Rightarrow> error + impact_report"
where
  "run_impact_report prior changes env =
     (case run_front_extract prior changes env of
        Inl err \<Rightarrow> Inl err
      | Inr fx \<Rightarrow> Inr (front_impact prior fx (run_front_link prior env fx)))"

section \<open>The project overlay\<close>

definition pid :: "string \<Rightarrow> node_id" where
  "pid root = NodeId (''project:'' @ root)"

definition overlay_label :: "string \<Rightarrow> project \<Rightarrow> string" where
  "overlay_label root p =
     (case p_name p of Some name \<Rightarrow> name | None \<Rightarrow> if root = [] then ''<root>'' else root)"

definition overlay_node :: "string \<times> project \<Rightarrow> node" where
  "overlay_node rp =
     (let (root, p) = rp;
          n = node_new (the_id (pid root)) (overlay_label root p) ''project'';
          attrs = bt_insert ''manifest'' (p_manifest p) (bt_insert ''root'' root (n_attrs n))
      in n\<lparr>n_attrs :=
             (case p_name p of None \<Rightarrow> attrs | Some name \<Rightarrow> bt_insert ''name'' name attrs)\<rparr>)"

definition overlay_edge :: "string \<Rightarrow> string \<Rightarrow> node_id \<Rightarrow> edge" where
  "overlay_edge root relation target =
     \<lparr>e_source = pid root, e_relation = relation, e_confidence = Extracted,
      e_target = Node target\<rparr>"

definition project_overlay :: "workspace \<Rightarrow> node list \<Rightarrow> node list \<times> edge list" where
  "project_overlay ws symbol_nodes =
     (map overlay_node ws,
      concat (map (\<lambda>(root, deps). map (\<lambda>dep. overlay_edge root DEPENDS_ON (pid dep)) deps)
        (depends_on ws))
      @ List.map_filter
          (\<lambda>n. if n_kind n \<noteq> ''file'' then None
               else map_option (\<lambda>root. overlay_edge root CONTAINS (n_id n))
                      (Option.bind (n_file n) (root_of ws)))
          symbol_nodes)"

section \<open>Applying a change\<close>

definition carry_partition :: "partition \<Rightarrow> node_id list \<Rightarrow> node list \<Rightarrow> partition" where
  "carry_partition prior dropped new_nodes =
     prior\<lparr>node_community :=
       foldl (\<lambda>m i. if i \<in> set (map n_id new_nodes) then m else bt_remove i m)
         (node_community prior) dropped\<rparr>"

definition link_stage ::
  "graph_state \<Rightarrow> front_extract \<Rightarrow> front_link \<Rightarrow> link_scope \<Rightarrow> edge list \<times> impact_report option"
where
  "link_stage prior fx fl scope =
     (let candidates = li_candidates (fl_idx fl);
          ctx = make_link_ctx (fl_idx fl) (fl_import_scope fl) (fx_workspace fx)
      in case scope of
           Global \<Rightarrow> (resolve_all (fl_refs_by_name fl) candidates ctx, None)
         | Scoped \<Rightarrow>
             (let impact = front_impact prior fx fl
              in (resolve_impacted (fl_refs_by_name fl) candidates ctx impact, Some impact)))"

definition symbols_of :: "candidate_map \<Rightarrow> symbol_table" where
  "symbols_of candidates =
     bt_collect (List.map_filter
       (\<lambda>(name, ids). case ids of [] \<Rightarrow> None | i # _ \<Rightarrow> Some (name, i)) candidates)"

definition apply_with ::
  "graph_state \<Rightarrow> change_set \<Rightarrow> engine_env \<Rightarrow> link_scope \<Rightarrow> cluster_timing \<Rightarrow> error + graph_delta"
where
  "apply_with prior changes0 env scope timing =
     (case run_front_extract prior changes0 env of
        Inl err \<Rightarrow> Inl err
      | Inr fx \<Rightarrow>
          (let fl = run_front_link prior env fx;
               x = fx_extracted fx;
               (resolved_edges, impact) = link_stage prior fx fl scope;
               (carried, retired) =
                 carry_prior_edges (g_edges (s_graph prior)) (fl_refs_by_name fl) impact
                   (fl_dropped_ids fl) (fl_project_ids fl);
               all_edges = carried @ ex_structural x @ resolved_edges
           in case (case timing of
                      Inline \<Rightarrow> env_cluster env (fl_all_nodes fl) all_edges (s_partition prior)
                    | Deferred \<Rightarrow>
                        Inr (carry_partition (s_partition prior) (fl_dropped_ids fl) (ex_nodes x)))
              of Inl err \<Rightarrow> Inl err
               | Inr part \<Rightarrow>
                   (let (project_nodes, project_edges) =
                          project_overlay (fx_workspace fx) (fl_all_nodes fl);
                        nodes_removed = fl_dropped_ids fl @ map n_id (fx_project_nodes fx);
                        (edges_added, edges_removed) =
                          diff_edges retired (ex_structural x @ resolved_edges @ project_edges)
                    in Inr
                      \<lparr>d_nodes_added = ex_nodes x @ project_nodes,
                       d_nodes_removed = nodes_removed,
                       d_edges_added = edges_added,
                       d_edges_removed = edges_removed,
                       d_dirty_files = canon (touched (fx_changes fx)),
                       d_partition = part,
                       d_symbols = symbols_of (li_candidates (fl_idx fl)),
                       d_reverse_dropped = fl_dropped_ids fl,
                       d_reverse_added = ex_refs x @ fl_healed_refs fl,
                       d_manifest = maintain_manifest (s_manifest prior) (fx_changes fx),
                       d_workspace = fx_workspace fx,
                       d_exports = fl_exports_by_file fl,
                       d_symbol_index = build_symbol_index (fl_idx fl),
                       d_affected =
                         compute_affected (fx_dropped_nodes fx) (ex_nodes x)
                           (fx_surviving_nodes fx) (fl_refs_by_name fl) (length nodes_removed),
                       d_vanished = fx_vanished fx\<rparr>)))"

definition apply_with_scope ::
  "graph_state \<Rightarrow> change_set \<Rightarrow> engine_env \<Rightarrow> link_scope \<Rightarrow> error + graph_delta"
where
  "apply_with_scope prior changes env scope = apply_with prior changes env scope Inline"

definition engine_apply :: "graph_state \<Rightarrow> change_set \<Rightarrow> engine_env \<Rightarrow> error + graph_delta" where
  "engine_apply prior changes env = apply_with_scope prior changes env Global"

definition recluster :: "graph_state \<Rightarrow> clusterer \<Rightarrow> error + partition" where
  "recluster state cluster_with =
     cluster_with (filter (\<lambda>n. n_kind n \<noteq> ''project'') (g_nodes (s_graph state)))
       (g_edges (s_graph state)) (s_partition state)"

section \<open>Properties\<close>

text \<open>Folding the vanished paths: afterwards every path to index exists in the source, no touched
  path is lost or invented, and the count is the number of paths moved to the removed ones.\<close>

theorem fold_vanished_spec:
  "(\<forall>p \<in> set (to_index (fst (fold_vanished changes source))). src_exists source p)
   \<and> mset (touched (fst (fold_vanished changes source))) = mset (touched changes)
   \<and> length (removed (fst (fold_vanished changes source)))
       = length (removed changes) + snd (fold_vanished changes source)"
proof -
  have part: "mset xs = filter_mset P (mset xs) + filter_mset (\<lambda>x. \<not> P x) (mset xs)"
    for P and xs :: "string list"
    by (rule multiset_partition)
  have "mset (touched (fst (fold_vanished changes source))) = mset (touched changes)"
    using part [of "added changes" "src_exists source"] part [of "modified changes" "src_exists source"]
    by (simp add: fold_vanished_def Let_def touched_def multiset_eq_iff)
  moreover have "\<forall>p \<in> set (to_index (fst (fold_vanished changes source))). src_exists source p"
    by (auto simp: fold_vanished_def Let_def to_index_def list_ex_iff)
  moreover have "length (removed (fst (fold_vanished changes source)))
       = length (removed changes) + snd (fold_vanished changes source)"
    by (simp add: fold_vanished_def Let_def)
  ultimately show ?thesis by blast
qed

definition half_source :: source_port where
  "half_source = \<lparr>src_exists = (\<lambda>p. p \<noteq> ''gone.rs''), src_read = (\<lambda>_. Inr ''module x'')\<rparr>"

definition half_changes :: change_set where
  "half_changes = \<lparr>added = [''gone.rs'', ''a/go.mod''], modified = [''b.rs''], removed = []\<rparr>"

theorem fold_vanished_spec_witness:
  "src_exists half_source ''b.rs'' \<and> removed (fst (fold_vanished half_changes half_source)) = [''gone.rs'']"
proof
  have "''b.rs'' \<in> set (to_index (fst (fold_vanished half_changes half_source)))" by code_simp
  then show "src_exists half_source ''b.rs''"
    using fold_vanished_spec [of half_changes half_source] by blast
qed code_simp

lemma ws_ok_get: "ws_ok ws \<longleftrightarrow> bt_ok ws \<and> (\<forall>k p. bt_get ws k = Some p \<longrightarrow> p_root p = k)"
proof (cases "bt_ok ws")
  case True
  then show ?thesis
    by (simp add: ws_ok_def Ball_def split_paired_All bt_in_set_iff [OF True])
qed (simp add: ws_ok_def)

lemma index_manifests_ws_ok:
  "index_manifests source fs paths ws = Inr ws' \<Longrightarrow> ws_ok ws \<Longrightarrow> ws_ok ws'"
proof (induction source fs paths ws rule: index_manifests.induct)
  case (1 source fs ws)
  then show ?case by simp
next
  case (2 source fs path paths ws)
  have ins: "ws_ok (bt_insert r p ws)" if "p_root p = r" for r p
    using that "2.prems"(2) by (auto simp: ws_ok_get bt_get_insert)
  show ?case
  proof (cases "manifest_basename path")
    case None
    with 2 show ?thesis by simp
  next
    case (Some base)
    with "2.prems"(1) obtain b where b: "src_read source path = Inr b" by (auto split: sum.splits)
    let ?m = "manifest_parse fs base b" and ?r = "dir_of path"
    show ?thesis
    proof (rule "2.IH"(2) [OF Some b refl refl])
      show "index_manifests source fs paths (bt_insert ?r \<lparr>p_root = ?r, p_manifest = base,
          p_name = mf_name ?m, p_entry = mf_entry ?m, p_deps = mf_deps ?m\<rparr> ws) = Inr ws'"
        using "2.prems"(1) Some b by (simp add: Let_def)
    qed (simp add: ins)
  qed
qed

text \<open>Maintaining the workspace keeps it keyed: every project stays stored under its own root,
  through removals of touched manifests and insertions of re-read ones.\<close>

theorem maintain_workspace_keyed:
  "ws_ok prior \<Longrightarrow> maintain_workspace prior changes source fs = Inr ws \<Longrightarrow> ws_ok ws"
proof -
  assume ok: "ws_ok prior" and m: "maintain_workspace prior changes source fs = Inr ws"
  have "ws_ok (foldl (\<lambda>ws path. if manifest_basename path \<noteq> None then bt_remove (dir_of path) ws else ws)
      prior paths)" for paths
    using ok
    by (rule foldl_invariant)
      (auto simp: ws_ok_get bt_get_remove)
  with m show ?thesis unfolding maintain_workspace_def by (rule index_manifests_ws_ok)
qed

theorem maintain_workspace_keyed_witness:
  "\<exists>ws. maintain_workspace bt_empty half_changes half_source (\<lambda>_. None) = Inr ws
     \<and> root_of ws ''a/x.go'' = Some ''a'' \<and> ws_ok ws"
proof -
  define ws where "ws = (case maintain_workspace bt_empty half_changes half_source (\<lambda>_. None) of
      Inr ws \<Rightarrow> ws | Inl _ \<Rightarrow> bt_empty)"
  have "\<not> isl (maintain_workspace bt_empty half_changes half_source (\<lambda>_. None))" by code_simp
  then have m: "maintain_workspace bt_empty half_changes half_source (\<lambda>_. None) = Inr ws"
    by (auto simp: ws_def split: sum.splits)
  have "ws_ok bt_empty" by code_simp
  from maintain_workspace_keyed [OF this m] have "ws_ok ws" .
  moreover have "root_of ws ''a/x.go'' = Some ''a''" unfolding ws_def by code_simp
  ultimately show ?thesis using m by blast
qed

end
