(* ===== verification/Footprint.thy ===== *)
theory Footprint
  imports Relink
begin

text \<open>
  The resolution of a reference as a function of its footprint. \<^verbatim>\<open>resolve_impacted\<close>
  (\<^verbatim>\<open>filigrio-resolve/src/lib.rs\<close>) says of itself that "the equivalence proof reduces to impact-set
  coverage"; the locale \<open>footprint_resolver\<close> carries out that reduction for any resolution that is
  a function of a footprint, and its interpretation on \<open>resolve_one\<close> gives the footprint of the
  code's resolution. The second half characterises the link indices and where a resolved target
  can come from. \<open>Scope_Equiv\<close> has the coverage of the impact set.
\<close>

section \<open>Resolution as a function of a footprint\<close>

locale footprint_resolver =
  fixes agree :: "'c \<Rightarrow> 'c \<Rightarrow> string \<times> reference \<Rightarrow> bool"
    and res :: "'c \<Rightarrow> string \<times> reference \<Rightarrow> edge"
  assumes footprint: "agree c c' x \<Longrightarrow> res c x = res c' x"
    and res_site: "edge_site (res c x) = ref_site (snd x)"
begin

lemma map_res_footprint:
  "(\<And>x. x \<in> set xs \<Longrightarrow> agree c c' x) \<Longrightarrow> map (res c) xs = map (res c') xs"
  by (auto intro: footprint)

text \<open>The prior edges at the unimpacted sites are the resolutions of the references there.\<close>

lemma unimpacted_edges:
  assumes linked: "mset (filter (\<lambda>e. edge_site e \<in> S0) E) = mset (map (res c0) refs0)"
    and sub: "S \<subseteq> S0"
    and refs: "mset (filter (\<lambda>x. ref_site (snd x) \<in> S) refs0)
                = mset (filter (\<lambda>x. ref_site (snd x) \<in> S) refs)"
    and agree: "\<And>x. x \<in> set refs \<Longrightarrow> ref_site (snd x) \<in> S \<Longrightarrow> agree c0 c x"
  shows "mset (filter (\<lambda>e. edge_site e \<in> S) E)
     = mset (map (res c) (filter (\<lambda>x. ref_site (snd x) \<in> S) refs))"
proof -
  have "filter (\<lambda>e. edge_site e \<in> S) E
      = filter (\<lambda>e. edge_site e \<in> S) (filter (\<lambda>e. edge_site e \<in> S0) E)"
    using sub by (auto intro: filter_cong)
  then have "mset (filter (\<lambda>e. edge_site e \<in> S) E)
      = filter_mset (\<lambda>e. edge_site e \<in> S) (mset (filter (\<lambda>e. edge_site e \<in> S0) E))"
    by (metis mset_filter)
  also have "\<dots> = filter_mset (\<lambda>e. edge_site e \<in> S) (mset (map (res c0) refs0))"
    by (simp only: linked)
  also have "\<dots> = mset (map (res c0) (filter (\<lambda>x. ref_site (snd x) \<in> S) refs0))"
    by (simp add: filter_map o_def res_site flip: mset_filter mset_map)
  also have "\<dots> = image_mset (res c0) (mset (filter (\<lambda>x. ref_site (snd x) \<in> S) refs0))"
    by (rule mset_map)
  also have "\<dots> = mset (map (res c0) (filter (\<lambda>x. ref_site (snd x) \<in> S) refs))"
    by (simp only: refs mset_map)
  also have "\<dots> = mset (map (res c) (filter (\<lambda>x. ref_site (snd x) \<in> S) refs))"
    using map_res_footprint [of "filter (\<lambda>x. ref_site (snd x) \<in> S) refs" c0 c] agree
    by (simp only: set_filter mem_Collect_eq)
  finally show ?thesis .
qed

text \<open>Carrying the unimpacted edges and resolving the rest is resolving everything.\<close>

lemma relink_equal:
  assumes linked: "mset (filter (\<lambda>e. edge_site e \<in> S0) E) = mset (map (res c0) refs0)"
    and sub: "S \<subseteq> S0"
    and refs: "mset (filter (\<lambda>x. ref_site (snd x) \<in> S) refs0)
                = mset (filter (\<lambda>x. ref_site (snd x) \<in> S) refs)"
    and agree: "\<And>x. x \<in> set refs \<Longrightarrow> ref_site (snd x) \<in> S \<Longrightarrow> agree c0 c x"
  shows "mset (filter (\<lambda>e. edge_site e \<in> S) E)
       + mset (map (res c) (filter (\<lambda>x. ref_site (snd x) \<notin> S) refs))
     = mset (map (res c) refs)"
proof -
  have "mset refs = mset (filter (\<lambda>x. ref_site (snd x) \<in> S) refs)
      + mset (filter (\<lambda>x. ref_site (snd x) \<notin> S) refs)"
    by (induction refs) auto
  then have "mset (map (res c) refs)
      = mset (map (res c) (filter (\<lambda>x. ref_site (snd x) \<in> S) refs))
      + mset (map (res c) (filter (\<lambda>x. ref_site (snd x) \<notin> S) refs))"
    by (simp only: mset_map image_mset_union)
  then show ?thesis using unimpacted_edges [OF assms] by simp
qed

end

section \<open>The footprint of the code's resolution\<close>

definition attrs_agree :: "link_ctx \<Rightarrow> link_ctx \<Rightarrow> node_id \<Rightarrow> bool" where
  "attrs_agree ctx ctx' i \<longleftrightarrow>
     get_flat (lc_file_of ctx) i = get_flat (lc_file_of ctx') i
     \<and> get_flat (lc_impl_of ctx) i = get_flat (lc_impl_of ctx') i
     \<and> get_flat (lc_returns_of ctx) i = get_flat (lc_returns_of ctx') i
     \<and> get_flat (lc_project_of ctx) i = get_flat (lc_project_of ctx') i"

text \<open>The names \<open>resolve_one\<close> can look up: the name, its stripped form, that form's last segment.\<close>

definition consulted :: "workspace \<Rightarrow> string \<Rightarrow> string list" where
  "consulted ws name =
     name # (case strip_workspace_qualifier name ws of
               None \<Rightarrow> []
             | Some (stripped, _) \<Rightarrow> [stripped, last (split_str ''::'' stripped)])"

definition cands_agree ::
  "candidate_map \<times> link_ctx \<Rightarrow> candidate_map \<times> link_ctx \<Rightarrow> string \<Rightarrow> bool"
where
  "cands_agree c c' k \<longleftrightarrow>
     bt_get (fst c) k = bt_get (fst c') k
     \<and> list_all (attrs_agree (snd c) (snd c')) (bt_get_list (fst c) k)"

definition scope_at :: "link_ctx \<Rightarrow> node_id \<Rightarrow> string \<Rightarrow> node_id option" where
  "scope_at ctx source name =
     Option.bind (get_flat (lc_file_of ctx) source) (\<lambda>f. bt_get (lc_import_scope ctx) (f, name))"

definition footprint_agrees ::
  "candidate_map \<times> link_ctx \<Rightarrow> candidate_map \<times> link_ctx \<Rightarrow> string \<times> reference \<Rightarrow> bool"
where
  "footprint_agrees c c' x \<longleftrightarrow>
     (let names = consulted (lc_workspace (snd c)) (fst x); source = r_source (snd x)
      in lc_workspace (snd c) = lc_workspace (snd c')
         \<and> attrs_agree (snd c) (snd c') source
         \<and> list_all (\<lambda>k. scope_at (snd c) source k = scope_at (snd c') source k) names
         \<and> list_all (cands_agree c c') names
         \<and> (case r_recv_returns (snd x) of None \<Rightarrow> True | Some callee \<Rightarrow> cands_agree c c' callee))"

lemma resolve_cong:
  assumes src: "attrs_agree ctx ctx' source"
    and scope: "scope_at ctx source name = scope_at ctx' source name"
    and cands: "\<And>ids. candidates = Some ids \<Longrightarrow> list_all (attrs_agree ctx ctx') ids"
  shows "resolve name source candidates ty opq cross ctx = resolve name source candidates ty opq cross ctx'"
proof (cases candidates)
  case None
  have "Option.bind (get_flat (lc_file_of ctx) source) (\<lambda>f. bt_get (lc_import_scope ctx) (f, name))
      = Option.bind (get_flat (lc_file_of ctx') source) (\<lambda>f. bt_get (lc_import_scope ctx') (f, name))"
    using scope by (simp add: scope_at_def)
  then show ?thesis unfolding resolve_def Let_def None by (simp split: option.split)
next
  case (Some ids)
  with cands have agr: "\<And>i. i \<in> set ids \<Longrightarrow> attrs_agree ctx ctx' i" by (auto simp: list_all_iff)
  have proj: "filter (\<lambda>i. get_flat (lc_project_of ctx) i = get_flat (lc_project_of ctx) source) ids
      = filter (\<lambda>i. get_flat (lc_project_of ctx') i = get_flat (lc_project_of ctx') source) ids"
    using agr src by (auto simp: attrs_agree_def intro: filter_cong)
  define ids' where "ids' = (if cross then ids
      else filter (\<lambda>i. get_flat (lc_project_of ctx') i = get_flat (lc_project_of ctx') source) ids)"
  have sub: "set ids' \<subseteq> set ids" by (auto simp: ids'_def)
  have own: "filter (\<lambda>i. case get_flat (lc_impl_of ctx) i of None \<Rightarrow> False
                      | Some owner \<Rightarrow> norm_type owner = t) ids'
      = filter (\<lambda>i. case get_flat (lc_impl_of ctx') i of None \<Rightarrow> False
                      | Some owner \<Rightarrow> norm_type owner = t) ids'" for t
    using agr sub by (intro filter_cong) (auto simp: attrs_agree_def)
  have loc: "filter (\<lambda>i. f \<noteq> None \<and> get_flat (lc_file_of ctx) i = f) ids'
      = filter (\<lambda>i. f \<noteq> None \<and> get_flat (lc_file_of ctx') i = f) ids'" for f
    using agr sub by (intro filter_cong) (auto simp: attrs_agree_def)
  have src_file: "get_flat (lc_file_of ctx) source = get_flat (lc_file_of ctx') source"
    using src by (simp add: attrs_agree_def)
  have at_scope: "Option.bind (get_flat (lc_file_of ctx') source) (\<lambda>f. bt_get (lc_import_scope ctx) (f, name))
      = Option.bind (get_flat (lc_file_of ctx') source) (\<lambda>f. bt_get (lc_import_scope ctx') (f, name))"
    using scope by (simp add: scope_at_def src_file)
  show ?thesis
    unfolding resolve_def Let_def Some option.case proj src_file at_scope ids'_def [symmetric] own loc ..
qed

lemma return_type_of_cong:
  assumes src: "attrs_agree (snd c) (snd c') source"
    and cands: "cands_agree c c' callee"
  shows "return_type_of callee owner source (fst c) (snd c)
       = return_type_of callee owner source (fst c') (snd c')"
proof (cases "bt_get (fst c) callee")
  case None
  with cands show ?thesis by (simp add: return_type_of_def cands_agree_def)
next
  case (Some ids)
  with cands have get': "bt_get (fst c') callee = Some ids" by (simp add: cands_agree_def)
  from Some cands have agr: "\<And>i. i \<in> set ids \<Longrightarrow> attrs_agree (snd c) (snd c') i"
    by (auto simp: cands_agree_def bt_get_list_def list_all_iff)
  have proj: "filter (\<lambda>i. get_flat (lc_project_of (snd c)) i = get_flat (lc_project_of (snd c)) source) ids
      = filter (\<lambda>i. get_flat (lc_project_of (snd c')) i = get_flat (lc_project_of (snd c')) source) ids"
    using agr src by (auto simp: attrs_agree_def intro: filter_cong)
  define pool0 where
    "pool0 = filter (\<lambda>i. get_flat (lc_project_of (snd c')) i = get_flat (lc_project_of (snd c')) source) ids"
  have sub: "set pool0 \<subseteq> set ids" by (auto simp: pool0_def)
  have own: "filter (\<lambda>i. case get_flat (lc_impl_of (snd c)) i of None \<Rightarrow> False
                      | Some imp \<Rightarrow> norm_type imp = t) pool0
      = filter (\<lambda>i. case get_flat (lc_impl_of (snd c')) i of None \<Rightarrow> False
                      | Some imp \<Rightarrow> norm_type imp = t) pool0" for t
    using agr sub by (intro filter_cong) (auto simp: attrs_agree_def)
  have ret: "List.map_filter (get_flat (lc_returns_of (snd c))) p
      = List.map_filter (get_flat (lc_returns_of (snd c'))) p" if "set p \<subseteq> set ids" for p
    using that agr by (induction p) (auto simp: List.map_filter_def attrs_agree_def)
  show ?thesis
    unfolding return_type_of_def Some get' option.case Let_def proj pool0_def [symmetric] own
    by (subst ret) (use sub in \<open>auto split: option.splits\<close>)
qed

lemma disambiguate_cong:
  assumes "lc_workspace ctx = lc_workspace ctx'" "list_all (attrs_agree ctx ctx') ids"
  shows "disambiguate_by_crate ids crate_name ctx = disambiguate_by_crate ids crate_name ctx'"
proof -
  have eq: "filter (\<lambda>i. case get_flat (lc_project_of ctx) i of None \<Rightarrow> False
                      | Some root \<Rightarrow> slashes root = t) ids
      = filter (\<lambda>i. case get_flat (lc_project_of ctx') i of None \<Rightarrow> False
                      | Some root \<Rightarrow> slashes root = t) ids" for t
    using assms(2) by (intro filter_cong) (auto simp: attrs_agree_def list_all_iff)
  show ?thesis unfolding disambiguate_by_crate_def assms(1) eq ..
qed

lemma disambiguate_subset:
  "disambiguate_by_crate ids crate_name ctx = Some ds \<Longrightarrow> set ds \<subseteq> set ids"
  by (auto simp: disambiguate_by_crate_def Let_def split: option.splits if_splits)

lemma resolve_p0c_cong:
  assumes ws: "lc_workspace ctx = lc_workspace ctx'"
    and src: "attrs_agree ctx ctx' source"
    and scope: "scope_at ctx source name = scope_at ctx' source name"
    and cands: "\<And>ids. candidates = Some ids \<Longrightarrow> list_all (attrs_agree ctx ctx') ids"
  shows "resolve_p0c name source candidates ty opq cross ctx q
     = resolve_p0c name source candidates ty opq cross ctx' q"
proof -
  have whole: "resolve name source candidates ty opq cross ctx
      = resolve name source candidates ty opq cross ctx'"
    by (rule resolve_cong [OF src scope]) (rule cands)
  show ?thesis
  proof (cases candidates)
    case None
    then show ?thesis using whole by (simp add: resolve_p0c_def split: option.split)
  next
    case (Some ids)
    show ?thesis
    proof (cases q)
      case None
      then show ?thesis using whole by (simp add: resolve_p0c_def split: option.split)
    next
      case q: (Some crate_name)
      from cands [OF Some] have agr: "list_all (attrs_agree ctx ctx') ids" .
      have sub: "resolve name source (Some ds) ty opq cross ctx
          = resolve name source (Some ds) ty opq cross ctx'"
        if "disambiguate_by_crate ids crate_name ctx' = Some ds" for ds
        using disambiguate_subset [OF that] agr
        by (intro resolve_cong [OF src scope]) (auto simp: list_all_iff)
      show ?thesis
        unfolding resolve_p0c_def q Some prod.case option.case disambiguate_cong [OF ws agr]
        using whole sub Some by (simp split: option.split)
    qed
  qed
qed

lemma resolve_ref_cong:
  assumes ws: "lc_workspace (snd c) = lc_workspace (snd c')"
    and src: "attrs_agree (snd c) (snd c') (r_source r)"
    and scope: "scope_at (snd c) (r_source r) name = scope_at (snd c') (r_source r) name"
    and recv: "\<And>callee. r_recv_returns r = Some callee \<Longrightarrow> cands_agree c c' callee"
    and cands: "cands_agree c c' name"
  shows "resolve_ref name r (bt_get (fst c) name) (fst c) cross (snd c) q
       = resolve_ref name r (bt_get (fst c') name) (fst c') cross (snd c') q"
proof -
  have rv: "receiver_of r (fst c) (snd c) = receiver_of r (fst c') (snd c')"
    using return_type_of_cong [OF src] recv
    by (auto simp: receiver_of_def split: option.split)
  have get': "bt_get (fst c) name = bt_get (fst c') name"
    using cands by (simp add: cands_agree_def)
  have "list_all (attrs_agree (snd c) (snd c')) ids" if "bt_get (fst c') name = Some ids" for ids
    using cands that get' by (simp add: cands_agree_def bt_get_list_def)
  then have p0c: "resolve_p0c name (r_source r) (bt_get (fst c') name) ty opq cross (snd c) q
      = resolve_p0c name (r_source r) (bt_get (fst c') name) ty opq cross (snd c') q" for ty opq
    by (intro resolve_p0c_cong [OF ws src scope])
  show ?thesis
    unfolding resolve_ref_def rv get' p0c ..
qed

lemma resolve_one_cong:
  assumes "footprint_agrees c c' x"
  shows "resolve_one (fst c) (snd c) (fst x) (snd x) = resolve_one (fst c') (snd c') (fst x) (snd x)"
proof -
  obtain name r where x: "x = (name, r)" by force
  let ?ns = "consulted (lc_workspace (snd c)) name"
  from assms x have ws: "lc_workspace (snd c) = lc_workspace (snd c')"
    and src: "attrs_agree (snd c) (snd c') (r_source r)"
    and scope: "\<And>k. k \<in> set ?ns \<Longrightarrow> scope_at (snd c) (r_source r) k = scope_at (snd c') (r_source r) k"
    and cands: "\<And>k. k \<in> set ?ns \<Longrightarrow> cands_agree c c' k"
    and recv: "\<And>callee. r_recv_returns r = Some callee \<Longrightarrow> cands_agree c c' callee"
    by (auto simp: footprint_agrees_def Let_def list_all_iff)
  have rr: "resolve_ref k r (bt_get (fst c) k) (fst c) cross (snd c) q
      = resolve_ref k r (bt_get (fst c') k) (fst c') cross (snd c') q" if "k \<in> set ?ns" for k cross q
    using that by (intro resolve_ref_cong [OF ws src]) (auto intro: scope recv cands)
  have none: "bt_get (fst c) name = None \<longleftrightarrow> bt_get (fst c') name = None"
    using cands [of name] by (simp add: consulted_def cands_agree_def)
  have n: "name \<in> set ?ns" by (simp add: consulted_def)
  show ?thesis
  proof (cases "strip_workspace_qualifier name (lc_workspace (snd c'))")
    case None
    then show ?thesis
      using none rr [OF n] by (simp add: x resolve_one_def Let_def ws)
  next
    case (Some sq)
    then obtain s q where sq: "strip_workspace_qualifier name (lc_workspace (snd c')) = Some (s, q)"
      by (metis surj_pair)
    then have s: "s \<in> set ?ns" and l: "last (split_str ''::'' s) \<in> set ?ns"
      by (simp_all add: consulted_def ws)
    show ?thesis
      unfolding x fst_conv snd_conv resolve_one_def Let_def ws none sq option.map prod.case
        option.case rr [OF n] rr [OF s] rr [OF l] ..
  qed
qed

definition resolve_with :: "candidate_map \<times> link_ctx \<Rightarrow> string \<times> reference \<Rightarrow> edge" where
  "resolve_with c x = resolve_one (fst c) (snd c) (fst x) (snd x)"

lemma resolve_ref_site: "edge_site (resolve_ref name r cands candidates cross ctx q) = ref_site r"
  by (simp add: resolve_ref_def edge_site_def ref_site_def Let_def split: prod.split)

lemma resolve_one_site: "edge_site (resolve_one candidates ctx name r) = ref_site r"
  by (simp add: resolve_one_def Let_def resolve_ref_site split: option.split)

interpretation relink: footprint_resolver footprint_agrees resolve_with
  by unfold_locales (simp_all add: resolve_with_def resolve_one_cong resolve_one_site)

section \<open>The link indices\<close>

lemma find_unique_key:
  assumes "distinct (map f xs)" "x \<in> set xs"
  shows "find (\<lambda>y. f y = f x) xs = Some x"
  using assms by (induction xs) auto

lemma index_get:
  assumes "distinct (map f xs)" "x \<in> set xs"
  shows "bt_get (bt_collect (map (\<lambda>y. (f y, g y)) xs)) (f x) = Some (g x)"
proof -
  have "find (\<lambda>y. f y = f x) (rev xs) = Some x"
    by (rule find_unique_key) (use assms in \<open>simp_all add: rev_map [symmetric]\<close>)
  then show ?thesis by (simp add: bt_get_collect_map)
qed

lemma index_get_None:
  "k \<notin> f ` set xs \<Longrightarrow> bt_get (bt_collect (map (\<lambda>y. (f y, g y)) xs)) k = None"
  by (auto simp: bt_get_collect_map find_None_iff split: option.split)

lemma get_flat_index:
  assumes "distinct (map n_id nodes)" "n \<in> set nodes"
  shows "get_flat (li_file_of (build_link_indices nodes ws)) (n_id n) = n_file n"
    and "get_flat (li_impl_of (build_link_indices nodes ws)) (n_id n) = bt_get (n_attrs n) ''impl''"
    and "get_flat (li_returns_of (build_link_indices nodes ws)) (n_id n)
       = bt_get (n_attrs n) ''returns''"
    and "get_flat (li_project_of (build_link_indices nodes ws)) (n_id n)
       = Option.bind (n_file n) (root_of ws)"
  by (simp_all add: build_link_indices_def get_flat_def index_get [OF assms])

lemma get_flat_index_None:
  assumes "i \<notin> n_id ` set nodes"
  shows "get_flat (li_file_of (build_link_indices nodes ws)) i = None"
    and "get_flat (li_impl_of (build_link_indices nodes ws)) i = None"
    and "get_flat (li_returns_of (build_link_indices nodes ws)) i = None"
    and "get_flat (li_project_of (build_link_indices nodes ws)) i = None"
  by (simp_all add: build_link_indices_def get_flat_def index_get_None [OF assms])

definition named :: "node list \<Rightarrow> string \<Rightarrow> node list" where
  "named nodes name = filter (\<lambda>n. is_linkable n \<and> n_label n = name) nodes"

lemma foldl_push_candidate_get:
  "bt_get (foldl push_candidate m nodes) name =
     (if named nodes name = [] then bt_get m name
      else Some (bt_get_list m name @ map n_id (named nodes name)))"
proof (induction nodes arbitrary: m)
  case Nil
  then show ?case by (simp add: named_def)
next
  case (Cons n nodes)
  then show ?case
    by (auto simp: named_def push_candidate_def bt_get_push bt_get_list_push bt_get_list_def)
qed

lemma candidates_get:
  "bt_get (build_candidates nodes) name =
     (if named nodes name = [] then None else Some (canon (map n_id (named nodes name))))"
  by (simp add: build_candidates_def foldl_push_candidate_get)

lemma candidates_get_list:
  "bt_get_list (build_candidates nodes) name = canon (map n_id (named nodes name))"
  by (simp add: bt_get_list_def candidates_get)

lemma li_candidates_build [simp]:
  "li_candidates (build_link_indices nodes ws) = build_candidates nodes"
  by (simp add: build_link_indices_def)

section \<open>Where a resolved target comes from\<close>

lemma pick_in:
  assumes "fst (if ids = [] then unresolved name
      else (case ty of
              Some y \<Rightarrow> (case A y of [] \<Rightarrow> unresolved name
                          | [only] \<Rightarrow> (Node only, c1) | first # _ \<Rightarrow> (Node first, c2))
            | None \<Rightarrow> (case B of [only] \<Rightarrow> (Node only, c3) | first # _ \<Rightarrow> (Node first, c4)
                        | [] \<Rightarrow> if opq then unresolved name
                               else (case ids of [only] \<Rightarrow> (Node only, c5)
                                     | first # _ \<Rightarrow> (Node first, c6)
                                     | [] \<Rightarrow> unresolved name)))) = Node t"
    and "\<And>y. set (A y) \<subseteq> set ids" "set B \<subseteq> set ids"
  shows "t \<in> set ids"
proof (cases ty)
  case None
  with assms(1,3) show ?thesis
    by (auto simp: unresolved_def split: if_splits list.splits)
next
  case (Some y)
  with assms(1) assms(2) [of y] show ?thesis
    by (auto simp: unresolved_def split: if_splits list.splits)
qed

lemma resolve_target:
  assumes "fst (resolve name source candidates ty opq cross ctx) = Node t"
  shows "scope_at ctx source name = Some t
     \<or> (\<exists>ids. candidates = Some ids \<and> t \<in> set ids
           \<and> (cross \<or> get_flat (lc_project_of ctx) t = get_flat (lc_project_of ctx) source))"
proof (cases "scope_at ctx source name")
  case (Some d)
  with assms show ?thesis by (simp add: resolve_def scope_at_def Let_def)
next
  case no_scope: None
  show ?thesis
  proof (cases candidates)
    case None
    with assms no_scope show ?thesis by (simp add: resolve_def scope_at_def Let_def unresolved_def)
  next
    case (Some all_ids)
    define ids where "ids = (if cross then all_ids
      else filter (\<lambda>i. get_flat (lc_project_of ctx) i = get_flat (lc_project_of ctx) source) all_ids)"
    have none: "Option.bind (get_flat (lc_file_of ctx) source)
        (\<lambda>f. bt_get (lc_import_scope ctx) (f, name)) = None"
      using no_scope by (simp add: scope_at_def)
    have "all_ids \<noteq> []"
      using assms unfolding resolve_def Let_def none Some by (auto simp: unresolved_def)
    then have ne: "(all_ids = []) = False" by simp
    have "t \<in> set ids"
      using assms
      unfolding resolve_def Let_def none Some option.case ids_def [symmetric] ne if_False
      by (rule pick_in) auto
    then show ?thesis using Some by (auto simp: ids_def split: if_splits)
  qed
qed

lemma resolve_p0c_target:
  assumes "fst (resolve_p0c name source candidates ty opq cross ctx q) = Node t"
  shows "scope_at ctx source name = Some t
     \<or> (\<exists>ids. candidates = Some ids \<and> t \<in> set ids
           \<and> (cross \<or> get_flat (lc_project_of ctx) t = get_flat (lc_project_of ctx) source))"
proof (cases "\<exists>ids qn. candidates = Some ids \<and> q = Some qn \<and> length ids > 1")
  case False
  then have "resolve_p0c name source candidates ty opq cross ctx q
      = resolve name source candidates ty opq cross ctx"
    by (auto simp: resolve_p0c_def split: option.split)
  with assms resolve_target show ?thesis by metis
next
  case True
  then obtain ids qn where c: "candidates = Some ids" "q = Some qn" "length ids > 1" by blast
  then obtain ds where ds: "disambiguate_by_crate ids qn ctx = Some ds"
    "fst (resolve name source (Some ds) ty opq cross ctx) = Node t"
    using assms by (auto simp: resolve_p0c_def unresolved_def split: option.splits)
  from resolve_target [OF ds(2)] disambiguate_subset [OF ds(1)] c show ?thesis by auto
qed

lemma resolve_ref_target:
  assumes "e_target (resolve_ref name r cands candidates cross ctx q) = Node t"
  shows "scope_at ctx (r_source r) name = Some t
     \<or> (\<exists>ids. cands = Some ids \<and> t \<in> set ids
         \<and> (cross \<or> get_flat (lc_project_of ctx) t = get_flat (lc_project_of ctx) (r_source r)))"
proof -
  obtain ty opq where rv: "receiver_of r candidates ctx = (ty, opq)" by force
  have "fst (resolve_p0c name (r_source r) cands ty opq cross ctx q) = Node t"
    using assms by (auto simp: resolve_ref_def rv stamp_opaque_def Let_def
        split: prod.splits if_splits edge_target.splits)
  from resolve_p0c_target [OF this] show ?thesis .
qed

lemma resolve_one_target:
  assumes "e_target (resolve_one candidates ctx name r) = Node t"
  shows "\<exists>k \<in> set (consulted (lc_workspace ctx) name).
     scope_at ctx (r_source r) k = Some t \<or> t \<in> set (bt_get_list candidates k)"
proof -
  have step: "scope_at ctx (r_source r) k = Some t \<or> t \<in> set (bt_get_list candidates k)"
    if "e_target (resolve_ref k r (bt_get candidates k) candidates cross ctx q) = Node t" for k cross q
    using resolve_ref_target [OF that] by (auto simp: bt_get_list_def)
  have name: ?thesis
    if "e_target (resolve_ref name r (bt_get candidates name) candidates cross ctx q) = Node t" for cross q
    using step [OF that] by (auto simp: consulted_def)
  show ?thesis
  proof (cases "bt_get candidates name = None")
    case False
    with assms have "e_target (resolve_ref name r (bt_get candidates name) candidates False ctx
        (map_option snd (strip_workspace_qualifier name (lc_workspace ctx)))) = Node t"
      by (simp add: resolve_one_def Let_def)
    then show ?thesis by (rule name)
  next
    case True
    show ?thesis
    proof (cases "strip_workspace_qualifier name (lc_workspace ctx)")
      case None
      with assms True have "e_target (resolve_ref name r (bt_get candidates name) candidates False ctx None) = Node t"
        by (simp add: resolve_one_def Let_def)
      then show ?thesis by (rule name)
    next
      case (Some sq)
      then obtain s q where sq: "strip_workspace_qualifier name (lc_workspace ctx) = Some (s, q)"
        by (metis surj_pair)
      let ?l = "last (split_str ''::'' s)"
      have cons: "{s, ?l} \<subseteq> set (consulted (lc_workspace ctx) name)"
        by (simp add: consulted_def sq)
      have "e_target (resolve_ref s r (bt_get candidates s) candidates True ctx (Some q)) = Node t
          \<or> e_target (resolve_ref ?l r (bt_get candidates ?l) candidates True ctx None) = Node t
          \<or> e_target (resolve_ref name r (bt_get candidates name) candidates False ctx None) = Node t"
        using assms True by (auto simp: resolve_one_def sq Let_def split: if_splits)
      then show ?thesis using name step cons by blast
    qed
  qed
qed

section \<open>Properties\<close>

text \<open>C38. A reference without a workspace qualifier stays in its project: when it is resolved to a
  node, the node is the target of its file's import binding for the name, or a candidate for the
  name in the project of the reference's source.\<close>

theorem unqualified_reference_stays_in_project:
  assumes "strip_workspace_qualifier name (lc_workspace ctx) = None"
    and "e_target (resolve_one candidates ctx name r) = Node t"
  shows "scope_at ctx (r_source r) name = Some t
     \<or> t \<in> set (bt_get_list candidates name)
       \<and> get_flat (lc_project_of ctx) t = get_flat (lc_project_of ctx) (r_source r)"
proof -
  from assms have "e_target (resolve_ref name r (bt_get candidates name) candidates False ctx None) = Node t"
    by (simp add: resolve_one_def Let_def split: if_splits)
  from resolve_ref_target [OF this] show ?thesis by (auto simp: bt_get_list_def)
qed

definition example_ref :: reference where
  "example_ref = Reference (NodeId ''f'') ''calls'' None None None False None None"

definition example_ctx :: link_ctx where
  "example_ctx =
     \<lparr>lc_file_of = bt_collect [(NodeId ''f'', Some ''p/a.py''), (NodeId ''g'', Some ''p/b.py'')],
      lc_impl_of = bt_empty, lc_returns_of = bt_empty,
      lc_project_of = bt_collect [(NodeId ''f'', Some ''p''), (NodeId ''g'', Some ''p''),
                                  (NodeId ''h'', Some ''q'')],
      lc_import_scope = bt_empty, lc_workspace = bt_empty\<rparr>"

definition example_candidates :: candidate_map where
  "example_candidates = bt_collect [(''g'', [NodeId ''g'', NodeId ''h''])]"

theorem unqualified_reference_stays_in_project_witness:
  "scope_at example_ctx (NodeId ''f'') ''g'' = Some (NodeId ''g'')
   \<or> NodeId ''g'' \<in> set (bt_get_list example_candidates ''g'')
     \<and> get_flat (lc_project_of example_ctx) (NodeId ''g'')
       = get_flat (lc_project_of example_ctx) (NodeId ''f'')"
proof -
  have q: "strip_workspace_qualifier ''g'' (lc_workspace example_ctx) = None" by code_simp
  have e: "e_target (resolve_one example_candidates example_ctx ''g'' example_ref) = Node (NodeId ''g'')"
    by code_simp
  show ?thesis
    using unqualified_reference_stays_in_project [OF q e] by (simp add: example_ref_def)
qed

text \<open>An opaque receiver is never guessed across files: with no receiver type and an opaque
  receiver, a reference is resolved to a node only through its file's import binding or to a
  candidate in the same file.\<close>

theorem opaque_receiver_declines:
  assumes "fst (resolve name source candidates None True cross ctx) = Node t"
  shows "scope_at ctx source name = Some t
     \<or> (get_flat (lc_file_of ctx) source \<noteq> None
        \<and> get_flat (lc_file_of ctx) t = get_flat (lc_file_of ctx) source)"
proof (cases "scope_at ctx source name")
  case None
  then have none: "Option.bind (get_flat (lc_file_of ctx) source)
      (\<lambda>f. bt_get (lc_import_scope ctx) (f, name)) = None"
    by (simp add: scope_at_def)
  have pick: "t \<in> set xs" if "fst (case xs of [only] \<Rightarrow> (Node only, Extracted)
      | first # _ \<Rightarrow> (Node first, Ambiguous) | [] \<Rightarrow> unresolved name) = Node t" for xs
    using that by (auto simp: unresolved_def split: list.splits)
  show ?thesis
  proof (cases candidates)
    case None
    with assms none show ?thesis by (simp add: resolve_def Let_def unresolved_def)
  next
    case (Some ids)
    let ?ids = "if cross then ids else filter (\<lambda>i. get_flat (lc_project_of ctx) i
        = get_flat (lc_project_of ctx) source) ids"
    have "t \<in> set (filter (\<lambda>i. get_flat (lc_file_of ctx) source \<noteq> None
        \<and> get_flat (lc_file_of ctx) i = get_flat (lc_file_of ctx) source) ?ids)"
      using assms unfolding resolve_def Let_def none Some option.case if_True
      by (intro pick) (auto simp: unresolved_def split: if_splits)
    then show ?thesis by simp
  qed
qed (use assms in \<open>simp add: resolve_def scope_at_def Let_def\<close>)

theorem opaque_receiver_declines_witness:
  "get_flat (lc_file_of example_ctx) (NodeId ''g'') = Some ''p/b.py''
   \<and> scope_at example_ctx (NodeId ''g'') ''g'' = None"
proof -
  have r: "fst (resolve ''g'' (NodeId ''g'') (Some [NodeId ''g'', NodeId ''h'']) None True False example_ctx)
      = Node (NodeId ''g'')" by code_simp
  have none: "scope_at example_ctx (NodeId ''g'') ''g'' = None" by code_simp
  from opaque_receiver_declines [OF r] none
  have "get_flat (lc_file_of example_ctx) (NodeId ''g'') \<noteq> None" by simp
  moreover have "get_flat (lc_file_of example_ctx) (NodeId ''g'') \<in> {None, Some ''p/b.py''}" by code_simp
  ultimately show ?thesis using none by auto
qed

end
