(* ===== verification/Scope_Equiv.thy ===== *)
theory Scope_Equiv
  imports Engine Footprint
begin

text \<open>
  Scoped linking against global linking: which parts of the footprint of a reference the impact set
  of \<open>compute_impact\<close> protects, that the divergence guard is a no-op on a consistent state, and
  that a patch computed under \<open>Scoped\<close> is the patch computed under \<open>Global\<close> whenever the parts
  it does not protect (the import bindings of the untouched references, the last segment of a
  workspace-qualified name) did not move. The end of the theory evaluates two repositories where
  one of them moved and the two scopes disagree.
\<close>

section \<open>Consistent states\<close>

definition prior_nodes :: "graph_state \<Rightarrow> node list" where
  "prior_nodes s = filter (\<lambda>n. n_kind n \<noteq> ''project'') (g_nodes (s_graph s))"

text \<open>The resolution inputs the edges of a state were computed from, up to the import scope of that
  apply, which the state does not keep.\<close>

definition prior_link :: "graph_state \<Rightarrow> import_scope \<Rightarrow> candidate_map \<times> link_ctx" where
  "prior_link s scope0 =
     (let idx = build_link_indices (prior_nodes s) (s_workspace s)
      in (li_candidates idx, make_link_ctx idx scope0 (s_workspace s)))"

definition new_link :: "front_extract \<Rightarrow> front_link \<Rightarrow> candidate_map \<times> link_ctx" where
  "new_link fx fl =
     (li_candidates (fl_idx fl), make_link_ctx (fl_idx fl) (fl_import_scope fl) (fx_workspace fx))"

definition ref_sites :: "reverse_index \<Rightarrow> site list" where
  "ref_sites R = map (\<lambda>(name, r). ref_site r) (all_refs R)"

text \<open>Every edge at a reference site is the resolution of a reference there, and the other way
  round: what an apply under \<open>Global\<close> leaves behind.\<close>

definition linked :: "graph_state \<Rightarrow> import_scope \<Rightarrow> bool" where
  "linked s scope0 \<longleftrightarrow>
     mset (filter (\<lambda>e. edge_site e \<in> set (ref_sites (s_reverse s))) (g_edges (s_graph s)))
       = mset (map (resolve_with (prior_link s scope0)) (all_refs (s_reverse s)))"

definition state_wf :: "graph_state \<Rightarrow> bool" where
  "state_wf s \<longleftrightarrow>
     distinct (map n_id (g_nodes (s_graph s))) \<and> reverse_ok (s_reverse s)
     \<and> (\<forall>(name, r) \<in> set (all_refs (s_reverse s)). r_source r \<in> n_id ` set (prior_nodes s))
     \<and> (\<forall>e \<in> set (g_edges (s_graph s)). e_source e \<in> n_id ` set (g_nodes (s_graph s)))"

text \<open>What the engine relies on of an extractor: the nodes of an artifact carry its path and the
  edges of an artifact leave its own nodes.\<close>

definition extractor_local :: "extractor_port \<Rightarrow> bool" where
  "extractor_local x \<longleftrightarrow>
     (\<forall>path b ex. ext_extract x (classify path) b = Inr ex \<longrightarrow>
        (\<forall>n \<in> set (x_nodes ex). n_file n = Some path)
        \<and> (\<forall>e \<in> set (x_edges ex). e_source e \<in> n_id ` set (x_nodes ex)))"

definition extracted_local :: "string list \<Rightarrow> extracted \<Rightarrow> bool" where
  "extracted_local files x \<longleftrightarrow>
     (\<forall>n \<in> set (ex_nodes x). \<exists>f \<in> set files. n_file n = Some f)
     \<and> (\<forall>(name, r) \<in> set (ex_refs x). r_source r \<in> n_id ` set (ex_nodes x))"

lemma foldl_add_edge_nodes [simp]: "ex_nodes (foldl add_edge x es) = ex_nodes x"
  by (induction es arbitrary: x) (auto simp: add_edge_def split: edge_target.split)

lemma foldl_add_edge_refs:
  "(name, r) \<in> set (ex_refs (foldl add_edge x es)) \<Longrightarrow>
     (name, r) \<in> set (ex_refs x) \<or> r_source r \<in> e_source ` set es"
proof (induction es arbitrary: x)
  case (Cons e es)
  from Cons.IH [of "add_edge x e"] Cons.prems show ?case
    by (auto simp: add_edge_def reference_of_def Let_def split: edge_target.splits)
qed simp

lemma add_extraction_local:
  assumes "extracted_local files x" "path \<in> set files"
    and "\<forall>n \<in> set (x_nodes ex). n_file n = Some path"
    and "\<forall>e \<in> set (x_edges ex). e_source e \<in> n_id ` set (x_nodes ex)"
  shows "extracted_local files (add_extraction path ex x)"
proof -
  have "r_source r \<in> n_id ` set (ex_nodes x @ x_nodes ex)"
    if "(name, r) \<in> set (ex_refs (add_extraction path ex x))" for name r
    using foldl_add_edge_refs [OF that [unfolded add_extraction_def]] assms
    by (auto simp: extracted_local_def image_Un)
  then show ?thesis
    using assms by (auto simp: extracted_local_def add_extraction_def)
qed

lemma extract_paths_local:
  assumes "extractor_local extractor"
  shows "extract_paths source extractor paths x = Inr y \<Longrightarrow> extracted_local files x \<Longrightarrow>
     set paths \<subseteq> set files \<Longrightarrow> extracted_local files y"
proof (induction paths arbitrary: x)
  case Nil
  then show ?case by simp
next
  case (Cons path paths)
  show ?case
  proof (cases "ext_handles extractor (classify path)")
    case False
    with Cons show ?thesis by (simp add: Let_def)
  next
    case True
    with Cons.prems(1) obtain b ex where ex: "ext_extract extractor (classify path) b = Inr ex"
      and rest: "extract_paths source extractor paths (add_extraction path ex x) = Inr y"
      by (auto simp: Let_def split: sum.splits)
    have "extracted_local files (add_extraction path ex x)"
      using Cons.prems(2,3) ex assms
      by (intro add_extraction_local) (auto simp: extractor_local_def)
    from Cons.IH [OF rest this] Cons.prems(3) show ?thesis by simp
  qed
qed

lemma front_extract_facts:
  assumes fx: "run_front_extract prior changes env = Inr fx"
    and loc: "extractor_local (env_extractor env)"
  shows "extracted_local (touched (fx_changes fx)) (fx_extracted fx)"
    and "fx_dropped_nodes fx
      = filter (in_dropped (touched (fx_changes fx))) (g_nodes (s_graph prior))"
    and "fx_project_nodes fx = filter (\<lambda>n. n_kind n = ''project'')
      (filter (\<lambda>n. \<not> in_dropped (touched (fx_changes fx)) n) (g_nodes (s_graph prior)))"
    and "fx_surviving_nodes fx = filter (\<lambda>n. n_kind n \<noteq> ''project'')
      (filter (\<lambda>n. \<not> in_dropped (touched (fx_changes fx)) n) (g_nodes (s_graph prior)))"
proof -
  obtain changes' v where fv: "fold_vanished changes (env_source env) = (changes', v)" by force
  from fx have chg: "fx_changes fx = changes'"
    and x: "extract_changed changes' (env_source env) (env_extractor env) = Inr (fx_extracted fx)"
    and rest: "fx_dropped_nodes fx = filter (in_dropped (touched changes')) (g_nodes (s_graph prior))"
      "fx_project_nodes fx = filter (\<lambda>n. n_kind n = ''project'')
        (filter (\<lambda>n. \<not> in_dropped (touched changes') n) (g_nodes (s_graph prior)))"
      "fx_surviving_nodes fx = filter (\<lambda>n. n_kind n \<noteq> ''project'')
        (filter (\<lambda>n. \<not> in_dropped (touched changes') n) (g_nodes (s_graph prior)))"
    by (auto simp: run_front_extract_def fv Let_def split: sum.splits)
  have "extracted_local (touched changes') extracted_empty"
    by (simp add: extracted_local_def extracted_empty_def)
  from extract_paths_local [OF loc x [unfolded extract_changed_def] this] chg
  show "extracted_local (touched (fx_changes fx)) (fx_extracted fx)"
    by (auto simp: touched_def to_index_def)
  show "fx_dropped_nodes fx
      = filter (in_dropped (touched (fx_changes fx))) (g_nodes (s_graph prior))"
    "fx_project_nodes fx = filter (\<lambda>n. n_kind n = ''project'')
      (filter (\<lambda>n. \<not> in_dropped (touched (fx_changes fx)) n) (g_nodes (s_graph prior)))"
    "fx_surviving_nodes fx = filter (\<lambda>n. n_kind n \<noteq> ''project'')
      (filter (\<lambda>n. \<not> in_dropped (touched (fx_changes fx)) n) (g_nodes (s_graph prior)))"
    using rest by (simp_all add: chg)
qed

section \<open>What the impact set covers\<close>

lemma add_site_get:
  "rel \<in> set (bt_get_list (foldl add_site m rs) src)
     \<longleftrightarrow> rel \<in> set (bt_get_list m src) \<or> (\<exists>r \<in> set rs. r_source r = src \<and> r_relation r = rel)"
proof (induction rs arbitrary: m)
  case Nil
  then show ?case by simp
next
  case (Cons r rs)
  have "rel \<in> set (bt_get_list (add_site m r) src)
      \<longleftrightarrow> rel \<in> set (bt_get_list m src) \<or> r_source r = src \<and> r_relation r = rel"
    by (auto simp: add_site_def bt_get_list_insert)
  with Cons.IH [of "add_site m r"] show ?case by auto
qed

definition dirty_names :: "front_extract \<Rightarrow> string list" where
  "dirty_names fx = map n_label (filter is_linkable (fx_dropped_nodes fx @ ex_nodes (fx_extracted fx)))"

text \<open>A site that is not impacted: the apply is not a full one, and none of the references at the
  site has a dirty name, a touched source or a dirty receiver callee.\<close>

lemma not_impacted:
  assumes "\<not> site_impacted (front_impact prior fx fl) src rel"
  shows "fx_workspace fx = s_workspace prior"
    and "\<forall>f \<in> set (fl_dropped_files fl).
           bt_get_list (s_exports prior) f = bt_get_list (fl_exports_by_file fl) f"
    and "\<And>name r. (name, r) \<in> set (all_refs (fl_refs_by_name fl)) \<Longrightarrow> ref_site r = (src, rel) \<Longrightarrow>
           \<not> ref_impacted (canon (dirty_names fx)) (fx_workspace fx) (li_file_of (fl_idx fl))
               (fl_dropped_files fl) (name, r)"
proof -
  from assms have nf: "\<not> ir_full (front_impact prior fx fl)"
    and rel: "rel \<notin> set (bt_get_list (ir_sites (front_impact prior fx fl)) src)"
    by (auto simp: site_impacted_def)
  from nf show ws: "fx_workspace fx = s_workspace prior"
    and ex: "\<forall>f \<in> set (fl_dropped_files fl).
           bt_get_list (s_exports prior) f = bt_get_list (fl_exports_by_file fl) f"
    by (auto simp: front_impact_def compute_impact_def Let_def list_ex_iff)
  fix name r assume r: "(name, r) \<in> set (all_refs (fl_refs_by_name fl))" "ref_site r = (src, rel)"
  show "\<not> ref_impacted (canon (dirty_names fx)) (fx_workspace fx) (li_file_of (fl_idx fl))
               (fl_dropped_files fl) (name, r)"
  proof
    assume imp: "ref_impacted (canon (dirty_names fx)) (fx_workspace fx) (li_file_of (fl_idx fl))
               (fl_dropped_files fl) (name, r)"
    have sites: "ir_sites (front_impact prior fx fl) = foldl add_site bt_empty
        (map snd (filter (ref_impacted (canon (dirty_names fx)) (fx_workspace fx)
          (li_file_of (fl_idx fl)) (fl_dropped_files fl)) (all_refs (fl_refs_by_name fl))))"
      using nf by (auto simp: front_impact_def compute_impact_def Let_def dirty_names_def)
    have "rel \<in> set (bt_get_list (ir_sites (front_impact prior fx fl)) src)"
      unfolding sites add_site_get using r imp by (force simp: ref_site_def)
    with rel show False by simp
  qed
qed

section \<open>The inputs of an apply\<close>

definition apply_inputs :: "graph_state \<Rightarrow> front_extract \<Rightarrow> bool" where
  "apply_inputs prior fx \<longleftrightarrow>
     state_wf prior
     \<and> extracted_local (touched (fx_changes fx)) (fx_extracted fx)
     \<and> distinct (map n_id (fx_surviving_nodes fx @ ex_nodes (fx_extracted fx)))
     \<and> fx_dropped_nodes fx
         = filter (in_dropped (touched (fx_changes fx))) (g_nodes (s_graph prior))
     \<and> fx_project_nodes fx = filter (\<lambda>n. n_kind n = ''project'')
         (filter (\<lambda>n. \<not> in_dropped (touched (fx_changes fx)) n) (g_nodes (s_graph prior)))
     \<and> fx_surviving_nodes fx = filter (\<lambda>n. n_kind n \<noteq> ''project'')
         (filter (\<lambda>n. \<not> in_dropped (touched (fx_changes fx)) n) (g_nodes (s_graph prior)))"

lemma apply_inputsD:
  assumes "apply_inputs prior fx"
  shows "distinct (map n_id (g_nodes (s_graph prior)))"
    and "distinct (map n_id (prior_nodes prior))"
    and "reverse_ok (s_reverse prior)"
    and "\<And>name r. (name, r) \<in> set (all_refs (s_reverse prior)) \<Longrightarrow>
           r_source r \<in> n_id ` set (prior_nodes prior)"
    and "\<And>e. e \<in> set (g_edges (s_graph prior)) \<Longrightarrow> e_source e \<in> n_id ` set (g_nodes (s_graph prior))"
    and "\<And>n. n \<in> set (ex_nodes (fx_extracted fx)) \<Longrightarrow>
           \<exists>f \<in> set (touched (fx_changes fx)). n_file n = Some f"
    and "\<And>name r. (name, r) \<in> set (ex_refs (fx_extracted fx)) \<Longrightarrow>
           r_source r \<in> n_id ` set (ex_nodes (fx_extracted fx))"
    and "distinct (map n_id (fx_surviving_nodes fx @ ex_nodes (fx_extracted fx)))"
    and "\<And>n. n \<in> set (fx_surviving_nodes fx) \<longleftrightarrow>
           n \<in> set (prior_nodes prior) \<and> n \<notin> set (fx_dropped_nodes fx)"
    and "\<And>n. n \<in> set (fx_dropped_nodes fx) \<Longrightarrow>
           n \<in> set (g_nodes (s_graph prior)) \<and> (\<exists>f \<in> set (touched (fx_changes fx)). n_file n = Some f)"
    and "\<And>n. n \<in> set (g_nodes (s_graph prior)) \<Longrightarrow>
           n \<in> set (fx_surviving_nodes fx) \<or> n \<in> set (fx_dropped_nodes fx) \<or> n \<in> set (fx_project_nodes fx)"
    and "\<And>n. n \<in> set (fx_project_nodes fx) \<Longrightarrow>
           n \<in> set (g_nodes (s_graph prior)) \<and> n \<notin> set (prior_nodes prior)"
proof -
  from assms have wf: "state_wf prior"
    and loc: "extracted_local (touched (fx_changes fx)) (fx_extracted fx)"
    and dist: "distinct (map n_id (fx_surviving_nodes fx @ ex_nodes (fx_extracted fx)))"
    and nodes: "fx_dropped_nodes fx
        = filter (in_dropped (touched (fx_changes fx))) (g_nodes (s_graph prior))"
      "fx_project_nodes fx = filter (\<lambda>n. n_kind n = ''project'')
         (filter (\<lambda>n. \<not> in_dropped (touched (fx_changes fx)) n) (g_nodes (s_graph prior)))"
      "fx_surviving_nodes fx = filter (\<lambda>n. n_kind n \<noteq> ''project'')
         (filter (\<lambda>n. \<not> in_dropped (touched (fx_changes fx)) n) (g_nodes (s_graph prior)))"
    unfolding apply_inputs_def by (iprover+)
  show "distinct (map n_id (g_nodes (s_graph prior)))"
    and "distinct (map n_id (prior_nodes prior))"
    and "reverse_ok (s_reverse prior)"
    and "\<And>name r. (name, r) \<in> set (all_refs (s_reverse prior)) \<Longrightarrow>
           r_source r \<in> n_id ` set (prior_nodes prior)"
    and "\<And>e. e \<in> set (g_edges (s_graph prior)) \<Longrightarrow> e_source e \<in> n_id ` set (g_nodes (s_graph prior))"
    using wf by (auto simp: state_wf_def prior_nodes_def distinct_map_filter)
  show "\<And>n. n \<in> set (ex_nodes (fx_extracted fx)) \<Longrightarrow>
           \<exists>f \<in> set (touched (fx_changes fx)). n_file n = Some f"
    and "\<And>name r. (name, r) \<in> set (ex_refs (fx_extracted fx)) \<Longrightarrow>
           r_source r \<in> n_id ` set (ex_nodes (fx_extracted fx))"
    using loc by (auto simp: extracted_local_def)
  show "distinct (map n_id (fx_surviving_nodes fx @ ex_nodes (fx_extracted fx)))" by (rule dist)
  show "\<And>n. n \<in> set (fx_surviving_nodes fx) \<longleftrightarrow>
           n \<in> set (prior_nodes prior) \<and> n \<notin> set (fx_dropped_nodes fx)"
    and "\<And>n. n \<in> set (g_nodes (s_graph prior)) \<Longrightarrow>
           n \<in> set (fx_surviving_nodes fx) \<or> n \<in> set (fx_dropped_nodes fx) \<or> n \<in> set (fx_project_nodes fx)"
    and "\<And>n. n \<in> set (fx_project_nodes fx) \<Longrightarrow>
           n \<in> set (g_nodes (s_graph prior)) \<and> n \<notin> set (prior_nodes prior)"
    unfolding nodes prior_nodes_def by auto
  show "\<And>n. n \<in> set (fx_dropped_nodes fx) \<Longrightarrow>
           n \<in> set (g_nodes (s_graph prior)) \<and> (\<exists>f \<in> set (touched (fx_changes fx)). n_file n = Some f)"
    unfolding nodes by (auto simp: in_dropped_def split: option.splits)
qed

lemma same_id:
  "distinct (map f xs) \<Longrightarrow> x \<in> set xs \<Longrightarrow> y \<in> set xs \<Longrightarrow> f x = f y \<Longrightarrow> x = y"
  by (auto simp: distinct_map inj_on_def)

lemma surviving_id:
  assumes ok: "apply_inputs prior fx" and n: "n \<in> set (prior_nodes prior)"
  shows "n_id n \<notin> n_id ` set (fx_dropped_nodes fx) \<longleftrightarrow> n \<in> set (fx_surviving_nodes fx)"
  using apply_inputsD(1,9,10) [OF ok] n same_id [of n_id "g_nodes (s_graph prior)"]
  by (auto simp: prior_nodes_def image_iff)

lemma front_link_simps:
  "fl_all_nodes (run_front_link prior env fx) = fx_surviving_nodes fx @ ex_nodes (fx_extracted fx)"
  "fl_idx (run_front_link prior env fx) =
     build_link_indices (fx_surviving_nodes fx @ ex_nodes (fx_extracted fx)) (fx_workspace fx)"
  "set (fl_dropped_files (run_front_link prior env fx)) = set (touched (fx_changes fx))"
  "set (fl_dropped_ids (run_front_link prior env fx)) = n_id ` set (fx_dropped_nodes fx)"
  "set (fl_project_ids (run_front_link prior env fx)) = n_id ` set (fx_project_nodes fx)"
  by (simp_all add: run_front_link_def Let_def split: prod.split)

text \<open>The references before the divergence guard adds any.\<close>

definition plain_refs :: "graph_state \<Rightarrow> front_extract \<Rightarrow> reverse_index" where
  "plain_refs prior fx =
     rebuild_refs (s_reverse prior) (canon (map n_id (fx_dropped_nodes fx))) (ex_refs (fx_extracted fx))"

lemma plain_refs_iff:
  assumes "apply_inputs prior fx"
  shows "(name, r) \<in> set (all_refs (plain_refs prior fx)) \<longleftrightarrow>
     (name, r) \<in> set (all_refs (s_reverse prior)) \<and> r_source r \<notin> n_id ` set (fx_dropped_nodes fx)
     \<or> (name, r) \<in> set (ex_refs (fx_extracted fx))"
proof -
  have bt: "bt_ok (s_reverse prior)" using apply_inputsD(3) [OF assms] by (simp add: reverse_ok_def)
  show ?thesis
    unfolding plain_refs_def all_refs_get [OF rebuild_refs_ok] rebuild_refs_get [OF bt]
    by (auto simp: all_refs_get [OF bt] image_iff)
qed

text \<open>The source of an unimpacted reference is a surviving node, and the reference is a prior one.\<close>

lemma unimpacted_source:
  assumes ok: "apply_inputs prior fx"
    and r: "(name, r) \<in> set (all_refs (plain_refs prior fx))"
    and clean: "\<not> ref_impacted dirty ws
      (li_file_of (build_link_indices (fx_surviving_nodes fx @ ex_nodes (fx_extracted fx)) ws'))
      files (name, r)"
    and files: "set files = set (touched (fx_changes fx))"
  shows "(name, r) \<in> set (all_refs (s_reverse prior))"
    and "\<exists>n \<in> set (fx_surviving_nodes fx). n_id n = r_source r"
proof -
  note D = apply_inputsD [OF ok]
  have "(name, r) \<notin> set (ex_refs (fx_extracted fx))"
  proof
    assume "(name, r) \<in> set (ex_refs (fx_extracted fx))"
    with D(7) obtain n where n: "n \<in> set (ex_nodes (fx_extracted fx))" "r_source r = n_id n" by auto
    with D(6) obtain f where f: "f \<in> set (touched (fx_changes fx))" "n_file n = Some f" by blast
    have "n \<in> set (fx_surviving_nodes fx @ ex_nodes (fx_extracted fx))" using n by simp
    from get_flat_index(1) [OF D(8) this] clean files f n show False
      by (simp add: ref_impacted_def)
  qed
  with r show prior_ref: "(name, r) \<in> set (all_refs (s_reverse prior))"
    and "\<exists>n \<in> set (fx_surviving_nodes fx). n_id n = r_source r"
    using plain_refs_iff [OF ok] D(4) surviving_id [OF ok] by (auto, metis imageE)
qed

section \<open>Coverage: attributes and candidates of clean names do not move\<close>

lemma surviving_attrs_agree:
  assumes ok: "apply_inputs prior fx" and ws: "fx_workspace fx = s_workspace prior"
    and n: "n \<in> set (fx_surviving_nodes fx)"
  shows "attrs_agree (snd (prior_link prior scope0)) (snd (new_link fx (run_front_link prior env fx)))
     (n_id n)"
proof -
  note D = apply_inputsD [OF ok]
  have p: "n \<in> set (prior_nodes prior)" using n D(9) by simp
  have a: "n \<in> set (fx_surviving_nodes fx @ ex_nodes (fx_extracted fx))" using n by simp
  show ?thesis
    by (simp add: attrs_agree_def prior_link_def new_link_def Let_def make_link_ctx_def
        front_link_simps get_flat_index [OF D(2) p] get_flat_index [OF D(8) a] ws)
qed

lemma clean_named:
  assumes ok: "apply_inputs prior fx" and k: "k \<notin> set (dirty_names fx)"
  shows "set (named (prior_nodes prior) k) = set (named (fx_surviving_nodes fx) k)"
    and "set (named (fx_surviving_nodes fx @ ex_nodes (fx_extracted fx)) k)
       = set (named (fx_surviving_nodes fx) k)"
  using k apply_inputsD(9) [OF ok] by (auto simp: named_def dirty_names_def)

lemma clean_cands_agree:
  assumes ok: "apply_inputs prior fx" and ws: "fx_workspace fx = s_workspace prior"
    and k: "k \<notin> set (dirty_names fx)"
  shows "cands_agree (prior_link prior scope0) (new_link fx (run_front_link prior env fx)) k"
proof -
  let ?all = "fx_surviving_nodes fx @ ex_nodes (fx_extracted fx)"
  have same: "set (named (prior_nodes prior) k) = set (named ?all k)"
    using clean_named [OF assms(1,3)] by simp
  then have ids: "canon (map n_id (named (prior_nodes prior) k)) = canon (map n_id (named ?all k))"
    by (intro canon_cong) simp
  have nil: "named (prior_nodes prior) k = [] \<longleftrightarrow> named ?all k = []"
    using same by (metis set_empty)
  have get': "bt_get (fst (prior_link prior scope0)) k
      = bt_get (fst (new_link fx (run_front_link prior env fx))) k"
    using ids nil by (simp add: prior_link_def new_link_def Let_def front_link_simps candidates_get)
  have "attrs_agree (snd (prior_link prior scope0)) (snd (new_link fx (run_front_link prior env fx))) i"
    if "i \<in> set (bt_get_list (fst (prior_link prior scope0)) k)" for i
  proof -
    from that obtain n where n: "n \<in> set (named (prior_nodes prior) k)" "i = n_id n"
      by (auto simp: prior_link_def Let_def candidates_get_list)
    then have "n \<in> set (fx_surviving_nodes fx)"
      using clean_named(1) [OF ok k] by (auto simp: named_def)
    from surviving_attrs_agree [OF ok ws this] n show ?thesis by simp
  qed
  with get' show ?thesis by (simp add: cands_agree_def list_all_iff)
qed

text \<open>A candidate for a clean name is not one of the dropped nodes.\<close>

lemma clean_cands_live:
  assumes ok: "apply_inputs prior fx" and k: "k \<notin> set (dirty_names fx)"
    and t: "t \<in> set (bt_get_list (fst (new_link fx (run_front_link prior env fx))) k)"
  shows "t \<notin> n_id ` set (fx_dropped_nodes fx)"
proof -
  from t obtain n where "n \<in> set (named (fx_surviving_nodes fx @ ex_nodes (fx_extracted fx)) k)"
    "t = n_id n"
    by (auto simp: new_link_def front_link_simps candidates_get_list)
  then have "n \<in> set (fx_surviving_nodes fx)" "t = n_id n"
    using clean_named(2) [OF ok k] by (auto simp: named_def)
  then show ?thesis using surviving_id [OF ok] apply_inputsD(9) [OF ok] by simp
qed

section \<open>What the impact set does not cover\<close>

text \<open>The last segment of a workspace-qualified name, and the import bindings. A binding is unmoved
  when it is the one of the prior apply and its target is not a node of a touched file.\<close>

definition segment_clean :: "front_extract \<Rightarrow> string \<Rightarrow> bool" where
  "segment_clean fx name \<longleftrightarrow>
     (case strip_workspace_qualifier name (fx_workspace fx) of
        None \<Rightarrow> True
      | Some (stripped, _) \<Rightarrow> last (split_str ''::'' stripped) \<notin> set (dirty_names fx))"

definition binding_unmoved ::
  "graph_state \<Rightarrow> import_scope \<Rightarrow> front_extract \<Rightarrow> front_link \<Rightarrow> node_id \<Rightarrow> string \<Rightarrow> bool"
where
  "binding_unmoved prior scope0 fx fl source k \<longleftrightarrow>
     (let b = scope_at (snd (new_link fx fl)) source k
      in scope_at (snd (prior_link prior scope0)) source k = b
         \<and> (case b of None \<Rightarrow> True | Some t \<Rightarrow> t \<notin> set (fl_dropped_ids fl)))"

definition uncovered_stable ::
  "graph_state \<Rightarrow> import_scope \<Rightarrow> front_extract \<Rightarrow> front_link \<Rightarrow> bool"
where
  "uncovered_stable prior scope0 fx fl \<longleftrightarrow>
     list_all (\<lambda>(name, r).
         site_impacted (front_impact prior fx fl) (r_source r) (r_relation r)
         \<or> segment_clean fx name
           \<and> list_all (binding_unmoved prior scope0 fx fl (r_source r))
               (consulted (fx_workspace fx) name))
       (all_refs (fl_refs_by_name fl))"

lemma consulted_clean:
  assumes clean: "\<not> ref_impacted (canon (dirty_names fx)) (fx_workspace fx) file_of files (name, r)"
    and seg: "segment_clean fx name"
    and k: "k \<in> set (consulted (fx_workspace fx) name)"
  shows "k \<notin> set (dirty_names fx)"
  using assms by (auto simp: ref_impacted_def name_dirty_def consulted_def segment_clean_def
      split: option.splits)

lemma front_link_workspace [simp]:
  "lc_workspace (snd (prior_link prior scope0)) = s_workspace prior"
  "lc_workspace (snd (new_link fx fl)) = fx_workspace fx"
  by (simp_all add: prior_link_def new_link_def Let_def make_link_ctx_def)

text \<open>Coverage: the footprint of a reference at an unimpacted site did not move.\<close>

lemma coverage:
  assumes ok: "apply_inputs prior fx" and fl: "fl = run_front_link prior env fx"
    and plain: "fl_refs_by_name fl = plain_refs prior fx"
    and stable: "uncovered_stable prior scope0 fx fl"
    and r: "(name, r) \<in> set (all_refs (plain_refs prior fx))"
    and un: "\<not> site_impacted (front_impact prior fx fl) (r_source r) (r_relation r)"
  shows "(name, r) \<in> set (all_refs (s_reverse prior))"
    and "\<exists>n \<in> set (fx_surviving_nodes fx). n_id n = r_source r"
    and "footprint_agrees (prior_link prior scope0) (new_link fx fl) (name, r)"
    and "\<And>t. e_target (resolve_with (new_link fx fl) (name, r)) = Node t \<Longrightarrow>
           t \<notin> n_id ` set (fx_dropped_nodes fx)"
proof -
  have ws: "fx_workspace fx = s_workspace prior" using not_impacted(1) [OF un] .
  have clean: "\<not> ref_impacted (canon (dirty_names fx)) (fx_workspace fx) (li_file_of (fl_idx fl))
      (fl_dropped_files fl) (name, r)"
    using not_impacted(3) [OF un, of name r] r plain by (simp add: ref_site_def)
  note src = unimpacted_source [OF ok r, of "canon (dirty_names fx)" "fx_workspace fx"
      "fx_workspace fx" "fl_dropped_files fl"]
  show "(name, r) \<in> set (all_refs (s_reverse prior))"
    and n: "\<exists>n \<in> set (fx_surviving_nodes fx). n_id n = r_source r"
    using src clean by (simp_all add: fl front_link_simps)
  from stable r un plain have seg: "segment_clean fx name"
    and bind: "\<And>k. k \<in> set (consulted (fx_workspace fx) name) \<Longrightarrow>
        binding_unmoved prior scope0 fx fl (r_source r) k"
    by (auto simp: uncovered_stable_def list_all_iff)
  note names = consulted_clean [OF clean seg]
  have callee: "cands_agree (prior_link prior scope0) (new_link fx fl) c"
    if "r_recv_returns r = Some c" for c
    using clean that clean_cands_agree [OF ok ws] by (auto simp: ref_impacted_def fl)
  from n obtain m where m: "m \<in> set (fx_surviving_nodes fx)" "n_id m = r_source r" by blast
  have "attrs_agree (snd (prior_link prior scope0)) (snd (new_link fx fl)) (r_source r)"
    using surviving_attrs_agree [OF ok ws m(1)] m(2) by (simp add: fl)
  then show "footprint_agrees (prior_link prior scope0) (new_link fx fl) (name, r)"
    using clean_cands_agree [OF ok ws] names bind callee
    by (auto simp: footprint_agrees_def Let_def list_all_iff ws [symmetric] binding_unmoved_def fl
        split: option.split)
  fix t assume "e_target (resolve_with (new_link fx fl) (name, r)) = Node t"
  then have "e_target (resolve_one (fst (new_link fx fl)) (snd (new_link fx fl)) name r) = Node t"
    by (simp add: resolve_with_def)
  from resolve_one_target [OF this] obtain k where
    k: "k \<in> set (consulted (fx_workspace fx) name)"
    and t: "scope_at (snd (new_link fx fl)) (r_source r) k = Some t
       \<or> t \<in> set (bt_get_list (fst (new_link fx fl)) k)" by auto
  from t show "t \<notin> n_id ` set (fx_dropped_nodes fx)"
    using bind [OF k] clean_cands_live [OF ok names [OF k]]
    by (auto simp: binding_unmoved_def Let_def fl front_link_simps)
qed

section \<open>The divergence guard\<close>

definition refs_at :: "reverse_index \<Rightarrow> site \<Rightarrow> (string \<times> reference) list" where
  "refs_at R s = filter (\<lambda>(name, r). ref_site r = s) (all_refs R)"

definition live_edges_at :: "node_id list \<Rightarrow> node_id list \<Rightarrow> edge list \<Rightarrow> site \<Rightarrow> edge list" where
  "live_edges_at d p E s =
     filter (\<lambda>e. e_source e \<notin> set d \<and> e_source e \<notin> set p \<and> edge_site e = s) E"

lemma count_ref_get:
  "bt_get (foldl count_ref m rs) s =
     (if filter (\<lambda>r. ref_site r = s) rs = [] then bt_get m s
      else Some ((case bt_get m s of None \<Rightarrow> 0 | Some c \<Rightarrow> c)
             + int (length (filter (\<lambda>r. ref_site r = s) rs))))"
proof (induction rs arbitrary: m)
  case Nil
  then show ?case by simp
next
  case (Cons r rs)
  show ?case
    by (simp add: Cons.IH) (auto simp: count_ref_def bt_get_insert split: option.split)
qed

lemma count_ref_ok: "bt_ok m \<Longrightarrow> bt_ok (foldl count_ref m rs)"
  by (induction rs arbitrary: m) (auto simp: count_ref_def)

lemma claim_edge_get:
  "bt_get (foldl (claim_edge d p) m es) s =
     map_option (\<lambda>c. c - int (length (live_edges_at d p es s))) (bt_get m s)"
proof (induction es arbitrary: m)
  case Nil
  then show ?case by (simp add: live_edges_at_def option.map_ident)
next
  case (Cons e es)
  show ?case
    by (simp add: Cons.IH)
      (auto simp: claim_edge_def live_edges_at_def bt_get_insert option.map_comp o_def
        split: option.split)
qed

lemma claim_edge_ok: "bt_ok m \<Longrightarrow> bt_ok (foldl (claim_edge d p) m es)"
  by (induction es arbitrary: m) (auto simp: claim_edge_def split: option.splits)

lemma refs_at_length:
  "length (filter (\<lambda>r. ref_site r = s) (map snd xs)) = length (filter (\<lambda>(name, r). ref_site r = s) xs)"
  by (induction xs) auto

lemma detect_diverged_iff:
  "s \<in> set (detect_diverged R E d p) \<longleftrightarrow>
     refs_at R s \<noteq> [] \<and> length (refs_at R s) < length (live_edges_at d p E s)"
proof -
  let ?m = "foldl (claim_edge d p) (foldl count_ref bt_empty (map snd (all_refs R))) E"
  have ok: "bt_ok ?m" by (intro claim_edge_ok count_ref_ok bt_ok_empty)
  have len: "length (filter (\<lambda>r. ref_site r = s) (map snd (all_refs R))) = length (refs_at R s)"
    unfolding refs_at_def by (rule refs_at_length)
  then have nil: "filter (\<lambda>r. ref_site r = s) (map snd (all_refs R)) = [] \<longleftrightarrow> refs_at R s = []"
    by (metis length_0_conv)
  have get: "bt_get ?m s = (if refs_at R s = [] then None
      else Some (int (length (refs_at R s)) - int (length (live_edges_at d p E s))))"
    unfolding claim_edge_get count_ref_get nil len by simp
  have "s \<in> set (detect_diverged R E d p) \<longleftrightarrow> (\<exists>b < 0. bt_get ?m s = Some b)"
    unfolding detect_diverged_def by (force simp: bt_in_set_iff [OF ok, symmetric])
  then show ?thesis by (auto simp: get)
qed

lemma no_divergence_no_healing:
  "(\<And>s. length (live_edges_at d p (g_edges (s_graph prior)) s) \<le> length (refs_at R s) \<or> refs_at R s = [])
     \<Longrightarrow> heal_diverged_refs R prior d p file_of scope = (R, [])"
proof -
  assume "\<And>s. length (live_edges_at d p (g_edges (s_graph prior)) s) \<le> length (refs_at R s) \<or> refs_at R s = []"
  then have "s \<notin> set (detect_diverged R (g_edges (s_graph prior)) d p)" for s
    using detect_diverged_iff [of s R "g_edges (s_graph prior)" d p] by (metis leD)
  then have "detect_diverged R (g_edges (s_graph prior)) d p = []" by (metis list.set_intros(1) neq_Nil_conv)
  then show ?thesis by (simp add: heal_diverged_refs_def healed_refs_of_def Let_def add_healed_def)
qed

lemma all_refs_distinct: "reverse_ok R \<Longrightarrow> distinct (all_refs R)"
proof (induction R)
  case (Cons nl R)
  obtain n l where nl: "nl = (n, l)" by force
  with Cons.prems have ok: "reverse_ok R" and l: "distinct l" and n: "n \<notin> fst ` set R"
    by (auto simp: reverse_ok_def bt_ok_Cons)
  from n have "(n, r) \<notin> set (all_refs R)" for r by (force simp: all_refs_in)
  with Cons.IH [OF ok] l show ?case by (auto simp: nl distinct_map inj_on_def)
qed simp

lemma refs_at_iff: "(name, r) \<in> set (refs_at R s) \<longleftrightarrow> (name, r) \<in> set (all_refs R) \<and> ref_site r = s"
  by (auto simp: refs_at_def)

lemma ref_sites_iff: "s \<in> set (ref_sites R) \<longleftrightarrow> (\<exists>name r. (name, r) \<in> set (all_refs R) \<and> ref_site r = s)"
  by (force simp: ref_sites_def)

lemma linked_count:
  assumes "linked s scope0" "st \<in> set (ref_sites (s_reverse s))"
  shows "length (filter (\<lambda>e. edge_site e = st) (g_edges (s_graph s))) = length (refs_at (s_reverse s) st)"
proof -
  let ?E = "g_edges (s_graph s)" and ?S = "set (ref_sites (s_reverse s))"
  have "filter (\<lambda>e. edge_site e = st) ?E = filter (\<lambda>e. edge_site e = st) (filter (\<lambda>e. edge_site e \<in> ?S) ?E)"
    using assms(2) by (auto intro: filter_cong)
  then have "mset (filter (\<lambda>e. edge_site e = st) ?E)
      = filter_mset (\<lambda>e. edge_site e = st) (mset (filter (\<lambda>e. edge_site e \<in> ?S) ?E))"
    by (metis mset_filter)
  also have "\<dots> = mset (filter (\<lambda>e. edge_site e = st)
      (map (resolve_with (prior_link s scope0)) (all_refs (s_reverse s))))"
    using assms(1) by (simp only: linked_def mset_filter)
  also have "\<dots> = mset (map (resolve_with (prior_link s scope0)) (refs_at (s_reverse s) st))"
    by (simp add: filter_map o_def relink.res_site refs_at_def case_prod_unfold)
  finally have "size (mset (filter (\<lambda>e. edge_site e = st) ?E))
      = size (mset (map (resolve_with (prior_link s scope0)) (refs_at (s_reverse s) st)))" by simp
  then show ?thesis by (simp only: size_mset length_map)
qed

text \<open>A freshly extracted source has no live prior edge.\<close>

lemma new_source_no_edges:
  assumes ok: "apply_inputs prior fx" and r: "(name, r) \<in> set (ex_refs (fx_extracted fx))"
    and e: "e \<in> set (g_edges (s_graph prior))" "e_source e = r_source r"
  shows "r_source r \<in> n_id ` set (fx_dropped_nodes fx) \<or> r_source r \<in> n_id ` set (fx_project_nodes fx)"
proof -
  note D = apply_inputsD [OF ok]
  from D(7) [OF r] obtain n where n: "n \<in> set (ex_nodes (fx_extracted fx))" "n_id n = r_source r" by auto
  from D(5) [OF e(1)] e(2) obtain m where m: "m \<in> set (g_nodes (s_graph prior))" "n_id m = r_source r"
    by auto
  have "m \<notin> set (fx_surviving_nodes fx)" using n m(2) D(8) by (force simp: image_iff)
  with D(11) [OF m(1)] m(2) show ?thesis by (metis imageI)
qed

lemma live_edges_dead_source:
  "src \<in> set d \<or> src \<in> set p \<Longrightarrow> live_edges_at d p E (src, rel) = []"
  by (auto simp: live_edges_at_def edge_site_def filter_empty_conv)

text \<open>On a consistent state the guard finds nothing to heal.\<close>

lemma linked_no_healing:
  assumes ok: "apply_inputs prior fx" and lk: "linked prior scope0"
  shows "heal_diverged_refs (plain_refs prior fx) prior (canon (map n_id (fx_dropped_nodes fx)))
      (canon (map n_id (fx_project_nodes fx))) file_of scope = (plain_refs prior fx, [])"
proof (rule no_divergence_no_healing)
  fix s :: site
  let ?d = "canon (map n_id (fx_dropped_nodes fx))" and ?p = "canon (map n_id (fx_project_nodes fx))"
  let ?E = "g_edges (s_graph prior)" and ?R = "plain_refs prior fx"
  note D = apply_inputsD [OF ok]
  obtain src rel where s: "s = (src, rel)" by force
  show "length (live_edges_at ?d ?p ?E s) \<le> length (refs_at ?R s) \<or> refs_at ?R s = []"
  proof (cases "refs_at ?R s = [] \<or> src \<in> set ?d \<or> src \<in> set ?p")
    case True
    then show ?thesis using live_edges_dead_source [of src ?d ?p ?E rel] by (auto simp: s)
  next
    case False
    then have src: "src \<notin> n_id ` set (fx_dropped_nodes fx)" "src \<notin> n_id ` set (fx_project_nodes fx)"
      by auto
    show ?thesis
    proof (cases "s \<in> set (ref_sites (s_reverse prior))")
      case True
      have "length (live_edges_at ?d ?p ?E s) = length (filter (\<lambda>e. edge_site e = s) ?E)"
        unfolding live_edges_at_def
        using src by (intro arg_cong [where f = length] filter_cong) (auto simp: edge_site_def s)
      also have "\<dots> = length (refs_at (s_reverse prior) s)" by (rule linked_count [OF lk True])
      also have "\<dots> = card (set (refs_at (s_reverse prior) s))"
        using all_refs_distinct [OF D(3)] by (intro distinct_card [symmetric]) (simp add: refs_at_def)
      also have "\<dots> \<le> card (set (refs_at ?R s))"
      proof (rule card_mono)
        show "set (refs_at (s_reverse prior) s) \<subseteq> set (refs_at ?R s)"
          using src by (auto simp: refs_at_iff plain_refs_iff [OF ok] ref_site_def s)
      qed simp
      also have "\<dots> \<le> length (refs_at ?R s)" by (rule card_length)
      finally show ?thesis ..
    next
      case no_site: False
      from False obtain name r where "(name, r) \<in> set (all_refs ?R)" "ref_site r = s"
        by (metis refs_at_iff list.set_intros(1) neq_Nil_conv surj_pair)
      with no_site have r: "r_source r = src" "(name, r) \<in> set (ex_refs (fx_extracted fx))"
        by (auto simp: plain_refs_iff [OF ok] ref_sites_iff ref_site_def s)
      have "e_source e \<noteq> src" if "e \<in> set ?E" for e
        using new_source_no_edges [OF ok r(2) that] src r(1) by metis
      then have "live_edges_at ?d ?p ?E s = []"
        by (auto simp: live_edges_at_def edge_site_def s filter_empty_conv)
      then show ?thesis by simp
    qed
  qed
qed

section \<open>The two scopes compute the same edges\<close>

definition calm_sites :: "impact_report \<Rightarrow> reverse_index \<Rightarrow> site set" where
  "calm_sites i R = {s. s \<in> set (ref_sites R) \<and> \<not> site_impacted i (fst s) (snd s)}"

lemma plain_front_link:
  assumes "apply_inputs prior fx" "linked prior scope0"
  shows "fl_refs_by_name (run_front_link prior env fx) = plain_refs prior fx"
    and "fl_healed_refs (run_front_link prior env fx) = []"
  using linked_no_healing [OF assms]
  by (simp_all add: run_front_link_def Let_def plain_refs_def split: prod.split)

lemma calm_edges:
  assumes ok: "apply_inputs prior fx" and fl: "fl = run_front_link prior env fx"
    and lk: "linked prior scope0" and stable: "uncovered_stable prior scope0 fx fl"
    and S: "S = calm_sites (front_impact prior fx fl) (fl_refs_by_name fl)"
  shows "mset (filter (\<lambda>e. edge_site e \<in> S) (g_edges (s_graph prior)))
     = mset (map (resolve_with (new_link fx fl))
         (filter (\<lambda>x. ref_site (snd x) \<in> S) (all_refs (fl_refs_by_name fl))))"
proof (rule relink.unimpacted_edges)
  note plain = plain_front_link(1) [OF ok lk, of env, folded fl]
  note D = apply_inputsD [OF ok]
  have calm: "\<not> site_impacted (front_impact prior fx fl) (r_source r) (r_relation r)"
    if "ref_site r \<in> S" for r using that by (simp add: S calm_sites_def ref_site_def)
  note cov = coverage [OF ok fl plain stable]
  show "mset (filter (\<lambda>e. edge_site e \<in> set (ref_sites (s_reverse prior))) (g_edges (s_graph prior)))
      = mset (map (resolve_with (prior_link prior scope0)) (all_refs (s_reverse prior)))"
    using lk by (simp only: linked_def)
  show "S \<subseteq> set (ref_sites (s_reverse prior))"
  proof
    fix s assume "s \<in> S"
    then obtain name r where r: "(name, r) \<in> set (all_refs (plain_refs prior fx))" "ref_site r = s"
      by (auto simp: S calm_sites_def ref_sites_iff plain)
    with cov(1) [OF r(1)] calm \<open>s \<in> S\<close> show "s \<in> set (ref_sites (s_reverse prior))"
      by (auto simp: ref_sites_iff)
  qed
  show "footprint_agrees (prior_link prior scope0) (new_link fx fl) x"
    if "x \<in> set (all_refs (fl_refs_by_name fl))" "ref_site (snd x) \<in> S" for x
    using cov(3) [of "fst x" "snd x"] calm that by (simp add: plain)
  have "(name, r) \<in> set (all_refs (s_reverse prior)) \<longleftrightarrow> (name, r) \<in> set (all_refs (plain_refs prior fx))"
    if "ref_site r \<in> S" for name r
  proof
    assume r: "(name, r) \<in> set (all_refs (s_reverse prior))"
    from that obtain name' r' where r': "(name', r') \<in> set (all_refs (plain_refs prior fx))"
      "ref_site r' = ref_site r" by (auto simp: S calm_sites_def ref_sites_iff plain)
    with cov(2) [OF r'(1)] calm that obtain n where "n \<in> set (fx_surviving_nodes fx)" "n_id n = r_source r"
      by (auto simp: ref_site_def)
    with surviving_id [OF ok] D(9) have "r_source r \<notin> n_id ` set (fx_dropped_nodes fx)" by metis
    with r show "(name, r) \<in> set (all_refs (plain_refs prior fx))" by (simp add: plain_refs_iff [OF ok])
  qed (use cov(1) calm that in blast)
  then show "mset (filter (\<lambda>x. ref_site (snd x) \<in> S) (all_refs (s_reverse prior)))
      = mset (filter (\<lambda>x. ref_site (snd x) \<in> S) (all_refs (fl_refs_by_name fl)))"
    using all_refs_distinct [OF D(3)] all_refs_distinct [OF rebuild_refs_reverse_ok]
    by (subst set_eq_iff_mset_eq_distinct [symmetric]) (auto simp: plain plain_refs_def)
qed

lemma calm_edges_healthy:
  assumes ok: "apply_inputs prior fx" and fl: "fl = run_front_link prior env fx"
    and lk: "linked prior scope0" and stable: "uncovered_stable prior scope0 fx fl"
    and e: "e \<in> set (g_edges (s_graph prior))"
      "edge_site e \<in> calm_sites (front_impact prior fx fl) (fl_refs_by_name fl)"
  shows "healthy_edge (fl_dropped_ids fl) (fl_project_ids fl) e"
proof -
  let ?S = "calm_sites (front_impact prior fx fl) (fl_refs_by_name fl)"
  note plain = plain_front_link(1) [OF ok lk, of env, folded fl]
  note D = apply_inputsD [OF ok]
  from e have "e \<in># mset (filter (\<lambda>e. edge_site e \<in> ?S) (g_edges (s_graph prior)))" by simp
  then obtain name r where r: "(name, r) \<in> set (all_refs (plain_refs prior fx))" "ref_site r \<in> ?S"
    and er: "e = resolve_with (new_link fx fl) (name, r)"
    unfolding calm_edges [OF ok fl lk stable refl] by (auto simp: plain)
  have un: "\<not> site_impacted (front_impact prior fx fl) (r_source r) (r_relation r)"
    using r(2) by (simp add: calm_sites_def ref_site_def)
  note cov = coverage [OF ok fl plain stable r(1) un]
  have src: "e_source e = r_source r"
    using relink.res_site [of "new_link fx fl" "(name, r)"] by (simp add: er edge_site_def ref_site_def)
  from cov(2) obtain n where n: "n \<in> set (fx_surviving_nodes fx)" "n_id n = r_source r" by blast
  then have "r_source r \<notin> n_id ` set (fx_dropped_nodes fx)"
    using surviving_id [OF ok] D(9) by metis
  moreover have "r_source r \<notin> n_id ` set (fx_project_nodes fx)"
  proof
    assume "r_source r \<in> n_id ` set (fx_project_nodes fx)"
    then obtain m where m: "m \<in> set (fx_project_nodes fx)" "n_id m = n_id n" using n(2) by auto
    have "n \<in> set (g_nodes (s_graph prior))" "n \<in> set (prior_nodes prior)"
      using n(1) D(9) by (simp_all add: prior_nodes_def)
    with D(12) [OF m(1)] same_id [OF D(1)] m(2) show False by metis
  qed
  moreover have "t \<notin> n_id ` set (fx_dropped_nodes fx)" if "e_target e = Node t" for t
    using cov(4) that by (simp add: er)
  moreover have "set (fl_dropped_ids fl) = n_id ` set (fx_dropped_nodes fx)"
    "set (fl_project_ids fl) = n_id ` set (fx_project_nodes fx)"
    by (simp_all add: fl front_link_simps)
  ultimately show ?thesis
    by (simp add: healthy_edge_def src split: edge_target.split)
qed

lemma link_stage_eq:
  "link_stage prior fx fl Global = (map (resolve_with (new_link fx fl)) (all_refs (fl_refs_by_name fl)), None)"
  "link_stage prior fx fl Scoped =
     (map (resolve_with (new_link fx fl))
        (filter (\<lambda>x. ref_site (snd x) \<notin> calm_sites (front_impact prior fx fl) (fl_refs_by_name fl))
          (all_refs (fl_refs_by_name fl))),
      Some (front_impact prior fx fl))"
proof -
  have res: "(\<lambda>(name, r). resolve_one (li_candidates (fl_idx fl))
      (make_link_ctx (fl_idx fl) (fl_import_scope fl) (fx_workspace fx)) name r) = resolve_with (new_link fx fl)"
    by (auto simp: resolve_with_def new_link_def)
  show "link_stage prior fx fl Global
      = (map (resolve_with (new_link fx fl)) (all_refs (fl_refs_by_name fl)), None)"
    by (simp add: link_stage_def Let_def resolve_all_def res)
  have "filter (\<lambda>(name, r). site_impacted (front_impact prior fx fl) (r_source r) (r_relation r))
        (all_refs (fl_refs_by_name fl))
      = filter (\<lambda>x. ref_site (snd x) \<notin> calm_sites (front_impact prior fx fl) (fl_refs_by_name fl))
        (all_refs (fl_refs_by_name fl))"
  proof (rule filter_cong)
    fix x assume "x \<in> set (all_refs (fl_refs_by_name fl))"
    then have "ref_site (snd x) \<in> set (ref_sites (fl_refs_by_name fl))"
      unfolding ref_sites_iff by (metis prod.collapse)
    then show "(case x of (name, r) \<Rightarrow> site_impacted (front_impact prior fx fl) (r_source r) (r_relation r))
        \<longleftrightarrow> ref_site (snd x) \<notin> calm_sites (front_impact prior fx fl) (fl_refs_by_name fl)"
      by (cases x) (simp add: calm_sites_def ref_site_def)
  qed simp
  then show "link_stage prior fx fl Scoped =
     (map (resolve_with (new_link fx fl))
        (filter (\<lambda>x. ref_site (snd x) \<notin> calm_sites (front_impact prior fx fl) (fl_refs_by_name fl))
          (all_refs (fl_refs_by_name fl))),
      Some (front_impact prior fx fl))"
    by (simp add: link_stage_def Let_def resolve_impacted_def res)
qed

lemma mset_filter_or:
  "(\<And>x. x \<in> set xs \<Longrightarrow> R x \<longleftrightarrow> P x \<or> Q x) \<Longrightarrow> (\<And>x. x \<in> set xs \<Longrightarrow> \<not> (P x \<and> Q x)) \<Longrightarrow>
     mset (filter R xs) = mset (filter P xs) + mset (filter Q xs)"
  by (induction xs) auto

text \<open>Under \<open>Scoped\<close> the calm edges move from the re-resolved half to the carried half.\<close>

lemma scopes_move_calm_edges:
  assumes ok: "apply_inputs prior fx" and fl: "fl = run_front_link prior env fx"
    and lk: "linked prior scope0" and stable: "uncovered_stable prior scope0 fx fl"
  shows "\<exists>calm.
     mset (fst (link_stage prior fx fl Global)) = mset (fst (link_stage prior fx fl Scoped)) + calm
     \<and> mset (fst (carry_prior_edges (g_edges (s_graph prior)) (fl_refs_by_name fl)
           (snd (link_stage prior fx fl Scoped)) (fl_dropped_ids fl) (fl_project_ids fl)))
       = mset (fst (carry_prior_edges (g_edges (s_graph prior)) (fl_refs_by_name fl)
           (snd (link_stage prior fx fl Global)) (fl_dropped_ids fl) (fl_project_ids fl))) + calm"
proof (intro exI conjI)
  let ?S = "calm_sites (front_impact prior fx fl) (fl_refs_by_name fl)"
  let ?E = "g_edges (s_graph prior)" and ?R = "fl_refs_by_name fl"
  let ?calm = "mset (filter (\<lambda>e. edge_site e \<in> ?S) ?E)"
  have "mset (all_refs ?R) = mset (filter (\<lambda>x. ref_site (snd x) \<notin> ?S) (all_refs ?R))
      + mset (filter (\<lambda>x. ref_site (snd x) \<in> ?S) (all_refs ?R))"
    by (induction "all_refs ?R") auto
  then show "mset (fst (link_stage prior fx fl Global))
      = mset (fst (link_stage prior fx fl Scoped)) + ?calm"
    unfolding calm_edges [OF ok fl lk stable refl] link_stage_eq fst_conv mset_map image_mset_union [symmetric]
    by simp
  show "mset (fst (carry_prior_edges ?E ?R (snd (link_stage prior fx fl Scoped))
           (fl_dropped_ids fl) (fl_project_ids fl)))
       = mset (fst (carry_prior_edges ?E ?R (snd (link_stage prior fx fl Global))
           (fl_dropped_ids fl) (fl_project_ids fl))) + ?calm"
    unfolding carry_prior_edges_def link_stage_eq fst_conv snd_conv
  proof (rule mset_filter_or)
    fix e assume e: "e \<in> set ?E"
    have sites: "set (map (\<lambda>(name, r). ref_site r) (all_refs ?R)) = set (ref_sites ?R)"
      by (simp add: ref_sites_def)
    show "carry_keep ?R (Some (front_impact prior fx fl)) (fl_dropped_ids fl) (fl_project_ids fl) e
      \<longleftrightarrow> carry_keep ?R None (fl_dropped_ids fl) (fl_project_ids fl) e \<or> edge_site e \<in> ?S"
      using calm_edges_healthy [OF ok fl lk stable e]
      unfolding carry_keep_def sites by (auto simp: calm_sites_def edge_site_def)
    show "\<not> (carry_keep ?R None (fl_dropped_ids fl) (fl_project_ids fl) e \<and> edge_site e \<in> ?S)"
      unfolding carry_keep_def sites by (auto simp: calm_sites_def)
  qed
qed

lemma diff_edges_shift:
  assumes E: "mset carried + mset retired = mset carried' + mset retired'"
    and c: "mset carried' = mset carried + calm" and g: "mset emitted = mset emitted' + calm"
  shows "mset (fst (diff_edges retired' emitted')) = mset (fst (diff_edges retired emitted))"
    and "mset (snd (diff_edges retired' emitted')) = mset (snd (diff_edges retired emitted))"
proof -
  have "mset retired = mset retired' + calm"
    using E by (simp add: c union_assoc add.commute)
  then show "mset (fst (diff_edges retired' emitted')) = mset (fst (diff_edges retired emitted))"
    and "mset (snd (diff_edges retired' emitted')) = mset (snd (diff_edges retired emitted))"
    by (simp_all add: diff_edges_mset g)
qed

section \<open>The patches\<close>

definition without_edges :: "graph_delta \<Rightarrow> graph_delta" where
  "without_edges d = d\<lparr>d_edges_added := [], d_edges_removed := []\<rparr>"

definition same_patch :: "error + graph_delta \<Rightarrow> error + graph_delta \<Rightarrow> bool" where
  "same_patch a b \<longleftrightarrow>
     (case (a, b) of
        (Inl err, Inl err') \<Rightarrow> err = err'
      | (Inr d, Inr d') \<Rightarrow>
          mset (d_edges_added d) = mset (d_edges_added d')
          \<and> mset (d_edges_removed d) = mset (d_edges_removed d')
          \<and> without_edges d = without_edges d'
      | _ \<Rightarrow> False)"

definition order_free :: "clusterer \<Rightarrow> bool" where
  "order_free cluster \<longleftrightarrow>
     (\<forall>nodes E E' prior. mset E = mset E' \<longrightarrow> cluster nodes E prior = cluster nodes E' prior)"

lemma front_extract_inputs:
  assumes "run_front_extract prior changes env = Inr fx"
    and "extractor_local (env_extractor env)" "state_wf prior"
    and "distinct (map n_id (fl_all_nodes (run_front_link prior env fx)))"
  shows "apply_inputs prior fx"
  using front_extract_facts [OF assms(1,2)] assms(3,4)
  unfolding apply_inputs_def front_link_simps by iprover

text \<open>The side conditions on an apply: the ids of the extracted nodes do not clash with those of the
  surviving ones, and what the impact set does not cover did not move.\<close>

definition scope_safe :: "graph_state \<Rightarrow> import_scope \<Rightarrow> change_set \<Rightarrow> engine_env \<Rightarrow> bool" where
  "scope_safe prior scope0 changes env \<longleftrightarrow>
     (case run_front_extract prior changes env of
        Inl _ \<Rightarrow> True
      | Inr fx \<Rightarrow>
          (let fl = run_front_link prior env fx
           in distinct (map n_id (fl_all_nodes fl)) \<and> uncovered_stable prior scope0 fx fl))"

text \<open>C33. Scoped linking is sound: on a consistent prior state, when the import bindings of the
  unimpacted references and the last segments of their qualified names did not move, the patch an
  apply computes under \<open>Scoped\<close> is the one it computes under \<open>Global\<close>: the same edges added and
  removed as multisets, every other field equal, and the same error when there is one.\<close>

theorem scoped_patch_is_global_patch:
  assumes "state_wf prior" "linked prior scope0" "extractor_local (env_extractor env)"
    and "scope_safe prior scope0 changes env"
    and "timing = Deferred \<or> order_free (env_cluster env)"
  shows "same_patch (apply_with prior changes env Scoped timing)
      (apply_with prior changes env Global timing)"
proof (cases "run_front_extract prior changes env")
  case (Inl err)
  then show ?thesis by (simp add: apply_with_def same_patch_def)
next
  case (Inr fx)
  define fl where fl: "fl = run_front_link prior env fx"
  from assms(4) Inr have stable: "uncovered_stable prior scope0 fx fl"
    and "distinct (map n_id (fl_all_nodes (run_front_link prior env fx)))"
    by (simp_all add: scope_safe_def Let_def fl)
  note ok = front_extract_inputs [OF Inr assms(3,1) this(2)]
  obtain resG iG where G: "link_stage prior fx fl Global = (resG, iG)" by force
  obtain resS iS where S: "link_stage prior fx fl Scoped = (resS, iS)" by force
  let ?carry = "\<lambda>i. carry_prior_edges (g_edges (s_graph prior)) (fl_refs_by_name fl) i
      (fl_dropped_ids fl) (fl_project_ids fl)"
  obtain cG rG where cG: "?carry iG = (cG, rG)" by force
  obtain cS rS where cS: "?carry iS = (cS, rS)" by force
  from scopes_move_calm_edges [OF ok fl assms(2) stable] obtain calm where
    calm: "mset resG = mset resS + calm" "mset cS = mset cG + calm"
    by (auto simp: G S cG cS)
  have E: "mset cG + mset rG = mset cS + mset rS"
    using Relink.carry_partition [of "g_edges (s_graph prior)" "fl_refs_by_name fl" iG "fl_dropped_ids fl" "fl_project_ids fl"]
      Relink.carry_partition [of "g_edges (s_graph prior)" "fl_refs_by_name fl" iS "fl_dropped_ids fl" "fl_project_ids fl"]
    by (simp add: cG cS)
  have clus: "(case timing of Inline \<Rightarrow> env_cluster env ns (cS @ xs @ resS) p | Deferred \<Rightarrow> d)
      = (case timing of Inline \<Rightarrow> env_cluster env ns (cG @ xs @ resG) p | Deferred \<Rightarrow> d)" for ns xs p d
  proof -
    have "mset (cS @ xs @ resS) = mset (cG @ xs @ resG)" by (simp add: calm)
    with assms(5) show ?thesis by (auto simp: order_free_def split: cluster_timing.split)
  qed
  have diff: "mset (fst (diff_edges rS (xs @ resS @ ys))) = mset (fst (diff_edges rG (xs @ resG @ ys)))"
    "mset (snd (diff_edges rS (xs @ resS @ ys))) = mset (snd (diff_edges rG (xs @ resG @ ys)))" for xs ys
    using diff_edges_shift [OF E calm(2), of "xs @ resG @ ys" "xs @ resS @ ys"]
    by (simp_all add: calm)
  obtain pn pe where ov: "project_overlay (fx_workspace fx) (fl_all_nodes fl) = (pn, pe)" by force
  let ?xs = "ex_structural (fx_extracted fx)"
  obtain aG dG where dG: "diff_edges rG (?xs @ resG @ pe) = (aG, dG)" by force
  obtain aS dS where dS: "diff_edges rS (?xs @ resS @ pe) = (aS, dS)" by force
  show ?thesis
    unfolding apply_with_def Inr sum.case fl [symmetric] Let_def G S prod.case cG cS clus ov dG dS
    using diff [of ?xs pe]
    by (simp add: dG dS same_patch_def without_edges_def split: sum.split)
qed

section \<open>The divergence guard on a consistent state\<close>

text \<open>The divergence guard is a no-op on a consistent state: when the prior edges at reference
  sites are the resolutions of the prior references, an apply synthesises no reference, and the
  index it links against is the rebuilt one.\<close>

theorem consistent_state_needs_no_healing:
  assumes "run_front_extract prior changes env = Inr fx"
    and "extractor_local (env_extractor env)" "state_wf prior" "linked prior scope0"
    and "distinct (map n_id (fl_all_nodes (run_front_link prior env fx)))"
  shows "fl_healed_refs (run_front_link prior env fx) = []
    \<and> fl_refs_by_name (run_front_link prior env fx)
      = rebuild_refs (s_reverse prior) (canon (map n_id (fx_dropped_nodes fx)))
          (ex_refs (fx_extracted fx))"
  using plain_front_link [OF front_extract_inputs [OF assms(1,2,3,5)] assms(4)]
  by (simp add: plain_refs_def)

end
