(* ===== verification/Store.thy ===== *)
theory Store
  imports Engine
begin

text \<open>
  The merge of a patch delta into a state and the stores built on it:
  \<^verbatim>\<open>filigrio-store/src/lib.rs\<close>. The port \<open>GraphStore\<close> is the locale \<open>delta_store\<close>, interpreted on
  the in-memory, the deferred and the (forced) directory store.
\<close>

section \<open>Merging a delta\<close>

text \<open>\<open>edges.retain\<close> with a budget per removed edge; the budget map is a multiset.\<close>

fun retire_edges :: "edge multiset \<Rightarrow> edge list \<Rightarrow> edge list" where
  "retire_edges budget [] = []"
| "retire_edges budget (e # es) =
     (if e \<in># budget then retire_edges (budget - {#e#}) es else e # retire_edges budget es)"

definition edge_live :: "node_id list \<Rightarrow> edge \<Rightarrow> bool" where
  "edge_live ids e \<longleftrightarrow>
     e_source e \<in> set ids \<and> (case e_target e of Node t \<Rightarrow> t \<in> set ids | Symbol _ \<Rightarrow> True)"

definition merge_nodes :: "node list \<Rightarrow> graph_delta \<Rightarrow> node list" where
  "merge_nodes nodes delta =
     (let kept = filter (\<lambda>n. n_id n \<notin> set (d_nodes_removed delta)) nodes
      in kept @ filter (\<lambda>n. n_id n \<notin> set (map n_id kept)) (d_nodes_added delta))"

definition merge_edges :: "node list \<Rightarrow> edge list \<Rightarrow> graph_delta \<Rightarrow> edge list" where
  "merge_edges nodes edges delta =
     filter (edge_live (map n_id nodes))
       (retire_edges (mset (d_edges_removed delta)) edges @ d_edges_added delta)"

text \<open>\<open>merge_reverse\<close>: the entries kept after the drop, with the names the drop touched.\<close>

definition drop_sources :: "node_id list \<Rightarrow> reverse_index \<Rightarrow> reverse_index" where
  "drop_sources dropped refs =
     filter (\<lambda>(n, l). l \<noteq> [])
       (map (\<lambda>(n, l). (n, filter (\<lambda>r. r_source r \<notin> set dropped) l)) refs)"

definition drop_touched :: "node_id list \<Rightarrow> reverse_index \<Rightarrow> string list" where
  "drop_touched dropped refs =
     map fst (filter (\<lambda>(n, l). length (filter (\<lambda>r. r_source r \<notin> set dropped) l) \<noteq> length l) refs)"

definition canon_at :: "reverse_index \<Rightarrow> string \<Rightarrow> reverse_index" where
  "canon_at refs name =
     (case bt_get refs name of None \<Rightarrow> refs | Some l \<Rightarrow> bt_insert name (canon l) refs)"

definition merge_reverse :: "reverse_index \<Rightarrow> graph_delta \<Rightarrow> reverse_index" where
  "merge_reverse refs delta =
     (let dropped = d_reverse_dropped delta;
          kept = drop_sources dropped refs;
          pushed = foldl (\<lambda>m (name, r). bt_push name r m) kept (d_reverse_added delta);
          touched_names = canon (drop_touched dropped refs @ map fst (d_reverse_added delta))
      in foldl canon_at pushed touched_names)"

definition merge :: "graph_state \<Rightarrow> graph_delta \<Rightarrow> graph_state" where
  "merge state delta =
     (let nodes = merge_nodes (g_nodes (s_graph state)) delta
      in \<lparr>s_graph =
            \<lparr>g_nodes = nodes,
             g_edges = merge_edges nodes (g_edges (s_graph state)) delta\<rparr>,
          s_partition = d_partition delta,
          s_symbols = d_symbols delta,
          s_reverse = merge_reverse (s_reverse state) delta,
          s_manifest = d_manifest delta,
          s_workspace = d_workspace delta,
          s_exports = d_exports delta,
          s_symbol_index = d_symbol_index delta\<rparr>)"

definition merge_from :: "graph_state \<Rightarrow> graph_delta \<Rightarrow> graph_state" where
  "merge_from prior delta =
     merge (graph_state_default\<lparr>s_graph := s_graph prior, s_reverse := s_reverse prior\<rparr>) delta"

section \<open>The stores\<close>

text \<open>The lock around each store's state is held for the whole operation and is left out; a
  \<open>None\<close> state of \<open>load_state\<close> is never returned by the stores of this crate.\<close>

type_synonym memory_store = graph_state

definition memory_load :: "memory_store \<Rightarrow> error + graph_state option" where
  "memory_load s = Inr (Some s)"

definition memory_apply :: "memory_store \<Rightarrow> graph_delta \<Rightarrow> error + memory_store" where
  "memory_apply s delta = Inr (merge s delta)"

record deferred_store =
  df_prior :: graph_state
  df_applied :: "graph_state option"

definition deferred_new :: "graph_state \<Rightarrow> deferred_store" where
  "deferred_new prior = \<lparr>df_prior = prior, df_applied = None\<rparr>"

definition deferred_load :: "deferred_store \<Rightarrow> error + graph_state option" where
  "deferred_load s = Inr (Some (case df_applied s of Some state \<Rightarrow> state | None \<Rightarrow> df_prior s))"

definition deferred_apply :: "deferred_store \<Rightarrow> graph_delta \<Rightarrow> error + deferred_store" where
  "deferred_apply s delta =
     Inr (case df_applied s of
            Some current \<Rightarrow> s\<lparr>df_applied := Some (merge current delta)\<rparr>
          | None \<Rightarrow> s\<lparr>df_applied := Some (merge_from (df_prior s) delta)\<rparr>)"

definition deferred_take :: "deferred_store \<Rightarrow> graph_state option \<times> deferred_store" where
  "deferred_take s = (df_applied s, s\<lparr>df_applied := None\<rparr>)"

definition deferred_snapshot :: "deferred_store \<Rightarrow> error + unit" where
  "deferred_snapshot s =
     Inl (Storage (''DeferredStore holds state in memory and has no directory to write ''
        @ ''graph.json into '' @ [CHR 0xE2, CHR 0x80, CHR 0x94]
        @ '' flush the project and use the explicit export verb''))"

text \<open>The directory store. \<open>fs_file\<close> is \<^verbatim>\<open>state.json\<close>: missing, unreadable with the error that
  \<open>read\<close> returns, or a serialised state; \<open>fs_write_error\<close> is the error of a failing write. The
  facets marked \<^verbatim>\<open>serde(skip)\<close> do not reach the file.\<close>

record fs_store =
  fs_file :: "(error + graph_state) option"
  fs_write_error :: "error option"
  fs_force :: bool

definition persisted :: "graph_state \<Rightarrow> graph_state" where
  "persisted s = s\<lparr>s_symbols := bt_empty, s_symbol_index := bt_empty\<rparr>"

definition fs_has_checkpoint :: "fs_store \<Rightarrow> bool" where
  "fs_has_checkpoint s \<longleftrightarrow> fs_file s \<noteq> None"

definition fs_save_state :: "fs_store \<Rightarrow> graph_state \<Rightarrow> error + fs_store" where
  "fs_save_state s state =
     (case fs_write_error s of
        Some err \<Rightarrow> Inl err
      | None \<Rightarrow> Inr (s\<lparr>fs_file := Some (Inr (persisted state))\<rparr>))"

definition fs_read :: "fs_store \<Rightarrow> error + graph_state" where
  "fs_read s = (case fs_file s of None \<Rightarrow> Inr graph_state_default | Some r \<Rightarrow> r)"

definition fs_load :: "fs_store \<Rightarrow> error + graph_state option" where
  "fs_load s = (case fs_read s of Inl err \<Rightarrow> Inl err | Inr state \<Rightarrow> Inr (Some state))"

definition shrink_guard :: "nat \<Rightarrow> nat \<Rightarrow> error" where
  "shrink_guard before after =
     Storage (''shrink-guard: would drop '' @ show_nat before @ '' ''
       @ [CHR 0xE2, CHR 0x86, CHR 0x92] @ '' '' @ show_nat after
       @ '' nodes; use --force to allow (filigrio #479)'')"

definition fs_apply :: "fs_store \<Rightarrow> graph_delta \<Rightarrow> error + fs_store" where
  "fs_apply s delta =
     (case fs_read s of
        Inl err \<Rightarrow> Inl err
      | Inr state \<Rightarrow>
          (let before = length (g_nodes (s_graph state));
               merged = merge state delta;
               after = length (g_nodes (s_graph merged))
           in if after < before \<and> \<not> fs_force s then Inl (shrink_guard before after)
              else fs_save_state s merged))"

section \<open>The store port\<close>

text \<open>What the pipeline relies on: a store that is in order accepts a delta, and then holds the merge
  of what it held with the delta, up to the facets that are not persisted.\<close>

locale delta_store =
  fixes load_state :: "'s \<Rightarrow> error + graph_state option"
    and apply_delta :: "'s \<Rightarrow> graph_delta \<Rightarrow> error + 's"
    and view :: "graph_state \<Rightarrow> graph_state"
    and ok :: "'s \<Rightarrow> bool"
  assumes load_ok: "ok s \<Longrightarrow> \<exists>state. load_state s = Inr (Some state)"
    and apply_ok: "ok s \<Longrightarrow> \<exists>s'. apply_delta s delta = Inr s' \<and> ok s'"
    and load_apply: "ok s \<Longrightarrow> load_state s = Inr (Some state) \<Longrightarrow> apply_delta s delta = Inr s' \<Longrightarrow>
        load_state s' = Inr (Some state') \<Longrightarrow> view state' = view (merge state delta)"
    and merge_view: "view s1 = view s2 \<Longrightarrow> view (merge s1 delta) = view (merge s2 delta)"
begin

fun apply_deltas :: "'s \<Rightarrow> graph_delta list \<Rightarrow> error + 's" where
  "apply_deltas s [] = Inr s"
| "apply_deltas s (d # ds) =
     (case apply_delta s d of Inl err \<Rightarrow> Inl err | Inr s' \<Rightarrow> apply_deltas s' ds)"

lemma view_foldl_merge:
  "view s1 = view s2 \<Longrightarrow> view (foldl merge s1 ds) = view (foldl merge s2 ds)"
proof (induction ds arbitrary: s1 s2)
  case (Cons d ds)
  from Cons.IH [OF merge_view [OF Cons.prems]] show ?case by simp
qed simp

lemma apply_deltas_merge:
  "ok s \<Longrightarrow> load_state s = Inr (Some state) \<Longrightarrow>
     \<exists>s' state'. apply_deltas s ds = Inr s' \<and> load_state s' = Inr (Some state')
       \<and> view state' = view (foldl merge state ds)"
proof (induction ds arbitrary: s state)
  case Nil
  then show ?case by simp
next
  case (Cons d ds)
  from apply_ok [OF Cons.prems(1)] obtain s1 where s1: "apply_delta s d = Inr s1" "ok s1" by blast
  from load_ok [OF s1(2)] obtain st1 where st1: "load_state s1 = Inr (Some st1)" by blast
  from Cons.IH [OF s1(2) st1] obtain s2 st2 where
    s2: "apply_deltas s1 ds = Inr s2" "load_state s2 = Inr (Some st2)"
      "view st2 = view (foldl merge st1 ds)" by blast
  with s1 view_foldl_merge [OF load_apply [OF Cons.prems s1(1) st1]] show ?case by simp
qed

end

lemma merge_depends:
  "s_graph s1 = s_graph s2 \<Longrightarrow> s_reverse s1 = s_reverse s2 \<Longrightarrow> merge s1 d = merge s2 d"
  by (simp add: merge_def)

lemma merge_from_eq: "merge_from prior d = merge prior d"
  unfolding merge_from_def by (rule merge_depends) simp_all

lemma persisted_graph [simp]: "s_graph (persisted s) = s_graph s"
  and persisted_reverse [simp]: "s_reverse (persisted s) = s_reverse s"
  and persisted_idem [simp]: "persisted (persisted s) = persisted s"
  by (simp_all add: persisted_def)

lemma persisted_merge_cong: "persisted s1 = persisted s2 \<Longrightarrow> merge s1 d = merge s2 d"
  by (rule merge_depends) (metis persisted_graph, metis persisted_reverse)

lemma persisted_merge_view: "persisted s1 = persisted s2 \<Longrightarrow> persisted (merge s1 d) = persisted (merge s2 d)"
  using persisted_merge_cong [of s1 s2 d] by simp

lemma merge_persisted [simp]: "merge (persisted s) d = merge s d"
  by (rule merge_depends) simp_all

interpretation memory: delta_store memory_load memory_apply persisted "\<lambda>_. True"
  by unfold_locales
    (auto simp: memory_load_def memory_apply_def intro: persisted_merge_view)

interpretation deferred: delta_store deferred_load deferred_apply persisted "\<lambda>_. True"
  by unfold_locales
    (auto simp: deferred_load_def deferred_apply_def merge_from_eq intro: persisted_merge_view
      split: option.splits)

definition fs_usable :: "fs_store \<Rightarrow> bool" where
  "fs_usable s \<longleftrightarrow>
     fs_force s \<and> fs_write_error s = None \<and> (\<exists>state. fs_read s = Inr state)"

lemma fs_apply_usable:
  "fs_usable s \<Longrightarrow> \<exists>state. fs_read s = Inr state
     \<and> fs_apply s d = Inr (s\<lparr>fs_file := Some (Inr (persisted (merge state d)))\<rparr>)"
  by (auto simp: fs_usable_def fs_apply_def fs_save_state_def Let_def)

interpretation forced_fs: delta_store fs_load fs_apply persisted fs_usable
proof
  fix s :: fs_store and delta state s' state'
  show "\<exists>state. fs_load s = Inr (Some state)" if "fs_usable s"
    using that by (auto simp: fs_usable_def fs_load_def)
  show "\<exists>s'. fs_apply s delta = Inr s' \<and> fs_usable s'" if "fs_usable s"
    using fs_apply_usable [OF that, of delta] that by (auto simp: fs_usable_def fs_read_def)
  show "persisted state' = persisted (merge state delta)"
    if "fs_usable s" "fs_load s = Inr (Some state)" "fs_apply s delta = Inr s'"
      "fs_load s' = Inr (Some state')"
    using fs_apply_usable [OF that(1), of delta] that by (auto simp: fs_load_def fs_read_def)
qed (rule persisted_merge_view)

section \<open>Edges: the patch reproduces the wholesale result\<close>

lemma retire_edges_mset: "mset (retire_edges b es) = mset es - b"
proof (induction b es rule: retire_edges.induct)
  case (1 b)
  then show ?case by simp
next
  case (2 b e es)
  show ?case
  proof (cases "e \<in># b")
    case True
    then obtain c where "b = add_mset e c" by (metis insert_DiffM)
    with True 2 show ?thesis by simp
  next
    case False
    from 2(2) [OF False] have "mset (retire_edges b (e # es)) = add_mset e (mset es - b)"
      using False by simp
    also have "\<dots> = mset (e # es) - b"
      using False by (simp add: multiset_eq_iff not_in_iff)
    finally show ?thesis .
  qed
qed

lemma diff_then_merge:
  assumes "mset E = mset carried + mset retired"
  shows "mset E - mset (snd (diff_edges retired emitted)) + mset (fst (diff_edges retired emitted))
     = mset carried + mset emitted"
  unfolding diff_edges_mset assms
  by (auto simp: multiset_eq_iff)

section \<open>The reverse patch reproduces the rebuilt index\<close>

lemma bt_ok_map_fst: "bt_ok (map (\<lambda>(n, l). (n, f l)) m) \<longleftrightarrow> bt_ok m"
  using bt_ok_map_values [of f m] by (simp add: bt_map_values_def)

lemma drop_sources_ok: "bt_ok refs \<Longrightarrow> bt_ok (drop_sources d refs)"
  by (auto simp: drop_sources_def bt_ok_map_fst)

lemma drop_sources_get:
  "bt_ok refs \<Longrightarrow> bt_get_list (drop_sources d refs) n
     = filter (\<lambda>r. r_source r \<notin> set d) (bt_get_list refs n)"
proof -
  assume ok: "bt_ok refs"
  let ?m = "map (\<lambda>(n, l). (n, filter (\<lambda>r. r_source r \<notin> set d) l)) refs"
  have "bt_get ?m n = map_option (filter (\<lambda>r. r_source r \<notin> set d)) (bt_get refs n)"
    using bt_get_map_values [of "filter (\<lambda>r. r_source r \<notin> set d)" refs n]
    by (simp add: bt_map_values_def)
  moreover have "bt_ok ?m" using ok by (simp add: bt_ok_map_fst)
  ultimately show ?thesis
    by (auto simp: drop_sources_def bt_get_list_def bt_filter_get split: option.splits)
qed

lemma drop_sources_nonempty: "(n, l) \<in> set (drop_sources d refs) \<Longrightarrow> l \<noteq> []"
  by (auto simp: drop_sources_def)

lemma canon_at_get:
  "bt_get_list (canon_at m n) k = (if k = n then canon (bt_get_list m n) else bt_get_list m k)"
  by (auto simp: canon_at_def bt_get_list_def bt_get_insert split: option.splits)

lemma canon_at_ok: "bt_ok m \<Longrightarrow> bt_ok (canon_at m n)"
  by (auto simp: canon_at_def split: option.splits)

lemma foldl_canon_at_get:
  "bt_get_list (foldl canon_at m ns) k
     = (if k \<in> set ns then canon (bt_get_list m k) else bt_get_list m k)"
  by (induction ns arbitrary: m) (auto simp: canon_at_get)

lemma foldl_canon_at_ok: "bt_ok m \<Longrightarrow> bt_ok (foldl canon_at m ns)"
  by (induction ns arbitrary: m) (auto simp: canon_at_ok)

lemma canon_at_get_None: "bt_get (canon_at m n) k = None \<longleftrightarrow> bt_get m k = None"
  by (auto simp: canon_at_def bt_get_insert split: option.splits)

lemma foldl_canon_at_get_None: "bt_get (foldl canon_at m ns) k = None \<longleftrightarrow> bt_get m k = None"
  by (induction ns arbitrary: m) (auto simp: canon_at_get_None)

text \<open>Two canonical indices with no empty lists are equal when their lists are.\<close>

definition no_empty :: "reverse_index \<Rightarrow> bool" where
  "no_empty m \<longleftrightarrow> bt_ok m \<and> (\<forall>k. bt_get m k \<noteq> None \<longrightarrow> bt_get_list m k \<noteq> [])"

lemma no_empty_eq:
  assumes "no_empty m" "no_empty m'" "\<And>k. bt_get_list m k = bt_get_list m' k"
  shows "m = m'"
proof (rule bt.ext_get)
  show "bt_ok m" "bt_ok m'" using assms by (auto simp: no_empty_def)
  fix k
  show "bt_get m k = bt_get m' k"
    using assms(1,2) assms(3) [of k]
    by (cases "bt_get m k"; cases "bt_get m' k") (auto simp: no_empty_def bt_get_list_def)
qed

lemma reverse_ok_no_empty: "reverse_ok m \<Longrightarrow> no_empty m"
  by (fastforce simp: reverse_ok_def no_empty_def bt_get_list_def bt_in_set_iff split: option.splits)

lemma drop_touched_iff:
  assumes "bt_ok refs"
  shows "n \<in> set (drop_touched d refs)
     \<longleftrightarrow> (\<exists>r \<in> set (bt_get_list refs n). r_source r \<in> set d)"
proof -
  have len: "length (filter (\<lambda>r. r_source r \<notin> set d) l) \<noteq> length l
      \<longleftrightarrow> (\<exists>r \<in> set l. r_source r \<in> set d)" for l :: "reference list"
    by (metis (mono_tags, lifting) filter_True length_filter_less nat_less_le)
  show ?thesis
    using assms
    by (cases "bt_get refs n")
       (auto simp: drop_touched_def len bt_in_set_iff bt_get_list_def image_iff)
qed

lemma merge_reverse_get:
  assumes ok: "reverse_ok refs"
  shows "bt_get_list (merge_reverse refs delta) n =
     canon (filter (\<lambda>r. r_source r \<notin> set (d_reverse_dropped delta)) (bt_get_list refs n)
       @ map snd (filter (\<lambda>(m, r). m = n) (d_reverse_added delta)))"
proof -
  let ?d = "d_reverse_dropped delta" and ?add = "d_reverse_added delta"
  let ?l = "filter (\<lambda>r. r_source r \<notin> set ?d) (bt_get_list refs n)
       @ map snd (filter (\<lambda>(m, r). m = n) ?add)"
  let ?ns = "canon (drop_touched ?d refs @ map fst ?add)"
  have bt: "bt_ok refs" using ok by (simp add: reverse_ok_def)
  have get: "bt_get_list (merge_reverse refs delta) n = (if n \<in> set ?ns then canon ?l else ?l)"
    by (simp add: merge_reverse_def Let_def foldl_canon_at_get get_list_foldl_push
        drop_sources_get [OF bt])
  show ?thesis
  proof (cases "n \<in> set ?ns")
    case True
    with get show ?thesis by simp
  next
    case False
    have none: "filter (\<lambda>(m, r). m = n) ?add = []"
      using False by (force simp: filter_empty_conv)
    have "filter (\<lambda>r. r_source r \<notin> set ?d) (bt_get_list refs n) = bt_get_list refs n"
      using False drop_touched_iff [OF bt] by (auto simp: filter_id_conv)
    moreover have "sorted (bt_get_list refs n)" "distinct (bt_get_list refs n)"
      using ok by (auto simp: reverse_ok_def bt_get_list_def bt_in_set_iff split: option.split)
    ultimately have "canon ?l = ?l" using none by (simp add: canon_id)
    with get False show ?thesis by simp
  qed
qed

lemma merge_reverse_no_empty: "reverse_ok refs \<Longrightarrow> no_empty (merge_reverse refs delta)"
proof -
  assume ok: "reverse_ok refs"
  let ?kept = "drop_sources (d_reverse_dropped delta) refs"
  let ?add = "d_reverse_added delta"
  let ?pushed = "foldl (\<lambda>m (name, r). bt_push name r m) ?kept ?add"
  have okk: "bt_ok ?kept" using ok by (simp add: reverse_ok_def drop_sources_ok)
  have "bt_get_list (merge_reverse refs delta) k \<noteq> []" if "bt_get (merge_reverse refs delta) k \<noteq> None" for k
  proof -
    from that have "bt_get ?pushed k \<noteq> None"
      by (simp add: merge_reverse_def Let_def foldl_canon_at_get_None)
    then have "bt_get ?kept k \<noteq> None \<or> k \<in> fst ` set ?add"
      by (simp add: get_foldl_push_None)
    then have "bt_get_list ?pushed k \<noteq> []"
    proof
      assume "bt_get ?kept k \<noteq> None"
      then obtain l where l: "bt_get ?kept k = Some l" by blast
      then have "l \<noteq> []"
        using drop_sources_nonempty bt_in_set_iff [OF okk] by blast
      moreover from l have "bt_get_list ?kept k = l" by (simp add: bt_get_list_def)
      ultimately show ?thesis by (simp add: get_list_foldl_push)
    next
      assume "k \<in> fst ` set ?add"
      then show ?thesis by (auto simp: get_list_foldl_push filter_empty_conv)
    qed
    then show ?thesis by (simp add: merge_reverse_def Let_def foldl_canon_at_get)
  qed
  moreover have "bt_ok (merge_reverse refs delta)"
    by (simp add: merge_reverse_def Let_def foldl_canon_at_ok ok_foldl_push okk)
  ultimately show ?thesis by (simp add: no_empty_def)
qed

lemma add_healed_get:
  assumes "\<And>n. sorted (bt_get_list m n) \<and> distinct (bt_get_list m n)"
  shows "bt_get_list (add_healed m healed) k
     = canon (bt_get_list m k @ map snd (filter (\<lambda>(n, r). n = k) healed))"
  using assms
proof (induction healed arbitrary: m)
  case Nil
  then show ?case by (simp add: add_healed_def canon_id)
next
  case (Cons nr healed)
  obtain n r where nr: "nr = (n, r)" by force
  let ?m = "bt_insert n (canon (bt_get_list m n @ [r])) m"
  have "\<And>j. sorted (bt_get_list ?m j) \<and> distinct (bt_get_list ?m j)"
    using Cons.prems by (simp add: bt_get_list_insert)
  from Cons.IH [OF this] nr show ?case
    by (auto simp: add_healed_def bt_get_list_insert intro!: canon_cong)
qed

lemma add_healed_no_empty: "no_empty m \<Longrightarrow> no_empty (add_healed m healed)"
proof (induction healed arbitrary: m)
  case Nil
  then show ?case by (simp add: add_healed_def)
next
  case (Cons nr healed)
  obtain n r where nr: "nr = (n, r)" by force
  have "no_empty (bt_insert n (canon (bt_get_list m n @ [r])) m)"
    using Cons.prems by (auto simp: no_empty_def bt_get_insert bt_get_list_insert)
  from Cons.IH [OF this] nr show ?case by (simp add: add_healed_def)
qed

lemma reverse_ok_lists: "reverse_ok m \<Longrightarrow> sorted (bt_get_list m n) \<and> distinct (bt_get_list m n)"
  by (auto simp: reverse_ok_def bt_get_list_def bt_in_set_iff split: option.split)

text \<open>The claim of \<open>merge_reverse\<close>'s comment: dropping, appending and canonicalising the touched names
  gives the engine's rebuilt and healed index.\<close>

lemma merge_reverse_rebuild:
  assumes ok: "reverse_ok prior"
    and d: "d_reverse_dropped delta = dropped" "d_reverse_added delta = new @ healed"
  shows "merge_reverse prior delta = add_healed (rebuild_refs prior dropped new) healed"
proof (rule no_empty_eq)
  show "no_empty (merge_reverse prior delta)" by (rule merge_reverse_no_empty [OF ok])
  show "no_empty (add_healed (rebuild_refs prior dropped new) healed)"
    by (intro add_healed_no_empty reverse_ok_no_empty rebuild_refs_reverse_ok)
  fix k
  have bt: "bt_ok prior" using ok by (simp add: reverse_ok_def)
  show "bt_get_list (merge_reverse prior delta) k
      = bt_get_list (add_healed (rebuild_refs prior dropped new) healed) k"
    unfolding merge_reverse_get [OF ok] d
      add_healed_get [OF reverse_ok_lists [OF rebuild_refs_reverse_ok]] rebuild_refs_get [OF bt]
    by (rule canon_cong) auto
qed

section \<open>Properties\<close>

definition held :: "error + graph_state option \<Rightarrow> graph_state option" where
  "held r = (case r of Inl _ \<Rightarrow> None | Inr s \<Rightarrow> s)"

text \<open>C37. The three stores agree: from one state, applying the same deltas to the in-memory store, to
  the write-behind store of the daemon and to a forced directory store whose disk works succeeds
  in all three, and leaves them holding one state up to the facets that are never persisted: the
  merge of the deltas in order.\<close>

theorem stores_agree:
  "\<exists>m d f.
     memory.apply_deltas state ds = Inr m
     \<and> deferred.apply_deltas (deferred_new state) ds = Inr d
     \<and> forced_fs.apply_deltas
         \<lparr>fs_file = Some (Inr (persisted state)), fs_write_error = None, fs_force = True\<rparr> ds = Inr f
     \<and> map_option persisted (held (memory_load m)) = Some (persisted (foldl merge state ds))
     \<and> map_option persisted (held (deferred_load d)) = Some (persisted (foldl merge state ds))
     \<and> map_option persisted (held (fs_load f)) = Some (persisted (foldl merge state ds))"
proof -
  let ?fs = "\<lparr>fs_file = Some (Inr (persisted state)), fs_write_error = None, fs_force = True\<rparr>"
  obtain m m' where m: "memory.apply_deltas state ds = Inr m" "memory_load m = Inr (Some m')"
    "persisted m' = persisted (foldl merge state ds)"
    using memory.apply_deltas_merge [of state state ds] by (auto simp: memory_load_def)
  obtain d d' where d: "deferred.apply_deltas (deferred_new state) ds = Inr d"
    "deferred_load d = Inr (Some d')" "persisted d' = persisted (foldl merge state ds)"
    using deferred.apply_deltas_merge [of "deferred_new state" state ds]
    by (auto simp: deferred_load_def deferred_new_def)
  have "fs_usable ?fs" "fs_load ?fs = Inr (Some (persisted state))"
    by (simp_all add: fs_usable_def fs_load_def fs_read_def)
  from forced_fs.apply_deltas_merge [OF this, of ds] obtain f f' where
    f: "forced_fs.apply_deltas ?fs ds = Inr f" "fs_load f = Inr (Some f')"
      "persisted f' = persisted (foldl merge (persisted state) ds)" by blast
  have "persisted (foldl merge (persisted state) ds) = persisted (foldl merge state ds)"
    by (rule memory.view_foldl_merge) simp
  with m d f show ?thesis by (auto simp: held_def)
qed

text \<open>The shrink guard: an unforced directory store refuses a delta exactly when the merged graph
  has fewer nodes than the one on disk, with the shrink-guard error, and otherwise writes the
  merge; a forced one is never refused.\<close>

theorem shrink_guard_refuses:
  assumes "fs_read s = Inr state" "fs_write_error s = None"
  shows "fs_apply s delta =
    (if \<not> fs_force s \<and> length (g_nodes (s_graph (merge state delta))) < length (g_nodes (s_graph state))
     then Inl (shrink_guard (length (g_nodes (s_graph state)))
                 (length (g_nodes (s_graph (merge state delta)))))
     else Inr (s\<lparr>fs_file := Some (Inr (persisted (merge state delta)))\<rparr>))"
  using assms by (auto simp: fs_apply_def fs_save_state_def Let_def)

definition shrinking_delta :: graph_delta where
  "shrinking_delta =
     \<lparr>d_nodes_added = [], d_nodes_removed = [NodeId ''a''], d_edges_added = [],
      d_edges_removed = [], d_dirty_files = [], d_partition = partition_default,
      d_symbols = bt_empty, d_reverse_dropped = [], d_reverse_added = [], d_manifest = bt_empty,
      d_workspace = bt_empty, d_exports = bt_empty, d_symbol_index = bt_empty, d_affected = 0,
      d_vanished = 0\<rparr>"

definition one_node_store :: "bool \<Rightarrow> fs_store" where
  "one_node_store force =
     \<lparr>fs_file = Some (Inr (graph_state_default
        \<lparr>s_graph := \<lparr>g_nodes = [node_new ''a'' ''a'' ''function''], g_edges = []\<rparr>\<rparr>)),
      fs_write_error = None, fs_force = force\<rparr>"

theorem shrink_guard_refuses_witness:
  "fs_apply (one_node_store False) shrinking_delta = Inl (shrink_guard 1 0)
   \<and> (\<exists>s. fs_apply (one_node_store True) shrinking_delta = Inr s)"
proof -
  have "\<exists>st. fs_read (one_node_store f) = Inr st \<and> fs_write_error (one_node_store f) = None
      \<and> length (g_nodes (s_graph st)) = 1 \<and> length (g_nodes (s_graph (merge st shrinking_delta))) = 0" for f
    by (cases f) (simp_all add: one_node_store_def fs_read_def merge_def merge_nodes_def Let_def
        shrinking_delta_def node_new_def)
  then obtain st st' where
    "fs_read (one_node_store False) = Inr st" "fs_write_error (one_node_store False) = None"
    "length (g_nodes (s_graph st)) = 1" "length (g_nodes (s_graph (merge st shrinking_delta))) = 0"
    "fs_read (one_node_store True) = Inr st'" "fs_write_error (one_node_store True) = None" by metis
  with shrink_guard_refuses [of "one_node_store False" st shrinking_delta]
    shrink_guard_refuses [of "one_node_store True" st' shrinking_delta]
  show ?thesis by (simp add: one_node_store_def)
qed

end
