(* ===== verification/Patch.thy ===== *)
theory Patch
  imports Scope_Equiv Store
begin

text \<open>
  The patch \<open>Engine::apply\<close> returns, merged into the state it was computed against: nodes, edges
  and the reverse index come out as the wholesale result of the apply would have them.
\<close>

section \<open>The result of an apply, wholesale\<close>

definition apply_edges ::
  "graph_state \<Rightarrow> front_extract \<Rightarrow> front_link \<Rightarrow> link_scope \<Rightarrow> edge list"
where
  "apply_edges prior fx fl scope =
     fst (carry_prior_edges (g_edges (s_graph prior)) (fl_refs_by_name fl)
            (snd (link_stage prior fx fl scope)) (fl_dropped_ids fl) (fl_project_ids fl))
     @ ex_structural (fx_extracted fx) @ fst (link_stage prior fx fl scope)
     @ snd (project_overlay (fx_workspace fx) (fl_all_nodes fl))"

definition apply_nodes :: "front_extract \<Rightarrow> front_link \<Rightarrow> node list" where
  "apply_nodes fx fl = fl_all_nodes fl @ fst (project_overlay (fx_workspace fx) (fl_all_nodes fl))"

lemma apply_with_fields:
  assumes "apply_with prior changes env scope timing = Inr d"
    and "run_front_extract prior changes env = Inr fx"
    and fl: "fl = run_front_link prior env fx"
  shows "d_nodes_added d = ex_nodes (fx_extracted fx)
      @ fst (project_overlay (fx_workspace fx) (fl_all_nodes fl))"
    and "d_nodes_removed d = fl_dropped_ids fl @ map n_id (fx_project_nodes fx)"
    and "(d_edges_added d, d_edges_removed d) =
      diff_edges (snd (carry_prior_edges (g_edges (s_graph prior)) (fl_refs_by_name fl)
            (snd (link_stage prior fx fl scope)) (fl_dropped_ids fl) (fl_project_ids fl)))
        (ex_structural (fx_extracted fx) @ fst (link_stage prior fx fl scope)
          @ snd (project_overlay (fx_workspace fx) (fl_all_nodes fl)))"
    and "d_reverse_dropped d = fl_dropped_ids fl"
    and "d_reverse_added d = ex_refs (fx_extracted fx) @ fl_healed_refs fl"
    and "d_workspace d = fx_workspace fx"
    and "d_exports d = fl_exports_by_file fl"
proof -
  obtain res i where L: "link_stage prior fx fl scope = (res, i)" by force
  obtain c r where C: "carry_prior_edges (g_edges (s_graph prior)) (fl_refs_by_name fl) i
      (fl_dropped_ids fl) (fl_project_ids fl) = (c, r)" by force
  obtain pn pe where O: "project_overlay (fx_workspace fx) (fl_all_nodes fl) = (pn, pe)" by force
  obtain ea er where D: "diff_edges r (ex_structural (fx_extracted fx) @ res @ pe) = (ea, er)" by force
  obtain part where d: "\<lparr>d_nodes_added = ex_nodes (fx_extracted fx) @ pn,
      d_nodes_removed = fl_dropped_ids fl @ map n_id (fx_project_nodes fx),
      d_edges_added = ea, d_edges_removed = er, d_dirty_files = canon (touched (fx_changes fx)),
      d_partition = part, d_symbols = symbols_of (li_candidates (fl_idx fl)),
      d_reverse_dropped = fl_dropped_ids fl,
      d_reverse_added = ex_refs (fx_extracted fx) @ fl_healed_refs fl,
      d_manifest = maintain_manifest (s_manifest prior) (fx_changes fx),
      d_workspace = fx_workspace fx, d_exports = fl_exports_by_file fl,
      d_symbol_index = build_symbol_index (fl_idx fl),
      d_affected = compute_affected (fx_dropped_nodes fx) (ex_nodes (fx_extracted fx))
         (fx_surviving_nodes fx) (fl_refs_by_name fl)
         (length (fl_dropped_ids fl @ map n_id (fx_project_nodes fx))),
      d_vanished = fx_vanished fx\<rparr> = d"
    using assms(1)
    unfolding apply_with_def assms(2) sum.case fl [symmetric] Let_def L prod.case C O D
    by (simp split: sum.splits)
  show "d_nodes_added d = ex_nodes (fx_extracted fx)
      @ fst (project_overlay (fx_workspace fx) (fl_all_nodes fl))"
    and "d_nodes_removed d = fl_dropped_ids fl @ map n_id (fx_project_nodes fx)"
    and "(d_edges_added d, d_edges_removed d) =
      diff_edges (snd (carry_prior_edges (g_edges (s_graph prior)) (fl_refs_by_name fl)
            (snd (link_stage prior fx fl scope)) (fl_dropped_ids fl) (fl_project_ids fl)))
        (ex_structural (fx_extracted fx) @ fst (link_stage prior fx fl scope)
          @ snd (project_overlay (fx_workspace fx) (fl_all_nodes fl)))"
    and "d_reverse_dropped d = fl_dropped_ids fl"
    and "d_reverse_added d = ex_refs (fx_extracted fx) @ fl_healed_refs fl"
    and "d_workspace d = fx_workspace fx"
    and "d_exports d = fl_exports_by_file fl"
    by (simp_all add: d [symmetric] L C O D)
qed

lemma apply_with_Inr:
  "apply_with prior changes env scope timing = Inr d \<Longrightarrow> \<exists>fx. run_front_extract prior changes env = Inr fx"
  by (auto simp: apply_with_def split: sum.splits)

section \<open>Edges\<close>

text \<open>C34. Merging the patch gives the wholesale edge set: after the store merges the delta of an
  apply into the state it was computed against, the graph's edges are, as a multiset, the carried,
  structural, resolved and overlay edges of the apply whose endpoints exist in the merged graph.\<close>

theorem merged_edges_are_wholesale:
  assumes "apply_with prior changes env scope timing = Inr d"
    and "run_front_extract prior changes env = Inr fx"
  shows "mset (g_edges (s_graph (merge prior d))) =
     mset (filter (edge_live (map n_id (g_nodes (s_graph (merge prior d)))))
       (apply_edges prior fx (run_front_link prior env fx) scope))"
proof -
  define fl where fl: "fl = run_front_link prior env fx"
  note F = apply_with_fields [OF assms fl]
  let ?c = "carry_prior_edges (g_edges (s_graph prior)) (fl_refs_by_name fl)
      (snd (link_stage prior fx fl scope)) (fl_dropped_ids fl) (fl_project_ids fl)"
  let ?em = "ex_structural (fx_extracted fx) @ fst (link_stage prior fx fl scope)
      @ snd (project_overlay (fx_workspace fx) (fl_all_nodes fl))"
  have "mset (g_edges (s_graph prior)) = mset (fst ?c) + mset (snd ?c)"
    by (rule Relink.carry_partition [symmetric])
  from diff_then_merge [OF this, of ?em]
  have "mset (retire_edges (mset (d_edges_removed d)) (g_edges (s_graph prior)) @ d_edges_added d)
      = mset (apply_edges prior fx fl scope)"
    using F(3) [symmetric] by (simp add: retire_edges_mset apply_edges_def)
  then have "mset (filter P (retire_edges (mset (d_edges_removed d)) (g_edges (s_graph prior)) @ d_edges_added d))
      = mset (filter P (apply_edges prior fx fl scope))" for P
    by (metis mset_filter)
  then show ?thesis by (simp add: merge_def Let_def merge_edges_def fl)
qed

section \<open>Reverse index and nodes\<close>

text \<open>C35. Merging the patch gives the rebuilt reverse index: dropping by source, appending and
  re-sorting only the touched names, as \<^verbatim>\<open>merge_reverse\<close> does, ends in the index the engine linked
  against (rebuilt from scratch and healed).\<close>

theorem merged_reverse_is_rebuilt:
  assumes "apply_with prior changes env scope timing = Inr d"
    and "run_front_extract prior changes env = Inr fx"
    and "reverse_ok (s_reverse prior)"
  shows "s_reverse (merge prior d) = fl_refs_by_name (run_front_link prior env fx)"
proof -
  define fl where fl: "fl = run_front_link prior env fx"
  note F = apply_with_fields [OF assms(1,2) fl]
  have "fl_refs_by_name fl = add_healed (rebuild_refs (s_reverse prior) (fl_dropped_ids fl)
      (ex_refs (fx_extracted fx))) (fl_healed_refs fl)"
    by (auto simp: fl run_front_link_def Let_def heal_diverged_refs_def)
  with merge_reverse_rebuild [OF assms(3) F(4,5)] show ?thesis
    by (simp add: merge_def Let_def fl)
qed

lemma overlay_ids: "map n_id (fst (project_overlay ws nodes)) = map pid (bt_keys ws)"
  by (induction ws) (auto simp: project_overlay_def overlay_node_def Let_def node_new_def pid_def bt_keys_def)

text \<open>Merging the patch gives the wholesale node list: when the ids of the extracted nodes and
  of the project overlay do not clash with those of the surviving nodes, the merged nodes are the
  surviving ones, the extracted ones and the regenerated overlay, in that order.\<close>

theorem merged_nodes_are_wholesale:
  assumes "apply_with prior changes env scope timing = Inr d"
    and "run_front_extract prior changes env = Inr fx"
    and "extractor_local (env_extractor env)" "state_wf prior"
    and "distinct (map n_id (apply_nodes fx (run_front_link prior env fx)))"
  shows "g_nodes (s_graph (merge prior d)) = apply_nodes fx (run_front_link prior env fx)"
proof -
  define fl where fl: "fl = run_front_link prior env fx"
  note F = apply_with_fields [OF assms(1,2) fl]
  have "distinct (map n_id (fl_all_nodes (run_front_link prior env fx)))"
    using assms(5) by (simp add: apply_nodes_def)
  note ok = front_extract_inputs [OF assms(2,3,4) this]
  note D = apply_inputsD [OF ok]
  let ?new = "ex_nodes (fx_extracted fx) @ fst (project_overlay (fx_workspace fx) (fl_all_nodes fl))"
  have that_iff: "n_id n \<notin> set (d_nodes_removed d) \<longleftrightarrow> n \<in> set (fx_surviving_nodes fx)"
    if "n \<in> set (g_nodes (s_graph prior))" for n
    using that D(1,9,10,11,12) same_id [OF D(1)] surviving_id [OF ok]
    by (auto simp: F(2) fl front_link_simps image_iff) metis+
  have kept: "filter (\<lambda>n. n_id n \<notin> set (d_nodes_removed d)) (g_nodes (s_graph prior)) = fx_surviving_nodes fx"
  proof -
    have surv: "fx_surviving_nodes fx = filter (\<lambda>n. n \<in> set (fx_surviving_nodes fx)) (g_nodes (s_graph prior))"
      using front_extract_facts(4) [OF assms(2,3)] by (auto intro: filter_cong)
    show ?thesis by (subst surv) (rule filter_cong, auto simp: that_iff)
  qed
  have "filter (\<lambda>n. n_id n \<notin> set (map n_id (fx_surviving_nodes fx))) ?new = ?new"
    using assms(5) by (intro filter_True) (auto simp: apply_nodes_def fl front_link_simps)
  then show ?thesis
    unfolding merge_def Let_def merge_nodes_def F(1)
    by (simp add: kept apply_nodes_def fl front_link_simps)
qed

end
