(* ===== verification/Scope_Examples.thy ===== *)
theory Scope_Examples
  imports Patch
begin

text \<open>
  Concrete repositories for the theorems on applies and patches: one on which their hypotheses hold, and two on which
  the impact set of \<^verbatim>\<open>compute_impact\<close> misses a reference and the scoped patch retires edges that a
  global apply keeps.
\<close>

section \<open>Small repositories\<close>

definition file_node :: "string \<Rightarrow> node" where
  "file_node path = (node_new (''file:'' @ path) path ''file'')\<lparr>n_file := Some path\<rparr>"

definition fn_node :: "string \<Rightarrow> string \<Rightarrow> node" where
  "fn_node path name = (node_new (''fn:'' @ path @ '':'' @ name) name ''function'')\<lparr>n_file := Some path\<rparr>"

definition sym_edge :: "node \<Rightarrow> string \<Rightarrow> string \<Rightarrow> (string \<times> string) list \<Rightarrow> edge" where
  "sym_edge n rel name hints =
     \<lparr>e_source = n_id n, e_relation = rel, e_confidence = Extracted,
      e_target = Symbol \<lparr>t_name = name, t_hints = bt_collect hints\<rparr>\<rparr>"

definition node_edge :: "node \<Rightarrow> string \<Rightarrow> node \<Rightarrow> edge" where
  "node_edge n rel m =
     \<lparr>e_source = n_id n, e_relation = rel, e_confidence = Extracted, e_target = Node (n_id m)\<rparr>"

definition file_ex :: "string \<Rightarrow> string list \<Rightarrow> edge list \<Rightarrow> export list \<Rightarrow> extraction" where
  "file_ex path fns refs exports =
     \<lparr>x_nodes = file_node path # map (fn_node path) fns,
      x_edges = map (\<lambda>f. node_edge (file_node path) ''contains'' (fn_node path f)) fns @ refs,
      x_exports = exports\<rparr>"

definition repo_extractor :: "(string \<times> extraction) list \<Rightarrow> extractor_port" where
  "repo_extractor files =
     \<lparr>ext_handles = (\<lambda>a. a_kind a = Code),
      ext_extract = (\<lambda>a b. case map_of files (a_path a) of
         None \<Rightarrow> Inl (NotFound (a_path a)) | Some x \<Rightarrow> Inr x)\<rparr>"

text \<open>A source tree of code files and manifests: the contents of a code file are its extraction.\<close>

definition repo_env :: "(string \<times> extraction) list \<Rightarrow> (string \<times> bytes) list \<Rightarrow> engine_env" where
  "repo_env files manifests =
     \<lparr>env_source =
        \<lparr>src_exists = (\<lambda>p. map_of files p \<noteq> None \<or> map_of manifests p \<noteq> None),
         src_read = (\<lambda>p. Inr (case map_of manifests p of None \<Rightarrow> [] | Some b \<Rightarrow> b))\<rparr>,
      env_extractor = repo_extractor files,
      env_from_slice = (\<lambda>_. None),
      env_js_ts = None,
      env_cluster = (\<lambda>_ _ p. Inr p)\<rparr>"

definition index_repo :: "engine_env \<Rightarrow> string list \<Rightarrow> graph_state" where
  "index_repo env paths =
     (case apply_with graph_state_default (all_added paths) env Global Deferred of
        Inl _ \<Rightarrow> graph_state_default
      | Inr d \<Rightarrow> merge graph_state_default d)"

definition edit :: "string \<Rightarrow> change_set" where
  "edit path = \<lparr>added = [], modified = [path], removed = []\<rparr>"

definition patch_edges :: "error + graph_delta \<Rightarrow> error + (edge list \<times> edge list)" where
  "patch_edges r = map_sum id (\<lambda>d. (d_edges_added d, d_edges_removed d)) r"

definition local_extraction :: "string \<times> extraction \<Rightarrow> bool" where
  "local_extraction fx \<longleftrightarrow>
     list_all (\<lambda>n. n_file n = Some (fst fx)) (x_nodes (snd fx))
     \<and> list_all (\<lambda>e. e_source e \<in> set (map n_id (x_nodes (snd fx)))) (x_edges (snd fx))"

lemma classify_path [simp]: "a_path (classify path) = path"
  by (simp add: classify_def Let_def split: prod.split)

lemma repo_extractor_local:
  "list_all local_extraction files \<Longrightarrow> extractor_local (repo_extractor files)"
  by (auto simp: extractor_local_def repo_extractor_def local_extraction_def list_all_iff
      split: option.splits dest!: map_of_SomeD)

section \<open>A repository where nothing uncovered moves\<close>

definition plain_env :: engine_env where
  "plain_env =
     repo_env
       [(''a.ts'', file_ex ''a.ts'' [''x''] [] [Local ''x'']),
        (''b.ts'', file_ex ''b.ts'' [''f'']
           [sym_edge (file_node ''b.ts'') ''imports'' ''x'' [(''specifier'', ''./a'')],
            sym_edge (fn_node ''b.ts'' ''f'') ''calls'' ''x'' []] [Local ''f'']),
        (''c.ts'', file_ex ''c.ts'' [''g'']
           [sym_edge (file_node ''c.ts'') ''imports'' ''f'' [(''specifier'', ''./b'')],
            sym_edge (fn_node ''c.ts'' ''g'') ''calls'' ''f'' [],
            sym_edge (fn_node ''c.ts'' ''g'') ''calls'' ''nowhere'' []] [])] []"

definition plain_prior :: graph_state where
  "plain_prior = index_repo plain_env [''a.ts'', ''b.ts'', ''c.ts'']"

definition plain_scope :: import_scope where
  "plain_scope =
     bt_collect [((''b.ts'', ''x''), NodeId ''fn:a.ts:x''), ((''c.ts'', ''f''), NodeId ''fn:b.ts:f'')]"

definition plain_fx :: front_extract where
  "plain_fx =
     (case run_front_extract plain_prior (edit ''a.ts'') plain_env of
        Inr fx \<Rightarrow> fx
      | Inl _ \<Rightarrow> \<lparr>fx_changes = edit ''a.ts'', fx_vanished = 0, fx_dropped_nodes = [],
                  fx_surviving_nodes = [], fx_project_nodes = [], fx_workspace = bt_empty,
                  fx_extracted = extracted_empty\<rparr>)"

definition plain_patch :: graph_delta where
  "plain_patch =
     (case apply_with plain_prior (edit ''a.ts'') plain_env Scoped Deferred of
        Inr d \<Rightarrow> d | Inl _ \<Rightarrow> shrinking_delta)"

lemma plain_wf: "state_wf plain_prior" by code_simp
lemma plain_safe: "scope_safe plain_prior plain_scope (edit ''a.ts'') plain_env" by code_simp
lemma plain_linked: "linked plain_prior plain_scope" by code_simp

lemma plain_local: "extractor_local (env_extractor plain_env)"
proof -
  have "list_all local_extraction
       [(''a.ts'', file_ex ''a.ts'' [''x''] [] [Local ''x'']),
        (''b.ts'', file_ex ''b.ts'' [''f'']
           [sym_edge (file_node ''b.ts'') ''imports'' ''x'' [(''specifier'', ''./a'')],
            sym_edge (fn_node ''b.ts'' ''f'') ''calls'' ''x'' []] [Local ''f'']),
        (''c.ts'', file_ex ''c.ts'' [''g'']
           [sym_edge (file_node ''c.ts'') ''imports'' ''f'' [(''specifier'', ''./b'')],
            sym_edge (fn_node ''c.ts'' ''g'') ''calls'' ''f'' [],
            sym_edge (fn_node ''c.ts'' ''g'') ''calls'' ''nowhere'' []] [])]"
    by code_simp
  from repo_extractor_local [OF this] show ?thesis by (simp add: plain_env_def repo_env_def)
qed

lemma plain_extract: "run_front_extract plain_prior (edit ''a.ts'') plain_env = Inr plain_fx"
proof -
  have "\<not> isl (run_front_extract plain_prior (edit ''a.ts'') plain_env)" by code_simp
  then show ?thesis by (auto simp: plain_fx_def split: sum.splits)
qed

lemma plain_apply: "apply_with plain_prior (edit ''a.ts'') plain_env Scoped Deferred = Inr plain_patch"
proof -
  have "\<not> isl (apply_with plain_prior (edit ''a.ts'') plain_env Scoped Deferred)" by code_simp
  then show ?thesis by (auto simp: plain_patch_def split: sum.splits)
qed

lemma plain_distinct:
  "distinct (map n_id (apply_nodes plain_fx (run_front_link plain_prior plain_env plain_fx)))"
  "distinct (map n_id (fl_all_nodes (run_front_link plain_prior plain_env plain_fx)))"
  by code_simp+

lemma plain_reverse: "reverse_ok (s_reverse plain_prior)" by code_simp

theorem scoped_patch_is_global_patch_witness:
  "same_patch (apply_with plain_prior (edit ''a.ts'') plain_env Scoped Deferred)
     (apply_with plain_prior (edit ''a.ts'') plain_env Global Deferred)"
  by (rule scoped_patch_is_global_patch [OF plain_wf plain_linked plain_local plain_safe]) simp

theorem consistent_state_needs_no_healing_witness:
  "fl_healed_refs (run_front_link plain_prior plain_env plain_fx) = []"
  using consistent_state_needs_no_healing
    [OF plain_extract plain_local plain_wf plain_linked plain_distinct(2)] by simp

theorem merged_edges_are_wholesale_witness:
  "mset (g_edges (s_graph (merge plain_prior plain_patch))) =
     mset (filter (edge_live (map n_id (g_nodes (s_graph (merge plain_prior plain_patch)))))
       (apply_edges plain_prior plain_fx (run_front_link plain_prior plain_env plain_fx) Scoped))"
  by (rule merged_edges_are_wholesale [OF plain_apply plain_extract])

theorem merged_reverse_is_rebuilt_witness:
  "s_reverse (merge plain_prior plain_patch)
     = fl_refs_by_name (run_front_link plain_prior plain_env plain_fx)"
  by (rule merged_reverse_is_rebuilt [OF plain_apply plain_extract plain_reverse])

theorem merged_nodes_are_wholesale_witness:
  "g_nodes (s_graph (merge plain_prior plain_patch))
     = apply_nodes plain_fx (run_front_link plain_prior plain_env plain_fx)"
  by (rule merged_nodes_are_wholesale
      [OF plain_apply plain_extract plain_local plain_wf plain_distinct(1)])

section \<open>An aliased import\<close>

definition alias_env :: engine_env where
  "alias_env =
     repo_env
       [(''a.ts'', file_ex ''a.ts'' [''x''] [] [Local ''x'']),
        (''b.ts'', file_ex ''b.ts'' [''f'']
           [sym_edge (file_node ''b.ts'') ''imports'' ''y''
              [(''specifier'', ''./a''), (''imported'', ''x'')],
            sym_edge (fn_node ''b.ts'' ''f'') ''calls'' ''y'' []] [])] []"

definition alias_prior :: graph_state where
  "alias_prior = index_repo alias_env [''a.ts'', ''b.ts'']"

definition alias_scope :: import_scope where
  "alias_scope = bt_collect [((''b.ts'', ''y''), NodeId ''fn:a.ts:x'')]"

text \<open>A scoped apply loses the edges of an aliased import. \<^verbatim>\<open>b.ts\<close> imports \<open>x\<close> of \<^verbatim>\<open>a.ts\<close> as
  \<open>y\<close> and calls \<open>y\<close>; the state is consistent and \<^verbatim>\<open>a.ts\<close> is re-indexed with the same contents.
  A global apply changes nothing; the scoped one retires the \<open>imports\<close> and the \<open>calls\<close> edge
  (their target is a dropped node) and re-resolves neither reference, because the impact set tests
  the local name \<open>y\<close> and not the imported name \<open>x\<close>.\<close>

theorem aliased_import_lost:
  "state_wf alias_prior \<and> linked alias_prior alias_scope
   \<and> patch_edges (apply_with alias_prior (edit ''a.ts'') alias_env Global Deferred) = Inr ([], [])
   \<and> patch_edges (apply_with alias_prior (edit ''a.ts'') alias_env Scoped Deferred)
     = Inr ([], [\<lparr>e_source = NodeId ''file:b.ts'', e_relation = ''imports'',
                   e_confidence = Extracted, e_target = Node (NodeId ''fn:a.ts:x'')\<rparr>,
                 \<lparr>e_source = NodeId ''fn:b.ts:f'', e_relation = ''calls'',
                   e_confidence = Extracted, e_target = Node (NodeId ''fn:a.ts:x'')\<rparr>])"
  by (intro conjI; code_simp)

section \<open>A qualified path with two segments below the crate\<close>

definition qualified_env :: engine_env where
  "qualified_env =
     repo_env
       [(''core/src/m.rs'', file_ex ''core/src/m.rs'' [''t''] [] []),
        (''app/src/main.rs'', file_ex ''app/src/main.rs'' [''run'']
           [sym_edge (fn_node ''app/src/main.rs'' ''run'') ''calls'' ''core::m::t'' []] [])]
       [(''core/Cargo.toml'', ''[package]'' @ [CHR 0x0A] @ ''name = '' @ [CHR 0x22] @ ''core'' @ [CHR 0x22])]"

definition qualified_prior :: graph_state where
  "qualified_prior =
     index_repo qualified_env [''core/Cargo.toml'', ''core/src/m.rs'', ''app/src/main.rs'']"

text \<open>A scoped apply loses the edge of a qualified path resolved by its last segment. The call
  \<open>core::m::t\<close> resolves through its last segment \<open>t\<close>; when the file that defines \<open>t\<close> is re-indexed
  unchanged, a global apply changes nothing and the scoped one retires the edge and does not
  re-resolve the reference, because the impact set tests the name and its stripped form \<open>m::t\<close> only.\<close>

theorem qualified_segment_lost:
  "state_wf qualified_prior \<and> linked qualified_prior bt_empty
   \<and> patch_edges (apply_with qualified_prior (edit ''core/src/m.rs'') qualified_env Global Deferred)
     = Inr ([], [])
   \<and> patch_edges (apply_with qualified_prior (edit ''core/src/m.rs'') qualified_env Scoped Deferred)
     = Inr ([], [\<lparr>e_source = NodeId ''fn:app/src/main.rs:run'', e_relation = ''calls'',
                   e_confidence = Inferred, e_target = Node (NodeId ''fn:core/src/m.rs:t'')\<rparr>])"
  by (intro conjI; code_simp)

section \<open>The order of the merged edges\<close>

text \<open>The merged edge vector is not in the order of the wholesale carry. Re-indexing the first
  file of the consistent repository retires and re-emits its edges; the diff cancels them, so they
  stay at their prior positions, where the wholesale result has the carried edges first. The two
  are equal as multisets only.\<close>

theorem merged_order_differs:
  "mset (g_edges (s_graph (merge plain_prior plain_patch)))
     = mset (apply_edges plain_prior plain_fx (run_front_link plain_prior plain_env plain_fx) Scoped)
   \<and> g_edges (s_graph (merge plain_prior plain_patch))
     \<noteq> apply_edges plain_prior plain_fx (run_front_link plain_prior plain_env plain_fx) Scoped"
  by (intro conjI; code_simp)

end
