(* ===== verification/Cluster.thy ===== *)
theory Cluster
  imports Complex_Main Core_State
begin

text \<open>
  The clusterer of \<^verbatim>\<open>filigrio-resolve/src/cluster.rs\<close>: the undirected weighted projection, the
  warm start from the prior partition, the Louvain local-moving pass and its multi-level form,
  cohesion, and the community ids inherited by overlap. The \<open>f64\<close> operations of the code are the
  record \<open>fops\<close>, so that what is proved of the bookkeeping holds for any rounding. The
  \<^verbatim>\<open>while improved\<close> loop may run on for a bad arithmetic, so the passes are partial functions.
\<close>

section \<open>Configuration\<close>

record 'f fops =
  f_zero :: 'f
  f_one :: 'f
  f_half :: 'f
  f_quarter :: 'f
  f_eps :: 'f
  f_add :: "'f \<Rightarrow> 'f \<Rightarrow> 'f"
  f_sub :: "'f \<Rightarrow> 'f \<Rightarrow> 'f"
  f_mul :: "'f \<Rightarrow> 'f \<Rightarrow> 'f"
  f_div :: "'f \<Rightarrow> 'f \<Rightarrow> 'f"
  f_max :: "'f \<Rightarrow> 'f \<Rightarrow> 'f"
  f_less :: "'f \<Rightarrow> 'f \<Rightarrow> bool"
  f_le :: "'f \<Rightarrow> 'f \<Rightarrow> bool"
  f_permille :: "'f \<Rightarrow> u16" \<comment> \<open>\<^verbatim>\<open>(x * 1000.0).round().clamp(0.0, 1000.0) as u16\<close>\<close>

datatype cluster_strategy = Simple | Full
datatype edge_weighting = Uniform | Confidence_Weighting

record 'f cluster_config =
  cc_strategy :: cluster_strategy
  cc_weighting :: edge_weighting
  cc_resolution :: 'f

definition config_default :: "'f fops \<Rightarrow> 'f cluster_config" where
  "config_default ops = \<lparr>cc_strategy = Simple, cc_weighting = Uniform, cc_resolution = f_one ops\<rparr>"

definition config_full :: "'f fops \<Rightarrow> 'f cluster_config" where
  "config_full ops = (config_default ops)\<lparr>cc_strategy := Full\<rparr>"

fun edge_weight :: "'f fops \<Rightarrow> edge_weighting \<Rightarrow> confidence \<Rightarrow> 'f" where
  "edge_weight ops Uniform c = f_one ops"
| "edge_weight ops Confidence_Weighting Extracted = f_one ops"
| "edge_weight ops Confidence_Weighting Inferred = f_half ops"
| "edge_weight ops Confidence_Weighting Ambiguous = f_quarter ops"

section \<open>The projection\<close>

type_synonym 'f pair_weights = "(nat \<times> nat, 'f) btree"
type_synonym 'f adjacency = "(nat \<times> 'f) list list"

definition node_index :: "node list \<Rightarrow> (node_id, nat) btree" where
  "node_index nodes = bt_collect (map (\<lambda>i. (n_id (nodes ! i), i)) [0..<length nodes])"

definition pair_edge ::
  "'f fops \<Rightarrow> edge_weighting \<Rightarrow> (node_id, nat) btree \<Rightarrow> 'f pair_weights \<Rightarrow> edge \<Rightarrow> 'f pair_weights"
where
  "pair_edge ops weighting index pairw e =
     (case e_target e of
        Symbol _ \<Rightarrow> pairw
      | Node t \<Rightarrow>
          (case (bt_get index (e_source e), bt_get index t) of
             (Some u, Some v) \<Rightarrow>
               if u \<noteq> v
               then (let k = (min u v, max u v);
                         slot = (case bt_get pairw k of None \<Rightarrow> f_zero ops | Some x \<Rightarrow> x)
                     in bt_insert k (f_max ops slot (edge_weight ops weighting (e_confidence e))) pairw)
               else pairw
           | _ \<Rightarrow> pairw))"

definition pair_weights_of ::
  "'f fops \<Rightarrow> edge_weighting \<Rightarrow> node list \<Rightarrow> edge list \<Rightarrow> 'f pair_weights"
where
  "pair_weights_of ops weighting nodes edges =
     foldl (pair_edge ops weighting (node_index nodes)) bt_empty edges"

definition link_pair ::
  "'f fops \<Rightarrow> 'f adjacency \<times> 'f list \<Rightarrow> (nat \<times> nat) \<times> 'f \<Rightarrow> 'f adjacency \<times> 'f list"
where
  "link_pair ops ad p =
     (let (adj, deg) = ad; ((u, v), w) = p;
          adj1 = adj[u := adj ! u @ [(v, w)]]; adj2 = adj1[v := adj1 ! v @ [(u, w)]];
          deg1 = deg[u := f_add ops (deg ! u) w]
      in (adj2, deg1[v := f_add ops (deg1 ! v) w]))"

definition build_adjacency :: "'f fops \<Rightarrow> nat \<Rightarrow> 'f pair_weights \<Rightarrow> 'f adjacency \<times> 'f list" where
  "build_adjacency ops n pairw =
     foldl (link_pair ops) (replicate n [], replicate n (f_zero ops)) pairw"

definition f_sum :: "'f fops \<Rightarrow> 'f list \<Rightarrow> 'f" where
  "f_sum ops xs = foldl (f_add ops) (f_zero ops) xs"

section \<open>The warm start\<close>

text \<open>Nodes of one prior community share a label, the others start as singletons.\<close>

fun seed_labels ::
  "partition \<Rightarrow> node list \<Rightarrow> (community_id, nat) btree \<Rightarrow> nat \<Rightarrow> nat list"
where
  "seed_labels prior [] prior_label next_label = []"
| "seed_labels prior (n # ns) prior_label next_label =
     (case bt_get (node_community prior) (n_id n) of
        Some cid \<Rightarrow>
          (case bt_get prior_label cid of
             Some l \<Rightarrow> l # seed_labels prior ns prior_label next_label
           | None \<Rightarrow>
               next_label
               # seed_labels prior ns (bt_insert cid next_label prior_label) (Suc next_label))
      | None \<Rightarrow> next_label # seed_labels prior ns prior_label (Suc next_label))"

section \<open>The local-moving pass\<close>

definition poisoned_bookkeeping :: "string \<Rightarrow> nat \<Rightarrow> error" where
  "poisoned_bookkeeping what key =
     Other (''clustering invariant violated: '' @ what @ '' has no entry for '' @ show_nat key)"

definition get_or_zero :: "'f fops \<Rightarrow> (nat, 'f) btree \<Rightarrow> nat \<Rightarrow> 'f" where
  "get_or_zero ops m k = (case bt_get m k of None \<Rightarrow> f_zero ops | Some x \<Rightarrow> x)"

record 'f move_state =
  mv_sum_tot :: "(nat, 'f) btree"
  mv_label :: "nat list"
  mv_improved :: bool

definition initial_sums :: "'f fops \<Rightarrow> 'f list \<Rightarrow> nat list \<Rightarrow> (nat, 'f) btree" where
  "initial_sums ops deg label =
     foldl (\<lambda>m (l, d). bt_insert l (f_add ops (get_or_zero ops m l) d) m) bt_empty (zip label deg)"

definition neighbour_weights ::
  "'f fops \<Rightarrow> (nat \<times> 'f) list \<Rightarrow> nat list \<Rightarrow> nat \<Rightarrow> (nat, 'f) btree"
where
  "neighbour_weights ops nbrs label ci =
     bt_or_insert ci (f_zero ops)
       (foldl (\<lambda>m (j, w). bt_insert (label ! j) (f_add ops (get_or_zero ops m (label ! j)) w) m)
          bt_empty nbrs)"

definition best_move :: "'f fops \<Rightarrow> (nat \<Rightarrow> 'f) \<Rightarrow> nat \<Rightarrow> nat list \<Rightarrow> nat" where
  "best_move ops gain ci cs =
     fst (foldl (\<lambda>(best, best_gain) c.
             if f_less ops (f_add ops best_gain (f_eps ops)) (gain c) then (c, gain c)
             else (best, best_gain)) (ci, gain ci) cs)"

definition move_node ::
  "'f fops \<Rightarrow> 'f adjacency \<Rightarrow> 'f list \<Rightarrow> 'f \<Rightarrow> 'f \<Rightarrow> 'f move_state \<Rightarrow> nat \<Rightarrow> error + 'f move_state"
where
  "move_node ops adj deg two_m resolution s i =
     (let label = mv_label s; ci = label ! i
      in case bt_get (mv_sum_tot s) ci of
           None \<Rightarrow> Inl (poisoned_bookkeeping ''sum_tot'' ci)
         | Some tot \<Rightarrow>
             (let totals = bt_insert ci (f_sub ops tot (deg ! i)) (mv_sum_tot s);
                  wt = neighbour_weights ops (adj ! i) label ci;
                  gain = (\<lambda>c. f_sub ops (get_or_zero ops wt c)
                     (f_div ops (f_mul ops (f_mul ops resolution (get_or_zero ops totals c)) (deg ! i)) two_m));
                  best = best_move ops gain ci (bt_keys wt)
              in Inr \<lparr>mv_sum_tot = bt_insert best (f_add ops (get_or_zero ops totals best) (deg ! i)) totals,
                      mv_label = label[i := best],
                      mv_improved = (mv_improved s \<or> best \<noteq> ci)\<rparr>))"

fun move_pass ::
  "'f fops \<Rightarrow> 'f adjacency \<Rightarrow> 'f list \<Rightarrow> 'f \<Rightarrow> 'f \<Rightarrow> nat list \<Rightarrow> 'f move_state \<Rightarrow> error + 'f move_state"
where
  "move_pass ops adj deg two_m resolution [] s = Inr s"
| "move_pass ops adj deg two_m resolution (i # is) s =
     (case move_node ops adj deg two_m resolution s i of
        Inl err \<Rightarrow> Inl err
      | Inr s' \<Rightarrow> move_pass ops adj deg two_m resolution is s')"

partial_function (option) move_loop ::
  "'f fops \<Rightarrow> 'f adjacency \<Rightarrow> 'f list \<Rightarrow> 'f \<Rightarrow> 'f \<Rightarrow> 'f move_state \<Rightarrow> (error + nat list) option"
where
  "move_loop ops adj deg two_m resolution s =
     (case move_pass ops adj deg two_m resolution [0..<length adj] (s\<lparr>mv_improved := False\<rparr>) of
        Inl err \<Rightarrow> Some (Inl err)
      | Inr s' \<Rightarrow>
          if mv_improved s' then move_loop ops adj deg two_m resolution s'
          else Some (Inr (mv_label s')))"

declare move_loop.simps [code]

definition local_move ::
  "'f fops \<Rightarrow> 'f adjacency \<Rightarrow> 'f list \<Rightarrow> 'f \<Rightarrow> 'f \<Rightarrow> nat list \<Rightarrow> (error + nat list) option"
where
  "local_move ops adj deg two_m resolution label =
     move_loop ops adj deg two_m resolution
       \<lparr>mv_sum_tot = initial_sums ops deg label, mv_label = label, mv_improved = True\<rparr>"

section \<open>The multi-level form\<close>

text \<open>Dense labels in order of first occurrence, and their number.\<close>

fun densify_from :: "(nat, nat) btree \<Rightarrow> nat \<Rightarrow> nat list \<Rightarrow> nat list \<times> nat" where
  "densify_from remap next_id [] = ([], next_id)"
| "densify_from remap next_id (l # ls) =
     (case bt_get remap l of
        Some d \<Rightarrow> (let (dense, k) = densify_from remap next_id ls in (d # dense, k))
      | None \<Rightarrow>
          (let (dense, k) = densify_from (bt_insert l next_id remap) (Suc next_id) ls
           in (next_id # dense, k)))"

definition densify :: "nat list \<Rightarrow> nat list \<times> nat" where
  "densify label = densify_from bt_empty 0 label"

definition inter_weights ::
  "'f fops \<Rightarrow> 'f adjacency \<Rightarrow> nat list \<Rightarrow> 'f pair_weights"
where
  "inter_weights ops adj0 comm =
     foldl (\<lambda>m (u, v, w).
         if u < v \<and> comm ! u \<noteq> comm ! v
         then (let k = (min (comm ! u) (comm ! v), max (comm ! u) (comm ! v))
               in bt_insert k (f_add ops (case bt_get m k of None \<Rightarrow> f_zero ops | Some x \<Rightarrow> x) w) m)
         else m)
       bt_empty (concat (map (\<lambda>u. map (Pair u) (adj0 ! u)) [0..<length adj0]))"

definition aggregate ::
  "'f fops \<Rightarrow> 'f adjacency \<Rightarrow> 'f list \<Rightarrow> nat list \<Rightarrow> nat \<Rightarrow> 'f adjacency \<times> 'f list"
where
  "aggregate ops adj0 deg0 comm k =
     (foldl (\<lambda>adj ((a, b), w).
          let adj1 = adj[a := adj ! a @ [(b, w)]] in adj1[b := adj1 ! b @ [(a, w)]])
        (replicate k []) (inter_weights ops adj0 comm),
      foldl (\<lambda>sdeg (c, d). sdeg[c := f_add ops (sdeg ! c) d])
        (replicate k (f_zero ops)) (zip comm deg0))"

partial_function (option) louvain_levels ::
  "'f fops \<Rightarrow> 'f adjacency \<Rightarrow> 'f list \<Rightarrow> 'f \<Rightarrow> 'f \<Rightarrow> nat list \<Rightarrow> nat \<Rightarrow> (error + nat list) option"
where
  "louvain_levels ops adj0 deg0 two_m resolution orig_comm k =
     (case local_move ops (fst (aggregate ops adj0 deg0 orig_comm k))
             (snd (aggregate ops adj0 deg0 orig_comm k)) two_m resolution [0..<k] of
        None \<Rightarrow> None
      | Some (Inl err) \<Rightarrow> Some (Inl err)
      | Some (Inr slabel) \<Rightarrow>
          if snd (densify slabel) = k then Some (Inr orig_comm)
          else louvain_levels ops adj0 deg0 two_m resolution
                 (map (\<lambda>c. fst (densify slabel) ! c) orig_comm) (snd (densify slabel)))"

declare louvain_levels.simps [code]

definition louvain_full ::
  "'f fops \<Rightarrow> 'f adjacency \<Rightarrow> 'f list \<Rightarrow> 'f \<Rightarrow> 'f \<Rightarrow> nat list \<Rightarrow> (error + nat list) option"
where
  "louvain_full ops adj0 deg0 two_m resolution seed =
     (case local_move ops adj0 deg0 two_m resolution seed of
        None \<Rightarrow> None
      | Some (Inl err) \<Rightarrow> Some (Inl err)
      | Some (Inr label) \<Rightarrow>
          (let (orig_comm, k) = densify label
           in louvain_levels ops adj0 deg0 two_m resolution orig_comm k))"

section \<open>Groups and cohesion\<close>

text \<open>The hash map of groups is read out in any order and then sorted by smallest member.\<close>

definition label_groups :: "nat list \<Rightarrow> nat list list" where
  "label_groups label =
     sort_key hd
       (map sort
         (bt_values
           (foldl (\<lambda>m (l, i). bt_push l i m) bt_empty (zip label [0..<length label]))))"

definition group_index :: "nat list list \<Rightarrow> nat \<Rightarrow> nat list" where
  "group_index groups n =
     foldl (\<lambda>xs (g, i). xs[i := g]) (replicate n 0)
       (concat (map (\<lambda>g. map (Pair g) (groups ! g)) [0..<length groups]))"

definition add_at :: "'f fops \<Rightarrow> 'f list \<Rightarrow> nat \<Rightarrow> 'f \<Rightarrow> 'f list" where
  "add_at ops xs i w = xs[i := f_add ops (xs ! i) w]"

definition cohesion_sums ::
  "'f fops \<Rightarrow> 'f pair_weights \<Rightarrow> nat list list \<Rightarrow> nat \<Rightarrow> 'f list \<times> 'f list"
where
  "cohesion_sums ops pairw groups n =
     (let group_of = group_index groups n
      in foldl (\<lambda>(internal, boundary) ((u, v), w).
             if group_of ! u = group_of ! v
             then (add_at ops internal (group_of ! u) w, boundary)
             else (internal, add_at ops (add_at ops boundary (group_of ! u) w) (group_of ! v) w))
           (replicate (length groups) (f_zero ops), replicate (length groups) (f_zero ops)) pairw)"

definition cohesion_permille ::
  "'f fops \<Rightarrow> 'f pair_weights \<Rightarrow> nat list list \<Rightarrow> nat \<Rightarrow> u16 list"
where
  "cohesion_permille ops pairw groups n =
     (let (internal, boundary) = cohesion_sums ops pairw groups n
      in map (\<lambda>g. let total = f_add ops (internal ! g) (boundary ! g)
                  in f_permille ops
                       (if f_le ops total (f_zero ops) then f_one ops
                        else f_div ops (internal ! g) total))
           [0..<length groups])"

section \<open>Stable community ids\<close>

type_synonym overlap = "(community_id, nat) btree"

definition group_overlap :: "(nat \<Rightarrow> community_id option) \<Rightarrow> nat list \<Rightarrow> overlap" where
  "group_overlap prior_of g =
     foldl (\<lambda>m i. case prior_of i of
               None \<Rightarrow> m
             | Some cid \<Rightarrow>
                 bt_insert cid ((case bt_get m cid of None \<Rightarrow> 0 | Some c \<Rightarrow> c) + 1) m)
       bt_empty g"

definition best_overlap :: "overlap \<Rightarrow> nat" where
  "best_overlap m = foldl max 0 (bt_values m)"

definition claim_order :: "overlap list \<Rightarrow> nat list list \<Rightarrow> nat list" where
  "claim_order overlaps groups =
     sort_key (\<lambda>g. (- int (best_overlap (overlaps ! g)), hd (groups ! g))) [0..<length groups]"

text \<open>\<open>max_by\<close> keeps the last of equal maxima; equal counts are ordered by descending id.\<close>

definition pick_prior :: "overlap \<Rightarrow> community_id list \<Rightarrow> community_id option" where
  "pick_prior overlap taken =
     (case foldl (\<lambda>best (cid, c).
               if cid \<in> set taken then best
               else
                 (case best of
                    None \<Rightarrow> Some (cid, c)
                  | Some (b, bc) \<Rightarrow> if bc < c \<or> bc = c \<and> cid \<le> b then Some (cid, c) else best))
             None overlap of
        None \<Rightarrow> None
      | Some (cid, c) \<Rightarrow> if c > 0 then Some cid else None)"

fun claim_ids ::
  "overlap list \<Rightarrow> nat list \<Rightarrow> community_id option list \<times> community_id list \<Rightarrow>
     community_id option list \<times> community_id list"
where
  "claim_ids overlaps [] st = st"
| "claim_ids overlaps (g # gs) (assigned, taken) =
     (case pick_prior (overlaps ! g) taken of
        None \<Rightarrow> claim_ids overlaps gs (assigned, taken)
      | Some cid \<Rightarrow> claim_ids overlaps gs (assigned[g := Some cid], cid # taken))"

text \<open>\<^verbatim>\<open>while used.contains(&counter) { counter += 1 }\<close>: the fuel is the number of used ids, which
  is enough when it fits the counter.\<close>

fun skip_used :: "nat \<Rightarrow> community_id list \<Rightarrow> community_id \<Rightarrow> community_id" where
  "skip_used 0 used counter = counter"
| "skip_used (Suc fuel) used counter =
     (if counter \<in> set used then skip_used fuel used (counter + 1) else counter)"

fun fill_fresh ::
  "community_id list \<Rightarrow> community_id \<Rightarrow> community_id option list \<Rightarrow> community_id list"
where
  "fill_fresh used counter [] = []"
| "fill_fresh used counter (Some cid # slots) = cid # fill_fresh used counter slots"
| "fill_fresh used counter (None # slots) =
     (let c = skip_used (length used) used counter
      in c # fill_fresh (c # used) c slots)"

definition assign_ids :: "(nat \<Rightarrow> community_id option) \<Rightarrow> nat list list \<Rightarrow> community_id list" where
  "assign_ids prior_of groups =
     (let overlaps = map (group_overlap prior_of) groups;
          (assigned, taken) =
            claim_ids overlaps (claim_order overlaps groups) (replicate (length groups) None, [])
      in fill_fresh taken 0 assigned)"

definition community_label :: "partition \<Rightarrow> community_id \<Rightarrow> string" where
  "community_label prior cid =
     (case bt_get (communities prior) cid of
        Some m \<Rightarrow> cm_label m
      | None \<Rightarrow> ''Community '' @ show_nat (unat cid))"

definition add_community ::
  "node list \<Rightarrow> partition \<Rightarrow> partition \<Rightarrow> community_id \<times> nat list \<times> u16 \<Rightarrow> partition"
where
  "add_community nodes prior p entry =
     (let (cid, group, coh) = entry
      in \<lparr>node_community =
            foldl (\<lambda>m i. bt_insert (n_id (nodes ! i)) cid m) (node_community p) group,
          communities =
            bt_insert cid
              \<lparr>cm_id = cid, cm_label = community_label prior cid, cm_size = length group,
               cm_cohesion_permille = coh\<rparr>
              (communities p)\<rparr>)"

definition stabilize :: "node list \<Rightarrow> nat list list \<Rightarrow> partition \<Rightarrow> u16 list \<Rightarrow> partition" where
  "stabilize nodes groups prior cohesion =
     (let prior_of = (\<lambda>i. bt_get (node_community prior) (n_id (nodes ! i)))
      in foldl (add_community nodes prior) partition_default
           (zip (assign_ids prior_of groups) (zip groups cohesion)))"

section \<open>Clustering\<close>

definition cluster_labels ::
  "'f fops \<Rightarrow> 'f cluster_config \<Rightarrow> node list \<Rightarrow> 'f pair_weights \<Rightarrow> partition \<Rightarrow>
     (error + nat list) option"
where
  "cluster_labels ops cfg nodes pairw prior =
     (let (adj, deg) = build_adjacency ops (length nodes) pairw;
          two_m = f_sum ops deg;
          label = seed_labels prior nodes bt_empty 0
      in if f_less ops (f_zero ops) two_m
         then (case cc_strategy cfg of
                 Simple \<Rightarrow> local_move ops adj deg two_m (cc_resolution cfg) label
               | Full \<Rightarrow> louvain_full ops adj deg two_m (cc_resolution cfg) label)
         else Some (Inr label))"

definition cluster_with ::
  "'f fops \<Rightarrow> 'f cluster_config \<Rightarrow> node list \<Rightarrow> edge list \<Rightarrow> partition \<Rightarrow>
     (error + partition) option"
where
  "cluster_with ops cfg nodes edges prior =
     (if nodes = [] then Some (Inr partition_default)
      else
        (let pairw = pair_weights_of ops (cc_weighting cfg) nodes edges
         in case cluster_labels ops cfg nodes pairw prior of
              None \<Rightarrow> None
            | Some (Inl err) \<Rightarrow> Some (Inl err)
            | Some (Inr label) \<Rightarrow>
                (let groups = label_groups label
                 in Some (Inr (stabilize nodes groups prior
                                 (cohesion_permille ops pairw groups (length nodes)))))))"

definition cluster ::
  "'f fops \<Rightarrow> node list \<Rightarrow> edge list \<Rightarrow> partition \<Rightarrow> (error + partition) option"
where
  "cluster ops nodes edges prior = cluster_with ops (config_default ops) nodes edges prior"

section \<open>The bookkeeping never fails\<close>

definition move_ok :: "nat \<Rightarrow> 'f move_state \<Rightarrow> bool" where
  "move_ok n s \<longleftrightarrow>
     length (mv_label s) = n \<and> (\<forall>l \<in> set (mv_label s). bt_get (mv_sum_tot s) l \<noteq> None)"

lemma best_move_in: "best_move ops gain ci cs \<in> insert ci (set cs)"
proof -
  have "fst (foldl (\<lambda>(best, bg) c. if f_less ops (f_add ops bg (f_eps ops)) (gain c)
        then (c, gain c) else (best, bg)) st cs) \<in> insert (fst st) (set cs)" for st
  proof (induction cs arbitrary: st)
    case Nil
    then show ?case by simp
  next
    case (Cons c cs)
    obtain b bg where st: "st = (b, bg)" by force
    show ?case
      using Cons.IH [of "if f_less ops (f_add ops bg (f_eps ops)) (gain c) then (c, gain c) else (b, bg)"]
      by (auto simp: st)
  qed
  from this [of "(ci, gain ci)"] show ?thesis by (simp add: best_move_def)
qed

lemma move_node_ok:
  assumes "move_ok n s" "i < n"
  shows "\<exists>s'. move_node ops adj deg two_m res s i = Inr s' \<and> move_ok n s'"
proof -
  from assms have "mv_label s ! i \<in> set (mv_label s)" by (simp add: move_ok_def)
  with assms obtain tot where "bt_get (mv_sum_tot s) (mv_label s ! i) = Some tot"
    unfolding move_ok_def by (metis option.exhaust)
  with assms show ?thesis
    by (auto simp: move_node_def Let_def move_ok_def bt_get_insert dest!: set_update_subset_insert [THEN subsetD])
qed

lemma move_pass_ok:
  "move_ok n s \<Longrightarrow> \<forall>i \<in> set is. i < n \<Longrightarrow>
     \<exists>s'. move_pass ops adj deg two_m res is s = Inr s' \<and> move_ok n s'"
proof (induction "is" arbitrary: s)
  case (Cons i "is")
  from move_node_ok [OF Cons.prems(1), of i] Cons.prems(2) obtain s1 where
    "move_node ops adj deg two_m res s i = Inr s1" "move_ok n s1" by fastforce
  with Cons.IH [of s1] Cons.prems(2) show ?case by simp
qed simp

lemma move_loop_ok:
  assumes "move_loop ops adj deg two_m res s = Some r" and "move_ok (length adj) s"
  shows "\<exists>label. r = Inr label \<and> length label = length adj"
  using assms
proof (induction ops adj deg two_m res s r rule: move_loop.raw_induct [rotated 1, consumes 1, case_names step])
  case (step loop ops adj deg two_m res s r)
  let ?s0 = "s\<lparr>mv_improved := False\<rparr>"
  from step.prems have "move_ok (length adj) ?s0" by (simp add: move_ok_def)
  from move_pass_ok [OF this, of "[0..<length adj]" ops adj deg two_m res] obtain s1 where
    s1: "move_pass ops adj deg two_m res [0..<length adj] ?s0 = Inr s1" "move_ok (length adj) s1"
    by auto
  show ?case
  proof (cases "mv_improved s1")
    case True
    with step.hyps s1 have "loop ops adj deg two_m res s1 = Some r" by simp
    with step.IH s1(2) show ?thesis by blast
  next
    case False
    with step.hyps s1 show ?thesis by (auto simp: move_ok_def)
  qed
qed

lemma initial_sums_get:
  "length label = length deg \<Longrightarrow> l \<in> set label \<Longrightarrow> bt_get (initial_sums ops deg label) l \<noteq> None"
proof -
  have gen: "bt_get m l \<noteq> None \<or> l \<in> fst ` set xs \<Longrightarrow>
      bt_get (foldl (\<lambda>m (l, d). bt_insert l (f_add ops (get_or_zero ops m l) d) m) m xs) l \<noteq> None" for m xs
    by (induction xs arbitrary: m) (auto simp: bt_get_insert)
  assume "length label = length deg" "l \<in> set label"
  then have "l \<in> fst ` set (zip label deg)" by (metis list.set_map map_fst_zip)
  with gen [of bt_empty "zip label deg"] show ?thesis by (simp add: initial_sums_def)
qed

lemma local_move_ok:
  assumes "local_move ops adj deg two_m res label = Some r"
    and "length label = length adj" "length deg = length adj"
  shows "\<exists>label'. r = Inr label' \<and> length label' = length adj"
  using move_loop_ok [OF assms(1) [unfolded local_move_def]] assms(2,3) initial_sums_get [of label deg _ ops]
  by (auto simp: move_ok_def)

lemma densify_from_spec:
  "densify_from remap k ls = (dense, k') \<Longrightarrow> \<forall>d. (\<exists>l. bt_get remap l = Some d) \<longrightarrow> d < k \<Longrightarrow>
     length dense = length ls \<and> k \<le> k' \<and> k' \<le> k + length ls \<and> (\<forall>d \<in> set dense. d < k')"
proof (induction remap k ls arbitrary: dense k' rule: densify_from.induct)
  case (1 remap k)
  then show ?case by simp
next
  case (2 remap k l ls)
  show ?case
  proof (cases "bt_get remap l")
    case None
    obtain ds kk where rest: "densify_from (bt_insert l k remap) (Suc k) ls = (ds, kk)" by force
    have "\<forall>d. (\<exists>l'. bt_get (bt_insert l k remap) l' = Some d) \<longrightarrow> d < Suc k"
      using "2.prems"(2) by (auto simp: bt_get_insert less_Suc_eq split: if_splits)
    with "2.IH"(1) [OF None rest] "2.prems"(1) None rest show ?thesis by auto
  next
    case (Some d)
    obtain ds kk where rest: "densify_from remap k ls = (ds, kk)" by force
    from "2.prems"(2) Some have "d < k" by blast
    with "2.IH"(2) [OF Some rest "2.prems"(2)] "2.prems"(1) Some rest show ?thesis by auto
  qed
qed

lemma densify_spec:
  "length (fst (densify ls)) = length ls" "snd (densify ls) \<le> length ls"
  "d \<in> set (fst (densify ls)) \<Longrightarrow> d < snd (densify ls)"
  using densify_from_spec [of bt_empty 0 ls] by (cases "densify ls"; simp add: densify_def)+

lemma aggregate_length [simp]:
  "length (fst (aggregate ops adj0 deg0 comm k)) = k"
  "length (snd (aggregate ops adj0 deg0 comm k)) = k"
proof -
  have "length (foldl (\<lambda>adj ((a, b), w).
          let adj1 = adj[a := adj ! a @ [(b, w)]] in adj1[b := adj1 ! b @ [(a, w)]]) adj xs) = length adj"
    for adj :: "'a adjacency" and xs :: "'a pair_weights"
    by (induction xs arbitrary: adj) (auto simp: Let_def)
  then show "length (fst (aggregate ops adj0 deg0 comm k)) = k" by (simp add: aggregate_def)
  have "length (foldl (\<lambda>sdeg (c, d). sdeg[c := f_add ops (sdeg ! c) d]) s xs) = length s"
    for s :: "'a list" and xs :: "(nat \<times> 'a) list"
    by (induction xs arbitrary: s) auto
  then show "length (snd (aggregate ops adj0 deg0 comm k)) = k" by (simp add: aggregate_def)
qed

lemma louvain_levels_ok:
  assumes "louvain_levels ops adj0 deg0 two_m res comm k = Some r"
  shows "\<exists>label. r = Inr label \<and> length label = length comm"
  using assms
proof (induction ops adj0 deg0 two_m res comm k r
    rule: louvain_levels.raw_induct [rotated 1, consumes 1, case_names step])
  case (step levels ops adj0 deg0 two_m res comm k r)
  let ?mv = "local_move ops (fst (aggregate ops adj0 deg0 comm k)) (snd (aggregate ops adj0 deg0 comm k))
      two_m res [0..<k]"
  from step.hyps obtain x where x: "?mv = Some x" by (cases ?mv) auto
  from local_move_ok [OF this] obtain sl where "x = Inr sl" by auto
  with x step.hyps have "if snd (densify sl) = k then Some (Inr comm) = Some r
      else levels ops adj0 deg0 two_m res (map (\<lambda>c. fst (densify sl) ! c) comm) (snd (densify sl)) = Some r"
    by (simp split: if_splits)
  with step.IH show ?case by (fastforce split: if_splits)
qed

lemma louvain_full_ok:
  assumes "louvain_full ops adj deg two_m res label = Some r"
    and "length label = length adj" "length deg = length adj"
  shows "\<exists>label'. r = Inr label' \<and> length label' = length adj"
proof -
  from assms(1) obtain x where x: "local_move ops adj deg two_m res label = Some x"
    by (auto simp: louvain_full_def split: option.splits)
  from local_move_ok [OF x assms(2,3)] obtain l where l: "x = Inr l" "length l = length adj" by blast
  from assms(1) x l have "louvain_levels ops adj deg two_m res (fst (densify l)) (snd (densify l)) = Some r"
    by (simp add: louvain_full_def Let_def split: prod.splits)
  from louvain_levels_ok [OF this] l densify_spec(1) show ?thesis by metis
qed

lemma build_adjacency_length:
  "length (fst (build_adjacency ops n pairw)) = n" "length (snd (build_adjacency ops n pairw)) = n"
proof -
  have "length (fst (foldl (link_pair ops) ad xs)) = length (fst ad)
      \<and> length (snd (foldl (link_pair ops) ad xs)) = length (snd ad)"
    for ad :: "'a adjacency \<times> 'a list" and xs :: "'a pair_weights"
  proof (induction xs arbitrary: ad)
    case (Cons x xs)
    from Cons.IH [of "link_pair ops ad x"] show ?case
      by (auto simp: link_pair_def Let_def split: prod.splits)
  qed simp
  then show "length (fst (build_adjacency ops n pairw)) = n" "length (snd (build_adjacency ops n pairw)) = n"
    by (simp_all add: build_adjacency_def)
qed

lemma seed_labels_length [simp]: "length (seed_labels prior nodes m k) = length nodes"
  by (induction prior nodes m k rule: seed_labels.induct) (auto split: option.split)

lemma cluster_labels_ok:
  assumes "cluster_labels ops cfg nodes pairw prior = Some r"
  shows "\<exists>label. r = Inr label \<and> length label = length nodes"
proof -
  obtain adj deg where ad: "build_adjacency ops (length nodes) pairw = (adj, deg)" by force
  with build_adjacency_length [of ops "length nodes" pairw]
  have len: "length adj = length nodes" "length deg = length nodes" by simp_all
  show ?thesis
    using assms len local_move_ok [of ops adj deg _ _ _ r] louvain_full_ok [of ops adj deg _ _ _ r]
    by (auto simp: cluster_labels_def ad Let_def split: if_splits cluster_strategy.splits)
qed

section \<open>Community ids are distinct\<close>

lemma skip_used_runs:
  "skip_used fuel used c \<in> set used \<Longrightarrow> k \<le> fuel \<Longrightarrow> c + of_nat k \<in> set used"
proof (induction fuel used c arbitrary: k rule: skip_used.induct)
  case (1 used c)
  then show ?case by simp
next
  case (2 fuel used c)
  then have c: "c \<in> set used" and rest: "skip_used fuel used (c + 1) \<in> set used"
    by (auto split: if_splits)
  show ?case
  proof (cases k)
    case 0
    with c show ?thesis by simp
  next
    case (Suc j)
    with "2.prems"(2) have "c + 1 + of_nat j \<in> set used" by (intro "2.IH" [OF c rest]) simp
    with Suc show ?thesis by (simp add: add.assoc)
  qed
qed

text \<open>The counter finds an unused id as long as the used ones do not fill \<^verbatim>\<open>u64\<close>.\<close>

lemma skip_used_fresh:
  assumes "length used < 2 ^ 64"
  shows "skip_used (length used) used c \<notin> set used"
proof
  assume "skip_used (length used) used c \<in> set used"
  then have sub: "(\<lambda>k. c + of_nat k) ` {..length used} \<subseteq> set used"
    using skip_used_runs by auto
  have "inj_on (\<lambda>k. c + (of_nat k :: u64)) {..length used}"
  proof (rule inj_onI)
    fix i j assume ij: "i \<in> {..length used}" "j \<in> {..length used}" "c + (of_nat i :: u64) = c + of_nat j"
    then have "unat (of_nat i :: u64) = unat (of_nat j :: u64)" by simp
    moreover have "i < 2 ^ LENGTH(64)" "j < 2 ^ LENGTH(64)" using ij assms by auto
    ultimately show "i = j" by (metis of_nat_inverse)
  qed
  then have "Suc (length used) = card ((\<lambda>k. c + (of_nat k :: u64)) ` {..length used})"
    by (simp add: card_image)
  also have "\<dots> \<le> card (set used)" by (rule card_mono [OF _ sub]) simp
  also have "\<dots> \<le> length used" by (rule card_length)
  finally show False by simp
qed

definition slots_ok :: "community_id option list \<Rightarrow> bool" where
  "slots_ok slots \<longleftrightarrow> distinct (List.map_filter id slots)"

lemma slots_ok_simps [simp]:
  "slots_ok []" "slots_ok (None # slots) = slots_ok slots"
  "slots_ok (Some c # slots) \<longleftrightarrow> Some c \<notin> set slots \<and> slots_ok slots"
  by (auto simp: slots_ok_def List.map_filter_def image_iff split: option.splits)

lemma fill_fresh_spec:
  assumes "slots_ok slots" "\<And>c. Some c \<in> set slots \<Longrightarrow> c \<in> set used"
    and "length used + length slots < 2 ^ 64"
  shows "distinct (fill_fresh used counter slots)
    \<and> length (fill_fresh used counter slots) = length slots
    \<and> (\<forall>i < length slots. case slots ! i of
          Some c \<Rightarrow> fill_fresh used counter slots ! i = c
        | None \<Rightarrow> fill_fresh used counter slots ! i \<notin> set used)
    \<and> (\<forall>c \<in> set (fill_fresh used counter slots). Some c \<in> set slots \<or> c \<notin> set used)"
  using assms
proof (induction used counter slots rule: fill_fresh.induct)
  case (1 used counter)
  then show ?case by simp
next
  case (2 used counter cid slots)
  then have IH: "distinct (fill_fresh used counter slots)"
    "length (fill_fresh used counter slots) = length slots"
    "\<forall>i < length slots. case slots ! i of
          Some c \<Rightarrow> fill_fresh used counter slots ! i = c
        | None \<Rightarrow> fill_fresh used counter slots ! i \<notin> set used"
    "\<forall>c \<in> set (fill_fresh used counter slots). Some c \<in> set slots \<or> c \<notin> set used"
    by simp_all
  with "2.prems"(1,2) show ?case by (auto simp: nth_Cons split: nat.split option.splits)
next
  case (3 used counter slots)
  let ?c = "skip_used (length used) used counter"
  have fresh: "?c \<notin> set used" using "3.prems"(3) by (intro skip_used_fresh) simp
  have IH: "distinct (fill_fresh (?c # used) ?c slots)"
    "length (fill_fresh (?c # used) ?c slots) = length slots"
    "\<forall>i < length slots. case slots ! i of
          Some c \<Rightarrow> fill_fresh (?c # used) ?c slots ! i = c
        | None \<Rightarrow> fill_fresh (?c # used) ?c slots ! i \<notin> set (?c # used)"
    "\<forall>c \<in> set (fill_fresh (?c # used) ?c slots). Some c \<in> set slots \<or> c \<notin> set (?c # used)"
    using "3.IH" [OF refl] "3.prems" by auto
  have "?c \<notin> set (fill_fresh (?c # used) ?c slots)"
    using IH(4) fresh "3.prems"(2) by fastforce
  with IH fresh show ?case
    by (auto simp: Let_def nth_Cons split: nat.split option.splits)
qed

lemma pick_prior_notin:
  assumes "pick_prior m taken = Some cid"
  shows "cid \<notin> set taken \<and> cid \<in> fst ` set m"
proof -
  let ?f = "\<lambda>best (cid, c). if cid \<in> set taken then best
      else (case best of None \<Rightarrow> Some (cid, c)
            | Some (b, bc) \<Rightarrow> if bc < c \<or> bc = c \<and> cid \<le> b then Some (cid, c) else best)"
  have gen: "foldl ?f best xs = Some (cid, c) \<Longrightarrow> best = Some (cid, c) \<or> cid \<notin> set taken \<and> cid \<in> fst ` set xs"
    for best xs cid c
  proof (induction xs arbitrary: best)
    case (Cons x xs)
    obtain k v where x: "x = (k, v)" by force
    from Cons.prems have "foldl ?f (?f best (k, v)) xs = Some (cid, c)" by (simp add: x)
    from Cons.IH [OF this] show ?case by (auto simp: x split: if_splits option.splits)
  qed simp
  from assms show ?thesis
    using gen [of None m] by (auto simp: pick_prior_def split: option.splits if_splits)
qed

lemma slots_ok_update:
  assumes "slots_ok slots" "Some c \<notin> set slots"
  shows "slots_ok (slots[g := Some c])"
  using assms
proof (induction slots arbitrary: g)
  case (Cons s slots)
  then show ?case
    by (cases g; cases s) (auto dest: set_update_subset_insert [THEN subsetD])
qed simp

lemma claim_ids_inv:
  "claim_ids overlaps gs (assigned, taken) = (assigned', taken') \<Longrightarrow> slots_ok assigned \<Longrightarrow>
     (\<forall>c. Some c \<in> set assigned \<longrightarrow> c \<in> set taken) \<Longrightarrow>
     slots_ok assigned' \<and> (\<forall>c. Some c \<in> set assigned' \<longrightarrow> c \<in> set taken')
     \<and> length assigned' = length assigned \<and> length taken' \<le> length taken + length gs"
proof (induction gs arbitrary: assigned taken)
  case (Cons g gs)
  show ?case
  proof (cases "pick_prior (overlaps ! g) taken")
    case None
    with Cons.IH [of assigned taken] Cons.prems show ?thesis by auto
  next
    case (Some c)
    have "Some c \<notin> set assigned" using pick_prior_notin [OF Some] Cons.prems(3) by blast
    moreover have "\<forall>c'. Some c' \<in> set (assigned[g := Some c]) \<longrightarrow> c' \<in> set (c # taken)"
      using Cons.prems(3) by (auto dest: set_update_subset_insert [THEN subsetD])
    ultimately show ?thesis
      using Cons.IH [of "assigned[g := Some c]" "c # taken"] Cons.prems(1,2) Some slots_ok_update
      by auto
  qed
qed simp

lemma claim_order_perm [simp]: "set (claim_order overlaps groups) = {0..<length groups}"
  "length (claim_order overlaps groups) = length groups" "distinct (claim_order overlaps groups)"
  by (simp_all add: claim_order_def)

lemma assign_ids_spec:
  assumes "2 * length groups < 2 ^ 64"
  shows "distinct (assign_ids prior_of groups) \<and> length (assign_ids prior_of groups) = length groups"
proof -
  let ?ov = "map (group_overlap prior_of) groups"
  obtain a t where at: "claim_ids ?ov (claim_order ?ov groups) (replicate (length groups) None, []) = (a, t)"
    by force
  have rep: "slots_ok (replicate n None)" for n by (induction n) auto
  from claim_ids_inv [OF at rep] have
    a: "slots_ok a" "\<And>c. Some c \<in> set a \<Longrightarrow> c \<in> set t" "length a = length groups"
      "length t \<le> length groups" by auto
  from fill_fresh_spec [OF a(1,2)] a(3,4) assms show ?thesis
    by (simp add: assign_ids_def Let_def at)
qed

section \<open>The groups partition the nodes\<close>

definition positions :: "nat list \<Rightarrow> nat \<Rightarrow> nat list" where
  "positions label l = map snd (filter (\<lambda>(l', i). l' = l) (zip label [0..<length label]))"

lemma set_positions: "set (positions label l) = {i. i < length label \<and> label ! i = l}"
proof -
  have "i \<in> set (positions label l) \<longleftrightarrow> (l, i) \<in> set (zip label [0..<length label])" for i
    by (force simp: positions_def image_iff)
  moreover have "(l, i) \<in> set (zip label [0..<length label]) \<longleftrightarrow> i < length label \<and> label ! i = l" for i
    unfolding in_set_zip by (auto intro: exI [of _ i])
  ultimately show ?thesis by blast
qed

lemma distinct_positions: "distinct (positions label l)"
proof -
  have "distinct (map snd (zip label [0..<length label]))" by simp
  then show ?thesis unfolding positions_def by (rule distinct_map_filter)
qed

lemma label_groups_mset:
  "\<exists>keys. distinct keys \<and> set keys = set label
     \<and> mset (label_groups label) = mset (map (\<lambda>l. sort (positions label l)) keys)"
proof -
  let ?z = "zip label [0..<length label]"
  let ?m = "foldl (\<lambda>m (l, i). bt_push l i m) bt_empty ?z"
  have ok: "bt_ok ?m" by (rule ok_foldl_push) simp
  have get: "bt_get_list ?m l = positions label l" for l
    by (simp add: get_list_foldl_push positions_def)
  have "fst ` set ?z = set label" by (metis length_upt minus_nat.diff_0 list.set_map map_fst_zip)
  then have keys: "bt_get ?m l = None \<longleftrightarrow> l \<notin> set label" for l
    by (simp add: get_foldl_push_None)
  have vals: "snd kv = positions label (fst kv)" if "kv \<in> set ?m" for kv
    using that get [of "fst kv"] bt_in_set_iff [OF ok, of "fst kv" "snd kv"] by (simp add: bt_get_list_def)
  have "set (map fst ?m) = set label"
    using keys bt_in_set_iff [OF ok] by (force simp: image_iff)
  moreover have "bt_values ?m = map (positions label) (map fst ?m)"
    using vals by (simp add: bt_values_def)
  ultimately show ?thesis
    using bt_ok_distinct [OF ok] by (intro exI [of _ "map fst ?m"]) (simp add: label_groups_def o_def)
qed

lemma label_groups_spec:
  shows "distinct (label_groups label)"
    and "g \<in> set (label_groups label) \<Longrightarrow> distinct g \<and> sorted g"
    and "g \<in> set (label_groups label) \<Longrightarrow>
           \<exists>l \<in> set label. set g = {i. i < length label \<and> label ! i = l}"
    and "l \<in> set label \<Longrightarrow>
           \<exists>g \<in> set (label_groups label). set g = {i. i < length label \<and> label ! i = l}"
    and "length (label_groups label) \<le> length label"
proof -
  obtain keys where k: "distinct keys" "set keys = set label"
    and m: "mset (label_groups label) = mset (map (\<lambda>l. sort (positions label l)) keys)"
    using label_groups_mset by blast
  from m have st: "set (label_groups label) = (\<lambda>l. sort (positions label l)) ` set label"
    by (metis k(2) list.set_map set_mset_mset)
  have "inj_on (\<lambda>l. sort (positions label l)) (set keys)"
  proof (rule inj_onI)
    fix l l' assume l: "l \<in> set keys" and eq: "sort (positions label l) = sort (positions label l')"
    from eq have "set (positions label l) = set (positions label l')" by (metis set_sort)
    moreover from l k(2) obtain i where "i < length label" "label ! i = l" by (auto simp: in_set_conv_nth)
    ultimately show "l = l'" by (auto simp: set_positions)
  qed
  with k(1) have "distinct (map (\<lambda>l. sort (positions label l)) keys)" by (simp add: distinct_map)
  then show "distinct (label_groups label)" using m by (metis mset_eq_imp_distinct_iff)
  show "distinct g \<and> sorted g" if "g \<in> set (label_groups label)" using that by (auto simp: st distinct_positions)
  show "\<exists>l \<in> set label. set g = {i. i < length label \<and> label ! i = l}"
    if "g \<in> set (label_groups label)" using that by (auto simp: st set_positions)
  show "\<exists>g \<in> set (label_groups label). set g = {i. i < length label \<and> label ! i = l}"
    if "l \<in> set label" using that by (auto simp: st set_positions)
  have "length (label_groups label) = length keys" using m by (metis length_map size_mset)
  also have "\<dots> \<le> length label" using k by (metis card_length distinct_card)
  finally show "length (label_groups label) \<le> length label" .
qed

lemma group_unique:
  assumes "k < length (label_groups label)" "k' < length (label_groups label)"
    and "i \<in> set (label_groups label ! k)" "i \<in> set (label_groups label ! k')"
  shows "k = k'"
proof -
  have g: "label_groups label ! k \<in> set (label_groups label)"
    "label_groups label ! k' \<in> set (label_groups label)" using assms(1,2) by simp_all
  have "set (label_groups label ! k) = set (label_groups label ! k')"
  proof -
    from label_groups_spec(3) [OF g(1)] obtain l where
      l: "set (label_groups label ! k) = {i. i < length label \<and> label ! i = l}" by blast
    from label_groups_spec(3) [OF g(2)] obtain l' where
      l': "set (label_groups label ! k') = {i. i < length label \<and> label ! i = l'}" by blast
    from assms(3,4) have "l = l'" by (simp add: l l')
    then show ?thesis by (simp add: l l')
  qed
  then have "label_groups label ! k = label_groups label ! k'"
    using label_groups_spec(2) [OF g(1)] label_groups_spec(2) [OF g(2)]
    by (metis sorted_distinct_set_unique)
  with label_groups_spec(1) [of label] assms(1,2) show ?thesis by (simp add: nth_eq_iff_index_eq)
qed

section \<open>The materialised partition\<close>

lemma insert_all_get:
  "bt_get (foldl (\<lambda>m i. bt_insert (f i) c m) m g) k = (if k \<in> f ` set g then Some c else bt_get m k)"
  by (induction g arbitrary: m) (auto simp: bt_get_insert)

lemma add_community_simps:
  "bt_get (node_community (add_community nodes prior q (c, g, h))) k =
     (if k \<in> (\<lambda>i. n_id (nodes ! i)) ` set g then Some c else bt_get (node_community q) k)"
  "bt_get (communities (add_community nodes prior q (c, g, h))) c' =
     (if c' = c then Some \<lparr>cm_id = c, cm_label = community_label prior c, cm_size = length g,
                           cm_cohesion_permille = h\<rparr>
      else bt_get (communities q) c')"
  by (simp_all add: add_community_def insert_all_get bt_get_insert)

lemma add_communities_node:
  assumes "(c, g, h) \<in> set es" "k \<in> (\<lambda>i. n_id (nodes ! i)) ` set g"
    and "\<And>c' g' h'. (c', g', h') \<in> set es \<Longrightarrow> k \<in> (\<lambda>i. n_id (nodes ! i)) ` set g' \<Longrightarrow> c' = c"
  shows "bt_get (node_community (foldl (add_community nodes prior) p es)) k = Some c"
  using assms
proof (induction es rule: rev_induct)
  case (snoc e es)
  obtain c' g' h' where e: "e = (c', g', h')" by (metis prod_cases3)
  show ?case
  proof (cases "k \<in> (\<lambda>i. n_id (nodes ! i)) ` set g'")
    case True
    with snoc.prems(3) [of c' g' h'] show ?thesis by (simp add: e add_community_simps)
  next
    case False
    with snoc.prems(1,2) e have in_es: "(c, g, h) \<in> set es" by fastforce
    have "bt_get (node_community (foldl (add_community nodes prior) p es)) k = Some c"
    proof (rule snoc.IH [OF in_es snoc.prems(2)])
      fix c'' g'' h'' assume "(c'', g'', h'') \<in> set es" "k \<in> (\<lambda>i. n_id (nodes ! i)) ` set g''"
      then show "c'' = c" using snoc.prems(3) [of c'' g'' h''] by simp
    qed
    with False show ?thesis by (simp add: e add_community_simps)
  qed
qed simp

lemma add_communities_meta:
  assumes "(c, g, h) \<in> set es" "distinct (map fst es)"
  shows "\<exists>m. bt_get (communities (foldl (add_community nodes prior) p es)) c = Some m
     \<and> cm_id m = c \<and> cm_size m = length g"
  using assms
proof (induction es rule: rev_induct)
  case (snoc e es)
  obtain c' g' h' where e: "e = (c', g', h')" by (metis prod_cases3)
  show ?case
  proof (cases "c' = c")
    case True
    then have "g' = g" using snoc.prems by (force simp: e)
    with True show ?thesis by (simp add: e add_community_simps)
  next
    case False
    with snoc.prems have "(c, g, h) \<in> set es" "distinct (map fst es)" by (auto simp: e)
    from snoc.IH [OF this] False show ?thesis by (simp add: e add_community_simps)
  qed
qed simp

lemma cohesion_length [simp]: "length (cohesion_permille ops pairw groups n) = length groups"
  by (simp add: cohesion_permille_def split: prod.split)

text \<open>In the stabilised partition each node of a group carries the group's id, and the group's
  metadata its size.\<close>

lemma stabilize_groups:
  fixes prior :: partition
  assumes ids: "distinct (map n_id nodes)" and lab: "length label = length nodes"
    and small: "2 * length nodes < 2 ^ 64"
    and coh: "length coh = length (label_groups label)"
    and gk: "k < length (label_groups label)" and i: "i \<in> set (label_groups label ! k)"
  defines "prior_of \<equiv> \<lambda>i. bt_get (node_community prior) (n_id (nodes ! i))"
  defines "c \<equiv> assign_ids prior_of (label_groups label) ! k"
  shows "bt_get (node_community (stabilize nodes (label_groups label) prior coh)) (n_id (nodes ! i)) = Some c"
    and "\<exists>m. bt_get (communities (stabilize nodes (label_groups label) prior coh)) c = Some m
      \<and> cm_id m = c \<and> cm_size m = length (label_groups label ! k)"
proof -
  let ?gs = "label_groups label" and ?ids = "assign_ids prior_of (label_groups label)"
  let ?es = "zip ?ids (zip ?gs coh)"
  have "2 * length ?gs < 2 ^ 64" using label_groups_spec(5) [of label] lab small by linarith
  note A = assign_ids_spec [OF this, of prior_of]
  have st: "stabilize nodes ?gs prior coh = foldl (add_community nodes prior) partition_default ?es"
    by (simp add: stabilize_def prior_of_def)
  have e: "(c, ?gs ! k, coh ! k) \<in> set ?es" using gk A coh by (auto simp: set_zip c_def)
  have range: "j < length nodes" if "g \<in> set ?gs" "j \<in> set g" for g j
    using label_groups_spec(3) [OF that(1)] that(2) lab by auto
  have "c' = c" if e': "(c', g', h') \<in> set ?es"
    and j: "n_id (nodes ! i) \<in> (\<lambda>i. n_id (nodes ! i)) ` set g'" for c' g' h'
  proof -
    from e' obtain k' where k': "k' < length ?gs" "c' = ?ids ! k'" "g' = ?gs ! k'"
      by (auto simp: set_zip)
    from j obtain j where "j \<in> set g'" "n_id (nodes ! i) = n_id (nodes ! j)" by auto
    moreover have "i < length nodes" "j < length nodes"
      using range [of "?gs ! k" i] range [of g' j] gk i k' \<open>j \<in> set g'\<close> by simp_all
    ultimately have "i = j" using ids by (simp add: distinct_conv_nth) metis
    with group_unique [OF gk k'(1) i] \<open>j \<in> set g'\<close> k' show "c' = c" by (simp add: c_def)
  qed
  then show "bt_get (node_community (stabilize nodes ?gs prior coh)) (n_id (nodes ! i)) = Some c"
    unfolding st using i by (intro add_communities_node [OF e]) auto
  have "distinct (map fst ?es)" using A coh by (simp add: map_fst_zip)
  from add_communities_meta [OF e this] show "\<exists>m. bt_get (communities (stabilize nodes ?gs prior coh)) c = Some m
      \<and> cm_id m = c \<and> cm_size m = length (?gs ! k)"
    unfolding st .
qed

lemma cluster_with_Some:
  assumes "cluster_with ops cfg nodes edges prior = Some (Inr p)" "nodes \<noteq> []"
  defines "pairw \<equiv> pair_weights_of ops (cc_weighting cfg) nodes edges"
  obtains label where "cluster_labels ops cfg nodes pairw prior = Some (Inr label)"
    and "length label = length nodes"
    and "p = stabilize nodes (label_groups label) prior
      (cohesion_permille ops pairw (label_groups label) (length nodes))"
proof -
  from assms obtain label where l: "cluster_labels ops cfg nodes pairw prior = Some (Inr label)"
    and p: "p = stabilize nodes (label_groups label) prior
      (cohesion_permille ops pairw (label_groups label) (length nodes))"
    by (auto simp: cluster_with_def Let_def split: option.splits sum.splits)
  from cluster_labels_ok [OF l] have "length label = length nodes" by auto
  from that [OF l this p] show thesis .
qed

lemma in_own_group:
  assumes "i < length label"
  shows "\<exists>k < length (label_groups label). i \<in> set (label_groups label ! k)"
proof -
  from assms have "label ! i \<in> set label" by simp
  from label_groups_spec(4) [OF this] obtain g where "g \<in> set (label_groups label)" "i \<in> set g"
    using assms by auto
  then show ?thesis by (metis in_set_conv_nth)
qed

lemma same_group_iff:
  assumes "k < length (label_groups label)" "i \<in> set (label_groups label ! k)" "j < length label"
  shows "j \<in> set (label_groups label ! k) \<longleftrightarrow> label ! j = label ! i"
proof -
  from label_groups_spec(3) [OF nth_mem [OF assms(1)]] obtain l where
    "set (label_groups label ! k) = {i. i < length label \<and> label ! i = l}" by blast
  with assms(2,3) show ?thesis by auto
qed

section \<open>An unchanged grouping keeps its ids\<close>

lemma group_overlap_const:
  assumes "\<And>i. i \<in> set g \<Longrightarrow> prior_of i = Some cid" "g \<noteq> []"
  shows "group_overlap prior_of g = [(cid, length g)]"
proof -
  have gen: "foldl (\<lambda>m i. case prior_of i of None \<Rightarrow> m
      | Some cid \<Rightarrow> bt_insert cid ((case bt_get m cid of None \<Rightarrow> 0 | Some c \<Rightarrow> c) + 1) m) [(cid, k)] xs
      = [(cid, k + length xs)]" if "set xs \<subseteq> set g" for xs k
    using that assms(1) by (induction xs arbitrary: k) auto
  from assms(2) obtain i xs where g: "g = i # xs" by (cases g) auto
  with gen [of xs 1] assms(1) [of i] show ?thesis
    by (auto simp: group_overlap_def bt_empty_def)
qed

lemma claim_ids_stable:
  assumes "\<And>g. g \<in> set gs \<Longrightarrow> overlaps ! g = [(cid g, cnt g)] \<and> 0 < cnt g \<and> cid g \<notin> set taken"
    and "distinct gs" "inj_on cid (set gs)" "\<And>g. g \<in> set gs \<Longrightarrow> g < length assigned"
    and "claim_ids overlaps gs (assigned, taken) = (assigned', taken')"
  shows "\<forall>g < length assigned. assigned' ! g = (if g \<in> set gs then Some (cid g) else assigned ! g)"
  using assms
proof (induction gs arbitrary: assigned taken)
  case (Cons g gs)
  have pick: "pick_prior (overlaps ! g) taken = Some (cid g)"
    using Cons.prems(1) [of g] by (simp add: pick_prior_def)
  have "\<And>g'. g' \<in> set gs \<Longrightarrow> cid g' \<noteq> cid g"
    using Cons.prems(2,3) by (auto simp: inj_on_def)
  then have "\<forall>h < length (assigned[g := Some (cid g)]). assigned' ! h
      = (if h \<in> set gs then Some (cid h) else assigned[g := Some (cid g)] ! h)"
    using Cons.prems pick by (intro Cons.IH [of "cid g # taken"]) auto
  with Cons.prems(2,4) show ?case by (auto simp: nth_list_update)
qed simp

lemma assign_ids_stable:
  assumes small: "2 * length groups < 2 ^ 64"
    and prior: "\<And>k i. k < length groups \<Longrightarrow> i \<in> set (groups ! k) \<Longrightarrow> prior_of i = Some (cid k)"
    and ne: "\<And>k. k < length groups \<Longrightarrow> groups ! k \<noteq> []"
    and inj: "inj_on cid {..<length groups}" and k: "k < length groups"
  shows "assign_ids prior_of groups ! k = cid k"
proof -
  let ?ov = "map (group_overlap prior_of) groups"
  obtain a t where at: "claim_ids ?ov (claim_order ?ov groups) (replicate (length groups) None, []) = (a, t)"
    by force
  have "\<forall>g < length (replicate (length groups) (None :: community_id option)). a ! g
      = (if g \<in> set (claim_order ?ov groups) then Some (cid g) else replicate (length groups) None ! g)"
  proof (rule claim_ids_stable [OF _ _ _ _ at])
    show "?ov ! g = [(cid g, length (groups ! g))] \<and> 0 < length (groups ! g) \<and> cid g \<notin> set []"
      if "g \<in> set (claim_order ?ov groups)" for g
      using that group_overlap_const [of "groups ! g" prior_of "cid g"] prior ne by simp
    show "inj_on cid (set (claim_order ?ov groups))" using inj by (simp add: lessThan_atLeast0)
  qed simp_all
  then have ak: "a ! k = Some (cid k)" using k by simp
  have rep: "slots_ok (replicate n None)" for n by (induction n) auto
  from claim_ids_inv [OF at rep] have
    a: "slots_ok a" "\<And>c. Some c \<in> set a \<Longrightarrow> c \<in> set t" "length a = length groups"
      "length t \<le> length groups" by auto
  from fill_fresh_spec [OF a(1,2)] a(3,4) small have
    "\<forall>i < length a. case a ! i of Some c \<Rightarrow> fill_fresh t 0 a ! i = c | None \<Rightarrow> fill_fresh t 0 a ! i \<notin> set t"
    by simp
  with ak k a(3) show ?thesis by (auto simp: assign_ids_def Let_def at)
qed

section \<open>Properties\<close>

text \<open>The clustering bookkeeping never fails: whatever the floating-point operations return,
  a run of \<^verbatim>\<open>cluster_with\<close> that ends (the local-moving loop stops) returns a partition and never the
  "clustering invariant violated" error, for both strategies.\<close>

theorem cluster_with_no_error:
  "cluster_with ops cfg nodes edges prior = Some r \<Longrightarrow> \<exists>p. r = Inr p"
  by (auto simp: cluster_with_def Let_def dest!: cluster_labels_ok
      split: if_splits option.splits sum.splits)

text \<open>A concrete arithmetic and graph for the examples: exact rationals, two linked pairs of nodes,
  the first of which was a community before.\<close>

definition rat_ops :: "rat fops" where
  "rat_ops =
     \<lparr>f_zero = 0, f_one = 1, f_half = 1 / 2, f_quarter = 1 / 4, f_eps = 1 / 1000000000000,
      f_add = (+), f_sub = (-), f_mul = (*), f_div = (/), f_max = max, f_less = (<), f_le = (\<le>),
      f_permille = (\<lambda>x. of_int (floor (x * 1000)))\<rparr>"

definition example_nodes :: "node list" where
  "example_nodes = map (\<lambda>i. node_new i i ''function'') [''a'', ''b'', ''c'', ''d'']"

definition example_edges :: "edge list" where
  "example_edges =
     map (\<lambda>(u, v). \<lparr>e_source = NodeId u, e_relation = ''calls'', e_confidence = Extracted,
                      e_target = Node (NodeId v)\<rparr>) [(''a'', ''b''), (''c'', ''d'')]"

definition example_prior :: "u64 \<Rightarrow> partition" where
  "example_prior c =
     \<lparr>node_community = bt_collect [(NodeId ''a'', 7), (NodeId ''b'', 7), (NodeId ''c'', c),
        (NodeId ''d'', c)],
      communities = bt_empty\<rparr>"

definition example_partition :: "u64 \<Rightarrow> partition" where
  "example_partition c =
     (case cluster rat_ops example_nodes example_edges (example_prior c) of
        Some (Inr p) \<Rightarrow> p | _ \<Rightarrow> partition_default)"

lemma example_cluster:
  "cluster_with rat_ops (config_default rat_ops) example_nodes example_edges (example_prior 9)
     = Some (Inr (example_partition 9))"
proof -
  have "(case cluster rat_ops example_nodes example_edges (example_prior 9) of
      Some (Inr p) \<Rightarrow> True | _ \<Rightarrow> False)" by code_simp
  then show ?thesis
    by (auto simp: example_partition_def cluster_def split: option.splits sum.splits)
qed

theorem cluster_with_no_error_witness:
  "\<exists>p. (Inr (example_partition 9) :: error + partition) = Inr p"
  by (rule cluster_with_no_error [OF example_cluster])

text \<open>The partition is total and its metadata consistent: every node of the clustered graph is in
  a community that has an entry under its own id, and the recorded size is the number of nodes in
  it. Two nodes share a community exactly when the modularity pass gave them one label.\<close>

theorem cluster_partition_total:
  assumes p: "cluster_with ops cfg nodes edges prior = Some (Inr p)"
    and ids: "distinct (map n_id nodes)" and small: "2 * length nodes < 2 ^ 64"
    and n: "n \<in> set nodes"
  shows "\<exists>c m. bt_get (node_community p) (n_id n) = Some c \<and> bt_get (communities p) c = Some m
     \<and> cm_id m = c
     \<and> cm_size m = length (filter (\<lambda>n'. bt_get (node_community p) (n_id n') = Some c) nodes)"
proof -
  from n have "nodes \<noteq> []" by auto
  from cluster_with_Some [OF p this] obtain label coh where
    lab: "length label = length nodes" and ps: "p = stabilize nodes (label_groups label) prior coh"
    and coh: "length coh = length (label_groups label)" by (metis cohesion_length)
  let ?ids = "assign_ids (\<lambda>i. bt_get (node_community prior) (n_id (nodes ! i))) (label_groups label)"
  note S = stabilize_groups [OF ids lab small coh, of _ _ prior, folded ps]
  from n obtain i where i: "i < length nodes" "n = nodes ! i" by (metis in_set_conv_nth)
  with in_own_group [of i label] lab obtain k where
    k: "k < length (label_groups label)" "i \<in> set (label_groups label ! k)" by auto
  from S(2) [OF k] obtain m where m: "bt_get (communities p) (?ids ! k) = Some m"
    "cm_id m = ?ids ! k" "cm_size m = length (label_groups label ! k)" by blast
  have "2 * length (label_groups label) < 2 ^ 64" using label_groups_spec(5) [of label] lab small by linarith
  note A = assign_ids_spec [OF this, of "\<lambda>i. bt_get (node_community prior) (n_id (nodes ! i))"]
  have members: "bt_get (node_community p) (n_id (nodes ! j)) = Some (?ids ! k)
      \<longleftrightarrow> j \<in> set (label_groups label ! k)" if j: "j < length nodes" for j
  proof -
    from j in_own_group [of j label] lab obtain k' where
      k': "k' < length (label_groups label)" "j \<in> set (label_groups label ! k')" by auto
    from S(1) [OF k'] have "bt_get (node_community p) (n_id (nodes ! j)) = Some (?ids ! k) \<longleftrightarrow> k' = k"
      using A k k' by (auto simp: nth_eq_iff_index_eq)
    also have "\<dots> \<longleftrightarrow> j \<in> set (label_groups label ! k)" using group_unique [OF k'(1) k(1) k'(2)] k'(2) by auto
    finally show ?thesis .
  qed
  have sub: "set (label_groups label ! k) \<subseteq> {..<length nodes}"
    using label_groups_spec(3) [OF nth_mem [OF k(1)]] lab by auto
  have "length (filter (\<lambda>n'. bt_get (node_community p) (n_id n') = Some (?ids ! k)) nodes)
      = card {j. j < length nodes \<and> j \<in> set (label_groups label ! k)}"
    unfolding length_filter_conv_card using members by (metis (lifting))
  also have "{j. j < length nodes \<and> j \<in> set (label_groups label ! k)} = set (label_groups label ! k)"
    using sub by auto
  also have "card \<dots> = length (label_groups label ! k)"
    using label_groups_spec(2) [OF nth_mem [OF k(1)]] by (simp add: distinct_card)
  finally show ?thesis using S(1) [OF k] m i by auto
qed

lemma example_ids: "distinct (map n_id example_nodes)" "2 * length example_nodes < 2 ^ 64"
  by (simp_all add: example_nodes_def node_new_def)

theorem cluster_partition_total_witness:
  "\<exists>c m. bt_get (node_community (example_partition 9)) (NodeId ''a'') = Some c
     \<and> bt_get (communities (example_partition 9)) c = Some m \<and> cm_id m = c"
proof -
  have "node_new ''a'' ''a'' ''function'' \<in> set example_nodes" by (simp add: example_nodes_def)
  from cluster_partition_total [OF example_cluster example_ids this] show ?thesis
    by (auto simp: node_new_def)
qed

text \<open>C36. Community ids are stable: when the modularity pass separates the nodes exactly as the prior
  partition did (every node had a community, and two nodes get one label iff they shared one),
  every node keeps its community id.\<close>

theorem cluster_ids_stable:
  assumes p: "cluster_with ops cfg nodes edges prior = Some (Inr p)"
    and lab: "cluster_labels ops cfg nodes (pair_weights_of ops (cc_weighting cfg) nodes edges) prior
      = Some (Inr label)"
    and ids: "distinct (map n_id nodes)" and small: "2 * length nodes < 2 ^ 64"
    and prior: "\<And>n. n \<in> set nodes \<Longrightarrow> bt_get (node_community prior) (n_id n) \<noteq> None"
    and same: "\<And>i j. i < length nodes \<Longrightarrow> j < length nodes \<Longrightarrow> label ! i = label ! j \<longleftrightarrow>
      bt_get (node_community prior) (n_id (nodes ! i)) = bt_get (node_community prior) (n_id (nodes ! j))"
    and n: "n \<in> set nodes"
  shows "bt_get (node_community p) (n_id n) = bt_get (node_community prior) (n_id n)"
proof -
  define prior_of where "prior_of = (\<lambda>i. bt_get (node_community prior) (n_id (nodes ! i)))"
  let ?gs = "label_groups label"
  define cid where "cid = (\<lambda>k. the (prior_of (hd (?gs ! k))))"
  from n have "nodes \<noteq> []" by auto
  from cluster_with_Some [OF p this] lab obtain coh where len: "length label = length nodes"
    and ps: "p = stabilize nodes ?gs prior coh" and coh: "length coh = length ?gs"
    by (metis cohesion_length option.inject sum.inject(2))
  have ne: "?gs ! k \<noteq> []" if "k < length ?gs" for k
  proof -
    from label_groups_spec(3) [OF nth_mem [OF that]] obtain l where
      l: "l \<in> set label" "set (?gs ! k) = {i. i < length label \<and> label ! i = l}" by blast
    from l(1) obtain i where "i < length label" "label ! i = l" by (metis in_set_conv_nth)
    with l(2) have "i \<in> set (?gs ! k)" by simp
    then show ?thesis by auto
  qed
  have range: "i < length nodes" if "k < length ?gs" "i \<in> set (?gs ! k)" for k i
    using label_groups_spec(3) [OF nth_mem [OF that(1)]] that(2) len by auto
  have all: "prior_of i = Some (cid k)" if k: "k < length ?gs" "i \<in> set (?gs ! k)" for k i
  proof -
    have h: "hd (?gs ! k) \<in> set (?gs ! k)" using ne [OF k(1)] by simp
    have "label ! i = label ! hd (?gs ! k)"
      using same_group_iff [OF k(1) h] k(2) range [OF k] len by simp
    with same [OF range [OF k] range [OF k(1) h]] have "prior_of i = prior_of (hd (?gs ! k))"
      by (simp add: prior_of_def)
    with prior [OF nth_mem [OF range [OF k]]] show ?thesis by (auto simp: cid_def prior_of_def)
  qed
  have inj: "inj_on cid {..<length ?gs}"
  proof (rule inj_onI)
    fix k k' assume k: "k \<in> {..<length ?gs}" "k' \<in> {..<length ?gs}" "cid k = cid k'"
    then have h: "hd (?gs ! k) \<in> set (?gs ! k)" "hd (?gs ! k') \<in> set (?gs ! k')" using ne by auto
    from k(1,2) have lt: "k < length ?gs" "k' < length ?gs" by simp_all
    have r: "hd (?gs ! k) < length nodes" "hd (?gs ! k') < length nodes"
      using range [OF lt(1) h(1)] range [OF lt(2) h(2)] by simp_all
    have "prior_of (hd (?gs ! k)) = prior_of (hd (?gs ! k'))"
      using all [OF lt(1) h(1)] all [OF lt(2) h(2)] k(3) by simp
    with same [OF r] have "label ! hd (?gs ! k') = label ! hd (?gs ! k)" by (simp add: prior_of_def)
    with same_group_iff [OF lt(1) h(1), of "hd (?gs ! k')"] r(2) len
    have "hd (?gs ! k') \<in> set (?gs ! k)" by simp
    with group_unique [OF _ _ _ h(2)] k show "k = k'" by simp
  qed
  from n obtain i where i: "i < length nodes" "n = nodes ! i" by (metis in_set_conv_nth)
  with in_own_group [of i label] len obtain k where k: "k < length ?gs" "i \<in> set (?gs ! k)" by auto
  have "2 * length ?gs < 2 ^ 64" using label_groups_spec(5) [of label] len small by linarith
  from assign_ids_stable [OF this all ne inj k(1)]
  have "assign_ids prior_of ?gs ! k = cid k" by simp
  with stabilize_groups(1) [OF ids len small coh k, of prior] all [OF k] i show ?thesis
    by (simp add: ps prior_of_def)
qed

theorem cluster_ids_stable_witness:
  "bt_get (node_community (example_partition 9)) (NodeId ''c'') = Some 9"
proof -
  have lab: "cluster_labels rat_ops (config_default rat_ops) example_nodes
      (pair_weights_of rat_ops (cc_weighting (config_default rat_ops)) example_nodes example_edges)
      (example_prior 9) = Some (Inr [0, 0, 1, 1])" by code_simp
  have prior: "list_all (\<lambda>n. bt_get (node_community (example_prior 9)) (n_id n) \<noteq> None) example_nodes"
    by code_simp
  have same: "list_all (\<lambda>i. list_all (\<lambda>j. ([0, 0, 1, 1 :: nat] ! i = [0, 0, 1, 1] ! j) =
      (bt_get (node_community (example_prior 9)) (n_id (example_nodes ! i))
       = bt_get (node_community (example_prior 9)) (n_id (example_nodes ! j))))
      [0..<length example_nodes]) [0..<length example_nodes]" by code_simp
  have "node_new ''c'' ''c'' ''function'' \<in> set example_nodes" by (simp add: example_nodes_def)
  from cluster_ids_stable [OF example_cluster lab example_ids _ _ this] prior same
  have "bt_get (node_community (example_partition 9)) (NodeId ''c'')
      = bt_get (node_community (example_prior 9)) (NodeId ''c'')"
    by (simp add: list_all_iff node_new_def)
  also have "\<dots> = Some 9" by code_simp
  finally show ?thesis .
qed

end
