(* ===== verification/Query.thy ===== *)
theory Query
  imports Cluster Sort_By
begin

text \<open>
  The query engine of \<^verbatim>\<open>filigrio-query\<close>: the index a \<^verbatim>\<open>GraphView\<close> builds over a loaded state, the
  community labels, the budgeted traversal, neighbours, unresolved edges, degrees, shortest paths,
  statistics and the project map (\<^verbatim>\<open>lib.rs\<close>), and the trigram ranking of seeds
  (\<^verbatim>\<open>retrieval.rs\<close>). The third-party \<^verbatim>\<open>petgraph\<close> graph is the list of its \<open>add_edge\<close> calls; its
  iterators and \<open>astar\<close> are the parameter \<open>petgraph\<close>, what the code relies on is \<open>pg_ok\<close>.
\<close>

section \<open>Wire types of the port\<close>

datatype traversal_mode = Bfs | Dfs
datatype direction = Out | In | Both

record query_opts =
  q_depth :: nat
  q_budget :: nat
  q_mode :: traversal_mode
  q_filter :: "string list option"

definition query_opts_default :: query_opts where
  "query_opts_default = \<lparr>q_depth = 2, q_budget = 32, q_mode = Bfs, q_filter = None\<rparr>"

record subgraph =
  sg_nodes :: "node list"
  sg_edges :: "edge list"
  sg_communities :: "(node_id, string) btree"

record graph_stats =
  gs_nodes :: nat
  gs_edges :: nat
  gs_communities :: nat
  gs_by_confidence :: "(string, nat) btree"

record project_node =
  pn_root :: string
  pn_name :: "string option"
  pn_manifest :: string
  pn_files :: nat
  pn_depends_on :: "string list"

section \<open>The index\<close>

type_synonym link = "nat \<times> nat \<times> nat" \<comment> \<open>source index, target index, edge weight\<close>

record petgraph =
  pg_outgoing :: "link list \<Rightarrow> nat \<Rightarrow> link list"
  pg_incoming :: "link list \<Rightarrow> nat \<Rightarrow> link list"
  pg_astar :: "link list \<Rightarrow> nat \<Rightarrow> nat \<Rightarrow> (nat \<times> nat list) option"

record graph_view =
  v_state :: graph_state
  v_links :: "link list"
  v_idx :: "(node_id, nat) btree"
  v_labels :: "(community_id, string) btree"

definition index_of :: "node list \<Rightarrow> (node_id, nat) btree" where
  "index_of nodes = foldl (\<lambda>m (i, n). bt_insert (n_id n) i m) bt_empty (enumerate 0 nodes)"

definition link_of :: "(node_id, nat) btree \<Rightarrow> nat \<times> edge \<Rightarrow> link option" where
  "link_of idx = (\<lambda>(ei, e).
     case e_target e of
       Node target \<Rightarrow>
         (case (bt_get idx (e_source e), bt_get idx target) of
            (Some s, Some d) \<Rightarrow> Some (s, d, ei)
          | _ \<Rightarrow> None)
     | Symbol _ \<Rightarrow> None)"

definition links_of :: "(node_id, nat) btree \<Rightarrow> edge list \<Rightarrow> link list" where
  "links_of idx edges = List.map_filter (link_of idx) (enumerate 0 edges)"

section \<open>Community labels\<close>

definition bump :: "'k::linorder \<Rightarrow> ('k, nat) btree \<Rightarrow> ('k, nat) btree" where
  "bump k m = bt_insert k (case bt_get m k of None \<Rightarrow> 1 | Some c \<Rightarrow> c + 1) m"

definition count_endpoints :: "(node_id, nat) btree \<Rightarrow> edge \<Rightarrow> (node_id, nat) btree" where
  "count_endpoints m e =
     (if is_structural (e_relation e) then m
      else
        (let m = bump (e_source e) m
         in case e_target e of Node target \<Rightarrow> bump target m | Symbol _ \<Rightarrow> m))"

definition node_edges :: "edge list \<Rightarrow> (node_id, nat) btree" where
  "node_edges edges = foldl count_endpoints bt_empty edges"

definition better :: "nat \<times> string \<Rightarrow> nat \<times> string \<Rightarrow> bool" where
  "better c best \<longleftrightarrow> fst c > fst best \<or> (fst c = fst best \<and> snd c < snd best)"

definition best_step ::
  "graph_state \<Rightarrow> (node_id, nat) btree \<Rightarrow> (community_id, nat \<times> string) btree \<Rightarrow> node \<Rightarrow>
     (community_id, nat \<times> string) btree"
where
  "best_step st deg best n =
     (case bt_get (node_community (s_partition st)) (n_id n) of
        None \<Rightarrow> best
      | Some cid \<Rightarrow>
          (let c = (case bt_get deg (n_id n) of None \<Rightarrow> 0 | Some d \<Rightarrow> d, n_label n)
           in case bt_get best cid of
                None \<Rightarrow> bt_insert cid c best
              | Some b \<Rightarrow> if better c b then bt_insert cid c best else best))"

definition build_community_labels :: "graph_state \<Rightarrow> (community_id, string) btree" where
  "build_community_labels st =
     (if node_community (s_partition st) = bt_empty then bt_empty
      else
        (let deg = node_edges (g_edges (s_graph st));
             best = foldl (best_step st deg) bt_empty (g_nodes (s_graph st))
         in bt_map_values snd best))"

definition view_new :: "graph_state \<Rightarrow> graph_view" where
  "view_new st =
     (let idx = index_of (g_nodes (s_graph st))
      in \<lparr>v_state = st, v_links = links_of idx (g_edges (s_graph st)), v_idx = idx,
          v_labels = build_community_labels st\<rparr>)"

abbreviation v_nodes :: "graph_view \<Rightarrow> node list" where
  "v_nodes v \<equiv> g_nodes (s_graph (v_state v))"

abbreviation v_edges :: "graph_view \<Rightarrow> edge list" where
  "v_edges v \<equiv> g_edges (s_graph (v_state v))"

definition community_of :: "graph_view \<Rightarrow> node_id \<Rightarrow> string option" where
  "community_of v i =
     (case bt_get (node_community (s_partition (v_state v))) i of
        None \<Rightarrow> None
      | Some cid \<Rightarrow> bt_get (v_labels v) cid)"

definition stamp_community :: "graph_view \<Rightarrow> node \<Rightarrow> node" where
  "stamp_community v n =
     (case community_of v (n_id n) of
        None \<Rightarrow> n
      | Some c \<Rightarrow> n\<lparr>n_attrs := bt_insert ''community'' c (n_attrs n)\<rparr>)"

definition communities_of :: "graph_view \<Rightarrow> node list \<Rightarrow> (node_id, string) btree" where
  "communities_of v nodes =
     bt_collect (List.map_filter (\<lambda>n. map_option (Pair (n_id n)) (community_of v (n_id n))) nodes)"

definition node_at :: "graph_view \<Rightarrow> nat \<Rightarrow> node" where
  "node_at v ix = v_nodes v ! ix"

definition edge_at :: "graph_view \<Rightarrow> nat \<Rightarrow> edge" where
  "edge_at v ei = v_edges v ! ei"

definition node_with_community :: "graph_view \<Rightarrow> nat \<Rightarrow> node" where
  "node_with_community v ix = stamp_community v (node_at v ix)"

definition index_of_id :: "graph_view \<Rightarrow> string \<Rightarrow> nat option" where
  "index_of_id v i = bt_get (v_idx v) (NodeId i)"

definition node_by_id_indexed :: "graph_view \<Rightarrow> node_id \<Rightarrow> node option" where
  "node_by_id_indexed v i = map_option (node_at v) (bt_get (v_idx v) i)"

section \<open>Neighbours and degree\<close>

definition matches_relations :: "graph_view \<Rightarrow> string list \<Rightarrow> link \<Rightarrow> bool" where
  "matches_relations v relations l \<longleftrightarrow>
     relations = []
     \<or> list_ex (\<lambda>entry. relation_matches_filter entry (e_relation (edge_at v (snd (snd l))))) relations"

definition neighbors_at ::
  "petgraph \<Rightarrow> graph_view \<Rightarrow> nat \<Rightarrow> string list \<Rightarrow> direction \<Rightarrow> (edge \<times> node) list"
where
  "neighbors_at pg v ix relations direction =
     (if direction = Out \<or> direction = Both
      then map (\<lambda>(s, d, w). (edge_at v w, node_with_community v d))
             (filter (matches_relations v relations) (pg_outgoing pg (v_links v) ix))
      else [])
     @ (if direction = In \<or> direction = Both
        then map (\<lambda>(s, d, w). (edge_at v w, node_with_community v s))
               (filter (matches_relations v relations) (pg_incoming pg (v_links v) ix))
        else [])"

definition semantic_degree :: "petgraph \<Rightarrow> graph_view \<Rightarrow> nat \<Rightarrow> nat" where
  "semantic_degree pg v ix =
     length (filter (\<lambda>(s, d, w). \<not> is_structural (e_relation (edge_at v w)))
       (pg_outgoing pg (v_links v) ix @ pg_incoming pg (v_links v) ix))"

section \<open>Seed selection\<close>

text \<open>\<^verbatim>\<open>windows(3)\<close> collected into a \<^verbatim>\<open>BTreeSet\<close>.\<close>

fun windows3 :: "string \<Rightarrow> string list" where
  "windows3 (a # b # c # s) = [a, b, c] # windows3 (b # c # s)"
| "windows3 s = []"

definition trigrams :: "string \<Rightarrow> string list" where
  "trigrams s =
     (let chars = to_lowercase s
      in if length chars < 3 then (if chars \<noteq> [] then [chars] else [])
         else canon (windows3 chars))"

record 'f score_ops = "'f fops" +
  f_of_nat :: "nat \<Rightarrow> 'f"
  f_ln :: "'f \<Rightarrow> 'f"

definition doc_freq :: "string list list \<Rightarrow> (string, nat) btree" where
  "doc_freq grams = foldl (\<lambda>m g. bump g m) bt_empty (concat grams)"

definition idf :: "('f, 'b) score_ops_scheme \<Rightarrow> nat \<Rightarrow> (string, nat) btree \<Rightarrow> string \<Rightarrow> 'f" where
  "idf ops n df t =
     (let d = f_of_nat ops (case bt_get df t of None \<Rightarrow> 0 | Some c \<Rightarrow> c)
      in f_add ops
           (f_ln ops (f_div ops (f_add ops (f_of_nat ops n) (f_one ops)) (f_add ops d (f_one ops))))
           (f_one ops))"

text \<open>\<^verbatim>\<open>partial_cmp(..).unwrap_or(Equal)\<close>: incomparable scores are equal.\<close>

definition f_cmp :: "('f, 'b) score_ops_scheme \<Rightarrow> 'f \<Rightarrow> 'f \<Rightarrow> ordering" where
  "f_cmp ops a b = (if f_less ops a b then Less else if f_less ops b a then Greater else Equal)"

definition score_of ::
  "('f, 'b) score_ops_scheme \<Rightarrow> nat \<Rightarrow> (string, nat) btree \<Rightarrow> string list \<Rightarrow> string list \<Rightarrow> 'f"
where
  "score_of ops n df q grams =
     foldl (f_add ops) (f_zero ops) (map (idf ops n df) (filter (\<lambda>t. t \<in> set grams) q))"

definition seed_scores ::
  "('f, 'b) score_ops_scheme \<Rightarrow> graph_view \<Rightarrow> string \<Rightarrow> (node \<times> 'f) list"
where
  "seed_scores ops v query =
     (let q = trigrams query
      in if q = [] then []
         else
           (let nodes = v_nodes v;
                node_grams = map (\<lambda>nd. trigrams (n_label nd)) nodes;
                df = doc_freq node_grams;
                scored = List.map_filter
                  (\<lambda>(nd, grams). let s = score_of ops (length nodes) df q grams
                                 in if f_less ops (f_zero ops) s then Some (nd, s) else None)
                  (zip nodes node_grams)
            in sort_by (\<lambda>a b. then_with (f_cmp ops (snd b) (snd a))
                                (cmp (n_label (fst a)) (n_label (fst b)))) scored))"

section \<open>The traversal\<close>

fun pop :: "traversal_mode \<Rightarrow> 'a list \<Rightarrow> ('a \<times> 'a list) option" where
  "pop mode [] = None"
| "pop Bfs (x # queue) = Some (x, queue)"
| "pop Dfs queue = Some (last queue, butlast queue)"

definition query_steps :: "petgraph \<Rightarrow> graph_view \<Rightarrow> string list option \<Rightarrow> nat \<Rightarrow> (nat \<times> edge) list"
where
  "query_steps pg v context_filter ix =
     List.map_filter
       (\<lambda>(s, d, w). let edge = edge_at v w
          in case context_filter of
               Some entries \<Rightarrow>
                 if \<not> list_ex (\<lambda>r. relation_matches_filter r (e_relation edge)) entries then None
                 else Some (d, edge)
             | None \<Rightarrow> Some (d, edge))
       (pg_outgoing pg (v_links v) ix)"

lemma pop_length: "pop mode queue = Some (x, queue') \<Longrightarrow> length queue = Suc (length queue')"
  by (cases "(mode, queue)" rule: pop.cases) auto

text \<open>The \<^verbatim>\<open>while let\<close> loop: each turn either shortens the queue or takes one unit of the budget.\<close>

function visit_loop ::
  "(nat \<Rightarrow> (nat \<times> 'e) list) \<Rightarrow> query_opts \<Rightarrow> nat list \<Rightarrow> (nat \<times> nat) list \<Rightarrow> 'e list \<Rightarrow>
     nat list \<times> 'e list"
where
  "visit_loop steps opts visited queue edges =
     (case pop (q_mode opts) queue of
        None \<Rightarrow> (visited, edges)
      | Some ((ix, depth), queue') \<Rightarrow>
          if ix \<in> set visited \<or> length visited \<ge> q_budget opts
          then visit_loop steps opts visited queue' edges
          else if depth \<ge> q_depth opts
          then visit_loop steps opts (visited @ [ix]) queue' edges
          else visit_loop steps opts (visited @ [ix])
                 (queue' @ map (\<lambda>(t, _). (t, depth + 1)) (steps ix))
                 (edges @ map snd (steps ix)))"
  by pat_completeness auto
termination
  by (relation "measures [\<lambda>(_, opts, visited, _, _). q_budget opts - length visited,
                          \<lambda>(_, _, _, queue, _). length queue]")
    (auto dest: pop_length)

declare visit_loop.simps [simp del]

definition query_seeds :: "('f, 'b) score_ops_scheme \<Rightarrow> graph_view \<Rightarrow> string \<Rightarrow> nat list" where
  "query_seeds ops v q = List.map_filter (\<lambda>(n, _). bt_get (v_idx v) (n_id n)) (seed_scores ops v q)"

definition query ::
  "('f, 'b) score_ops_scheme \<Rightarrow> petgraph \<Rightarrow> graph_view \<Rightarrow> string \<Rightarrow> query_opts \<Rightarrow> subgraph"
where
  "query ops pg v q opts =
     (let seeds = query_seeds ops v q;
          (visited, edges) =
            visit_loop (query_steps pg v (q_filter opts)) opts [] (map (\<lambda>s. (s, 0)) seeds) [];
          nodes = map (node_with_community v) visited
      in \<lparr>sg_nodes = nodes, sg_edges = edges, sg_communities = communities_of v nodes\<rparr>)"

section \<open>The other operations of the port\<close>

definition nodes_by_label :: "graph_view \<Rightarrow> string \<Rightarrow> node list" where
  "nodes_by_label v label = map (stamp_community v) (filter (\<lambda>n. n_label n = label) (v_nodes v))"

definition view_node_by_id :: "graph_view \<Rightarrow> string \<Rightarrow> node option" where
  "view_node_by_id v i = map_option (stamp_community v) (node_by_id_indexed v (NodeId i))"

definition neighbors_by_id ::
  "petgraph \<Rightarrow> graph_view \<Rightarrow> string \<Rightarrow> string list \<Rightarrow> direction \<Rightarrow> (edge \<times> node) list"
where
  "neighbors_by_id pg v i relations direction =
     (case bt_get (v_idx v) (NodeId i) of
        None \<Rightarrow> []
      | Some ix \<Rightarrow> neighbors_at pg v ix relations direction)"

definition unresolved_out_by_id :: "graph_view \<Rightarrow> string \<Rightarrow> edge list" where
  "unresolved_out_by_id v i =
     filter (\<lambda>e. e_source e = NodeId i \<and> (case e_target e of Symbol _ \<Rightarrow> True | Node _ \<Rightarrow> False))
       (v_edges v)"

definition unresolved_in_by_label :: "graph_view \<Rightarrow> string \<Rightarrow> (edge \<times> node) list" where
  "unresolved_in_by_label v label =
     List.map_filter
       (\<lambda>e. case e_target e of
              Symbol r \<Rightarrow>
                if t_name r = label
                then map_option (\<lambda>caller. (e, caller)) (node_by_id_indexed v (e_source e))
                else None
            | Node _ \<Rightarrow> None)
       (v_edges v)"

definition community :: "graph_view \<Rightarrow> community_id \<Rightarrow> node list" where
  "community v i =
     List.map_filter (\<lambda>(nid, _). map_option (stamp_community v) (node_by_id_indexed v nid))
       (filter (\<lambda>(_, c). c = i) (node_community (s_partition (v_state v))))"

definition view_community_meta :: "graph_view \<Rightarrow> community_id \<Rightarrow> community_meta option" where
  "view_community_meta v i = bt_get (communities (s_partition (v_state v))) i"

definition god_nodes :: "petgraph \<Rightarrow> graph_view \<Rightarrow> nat \<Rightarrow> (node \<times> nat) list" where
  "god_nodes pg v top_n =
     take top_n
       (sort_by (\<lambda>a b. then_with (cmp (snd b) (snd a)) (cmp (n_label (fst a)) (n_label (fst b))))
         (map (\<lambda>ix. (node_at v ix, semantic_degree pg v ix)) [0..<length (v_nodes v)]))"

definition shortest_path ::
  "petgraph \<Rightarrow> graph_view \<Rightarrow> string \<Rightarrow> string \<Rightarrow> nat \<Rightarrow> node list option"
where
  "shortest_path pg v from_id to_id max_hops =
     (case (index_of_id v from_id, index_of_id v to_id) of
        (Some s, Some d) \<Rightarrow>
          (case pg_astar pg (v_links v) s d of
             Some (cost, path) \<Rightarrow> if cost \<le> max_hops then Some (map (node_at v) path) else None
           | None \<Rightarrow> None)
      | _ \<Rightarrow> None)"

fun confidence_debug :: "confidence \<Rightarrow> string" where
  "confidence_debug Extracted = ''Extracted''"
| "confidence_debug Inferred = ''Inferred''"
| "confidence_debug Ambiguous = ''Ambiguous''"

definition stats :: "graph_view \<Rightarrow> graph_stats" where
  "stats v =
     \<lparr>gs_nodes = length (v_nodes v), gs_edges = length (v_edges v),
      gs_communities = length (communities (s_partition (v_state v))),
      gs_by_confidence =
        foldl (\<lambda>m e. bump (confidence_debug (e_confidence e)) m) bt_empty (v_edges v)\<rparr>"

definition file_counts :: "workspace \<Rightarrow> node list \<Rightarrow> (string, nat) btree" where
  "file_counts ws nodes =
     foldl
       (\<lambda>m n. if n_kind n = ''file''
              then (case Option.bind (n_file n) (root_of ws) of
                      Some r \<Rightarrow> bump r m
                    | None \<Rightarrow> m)
              else m)
       bt_empty nodes"

definition project_graph :: "graph_view \<Rightarrow> project_node list" where
  "project_graph v =
     (let ws = s_workspace (v_state v);
          deps = depends_on ws;
          files = file_counts ws (v_nodes v)
      in map (\<lambda>p. \<lparr>pn_root = p_root p, pn_name = p_name p, pn_manifest = p_manifest p,
                    pn_files = (case bt_get files (p_root p) of None \<Rightarrow> 0 | Some c \<Rightarrow> c),
                    pn_depends_on = (case bt_get deps (p_root p) of None \<Rightarrow> [] | Some s \<Rightarrow> s)\<rparr>)
           (bt_values ws))"

end
