(* ===== verification/Query_Walk.thy ===== *)
theory Query_Walk
  imports Query
begin

text \<open>
  What a traversal returns. The work list is an interface (\<open>work_list\<close>): taking an item removes
  that one item, whichever end it comes from. Under it the loop visits each index once, within the
  budget, and only what some seed reaches within the depth; taken from the front it visits exactly
  that when the budget suffices.
\<close>

section \<open>The work list\<close>

locale work_list =
  fixes take_item :: "'a list \<Rightarrow> ('a \<times> 'a list) option"
  assumes take_None: "take_item q = None \<longleftrightarrow> q = []"
    and take_Some: "take_item q = Some (x, q') \<Longrightarrow> mset q = add_mset x (mset q')"
begin

lemma take_set: "take_item q = Some (x, q') \<Longrightarrow> set q = insert x (set q')"
  using take_Some by (metis set_mset_add_mset_insert set_mset_mset)

lemma take_all:
  assumes "take_item q = Some (x, q')" "\<forall>y \<in> set q. P y"
  shows "P x" and "\<forall>y \<in> set q'. P y"
  using assms take_set by auto

end

lemma pop_mset:
  "pop mode q = Some (x, q') \<Longrightarrow> mset q = add_mset x (mset q')"
proof (cases "(mode, q)" rule: pop.cases)
  case (3 v va)
  assume "pop mode q = Some (x, q')"
  with 3 have "q = q' @ [x]" by (auto split: if_splits)
  then show ?thesis by simp
qed auto

lemma pop_None: "pop mode q = None \<longleftrightarrow> q = []"
  by (cases "(mode, q)" rule: pop.cases) auto

interpretation pop_list: work_list "pop mode"
  for mode
  by unfold_locales (auto simp: pop_None pop_mset)

section \<open>Hops\<close>

text \<open>What is reached from the seeds over at most \<open>k\<close> steps.\<close>

fun hops :: "(nat \<Rightarrow> nat list) \<Rightarrow> nat list \<Rightarrow> nat \<Rightarrow> nat set" where
  "hops adj seeds 0 = set seeds"
| "hops adj seeds (Suc k) = hops adj seeds k \<union> (\<Union>x \<in> hops adj seeds k. set (adj x))"

lemma hops_mono: "k \<le> l \<Longrightarrow> hops adj seeds k \<subseteq> hops adj seeds l"
  by (rule lift_Suc_mono_le) auto

lemma hops_step: "x \<in> hops adj seeds k \<Longrightarrow> y \<in> set (adj x) \<Longrightarrow> y \<in> hops adj seeds (Suc k)"
  by auto

lemma hops_closed:
  assumes "hops adj seeds k \<subseteq> V" "\<And>x. x \<in> V \<Longrightarrow> set (adj x) \<subseteq> V"
  shows "hops adj seeds (k + n) \<subseteq> V"
  using assms by (induction n) auto

lemma finite_hops [simp]: "finite (hops adj seeds k)"
  by (induction k) auto

abbreviation targets :: "(nat \<Rightarrow> (nat \<times> 'e) list) \<Rightarrow> nat \<Rightarrow> nat list" where
  "targets steps ix \<equiv> map fst (steps ix)"

section \<open>Soundness, for both modes\<close>

lemma visit_loop_distinct:
  assumes "distinct visited" "length visited \<le> q_budget opts"
  shows "distinct (fst (visit_loop steps opts visited queue edges))
     \<and> length (fst (visit_loop steps opts visited queue edges)) \<le> q_budget opts"
  using assms
proof (induction steps opts visited queue edges rule: visit_loop.induct)
  case (1 steps opts visited queue edges)
  show ?case
  proof (cases "pop (q_mode opts) queue")
    case None
    then show ?thesis using 1 by (simp add: visit_loop.simps)
  next
    case (Some xq)
    obtain ix d queue' where xq: "xq = ((ix, d), queue')" by (metis surj_pair)
    show ?thesis
      using 1 Some xq
      by (subst visit_loop.simps, subst (2) visit_loop.simps) (simp add: not_le Suc_le_eq)
  qed
qed

lemma visit_loop_sound:
  assumes "\<forall>(x, k) \<in> set queue. k \<le> q_depth opts \<and> x \<in> hops (targets steps) seeds k"
    and "set visited \<subseteq> hops (targets steps) seeds (q_depth opts)"
    and "\<forall>e \<in> set edges. \<exists>x \<in> set visited. e \<in> set (map snd (steps x))"
  shows "set (fst (visit_loop steps opts visited queue edges))
           \<subseteq> hops (targets steps) seeds (q_depth opts)
     \<and> (\<forall>e \<in> set (snd (visit_loop steps opts visited queue edges)).
          \<exists>x \<in> set (fst (visit_loop steps opts visited queue edges)).
            e \<in> set (map snd (steps x)))"
  using assms
proof (induction steps opts visited queue edges rule: visit_loop.induct)
  case (1 steps opts visited queue edges)
  show ?case
  proof (cases "pop (q_mode opts) queue")
    case None
    then show ?thesis using 1 by (simp add: visit_loop.simps)
  next
    case (Some xq)
    obtain ix d queue' where xq: "xq = ((ix, d), queue')" by (metis surj_pair)
    from Some xq have taken: "pop (q_mode opts) queue = Some ((ix, d), queue')" by simp
    from pop_list.take_all [OF taken 1(4)]
    have d: "d \<le> q_depth opts" "ix \<in> hops (targets steps) seeds d"
      and rest: "\<forall>(x, k) \<in> set queue'. k \<le> q_depth opts \<and> x \<in> hops (targets steps) seeds k"
      by auto
    have ix: "ix \<in> hops (targets steps) seeds (q_depth opts)"
      using d hops_mono by blast
    consider (skip) "ix \<in> set visited \<or> length visited \<ge> q_budget opts"
      | (leaf) "\<not> (ix \<in> set visited \<or> length visited \<ge> q_budget opts)" "d \<ge> q_depth opts"
      | (expand) "\<not> (ix \<in> set visited \<or> length visited \<ge> q_budget opts)" "d < q_depth opts"
      by linarith
    then show ?thesis
    proof cases
      case skip
      with taken 1(1) [OF taken refl refl] rest 1(5,6) show ?thesis
        by (subst (1 2 3) visit_loop.simps) simp
    next
      case leaf
      have "set (visited @ [ix]) \<subseteq> hops (targets steps) seeds (q_depth opts)"
        "\<forall>e \<in> set edges. \<exists>x \<in> set (visited @ [ix]). e \<in> set (map snd (steps x))"
        using ix 1(5,6) by auto
      from 1(2) [OF taken refl refl leaf rest this] leaf taken show ?thesis
        by (subst (1 2 3) visit_loop.simps) simp
    next
      case expand
      have "\<forall>(x, k) \<in> set (queue' @ map (\<lambda>(t, _). (t, d + 1)) (steps ix)).
              k \<le> q_depth opts \<and> x \<in> hops (targets steps) seeds k"
        using rest expand(2) hops_step [OF d(2)] by (force simp: image_iff)
      moreover have "set (visited @ [ix]) \<subseteq> hops (targets steps) seeds (q_depth opts)"
        "\<forall>e \<in> set (edges @ map snd (steps ix)).
           \<exists>x \<in> set (visited @ [ix]). e \<in> set (map snd (steps x))"
        using ix 1(5,6) by auto
      ultimately show ?thesis
        using 1(3) [OF taken refl refl expand(1)] expand taken
        by (subst (1 2 3) visit_loop.simps) (simp add: not_le)
    qed
  qed
qed

section \<open>Completeness from the front of the list\<close>

text \<open>While level \<open>d\<close> is being taken, the list is what is left of that level followed by what the
  taken part of it found.\<close>

definition level_inv ::
  "(nat \<Rightarrow> nat list) \<Rightarrow> nat list \<Rightarrow> nat \<Rightarrow> nat \<Rightarrow> nat list \<Rightarrow> nat list \<Rightarrow> nat list \<Rightarrow> bool"
where
  "level_inv adj seeds D d visited this next \<longleftrightarrow>
     d \<le> D \<and> (d = D \<longrightarrow> next = []) \<and> distinct visited
     \<and> set visited \<subseteq> hops adj seeds d \<and> set this \<subseteq> hops adj seeds d
     \<and> set next \<subseteq> hops adj seeds (Suc d) \<and> hops adj seeds d \<subseteq> set visited \<union> set this
     \<and> (d < D \<longrightarrow> (\<forall>x \<in> set visited. set (adj x) \<subseteq> set visited \<union> set this \<union> set next))"

abbreviation level_list :: "nat \<Rightarrow> nat list \<Rightarrow> nat list \<Rightarrow> (nat \<times> nat) list" where
  "level_list d this next \<equiv> map (\<lambda>x. (x, d)) this @ map (\<lambda>x. (x, Suc d)) next"

lemma level_inv_start: "level_inv adj seeds D 0 [] seeds []"
  by (simp add: level_inv_def)

lemma level_inv_next:
  assumes "level_inv adj seeds D d visited [] next" "next \<noteq> []"
  shows "level_inv adj seeds D (Suc d) visited next []"
  using assms by (fastforce simp: level_inv_def)

lemma level_inv_skip:
  assumes "level_inv adj seeds D d visited (x # this) next" "x \<in> set visited"
  shows "level_inv adj seeds D d visited this next"
  using assms by (auto simp: level_inv_def)

lemma level_inv_take:
  assumes "level_inv adj seeds D d visited (x # this) next" "x \<notin> set visited"
  shows "level_inv adj seeds D d (visited @ [x]) this (next @ (if d < D then adj x else []))"
proof -
  from assms(1) have x: "x \<in> hops adj seeds d" and "distinct visited" "d \<le> D"
    "d = D \<longrightarrow> next = []" "set visited \<subseteq> hops adj seeds d" "set this \<subseteq> hops adj seeds d"
    "set next \<subseteq> hops adj seeds (Suc d)" "hops adj seeds d \<subseteq> insert x (set visited \<union> set this)"
    "d < D \<longrightarrow> (\<forall>y \<in> set visited. set (adj y) \<subseteq> insert x (set visited \<union> set this \<union> set next))"
    by (simp_all add: level_inv_def)
  moreover from x have "set (adj x) \<subseteq> hops adj seeds (Suc d)" by auto
  ultimately show ?thesis
    using assms(2) by (cases "d < D") (auto simp: level_inv_def simp del: hops.simps)
qed

lemma level_inv_room:
  assumes "level_inv adj seeds D d visited (x # this) next" "x \<notin> set visited"
  shows "length visited < card (hops adj seeds D)"
proof -
  from assms have "insert x (set visited) \<subseteq> hops adj seeds d" "distinct visited" "d \<le> D"
    by (auto simp: level_inv_def)
  then have "card (insert x (set visited)) \<le> card (hops adj seeds D)"
    using hops_mono [of d D adj seeds] by (intro card_mono) auto
  with assms(2) \<open>distinct visited\<close> show ?thesis by (simp add: distinct_card)
qed

lemma level_inv_end:
  assumes "level_inv adj seeds D d visited [] []"
  shows "hops adj seeds D \<subseteq> set visited"
proof (cases "d = D")
  case False
  with assms have "d < D" "hops adj seeds d \<subseteq> set visited"
    "\<And>x. x \<in> set visited \<Longrightarrow> set (adj x) \<subseteq> set visited"
    by (auto simp: level_inv_def)
  then show ?thesis
    using hops_closed [of adj seeds d "set visited" "D - d"] by simp
qed (use assms in \<open>simp add: level_inv_def\<close>)

lemma visit_loop_level:
  assumes "q_mode opts = Bfs" "card (hops (targets steps) seeds (q_depth opts)) \<le> q_budget opts"
    and "level_inv (targets steps) seeds (q_depth opts) d visited this next"
    and "queue = level_list d this next"
  shows "hops (targets steps) seeds (q_depth opts)
           \<subseteq> set (fst (visit_loop steps opts visited queue edges))"
  using assms
proof (induction steps opts visited queue edges arbitrary: d this "next" rule: visit_loop.induct)
  case (1 steps opts visited queue edges)
  show ?case
  proof (cases queue)
    case Nil
    with 1(7) have "this = []" "next = []" by auto
    with level_inv_end [of _ _ _ d visited] 1(6) Nil show ?thesis
      by (simp add: visit_loop.simps)
  next
    case (Cons a list)
    text \<open>Some level has an item at the front.\<close>
    obtain e x this' next' where lvl: "queue = (x, e) # level_list e this' next'"
      "level_inv (targets steps) seeds (q_depth opts) e visited (x # this') next'"
    proof (cases this)
      case Nil
      with Cons 1(7) obtain y ys where "next = y # ys" by (cases "next") auto
      with Nil 1(6,7) level_inv_next [of _ _ _ d visited "next"] that [of y "Suc d" ys "[]"]
      show thesis by simp
    next
      case (Cons y ys)
      with 1(6,7) that [of y d ys "next"] show thesis by simp
    qed
    then have taken: "pop (q_mode opts) queue = Some ((x, e), level_list e this' next')"
      using 1(4) by simp
    show ?thesis
    proof (cases "x \<in> set visited")
      case True
      with 1(1) [OF taken refl refl _ 1(4,5) level_inv_skip [OF lvl(2)] refl] taken show ?thesis
        by (subst visit_loop.simps) simp
    next
      case False
      with level_inv_room [OF lvl(2)] 1(5) have room: "\<not> (x \<in> set visited \<or> length visited \<ge> q_budget opts)"
        by simp
      note next_inv = level_inv_take [OF lvl(2) False]
      show ?thesis
      proof (cases "e \<ge> q_depth opts")
        case True
        with next_inv have "level_inv (targets steps) seeds (q_depth opts) e (visited @ [x]) this' next'"
          by simp
        from 1(2) [OF taken refl refl room True 1(4,5) this refl] taken room True show ?thesis
          by (subst visit_loop.simps) simp
      next
        case expand: False
        have pushed: "level_list e this' next' @ map (\<lambda>(t, _). (t, e + 1)) (steps x)
            = level_list e this' (next' @ targets steps x)"
          by (auto simp: case_prod_unfold)
        from next_inv expand
        have "level_inv (targets steps) seeds (q_depth opts) e (visited @ [x]) this'
                (next' @ targets steps x)"
          by simp
        from 1(3) [OF taken refl refl room expand 1(4,5) this pushed] taken room expand
        show ?thesis
          by (subst visit_loop.simps) simp
      qed
    qed
  qed
qed

lemma visit_loop_bfs:
  assumes "q_mode opts = Bfs" "card (hops (targets steps) seeds (q_depth opts)) \<le> q_budget opts"
  shows "set (fst (visit_loop steps opts [] (map (\<lambda>s. (s, 0)) seeds) []))
           = hops (targets steps) seeds (q_depth opts)"
proof (rule antisym)
  show "set (fst (visit_loop steps opts [] (map (\<lambda>s. (s, 0)) seeds) []))
          \<subseteq> hops (targets steps) seeds (q_depth opts)"
    using visit_loop_sound [of "map (\<lambda>s. (s, 0)) seeds" opts steps seeds "[]" "[]"]
      hops_mono [of 0 "q_depth opts"] by auto
qed (use visit_loop_level [OF assms level_inv_start] in simp)

end
