(* ===== verification/Query_Index.thy ===== *)
theory Query_Index
  imports Query_Walk
begin

text \<open>
  What the operations of a \<^verbatim>\<open>GraphView\<close> mean on the graph they index: the indexed lookups are the
  scans they replaced, the traversal is reachability over the edge list, the neighbours are the
  matching edges, and a community is named by its best member.
\<close>

section \<open>The index is the node list\<close>

lemma index_of_snoc [simp]:
  "index_of (ns @ [n]) = bt_insert (n_id n) (length ns) (index_of ns)"
  by (simp add: index_of_def enumerate_append_eq)

lemma index_of_Nil [simp]: "index_of [] = bt_empty"
  by (simp add: index_of_def)

lemma index_of_SomeD:
  "bt_get (index_of ns) i = Some ix \<Longrightarrow> ix < length ns \<and> n_id (ns ! ix) = i"
  by (induction ns rule: rev_induct) (auto simp: bt_get_insert nth_append split: if_splits)

lemma index_of_None_iff: "bt_get (index_of ns) i = None \<longleftrightarrow> i \<notin> n_id ` set ns"
  by (induction ns rule: rev_induct) (auto simp: bt_get_insert)

lemma index_of_nth:
  "distinct (map n_id ns) \<Longrightarrow> ix < length ns \<Longrightarrow> bt_get (index_of ns) (n_id (ns ! ix)) = Some ix"
proof (cases "bt_get (index_of ns) (n_id (ns ! ix))")
  case (Some jx)
  assume "distinct (map n_id ns)" "ix < length ns"
  with index_of_SomeD [OF Some] Some show ?thesis
    by (metis length_map nth_eq_iff_index_eq nth_map)
qed (auto simp: index_of_None_iff)

lemma find_distinct_key:
  "distinct (map f xs) \<Longrightarrow> x \<in> set xs \<Longrightarrow> find (\<lambda>y. f y = f x) xs = Some x"
  by (induction xs) (auto simp: image_iff)

lemma index_of_is_scan:
  assumes "distinct (map n_id ns)"
  shows "map_option (\<lambda>ix. ns ! ix) (bt_get (index_of ns) i) = find (\<lambda>n. n_id n = i) ns"
proof (cases "bt_get (index_of ns) i")
  case None
  then have "find (\<lambda>n. n_id n = i) ns = None"
    unfolding find_None_iff by (auto simp: index_of_None_iff)
  with None show ?thesis by simp
next
  case (Some ix)
  from index_of_SomeD [OF Some] find_distinct_key [OF assms, of "ns ! ix"] Some show ?thesis
    by simp
qed

lemma view_idx [simp]: "v_idx (view_new st) = index_of (g_nodes (s_graph st))"
  and view_state [simp]: "v_state (view_new st) = st"
  and view_links [simp]:
    "v_links (view_new st) = links_of (index_of (g_nodes (s_graph st))) (g_edges (s_graph st))"
  and view_labels [simp]: "v_labels (view_new st) = build_community_labels st"
  by (simp_all add: view_new_def Let_def)

lemma set_enumerate: "set (enumerate 0 xs) = (\<lambda>i. (i, xs ! i)) ` {i. i < length xs}"
  by (auto simp: in_set_enumerate_eq image_iff)

lemma in_links_of:
  "(s, d, w) \<in> set (links_of idx es) \<longleftrightarrow>
     w < length es
     \<and> (\<exists>t. e_target (es ! w) = Node t \<and> bt_get idx (e_source (es ! w)) = Some s
            \<and> bt_get idx t = Some d)"
  (is "?l \<longleftrightarrow> ?r")
proof -
  have link: "link_of idx (i, e) = Some (s, d, w) \<longleftrightarrow>
      i = w \<and> (\<exists>t. e_target e = Node t \<and> bt_get idx (e_source e) = Some s \<and> bt_get idx t = Some d)"
    for i e
    by (cases "e_target e") (auto simp: link_of_def split: option.splits)
  have "?l \<longleftrightarrow> (\<exists>i < length es. link_of idx (i, es ! i) = Some (s, d, w))"
    by (simp add: links_of_def in_set_map_filter set_enumerate Bex_def image_iff)
  then show ?thesis by (simp only: link) blast
qed

section \<open>What is relied on of the graph library\<close>

text \<open>\<^verbatim>\<open>edges_directed\<close> yields each edge that leaves, or enters, the index once; its order is left
  open.\<close>

definition pg_ok :: "petgraph \<Rightarrow> bool" where
  "pg_ok pg \<longleftrightarrow>
     (\<forall>links ix. mset (pg_outgoing pg links ix) = mset (filter (\<lambda>(s, d, w). s = ix) links)
               \<and> mset (pg_incoming pg links ix) = mset (filter (\<lambda>(s, d, w). d = ix) links))"

lemma pg_outgoing_set:
  assumes "pg_ok pg"
  shows "l \<in> set (pg_outgoing pg links ix) \<longleftrightarrow> l \<in> set links \<and> fst l = ix"
proof -
  have "set (pg_outgoing pg links ix) = set (filter (\<lambda>(s, d, w). s = ix) links)"
    using assms by (intro mset_eq_setD) (simp add: pg_ok_def)
  then show ?thesis by auto
qed

lemma pg_incoming_set:
  assumes "pg_ok pg"
  shows "l \<in> set (pg_incoming pg links ix) \<longleftrightarrow> l \<in> set links \<and> fst (snd l) = ix"
proof -
  have "set (pg_incoming pg links ix) = set (filter (\<lambda>(s, d, w). d = ix) links)"
    using assms by (intro mset_eq_setD) (simp add: pg_ok_def)
  then show ?thesis by auto
qed

section \<open>Reachability on the edge list\<close>

definition passes :: "string list option \<Rightarrow> edge \<Rightarrow> bool" where
  "passes context_filter e \<longleftrightarrow>
     (case context_filter of
        None \<Rightarrow> True
      | Some entries \<Rightarrow> \<exists>r \<in> set entries. relation_matches_filter r (e_relation e))"

definition follows :: "graph \<Rightarrow> string list option \<Rightarrow> node_id \<Rightarrow> edge \<Rightarrow> node_id \<Rightarrow> bool" where
  "follows g f i e t \<longleftrightarrow>
     e \<in> set (g_edges g) \<and> passes f e \<and> e_source e = i \<and> e_target e = Node t
     \<and> t \<in> n_id ` set (g_nodes g)"

fun reach :: "graph \<Rightarrow> string list option \<Rightarrow> node_id set \<Rightarrow> nat \<Rightarrow> node_id set" where
  "reach g f S 0 = S"
| "reach g f S (Suc k) = reach g f S k \<union> {t. \<exists>i e. i \<in> reach g f S k \<and> follows g f i e t}"

definition id_at :: "graph_view \<Rightarrow> nat \<Rightarrow> node_id" where
  "id_at v ix = n_id (node_at v ix)"

lemma in_query_steps:
  assumes "pg_ok pg"
  shows "(d, e) \<in> set (query_steps pg v f ix) \<longleftrightarrow>
     (\<exists>w. (ix, d, w) \<in> set (v_links v) \<and> e = edge_at v w \<and> passes f e)"
proof -
  have "(d, e) \<in> set (query_steps pg v f ix) \<longleftrightarrow>
      (\<exists>l \<in> set (pg_outgoing pg (v_links v) ix). fst (snd l) = d \<and> edge_at v (snd (snd l)) = e
         \<and> passes f (edge_at v (snd (snd l))))"
    unfolding query_steps_def in_set_map_filter
    by (intro bex_cong refl) (auto simp: passes_def list_ex_iff Let_def split: option.splits if_splits)
  also have "\<dots> \<longleftrightarrow> (\<exists>w. (ix, d, w) \<in> set (v_links v) \<and> e = edge_at v w \<and> passes f e)"
    by (simp add: Bex_def pg_outgoing_set [OF assms]) metis
  finally show ?thesis .
qed

lemma query_steps_follows:
  assumes "pg_ok pg" "distinct (map n_id (g_nodes (s_graph st)))" "ix < length (g_nodes (s_graph st))"
  shows "(\<exists>d. (d, e) \<in> set (query_steps pg (view_new st) f ix)
              \<and> d < length (g_nodes (s_graph st)) \<and> id_at (view_new st) d = t)
     \<longleftrightarrow> follows (s_graph st) f (id_at (view_new st) ix) e t"
  (is "?l \<longleftrightarrow> ?r")
proof
  assume ?l
  then show ?r
    by (auto simp: in_query_steps [OF assms(1)] in_links_of follows_def edge_at_def id_at_def
        node_at_def dest!: index_of_SomeD)
next
  let ?ns = "g_nodes (s_graph st)" and ?es = "g_edges (s_graph st)"
  assume ?r
  then obtain w where w: "w < length ?es" "?es ! w = e" and e: "passes f e" "e_target e = Node t"
    "e_source e = id_at (view_new st) ix" and t: "t \<in> n_id ` set ?ns"
    by (auto simp: follows_def in_set_conv_nth)
  from t obtain d where d: "bt_get (index_of ?ns) t = Some d" "d < length ?ns" "n_id (?ns ! d) = t"
    using index_of_None_iff index_of_SomeD by (metis not_None_eq)
  have "bt_get (index_of ?ns) (id_at (view_new st) ix) = Some ix"
    using index_of_nth [OF assms(2,3)] by (simp add: id_at_def node_at_def)
  with w e d have "(ix, d, w) \<in> set (v_links (view_new st))" by (simp add: in_links_of)
  with w e(1) have "(d, e) \<in> set (query_steps pg (view_new st) f ix)"
    by (auto simp: in_query_steps [OF assms(1)] edge_at_def)
  with d show ?l by (auto simp: id_at_def node_at_def)
qed

lemma query_steps_range:
  assumes "pg_ok pg" "(d, e) \<in> set (query_steps pg (view_new st) f ix)"
  shows "d < length (g_nodes (s_graph st)) \<and> e \<in> set (g_edges (s_graph st))"
  using assms by (auto simp: in_query_steps in_links_of edge_at_def dest: index_of_SomeD)

lemma hops_reach:
  fixes st pg f
  defines "v \<equiv> view_new st" and "adj \<equiv> targets (query_steps pg (view_new st) f)"
  assumes pg: "pg_ok pg" and ids: "distinct (map n_id (g_nodes (s_graph st)))"
    and seeds: "set seeds \<subseteq> {..<length (g_nodes (s_graph st))}"
  shows "hops adj seeds k \<subseteq> {..<length (g_nodes (s_graph st))}
     \<and> id_at v ` hops adj seeds k = reach (s_graph st) f (id_at v ` set seeds) k"
proof (induction k)
  case 0
  then show ?case using seeds by simp
next
  case (Suc k)
  let ?n = "length (g_nodes (s_graph st))" and ?H = "hops adj seeds k"
  have range: "set (adj x) \<subseteq> {..<?n}" for x
    using query_steps_range [OF pg] by (auto simp: adj_def)
  have step: "id_at v ` set (adj x) = {t. \<exists>e. follows (s_graph st) f (id_at v x) e t}"
    if "x \<in> ?H" for x
  proof -
    from that Suc.IH have "x < ?n" by auto
    from query_steps_follows [OF pg ids this] have
      "follows (s_graph st) f (id_at v x) e t \<longleftrightarrow>
         (\<exists>d. (d, e) \<in> set (query_steps pg v f x) \<and> id_at v d = t)" for e t
      using query_steps_range [OF pg] by (metis v_def)
    then show ?thesis by (force simp: adj_def v_def image_iff)
  qed
  have "id_at v ` hops adj seeds (Suc k) = id_at v ` ?H \<union> (\<Union>x \<in> ?H. id_at v ` set (adj x))"
    by auto
  also have "\<dots> = id_at v ` ?H \<union> (\<Union>x \<in> ?H. {t. \<exists>e. follows (s_graph st) f (id_at v x) e t})"
    using step by simp
  also have "\<dots> = reach (s_graph st) f (id_at v ` set seeds) (Suc k)"
    using Suc.IH [THEN conjunct2, symmetric] by auto
  finally show ?case using Suc.IH range by auto
qed

section \<open>Seeds\<close>

lemma seed_scores_nodes: "(n, s) \<in> set (seed_scores ops v q) \<Longrightarrow> n \<in> set (v_nodes v)"
  by (auto simp: seed_scores_def Let_def in_set_map_filter split: if_splits dest: set_zip_leftD)

lemma query_seeds_range:
  "set (query_seeds ops (view_new st) q) \<subseteq> {..<length (g_nodes (s_graph st))}"
  by (auto simp: query_seeds_def in_set_map_filter dest: index_of_SomeD)

lemma query_seeds_ids:
  "id_at (view_new st) ` set (query_seeds ops (view_new st) q)
     = (\<lambda>ns. n_id (fst ns)) ` set (seed_scores ops (view_new st) q)"
proof -
  have "\<exists>ix. bt_get (index_of (g_nodes (s_graph st))) (n_id n) = Some ix"
    if "(n, s) \<in> set (seed_scores ops (view_new st) q)" for n s
    using seed_scores_nodes [OF that] index_of_None_iff [of "g_nodes (s_graph st)" "n_id n"]
    by (cases "bt_get (index_of (g_nodes (s_graph st))) (n_id n)") auto
  moreover have "id_at (view_new st) ix = i"
    if "bt_get (index_of (g_nodes (s_graph st))) i = Some ix" for i ix
    using index_of_SomeD [OF that] by (simp add: id_at_def node_at_def)
  ultimately have "i \<in> id_at (view_new st) ` set (query_seeds ops (view_new st) q)
      \<longleftrightarrow> (\<exists>n s. (n, s) \<in> set (seed_scores ops (view_new st) q) \<and> i = n_id n)" for i
    unfolding query_seeds_def image_iff Bex_def in_set_map_filter split_paired_Ex view_idx prod.case
    by metis
  then show ?thesis
    by (intro set_eqI) (simp add: image_iff [of _ "\<lambda>ns. n_id (fst ns)"] Bex_def)
qed

lemma n_id_stamp [simp]: "n_id (stamp_community v n) = n_id n"
  by (simp add: stamp_community_def split: option.split)

lemma id_node_with_community: "n_id (node_with_community v ix) = id_at v ix"
  by (simp add: node_with_community_def id_at_def)

end
