(* ===== verification/Query_Props.thy ===== *)
theory Query_Props
  imports Query_Index
begin

text \<open>
  The properties of the query engine, with the concrete graphs their witnesses run on. The
  arithmetic of the ranking is a parameter throughout; the examples run it on rationals.
\<close>

section \<open>The traversal on the graph\<close>

definition seed_ids :: "('f, 'b) score_ops_scheme \<Rightarrow> graph_state \<Rightarrow> string \<Rightarrow> node_id set" where
  "seed_ids ops st q = (\<lambda>ns. n_id (fst ns)) ` set (seed_scores ops (view_new st) q)"

definition result_ids :: "subgraph \<Rightarrow> node_id list" where
  "result_ids r = map n_id (sg_nodes r)"

lemma query_parts:
  fixes st pg opts ops q
  defines "steps \<equiv> query_steps pg (view_new st) (q_filter opts)"
    and "start \<equiv> map (\<lambda>s. (s, 0)) (query_seeds ops (view_new st) q)"
  shows "result_ids (query ops pg (view_new st) q opts)
           = map (id_at (view_new st)) (fst (visit_loop steps opts [] start []))"
    and "sg_edges (query ops pg (view_new st) q opts) = snd (visit_loop steps opts [] start [])"
    and "sg_nodes (query ops pg (view_new st) q opts)
           = map (node_with_community (view_new st)) (fst (visit_loop steps opts [] start []))"
  by (simp_all add: query_def result_ids_def steps_def start_def Let_def id_node_with_community
      case_prod_beta)

lemma id_at_inj:
  assumes "distinct (map n_id (g_nodes (s_graph st)))"
  shows "inj_on (id_at (view_new st)) {..<length (g_nodes (s_graph st))}"
  using assms by (auto simp: inj_on_def id_at_def node_at_def distinct_conv_nth)

lemma visited_sound:
  fixes st pg opts
  defines "steps \<equiv> query_steps pg (view_new st) (q_filter opts)"
  assumes "pg_ok pg" "distinct (map n_id (g_nodes (s_graph st)))"
    and "set seeds \<subseteq> {..<length (g_nodes (s_graph st))}"
  shows "set (fst (visit_loop steps opts [] (map (\<lambda>s. (s, 0)) seeds) []))
           \<subseteq> hops (targets steps) seeds (q_depth opts)"
    and "\<forall>e \<in> set (snd (visit_loop steps opts [] (map (\<lambda>s. (s, 0)) seeds) [])).
           \<exists>x \<in> set (fst (visit_loop steps opts [] (map (\<lambda>s. (s, 0)) seeds) [])).
             e \<in> set (map snd (steps x))"
proof -
  have "\<forall>(x, k) \<in> set (map (\<lambda>s. (s, 0)) seeds).
          k \<le> q_depth opts \<and> x \<in> hops (targets steps) seeds k"
    by auto
  from visit_loop_sound [OF this, of "[]" "[]"]
  show "set (fst (visit_loop steps opts [] (map (\<lambda>s. (s, 0)) seeds) []))
           \<subseteq> hops (targets steps) seeds (q_depth opts)"
    and "\<forall>e \<in> set (snd (visit_loop steps opts [] (map (\<lambda>s. (s, 0)) seeds) [])).
           \<exists>x \<in> set (fst (visit_loop steps opts [] (map (\<lambda>s. (s, 0)) seeds) [])).
             e \<in> set (map snd (steps x))"
    by auto
qed

text \<open>C32. Whatever the mode, a query returns each node once and at most \<^verbatim>\<open>budget\<close> of them; each is a
  seed or reached from one over at most \<^verbatim>\<open>depth\<close> edges that pass the relation filter; each returned
  edge is such an edge of the graph and leaves a returned node.\<close>

theorem query_within_reach:
  assumes "pg_ok pg" "distinct (map n_id (g_nodes (s_graph st)))"
  shows "distinct (result_ids (query ops pg (view_new st) q opts))
     \<and> length (sg_nodes (query ops pg (view_new st) q opts)) \<le> q_budget opts
     \<and> set (result_ids (query ops pg (view_new st) q opts))
          \<subseteq> reach (s_graph st) (q_filter opts) (seed_ids ops st q) (q_depth opts)
     \<and> (\<forall>e \<in> set (sg_edges (query ops pg (view_new st) q opts)).
          e \<in> set (g_edges (s_graph st)) \<and> passes (q_filter opts) e
          \<and> e_source e \<in> set (result_ids (query ops pg (view_new st) q opts)))"
proof -
  let ?v = "view_new st"
  let ?steps = "query_steps pg ?v (q_filter opts)" and ?seeds = "query_seeds ops ?v q"
  let ?run = "visit_loop ?steps opts [] (map (\<lambda>s. (s, 0)) ?seeds) []"
  note seeds = query_seeds_range [of ops st q]
  note hr = hops_reach [OF assms seeds, of "q_filter opts" "q_depth opts"]
  note sound = visited_sound [OF assms seeds, of opts]
  have d: "distinct (fst ?run)" "length (fst ?run) \<le> q_budget opts"
    using visit_loop_distinct [of "[]" opts] by auto
  have range: "set (fst ?run) \<subseteq> {..<length (g_nodes (s_graph st))}"
    using sound(1) hr by blast
  with d(1) id_at_inj [OF assms(2)] have "distinct (map (id_at ?v) (fst ?run))"
    by (simp add: distinct_map inj_on_subset)
  moreover have "id_at ?v ` set (fst ?run)
      \<subseteq> reach (s_graph st) (q_filter opts) (seed_ids ops st q) (q_depth opts)"
    using sound(1) hr by (auto simp: seed_ids_def query_seeds_ids)
  moreover have "e \<in> set (g_edges (s_graph st)) \<and> passes (q_filter opts) e
      \<and> e_source e \<in> id_at ?v ` set (fst ?run)" if e: "e \<in> set (snd ?run)" for e
  proof -
    from sound(2) e obtain x t where x: "x \<in> set (fst ?run)" "(t, e) \<in> set (?steps x)"
      by fastforce
    from query_steps_follows [OF assms, of x e "q_filter opts"] x range
      query_steps_range [OF assms(1) x(2)]
    have "follows (s_graph st) (q_filter opts) (id_at ?v x) e (id_at ?v t)" by blast
    with x(1) show ?thesis by (auto simp: follows_def)
  qed
  ultimately show ?thesis
    using d(2) by (simp add: query_parts)
qed

text \<open>C31. A breadth-first query whose budget is at least the number of nodes returns exactly what the
  seeds reach over at most \<^verbatim>\<open>depth\<close> edges that pass the filter.\<close>

theorem query_bfs_exact:
  assumes "pg_ok pg" "distinct (map n_id (g_nodes (s_graph st)))"
    and "q_mode opts = Bfs" "length (g_nodes (s_graph st)) \<le> q_budget opts"
  shows "set (result_ids (query ops pg (view_new st) q opts))
           = reach (s_graph st) (q_filter opts) (seed_ids ops st q) (q_depth opts)"
proof -
  let ?v = "view_new st"
  let ?steps = "query_steps pg ?v (q_filter opts)" and ?seeds = "query_seeds ops ?v q"
  note seeds = query_seeds_range [of ops st q]
  note hr = hops_reach [OF assms(1,2) seeds, of "q_filter opts" "q_depth opts"]
  have "card (hops (targets ?steps) ?seeds (q_depth opts)) \<le> card {..<length (g_nodes (s_graph st))}"
    by (rule card_mono [OF finite_lessThan hr [THEN conjunct1]])
  with assms(4) have "card (hops (targets ?steps) ?seeds (q_depth opts)) \<le> q_budget opts" by simp
  from visit_loop_bfs [OF assms(3) this]
  have "set (result_ids (query ops pg ?v q opts)) = id_at ?v ` hops (targets ?steps) ?seeds (q_depth opts)"
    by (simp only: query_parts set_map)
  also have "\<dots> = reach (s_graph st) (q_filter opts) (id_at ?v ` set ?seeds) (q_depth opts)"
    by (rule hr [THEN conjunct2])
  finally show ?thesis by (simp only: seed_ids_def query_seeds_ids)
qed

section \<open>Concrete runs\<close>

definition score_rat :: "rat score_ops" where
  "score_rat =
     \<lparr>f_zero = 0, f_one = 1, f_half = 1/2, f_quarter = 1/4, f_eps = 1/1000000,
      f_add = (+), f_sub = (-), f_mul = (*), f_div = (/), f_max = max, f_less = (<), f_le = (\<le>),
      f_permille = (\<lambda>_. 0), f_of_nat = of_nat, f_ln = (\<lambda>x. x - 1)\<rparr>"

text \<open>The library's iteration order: the newest edge first.\<close>

definition newest_first :: petgraph where
  "newest_first =
     \<lparr>pg_outgoing = (\<lambda>links ix. rev (filter (\<lambda>(s, d, w). s = ix) links)),
      pg_incoming = (\<lambda>links ix. rev (filter (\<lambda>(s, d, w). d = ix) links)),
      pg_astar = (\<lambda>links s d. None)\<rparr>"

lemma newest_first_ok: "pg_ok newest_first"
  by (simp add: pg_ok_def newest_first_def)

definition calls_edge :: "string \<Rightarrow> string \<Rightarrow> edge" where
  "calls_edge a b =
     \<lparr>e_source = NodeId a, e_relation = CALLS, e_confidence = Extracted, e_target = Node (NodeId b)\<rparr>"

definition state_of :: "node list \<Rightarrow> edge list \<Rightarrow> graph_state" where
  "state_of ns es = graph_state_default\<lparr>s_graph := \<lparr>g_nodes = ns, g_edges = es\<rparr>\<rparr>"

definition walk_state :: graph_state where
  "walk_state =
     state_of [node_new ''a'' ''alpha'' ''function'', node_new ''b'' ''bb'' ''function'',
               node_new ''x'' ''xx'' ''function'', node_new ''y'' ''yy'' ''function'']
       [calls_edge ''a'' ''b'', calls_edge ''a'' ''x'', calls_edge ''b'' ''x'',
        calls_edge ''x'' ''y'']"

lemma walk_state_ids: "distinct (map n_id (g_nodes (s_graph walk_state)))"
  by code_simp

theorem query_within_reach_witness:
  "distinct (result_ids (query score_rat newest_first (view_new walk_state) ''alp''
     (query_opts_default\<lparr>q_mode := Dfs, q_budget := 2\<rparr>)))"
  using query_within_reach [OF newest_first_ok walk_state_ids] by blast

theorem query_bfs_exact_witness:
  "set (result_ids (query score_rat newest_first (view_new walk_state) ''alp'' query_opts_default))
     = reach (s_graph walk_state) (q_filter query_opts_default)
         (seed_ids score_rat walk_state ''alp'') (q_depth query_opts_default)"
proof (rule query_bfs_exact [OF newest_first_ok walk_state_ids])
  show "q_mode query_opts_default = Bfs" by code_simp
  show "length (g_nodes (s_graph walk_state)) \<le> q_budget query_opts_default" by code_simp
qed

definition ranked_state :: graph_state where
  "ranked_state =
     state_of [node_new ''1'' ''alpine'' ''function'', node_new ''2'' ''alpha'' ''function''] []"

text \<open>A depth-first query packs its budget from the least relevant end: the seeds are ranked by
  relevance and the traversal takes the last one first. With a budget of one node the query for
  \<^verbatim>\<open>alpha\<close> returns \<^verbatim>\<open>alpine\<close> although \<^verbatim>\<open>alpha\<close> ranks first; breadth-first it returns
  \<^verbatim>\<open>alpha\<close>.\<close>

theorem dfs_keeps_least_relevant_seed:
  "map (\<lambda>ns. n_label (fst ns)) (seed_scores score_rat (view_new ranked_state) ''alpha'')
     = [''alpha'', ''alpine'']
   \<and> map n_label (sg_nodes (query score_rat newest_first (view_new ranked_state) ''alpha''
         \<lparr>q_depth = 2, q_budget = 1, q_mode = Bfs, q_filter = None\<rparr>)) = [''alpha'']
   \<and> map n_label (sg_nodes (query score_rat newest_first (view_new ranked_state) ''alpha''
         \<lparr>q_depth = 2, q_budget = 1, q_mode = Dfs, q_filter = None\<rparr>)) = [''alpine'']"
  by code_simp

lemma dfs_misses_reachable:
  "result_ids (query score_rat newest_first (view_new walk_state) ''alp'' query_opts_default)
     = map NodeId [''a'', ''x'', ''b'', ''y'']
   \<and> result_ids (query score_rat newest_first (view_new walk_state) ''alp''
         (query_opts_default\<lparr>q_mode := Dfs\<rparr>)) = map NodeId [''a'', ''b'', ''x'']"
  by code_simp


section \<open>Neighbours\<close>

lemma stamped_scan:
  assumes "distinct (map n_id (g_nodes (s_graph st)))"
    and "bt_get (index_of (g_nodes (s_graph st))) i = Some ix"
  shows "node_by_id (s_graph st) i = Some (node_at (view_new st) ix)"
  using index_of_is_scan [OF assms(1), of i] assms(2) by (simp add: node_by_id_def node_at_def)

text \<open>The edges that leave or enter a node and pass the relation list, with the stamped node at
  their other end.\<close>

definition selected :: "string list \<Rightarrow> edge \<Rightarrow> bool" where
  "selected relations e \<longleftrightarrow>
     relations = [] \<or> (\<exists>r \<in> set relations. relation_matches_filter r (e_relation e))"

lemma matches_relations_iff:
  "matches_relations v relations l \<longleftrightarrow> selected relations (edge_at v (snd (snd l)))"
  by (auto simp: matches_relations_def selected_def list_ex_iff)

lemma neighbors_at_set:
  assumes "pg_ok pg"
  shows "(e, n) \<in> set (neighbors_at pg v ix relations direction) \<longleftrightarrow>
     (\<exists>s d w. (s, d, w) \<in> set (v_links v) \<and> e = edge_at v w \<and> selected relations e
        \<and> (direction \<noteq> In \<and> s = ix \<and> n = node_with_community v d
           \<or> direction \<noteq> Out \<and> d = ix \<and> n = node_with_community v s))"
proof -
  have out: "(s, d, w) \<in> set (filter (matches_relations v relations) (pg_outgoing pg (v_links v) ix))
      \<longleftrightarrow> (s, d, w) \<in> set (v_links v) \<and> s = ix \<and> selected relations (edge_at v w)" for s d w
    using pg_outgoing_set [OF assms, of "(s, d, w)"] by (auto simp: matches_relations_iff)
  have inc: "(s, d, w) \<in> set (filter (matches_relations v relations) (pg_incoming pg (v_links v) ix))
      \<longleftrightarrow> (s, d, w) \<in> set (v_links v) \<and> d = ix \<and> selected relations (edge_at v w)" for s d w
    using pg_incoming_set [OF assms, of "(s, d, w)"] by (auto simp: matches_relations_iff)
  show ?thesis
    unfolding neighbors_at_def set_append Un_iff
    by (cases direction) (simp_all add: image_iff Bex_def out inc del: set_filter, (blast | metis)+)
qed

text \<open>The neighbours of an id are exactly the resolved edges of the graph that leave it (\<^verbatim>\<open>out\<close>),
  enter it (\<^verbatim>\<open>in\<close>) or either (\<^verbatim>\<open>both\<close>) and match the relation list, each with the node at its
  other end as a scan of the node list finds it, community stamped.\<close>

theorem neighbors_by_id_spec:
  assumes "pg_ok pg" "distinct (map n_id (g_nodes (s_graph st)))"
  shows "(e, n) \<in> set (neighbors_by_id pg (view_new st) i relations direction) \<longleftrightarrow>
     (\<exists>t a b. e \<in> set (g_edges (s_graph st)) \<and> e_target e = Node t \<and> selected relations e
        \<and> node_by_id (s_graph st) (e_source e) = Some a \<and> node_by_id (s_graph st) t = Some b
        \<and> (direction \<noteq> In \<and> e_source e = NodeId i \<and> n = stamp_community (view_new st) b
           \<or> direction \<noteq> Out \<and> t = NodeId i \<and> n = stamp_community (view_new st) a))"
  (is "?l \<longleftrightarrow> ?r")
proof -
  let ?v = "view_new st" and ?idx = "index_of (g_nodes (s_graph st))"
  have scan: "node_by_id (s_graph st) j = Some m \<longleftrightarrow> (\<exists>ix. bt_get ?idx j = Some ix \<and> m = node_at ?v ix)"
    for j m
  proof (cases "bt_get ?idx j")
    case None
    then have "find (\<lambda>n. n_id n = j) (g_nodes (s_graph st)) = None"
      unfolding find_None_iff by (auto simp: index_of_None_iff)
    with None show ?thesis by (simp add: node_by_id_def)
  qed (use stamped_scan [OF assms(2)] in auto)
  have same: "bt_get ?idx j = Some ix \<and> bt_get ?idx k = Some ix \<longleftrightarrow> bt_get ?idx j = Some ix \<and> j = k"
    for j k ix
    using index_of_SomeD by metis
  have link: "(\<exists>w. (s, d, w) \<in> set (v_links ?v) \<and> e = edge_at ?v w) \<longleftrightarrow>
      e \<in> set (g_edges (s_graph st)) \<and> (\<exists>t. e_target e = Node t
        \<and> bt_get ?idx (e_source e) = Some s \<and> bt_get ?idx t = Some d)" for s d
    by (auto simp: in_links_of edge_at_def in_set_conv_nth [of e])
  show ?thesis
  proof (cases "bt_get ?idx (NodeId i)")
    case None
    then show ?thesis by (auto simp: neighbors_by_id_def scan)
  next
    case (Some ix)
    then have "?l \<longleftrightarrow> (\<exists>s d w. (s, d, w) \<in> set (v_links ?v) \<and> e = edge_at ?v w \<and> selected relations e
        \<and> (direction \<noteq> In \<and> s = ix \<and> n = node_with_community ?v d
           \<or> direction \<noteq> Out \<and> d = ix \<and> n = node_with_community ?v s))"
      by (simp add: neighbors_by_id_def neighbors_at_set [OF assms(1)])
    also have "\<dots> \<longleftrightarrow> (\<exists>s d t. e \<in> set (g_edges (s_graph st)) \<and> e_target e = Node t
        \<and> bt_get ?idx (e_source e) = Some s \<and> bt_get ?idx t = Some d \<and> selected relations e
        \<and> (direction \<noteq> In \<and> s = ix \<and> n = node_with_community ?v d
           \<or> direction \<noteq> Out \<and> d = ix \<and> n = node_with_community ?v s))"
      using link by blast
    also have "\<dots> \<longleftrightarrow> ?r"
    proof -
      have key: "s = ix \<longleftrightarrow> j = NodeId i" if "bt_get ?idx j = Some s" for j s
        using Some same [of j ix "NodeId i"] that by auto
      show ?thesis
      proof
        assume ?r
        then show "\<exists>s d t. e \<in> set (g_edges (s_graph st)) \<and> e_target e = Node t
            \<and> bt_get ?idx (e_source e) = Some s \<and> bt_get ?idx t = Some d \<and> selected relations e
            \<and> (direction \<noteq> In \<and> s = ix \<and> n = node_with_community ?v d
               \<or> direction \<noteq> Out \<and> d = ix \<and> n = node_with_community ?v s)"
          unfolding scan node_with_community_def using key by blast
      next
        assume "\<exists>s d t. e \<in> set (g_edges (s_graph st)) \<and> e_target e = Node t
            \<and> bt_get ?idx (e_source e) = Some s \<and> bt_get ?idx t = Some d \<and> selected relations e
            \<and> (direction \<noteq> In \<and> s = ix \<and> n = node_with_community ?v d
               \<or> direction \<noteq> Out \<and> d = ix \<and> n = node_with_community ?v s)"
        then show ?r
          unfolding scan node_with_community_def using key by blast
      qed
    qed
    finally show ?thesis .
  qed
qed

theorem neighbors_by_id_spec_witness:
  "(calls_edge ''a'' ''b'', node_new ''a'' ''alpha'' ''function'')
     \<in> set (neighbors_by_id newest_first (view_new walk_state) ''b'' [''calls''] In)"
  unfolding neighbors_by_id_spec [OF newest_first_ok walk_state_ids]
  by (intro exI [of _ "NodeId ''b''"] exI [of _ "node_new ''a'' ''alpha'' ''function''"]
      exI [of _ "node_new ''b'' ''bb'' ''function''"]) code_simp


section \<open>Community labels\<close>

text \<open>The ends of non-structural edges at a node, unresolved out-edges included.\<close>

definition endpoint_count :: "edge list \<Rightarrow> node_id \<Rightarrow> nat" where
  "endpoint_count es i =
     length (filter (\<lambda>e. \<not> is_structural (e_relation e) \<and> e_source e = i) es)
     + length (filter (\<lambda>e. \<not> is_structural (e_relation e) \<and> e_target e = Node i) es)"

abbreviation got :: "(node_id, nat) btree \<Rightarrow> node_id \<Rightarrow> nat" where
  "got m i \<equiv> (case bt_get m i of None \<Rightarrow> 0 | Some d \<Rightarrow> d)"

lemma got_bump: "got (bump k m) i = got m i + (if i = k then 1 else 0)"
  by (simp add: bump_def bt_get_insert split: option.split)

lemma got_count_endpoints:
  "got (count_endpoints m e) i = got m i + endpoint_count [e] i"
  by (auto simp: count_endpoints_def endpoint_count_def Let_def got_bump split: edge_target.split)

lemma endpoint_count_Cons: "endpoint_count (e # es) i = endpoint_count [e] i + endpoint_count es i"
  by (simp add: endpoint_count_def)

lemma got_node_edges: "got (node_edges es) i = endpoint_count es i"
proof -
  have "got (foldl count_endpoints m es) i = got m i + endpoint_count es i" for m
  proof (induction es arbitrary: m)
    case Nil
    then show ?case by (simp add: endpoint_count_def)
  next
    case (Cons e es)
    show ?case
      by (simp add: Cons.IH got_count_endpoints endpoint_count_Cons [of e es])
  qed
  from this [of bt_empty] show ?thesis by (simp add: node_edges_def)
qed

definition members :: "graph_state \<Rightarrow> community_id \<Rightarrow> node list" where
  "members st cid =
     filter (\<lambda>n. bt_get (node_community (s_partition st)) (n_id n) = Some cid) (g_nodes (s_graph st))"

definition member_key :: "graph_state \<Rightarrow> node \<Rightarrow> nat \<times> string" where
  "member_key st n = (endpoint_count (g_edges (s_graph st)) (n_id n), n_label n)"

text \<open>\<open>better\<close> is a strict linear order on the keys, so a best member's key is unique.\<close>

lemma better_irrefl [simp]: "\<not> better a a"
  by (simp add: better_def)

lemma better_total: "a \<noteq> b \<Longrightarrow> better a b \<or> better b a"
  by (cases a; cases b) (auto simp: better_def)

lemma better_trans: "better a b \<Longrightarrow> better b c \<Longrightarrow> better a c"
  by (auto simp: better_def)

definition is_best :: "(node \<Rightarrow> nat \<times> string) \<Rightarrow> node list \<Rightarrow> nat \<times> string \<Rightarrow> bool" where
  "is_best key ns k \<longleftrightarrow> k \<in> key ` set ns \<and> (\<forall>m \<in> set ns. \<not> better (key m) k)"

lemma is_best_snoc_same: "is_best key ns k \<Longrightarrow> \<not> better (key n) k \<Longrightarrow> is_best key (ns @ [n]) k"
  by (auto simp: is_best_def)

lemma is_best_snoc_new:
  assumes "is_best key ns k" "better (key n) k"
  shows "is_best key (ns @ [n]) (key n)"
  unfolding is_best_def
proof (intro conjI ballI)
  fix m assume "m \<in> set (ns @ [n])"
  then show "\<not> better (key m) (key n)"
    using assms better_trans [of "key m" "key n" k] by (auto simp: is_best_def)
qed simp

lemma is_best_unique: "is_best key ns k \<Longrightarrow> is_best key ns l \<Longrightarrow> k = l"
  using better_total [of k l] by (auto simp: is_best_def)

lemma best_step_other:
  "bt_get (node_community (s_partition st)) (n_id n) \<noteq> Some cid \<Longrightarrow>
     bt_get (best_step st deg best n) cid = bt_get best cid"
  by (auto simp: best_step_def Let_def bt_get_insert split: option.split)

lemma best_step_own:
  "bt_get (node_community (s_partition st)) (n_id n) = Some cid \<Longrightarrow>
     bt_get (best_step st deg best n) cid =
       Some (let k = (got deg (n_id n), n_label n)
             in case bt_get best cid of None \<Rightarrow> k | Some b \<Rightarrow> if better k b then k else b)"
  by (auto simp: best_step_def Let_def bt_get_insert split: option.split)

lemma best_fold:
  fixes st ns cid
  defines "best \<equiv> foldl (best_step st (node_edges (g_edges (s_graph st)))) bt_empty ns"
    and "mine \<equiv> filter (\<lambda>n. bt_get (node_community (s_partition st)) (n_id n) = Some cid) ns"
  shows "case bt_get best cid of None \<Rightarrow> mine = [] | Some k \<Rightarrow> is_best (member_key st) mine k"
  unfolding best_def mine_def
proof (induction ns rule: rev_induct)
  case (snoc n ns)
  let ?deg = "node_edges (g_edges (s_graph st))"
  let ?best = "foldl (best_step st ?deg) bt_empty ns"
  have key: "(got ?deg (n_id n), n_label n) = member_key st n"
    by (simp add: got_node_edges member_key_def)
  show ?case
  proof (cases "bt_get (node_community (s_partition st)) (n_id n) = Some cid")
    case False
    with snoc.IH show ?thesis by (auto simp: best_step_other split: option.splits)
  next
    case True
    show ?thesis
    proof (cases "bt_get ?best cid")
      case None
      with snoc.IH True show ?thesis
        by (simp add: best_step_own Let_def key is_best_def)
    next
      case (Some k)
      with snoc.IH True show ?thesis
        by (simp add: best_step_own Let_def key is_best_snoc_same is_best_snoc_new)
    qed
  qed
qed simp

text \<open>A community is labelled exactly when it has a member in the graph, and its label is the
  label of the member with the most ends of non-structural edges (unresolved calls counting for their
  caller), the alphabetically first label among equals.\<close>

theorem community_label_is_best:
  "bt_get (build_community_labels st) cid = Some l \<longleftrightarrow>
     (\<exists>n \<in> set (members st cid). n_label n = l
        \<and> (\<forall>m \<in> set (members st cid). \<not> better (member_key st m) (member_key st n)))"
proof (cases "node_community (s_partition st) = bt_empty")
  case True
  then show ?thesis by (simp add: build_community_labels_def members_def)
next
  case False
  let ?best = "foldl (best_step st (node_edges (g_edges (s_graph st)))) bt_empty (g_nodes (s_graph st))"
  have fold: "case bt_get ?best cid of None \<Rightarrow> members st cid = []
      | Some k \<Rightarrow> is_best (member_key st) (members st cid) k"
    using best_fold [of st cid "g_nodes (s_graph st)"] unfolding members_def .
  have "bt_get (build_community_labels st) cid = Some l
      \<longleftrightarrow> (\<exists>k. is_best (member_key st) (members st cid) k \<and> snd k = l)"
  proof (cases "bt_get ?best cid")
    case None
    with fold False show ?thesis by (auto simp: build_community_labels_def Let_def is_best_def)
  next
    case (Some k)
    with fold have "is_best (member_key st) (members st cid) k" by simp
    then have "is_best (member_key st) (members st cid) k' \<longleftrightarrow> k' = k" for k'
      using is_best_unique by blast
    with Some False show ?thesis by (simp add: build_community_labels_def Let_def)
  qed
  then show ?thesis by (auto simp: is_best_def member_key_def)
qed

definition labelled_state :: graph_state where
  "labelled_state = walk_state
     \<lparr>s_partition := \<lparr>node_community = bt_collect (map (\<lambda>i. (NodeId i, 7)) [''a'', ''b'', ''x'']),
                      communities = bt_empty\<rparr>\<rparr>"

theorem community_label_is_best_witness:
  "\<exists>n \<in> set (members labelled_state 7). n_label n = ''xx''
     \<and> (\<forall>m \<in> set (members labelled_state 7).
           \<not> better (member_key labelled_state m) (member_key labelled_state n))"
proof -
  have "bt_get (build_community_labels labelled_state) 7 = Some ''xx''" by code_simp
  then show ?thesis by (simp only: community_label_is_best)
qed

end
