(* ===== verification/Report.thy ===== *)
theory Report
  imports Query
begin

text \<open>
  The derived analysis of \<^verbatim>\<open>filigrio-query/src/analysis.rs\<close> (community summaries, bridges, the
  report) and its rendering to Markdown of \<^verbatim>\<open>report.rs\<close>. Text is bytes: the em dash and the arrow
  are their UTF-8 encodings. The \<^verbatim>\<open>{:.2}\<close> rendering of a cohesion, a float, is a parameter.
\<close>

section \<open>Analysis\<close>

record community_summary =
  su_id :: community_id
  su_label :: string
  su_size :: nat
  su_members :: "node list"
  su_cohesion_permille :: u16

record bridge =
  br_edge :: edge
  br_from :: community_id
  br_to :: community_id

record graph_report =
  gr_stats :: graph_stats
  gr_god_nodes :: "(node \<times> nat) list"
  gr_communities :: "community_summary list"
  gr_bridges :: "bridge list"
  gr_projects :: "project_node list"

definition community_id_of :: "graph_view \<Rightarrow> node_id \<Rightarrow> community_id option" where
  "community_id_of v i = bt_get (node_community (s_partition (v_state v))) i"

definition group_members :: "graph_view \<Rightarrow> (community_id, node list) btree" where
  "group_members v =
     foldl (\<lambda>m n. case community_id_of v (n_id n) of None \<Rightarrow> m | Some cid \<Rightarrow> bt_push cid n m)
       bt_empty (v_nodes v)"

definition community_summaries :: "graph_view \<Rightarrow> community_summary list" where
  "community_summaries v =
     map (\<lambda>(i, ms).
            let ms = sort_by (\<lambda>a b. cmp (n_label a) (n_label b)) ms;
                label = (case bt_get (v_labels v) i of None \<Rightarrow> [] | Some l \<Rightarrow> l);
                cohesion =
                  (case bt_get (communities (s_partition (v_state v))) i of
                     None \<Rightarrow> 0
                   | Some m \<Rightarrow> cm_cohesion_permille m)
            in \<lparr>su_id = i, su_label = label, su_size = length ms, su_members = ms,
                su_cohesion_permille = cohesion\<rparr>)
       (group_members v)"

definition target_id :: "edge \<Rightarrow> node_id" where
  "target_id e = (case e_target e of Node t \<Rightarrow> t | Symbol _ \<Rightarrow> e_source e)"

definition bridge_of :: "graph_view \<Rightarrow> edge \<Rightarrow> bridge option" where
  "bridge_of v e =
     (case e_target e of
        Symbol _ \<Rightarrow> None
      | Node t \<Rightarrow>
          if is_structural (e_relation e) then None
          else
            (case (community_id_of v (e_source e), community_id_of v t) of
               (Some from, Some to) \<Rightarrow>
                 if from \<noteq> to then Some \<lparr>br_edge = e, br_from = from, br_to = to\<rparr> else None
             | _ \<Rightarrow> None))"

definition bridge_key :: "bridge \<Rightarrow> community_id \<times> community_id \<times> node_id \<times> node_id" where
  "bridge_key b = (br_from b, br_to b, e_source (br_edge b), target_id (br_edge b))"

definition bridges :: "graph_view \<Rightarrow> bridge list" where
  "bridges v =
     sort_by (\<lambda>a b. cmp (bridge_key a) (bridge_key b)) (List.map_filter (bridge_of v) (v_edges v))"

definition view_report :: "petgraph \<Rightarrow> graph_view \<Rightarrow> nat \<Rightarrow> graph_report" where
  "view_report pg v top_gods =
     \<lparr>gr_stats = stats v, gr_god_nodes = god_nodes pg v top_gods,
      gr_communities = community_summaries v, gr_bridges = bridges v,
      gr_projects = project_graph v\<rparr>"

section \<open>Rendering\<close>

definition em_dash :: string where
  "em_dash = [CHR 0xE2, CHR 0x80, CHR 0x94]"

definition arrow :: string where
  "arrow = [CHR 0xE2, CHR 0x86, CHR 0x92]"

definition writeln :: "string \<Rightarrow> string" where
  "writeln s = s @ [CHR 0x0A]"

definition project_label :: "project_node \<Rightarrow> string" where
  "project_label p =
     (case pn_name p of
        Some n \<Rightarrow> n
      | None \<Rightarrow> if pn_root p = [] then ''<root>'' else pn_root p)"

definition report_labels :: "graph_report \<Rightarrow> (community_id, string) btree" where
  "report_labels r = bt_collect (map (\<lambda>c. (su_id c, su_label c)) (gr_communities r))"

definition id_community :: "node \<Rightarrow> graph_report \<Rightarrow> community_id" where
  "id_community n r =
     (case find (\<lambda>c. list_ex (\<lambda>m. n_id m = n_id n) (su_members c)) (gr_communities r) of
        Some c \<Rightarrow> su_id c
      | None \<Rightarrow> - 1)" \<comment> \<open>\<^verbatim>\<open>u64::MAX\<close>\<close>

definition name_of_root :: "project_node list \<Rightarrow> string \<Rightarrow> string" where
  "name_of_root ps r =
     (case bt_get (bt_collect (map (\<lambda>p. (pn_root p, project_label p)) ps)) r of
        None \<Rightarrow> r
      | Some n \<Rightarrow> n)"

definition render_projects :: "project_node list \<Rightarrow> string" where
  "render_projects ps =
     (if ps = [] then writeln (writeln ''_none_'')
      else
        writeln ''| project | files | depends on |'' @ writeln ''|---|---|---|''
        @ concat (map (\<lambda>p.
            let deps = join_str '', '' (map (name_of_root ps) (pn_depends_on p));
                deps = (if deps = [] then em_dash else deps)
            in writeln (''| '' @ project_label p @ '' | '' @ show_nat (pn_files p) @ '' | '' @ deps
                 @ '' |'')) ps)
        @ writeln [])"

definition render_god_row ::
  "(community_id, string) btree \<Rightarrow> graph_report \<Rightarrow> nat \<Rightarrow> node \<times> nat \<Rightarrow> string"
where
  "render_god_row labels r i = (\<lambda>(n, deg).
     let comm = (case bt_get labels (id_community n r) of None \<Rightarrow> em_dash | Some c \<Rightarrow> c)
     in writeln (''| '' @ show_nat (i + 1) @ '' | '' @ n_label n @ '' | '' @ n_kind n @ '' | ''
          @ show_nat deg @ '' | '' @ comm @ '' |''))"

definition render_community :: "(u16 \<Rightarrow> string) \<Rightarrow> community_summary \<Rightarrow> string" where
  "render_community fmt2 c =
     writeln (writeln (''### '' @ su_label c @ '' '' @ em_dash @ '' community ''
       @ show_nat (unat (su_id c)) @ '' ('' @ show_nat (su_size c) @ '' nodes, cohesion ''
       @ fmt2 (su_cohesion_permille c) @ '')''))
     @ writeln (writeln (join_str '', '' (map n_label (su_members c))))"

definition render_bridge :: "(community_id, string) btree \<Rightarrow> bridge \<Rightarrow> string" where
  "render_bridge labels b =
     (let name = (\<lambda>c. case bt_get labels c of None \<Rightarrow> em_dash | Some l \<Rightarrow> l);
          dst = (case e_target (br_edge b) of Node t \<Rightarrow> the_id t | Symbol s \<Rightarrow> t_name s)
      in writeln (''- **'' @ name (br_from b) @ ''** '' @ arrow @ '' **'' @ name (br_to b)
           @ ''**: `'' @ the_id (e_source (br_edge b)) @ ''` --'' @ e_relation (br_edge b)
           @ ''--> `'' @ dst @ ''`''))"

definition render_markdown :: "(u16 \<Rightarrow> string) \<Rightarrow> graph_report \<Rightarrow> string" where
  "render_markdown fmt2 r =
     (let labels = report_labels r; st = gr_stats r
      in writeln (writeln ''# Graph Report'')
         @ writeln (writeln (''**'' @ show_nat (gs_nodes st) @ '' nodes**, '' @ show_nat (gs_edges st)
             @ '' edges, '' @ show_nat (gs_communities st) @ '' communities.''))
         @ writeln (writeln ''## Projects'')
         @ writeln (writeln (''The project dependency graph '' @ em_dash
             @ '' packages and their `depends_on` edges (ADR-0019).''))
         @ render_projects (gr_projects r)
         @ writeln (writeln ''## Confidence'')
         @ writeln ''| confidence | edges |'' @ writeln ''|---|---|''
         @ concat (map (\<lambda>(conf, count). writeln (''| '' @ conf @ '' | '' @ show_nat count @ '' |''))
             (gs_by_confidence st))
         @ writeln []
         @ writeln (writeln ''## God nodes'')
         @ writeln (writeln
             ''The most connected abstractions (semantic degree, structural edges excluded).'')
         @ writeln ''| # | node | kind | degree | community |'' @ writeln ''|---|---|---|---|---|''
         @ concat (map (\<lambda>(i, g). render_god_row labels r i g) (enumerate 0 (gr_god_nodes r)))
         @ writeln []
         @ writeln (writeln ''## Communities'')
         @ concat (map (render_community fmt2) (gr_communities r))
         @ writeln (writeln ''## Cross-community bridges'')
         @ writeln (writeln (''Semantic edges whose endpoints fall in different communities ''
             @ em_dash @ '' the seams.''))
         @ (if gr_bridges r = [] then writeln ''_none_''
            else concat (map (render_bridge labels) (gr_bridges r))))"

section \<open>What the report holds\<close>

lemma bridges_sorted: "sorted (map bridge_key (bridges v))"
  by (simp add: bridges_def sort_by_key [where f = bridge_key])

lemma bridges_mset: "mset (bridges v) = mset (List.map_filter (bridge_of v) (v_edges v))"
  by (simp add: bridges_def)

text \<open>A bridge is a resolved non-structural edge between two communities, and every such edge is one.\<close>

lemma in_bridges:
  "b \<in> set (bridges v) \<longleftrightarrow>
     br_edge b \<in> set (v_edges v) \<and> \<not> is_structural (e_relation (br_edge b))
     \<and> community_id_of v (e_source (br_edge b)) = Some (br_from b)
     \<and> (\<exists>t. e_target (br_edge b) = Node t \<and> community_id_of v t = Some (br_to b))
     \<and> br_from b \<noteq> br_to b"
proof -
  have "bridge_of v e = Some b \<longleftrightarrow>
      br_edge b = e \<and> \<not> is_structural (e_relation e)
      \<and> community_id_of v (e_source e) = Some (br_from b)
      \<and> (\<exists>t. e_target e = Node t \<and> community_id_of v t = Some (br_to b)) \<and> br_from b \<noteq> br_to b" for e
    by (cases b; cases "e_target e") (auto simp: bridge_of_def split: option.split)
  then show ?thesis by (auto simp: bridges_def in_set_map_filter)
qed

lemma group_members_get:
  "bt_get_list (group_members v) cid
     = filter (\<lambda>n. community_id_of v (n_id n) = Some cid) (v_nodes v)"
proof -
  have "bt_get_list (foldl (\<lambda>m n. case community_id_of v (n_id n) of
            None \<Rightarrow> m | Some cid \<Rightarrow> bt_push cid n m) m ns) cid
      = bt_get_list m cid @ filter (\<lambda>n. community_id_of v (n_id n) = Some cid) ns" for m ns
    by (induction ns arbitrary: m) (auto simp: bt_get_list_push split: option.split)
  from this [of bt_empty] show ?thesis by (simp add: group_members_def)
qed

end
