(* ===== verification/Pipeline.thy ===== *)
theory Pipeline
  imports Store Sort_By
begin

text \<open>
  The orchestrator \<^verbatim>\<open>filigrio-pipeline\<close>: freshness of a file against the manifest (\<^verbatim>\<open>dedup.rs\<close>),
  reconciliation of a project with its tree (\<^verbatim>\<open>reconcile.rs\<close>), and the apply core with its signal
  gate and shrink guard (\<^verbatim>\<open>lib.rs\<close>). The file system, the boundary walk and the third-party
  SHA-256 are the parameter \<open>host\<close>; the store is the record \<open>store_port\<close> of the methods called.
\<close>

record host =
  h_engine :: engine_env
  h_in_scope :: "string \<Rightarrow> bool"
  h_root :: "string option"
  h_walk :: "string \<Rightarrow> error + string list"
  h_read_file :: "string \<Rightarrow> string + bytes"
  h_modified :: "string \<Rightarrow> nat option" \<comment> \<open>nanoseconds since the epoch\<close>
  h_sha256_hex :: "bytes \<Rightarrow> string"

record 's store_port =
  so_load :: "'s \<Rightarrow> error + graph_state option"
  so_apply :: "'s \<Rightarrow> graph_delta \<Rightarrow> error + 's"

text \<open>The store that the daemon hands to the pipeline.\<close>

definition deferred_port :: "deferred_store store_port" where
  "deferred_port = \<lparr>so_load = deferred_load, so_apply = deferred_apply\<rparr>"

text \<open>\<^verbatim>\<open>Path::join\<close>, and the \<^verbatim>\<open>Display\<close> text of an error.\<close>

definition path_join :: "string \<Rightarrow> string \<Rightarrow> string" where
  "path_join root rel =
     (if starts_with rel ''/'' then rel
      else if root = [] \<or> ends_with root ''/'' then root @ rel
      else root @ ''/'' @ rel)"

fun show_error :: "error \<Rightarrow> string" where
  "show_error (Io m) = ''io: '' @ m"
| "show_error (Parse m) = ''parse: '' @ m"
| "show_error (Storage m) = ''storage: '' @ m"
| "show_error (NotFound m) = ''not found: '' @ m"
| "show_error (Protocol m) = ''protocol: '' @ m"
| "show_error (Other m) = m"

section \<open>Freshness of a file\<close>

datatype dedup_result = Unchanged | Changed | Missing

definition hex_digit :: "char \<Rightarrow> nat option" where
  "hex_digit c =
     (case char_digit c of
        Some d \<Rightarrow> Some d
      | None \<Rightarrow>
          (let l = lower_char c
           in if CHR ''a'' \<le> l \<and> l \<le> CHR ''f'' then Some (of_char l - 87) else None))"

fun parse_hex_digits :: "nat \<Rightarrow> string \<Rightarrow> nat option" where
  "parse_hex_digits acc [] = Some acc"
| "parse_hex_digits acc (c # s) =
     (case hex_digit c of
        None \<Rightarrow> None
      | Some d \<Rightarrow> if 16 * acc + d < 2 ^ 64 then parse_hex_digits (16 * acc + d) s else None)"

text \<open>\<^verbatim>\<open>u64::from_str_radix(s, 16)\<close>.\<close>

definition parse_hex64 :: "string \<Rightarrow> u64 option" where
  "parse_hex64 s =
     (let digits = (case s of c # r \<Rightarrow> if c = CHR ''+'' then r else s | [] \<Rightarrow> s)
      in if digits = [] then None else map_option of_nat (parse_hex_digits 0 digits))"

definition hash_file :: "host \<Rightarrow> string \<Rightarrow> string + string" where
  "hash_file h path =
     (case h_read_file h path of Inl err \<Rightarrow> Inl err | Inr b \<Rightarrow> Inr (h_sha256_hex h b))"

definition hash_file_u64 :: "host \<Rightarrow> string \<Rightarrow> string + u64" where
  "hash_file_u64 h path =
     (case hash_file h path of
        Inl err \<Rightarrow> Inl err
      | Inr hex \<Rightarrow> Inr (case parse_hex64 (take 16 hex) of None \<Rightarrow> 0 | Some w \<Rightarrow> w))"

definition get_mtime :: "host \<Rightarrow> string \<Rightarrow> u64 option" where
  "get_mtime h path = map_option of_nat (h_modified h path)"

definition dedup_file ::
  "host \<Rightarrow> string \<Rightarrow> string \<Rightarrow> file_manifest \<Rightarrow> u64 option \<Rightarrow> bool \<Rightarrow> string + dedup_result"
where
  "dedup_file h abs_path key manifest mtime deep =
     (case bt_get manifest key of
        None \<Rightarrow> Inr Missing
      | Some e \<Rightarrow>
          if \<not> deep \<and> me_last_modified e \<noteq> None \<and> mtime \<noteq> None \<and> mtime = me_last_modified e
          then Inr Unchanged
          else
            (case hash_file_u64 h abs_path of
               Inl err \<Rightarrow> Inl err
             | Inr w \<Rightarrow> if w = me_hash e then Inr Unchanged else Inr Changed))"

definition update_manifest_entry ::
  "host \<Rightarrow> string \<Rightarrow> string \<Rightarrow> file_manifest \<Rightarrow> string + file_manifest"
where
  "update_manifest_entry h abs_path key manifest =
     (case hash_file_u64 h abs_path of
        Inl err \<Rightarrow> Inl err
      | Inr w \<Rightarrow>
          Inr (bt_insert key
            \<lparr>me_hash = w, me_last_modified = get_mtime h abs_path,
             me_revision = latest_revision manifest\<rparr> manifest))"

section \<open>Reconciliation\<close>

record reconcile_report =
  rr_checked :: nat
  rr_changed :: nat
  rr_added :: nat
  rr_removed :: nat
  rr_has_drift :: bool

definition rr_empty :: reconcile_report where
  "rr_empty = \<lparr>rr_checked = 0, rr_changed = 0, rr_added = 0, rr_removed = 0, rr_has_drift = False\<rparr>"

definition check_file ::
  "host \<Rightarrow> string \<Rightarrow> file_manifest \<Rightarrow> bool \<Rightarrow> reconcile_report \<times> change_set \<Rightarrow> string \<Rightarrow>
     reconcile_report \<times> change_set"
where
  "check_file h root manifest deep = (\<lambda>(r, cs) p.
     let path = path_join root p;
         r = r\<lparr>rr_checked := rr_checked r + 1\<rparr>
     in if \<not> is_indexable p then (r, cs)
        else
          (case dedup_file h path p manifest (get_mtime h path) deep of
             Inr Missing \<Rightarrow>
               (r\<lparr>rr_added := rr_added r + 1, rr_has_drift := True\<rparr>,
                cs\<lparr>added := added cs @ [p]\<rparr>)
           | Inr Unchanged \<Rightarrow> (r, cs)
           | _ \<Rightarrow>
               (r\<lparr>rr_changed := rr_changed r + 1, rr_has_drift := True\<rparr>,
                cs\<lparr>modified := modified cs @ [p]\<rparr>)))"

definition check_removed ::
  "string list \<Rightarrow> reconcile_report \<times> change_set \<Rightarrow> string \<Rightarrow> reconcile_report \<times> change_set"
where
  "check_removed files = (\<lambda>(r, cs) p.
     if p \<notin> set files
     then (r\<lparr>rr_removed := rr_removed r + 1, rr_has_drift := True\<rparr>,
           cs\<lparr>removed := removed cs @ [p]\<rparr>)
     else (r, cs))"

definition reconcile ::
  "host \<Rightarrow> string \<Rightarrow> graph_state \<Rightarrow> bool \<Rightarrow> string + reconcile_report \<times> change_set"
where
  "reconcile h root state deep =
     (case h_walk h root of
        Inl err \<Rightarrow> Inl (''boundary walk failed: '' @ show_error err)
      | Inr files \<Rightarrow>
          Inr (foldl (check_removed files)
                (foldl (check_file h root (s_manifest state) deep)
                  (rr_empty, \<lparr>added = [], modified = [], removed = []\<rparr>) files)
                (bt_keys (s_manifest state))))"

section \<open>The apply core\<close>

record build_report =
  b_changed :: nat
  b_nodes_added :: nat
  b_nodes_removed :: nat
  b_edges_added :: nat
  b_edges_removed :: nat
  b_affected :: nat
  b_vanished :: nat

definition build_report_default :: build_report where
  "build_report_default =
     \<lparr>b_changed = 0, b_nodes_added = 0, b_nodes_removed = 0, b_edges_added = 0,
      b_edges_removed = 0, b_affected = 0, b_vanished = 0\<rparr>"

definition report_of :: "change_set \<Rightarrow> graph_delta \<Rightarrow> build_report" where
  "report_of changes delta =
     \<lparr>b_changed = cs_len changes, b_nodes_added = length (d_nodes_added delta),
      b_nodes_removed = length (d_nodes_removed delta),
      b_edges_added = length (d_edges_added delta),
      b_edges_removed = length (d_edges_removed delta),
      b_affected = d_affected delta, b_vanished = d_vanished delta\<rparr>"

record pipeline =
  pl_host :: host
  pl_shrink_guard :: bool
  pl_link_scope :: link_scope
  pl_cluster_timing :: cluster_timing

definition pipeline_new :: "host \<Rightarrow> pipeline" where
  "pipeline_new h =
     \<lparr>pl_host = h, pl_shrink_guard = False, pl_link_scope = Global, pl_cluster_timing = Inline\<rparr>"

definition with_shrink_guard :: "pipeline \<Rightarrow> bool \<Rightarrow> pipeline" where
  "with_shrink_guard pl on = pl\<lparr>pl_shrink_guard := on\<rparr>"

definition with_link_scope :: "pipeline \<Rightarrow> link_scope \<Rightarrow> pipeline" where
  "with_link_scope pl scope = pl\<lparr>pl_link_scope := scope\<rparr>"

definition with_cluster_timing :: "pipeline \<Rightarrow> cluster_timing \<Rightarrow> pipeline" where
  "with_cluster_timing pl timing = pl\<lparr>pl_cluster_timing := timing\<rparr>"

definition is_stray :: "node_id list \<Rightarrow> string list \<Rightarrow> node \<Rightarrow> bool" where
  "is_stray gone touch n \<longleftrightarrow>
     n_id n \<in> set gone \<and> (case n_file n of None \<Rightarrow> False | Some f \<Rightarrow> f \<notin> set touch)"

definition check_shrink_guard :: "graph \<Rightarrow> node_id list \<Rightarrow> string list \<Rightarrow> error + unit" where
  "check_shrink_guard prior gone touch =
     (if gone = [] then Inr ()
      else
        (case filter (is_stray gone touch) (g_nodes prior) of
           [] \<Rightarrow> Inr ()
         | first # rest \<Rightarrow>
             Inl (Other (''shrink guard: apply would drop '' @ show_nat (1 + length rest)
               @ '' node(s) from files it did not touch (first: `'' @ the_id (n_id first)
               @ ''` in `'' @ (case n_file first of None \<Rightarrow> [] | Some f \<Rightarrow> f) @ ''`)''))))"

definition stamp_entry :: "host \<Rightarrow> string \<Rightarrow> file_manifest \<Rightarrow> string \<Rightarrow> file_manifest" where
  "stamp_entry h root m rel =
     (case bt_get m rel of
        None \<Rightarrow> m
      | Some e \<Rightarrow>
          (let full = path_join root rel;
               e = e\<lparr>me_last_modified := get_mtime h full\<rparr>
           in bt_insert rel
                (case hash_file_u64 h full of Inl _ \<Rightarrow> e | Inr w \<Rightarrow> e\<lparr>me_hash := w\<rparr>) m))"

definition stamp_manifest :: "host \<Rightarrow> change_set \<Rightarrow> file_manifest \<Rightarrow> file_manifest" where
  "stamp_manifest h changes m =
     (case h_root h of
        None \<Rightarrow> m
      | Some root \<Rightarrow> foldl (stamp_entry h root) m (added changes @ modified changes))"

definition pipeline_apply ::
  "pipeline \<Rightarrow> 's store_port \<Rightarrow> 's \<Rightarrow> graph_state \<Rightarrow> change_set \<Rightarrow> error + 's \<times> build_report"
where
  "pipeline_apply pl ops store prior changes =
     (case apply_with prior changes (h_engine (pl_host pl)) (pl_link_scope pl)
             (pl_cluster_timing pl) of
        Inl err \<Rightarrow> Inl err
      | Inr delta0 \<Rightarrow>
          (let delta = delta0\<lparr>d_manifest := stamp_manifest (pl_host pl) changes (d_manifest delta0)\<rparr>
           in case (if pl_shrink_guard pl
                    then check_shrink_guard (s_graph prior) (d_nodes_removed delta)
                           (d_dirty_files delta)
                    else Inr ()) of
                Inl err \<Rightarrow> Inl err
              | Inr _ \<Rightarrow>
                  (case so_apply ops store delta of
                     Inl err \<Rightarrow> Inl err
                   | Inr store' \<Rightarrow> Inr (store', report_of changes delta))))"

section \<open>Signals and reconciliation\<close>

definition gate_keep :: "host \<Rightarrow> file_manifest \<Rightarrow> string \<Rightarrow> string \<Rightarrow> bool" where
  "gate_keep h manifest root rel \<longleftrightarrow>
     (if \<not> h_in_scope h rel then False
      else
        (let abs = path_join root rel
         in dedup_file h abs rel manifest (get_mtime h abs) False \<noteq> Inr Unchanged))"

definition gate_changeset :: "change_set \<Rightarrow> graph_state \<Rightarrow> host \<Rightarrow> string \<Rightarrow> change_set" where
  "gate_changeset cs prior h root =
     \<lparr>added = filter (gate_keep h (s_manifest prior) root) (added cs),
      modified = filter (gate_keep h (s_manifest prior) root) (modified cs),
      removed = removed cs\<rparr>"

definition apply_signal ::
  "pipeline \<Rightarrow> 's store_port \<Rightarrow> 's \<Rightarrow> graph_state \<Rightarrow> change_set \<Rightarrow> error + 's \<times> build_report"
where
  "apply_signal pl ops store prior raw =
     (case h_root (pl_host pl) of
        None \<Rightarrow> Inl (Io ''apply_signal requires a filesystem source'')
      | Some root \<Rightarrow>
          (let effective = gate_changeset raw prior (pl_host pl) root
           in if added effective = [] \<and> modified effective = [] \<and> removed effective = []
              then Inr (store, build_report_default)
              else pipeline_apply pl ops store prior effective))"

definition reconcile_and_apply ::
  "pipeline \<Rightarrow> 's store_port \<Rightarrow> 's \<Rightarrow> graph_state \<Rightarrow> bool \<Rightarrow>
     error + 's \<times> reconcile_report \<times> build_report"
where
  "reconcile_and_apply pl ops store prior deep =
     (case h_root (pl_host pl) of
        None \<Rightarrow> Inl (Io ''reconcile requires a filesystem source'')
      | Some root \<Rightarrow>
          (case reconcile (pl_host pl) root prior deep of
             Inl e \<Rightarrow> Inl (Io (''reconcile: '' @ e))
           | Inr (report, changeset) \<Rightarrow>
               if rr_has_drift report
               then (case pipeline_apply pl ops store prior changeset of
                       Inl err \<Rightarrow> Inl err
                     | Inr (store', b) \<Rightarrow> Inr (store', report, b))
               else Inr (store, report, build_report_default)))"

definition build :: "pipeline \<Rightarrow> 's store_port \<Rightarrow> 's \<Rightarrow> error + 's \<times> build_report" where
  "build pl ops store =
     (case so_load ops store of
        Inl err \<Rightarrow> Inl err
      | Inr loaded \<Rightarrow>
          (let prior = (case loaded of None \<Rightarrow> graph_state_default | Some s \<Rightarrow> s)
           in case reconcile_and_apply pl ops store prior False of
                Inl err \<Rightarrow> Inl err
              | Inr (store', _, b) \<Rightarrow> Inr (store', b)))"

end
