(* ===== verification/Pipeline_Props.thy ===== *)
theory Pipeline_Props
  imports Pipeline
begin

text \<open>
  What the orchestrator guarantees: the shrink guard never stands in the way of the engine's own
  patch, and an applied reconciliation leaves nothing to reconcile.
\<close>

section \<open>What an apply removes\<close>

lemma apply_with_front:
  assumes "apply_with prior changes env scope timing = Inr delta"
  obtains fx where "run_front_extract prior changes env = Inr fx"
    and "d_nodes_removed delta = canon (map n_id (fx_dropped_nodes fx)) @ map n_id (fx_project_nodes fx)"
    and "d_dirty_files delta = canon (touched (fx_changes fx))"
    and "d_manifest delta = maintain_manifest (s_manifest prior) (fx_changes fx)"
  using assms
  by (auto simp: apply_with_def run_front_link_def Let_def split: sum.splits prod.splits)

lemma run_front_extract_parts:
  assumes "run_front_extract prior changes env = Inr fx"
  shows "fx_changes fx = fst (fold_vanished changes (env_source env))"
    and "fx_dropped_nodes fx = filter (in_dropped (touched (fx_changes fx))) (g_nodes (s_graph prior))"
    and "fx_project_nodes fx = filter (\<lambda>n. n_kind n = ''project'')
           (filter (\<lambda>n. \<not> in_dropped (touched (fx_changes fx)) n) (g_nodes (s_graph prior)))"
  using assms by (auto simp: run_front_extract_def Let_def split: sum.splits prod.splits)

text \<open>The guard passes exactly when each removed node that has a file was in a touched one.\<close>

lemma check_shrink_guard_iff:
  "check_shrink_guard prior gone touch = Inr () \<longleftrightarrow>
     (\<forall>n \<in> set (g_nodes prior). n_id n \<in> set gone \<longrightarrow>
        (\<forall>f. n_file n = Some f \<longrightarrow> f \<in> set touch))"
proof -
  have "check_shrink_guard prior gone touch = Inr ()
      \<longleftrightarrow> filter (is_stray gone touch) (g_nodes prior) = []"
    by (auto simp: check_shrink_guard_def is_stray_def split: list.split)
  then show ?thesis
    by (auto simp: filter_empty_conv is_stray_def split: option.splits)
qed

definition overlay_fileless :: "graph_state \<Rightarrow> bool" where
  "overlay_fileless st \<longleftrightarrow>
     list_all (\<lambda>n. n_kind n = ''project'' \<longrightarrow> n_file n = None) (g_nodes (s_graph st))"

lemma guard_passes:
  assumes ids: "distinct (map n_id (g_nodes (s_graph prior)))" and "overlay_fileless prior"
    and delta: "apply_with prior changes env scope timing = Inr delta"
  shows "check_shrink_guard (s_graph prior) (d_nodes_removed delta) (d_dirty_files delta) = Inr ()"
  unfolding check_shrink_guard_iff
proof (intro ballI impI allI)
  fix n f assume n: "n \<in> set (g_nodes (s_graph prior))" "n_id n \<in> set (d_nodes_removed delta)"
    "n_file n = Some f"
  obtain fx where fx: "run_front_extract prior changes env = Inr fx"
    "d_nodes_removed delta = canon (map n_id (fx_dropped_nodes fx)) @ map n_id (fx_project_nodes fx)"
    "d_dirty_files delta = canon (touched (fx_changes fx))"
    using apply_with_front [OF delta] by blast
  note parts = run_front_extract_parts [OF fx(1)]
  from n(2) fx(2) obtain m where m: "n_id m = n_id n"
    "m \<in> set (fx_dropped_nodes fx) \<or> m \<in> set (fx_project_nodes fx)" by auto
  with parts have "m \<in> set (g_nodes (s_graph prior))" by auto
  with m(1) n(1) ids have "m = n" by (auto simp: distinct_map dest: inj_onD)
  with m(2) parts n(3) \<open>overlay_fileless prior\<close> n(1)
  have "in_dropped (touched (fx_changes fx)) n"
    by (auto simp: overlay_fileless_def list_all_iff)
  with n(3) fx(3) show "f \<in> set (d_dirty_files delta)" by (simp add: in_dropped_def)
qed

section \<open>What a reconciliation finds\<close>

definition verdict :: "host \<Rightarrow> string \<Rightarrow> file_manifest \<Rightarrow> bool \<Rightarrow> string \<Rightarrow> string + dedup_result" where
  "verdict h root m deep p =
     dedup_file h (path_join root p) p m (get_mtime h (path_join root p)) deep"

definition found_added :: "host \<Rightarrow> string \<Rightarrow> file_manifest \<Rightarrow> bool \<Rightarrow> string list \<Rightarrow> string list" where
  "found_added h root m deep files =
     filter (\<lambda>p. is_indexable p \<and> verdict h root m deep p = Inr Missing) files"

definition found_modified :: "host \<Rightarrow> string \<Rightarrow> file_manifest \<Rightarrow> bool \<Rightarrow> string list \<Rightarrow> string list" where
  "found_modified h root m deep files =
     filter (\<lambda>p. is_indexable p \<and> verdict h root m deep p \<noteq> Inr Missing
                 \<and> verdict h root m deep p \<noteq> Inr Unchanged) files"

lemma check_file_cases:
  "check_file h root m deep (r, cs) p =
     (if \<not> is_indexable p \<or> verdict h root m deep p = Inr Unchanged
      then (r\<lparr>rr_checked := rr_checked r + 1\<rparr>, cs)
      else if verdict h root m deep p = Inr Missing
      then (r\<lparr>rr_checked := rr_checked r + 1, rr_added := rr_added r + 1, rr_has_drift := True\<rparr>,
            cs\<lparr>added := added cs @ [p]\<rparr>)
      else (r\<lparr>rr_checked := rr_checked r + 1, rr_changed := rr_changed r + 1, rr_has_drift := True\<rparr>,
            cs\<lparr>modified := modified cs @ [p]\<rparr>))"
  by (auto simp: check_file_def verdict_def Let_def split: sum.split dedup_result.split)

lemma check_files:
  "\<exists>r'. foldl (check_file h root m deep) (r, cs) files
       = (r', cs\<lparr>added := added cs @ found_added h root m deep files,
                 modified := modified cs @ found_modified h root m deep files\<rparr>)
     \<and> (rr_has_drift r' \<longleftrightarrow> rr_has_drift r \<or> found_added h root m deep files \<noteq> []
          \<or> found_modified h root m deep files \<noteq> [])"
proof (induction files arbitrary: r cs)
  case Nil
  then show ?case by (simp add: found_added_def found_modified_def)
next
  case (Cons p files)
  obtain r1 cs1 where step: "check_file h root m deep (r, cs) p = (r1, cs1)" by fastforce
  from Cons.IH [of r1 cs1] obtain r' where IH:
    "foldl (check_file h root m deep) (r1, cs1) files
       = (r', cs1\<lparr>added := added cs1 @ found_added h root m deep files,
                  modified := modified cs1 @ found_modified h root m deep files\<rparr>)"
    "rr_has_drift r' \<longleftrightarrow> rr_has_drift r1 \<or> found_added h root m deep files \<noteq> []
       \<or> found_modified h root m deep files \<noteq> []" by blast
  from step IH show ?case
    by (auto simp: check_file_cases found_added_def found_modified_def split: if_splits)
qed

lemma check_removes:
  "\<exists>r'. foldl (check_removed files) (r, cs) keys
       = (r', cs\<lparr>removed := removed cs @ filter (\<lambda>p. p \<notin> set files) keys\<rparr>)
     \<and> (rr_has_drift r' \<longleftrightarrow> rr_has_drift r \<or> filter (\<lambda>p. p \<notin> set files) keys \<noteq> [])"
proof (induction keys arbitrary: r cs)
  case (Cons p keys)
  obtain r1 cs1 where step: "check_removed files (r, cs) p = (r1, cs1)" by fastforce
  from Cons.IH [of r1 cs1] obtain r' where IH:
    "foldl (check_removed files) (r1, cs1) keys
       = (r', cs1\<lparr>removed := removed cs1 @ filter (\<lambda>p. p \<notin> set files) keys\<rparr>)"
    "rr_has_drift r' \<longleftrightarrow> rr_has_drift r1 \<or> filter (\<lambda>p. p \<notin> set files) keys \<noteq> []" by blast
  from step IH show ?case by (auto simp: check_removed_def split: if_splits)
qed simp

lemma reconcile_found:
  assumes "h_walk h root = Inr files"
  shows "\<exists>r. reconcile h root st deep =
      Inr (r, \<lparr>added = found_added h root (s_manifest st) deep files,
               modified = found_modified h root (s_manifest st) deep files,
               removed = filter (\<lambda>p. p \<notin> set files) (bt_keys (s_manifest st))\<rparr>)
    \<and> (rr_has_drift r \<longleftrightarrow> found_added h root (s_manifest st) deep files \<noteq> []
        \<or> found_modified h root (s_manifest st) deep files \<noteq> []
        \<or> filter (\<lambda>p. p \<notin> set files) (bt_keys (s_manifest st)) \<noteq> [])"
proof -
  let ?m = "s_manifest st" and ?cs0 = "\<lparr>added = [], modified = [], removed = []\<rparr> :: change_set"
  obtain r1 where r1: "foldl (check_file h root ?m deep) (rr_empty, ?cs0) files
       = (r1, \<lparr>added = found_added h root ?m deep files,
               modified = found_modified h root ?m deep files, removed = []\<rparr>)"
    "rr_has_drift r1 \<longleftrightarrow> found_added h root ?m deep files \<noteq> []
       \<or> found_modified h root ?m deep files \<noteq> []"
    using check_files [of h root ?m deep rr_empty ?cs0 files] by (auto simp: rr_empty_def)
  from check_removes [of files r1 "\<lparr>added = found_added h root ?m deep files,
               modified = found_modified h root ?m deep files, removed = []\<rparr>" "bt_keys ?m"] r1
  show ?thesis by (auto simp: reconcile_def assms)
qed

section \<open>An applied reconciliation leaves nothing to reconcile\<close>

lemma in_bt_keys: "p \<in> set (bt_keys m) \<longleftrightarrow> bt_get m p \<noteq> None"
  by (simp add: bt_keys_def bt_get_def map_of_eq_None_iff)

lemma get_maintain_manifest:
  "bt_get (maintain_manifest m cs) p =
     (if p \<in> set (removed cs) then None
      else if p \<in> set (to_index cs)
      then Some \<lparr>me_hash = 0, me_last_modified = None, me_revision = None\<rparr>
      else bt_get m p)"
proof -
  let ?e = "\<lparr>me_hash = 0, me_last_modified = None, me_revision = None\<rparr> :: manifest_entry"
  have "bt_get (foldl (\<lambda>m path. bt_insert path ?e m) m ps) p
      = (if p \<in> set ps then Some ?e else bt_get m p)" for ps and m :: file_manifest
    by (induction ps arbitrary: m) (auto simp: bt_get_insert)
  moreover have "bt_get (foldl (\<lambda>m path. bt_remove path m) m ps) p
      = (if p \<in> set ps then None else bt_get m p)" for ps and m :: file_manifest
    by (induction ps arbitrary: m) (auto simp: bt_get_remove)
  ultimately show ?thesis by (simp add: maintain_manifest_def)
qed

definition stamped :: "host \<Rightarrow> string \<Rightarrow> string \<Rightarrow> manifest_entry \<Rightarrow> manifest_entry" where
  "stamped h root p e =
     (let full = path_join root p; e = e\<lparr>me_last_modified := get_mtime h full\<rparr>
      in case hash_file_u64 h full of Inl _ \<Rightarrow> e | Inr w \<Rightarrow> e\<lparr>me_hash := w\<rparr>)"

lemma stamped_idem [simp]: "stamped h root p (stamped h root p e) = stamped h root p e"
  by (auto simp: stamped_def Let_def split: sum.split)

lemma get_stamp_fold:
  "bt_get (foldl (stamp_entry h root) m ps) p =
     (if p \<in> set ps then map_option (stamped h root p) (bt_get m p) else bt_get m p)"
proof (induction ps arbitrary: m)
  case (Cons q ps)
  have "bt_get (stamp_entry h root m q) p
      = (if p = q then map_option (stamped h root p) (bt_get m p) else bt_get m p)"
    by (auto simp: stamp_entry_def stamped_def Let_def bt_get_insert split: option.split)
  with Cons.IH [of "stamp_entry h root m q"] show ?case
    by (auto simp: option.map_comp comp_def)
qed simp

text \<open>A project at rest: the walk lists existing files and each indexable one can be read.\<close>

definition settled :: "host \<Rightarrow> string \<Rightarrow> string list \<Rightarrow> bool" where
  "settled h root files \<longleftrightarrow>
     h_root h = Some root \<and> h_walk h root = Inr files
     \<and> list_all (\<lambda>p. src_exists (env_source (h_engine h)) p) files
     \<and> list_all (\<lambda>p. is_indexable p \<longrightarrow> isl (h_read_file h (path_join root p)) = False) files"

lemma settled_hash:
  assumes "settled h root files" "p \<in> set files" "is_indexable p"
  shows "\<exists>w. hash_file_u64 h (path_join root p) = Inr w"
  using assms
  by (cases "h_read_file h (path_join root p)")
    (auto simp: settled_def list_all_iff hash_file_u64_def hash_file_def)

lemma verdict_stamped:
  assumes "bt_get m p = Some (stamped h root p e)" "hash_file_u64 h (path_join root p) = Inr w"
  shows "verdict h root m deep p = Inr Unchanged"
  using assms by (auto simp: verdict_def dedup_file_def stamped_def Let_def)

lemma verdict_shallower:
  assumes "verdict h root m deep p = Inr Unchanged" "bt_get m' p = bt_get m p" "deep' \<longrightarrow> deep"
  shows "verdict h root m' deep' p = Inr Unchanged"
  using assms
  by (auto simp: verdict_def dedup_file_def split: option.splits sum.splits if_splits)

definition no_change :: change_set where
  "no_change = \<lparr>added = [], modified = [], removed = []\<rparr>"

lemma reconcile_clean:
  assumes "h_walk h root = Inr files"
    and "\<And>p. p \<in> set files \<Longrightarrow> is_indexable p \<Longrightarrow> verdict h root (s_manifest st) deep p = Inr Unchanged"
    and "\<And>p. bt_get (s_manifest st) p \<noteq> None \<Longrightarrow> p \<in> set files"
  shows "\<exists>r. reconcile h root st deep = Inr (r, no_change) \<and> \<not> rr_has_drift r"
proof -
  have "found_added h root (s_manifest st) deep files = []"
    "found_modified h root (s_manifest st) deep files = []"
    using assms(2) by (auto simp: found_added_def found_modified_def filter_empty_conv)
  moreover have "filter (\<lambda>p. p \<notin> set files) (bt_keys (s_manifest st)) = []"
    using assms(3) by (auto simp: filter_empty_conv in_bt_keys)
  ultimately show ?thesis
    using reconcile_found [OF assms(1), of st deep] by (auto simp: no_change_def)
qed

lemma no_drift_clean:
  assumes "settled h root files" "reconcile h root st deep = Inr (r, cs)" "\<not> rr_has_drift r"
    and "deep' \<longrightarrow> deep"
  shows "\<exists>r. reconcile h root st deep' = Inr (r, no_change) \<and> \<not> rr_has_drift r"
proof -
  have walk: "h_walk h root = Inr files" using assms(1) by (simp add: settled_def)
  from reconcile_found [OF walk, of st deep] assms(2,3) have none:
    "found_added h root (s_manifest st) deep files = []"
    "found_modified h root (s_manifest st) deep files = []"
    "filter (\<lambda>p. p \<notin> set files) (bt_keys (s_manifest st)) = []"
    by auto
  show ?thesis
  proof (rule reconcile_clean [OF walk])
    fix p assume "p \<in> set files" "is_indexable p"
    with none(1,2) have "verdict h root (s_manifest st) deep p = Inr Unchanged"
      by (auto simp: found_added_def found_modified_def filter_empty_conv)
    then show "verdict h root (s_manifest st) deep' p = Inr Unchanged"
      using verdict_shallower assms(4) by blast
  next
    fix p assume "bt_get (s_manifest st) p \<noteq> None"
    with none(3) show "p \<in> set files" by (auto simp: filter_empty_conv in_bt_keys)
  qed
qed

lemma fold_vanished_none:
  "list_all (src_exists source) (to_index cs) \<Longrightarrow> fold_vanished cs source = (cs, 0)"
  by (auto simp: fold_vanished_def Let_def list_all_iff list_ex_iff)

lemma drift_then_clean:
  assumes settled: "settled h root files" and found: "reconcile h root st deep = Inr (r, cs)"
    and man: "s_manifest nxt = stamp_manifest h cs
        (maintain_manifest (s_manifest st) (fst (fold_vanished cs (env_source (h_engine h)))))"
    and deeper: "deep' \<longrightarrow> deep"
  shows "\<exists>r. reconcile h root nxt deep' = Inr (r, no_change) \<and> \<not> rr_has_drift r"
proof -
  let ?m = "s_manifest st"
  have walk: "h_walk h root = Inr files" using settled by (simp add: settled_def)
  from reconcile_found [OF walk, of st deep] found have cs:
    "added cs = found_added h root ?m deep files"
    "modified cs = found_modified h root ?m deep files"
    "removed cs = filter (\<lambda>p. p \<notin> set files) (bt_keys ?m)" by auto
  have idx: "set (to_index cs) \<subseteq> set files" "\<And>p. p \<in> set (to_index cs) \<Longrightarrow> is_indexable p"
    by (auto simp: to_index_def cs found_added_def found_modified_def)
  have "fold_vanished cs (env_source (h_engine h)) = (cs, 0)"
    using idx(1) settled by (intro fold_vanished_none) (auto simp: settled_def list_all_iff)
  then have get: "bt_get (s_manifest nxt) p =
      (if p \<in> set (to_index cs)
       then map_option (stamped h root p) (bt_get (maintain_manifest ?m cs) p)
       else bt_get (maintain_manifest ?m cs) p)" for p
    using settled by (auto simp: man stamp_manifest_def settled_def get_stamp_fold to_index_def option.map_comp
        comp_def)
  have keep: "p \<notin> set (removed cs)" if "p \<in> set files" for p
    using that by (simp add: cs)
  show ?thesis
  proof (rule reconcile_clean [OF walk])
    fix p assume p: "p \<in> set files" "is_indexable p"
    obtain w where w: "hash_file_u64 h (path_join root p) = Inr w"
      using settled_hash [OF settled p] by blast
    show "verdict h root (s_manifest nxt) deep' p = Inr Unchanged"
    proof (cases "p \<in> set (to_index cs)")
      case True
      with get [of p] keep [OF p(1)] show ?thesis
        by (intro verdict_stamped [OF _ w]) (simp add: get_maintain_manifest)
    next
      case False
      with p have "verdict h root ?m deep p = Inr Unchanged"
        by (auto simp: to_index_def cs found_added_def found_modified_def)
      moreover have "bt_get (s_manifest nxt) p = bt_get ?m p"
        using False get [of p] keep [OF p(1)] by (simp add: get_maintain_manifest)
      ultimately show ?thesis using verdict_shallower deeper by blast
    qed
  next
    fix p assume "bt_get (s_manifest nxt) p \<noteq> None"
    with get [of p] idx(1) show "p \<in> set files"
      by (auto simp: get_maintain_manifest cs in_bt_keys split: if_splits)
  qed
qed

section \<open>An apply that meets no failing port succeeds\<close>

text \<open>The contract of \<^verbatim>\<open>Source::exists\<close> (what exists can be read), and an extractor and a clusterer
  that return.\<close>

definition ports_return :: "engine_env \<Rightarrow> bool" where
  "ports_return env \<longleftrightarrow>
     (\<forall>p. src_exists (env_source env) p \<longrightarrow> \<not> isl (src_read (env_source env) p))
     \<and> (\<forall>a b. \<not> isl (ext_extract (env_extractor env) a b))
     \<and> (\<forall>ns es q. \<not> isl (env_cluster env ns es q))"

lemma not_isl_Inr: "\<not> isl x \<Longrightarrow> \<exists>y. x = Inr y"
  by (cases x) auto

lemma index_manifests_returns:
  assumes "\<forall>p \<in> set paths. \<not> isl (src_read source p)"
  shows "\<exists>ws'. index_manifests source from_slice paths ws = Inr ws'"
  using assms
proof (induction source from_slice paths ws rule: index_manifests.induct)
  case (2 source from_slice path paths ws)
  then show ?case
    by (cases "src_read source path") (auto simp: Let_def split: option.split)
qed simp

lemma extract_paths_returns:
  assumes "\<forall>p \<in> set paths. \<not> isl (src_read source p)"
    and "\<forall>a b. \<not> isl (ext_extract extractor a b)"
  shows "\<exists>x'. extract_paths source extractor paths x = Inr x'"
  using assms
proof (induction source extractor paths x rule: extract_paths.induct)
  case (2 source extractor path paths x)
  show ?case
  proof (cases "ext_handles extractor (classify path)")
    case True
    obtain b where b: "src_read source path = Inr b" using 2(3) not_isl_Inr by force
    obtain e where e: "ext_extract extractor (classify path) b = Inr e" using 2(4) not_isl_Inr by blast
    from 2(2) [OF refl _ b e] 2(3,4) True b e show ?thesis by (simp add: Let_def)
  next
    case False
    with 2 show ?thesis by (simp add: Let_def)
  qed
qed simp

lemma folded_paths_exist:
  "p \<in> set (to_index (fst (fold_vanished changes source))) \<Longrightarrow> src_exists source p"
  by (auto simp: fold_vanished_def Let_def to_index_def list_ex_iff split: if_splits)

lemma apply_with_returns:
  assumes "ports_return env"
  shows "\<exists>delta. apply_with prior changes env scope timing = Inr delta"
proof -
  let ?cs = "fst (fold_vanished changes (env_source env))"
  have read: "\<forall>p \<in> set (to_index ?cs). \<not> isl (src_read (env_source env) p)"
    using assms folded_paths_exist [of _ changes "env_source env"] by (auto simp: ports_return_def)
  obtain ws where "maintain_workspace (s_workspace prior) ?cs (env_source env) (env_from_slice env) = Inr ws"
    using index_manifests_returns [OF read] unfolding maintain_workspace_def by blast
  moreover obtain x where "extract_changed ?cs (env_source env) (env_extractor env) = Inr x"
    using extract_paths_returns [OF read] assms unfolding extract_changed_def ports_return_def by blast
  ultimately have "\<exists>fx. run_front_extract prior changes env = Inr fx"
    by (auto simp: run_front_extract_def Let_def case_prod_beta)
  moreover have "\<exists>q'. env_cluster env ns es q = Inr q'" for ns es q
    using assms not_isl_Inr unfolding ports_return_def by blast
  then have "\<exists>part. (case timing of Inline \<Rightarrow> env_cluster env ns es q | Deferred \<Rightarrow> Inr c) = Inr part"
    for ns es q and c :: partition
    by (cases timing) auto
  ultimately show ?thesis
    unfolding apply_with_def by (auto simp: Let_def split: prod.splits sum.splits) (metis sum.distinct(1))
qed


text \<open>C30. On a state whose node ids are distinct and whose project overlay has no file, the shrink
  guard accepts every patch the engine computes: no change set, however it was detected, makes the
  engine remove a node of a file it did not touch.\<close>

theorem engine_patch_passes_guard:
  assumes ids: "distinct (map n_id (g_nodes (s_graph prior)))" and "overlay_fileless prior"
    and delta: "apply_with prior changes env scope timing = Inr delta"
  shows "check_shrink_guard (s_graph prior) (d_nodes_removed delta) (d_dirty_files delta) = Inr ()"
  using assms by (rule guard_passes)


section \<open>A project on which they hold\<close>

definition rest_engine :: engine_env where
  "rest_engine =
     \<lparr>env_source = \<lparr>src_exists = (\<lambda>p. p = ''a.rs'' \<or> p = ''README.md''), src_read = (\<lambda>_. Inr ''fn f'')\<rparr>,
      env_extractor =
        \<lparr>ext_handles = (\<lambda>a. a_kind a = Code),
         ext_extract = (\<lambda>a b. Inr \<lparr>x_nodes = [(node_new (''file:'' @ a_path a) (a_path a) ''file'')
             \<lparr>n_file := Some (a_path a)\<rparr>], x_edges = [], x_exports = []\<rparr>)\<rparr>,
      env_from_slice = (\<lambda>_. None), env_js_ts = None, env_cluster = (\<lambda>_ _ p. Inr p)\<rparr>"

definition rest_host :: host where
  "rest_host =
     \<lparr>h_engine = rest_engine, h_in_scope = (\<lambda>_. True), h_root = Some ''/p'',
      h_walk = (\<lambda>_. Inr [''README.md'', ''a.rs'']), h_read_file = (\<lambda>_. Inr ''fn f''),
      h_modified = (\<lambda>_. Some 5), h_sha256_hex = (\<lambda>_. ''00000000000000ff'')\<rparr>"

definition rest_pipeline :: pipeline where
  "rest_pipeline = with_shrink_guard (pipeline_new rest_host) True"

definition rest_prior :: graph_state where
  "rest_prior = graph_state_default
     \<lparr>s_graph := \<lparr>g_nodes = [(node_new ''file:old.rs'' ''old.rs'' ''file'')\<lparr>n_file := Some ''old.rs''\<rparr>],
                   g_edges = []\<rparr>,
      s_manifest := bt_collect
        [(''old.rs'', \<lparr>me_hash = 1, me_last_modified = None, me_revision = None\<rparr>)]\<rparr>"

lemma rest_settled: "settled (pl_host rest_pipeline) ''/p'' [''README.md'', ''a.rs'']"
  by code_simp

lemma rest_ports: "ports_return (h_engine (pl_host rest_pipeline))"
  by (simp add: ports_return_def rest_pipeline_def with_shrink_guard_def pipeline_new_def
      rest_host_def rest_engine_def)

lemma rest_ids: "distinct (map n_id (g_nodes (s_graph rest_prior)))"
  and rest_overlay: "overlay_fileless rest_prior"
  by code_simp+


theorem engine_patch_passes_guard_witness:
  "\<exists>delta. apply_with rest_prior \<lparr>added = [''a.rs''], modified = [], removed = [''old.rs'']\<rparr>
       rest_engine Scoped Deferred = Inr delta
     \<and> check_shrink_guard (s_graph rest_prior) (d_nodes_removed delta) (d_dirty_files delta) = Inr ()"
proof -
  have "ports_return rest_engine"
    using rest_ports by (simp add: rest_pipeline_def with_shrink_guard_def pipeline_new_def
        rest_host_def)
  from apply_with_returns [OF this] obtain delta where
    "apply_with rest_prior \<lparr>added = [''a.rs''], modified = [], removed = [''old.rs'']\<rparr>
       rest_engine Scoped Deferred = Inr delta" by blast
  with engine_patch_passes_guard [OF rest_ids rest_overlay] show ?thesis by blast
qed

end
