(* ===== verification/Cache.thy ===== *)
theory Cache
  imports Query
begin

text \<open>
  The daemon's per-project state cache (\<^verbatim>\<open>filigrio-daemon/src/cache.rs\<close>): full graph states paged by
  least recent use, manifests held resident, the query index of a state kept in the state's entry. An
  \<open>Arc\<close> is an address in the heap of the states it shares, so \<open>Arc::ptr_eq\<close> is equality of
  addresses; the heap only grows. Operations return their result with the cache after them.
\<close>

type_synonym arc = nat

record resident =
  res_state :: arc
  res_view :: "graph_view option"

record evicted =
  ev_id :: string
  ev_state :: "arc option"

record project_cache =
  pc_heap :: "graph_state list"
  pc_capacity :: nat
  pc_graphs :: "(string, resident) btree"
  pc_manifests :: "(string, file_manifest) btree"
  pc_order :: "string list"
  pc_dirty :: "string set"

definition deref :: "project_cache \<Rightarrow> arc \<Rightarrow> graph_state" where
  "deref c a = pc_heap c ! a"

definition cache_new :: "nat \<Rightarrow> project_cache" where
  "cache_new capacity =
     \<lparr>pc_heap = [], pc_capacity = max capacity 1, pc_graphs = bt_empty, pc_manifests = bt_empty,
      pc_order = [], pc_dirty = {}\<rparr>"

definition is_resident :: "project_cache \<Rightarrow> string \<Rightarrow> bool" where
  "is_resident c i \<longleftrightarrow> bt_get (pc_graphs c) i \<noteq> None"

definition resident_len :: "project_cache \<Rightarrow> nat" where
  "resident_len c = length (pc_graphs c)"

definition peek_arc :: "project_cache \<Rightarrow> string \<Rightarrow> arc option" where
  "peek_arc c i = map_option res_state (bt_get (pc_graphs c) i)"

definition peek :: "project_cache \<Rightarrow> string \<Rightarrow> graph_state option" where
  "peek c i = map_option (deref c) (peek_arc c i)"

definition touch :: "string \<Rightarrow> project_cache \<Rightarrow> project_cache" where
  "touch i c = c\<lparr>pc_order := remove1 i (pc_order c) @ [i]\<rparr>"

definition get_arc :: "project_cache \<Rightarrow> string \<Rightarrow> arc option \<times> project_cache" where
  "get_arc c i = (if is_resident c i then (peek_arc c i, touch i c) else (None, c))"

definition cache_get :: "project_cache \<Rightarrow> string \<Rightarrow> graph_state option \<times> project_cache" where
  "cache_get c i = (if is_resident c i then (peek c i, touch i c) else (None, c))"

definition cache_view :: "project_cache \<Rightarrow> string \<Rightarrow> graph_view option \<times> project_cache" where
  "cache_view c i =
     (case Option.bind (bt_get (pc_graphs c) i) res_view of
        None \<Rightarrow> (None, c)
      | Some v \<Rightarrow> (Some v, touch i c))"

definition install_view ::
  "project_cache \<Rightarrow> string \<Rightarrow> arc \<Rightarrow> graph_view \<Rightarrow> bool \<times> project_cache"
where
  "install_view c i orig v =
     (case bt_get (pc_graphs c) i of
        None \<Rightarrow> (False, c)
      | Some entry \<Rightarrow>
          if res_state entry \<noteq> orig then (False, c)
          else (True, c\<lparr>pc_graphs := bt_insert i (entry\<lparr>res_view := Some v\<rparr>) (pc_graphs c)\<rparr>))"

definition cache_manifest :: "project_cache \<Rightarrow> string \<Rightarrow> file_manifest option" where
  "cache_manifest c i = bt_get (pc_manifests c) i"

definition mark_clean :: "string \<Rightarrow> project_cache \<Rightarrow> project_cache" where
  "mark_clean i c = c\<lparr>pc_dirty := pc_dirty c - {i}\<rparr>"

definition cache_is_dirty :: "project_cache \<Rightarrow> string \<Rightarrow> bool" where
  "cache_is_dirty c i \<longleftrightarrow> i \<in> pc_dirty c"

text \<open>The two nested loops of \<^verbatim>\<open>evict_to_capacity\<close>: a stale id at the front is skipped, a resident
  one is the victim; an empty order ends it.\<close>

fun evict_from :: "project_cache \<Rightarrow> string list \<Rightarrow> evicted list \<Rightarrow> evicted list \<times> project_cache" where
  "evict_from c order evs =
     (if length (pc_graphs c) \<le> pc_capacity c then (evs, c\<lparr>pc_order := order\<rparr>)
      else
        (case order of
           [] \<Rightarrow> (evs, c\<lparr>pc_order := []\<rparr>)
         | i # rest \<Rightarrow>
             (case bt_get (pc_graphs c) i of
                None \<Rightarrow> evict_from c rest evs
              | Some r \<Rightarrow>
                  evict_from
                    (c\<lparr>pc_graphs := bt_remove i (pc_graphs c), pc_dirty := pc_dirty c - {i}\<rparr>)
                    rest
                    (evs @ [\<lparr>ev_id = i,
                             ev_state = (if i \<in> pc_dirty c then Some (res_state r) else None)\<rparr>]))))"

definition evict_to_capacity :: "project_cache \<Rightarrow> evicted list \<times> project_cache" where
  "evict_to_capacity c = evict_from c (pc_order c) []"

definition cache_insert ::
  "string \<Rightarrow> graph_state \<Rightarrow> bool \<Rightarrow> project_cache \<Rightarrow> evicted list \<times> project_cache"
where
  "cache_insert i state dirty c =
     evict_to_capacity
       (touch i
         (c\<lparr>pc_manifests := bt_insert i (s_manifest state) (pc_manifests c),
            pc_heap := pc_heap c @ [state],
            pc_graphs := bt_insert i \<lparr>res_state = length (pc_heap c), res_view = None\<rparr> (pc_graphs c),
            pc_dirty := (if dirty then insert i (pc_dirty c) else pc_dirty c - {i})\<rparr>))"

definition load_into :: "string \<Rightarrow> graph_state \<Rightarrow> project_cache \<Rightarrow> evicted list \<times> project_cache" where
  "load_into i state c = cache_insert i state False c"

definition cache_put :: "string \<Rightarrow> graph_state \<Rightarrow> project_cache \<Rightarrow> evicted list \<times> project_cache" where
  "cache_put i state c = cache_insert i state True c"

declare evict_from.simps [simp del]

section \<open>The invariant\<close>

text \<open>The order lists each resident id once, dirty projects are resident, the capacity is kept, a
  cached view is the index of the state it sits beside, and a resident project's manifest is
  resident.\<close>

definition graphs_ok :: "project_cache \<Rightarrow> bool" where
  "graphs_ok c \<longleftrightarrow>
     bt_ok (pc_graphs c) \<and> pc_capacity c \<ge> 1
     \<and> (\<forall>i r. bt_get (pc_graphs c) i = Some r \<longrightarrow>
           res_state r < length (pc_heap c)
           \<and> bt_get (pc_manifests c) i = Some (s_manifest (deref c (res_state r)))
           \<and> (\<forall>v. res_view r = Some v \<longrightarrow> v = view_new (deref c (res_state r))))"

definition cache_ok :: "project_cache \<Rightarrow> bool" where
  "cache_ok c \<longleftrightarrow>
     graphs_ok c \<and> distinct (pc_order c) \<and> set (pc_order c) = fst ` set (pc_graphs c)
     \<and> pc_dirty c \<subseteq> fst ` set (pc_graphs c) \<and> length (pc_graphs c) \<le> pc_capacity c"

lemma is_resident_iff: "is_resident c i \<longleftrightarrow> i \<in> fst ` set (pc_graphs c)"
  by (auto simp: is_resident_def bt_get_def map_of_eq_None_iff)

lemma get_Some_key: "bt_get m i = Some r \<Longrightarrow> i \<in> fst ` set m"
  by (metis bt_get_def map_of_eq_None_iff option.distinct(1))

lemma length_bt_ok: "bt_ok m \<Longrightarrow> length m = card (fst ` set m)"
  using bt_ok_distinct [of m] by (metis distinct_card length_map set_map)

lemma keys_insert: "fst ` set (bt_insert k v m) = insert k (fst ` set m)"
  using bt_keys_insert [of k v m] by simp

lemma keys_remove: "fst ` set (bt_remove k m) = fst ` set m - {k}"
  by (auto simp: bt_remove_def)

lemma cache_new_ok: "cache_ok (cache_new capacity)"
  by (simp add: cache_new_def cache_ok_def graphs_ok_def bt_empty_def)

lemma touch_ok: "cache_ok c \<Longrightarrow> is_resident c i \<Longrightarrow> cache_ok (touch i c)"
  by (auto simp: cache_ok_def graphs_ok_def touch_def is_resident_iff deref_def set_remove1_eq)

lemma get_arc_ok: "cache_ok c \<Longrightarrow> cache_ok (snd (get_arc c i))"
  by (simp add: get_arc_def touch_ok)

lemma cache_get_ok: "cache_ok c \<Longrightarrow> cache_ok (snd (cache_get c i))"
  by (simp add: cache_get_def touch_ok)

lemma cache_view_ok: "cache_ok c \<Longrightarrow> cache_ok (snd (cache_view c i))"
  by (auto simp: cache_view_def is_resident_def split: option.split bind_splits intro!: touch_ok)

lemma mark_clean_ok: "cache_ok c \<Longrightarrow> cache_ok (mark_clean i c)"
  by (auto simp: cache_ok_def graphs_ok_def mark_clean_def deref_def)

lemma install_view_ok:
  assumes "cache_ok c" "v = view_new (deref c orig)"
  shows "cache_ok (snd (install_view c i orig v))"
proof (cases "bt_get (pc_graphs c) i")
  case (Some entry)
  have keys: "fst ` set (bt_insert i (entry\<lparr>res_view := Some v\<rparr>) (pc_graphs c)) = fst ` set (pc_graphs c)"
    using get_Some_key [OF Some] by (auto simp: keys_insert)
  have "bt_ok (pc_graphs c)" using assms(1) by (simp add: cache_ok_def graphs_ok_def)
  then have "length (bt_insert i (entry\<lparr>res_view := Some v\<rparr>) (pc_graphs c)) = length (pc_graphs c)"
    using keys by (simp add: length_bt_ok bt_ok_insert)
  with assms Some keys show ?thesis
    by (auto simp: install_view_def cache_ok_def graphs_ok_def deref_def bt_get_insert bt_ok_insert)
qed (use assms in \<open>simp add: install_view_def\<close>)

section \<open>Insertion and eviction\<close>

text \<open>The cache between the insertion and the eviction.\<close>

definition inserted :: "string \<Rightarrow> graph_state \<Rightarrow> bool \<Rightarrow> project_cache \<Rightarrow> project_cache" where
  "inserted i state dirty c =
     touch i
       (c\<lparr>pc_manifests := bt_insert i (s_manifest state) (pc_manifests c),
          pc_heap := pc_heap c @ [state],
          pc_graphs := bt_insert i \<lparr>res_state = length (pc_heap c), res_view = None\<rparr> (pc_graphs c),
          pc_dirty := (if dirty then insert i (pc_dirty c) else pc_dirty c - {i})\<rparr>)"

definition drop_resident :: "string \<Rightarrow> project_cache \<Rightarrow> project_cache" where
  "drop_resident x c =
     c\<lparr>pc_graphs := bt_remove x (pc_graphs c), pc_dirty := pc_dirty c - {x},
       pc_order := remove1 x (pc_order c)\<rparr>"

lemma inserted_simps [simp]:
  "pc_graphs (inserted i st d c) = bt_insert i \<lparr>res_state = length (pc_heap c), res_view = None\<rparr> (pc_graphs c)"
  "pc_order (inserted i st d c) = remove1 i (pc_order c) @ [i]"
  "pc_heap (inserted i st d c) = pc_heap c @ [st]"
  "pc_capacity (inserted i st d c) = pc_capacity c"
  "pc_manifests (inserted i st d c) = bt_insert i (s_manifest st) (pc_manifests c)"
  "pc_dirty (inserted i st d c) = (if d then insert i (pc_dirty c) else pc_dirty c - {i})"
  by (simp_all add: inserted_def touch_def)

lemma inserted_graphs_ok: "cache_ok c \<Longrightarrow> graphs_ok (inserted i st d c)"
  by (auto simp: cache_ok_def graphs_ok_def deref_def nth_append bt_get_insert bt_ok_insert
      split: if_splits intro: less_SucI)

lemma inserted_keys: "fst ` set (pc_graphs (inserted i st d c)) = insert i (fst ` set (pc_graphs c))"
  by (simp add: keys_insert)

lemma inserted_order:
  assumes "cache_ok c"
  shows "distinct (pc_order (inserted i st d c))"
    and "set (pc_order (inserted i st d c)) = fst ` set (pc_graphs (inserted i st d c))"
  using assms by (auto simp: cache_ok_def keys_insert set_remove1_eq)

lemma inserted_length:
  assumes "cache_ok c"
  shows "length (pc_graphs (inserted i st d c)) \<le> pc_capacity c + 1"
proof -
  from assms have "bt_ok (pc_graphs c)" "length (pc_graphs c) \<le> pc_capacity c"
    by (simp_all add: cache_ok_def graphs_ok_def)
  then show ?thesis
    using card_insert_le_m1
    by (simp add: length_bt_ok bt_ok_insert keys_insert card_insert_if)
qed

lemma evict_from_done:
  "length (pc_graphs c) \<le> pc_capacity c \<Longrightarrow> evict_from c order evs = (evs, c\<lparr>pc_order := order\<rparr>)"
  by (subst evict_from.simps) simp

lemma evict_from_victim:
  "\<not> length (pc_graphs c) \<le> pc_capacity c \<Longrightarrow> bt_get (pc_graphs c) x = Some r \<Longrightarrow>
     evict_from c (x # rest) evs =
       evict_from (c\<lparr>pc_graphs := bt_remove x (pc_graphs c), pc_dirty := pc_dirty c - {x}\<rparr>) rest
         (evs @ [\<lparr>ev_id = x, ev_state = (if x \<in> pc_dirty c then Some (res_state r) else None)\<rparr>])"
  by (subst evict_from.simps) simp

text \<open>At most one project is paged out: the one at the front of the order, never the inserted one.\<close>

lemma cache_insert_cases:
  assumes "cache_ok c"
  shows "cache_insert i st d c = ([], inserted i st d c)
       \<and> length (pc_graphs (inserted i st d c)) \<le> pc_capacity c
     \<or> (\<exists>x rest r. pc_order (inserted i st d c) = x # rest \<and> x \<noteq> i
          \<and> bt_get (pc_graphs c) x = Some r
          \<and> cache_insert i st d c =
              ([\<lparr>ev_id = x, ev_state = (if x \<in> pc_dirty c then Some (res_state r) else None)\<rparr>],
               drop_resident x (inserted i st d c))
          \<and> length (pc_graphs (drop_resident x (inserted i st d c))) \<le> pc_capacity c)"
proof -
  let ?c1 = "inserted i st d c"
  have run: "cache_insert i st d c = evict_from ?c1 (pc_order ?c1) []"
    by (simp add: cache_insert_def inserted_def evict_to_capacity_def)
  have cap: "pc_capacity c \<ge> 1" and ok: "bt_ok (pc_graphs ?c1)"
    using inserted_graphs_ok [OF assms, of i st d] by (simp_all add: graphs_ok_def)
  show ?thesis
  proof (cases "length (pc_graphs ?c1) \<le> pc_capacity c")
    case True
    then show ?thesis unfolding run by (subst evict_from.simps) simp
  next
    case False
    note order = inserted_order [OF assms, of i st d]
    have len: "length (pc_order ?c1) = length (pc_graphs ?c1)"
      using order ok by (metis distinct_card length_bt_ok)
    then obtain x rest where xr: "pc_order ?c1 = x # rest" "rest \<noteq> []"
      using False cap by (cases "pc_order ?c1"; cases "tl (pc_order ?c1)") auto
    have "last (x # rest) = i" using xr(1) by (metis inserted_simps(2) last_snoc)
    with xr order(1) have "x \<noteq> i" by auto
    from xr(1) order(2) have "x \<in> fst ` set (pc_graphs ?c1)" by auto
    then obtain r where r: "bt_get (pc_graphs ?c1) x = Some r"
      by (metis bt_get_def map_of_eq_None_iff not_None_eq)
    with \<open>x \<noteq> i\<close> have r': "bt_get (pc_graphs c) x = Some r" by (simp add: bt_get_insert)
    have drop: "drop_resident x ?c1 = ?c1\<lparr>pc_graphs := bt_remove x (pc_graphs ?c1),
        pc_dirty := pc_dirty ?c1 - {x}, pc_order := rest\<rparr>"
      using xr(1) by (simp add: drop_resident_def)
    have small: "length (bt_remove x (pc_graphs ?c1)) \<le> pc_capacity c"
      using inserted_length [OF assms, of i st d] \<open>x \<in> fst ` set (pc_graphs ?c1)\<close> ok
        length_bt_ok [OF bt_ok_remove [OF ok]] length_bt_ok [OF ok]
      by (simp add: keys_remove card_Diff_singleton)
    have "x \<in> pc_dirty ?c1 \<longleftrightarrow> x \<in> pc_dirty c" using \<open>x \<noteq> i\<close> by auto
    with evict_from_victim [of ?c1 x r rest "[]"] False r
    have "cache_insert i st d c =
        evict_from (?c1\<lparr>pc_graphs := bt_remove x (pc_graphs ?c1), pc_dirty := pc_dirty ?c1 - {x}\<rparr>) rest
          [\<lparr>ev_id = x, ev_state = (if x \<in> pc_dirty c then Some (res_state r) else None)\<rparr>]"
      unfolding run xr(1) by (simp del: inserted_simps(1,6))
    then have "cache_insert i st d c =
        ([\<lparr>ev_id = x, ev_state = (if x \<in> pc_dirty c then Some (res_state r) else None)\<rparr>],
         drop_resident x ?c1)"
      unfolding drop using small by (simp add: evict_from_done del: inserted_simps(1,6))
    with xr \<open>x \<noteq> i\<close> r' small show ?thesis by (simp add: drop)
  qed
qed

lemma cache_insert_ok:
  assumes "cache_ok c"
  shows "cache_ok (snd (cache_insert i st d c))"
  using cache_insert_cases [OF assms, of i st d]
proof (elim disjE exE conjE)
  assume "cache_insert i st d c = ([], inserted i st d c)"
    "length (pc_graphs (inserted i st d c)) \<le> pc_capacity c"
  with inserted_graphs_ok [OF assms, of i st d] inserted_order [OF assms, of i st d] assms
  show ?thesis by (auto simp: cache_ok_def keys_insert)
next
  fix x rest r
  assume 1: "pc_order (inserted i st d c) = x # rest" "x \<noteq> i"
    "cache_insert i st d c =
       ([\<lparr>ev_id = x, ev_state = (if x \<in> pc_dirty c then Some (res_state r) else None)\<rparr>],
        drop_resident x (inserted i st d c))"
    "length (pc_graphs (drop_resident x (inserted i st d c))) \<le> pc_capacity c"
  let ?c1 = "inserted i st d c"
  have g: "graphs_ok ?c1" using inserted_graphs_ok [OF assms] .
  then have "graphs_ok (drop_resident x ?c1)"
    by (auto simp: graphs_ok_def drop_resident_def deref_def bt_get_remove bt_ok_remove
        split: if_splits)
  moreover have "distinct (pc_order (drop_resident x ?c1))"
    "set (pc_order (drop_resident x ?c1)) = fst ` set (pc_graphs (drop_resident x ?c1))"
    using inserted_order [OF assms, of i st d]
    by (auto simp: drop_resident_def keys_remove set_remove1_eq simp del: inserted_simps)
  moreover have "pc_dirty (drop_resident x ?c1) \<subseteq> fst ` set (pc_graphs (drop_resident x ?c1))"
    using assms by (auto simp: drop_resident_def keys_remove keys_insert cache_ok_def)
  ultimately show ?thesis
    using 1(3,4) by (simp add: cache_ok_def drop_resident_def)
qed

text \<open>What a client of the cache relies on after an insertion.\<close>

lemma cache_insert_get:
  assumes "cache_ok c" "cache_insert i st d c = (evs, c')"
  shows "bt_get (pc_graphs c') i = Some \<lparr>res_state = length (pc_heap c), res_view = None\<rparr>"
    and "pc_heap c' = pc_heap c @ [st]"
    and "j \<noteq> i \<Longrightarrow> bt_get (pc_graphs c') j = (if j \<in> ev_id ` set evs then None else bt_get (pc_graphs c) j)"
    and "j \<noteq> i \<Longrightarrow> j \<in> pc_dirty c' \<longleftrightarrow> j \<in> pc_dirty c \<and> j \<notin> ev_id ` set evs"
    and "i \<in> pc_dirty c' \<longleftrightarrow> d"
    and "length evs \<le> 1" and "i \<notin> ev_id ` set evs"
    and "ev \<in> set evs \<Longrightarrow> \<exists>r. bt_get (pc_graphs c) (ev_id ev) = Some r
           \<and> ev_state ev = (if ev_id ev \<in> pc_dirty c then Some (res_state r) else None)"
  using cache_insert_cases [OF assms(1), of i st d] assms(2)
  by (auto simp: drop_resident_def bt_get_insert bt_get_remove split: if_splits)

end
