(* ===== verification/Registry.thy ===== *)
theory Registry
  imports Core_State Sort_By
begin

text \<open>
  The daemon's error type and its registry of projects
  (\<^verbatim>\<open>filigrio-daemon/src/lib.rs\<close>, \<^verbatim>\<open>project.rs\<close>). Paths are strings with the component view of
  \<^verbatim>\<open>std::path\<close>. A \<^verbatim>\<open>HashMap\<close> is iterated in an order the code does not fix: where that order is
  observed it is the parameter \<open>shuffle\<close>. The third-party JSON codec is a parameter.
\<close>

datatype daemon_error =
    NotRunning string
  | Socket_Error string
  | ProjectNotFound string
  | ProjectNotIndexed string
  | ProjectAlreadyExists string
  | Reconcile_Error string
  | DStorage string
  | Serialization string
  | Core error
  | DIo string
  | DProtocol string
  | DOther string

section \<open>Paths\<close>

text \<open>\<^verbatim>\<open>Path::components\<close>: the root, a leading \<^verbatim>\<open>.\<close>, and the non-empty names; other dots and repeated
  separators are dropped.\<close>

definition path_components :: "string \<Rightarrow> string list" where
  "path_components s =
     (let parts = split_str ''/'' s;
          names = filter (\<lambda>p. p \<noteq> [] \<and> p \<noteq> ''.'') parts
      in if starts_with s ''/'' then ''/'' # names
         else if hd parts = ''.'' then ''.'' # names
         else names)"

definition path_starts_with :: "string \<Rightarrow> string \<Rightarrow> bool" where
  "path_starts_with path base \<longleftrightarrow>
     take (length (path_components base)) (path_components path) = path_components base"

definition file_name :: "string \<Rightarrow> string option" where
  "file_name path =
     (case rev (path_components path) of
        [] \<Rightarrow> None
      | c # _ \<Rightarrow> if c \<in> {''/'', ''.'', ''..''} then None else Some c)"

definition join_path :: "string \<Rightarrow> string \<Rightarrow> string" where
  "join_path root rel =
     (if starts_with rel ''/'' then rel
      else if root = [] \<or> ends_with root ''/'' then root @ rel
      else root @ ''/'' @ rel)"

section \<open>Projects\<close>

record daemon_project =
  dp_id :: string
  dp_root :: string
  dp_output_dir :: string
  dp_watch :: bool

definition project_id :: "string \<Rightarrow> string" where
  "project_id root = (case file_name root of None \<Rightarrow> ''unknown'' | Some n \<Rightarrow> n)"

definition project_new :: "string \<Rightarrow> daemon_project" where
  "project_new root =
     \<lparr>dp_id = project_id root, dp_root = root, dp_output_dir = join_path root ''.filigrio-out'',
      dp_watch = False\<rparr>"

definition MAX_LISTED :: nat where
  "MAX_LISTED = 20"

definition unregistered_project_message :: "string \<Rightarrow> string list \<Rightarrow> string" where
  "unregistered_project_message project known =
     (let ids = sort known;
          listed =
            (if ids = [] then []
             else
               (let shown = join_str '', '' (take MAX_LISTED ids); more = length ids - MAX_LISTED
                in if more = 0 then '' Registered projects: '' @ shown @ ''.''
                   else '' Registered projects: '' @ shown @ '' (+'' @ show_nat more @ '' more).''))
      in ''project not registered: '' @ [CHR 0x27] @ project @ [CHR 0x27] @ ''.'' @ listed
         @ '' Register it with `filigrio project register` from the project root. ''
         @ ''Valid values are a registered project id or an absolute path inside its root; ''
         @ ''omit the `project` field entirely to use the current directory. ''
         @ ''Names and roots from `project_graph` are sub-projects *within* one indexed repo, ''
         @ ''not values for `project`.'')"

section \<open>The registry\<close>

type_synonym registry = "(string, daemon_project) btree"

definition reg_add :: "daemon_project \<Rightarrow> registry \<Rightarrow> string + registry" where
  "reg_add p r =
     (case bt_get r (dp_id p) of
        Some _ \<Rightarrow> Inl (''project already exists: '' @ dp_id p)
      | None \<Rightarrow> Inr (bt_insert (dp_id p) p r))"

definition reg_remove :: "string \<Rightarrow> registry \<Rightarrow> string + registry" where
  "reg_remove i r =
     (case bt_get r i of
        None \<Rightarrow> Inl (''project not registered: '' @ i)
      | Some _ \<Rightarrow> Inr (bt_remove i r))"

definition reg_get :: "registry \<Rightarrow> string \<Rightarrow> daemon_project option" where
  "reg_get r i = bt_get r i"

definition find_by_path ::
  "(daemon_project list \<Rightarrow> daemon_project list) \<Rightarrow> registry \<Rightarrow> string \<Rightarrow> daemon_project option"
where
  "find_by_path shuffle r path =
     find (\<lambda>p. path_starts_with path (dp_root p)) (shuffle (bt_values r))"

definition reg_set_watch :: "string \<Rightarrow> bool \<Rightarrow> registry \<Rightarrow> string + registry" where
  "reg_set_watch i watch r =
     (case bt_get r i of
        None \<Rightarrow> Inl (''project not registered: '' @ i)
      | Some p \<Rightarrow> Inr (bt_insert i (p\<lparr>dp_watch := watch\<rparr>) r))"

datatype registry_error = Reg_Io string | Corrupt string

datatype file_read = Absent | Unreadable string | Contents bytes

record registry_doc =
  doc_version :: nat
  doc_projects :: "daemon_project list"

definition reg_load :: "(bytes \<Rightarrow> string + registry_doc) \<Rightarrow> file_read \<Rightarrow> registry_error + registry" where
  "reg_load from_slice f =
     (case f of
        Absent \<Rightarrow> Inr bt_empty
      | Unreadable e \<Rightarrow> Inl (Reg_Io e)
      | Contents b \<Rightarrow>
          (case from_slice b of
             Inl e \<Rightarrow> Inl (Corrupt e)
           | Inr doc \<Rightarrow> Inr (bt_extend bt_empty (map (\<lambda>p. (dp_id p, p)) (doc_projects doc)))))"

text \<open>\<^verbatim>\<open>save_to\<close> up to the bytes it hands to \<^verbatim>\<open>atomic_write\<close>.\<close>

definition reg_document ::
  "(daemon_project list \<Rightarrow> daemon_project list) \<Rightarrow> registry \<Rightarrow> registry_doc"
where
  "reg_document shuffle r =
     \<lparr>doc_version = 1,
      doc_projects = sort_by (\<lambda>a b. cmp (dp_id a) (dp_id b)) (shuffle (bt_values r))\<rparr>"

definition reg_save ::
  "(daemon_project list \<Rightarrow> daemon_project list) \<Rightarrow> (registry_doc \<Rightarrow> bytes) \<Rightarrow> registry \<Rightarrow> bytes"
where
  "reg_save shuffle to_vec r = to_vec (reg_document shuffle r)"

section \<open>The registry is keyed by id\<close>

definition reg_ok :: "registry \<Rightarrow> bool" where
  "reg_ok r \<longleftrightarrow> bt_ok r \<and> list_all (\<lambda>(k, p). dp_id p = k) r"

lemma reg_ok_get: "reg_ok r \<Longrightarrow> bt_get r k = Some p \<Longrightarrow> dp_id p = k"
  by (auto simp: reg_ok_def list_all_iff bt_get_def dest: map_of_SomeD)

lemma reg_ok_iff: "reg_ok r \<longleftrightarrow> bt_ok r \<and> (\<forall>k p. bt_get r k = Some p \<longrightarrow> dp_id p = k)"
proof (cases "bt_ok r")
  case True
  have "list_all (\<lambda>(k, p). dp_id p = k) r \<longleftrightarrow> (\<forall>k p. (k, p) \<in> set r \<longrightarrow> dp_id p = k)"
    by (auto simp: list_all_iff)
  then show ?thesis unfolding reg_ok_def bt_in_set_iff [OF True] by blast
qed (simp add: reg_ok_def)

lemma reg_add_ok: "reg_ok r \<Longrightarrow> reg_add p r = Inr r' \<Longrightarrow> reg_ok r'"
  by (auto simp: reg_add_def reg_ok_iff bt_get_insert bt_ok_insert split: option.splits if_splits)

lemma reg_remove_ok: "reg_ok r \<Longrightarrow> reg_remove i r = Inr r' \<Longrightarrow> reg_ok r'"
  by (auto simp: reg_remove_def reg_ok_iff bt_get_remove bt_ok_remove split: option.splits if_splits)

lemma reg_set_watch_ok: "reg_ok r \<Longrightarrow> reg_set_watch i w r = Inr r' \<Longrightarrow> reg_ok r'"
  by (auto simp: reg_set_watch_def reg_ok_iff bt_get_insert bt_ok_insert split: option.splits if_splits)

text \<open>A permutation of the values sorted by id is the values in key order.\<close>

lemma reg_ok_values: "reg_ok r \<Longrightarrow> map dp_id (bt_values r) = map fst r"
  by (auto simp: reg_ok_def list_all_iff bt_values_def)

lemma sorted_by_id:
  assumes "reg_ok r" "mset ps = mset (bt_values r)"
  shows "sort_by (\<lambda>a b. cmp (dp_id a) (dp_id b)) ps = bt_values r"
proof -
  have "sort_by (\<lambda>a b. cmp (dp_id a) (dp_id b)) ps = sort_key dp_id ps"
    by (rule sort_by_key) simp
  moreover have "sort_key dp_id ps = bt_values r"
  proof (rule sort_key_inj_key_eq)
    have "sorted_wrt (<) (map dp_id (bt_values r))"
      using assms(1) by (simp add: reg_ok_values reg_ok_def bt_ok_def)
    then have "sorted (map dp_id (bt_values r))" "distinct (map dp_id (bt_values r))"
      by (simp_all add: strict_sorted_iff)
    moreover have "set ps = set (bt_values r)" using assms(2) mset_eq_setD by blast
    ultimately show "sorted (map dp_id (bt_values r))" "inj_on dp_id (set ps)"
      by (simp_all add: distinct_map)
  qed (rule assms(2))
  ultimately show ?thesis by simp
qed

lemma extend_values: "reg_ok r \<Longrightarrow> bt_extend bt_empty (map (\<lambda>p. (dp_id p, p)) (bt_values r)) = r"
proof -
  assume r: "reg_ok r"
  have "map (\<lambda>p. (dp_id p, p)) (bt_values r) = r"
    using r by (auto simp: reg_ok_def list_all_iff bt_values_def intro!: map_idI)
  moreover have "bt_collect r = r"
  proof (rule bt.ext_get)
    fix k show "bt_get (bt_collect r) k = bt_get r k"
    proof -
      have "map_of (rev r) = map_of r"
        using r bt_ok_distinct [of r]
        by (intro map_of_inject_set [THEN iffD2]) (simp_all add: reg_ok_def flip: rev_map)
      then show ?thesis by (simp add: bt_get_collect [unfolded bt_get_def] bt_get_def)
    qed
  qed (use r in \<open>auto simp: reg_ok_def\<close>)
  ultimately show ?thesis by (simp add: bt_collect_def)
qed

text \<open>A registry survives being written and read back, whatever order its hash map is iterated
  in, for a codec that decodes the document it encoded.\<close>

theorem registry_roundtrip:
  assumes "reg_ok r" "mset (shuffle (bt_values r)) = mset (bt_values r)"
    and "from_slice (to_vec (reg_document shuffle r)) = Inr (reg_document shuffle r)"
  shows "reg_load from_slice (Contents (reg_save shuffle to_vec r)) = Inr r"
  using assms by (simp add: reg_load_def reg_save_def) (simp add: reg_document_def sorted_by_id extend_values)

definition nested_registry :: registry where
  "nested_registry =
     bt_collect (map (\<lambda>p. (dp_id p, p)) [project_new ''/w/mono'', project_new ''/w/mono/app''])"

lemma nested_registry_ok: "reg_ok nested_registry"
  by code_simp

theorem registry_roundtrip_witness:
  "reg_load (\<lambda>b. if b = ''doc'' then Inr (reg_document rev nested_registry) else Inl ''eof'')
     (Contents (reg_save rev (\<lambda>_. ''doc'') nested_registry)) = Inr nested_registry"
  by (rule registry_roundtrip [OF nested_registry_ok]) simp_all

text \<open>Which of two nested projects a path inside the inner one names depends on the order in
  which the hash map is iterated: \<^verbatim>\<open>find_by_path\<close> takes the first project that contains the path and
  not the nearest one.\<close>

theorem find_by_path_ambiguous:
  "map_option dp_id (find_by_path (\<lambda>ps. ps) nested_registry ''/w/mono/app/src/main.rs'') = Some ''app''
   \<and> map_option dp_id (find_by_path rev nested_registry ''/w/mono/app/src/main.rs'') = Some ''mono''"
  by code_simp

end
