(* ===== verification/Flush.thy ===== *)
theory Flush
  imports Cache Registry Store
begin

text \<open>
  The write-behind flusher of \<^verbatim>\<open>filigrio-daemon/src/flush.rs\<close>: it owns the resident cache and
  decides when a project's state reaches its directory. Instants and durations are natural numbers
  and \<open>now\<close> is what the injected clock reads; the directories are a map of \<open>fs_store\<close>s. An operation
  that fails keeps what it did before failing, so each returns its result with the flusher after it.
  Locks and the driver thread are outside these definitions; \<open>Flush_Props\<close> has the steps that the
  locks do not make atomic.
\<close>

record flush_config =
  fc_quiescence :: nat
  fc_max_dirty_age :: nat

text \<open>In seconds.\<close>

definition flush_config_default :: flush_config where
  "flush_config_default = \<lparr>fc_quiescence = 30, fc_max_dirty_age = 300\<rparr>"

datatype persistence = Flush | Defer

record dirty_window =
  first_dirty :: nat
  last_apply :: nat

record flusher =
  fl_cache :: project_cache
  fl_cfg :: flush_config
  fl_dirty :: "(string, dirty_window) btree"
  fl_persisted :: "(string, nat) btree"
  fl_out_dirs :: "(string, string) btree"
  fl_writes :: nat
  fl_disk :: "string \<Rightarrow> fs_store"

definition flusher_new :: "project_cache \<Rightarrow> flush_config \<Rightarrow> (string \<Rightarrow> fs_store) \<Rightarrow> flusher" where
  "flusher_new c cfg disk =
     \<lparr>fl_cache = c, fl_cfg = cfg, fl_dirty = bt_empty, fl_persisted = bt_empty,
      fl_out_dirs = bt_empty, fl_writes = 0, fl_disk = disk\<rparr>"

section \<open>Reads\<close>

definition fl_is_dirty :: "flusher \<Rightarrow> string \<Rightarrow> bool" where
  "fl_is_dirty fl i \<longleftrightarrow> bt_get (fl_dirty fl) i \<noteq> None"

definition dirty_for :: "nat \<Rightarrow> flusher \<Rightarrow> string \<Rightarrow> nat option" where
  "dirty_for now fl i = map_option (\<lambda>d. now - first_dirty d) (bt_get (fl_dirty fl) i)"

definition since_persisted :: "nat \<Rightarrow> flusher \<Rightarrow> string \<Rightarrow> nat option" where
  "since_persisted now fl i = map_option (\<lambda>t. now - t) (bt_get (fl_persisted fl) i)"

section \<open>Writing\<close>

definition remember :: "daemon_project \<Rightarrow> flusher \<Rightarrow> flusher" where
  "remember p fl =
     (if bt_get (fl_out_dirs fl) (dp_id p) \<noteq> Some (dp_output_dir p)
      then fl\<lparr>fl_out_dirs := bt_insert (dp_id p) (dp_output_dir p) (fl_out_dirs fl)\<rparr>
      else fl)"

definition write_state ::
  "nat \<Rightarrow> string \<Rightarrow> string \<Rightarrow> graph_state \<Rightarrow> flusher \<Rightarrow> (daemon_error + unit) \<times> flusher"
where
  "write_state now i dir state fl =
     (case fs_save_state (fl_disk fl dir) state of
        Inl err \<Rightarrow> (Inl (Core err), fl)
      | Inr store \<Rightarrow>
          (Inr (),
           fl\<lparr>fl_disk := (fl_disk fl)(dir := store), fl_writes := fl_writes fl + 1,
              fl_persisted := bt_insert i now (fl_persisted fl)\<rparr>))"

fun flush_evicted :: "nat \<Rightarrow> evicted list \<Rightarrow> flusher \<Rightarrow> (daemon_error + unit) \<times> flusher" where
  "flush_evicted now [] fl = (Inr (), fl)"
| "flush_evicted now (e # es) fl =
     (let fl = fl\<lparr>fl_dirty := bt_remove (ev_id e) (fl_dirty fl)\<rparr>
      in case ev_state e of
           None \<Rightarrow> flush_evicted now es fl
         | Some a \<Rightarrow>
             (case bt_get (fl_out_dirs fl) (ev_id e) of
                None \<Rightarrow>
                  (Inl (DStorage (''cache paged out dirty state for '' @ [CHR 0x27] @ ev_id e
                     @ [CHR 0x27] @ '' but its output directory is unknown; ''
                     @ ''refusing to drop unpersisted work silently'')), fl)
              | Some dir \<Rightarrow>
                  (case write_state now (ev_id e) dir (deref (fl_cache fl) a) fl of
                     (Inl err, fl) \<Rightarrow> (Inl err, fl)
                   | (Inr _, fl) \<Rightarrow> flush_evicted now es fl)))"

section \<open>The apply seam\<close>

definition fl_state_of :: "nat \<Rightarrow> daemon_project \<Rightarrow> flusher \<Rightarrow> (daemon_error + arc) \<times> flusher" where
  "fl_state_of now p fl =
     (let fl = remember p fl
      in case get_arc (fl_cache fl) (dp_id p) of
           (Some a, c) \<Rightarrow> (Inr a, fl\<lparr>fl_cache := c\<rparr>)
         | (None, _) \<Rightarrow>
             (case fs_load (fl_disk fl (dp_output_dir p)) of
                Inl err \<Rightarrow> (Inl (Core err), fl)
              | Inr loaded \<Rightarrow>
                  (let state = (case loaded of None \<Rightarrow> graph_state_default | Some s \<Rightarrow> s);
                       (evs, c) = load_into (dp_id p) state (fl_cache fl);
                       (found, c) = get_arc c (dp_id p)
                   in case flush_evicted now evs (fl\<lparr>fl_cache := c\<rparr>) of
                        (Inl err, fl) \<Rightarrow> (Inl err, fl)
                      | (Inr _, fl) \<Rightarrow>
                          (case found of
                             Some a \<Rightarrow> (Inr a, fl)
                           | None \<Rightarrow>
                               (Inl (DOther (''state for '' @ dp_id p @ '' vanished after load'')),
                                fl)))))"

definition open_window :: "nat \<Rightarrow> string \<Rightarrow> flusher \<Rightarrow> flusher" where
  "open_window now i fl =
     fl\<lparr>fl_dirty :=
       bt_insert i
         \<lparr>first_dirty = (case bt_get (fl_dirty fl) i of None \<Rightarrow> now | Some d \<Rightarrow> first_dirty d),
          last_apply = now\<rparr>
         (fl_dirty fl)\<rparr>"

definition record_apply ::
  "nat \<Rightarrow> daemon_project \<Rightarrow> graph_state \<Rightarrow> persistence \<Rightarrow> flusher \<Rightarrow>
     (daemon_error + unit) \<times> flusher"
where
  "record_apply now p fresh mode fl =
     (let fl = remember p fl
      in case mode of
           Flush \<Rightarrow>
             (case write_state now (dp_id p) (dp_output_dir p) fresh fl of
                (Inl err, fl) \<Rightarrow> (Inl err, fl)
              | (Inr _, fl) \<Rightarrow>
                  (let (evs, c) = load_into (dp_id p) fresh (fl_cache fl)
                   in flush_evicted now evs
                        (fl\<lparr>fl_cache := c, fl_dirty := bt_remove (dp_id p) (fl_dirty fl)\<rparr>)))
         | Defer \<Rightarrow>
             (let (evs, c) = cache_put (dp_id p) fresh (fl_cache fl)
              in flush_evicted now evs (open_window now (dp_id p) (fl\<lparr>fl_cache := c\<rparr>))))"

section \<open>The cadence\<close>

definition flush_locked :: "nat \<Rightarrow> string \<Rightarrow> flusher \<Rightarrow> (daemon_error + bool) \<times> flusher" where
  "flush_locked now i fl =
     (if \<not> fl_is_dirty fl i then (Inr False, fl)
      else
        (case bt_get (fl_out_dirs fl) i of
           None \<Rightarrow>
             (Inl (DStorage (''no output directory known for dirty project '' @ [CHR 0x27] @ i
                @ [CHR 0x27] @ '' '' @ [CHR 0xE2, CHR 0x80, CHR 0x94] @ '' cannot flush'')), fl)
         | Some dir \<Rightarrow>
             (case peek_arc (fl_cache fl) i of
                None \<Rightarrow>
                  (Inl (DStorage (''project '' @ [CHR 0x27] @ i @ [CHR 0x27]
                     @ '' was marked dirty but is not resident; its unpersisted state is gone'')),
                   fl\<lparr>fl_dirty := bt_remove i (fl_dirty fl)\<rparr>)
              | Some a \<Rightarrow>
                  (case write_state now i dir (deref (fl_cache fl) a) fl of
                     (Inl err, fl) \<Rightarrow> (Inl err, fl)
                   | (Inr _, fl) \<Rightarrow>
                       (Inr True,
                        fl\<lparr>fl_cache := mark_clean i (fl_cache fl),
                           fl_dirty := bt_remove i (fl_dirty fl)\<rparr>)))))"

definition flush_project :: "nat \<Rightarrow> string \<Rightarrow> flusher \<Rightarrow> (daemon_error + bool) \<times> flusher" where
  "flush_project now i fl = (if \<not> fl_is_dirty fl i then (Inr False, fl) else flush_locked now i fl)"

definition is_due :: "nat \<Rightarrow> flush_config \<Rightarrow> dirty_window \<Rightarrow> bool" where
  "is_due now cfg d \<longleftrightarrow>
     now - last_apply d \<ge> fc_quiescence cfg \<or> now - first_dirty d \<ge> fc_max_dirty_age cfg"

definition due :: "nat \<Rightarrow> flusher \<Rightarrow> string list" where
  "due now fl = map fst (filter (\<lambda>(_, d). is_due now (fl_cfg fl) d) (fl_dirty fl))"

fun flush_each :: "nat \<Rightarrow> string list \<Rightarrow> flusher \<Rightarrow> (string \<times> daemon_error) list \<times> flusher" where
  "flush_each now [] fl = ([], fl)"
| "flush_each now (i # ids) fl =
     (case flush_project now i fl of
        (Inl err, fl) \<Rightarrow> (let (failures, fl) = flush_each now ids fl in ((i, err) # failures, fl))
      | (Inr _, fl) \<Rightarrow> flush_each now ids fl)"

definition flush_due :: "nat \<Rightarrow> flusher \<Rightarrow> (string \<times> daemon_error) list \<times> flusher" where
  "flush_due now fl = flush_each now (due now fl) fl"

definition flush_all :: "nat \<Rightarrow> flusher \<Rightarrow> (string \<times> daemon_error) list \<times> flusher" where
  "flush_all now fl = flush_each now (bt_keys (fl_dirty fl)) fl"

end
