(* ===== verification/Sched.thy ===== *)
theory Sched
  imports Flush
begin

text \<open>
  The daemon's producer lane: the priority queue (\<^verbatim>\<open>filigrio-daemon/src/priority.rs\<close>, the lanes of
  \<^verbatim>\<open>filigrio-core/src/priority.rs\<close>), the bounded one-per-project dispatcher (\<^verbatim>\<open>scheduler.rs\<close>) and the
  turns of the run loop (\<^verbatim>\<open>daemon.rs\<close>). A task of the pool is the job it runs; when it ends, and with
  which outcome, is the environment's choice and an argument of the step that sees it. A \<^verbatim>\<open>HashSet\<close> is
  a list without repetitions, its iteration order the parameter \<open>shuffle\<close>.
\<close>

section \<open>Lanes and items\<close>

datatype lane = Manual | Git | Fs

datatype produced =
    Signal change_set
  | Authoritative change_set
  | Reconcile_Request bool

datatype daemon_op =
    Op_Apply change_set
  | Op_Apply_Exact change_set
  | Op_Reconcile bool
  | Op_Recluster

fun op_of :: "produced \<Rightarrow> daemon_op" where
  "op_of (Signal cs) = Op_Apply cs"
| "op_of (Authoritative cs) = Op_Apply_Exact cs"
| "op_of (Reconcile_Request deep) = Op_Reconcile deep"

record queue_item =
  qi_project :: string
  qi_op :: daemon_op
  qi_lane :: lane

record priority_queue =
  pq_manual :: "queue_item list"
  pq_git :: "queue_item list"
  pq_fs :: "queue_item list"

definition pq_new :: priority_queue where
  "pq_new = \<lparr>pq_manual = [], pq_git = [], pq_fs = []\<rparr>"

definition pq_submit :: "queue_item \<Rightarrow> priority_queue \<Rightarrow> priority_queue" where
  "pq_submit item q =
     (case qi_lane item of
        Manual \<Rightarrow> q\<lparr>pq_manual := pq_manual q @ [item]\<rparr>
      | Git \<Rightarrow> q\<lparr>pq_git := pq_git q @ [item]\<rparr>
      | Fs \<Rightarrow> q\<lparr>pq_fs := pq_fs q @ [item]\<rparr>)"

definition pq_has_project :: "priority_queue \<Rightarrow> string \<Rightarrow> bool" where
  "pq_has_project q project =
     list_ex (\<lambda>item. qi_project item = project) (pq_manual q @ pq_git q @ pq_fs q)"

definition pq_pop :: "priority_queue \<Rightarrow> (queue_item \<times> priority_queue) option" where
  "pq_pop q =
     (case pq_manual q of
        item # rest \<Rightarrow> Some (item, q\<lparr>pq_manual := rest\<rparr>)
      | [] \<Rightarrow>
          (case pq_git q of
             item # rest \<Rightarrow> Some (item, q\<lparr>pq_git := rest\<rparr>)
           | [] \<Rightarrow>
               (case pq_fs q of
                  item # rest \<Rightarrow> Some (item, q\<lparr>pq_fs := rest\<rparr>)
                | [] \<Rightarrow> None)))"

definition pq_len :: "priority_queue \<Rightarrow> nat" where
  "pq_len q = length (pq_manual q) + length (pq_git q) + length (pq_fs q)"

definition pq_is_empty :: "priority_queue \<Rightarrow> bool" where
  "pq_is_empty q \<longleftrightarrow> pq_len q = 0"

definition lane_depths :: "priority_queue \<Rightarrow> nat \<times> nat \<times> nat" where
  "lane_depths q = (length (pq_manual q), length (pq_git q), length (pq_fs q))"

section \<open>Jobs\<close>

record applied =
  ap_changed :: nat
  ap_vanished :: nat

text \<open>A job without the cluster configuration and the flusher that all jobs of a daemon share.\<close>

record apply_job =
  aj_project :: daemon_project
  aj_op :: daemon_op
  aj_persistence :: persistence

definition owes_recluster :: "apply_job \<Rightarrow> applied \<Rightarrow> bool" where
  "owes_recluster job a \<longleftrightarrow>
     ap_changed a > 0 \<and> aj_persistence job = Defer \<and> aj_op job \<noteq> Op_Recluster"

text \<open>What running a job ends with; a panic is caught and becomes an error that names the project.\<close>

datatype outcome = Finished "daemon_error + applied" | Panicked

definition task_result :: "apply_job \<Rightarrow> outcome \<Rightarrow> daemon_error + bool" where
  "task_result job out =
     (case out of
        Finished (Inr a) \<Rightarrow> Inr (owes_recluster job a)
      | Finished (Inl err) \<Rightarrow> Inl err
      | Panicked \<Rightarrow> Inl (DOther (''apply panicked for '' @ dp_id (aj_project job))))"

section \<open>The scheduler\<close>

record scheduler =
  sc_permits :: nat
  sc_inflight :: "string list"
  sc_tasks :: "apply_job list"

definition sched_new :: "nat \<Rightarrow> scheduler" where
  "sched_new permits = \<lparr>sc_permits = max permits 1, sc_inflight = [], sc_tasks = []\<rparr>"

definition sched_is_idle :: "scheduler \<Rightarrow> bool" where
  "sched_is_idle s \<longleftrightarrow> sc_inflight s = []"

definition is_running :: "scheduler \<Rightarrow> string \<Rightarrow> bool" where
  "is_running s project \<longleftrightarrow> project \<in> set (sc_inflight s)"

fun dispatch :: "apply_job list \<Rightarrow> scheduler \<Rightarrow> apply_job list \<times> scheduler" where
  "dispatch [] s = ([], s)"
| "dispatch (job # jobs) s =
     (let i = dp_id (aj_project job)
      in if length (sc_inflight s) \<ge> sc_permits s \<or> i \<in> set (sc_inflight s)
         then (let (deferred, s) = dispatch jobs s in (job # deferred, s))
         else dispatch jobs (s\<lparr>sc_inflight := i # sc_inflight s, sc_tasks := sc_tasks s @ [job]\<rparr>))"

text \<open>The task at position \<open>k\<close> ends; no task, no result.\<close>

definition join_next ::
  "nat \<Rightarrow> outcome \<Rightarrow> scheduler \<Rightarrow> (string \<times> (daemon_error + bool)) option \<times> scheduler"
where
  "join_next k out s =
     (if k < length (sc_tasks s)
      then
        (let job = sc_tasks s ! k; i = dp_id (aj_project job)
         in (Some (i, task_result job out),
             s\<lparr>sc_inflight := remove1 i (sc_inflight s),
               sc_tasks := take k (sc_tasks s) @ drop (Suc k) (sc_tasks s)\<rparr>))
      else (None, s))"

text \<open>\<open>drain\<close>, given the order in which the tasks end and their outcomes; it stops when no task is
  left.\<close>

fun drain :: "(nat \<times> outcome) list \<Rightarrow> scheduler \<Rightarrow> string list \<times> scheduler" where
  "drain [] s = ([], s)"
| "drain ((k, out) # ends) s =
     (case join_next k out s of
        (None, s) \<Rightarrow> ([], s)
      | (Some (i, Inr True), s) \<Rightarrow> (let (owing, s) = drain ends s in (i # owing, s))
      | (Some (i, _), s) \<Rightarrow> drain ends s)"

section \<open>The run loop\<close>

record run_loop =
  rl_registry :: registry
  rl_queue :: priority_queue
  rl_last_activity :: nat
  rl_sched :: scheduler
  rl_deferred :: "apply_job list"
  rl_owes :: "string list"

definition resolve_project_id ::
  "(daemon_project list \<Rightarrow> daemon_project list) \<Rightarrow> registry \<Rightarrow> string \<Rightarrow> string option"
where
  "resolve_project_id shuffle r input =
     (case reg_get r input of
        Some _ \<Rightarrow> Some input
      | None \<Rightarrow> map_option dp_id (find_by_path shuffle r input))"

definition make_job ::
  "(daemon_project list \<Rightarrow> daemon_project list) \<Rightarrow> registry \<Rightarrow> string \<Rightarrow> daemon_op \<Rightarrow> persistence \<Rightarrow>
     apply_job option"
where
  "make_job shuffle r project op0 mode =
     (case resolve_project_id shuffle r project of
        None \<Rightarrow> None
      | Some i \<Rightarrow>
          map_option (\<lambda>p. \<lparr>aj_project = p, aj_op = op0, aj_persistence = mode\<rparr>) (reg_get r i))"

definition route_watcher_events ::
  "(string \<times> produced \<times> lane) list \<Rightarrow> priority_queue \<Rightarrow> priority_queue"
where
  "route_watcher_events items q =
     foldl (\<lambda>q (project, p, l). pq_submit \<lparr>qi_project = project, qi_op = op_of p, qi_lane = l\<rparr> q)
       q items"

lemma pq_pop_len: "pq_pop q = Some (item, q') \<Longrightarrow> pq_len q' < pq_len q"
  by (auto simp: pq_pop_def pq_len_def split: list.splits)

function collect_items :: "priority_queue \<Rightarrow> queue_item list \<times> priority_queue" where
  "collect_items q =
     (case pq_pop q of
        None \<Rightarrow> ([], q)
      | Some (item, q') \<Rightarrow> (let (items, q'') = collect_items q' in (item # items, q'')))"
  by pat_completeness auto
termination
  by (relation "measure pq_len") (auto dest: pq_pop_len)

declare collect_items.simps [simp del]

definition collect_apply_jobs ::
  "(daemon_project list \<Rightarrow> daemon_project list) \<Rightarrow> nat \<Rightarrow> run_loop \<Rightarrow> run_loop"
where
  "collect_apply_jobs shuffle now l =
     (let (items, q) = collect_items (rl_queue l)
      in l\<lparr>rl_queue := q,
           rl_last_activity := (if items = [] then rl_last_activity l else now),
           rl_deferred := rl_deferred l
             @ List.map_filter (\<lambda>item. make_job shuffle (rl_registry l) (qi_project item) (qi_op item) Defer) items\<rparr>)"

definition is_quiet :: "run_loop \<Rightarrow> string \<Rightarrow> bool" where
  "is_quiet l i \<longleftrightarrow>
     \<not> pq_has_project (rl_queue l) i \<and> \<not> is_running (rl_sched l) i
     \<and> \<not> list_ex (\<lambda>j. dp_id (aj_project j) = i) (rl_deferred l)"

definition redispatch :: "run_loop \<Rightarrow> run_loop" where
  "redispatch l =
     (if rl_deferred l = [] then l
      else (let (deferred, s) = dispatch (rl_deferred l) (rl_sched l)
            in l\<lparr>rl_deferred := deferred, rl_sched := s\<rparr>))"

definition recluster_jobs ::
  "(daemon_project list \<Rightarrow> daemon_project list) \<Rightarrow> (string list \<Rightarrow> string list) \<Rightarrow> run_loop \<Rightarrow>
     apply_job list"
where
  "recluster_jobs shuffle order l =
     List.map_filter (\<lambda>i. make_job shuffle (rl_registry l) i Op_Recluster Defer)
       (filter (is_quiet l) (order (rl_owes l)))"

definition dispatch_reclusters ::
  "(daemon_project list \<Rightarrow> daemon_project list) \<Rightarrow> (string list \<Rightarrow> string list) \<Rightarrow> run_loop \<Rightarrow> run_loop"
where
  "dispatch_reclusters shuffle order l =
     (if rl_owes l = [] then l
      else
        (let quiet = filter (is_quiet l) (order (rl_owes l));
             jobs = recluster_jobs shuffle order l;
             l = l\<lparr>rl_owes := filter (\<lambda>i. i \<notin> set quiet) (rl_owes l)\<rparr>
         in if jobs = [] then l
            else (let (deferred, s) = dispatch jobs (rl_sched l)
                  in l\<lparr>rl_deferred := rl_deferred l @ deferred, rl_sched := s\<rparr>)))"

definition loop_top ::
  "(daemon_project list \<Rightarrow> daemon_project list) \<Rightarrow> (string list \<Rightarrow> string list) \<Rightarrow> run_loop \<Rightarrow> run_loop"
where
  "loop_top shuffle order l = dispatch_reclusters shuffle order (redispatch l)"

definition loop_tick ::
  "(daemon_project list \<Rightarrow> daemon_project list) \<Rightarrow> nat \<Rightarrow> (string \<times> produced \<times> lane) list \<Rightarrow>
     run_loop \<Rightarrow> run_loop"
where
  "loop_tick shuffle now items l =
     collect_apply_jobs shuffle now (l\<lparr>rl_queue := route_watcher_events items (rl_queue l)\<rparr>)"

definition loop_done :: "nat \<Rightarrow> outcome \<Rightarrow> run_loop \<Rightarrow> run_loop" where
  "loop_done k out l =
     (if sched_is_idle (rl_sched l) then l
      else
        (case join_next k out (rl_sched l) of
           (Some (i, Inr True), s) \<Rightarrow> l\<lparr>rl_sched := s, rl_owes := List.insert i (rl_owes l)\<rparr>
         | (_, s) \<Rightarrow> l\<lparr>rl_sched := s\<rparr>))"

text \<open>After the loop: the drained tasks' debts join the others, each is paid by one job; the deferred
  jobs are dropped.\<close>

definition shutdown_jobs ::
  "(daemon_project list \<Rightarrow> daemon_project list) \<Rightarrow> (string list \<Rightarrow> string list) \<Rightarrow>
     (nat \<times> outcome) list \<Rightarrow> run_loop \<Rightarrow> apply_job list"
where
  "shutdown_jobs shuffle order ends l =
     List.map_filter (\<lambda>i. make_job shuffle (rl_registry l) i Op_Recluster Defer)
       (order (foldl (\<lambda>owes i. List.insert i owes) (rl_owes l) (fst (drain ends (rl_sched l)))))"

definition may_idle_out :: "nat \<Rightarrow> nat option \<Rightarrow> run_loop \<Rightarrow> bool" where
  "may_idle_out now timeout l \<longleftrightarrow>
     (case timeout of
        None \<Rightarrow> False
      | Some t \<Rightarrow>
          now - rl_last_activity l > t \<and> pq_is_empty (rl_queue l) \<and> rl_deferred l = []
          \<and> sched_is_idle (rl_sched l) \<and> rl_owes l = [])"

end
