(* ===== verification/Sched_Props.thy ===== *)
theory Sched_Props
  imports Sched
begin

text \<open>
  The producer lane: the queue is a stable sort by lane, the pool keeps its two bounds, the jobs of a
  project start in the order they were collected, and the loop never stalls with work left.
\<close>

section \<open>The queue\<close>

fun lane_rank :: "lane \<Rightarrow> nat" where
  "lane_rank Manual = 0"
| "lane_rank Git = 1"
| "lane_rank Fs = 2"

definition pq_items :: "priority_queue \<Rightarrow> queue_item list" where
  "pq_items q = pq_manual q @ pq_git q @ pq_fs q"

definition pq_ok :: "priority_queue \<Rightarrow> bool" where
  "pq_ok q \<longleftrightarrow> (\<forall>x \<in> set (pq_manual q). qi_lane x = Manual) \<and> (\<forall>x \<in> set (pq_git q). qi_lane x = Git)
     \<and> (\<forall>x \<in> set (pq_fs q). qi_lane x = Fs)"

lemma collect_items_all: "collect_items q = (pq_items q, pq_new)"
proof (induction q rule: collect_items.induct)
  case (1 q)
  show ?case
  proof (cases "pq_pop q")
    case None
    then have "pq_items q = [] \<and> q = pq_new"
      by (cases q) (auto simp: pq_pop_def pq_items_def pq_new_def split: list.splits)
    moreover from None have "collect_items q = ([], q)" by (subst collect_items.simps) simp
    ultimately show ?thesis by metis
  next
    case (Some r)
    then obtain item q' where "pq_pop q = Some (item, q')" by (cases r) auto
    moreover from this have "pq_items q = item # pq_items q'"
      by (auto simp: pq_pop_def pq_items_def split: list.splits)
    ultimately show ?thesis using 1 by (simp add: collect_items.simps [of q])
  qed
qed

lemma pq_submit_lane:
  "filter (\<lambda>x. qi_lane x = l) (pq_items (pq_submit item q)) =
     filter (\<lambda>x. qi_lane x = l) (pq_items q) @ (if qi_lane item = l then [item] else [])"
  if "pq_ok q"
  using that by (cases "qi_lane item"; cases l)
    (auto simp: pq_submit_def pq_items_def pq_ok_def filter_empty_conv)

lemma pq_submit_ok: "pq_ok q \<Longrightarrow> pq_ok (pq_submit item q)"
  by (cases "qi_lane item") (auto simp: pq_submit_def pq_ok_def)

lemma pq_submits:
  "pq_ok q \<Longrightarrow> pq_ok (foldl (\<lambda>q item. pq_submit item q) q items)
     \<and> filter (\<lambda>x. qi_lane x = l) (pq_items (foldl (\<lambda>q item. pq_submit item q) q items)) =
       filter (\<lambda>x. qi_lane x = l) (pq_items q @ items)"
proof (induction items arbitrary: q)
  case (Cons item items)
  from Cons.IH [OF pq_submit_ok [OF Cons.prems, of item]] pq_submit_lane [OF Cons.prems, of l item]
  show ?case by simp
qed simp

lemma pq_items_sorted: "pq_ok q \<Longrightarrow> sorted (map (lane_rank \<circ> qi_lane) (pq_items q))"
proof -
  assume q: "pq_ok q"
  have const: "sorted (map (lane_rank \<circ> qi_lane) xs)" if "\<forall>x \<in> set xs. qi_lane x = l" for xs l
    using that by (induction xs) auto
  from q const [of "pq_manual q" Manual] const [of "pq_git q" Git] const [of "pq_fs q" Fs] show ?thesis
    by (auto simp: pq_items_def pq_ok_def sorted_append)
qed

text \<open>Whatever is submitted, in whatever order, the queue gives the items out as a stable sort by
  lane: manual before git before file system, and first come first served within a lane.\<close>

theorem queue_is_stable_lane_sort:
  "fst (collect_items (foldl (\<lambda>q item. pq_submit item q) pq_new items)) =
     sort_key (lane_rank \<circ> qi_lane) items"
proof -
  let ?q = "foldl (\<lambda>q item. pq_submit item q) pq_new items"
  have ok0: "pq_ok pq_new" by (simp add: pq_ok_def pq_new_def)
  have sub: "pq_ok ?q" "filter (\<lambda>x. qi_lane x = l) (pq_items ?q) = filter (\<lambda>x. qi_lane x = l) items" for l
    using pq_submits [OF ok0, of items l] by (simp_all add: pq_items_def pq_new_def)
  have rank: "lane_rank l = lane_rank l' \<longleftrightarrow> l' = l" for l l' by (cases l; cases l') auto
  have "count (mset (pq_items ?q)) x = count (mset items) x" for x
  proof -
    have "count (mset xs) x = count (mset (filter (\<lambda>y. qi_lane y = qi_lane x) xs)) x" for xs
      by (induction xs) auto
    then show ?thesis using sub(2) [of "qi_lane x"] by metis
  qed
  then have "mset (pq_items ?q) = mset items" by (rule multiset_eqI)
  then have "sort_key (lane_rank \<circ> qi_lane) items = pq_items ?q"
    using sub pq_items_sorted [OF sub(1)] by (intro properties_for_sort_key) (simp_all add: rank)
  then show ?thesis by (simp add: collect_items_all)
qed

section \<open>The bounds of the pool\<close>

abbreviation job_id :: "apply_job \<Rightarrow> string" where
  "job_id j \<equiv> dp_id (aj_project j)"

definition sched_ok :: "scheduler \<Rightarrow> bool" where
  "sched_ok s \<longleftrightarrow> sc_permits s \<ge> 1 \<and> length (sc_inflight s) \<le> sc_permits s \<and> distinct (sc_inflight s)
     \<and> mset (sc_inflight s) = mset (map job_id (sc_tasks s))"

lemma sched_new_ok: "sched_ok (sched_new n)"
  by (simp add: sched_ok_def sched_new_def)

lemma sched_ok_length: "sched_ok s \<Longrightarrow> length (sc_inflight s) = length (sc_tasks s)"
  unfolding sched_ok_def by (metis length_map mset_eq_length)

text \<open>What a dispatch starts, appended to the running tasks, and what it defers.\<close>

lemma dispatch_spec:
  assumes "dispatch jobs s = (deferred, s')" "sched_ok s"
  shows "sched_ok s' \<and> sc_permits s' = sc_permits s \<and> set (sc_inflight s) \<subseteq> set (sc_inflight s')
     \<and> (\<exists>started. sc_tasks s' = sc_tasks s @ started \<and> mset jobs = mset (started @ deferred)
          \<and> (\<forall>i. filter (\<lambda>j. job_id j = i) jobs = filter (\<lambda>j. job_id j = i) (started @ deferred))
          \<and> (\<forall>j \<in> set started. job_id j \<notin> set (sc_inflight s)))
     \<and> (deferred \<noteq> [] \<longrightarrow> sc_inflight s' \<noteq> [])"
  using assms
proof (induction jobs arbitrary: s deferred s')
  case (Cons job jobs)
  show ?case
  proof (cases "length (sc_inflight s) \<ge> sc_permits s \<or> job_id job \<in> set (sc_inflight s)")
    case True
    with Cons.prems obtain d where d: "dispatch jobs s = (d, s')" "deferred = job # d"
      by (auto simp: Let_def split: prod.splits)
    from Cons.IH [OF d(1) Cons.prems(2)] obtain started where
      st: "sched_ok s'" "sc_permits s' = sc_permits s" "set (sc_inflight s) \<subseteq> set (sc_inflight s')"
        "sc_tasks s' = sc_tasks s @ started" "mset jobs = mset (started @ d)"
        "\<And>i. filter (\<lambda>j. job_id j = i) jobs = filter (\<lambda>j. job_id j = i) (started @ d)"
        "\<forall>j \<in> set started. job_id j \<notin> set (sc_inflight s)" by auto
    have none: "filter (\<lambda>j. job_id j = job_id job) started = []"
    proof (cases "job_id job \<in> set (sc_inflight s)")
      case True
      with st(7) show ?thesis by (auto simp: filter_empty_conv)
    next
      case False
      with \<open>length (sc_inflight s) \<ge> sc_permits s \<or> _\<close> have full: "length (sc_inflight s) \<ge> sc_permits s"
        by simp
      have "length (sc_inflight s') = length (sc_tasks s')" "length (sc_inflight s) = length (sc_tasks s)"
        using st(1) Cons.prems(2) by (simp_all add: sched_ok_length)
      moreover have "length (sc_inflight s') \<le> sc_permits s'" using st(1) by (simp add: sched_ok_def)
      moreover have "length (sc_tasks s') = length (sc_tasks s) + length started" by (simp add: st(4))
      ultimately have "length started = 0" using full st(2) by linarith
      then show ?thesis by simp
    qed
    have "filter (\<lambda>j. job_id j = i) (job # jobs) = filter (\<lambda>j. job_id j = i) (started @ job # d)" for i
      using st(6) [of i] none by (cases "job_id job = i") auto
    moreover have "sc_inflight s' \<noteq> []"
      using True st(3) Cons.prems(2) by (auto simp: sched_ok_def)
    ultimately show ?thesis using st d by auto
  next
    case False
    let ?s = "s\<lparr>sc_inflight := job_id job # sc_inflight s, sc_tasks := sc_tasks s @ [job]\<rparr>"
    from False Cons.prems have d: "dispatch jobs ?s = (deferred, s')" by (simp add: Let_def)
    have "sched_ok ?s" using False Cons.prems(2) by (auto simp: sched_ok_def)
    from Cons.IH [OF d this] obtain started where
      st: "sched_ok s'" "sc_permits s' = sc_permits s"
        "insert (job_id job) (set (sc_inflight s)) \<subseteq> set (sc_inflight s')"
        "sc_tasks s' = sc_tasks s @ job # started" "mset jobs = mset (started @ deferred)"
        "\<And>i. filter (\<lambda>j. job_id j = i) jobs = filter (\<lambda>j. job_id j = i) (started @ deferred)"
        "\<forall>j \<in> set started. job_id j \<notin> set (sc_inflight s)" by auto
    then show ?thesis using False
      by (intro conjI exI [of _ "job # started"]) auto
  qed
qed auto

lemma join_next_ok:
  assumes "sched_ok s" "join_next k out s = (r, s')"
  shows "sched_ok s'"
proof (cases "k < length (sc_tasks s)")
  case True
  let ?i = "job_id (sc_tasks s ! k)"
  have tasks: "sc_tasks s = take k (sc_tasks s) @ sc_tasks s ! k # drop (Suc k) (sc_tasks s)"
    using True by (rule id_take_nth_drop)
  have "mset (map job_id (sc_tasks s)) =
      add_mset ?i (mset (map job_id (take k (sc_tasks s) @ drop (Suc k) (sc_tasks s))))"
    by (subst tasks) simp
  with assms True show ?thesis
    by (auto simp: sched_ok_def join_next_def Let_def length_remove1 distinct_remove1)
qed (use assms in \<open>simp add: join_next_def\<close>)

section \<open>Turns of the loop\<close>

text \<open>One turn: the work at the loop's top, then a tick, the end of a task, or a client's change of the
  registry.\<close>

datatype turn = Tick nat "(string \<times> produced \<times> lane) list" | Done nat outcome | Client registry

definition run_turn ::
  "(daemon_project list \<Rightarrow> daemon_project list) \<Rightarrow> (string list \<Rightarrow> string list) \<Rightarrow> turn \<Rightarrow>
     run_loop \<Rightarrow> run_loop"
where
  "run_turn shuffle order t l =
     (let l = loop_top shuffle order l
      in case t of
           Tick now items \<Rightarrow> loop_tick shuffle now items l
         | Done k out \<Rightarrow> loop_done k out l
         | Client r \<Rightarrow> l\<lparr>rl_registry := r\<rparr>)"

text \<open>The jobs a turn creates and those it starts.\<close>

definition turn_jobs ::
  "(daemon_project list \<Rightarrow> daemon_project list) \<Rightarrow> (string list \<Rightarrow> string list) \<Rightarrow> turn \<Rightarrow>
     run_loop \<Rightarrow> apply_job list"
where
  "turn_jobs shuffle order t l =
     recluster_jobs shuffle order (redispatch l)
     @ drop (length (rl_deferred (loop_top shuffle order l))) (rl_deferred (run_turn shuffle order t l))"

definition turn_starts ::
  "(daemon_project list \<Rightarrow> daemon_project list) \<Rightarrow> (string list \<Rightarrow> string list) \<Rightarrow> run_loop \<Rightarrow>
     apply_job list"
where
  "turn_starts shuffle order l =
     drop (length (sc_tasks (rl_sched l))) (sc_tasks (rl_sched (loop_top shuffle order l)))"

fun run_turns ::
  "(daemon_project list \<Rightarrow> daemon_project list) \<Rightarrow> (string list \<Rightarrow> string list) \<Rightarrow> turn list \<Rightarrow>
     run_loop \<Rightarrow> run_loop \<times> apply_job list \<times> apply_job list"
where
  "run_turns shuffle order [] l = (l, [], [])"
| "run_turns shuffle order (t # ts) l =
     (case run_turns shuffle order ts (run_turn shuffle order t l) of
        (l', created, started) \<Rightarrow>
          (l', turn_jobs shuffle order t l @ created, turn_starts shuffle order l @ started))"

text \<open>Project ids are names, roots are absolute, the registry is keyed by id.\<close>

definition reg_sane :: "registry \<Rightarrow> bool" where
  "reg_sane r \<longleftrightarrow> reg_ok r
     \<and> (\<forall>p \<in> set (bt_values r). starts_with (dp_root p) ''/'' \<and> \<not> starts_with (dp_id p) ''/'')"

definition loop_ok :: "run_loop \<Rightarrow> bool" where
  "loop_ok l \<longleftrightarrow> sched_ok (rl_sched l) \<and> reg_sane (rl_registry l) \<and> distinct (rl_owes l)
     \<and> (\<forall>j \<in> set (sc_tasks (rl_sched l)) \<union> set (rl_deferred l). \<not> starts_with (job_id j) ''/'')
     \<and> (\<forall>i \<in> set (rl_owes l). \<not> starts_with i ''/'')"

definition orders_ok ::
  "(daemon_project list \<Rightarrow> daemon_project list) \<Rightarrow> (string list \<Rightarrow> string list) \<Rightarrow> bool"
where
  "orders_ok shuffle order \<longleftrightarrow>
     (\<forall>ps. set (shuffle ps) = set ps) \<and> (\<forall>xs. mset (order xs) = mset xs)"

lemma split_acc_no_sep:
  "c \<notin> set acc \<Longrightarrow> x \<in> set (split_acc [c] acc s) \<Longrightarrow> c \<notin> set x"
proof (induction "[c]" acc s arbitrary: x rule: split_acc.induct)
  case (1 acc s)
  show ?case
  proof (cases s)
    case Nil
    with 1 show ?thesis by auto
  next
    case (Cons d s')
    with 1 show ?thesis
      by (cases "d = c") (auto simp: split_acc.simps [of _ _ "_ # _"] starts_with_def)
  qed
qed

lemma relative_not_under_absolute:
  assumes "starts_with base ''/''" "\<not> starts_with i ''/''"
  shows "\<not> path_starts_with i base"
proof -
  have "''/'' \<notin> set (split_str ''/'' i)"
    using split_acc_no_sep [of "CHR ''/''" "[]" "''/''" i] by (auto simp: split_str_def)
  then have "''/'' \<notin> set (path_components i)" using assms(2) by (auto simp: path_components_def Let_def)
  moreover have "\<exists>rest. path_components base = ''/'' # rest"
    using assms(1) by (simp add: path_components_def Let_def)
  ultimately show ?thesis
    by (auto simp: path_starts_with_def) (metis in_set_takeD list.set_intros(1))
qed

lemma resolve_id:
  assumes "reg_sane r" "\<forall>ps. set (shuffle ps) = set ps" "\<not> starts_with i ''/''"
  shows "resolve_project_id shuffle r i = (if reg_get r i = None then None else Some i)"
proof -
  have "find_by_path shuffle r i = None"
    using assms relative_not_under_absolute
    by (auto simp: find_by_path_def reg_sane_def find_None_iff)
  then show ?thesis by (auto simp: resolve_project_id_def split: option.split)
qed

lemma make_job_id:
  assumes "reg_sane r" "make_job shuffle r i op0 mode = Some j"
  shows "\<not> starts_with (job_id j) ''/''" and "aj_op j = op0" and "aj_persistence j = mode"
    and "\<forall>ps. set (shuffle ps) = set ps \<Longrightarrow> \<not> starts_with i ''/'' \<Longrightarrow> job_id j = i"
proof -
  from assms(2) obtain k p where kp: "resolve_project_id shuffle r i = Some k" "bt_get r k = Some p"
    "j = \<lparr>aj_project = p, aj_op = op0, aj_persistence = mode\<rparr>"
    by (auto simp: make_job_def reg_get_def split: option.splits)
  then have "p \<in> set (bt_values r)"
    by (auto simp: bt_values_def bt_get_def dest!: map_of_SomeD intro: rev_image_eqI)
  with kp assms(1) show "\<not> starts_with (job_id j) ''/''" "aj_op j = op0" "aj_persistence j = mode"
    by (auto simp: reg_sane_def)
  assume "\<forall>ps. set (shuffle ps) = set ps" "\<not> starts_with i ''/''"
  from resolve_id [OF assms(1) this] kp have "k = i" by (auto split: if_splits)
  with kp assms(1) reg_ok_get [of r i p] show "job_id j = i" by (simp add: reg_sane_def)
qed

lemma redispatch_spec:
  assumes "loop_ok l"
  shows "loop_ok (redispatch l) \<and> rl_owes (redispatch l) = rl_owes l
     \<and> rl_queue (redispatch l) = rl_queue l \<and> rl_registry (redispatch l) = rl_registry l
     \<and> (\<exists>started. sc_tasks (rl_sched (redispatch l)) = sc_tasks (rl_sched l) @ started
          \<and> mset (rl_deferred l) = mset (started @ rl_deferred (redispatch l))
          \<and> (\<forall>i. filter (\<lambda>j. job_id j = i) (rl_deferred l) =
               filter (\<lambda>j. job_id j = i) (started @ rl_deferred (redispatch l))))
     \<and> (rl_deferred (redispatch l) \<noteq> [] \<longrightarrow> sc_inflight (rl_sched (redispatch l)) \<noteq> [])"
proof (cases "rl_deferred l = []")
  case True
  with assms show ?thesis by (simp add: redispatch_def)
next
  case False
  obtain d s where ds: "dispatch (rl_deferred l) (rl_sched l) = (d, s)" by fastforce
  from dispatch_spec [OF ds] assms obtain started where
    st: "sched_ok s" "sc_tasks s = sc_tasks (rl_sched l) @ started"
      "mset (rl_deferred l) = mset (started @ d)"
      "\<forall>i. filter (\<lambda>j. job_id j = i) (rl_deferred l) = filter (\<lambda>j. job_id j = i) (started @ d)"
      "d \<noteq> [] \<longrightarrow> sc_inflight s \<noteq> []" by (auto simp: loop_ok_def)
  have r: "redispatch l = l\<lparr>rl_deferred := d, rl_sched := s\<rparr>" using False ds by (simp add: redispatch_def)
  have "set (rl_deferred l) = set (started @ d)" using st(3) mset_eq_setD by blast
  then have "loop_ok (redispatch l)" using assms st(1,2) by (auto simp: loop_ok_def r)
  with st show ?thesis by (auto simp: r)
qed

lemma recluster_jobs_spec:
  assumes "loop_ok l" "orders_ok shuffle order" "j \<in> set (recluster_jobs shuffle order l)"
  shows "job_id j \<in> set (rl_owes l)" and "is_quiet l (job_id j)" and "aj_op j = Op_Recluster"
    and "\<not> starts_with (job_id j) ''/''"
proof -
  from assms(3) obtain i where i: "i \<in> set (order (rl_owes l))" "is_quiet l i"
    "make_job shuffle (rl_registry l) i Op_Recluster Defer = Some j"
    by (auto simp: recluster_jobs_def in_set_map_filter)
  have "set (order (rl_owes l)) = set (rl_owes l)"
    using assms(2) by (metis orders_ok_def mset_eq_setD)
  with i(1) have owes: "i \<in> set (rl_owes l)" by simp
  with assms(1) have "\<not> starts_with i ''/''" by (simp add: loop_ok_def)
  with make_job_id [OF _ i(3)] assms(1,2) have "job_id j = i" "aj_op j = Op_Recluster"
    "\<not> starts_with (job_id j) ''/''" by (auto simp: loop_ok_def orders_ok_def)
  with owes i(2) show "job_id j \<in> set (rl_owes l)" "is_quiet l (job_id j)" "aj_op j = Op_Recluster"
    "\<not> starts_with (job_id j) ''/''" by auto
qed

lemma dispatch_reclusters_spec:
  assumes "loop_ok l" "orders_ok shuffle order"
  defines "l' \<equiv> dispatch_reclusters shuffle order l"
  shows "loop_ok l' \<and> rl_queue l' = rl_queue l \<and> rl_registry l' = rl_registry l
     \<and> rl_owes l' = filter (\<lambda>i. \<not> is_quiet l i) (rl_owes l)
     \<and> (\<exists>started d. sc_tasks (rl_sched l') = sc_tasks (rl_sched l) @ started
          \<and> rl_deferred l' = rl_deferred l @ d
          \<and> mset (recluster_jobs shuffle order l) = mset (started @ d)
          \<and> (\<forall>i. filter (\<lambda>j. job_id j = i) (recluster_jobs shuffle order l) =
               filter (\<lambda>j. job_id j = i) (started @ d)))
     \<and> (sc_inflight (rl_sched l) \<noteq> [] \<or> recluster_jobs shuffle order l \<noteq> [] \<longrightarrow>
          sc_inflight (rl_sched l') \<noteq> [])"
proof -
  let ?jobs = "recluster_jobs shuffle order l"
  have order: "set (order (rl_owes l)) = set (rl_owes l)"
    using assms(2) by (metis orders_ok_def mset_eq_setD)
  have owes: "filter (\<lambda>i. i \<notin> set (filter (is_quiet l) (order (rl_owes l)))) (rl_owes l) =
      filter (\<lambda>i. \<not> is_quiet l i) (rl_owes l)"
    by (rule filter_cong) (auto simp: order)
  obtain d s where ds: "dispatch ?jobs (rl_sched l) = (d, s)" by fastforce
  from dispatch_spec [OF ds] assms(1) obtain started where
    st: "sched_ok s" "sc_tasks s = sc_tasks (rl_sched l) @ started" "mset ?jobs = mset (started @ d)"
      "\<forall>i. filter (\<lambda>j. job_id j = i) ?jobs = filter (\<lambda>j. job_id j = i) (started @ d)"
      "set (sc_inflight (rl_sched l)) \<subseteq> set (sc_inflight s)" "d \<noteq> [] \<longrightarrow> sc_inflight s \<noteq> []"
    by (auto simp: loop_ok_def)
  have l': "l' = l\<lparr>rl_owes := filter (\<lambda>i. \<not> is_quiet l i) (rl_owes l), rl_deferred := rl_deferred l @ d,
      rl_sched := s\<rparr>"
  proof (cases "rl_owes l = []")
    case True
    with order have "order (rl_owes l) = []" by auto
    then have "?jobs = []" by (simp add: recluster_jobs_def List.map_filter_def)
    with ds True show ?thesis by (simp add: l'_def dispatch_reclusters_def)
  next
    case False
    with ds owes show ?thesis
      by (cases "?jobs = []") (auto simp: l'_def dispatch_reclusters_def Let_def)
  qed
  have "set ?jobs = set (started @ d)" using st(3) mset_eq_setD by blast
  with recluster_jobs_spec(4) [OF assms(1,2)]
  have "\<forall>j \<in> set (started @ d). \<not> starts_with (job_id j) ''/''" by blast
  then have "loop_ok l'" using assms(1) st(1,2) by (auto simp: loop_ok_def l')
  moreover have "sc_inflight s \<noteq> []" if "sc_inflight (rl_sched l) \<noteq> [] \<or> ?jobs \<noteq> []"
  proof (cases "started = []")
    case True
    with that st(3,5,6) show ?thesis by auto
  next
    case False
    then show ?thesis using sched_ok_length [OF st(1)] st(2) by auto
  qed
  ultimately show ?thesis using st by (auto simp: l')
qed

lemma loop_top_spec:
  assumes "loop_ok l" "orders_ok shuffle order"
  defines "l' \<equiv> loop_top shuffle order l"
  shows "loop_ok l' \<and> rl_queue l' = rl_queue l \<and> rl_registry l' = rl_registry l
     \<and> (\<exists>started. sc_tasks (rl_sched l') = sc_tasks (rl_sched l) @ started
          \<and> mset (rl_deferred l @ recluster_jobs shuffle order (redispatch l)) =
              mset (started @ rl_deferred l')
          \<and> (\<forall>i. filter (\<lambda>j. job_id j = i) (rl_deferred l @ recluster_jobs shuffle order (redispatch l)) =
               filter (\<lambda>j. job_id j = i) (started @ rl_deferred l')))
     \<and> rl_owes l' = filter (\<lambda>i. \<not> is_quiet (redispatch l) i) (rl_owes l)
     \<and> (sc_inflight (rl_sched l') = [] \<longrightarrow>
          sc_inflight (rl_sched (redispatch l)) = [] \<and> rl_deferred (redispatch l) = []
          \<and> recluster_jobs shuffle order (redispatch l) = [] \<and> rl_deferred l' = [])"
proof -
  let ?l1 = "redispatch l"
  let ?jobs = "recluster_jobs shuffle order ?l1"
  from redispatch_spec [OF assms(1)] obtain st1 where
    1: "loop_ok ?l1" "rl_owes ?l1 = rl_owes l" "rl_queue ?l1 = rl_queue l" "rl_registry ?l1 = rl_registry l"
       "sc_tasks (rl_sched ?l1) = sc_tasks (rl_sched l) @ st1"
       "mset (rl_deferred l) = mset (st1 @ rl_deferred ?l1)"
       "\<And>i. filter (\<lambda>j. job_id j = i) (rl_deferred l) = filter (\<lambda>j. job_id j = i) (st1 @ rl_deferred ?l1)"
       "rl_deferred ?l1 \<noteq> [] \<Longrightarrow> sc_inflight (rl_sched ?l1) \<noteq> []" by blast
  from dispatch_reclusters_spec [OF 1(1) assms(2)] obtain st2 d where
    2: "loop_ok l'" "rl_queue l' = rl_queue ?l1" "rl_registry l' = rl_registry ?l1"
       "rl_owes l' = filter (\<lambda>i. \<not> is_quiet ?l1 i) (rl_owes ?l1)"
       "sc_tasks (rl_sched l') = sc_tasks (rl_sched ?l1) @ st2" "rl_deferred l' = rl_deferred ?l1 @ d"
       "mset ?jobs = mset (st2 @ d)"
       "\<And>i. filter (\<lambda>j. job_id j = i) ?jobs = filter (\<lambda>j. job_id j = i) (st2 @ d)"
       "sc_inflight (rl_sched ?l1) \<noteq> [] \<or> ?jobs \<noteq> [] \<Longrightarrow> sc_inflight (rl_sched l') \<noteq> []"
    unfolding l'_def loop_top_def by blast
  have swap: "filter (\<lambda>j. job_id j = i) (rl_deferred ?l1) @ filter (\<lambda>j. job_id j = i) st2 =
      filter (\<lambda>j. job_id j = i) st2 @ filter (\<lambda>j. job_id j = i) (rl_deferred ?l1)" for i
  proof (cases "filter (\<lambda>j. job_id j = i) ?jobs")
    case Nil
    then show ?thesis using 2(8) [of i] by simp
  next
    case (Cons j js)
    then have "j \<in> set ?jobs" "job_id j = i" by (auto simp: filter_eq_Cons_iff)
    from recluster_jobs_spec(2) [OF 1(1) assms(2) this(1)] this(2)
    have "filter (\<lambda>j. job_id j = i) (rl_deferred ?l1) = []"
      by (auto simp: is_quiet_def list_ex_iff filter_empty_conv)
    then show ?thesis by simp
  qed
  have fil: "filter (\<lambda>j. job_id j = i) (rl_deferred l @ ?jobs) =
      filter (\<lambda>j. job_id j = i) ((st1 @ st2) @ rl_deferred l')" for i
    using 1(7) [of i] 2(8) [of i] swap [of i] by (simp add: 2(6))
  have ms: "mset (rl_deferred l @ ?jobs) = mset ((st1 @ st2) @ rl_deferred l')"
    using 1(6) 2(6,7) by (simp add: ac_simps)
  have idle: "sc_inflight (rl_sched ?l1) = [] \<and> rl_deferred ?l1 = [] \<and> ?jobs = [] \<and> rl_deferred l' = []"
    if "sc_inflight (rl_sched l') = []"
  proof -
    from that 2(9) have none: "sc_inflight (rl_sched ?l1) = []" "?jobs = []" by blast+
    with 1(8) have "rl_deferred ?l1 = []" by blast
    moreover from none(2) 2(7) have "d = []" by simp
    ultimately show ?thesis using none 2(6) by simp
  qed
  have tasks: "sc_tasks (rl_sched l') = sc_tasks (rl_sched l) @ st1 @ st2" using 1(5) 2(5) by simp
  show ?thesis
    by (intro conjI exI [of _ "st1 @ st2"] allI) (use 1(2-4) 2(1-4) fil ms idle tasks in auto)
qed

lemma loop_done_spec:
  assumes "loop_ok l"
  shows "loop_ok (loop_done k out l) \<and> rl_deferred (loop_done k out l) = rl_deferred l
     \<and> rl_queue (loop_done k out l) = rl_queue l
     \<and> rl_registry (loop_done k out l) = rl_registry l"
proof (cases "sched_is_idle (rl_sched l) \<or> \<not> k < length (sc_tasks (rl_sched l))")
  case True
  with assms show ?thesis by (auto simp: loop_done_def join_next_def loop_ok_def split: option.splits)
next
  case False
  let ?s = "rl_sched l"
  let ?job = "sc_tasks ?s ! k"
  obtain r s' where j: "join_next k out ?s = (r, s')" by fastforce
  have r: "r = Some (job_id ?job, task_result ?job out)"
    "sc_tasks s' = take k (sc_tasks ?s) @ drop (Suc k) (sc_tasks ?s)"
    using j False by (auto simp: join_next_def Let_def)
  have ok: "sched_ok s'" using join_next_ok [OF _ j] assms by (simp add: loop_ok_def)
  have "set (sc_tasks s') \<subseteq> set (sc_tasks ?s)"
    using r(2) by (auto dest: in_set_takeD in_set_dropD)
  moreover have "?job \<in> set (sc_tasks ?s)" using False by simp
  ultimately show ?thesis using False j r(1) ok assms
    by (cases "task_result ?job out") (auto simp: loop_done_def loop_ok_def split: bool.split)
qed

lemma make_jobs_relative:
  assumes "reg_sane r" "j \<in> set (List.map_filter (\<lambda>x. make_job shuffle r (f x) (g x) mode) xs)"
  shows "\<not> starts_with (job_id j) ''/''"
  using assms make_job_id(1) by (auto simp: in_set_map_filter)

lemma loop_tick_spec:
  assumes "loop_ok l"
  shows "loop_ok (loop_tick shuffle now items l) \<and> rl_sched (loop_tick shuffle now items l) = rl_sched l
     \<and> (\<exists>new. rl_deferred (loop_tick shuffle now items l) = rl_deferred l @ new)"
proof -
  obtain its q where c: "collect_items (route_watcher_events items (rl_queue l)) = (its, q)" by fastforce
  let ?new = "List.map_filter (\<lambda>item. make_job shuffle (rl_registry l) (qi_project item) (qi_op item) Defer) its"
  have "\<forall>j \<in> set ?new. \<not> starts_with (job_id j) ''/''"
    using make_jobs_relative [of "rl_registry l" _ shuffle qi_project qi_op Defer its] assms
    by (auto simp: loop_ok_def)
  with assms show ?thesis by (auto simp: loop_tick_def collect_apply_jobs_def loop_ok_def c)
qed

lemma run_turn_spec:
  assumes "loop_ok l" "orders_ok shuffle order" "\<forall>r. t = Client r \<longrightarrow> reg_sane r"
  shows "loop_ok (run_turn shuffle order t l)
     \<and> filter (\<lambda>j. job_id j = i) (rl_deferred l @ turn_jobs shuffle order t l) =
       filter (\<lambda>j. job_id j = i) (turn_starts shuffle order l @ rl_deferred (run_turn shuffle order t l))"
proof -
  let ?l = "loop_top shuffle order l"
  from loop_top_spec [OF assms(1,2)] obtain started where
    1: "loop_ok ?l" "sc_tasks (rl_sched ?l) = sc_tasks (rl_sched l) @ started"
       "filter (\<lambda>j. job_id j = i) (rl_deferred l @ recluster_jobs shuffle order (redispatch l)) =
          filter (\<lambda>j. job_id j = i) (started @ rl_deferred ?l)" by blast
  have ok: "loop_ok (run_turn shuffle order t l)"
    and def: "\<exists>new. rl_deferred (run_turn shuffle order t l) = rl_deferred ?l @ new"
    using loop_tick_spec [OF 1(1)] loop_done_spec [OF 1(1)] 1(1) assms(3)
    by (cases t; simp add: run_turn_def Let_def; simp add: loop_ok_def)+
  from def obtain new where "rl_deferred (run_turn shuffle order t l) = rl_deferred ?l @ new" ..
  with 1 ok show ?thesis by (simp add: turn_jobs_def turn_starts_def)
qed

lemma run_turns_spec:
  assumes "loop_ok l" "orders_ok shuffle order" "\<forall>r. Client r \<in> set ts \<longrightarrow> reg_sane r"
    and "run_turns shuffle order ts l = (l', created, started)"
  shows "loop_ok l' \<and> filter (\<lambda>j. job_id j = i) (rl_deferred l @ created) =
       filter (\<lambda>j. job_id j = i) (started @ rl_deferred l')"
  using assms
proof (induction ts arbitrary: l created started)
  case (Cons t ts)
  obtain c s where cs: "run_turns shuffle order ts (run_turn shuffle order t l) = (l', c, s)"
    "created = turn_jobs shuffle order t l @ c" "started = turn_starts shuffle order l @ s"
    using Cons.prems(4) by (auto split: prod.splits)
  from run_turn_spec [OF Cons.prems(1,2), of t i] Cons.prems(3)
  have 1: "loop_ok (run_turn shuffle order t l)"
    "filter (\<lambda>j. job_id j = i) (rl_deferred l @ turn_jobs shuffle order t l) =
       filter (\<lambda>j. job_id j = i) (turn_starts shuffle order l @ rl_deferred (run_turn shuffle order t l))"
    by auto
  from Cons.IH [OF 1(1) assms(2) _ cs(1)] Cons.prems(3) have
    2: "loop_ok l'" "filter (\<lambda>j. job_id j = i) (rl_deferred (run_turn shuffle order t l) @ c) =
       filter (\<lambda>j. job_id j = i) (s @ rl_deferred l')" by auto
  from 1(2) 2(2) have "filter (\<lambda>j. job_id j = i) (rl_deferred l @ created) =
       filter (\<lambda>j. job_id j = i) (started @ rl_deferred l')"
    unfolding cs(2,3) filter_append by (metis append.assoc)
  with 2(1) show ?case by simp
qed simp


section \<open>Progress\<close>

text \<open>What is left to do: a job counts for its run and for the recluster it may leave owed.\<close>

definition job_weight :: "apply_job \<Rightarrow> nat" where
  "job_weight j = (if aj_op j = Op_Recluster then 1 else 2)"

definition work_left :: "run_loop \<Rightarrow> nat" where
  "work_left l =
     sum_list (map job_weight (rl_deferred l)) + sum_list (map job_weight (sc_tasks (rl_sched l)))
     + length (rl_owes l)"

lemma weight_mset: "mset xs = mset ys \<Longrightarrow> sum_list (map job_weight xs) = sum_list (map job_weight ys)"
  by (metis mset_map sum_mset_sum_list)

lemma length_map_filter: "length (List.map_filter f xs) \<le> length xs"
  by (simp add: List.map_filter_def)

lemma reclusters_weight:
  "\<forall>j \<in> set js. aj_op j = Op_Recluster \<Longrightarrow> sum_list (map job_weight js) = length js"
  by (induction js) (auto simp: job_weight_def)

lemma recluster_weight:
  assumes "loop_ok l" "orders_ok shuffle order"
  shows "sum_list (map job_weight (recluster_jobs shuffle order l))
     + length (filter (\<lambda>i. \<not> is_quiet l i) (rl_owes l)) \<le> length (rl_owes l)"
proof -
  let ?jobs = "recluster_jobs shuffle order l"
  have "sum_list (map job_weight ?jobs) = length ?jobs"
    using recluster_jobs_spec(3) [OF assms] by (intro reclusters_weight) blast
  also have "\<dots> \<le> length (filter (is_quiet l) (order (rl_owes l)))"
    by (simp add: recluster_jobs_def length_map_filter)
  also have "\<dots> = length (filter (is_quiet l) (rl_owes l))"
    using assms(2) by (metis mset_filter orders_ok_def size_mset)
  finally show ?thesis using sum_length_filter_compl [of "is_quiet l" "rl_owes l"] by simp
qed

lemma loop_top_work:
  assumes "loop_ok l" "orders_ok shuffle order"
  shows "work_left (loop_top shuffle order l) \<le> work_left l"
proof -
  let ?l = "loop_top shuffle order l"
  let ?jobs = "recluster_jobs shuffle order (redispatch l)"
  from loop_top_spec [OF assms] obtain started where
    1: "sc_tasks (rl_sched ?l) = sc_tasks (rl_sched l) @ started"
       "mset (rl_deferred l @ ?jobs) = mset (started @ rl_deferred ?l)"
       "rl_owes ?l = filter (\<lambda>i. \<not> is_quiet (redispatch l) i) (rl_owes l)" by blast
  from redispatch_spec [OF assms(1)] have r: "loop_ok (redispatch l)" "rl_owes (redispatch l) = rl_owes l"
    by auto
  from weight_mset [OF 1(2)] recluster_weight [OF r(1) assms(2)] show ?thesis
    by (simp add: work_left_def 1(1,3) r(2))
qed

lemma loop_done_work:
  assumes "loop_ok l" "k < length (sc_tasks (rl_sched l))"
  shows "work_left (loop_done k out l) < work_left l"
proof -
  let ?s = "rl_sched l"
  let ?job = "sc_tasks ?s ! k"
  let ?rest = "take k (sc_tasks ?s) @ drop (Suc k) (sc_tasks ?s)"
  have "mset (sc_tasks ?s) = mset (?job # ?rest)"
    by (subst id_take_nth_drop [OF assms(2)]) simp
  from weight_mset [OF this]
  have w: "sum_list (map job_weight (sc_tasks ?s)) = job_weight ?job + sum_list (map job_weight ?rest)"
    by simp
  have busy: "\<not> sched_is_idle ?s"
    using assms sched_ok_length [of ?s] by (auto simp: sched_is_idle_def loop_ok_def)
  obtain s' where j: "join_next k out ?s = (Some (job_id ?job, task_result ?job out), s')"
    "sc_tasks s' = ?rest" using assms(2) by (auto simp: join_next_def Let_def)
  show ?thesis
  proof (cases "task_result ?job out = Inr True")
    case True
    then have "job_weight ?job = 2"
      by (auto simp: task_result_def owes_recluster_def job_weight_def split: outcome.splits sum.splits)
    moreover have "length (List.insert (job_id ?job) (rl_owes l)) \<le> Suc (length (rl_owes l))"
      by (simp add: List.insert_def)
    ultimately show ?thesis using True w j busy by (simp add: loop_done_def work_left_def)
  next
    case False
    then have "loop_done k out l = l\<lparr>rl_sched := s'\<rparr>"
      using j busy by (simp add: loop_done_def split: sum.split bool.split)
    moreover have "job_weight ?job \<ge> 1" by (simp add: job_weight_def)
    ultimately show ?thesis using w j(2) by (simp add: work_left_def)
  qed
qed

text \<open>The turns in which only tasks end: at each the environment picks one of the running tasks.\<close>

fun finish_turns ::
  "(daemon_project list \<Rightarrow> daemon_project list) \<Rightarrow> (string list \<Rightarrow> string list) \<Rightarrow>
     (nat \<times> outcome) list \<Rightarrow> run_loop \<Rightarrow> run_loop"
where
  "finish_turns shuffle order [] l = loop_top shuffle order l"
| "finish_turns shuffle order ((n, out) # ends) l =
     (let l = loop_top shuffle order l
      in finish_turns shuffle order ends
           (loop_done (n mod length (sc_tasks (rl_sched l))) out l))"

lemma idle_top_is_done:
  assumes "loop_ok l" "orders_ok shuffle order" "pq_items (rl_queue l) = []"
    and "sc_inflight (rl_sched (loop_top shuffle order l)) = []"
  shows "rl_deferred (loop_top shuffle order l) = [] \<and> rl_owes (loop_top shuffle order l) = []"
proof -
  let ?l1 = "redispatch l"
  from loop_top_spec [OF assms(1,2)] assms(4) have
    1: "sc_inflight (rl_sched ?l1) = []" "rl_deferred ?l1 = []" "rl_deferred (loop_top shuffle order l) = []"
       "rl_owes (loop_top shuffle order l) = filter (\<lambda>i. \<not> is_quiet ?l1 i) (rl_owes l)" by blast+
  have "rl_queue ?l1 = rl_queue l" using redispatch_spec [OF assms(1)] by blast
  with assms(3) 1(1,2) have "is_quiet ?l1 i" for i
    by (simp add: is_quiet_def is_running_def pq_has_project_def pq_items_def)
  with 1 show ?thesis by simp
qed

lemma finish_turns_idle:
  assumes "loop_ok l" "orders_ok shuffle order" "pq_items (rl_queue l) = []" "work_left l \<le> length ends"
  shows "sched_is_idle (rl_sched (finish_turns shuffle order ends l))
     \<and> rl_deferred (finish_turns shuffle order ends l) = []
     \<and> rl_owes (finish_turns shuffle order ends l) = []"
  using assms
proof (induction ends arbitrary: l)
  case Nil
  let ?l = "loop_top shuffle order l"
  from loop_top_spec [OF Nil(1,2)] have ok: "sched_ok (rl_sched ?l)" by (simp add: loop_ok_def)
  have "work_left ?l = 0" using loop_top_work [OF Nil(1,2)] Nil(4) by simp
  moreover have "job_weight j \<noteq> 0" for j by (simp add: job_weight_def)
  ultimately have none: "sc_tasks (rl_sched ?l) = []" "rl_deferred ?l = []" "rl_owes ?l = []"
    by (cases "sc_tasks (rl_sched ?l)"; cases "rl_deferred ?l"; simp add: work_left_def)+
  then have "sched_is_idle (rl_sched ?l)" using sched_ok_length [OF ok] by (simp add: sched_is_idle_def)
  with none show ?case by simp
next
  case (Cons e ends)
  obtain n out where e: "e = (n, out)" by fastforce
  let ?l = "loop_top shuffle order l"
  let ?k = "n mod length (sc_tasks (rl_sched ?l))"
  from loop_top_spec [OF Cons.prems(1,2)] have ok: "loop_ok ?l" and q: "rl_queue ?l = rl_queue l" by auto
  have work: "work_left ?l \<le> Suc (length ends)" using loop_top_work [OF Cons.prems(1,2)] Cons.prems(4) by simp
  have "work_left (loop_done ?k out ?l) \<le> length ends"
  proof (cases "sc_tasks (rl_sched ?l) = []")
    case False
    then have "?k < length (sc_tasks (rl_sched ?l))" by simp
    from loop_done_work [OF ok this, of out] work show ?thesis by simp
  next
    case True
    then have idle: "sc_inflight (rl_sched ?l) = []"
      using sched_ok_length [of "rl_sched ?l"] ok by (simp add: loop_ok_def)
    with idle_top_is_done [OF Cons.prems(1-3)] True have "work_left ?l = 0" by (simp add: work_left_def)
    moreover have "loop_done ?k out ?l = ?l" using idle by (simp add: loop_done_def sched_is_idle_def)
    ultimately show ?thesis by simp
  qed
  with Cons.IH [of "loop_done ?k out ?l"] loop_done_spec [OF ok, of ?k out] Cons.prems(2,3) q e show ?case
    by (simp add: Let_def)
qed


section \<open>Examples\<close>

text \<open>Two projects on a pool of one: an edit of \<open>b\<close>, two edits of \<open>a\<close>, and the first apply leaves a
  recluster owed.\<close>

definition ex_loop :: run_loop where
  "ex_loop =
     \<lparr>rl_registry = bt_collect (map (\<lambda>p. (dp_id p, p)) [project_new ''/w/a'', project_new ''/w/b'']),
      rl_queue = pq_new, rl_last_activity = 0, rl_sched = sched_new 1, rl_deferred = [], rl_owes = []\<rparr>"

definition ex_turns :: "turn list" where
  "ex_turns =
     [Tick 1 [(''b'', Signal \<lparr>added = [''x.rs''], modified = [], removed = []\<rparr>, Fs),
              (''a'', Signal \<lparr>added = [''y.rs''], modified = [], removed = []\<rparr>, Fs),
              (''a'', Reconcile_Request False, Manual)],
      Done 0 (Finished (Inr \<lparr>ap_changed = 1, ap_vanished = 0\<rparr>)), Done 0 Panicked]"

lemma ex_loop_ok: "loop_ok ex_loop"
  by code_simp

lemma ex_orders_ok: "orders_ok (\<lambda>ps. ps) rev"
  by (simp add: orders_ok_def)



section \<open>Shutdown\<close>

text \<open>Project \<open>a\<close> owes a recluster while an apply of \<open>b\<close> holds the only permit.\<close>

definition ex_owing :: run_loop where
  "ex_owing =
     (let p = (\<lambda>i. case bt_get (rl_registry ex_loop) i of Some p \<Rightarrow> p | None \<Rightarrow> project_new i)
      in ex_loop\<lparr>rl_sched := \<lparr>sc_permits = 1, sc_inflight = [''b''],
             sc_tasks = [\<lparr>aj_project = p ''b'', aj_op = Op_Reconcile False, aj_persistence = Defer\<rparr>]\<rparr>,
           rl_owes := [''a'']\<rparr>)"

text \<open>The loop's top takes an owed recluster off the debts and defers its job when the pool is
  full; a shutdown then drops the job with the other deferred ones, so the recluster is not run, where
  the same shutdown one turn earlier runs it.\<close>

theorem deferred_recluster_lost:
  "map job_id (shutdown_jobs (\<lambda>ps. ps) (\<lambda>xs. xs) [(0, Finished (Inr \<lparr>ap_changed = 0, ap_vanished = 0\<rparr>))]
      ex_owing) = [''a'']
   \<and> shutdown_jobs (\<lambda>ps. ps) (\<lambda>xs. xs) [(0, Finished (Inr \<lparr>ap_changed = 0, ap_vanished = 0\<rparr>))]
      (loop_top (\<lambda>ps. ps) (\<lambda>xs. xs) ex_owing) = []"
  by code_simp

end
