(* ===== verification/Apply.thy ===== *)
theory Apply
  imports Sched Pipeline
begin

text \<open>
  The apply critical section of the daemon (\<^verbatim>\<open>filigrio-daemon/src/apply.rs\<close>): the pipeline driven
  with the resident state of the flusher, under the project's lock, so as one step on the flusher. The
  \<^verbatim>\<open>FsSource\<close> and \<^verbatim>\<open>DispatchExtractor\<close> of a project are the parameter \<open>host_of\<close>, which also carries
  the cluster configuration. \<open>now\<close> gives the instants of the two clock reads, of the page-in and of
  the recording.
\<close>

fun show_daemon_error :: "daemon_error \<Rightarrow> string" where
  "show_daemon_error (NotRunning m) = ''daemon not running: '' @ m"
| "show_daemon_error (Socket_Error m) = ''socket error: '' @ m"
| "show_daemon_error (ProjectNotFound m) = ''project not registered: '' @ m"
| "show_daemon_error (ProjectNotIndexed m) =
     ''project '' @ [CHR 0x27] @ m @ [CHR 0x27] @ '' is registered but has no index yet ''
     @ [CHR 0xE2, CHR 0x80, CHR 0x94] @ '' run `filigrio project index` from its root''"
| "show_daemon_error (ProjectAlreadyExists m) = ''project already registered: '' @ m"
| "show_daemon_error (Reconcile_Error m) = ''reconcile error: '' @ m"
| "show_daemon_error (DStorage m) = ''storage error: '' @ m"
| "show_daemon_error (Serialization m) = ''serialization error: '' @ m"
| "show_daemon_error (Core err) = ''core error: '' @ show_error err"
| "show_daemon_error (DIo m) = ''I/O error: '' @ m"
| "show_daemon_error (DProtocol m) = ''protocol error: '' @ m"
| "show_daemon_error (DOther m) = ''other: '' @ m"

definition applied_of :: "build_report \<Rightarrow> applied" where
  "applied_of r = \<lparr>ap_changed = b_changed r, ap_vanished = b_vanished r\<rparr>"

definition applied_default :: applied where
  "applied_default = \<lparr>ap_changed = 0, ap_vanished = 0\<rparr>"

definition link_scope_from :: "string option \<Rightarrow> link_scope" where
  "link_scope_from value =
     (case value of
        None \<Rightarrow> Scoped
      | Some v \<Rightarrow>
          if map lower_char v = ''scoped'' then Scoped
          else if map lower_char v = ''global'' then Global
          else Scoped)"

text \<open>The pipeline of an apply: the daemon's shrink guard, the environment's link scope, and
  clustering deferred on the producer lane.\<close>

definition daemon_pipeline :: "host \<Rightarrow> string option \<Rightarrow> persistence \<Rightarrow> pipeline" where
  "daemon_pipeline h scope_var mode =
     with_cluster_timing
       (with_link_scope (with_shrink_guard (pipeline_new h) True) (link_scope_from scope_var))
       (case mode of Defer \<Rightarrow> Deferred | Flush \<Rightarrow> Inline)"

type_synonym 'a mutation =
  "pipeline \<Rightarrow> deferred_store \<Rightarrow> graph_state \<Rightarrow> daemon_error + deferred_store \<times> 'a"

definition with_project_apply ::
  "(daemon_project \<Rightarrow> host) \<Rightarrow> string option \<Rightarrow> nat \<times> nat \<Rightarrow> daemon_project \<Rightarrow> persistence \<Rightarrow>
     'a mutation \<Rightarrow> flusher \<Rightarrow> (daemon_error + 'a) \<times> flusher"
where
  "with_project_apply host_of scope_var now p mode mutate fl =
     (case fl_state_of (fst now) p fl of
        (Inl err, fl) \<Rightarrow> (Inl err, fl)
      | (Inr a, fl) \<Rightarrow>
          (let prior = deref (fl_cache fl) a
           in case mutate (daemon_pipeline (host_of p) scope_var mode) (deferred_new prior) prior of
                Inl err \<Rightarrow> (Inl err, fl)
              | Inr (store, result) \<Rightarrow>
                  (case fst (deferred_take store) of
                     None \<Rightarrow> (Inr result, fl)
                   | Some fresh \<Rightarrow>
                       (case record_apply (snd now) p fresh mode fl of
                          (Inl err, fl) \<Rightarrow> (Inl err, fl)
                        | (Inr _, fl) \<Rightarrow> (Inr result, fl)))))"

definition apply_core ::
  "(daemon_project \<Rightarrow> host) \<Rightarrow> string option \<Rightarrow> nat \<times> nat \<Rightarrow> daemon_project \<Rightarrow> change_set \<Rightarrow>
     persistence \<Rightarrow> flusher \<Rightarrow> (daemon_error + applied) \<times> flusher"
where
  "apply_core host_of scope_var now p cs mode fl =
     (case with_project_apply host_of scope_var now p mode
             (\<lambda>pl store prior.
                case apply_signal pl deferred_port store prior cs of
                  Inl err \<Rightarrow> Inl (DOther (''apply failed for '' @ dp_id p @ '': '' @ show_error err))
                | Inr r \<Rightarrow> Inr r) fl
      of (Inl err, fl) \<Rightarrow> (Inl err, fl)
       | (Inr report, fl) \<Rightarrow> (Inr (applied_of report), fl))"

definition apply_exact ::
  "(daemon_project \<Rightarrow> host) \<Rightarrow> string option \<Rightarrow> nat \<times> nat \<Rightarrow> daemon_project \<Rightarrow> change_set \<Rightarrow>
     persistence \<Rightarrow> flusher \<Rightarrow> (daemon_error + applied) \<times> flusher"
where
  "apply_exact host_of scope_var now p cs mode fl =
     (case with_project_apply host_of scope_var now p mode
             (\<lambda>pl store prior.
                case pipeline_apply pl deferred_port store prior cs of
                  Inl err \<Rightarrow> Inl (DOther (''apply-exact failed for '' @ dp_id p @ '': '' @ show_error err))
                | Inr r \<Rightarrow> Inr r) fl
      of (Inl err, fl) \<Rightarrow> (Inl err, fl)
       | (Inr report, fl) \<Rightarrow> (Inr (applied_of report), fl))"

definition reconcile_project ::
  "(daemon_project \<Rightarrow> host) \<Rightarrow> string option \<Rightarrow> nat \<times> nat \<Rightarrow> daemon_project \<Rightarrow> bool \<Rightarrow>
     persistence \<Rightarrow> flusher \<Rightarrow> (daemon_error + applied) \<times> flusher"
where
  "reconcile_project host_of scope_var now p deep mode fl =
     (case with_project_apply host_of scope_var now p mode
             (\<lambda>pl store prior.
                case reconcile_and_apply pl deferred_port store prior deep of
                  Inl err \<Rightarrow>
                    Inl (Reconcile_Error (''reconcile failed for '' @ dp_id p @ '': '' @ show_error err))
                | Inr r \<Rightarrow> Inr r) fl
      of (Inl err, fl) \<Rightarrow> (Inl err, fl)
       | (Inr (_, b), fl) \<Rightarrow> (Inr (applied_of b), fl))"

definition recluster_project ::
  "(daemon_project \<Rightarrow> host) \<Rightarrow> nat \<times> nat \<Rightarrow> daemon_project \<Rightarrow> flusher \<Rightarrow>
     (daemon_error + applied) \<times> flusher"
where
  "recluster_project host_of now p fl =
     (case fl_state_of (fst now) p fl of
        (Inl err, fl) \<Rightarrow> (Inl err, fl)
      | (Inr a, fl) \<Rightarrow>
          (let prior = deref (fl_cache fl) a
           in case recluster prior (env_cluster (h_engine (host_of p))) of
                Inl err \<Rightarrow>
                  (Inl (DOther (''recluster failed for '' @ dp_id p @ '': '' @ show_error err)), fl)
              | Inr part \<Rightarrow>
                  if part = s_partition prior then (Inr applied_default, fl)
                  else
                    (case record_apply (snd now) p (prior\<lparr>s_partition := part\<rparr>) Defer fl of
                       (Inl err, fl) \<Rightarrow> (Inl err, fl)
                     | (Inr _, fl) \<Rightarrow> (Inr applied_default, fl))))"

definition run_job ::
  "(daemon_project \<Rightarrow> host) \<Rightarrow> string option \<Rightarrow> nat \<times> nat \<Rightarrow> apply_job \<Rightarrow> flusher \<Rightarrow>
     (daemon_error + applied) \<times> flusher"
where
  "run_job host_of scope_var now job fl =
     (case aj_op job of
        Op_Apply cs \<Rightarrow>
          apply_core host_of scope_var now (aj_project job) cs (aj_persistence job) fl
      | Op_Apply_Exact cs \<Rightarrow>
          apply_exact host_of scope_var now (aj_project job) cs (aj_persistence job) fl
      | Op_Reconcile deep \<Rightarrow>
          reconcile_project host_of scope_var now (aj_project job) deep (aj_persistence job) fl
      | Op_Recluster \<Rightarrow> recluster_project host_of now (aj_project job) fl)"

end
