(* ===== verification/Flush_Refine.thy ===== *)
theory Flush_Refine
  imports Flush
begin

text \<open>
  The flusher refines a plain map from projects to states: what a project's state is, is what was
  recorded last, wherever it lives (resident or on disk) and whatever was paged out or flushed
  meanwhile. Two states that differ in the facets that are not persisted count as the same.
\<close>

section \<open>The abstraction and the invariant\<close>

text \<open>\<open>D\<close> assigns each project id its output directory.\<close>

definition believed :: "(string \<Rightarrow> string) \<Rightarrow> flusher \<Rightarrow> string \<Rightarrow> graph_state" where
  "believed D fl i =
     (case peek_arc (fl_cache fl) i of
        Some a \<Rightarrow> persisted (deref (fl_cache fl) a)
      | None \<Rightarrow>
          (case fs_read (fl_disk fl (D i)) of Inr s \<Rightarrow> persisted s | Inl _ \<Rightarrow> graph_state_default))"

definition disk_fine :: "(string \<Rightarrow> string) \<Rightarrow> flusher \<Rightarrow> bool" where
  "disk_fine D fl \<longleftrightarrow>
     (\<forall>i. fs_write_error (fl_disk fl (D i)) = None \<and> \<not> isl (fs_read (fl_disk fl (D i))))"

definition on_disk :: "(string \<Rightarrow> string) \<Rightarrow> flusher \<Rightarrow> string \<Rightarrow> graph_state \<Rightarrow> bool" where
  "on_disk D fl i s \<longleftrightarrow> (\<exists>s0. fs_read (fl_disk fl (D i)) = Inr s0 \<and> persisted s0 = persisted s)"

definition dirs_ok :: "(string \<Rightarrow> string) \<Rightarrow> flusher \<Rightarrow> bool" where
  "dirs_ok D fl \<longleftrightarrow> (\<forall>i dir. bt_get (fl_out_dirs fl) i = Some dir \<longrightarrow> dir = D i)"

text \<open>Dirty projects are resident and their directory is known; a clean resident state is the one
  on disk.\<close>

definition fl_ok :: "(string \<Rightarrow> string) \<Rightarrow> flusher \<Rightarrow> bool" where
  "fl_ok D fl \<longleftrightarrow>
     cache_ok (fl_cache fl) \<and> bt_ok (fl_dirty fl)
     \<and> (\<forall>i. fl_is_dirty fl i \<longleftrightarrow> i \<in> pc_dirty (fl_cache fl))
     \<and> dirs_ok D fl
     \<and> (\<forall>i. fl_is_dirty fl i \<longrightarrow> bt_get (fl_out_dirs fl) i = Some (D i))
     \<and> (\<forall>i a. peek_arc (fl_cache fl) i = Some a \<longrightarrow> \<not> fl_is_dirty fl i \<longrightarrow>
           on_disk D fl i (deref (fl_cache fl) a))"

lemma fl_okD:
  assumes "fl_ok D fl"
  shows "cache_ok (fl_cache fl)" and "bt_ok (fl_dirty fl)"
    and "fl_is_dirty fl i \<longleftrightarrow> i \<in> pc_dirty (fl_cache fl)" and "dirs_ok D fl"
    and "fl_is_dirty fl i \<Longrightarrow> bt_get (fl_out_dirs fl) i = Some (D i)"
    and "peek_arc (fl_cache fl) i = Some a \<Longrightarrow> \<not> fl_is_dirty fl i \<Longrightarrow>
           on_disk D fl i (deref (fl_cache fl) a)"
  using assms unfolding fl_ok_def by blast+

lemma fl_okI:
  assumes "cache_ok (fl_cache fl)" "bt_ok (fl_dirty fl)"
    and "\<And>i. fl_is_dirty fl i \<longleftrightarrow> i \<in> pc_dirty (fl_cache fl)" "dirs_ok D fl"
    and "\<And>i. fl_is_dirty fl i \<Longrightarrow> bt_get (fl_out_dirs fl) i = Some (D i)"
    and "\<And>i a. peek_arc (fl_cache fl) i = Some a \<Longrightarrow> \<not> fl_is_dirty fl i \<Longrightarrow>
           on_disk D fl i (deref (fl_cache fl) a)"
  shows "fl_ok D fl"
  using assms unfolding fl_ok_def by blast

text \<open>The same without asking that the clean resident state of \<open>i\<close> is the one on disk.\<close>

definition fl_ok_but :: "string \<Rightarrow> (string \<Rightarrow> string) \<Rightarrow> flusher \<Rightarrow> bool" where
  "fl_ok_but i D fl \<longleftrightarrow>
     cache_ok (fl_cache fl) \<and> bt_ok (fl_dirty fl)
     \<and> (\<forall>j. fl_is_dirty fl j \<longleftrightarrow> j \<in> pc_dirty (fl_cache fl))
     \<and> dirs_ok D fl
     \<and> (\<forall>j. fl_is_dirty fl j \<longrightarrow> bt_get (fl_out_dirs fl) j = Some (D j))
     \<and> (\<forall>j a. j \<noteq> i \<longrightarrow> peek_arc (fl_cache fl) j = Some a \<longrightarrow> \<not> fl_is_dirty fl j \<longrightarrow>
           on_disk D fl j (deref (fl_cache fl) a))"

lemma fl_ok_butD:
  assumes "fl_ok_but i D fl"
  shows "cache_ok (fl_cache fl)" and "bt_ok (fl_dirty fl)"
    and "fl_is_dirty fl j \<longleftrightarrow> j \<in> pc_dirty (fl_cache fl)" and "dirs_ok D fl"
    and "fl_is_dirty fl j \<Longrightarrow> bt_get (fl_out_dirs fl) j = Some (D j)"
    and "j \<noteq> i \<Longrightarrow> peek_arc (fl_cache fl) j = Some a \<Longrightarrow> \<not> fl_is_dirty fl j \<Longrightarrow>
           on_disk D fl j (deref (fl_cache fl) a)"
  using assms unfolding fl_ok_but_def by blast+

lemma fl_ok_imp_but: "fl_ok D fl \<Longrightarrow> fl_ok_but i D fl"
  unfolding fl_ok_def fl_ok_but_def by blast

lemma bt_remove_absent: "bt_get m k = None \<Longrightarrow> bt_remove k m = m"
  by (auto simp: bt_get_def bt_remove_def map_of_eq_None_iff intro!: filter_True)

lemma dirty_resident: "fl_ok D fl \<Longrightarrow> fl_is_dirty fl i \<Longrightarrow> \<exists>a. peek_arc (fl_cache fl) i = Some a"
proof -
  assume "fl_ok D fl" "fl_is_dirty fl i"
  then have "i \<in> fst ` set (pc_graphs (fl_cache fl))" by (auto simp: fl_ok_def cache_ok_def)
  then have "bt_get (pc_graphs (fl_cache fl)) i \<noteq> None"
    by (simp add: bt_get_def map_of_eq_None_iff)
  then show ?thesis by (auto simp: peek_arc_def)
qed

lemma peek_arc_heap:
  "cache_ok c \<Longrightarrow> peek_arc c i = Some a \<Longrightarrow> a < length (pc_heap c)"
  by (auto simp: cache_ok_def graphs_ok_def peek_arc_def)

section \<open>Writing\<close>

lemma write_state_fine:
  assumes "disk_fine D fl"
  shows "write_state now i (D i) s fl =
     (Inr (), fl\<lparr>fl_disk := (fl_disk fl)(D i := (fl_disk fl (D i))\<lparr>fs_file := Some (Inr (persisted s))\<rparr>),
                 fl_writes := fl_writes fl + 1, fl_persisted := bt_insert i now (fl_persisted fl)\<rparr>)"
  using assms by (simp add: write_state_def fs_save_state_def disk_fine_def)

lemma disk_write:
  assumes "disk_fine D fl" "inj D"
    and "fl_disk fl' = (fl_disk fl)(D i := (fl_disk fl (D i))\<lparr>fs_file := Some (Inr (persisted s))\<rparr>)"
  shows "disk_fine D fl'" and "on_disk D fl' i s"
    and "j \<noteq> i \<Longrightarrow> fl_disk fl' (D j) = fl_disk fl (D j)"
    and "fs_read (fl_disk fl' (D i)) = Inr (persisted s)"
  using assms by (auto simp: disk_fine_def on_disk_def fs_read_def inj_def)

lemma remember_simps [simp]:
  "fl_cache (remember p fl) = fl_cache fl" "fl_dirty (remember p fl) = fl_dirty fl"
  "fl_disk (remember p fl) = fl_disk fl" "fl_cfg (remember p fl) = fl_cfg fl"
  "fl_is_dirty (remember p fl) i = fl_is_dirty fl i"
  "believed D (remember p fl) = believed D fl" "disk_fine D (remember p fl) = disk_fine D fl"
  "on_disk D (remember p fl) i s = on_disk D fl i s"
  by (simp_all add: remember_def fl_is_dirty_def believed_def disk_fine_def on_disk_def fun_eq_iff
      cong: option.case_cong sum.case_cong)

lemma remember_dirs:
  "bt_get (fl_out_dirs (remember p fl)) i =
     (if i = dp_id p then Some (dp_output_dir p) else bt_get (fl_out_dirs fl) i)"
  by (auto simp: remember_def bt_get_insert)

lemma remember_ok:
  "fl_ok D fl \<Longrightarrow> dp_output_dir p = D (dp_id p) \<Longrightarrow> fl_ok D (remember p fl)"
proof (rule fl_okI)
  assume ok: "fl_ok D fl" and dir: "dp_output_dir p = D (dp_id p)"
  show "dirs_ok D (remember p fl)"
    using fl_okD(4) [OF ok] dir by (simp add: dirs_ok_def remember_dirs)
  show "bt_get (fl_out_dirs (remember p fl)) i = Some (D i)" if "fl_is_dirty (remember p fl) i" for i
    using fl_okD(5) [OF ok, of i] that dir by (simp add: remember_dirs)
qed (simp_all add: fl_okD)

section \<open>Paging\<close>

text \<open>A state enters the cache and what it pages out is written back.\<close>

lemma insert_flush:
  assumes ok: "fl_ok_but i D fl" and fine: "disk_fine D fl" and inj: "inj D"
    and ins: "cache_insert i st d (fl_cache fl) = (evs, c0)"
    and c: "cache_ok c" "pc_graphs c = pc_graphs c0" "pc_heap c = pc_heap c0" "pc_dirty c = pc_dirty c0"
    and fl1: "fl_cache fl1 = c" "fl_disk fl1 = fl_disk fl" "fl_out_dirs fl1 = fl_out_dirs fl"
    and dirty: "bt_ok (fl_dirty fl1)" "\<And>j. j \<noteq> i \<Longrightarrow> fl_is_dirty fl1 j = fl_is_dirty fl j"
      "fl_is_dirty fl1 i = d"
    and clean: "\<not> d \<Longrightarrow> on_disk D fl i st" and known: "d \<Longrightarrow> bt_get (fl_out_dirs fl) i = Some (D i)"
  shows "\<exists>fl2. flush_evicted now evs fl1 = (Inr (), fl2) \<and> fl_ok D fl2 \<and> disk_fine D fl2
     \<and> believed D fl2 = (believed D fl)(i := persisted st) \<and> fl_cache fl2 = c
     \<and> fl_cfg fl2 = fl_cfg fl1"
proof -
  let ?c = "fl_cache fl"
  have cok: "cache_ok ?c" using ok by (simp add: fl_ok_but_def)
  note get = cache_insert_get [OF cok ins]
  have arc_i: "peek_arc c i = Some (length (pc_heap ?c))"
    using get(1) by (simp add: peek_arc_def c)
  have val_i: "deref c (length (pc_heap ?c)) = st"
    using get(2) by (simp add: deref_def c)
  have arc: "peek_arc c j = (if j \<in> ev_id ` set evs then None else peek_arc ?c j)" if "j \<noteq> i" for j
    using get(3) [OF that] by (simp add: peek_arc_def c)
  have val: "deref c a = deref ?c a" if "peek_arc ?c j = Some a" for j a
    using peek_arc_heap [OF cok that] get(2) by (simp add: deref_def c nth_append)
  have pd: "j \<in> pc_dirty c \<longleftrightarrow> (if j = i then d else j \<in> pc_dirty ?c \<and> j \<notin> ev_id ` set evs)" for j
    using get(4,5) by (simp add: c)
  note old = fl_ok_butD [OF ok]
  consider (none) "evs = []" | (one) e where "evs = [e]"
    using get(6) by (cases evs; cases "tl evs") auto
  then show ?thesis
  proof cases
    case none
    have "fl_ok D fl1"
    proof (rule fl_okI)
      fix j a assume a: "peek_arc (fl_cache fl1) j = Some a" "\<not> fl_is_dirty fl1 j"
      show "on_disk D fl1 j (deref (fl_cache fl1) a)"
      proof (cases "j = i")
        case True
        with a arc_i val_i clean dirty(3) show ?thesis by (simp add: fl1 on_disk_def)
      next
        case False
        with a none arc [of j] have "peek_arc ?c j = Some a" by (simp add: fl1)
        with False a(2) dirty(2) [of j] old(6) [OF False, of a] val [of j a] show ?thesis
          by (simp add: fl1 on_disk_def)
      qed
    next
      fix j assume "fl_is_dirty fl1 j"
      then show "bt_get (fl_out_dirs fl1) j = Some (D j)"
        using dirty(2) [of j] dirty(3) known old(5) [of j] by (cases "j = i") (simp_all add: fl1)
    next
      fix j
      show "fl_is_dirty fl1 j = (j \<in> pc_dirty (fl_cache fl1))"
        using dirty(2) [of j] dirty(3) pd [of j] old(3) [of j] none by (cases "j = i") (simp_all add: fl1)
    qed (use c(1) dirty(1) old(4) in \<open>simp_all add: fl1 dirs_ok_def\<close>)
    moreover have "believed D fl1 = (believed D fl)(i := persisted st)"
      using arc_i val_i arc val none
      by (auto simp: believed_def fun_eq_iff fl1 split: option.split)
    moreover have "disk_fine D fl1" using fine by (simp add: disk_fine_def fl1)
    ultimately show ?thesis using none by (simp add: fl1)
  next
    case (one e)
    let ?x = "ev_id e"
    from get(7) one have xi: "?x \<noteq> i" by auto
    from get(8) [of e] one obtain r where r: "bt_get (pc_graphs ?c) ?x = Some r"
      "ev_state e = (if ?x \<in> pc_dirty ?c then Some (res_state r) else None)" by auto
    then have peek_x: "peek_arc ?c ?x = Some (res_state r)" by (simp add: peek_arc_def)
    let ?fl1 = "fl1\<lparr>fl_dirty := bt_remove ?x (fl_dirty fl1)\<rparr>"
    have dirty_x: "fl_is_dirty ?fl1 j \<longleftrightarrow> j \<noteq> ?x \<and> fl_is_dirty fl1 j" for j
      by (simp add: fl_is_dirty_def bt_get_remove)
    define fl2 where "fl2 = (if ?x \<in> pc_dirty ?c
      then ?fl1\<lparr>fl_disk := (fl_disk fl)(D ?x := (fl_disk fl (D ?x))
                  \<lparr>fs_file := Some (Inr (persisted (deref ?c (res_state r))))\<rparr>),
                fl_writes := fl_writes fl1 + 1, fl_persisted := bt_insert ?x now (fl_persisted fl1)\<rparr>
      else ?fl1)"
    have fl2: "fl_cache fl2 = c" "fl_dirty fl2 = bt_remove ?x (fl_dirty fl1)"
      "fl_out_dirs fl2 = fl_out_dirs fl" "fl_cfg fl2 = fl_cfg fl1"
      by (simp_all add: fl2_def fl1)
    have dirty2: "fl_is_dirty fl2 j \<longleftrightarrow> j \<noteq> ?x \<and> fl_is_dirty fl1 j" for j
      by (simp add: fl_is_dirty_def fl2 bt_get_remove)
    have x_disk: "on_disk D fl2 ?x (deref ?c (res_state r))" "disk_fine D fl2"
      and j_disk: "\<And>j. j \<noteq> ?x \<Longrightarrow> fl_disk fl2 (D j) = fl_disk fl (D j)"
    proof -
      show "on_disk D fl2 ?x (deref ?c (res_state r))"
      proof (cases "?x \<in> pc_dirty ?c")
        case True
        then show ?thesis by (simp add: fl2_def on_disk_def fs_read_def)
      next
        case False
        with old(3) [of ?x] old(6) [OF xi peek_x] have "on_disk D fl ?x (deref ?c (res_state r))" by blast
        with False show ?thesis by (simp add: fl2_def on_disk_def fl1)
      qed
      show "\<And>j. j \<noteq> ?x \<Longrightarrow> fl_disk fl2 (D j) = fl_disk fl (D j)"
        using inj by (auto simp: fl2_def fl1 inj_def)
      show "disk_fine D fl2"
        using fine inj by (auto simp: fl2_def fl1 disk_fine_def fs_read_def inj_def)
    qed
    have "flush_evicted now evs fl1 = (Inr (), fl2)"
    proof (cases "?x \<in> pc_dirty ?c")
      case True
      with old(3,5) have dir: "bt_get (fl_out_dirs fl) ?x = Some (D ?x)" by blast
      have "disk_fine D ?fl1" using fine by (simp add: disk_fine_def fl1)
      from write_state_fine [OF this, of now ?x "deref c (res_state r)"] show ?thesis
        using True one r(2) dir val [OF peek_x] by (simp add: fl1 fl2_def Let_def)
    next
      case False
      with one r(2) show ?thesis by (simp add: fl2_def)
    qed
    moreover have "fl_ok D fl2"
    proof (rule fl_okI)
      show "cache_ok (fl_cache fl2)" "bt_ok (fl_dirty fl2)" using c(1) dirty(1) by (auto simp: fl2)
      show "dirs_ok D fl2" using old(4) by (simp add: fl2 dirs_ok_def)
      fix j
      show "fl_is_dirty fl2 j = (j \<in> pc_dirty (fl_cache fl2))"
        using dirty2 [of j] dirty(2) [of j] dirty(3) pd [of j] old(3) [of j] one xi
        by (cases "j = i") (auto simp: fl2)
    next
      fix j assume "fl_is_dirty fl2 j"
      then show "bt_get (fl_out_dirs fl2) j = Some (D j)"
        using dirty2 [of j] dirty(2) [of j] dirty(3) known old(5) [of j]
        by (cases "j = i") (simp_all add: fl2)
    next
      fix j a assume a: "peek_arc (fl_cache fl2) j = Some a" "\<not> fl_is_dirty fl2 j"
      show "on_disk D fl2 j (deref (fl_cache fl2) a)"
      proof (cases "j = i")
        case True
        with a arc_i val_i clean dirty(3) dirty2 [of j] xi j_disk [of i] show ?thesis
          by (simp add: fl2 on_disk_def)
      next
        case False
        with a one arc [of j] have "j \<noteq> ?x" "peek_arc ?c j = Some a"
          by (auto simp: fl2 split: if_splits)
        with a(2) dirty2 [of j] dirty(2) [OF False] old(6) [OF False, of a] val [of j a] j_disk [of j]
        show ?thesis by (simp add: fl2 on_disk_def)
      qed
    qed
    moreover have "believed D fl2 = (believed D fl)(i := persisted st)"
    proof
      fix j
      show "believed D fl2 j = ((believed D fl)(i := persisted st)) j"
      proof (cases "j = i \<or> j = ?x")
        case True
        with arc_i val_i xi x_disk(1) arc [of ?x] one peek_x show ?thesis
          by (auto simp: believed_def fl2 on_disk_def)
      next
        case False
        with arc [of j] one val [of j] j_disk [of j] show ?thesis
          by (auto simp: believed_def fl2 split: option.split)
      qed
    qed
    ultimately show ?thesis using x_disk(2) fl2 by blast
  qed
qed

section \<open>The operations\<close>

definition project_at :: "(string \<Rightarrow> string) \<Rightarrow> daemon_project \<Rightarrow> bool" where
  "project_at D p \<longleftrightarrow> dp_output_dir p = D (dp_id p)"

lemma touch_simps [simp]:
  "pc_graphs (touch i c) = pc_graphs c" "pc_heap (touch i c) = pc_heap c"
  "pc_dirty (touch i c) = pc_dirty c" "peek_arc (touch i c) j = peek_arc c j"
  "deref (touch i c) a = deref c a"
  by (simp_all add: touch_def peek_arc_def deref_def)

lemma touch_cache_ok:
  assumes "fl_ok D fl" "is_resident (fl_cache fl) i"
  shows "fl_ok D (fl\<lparr>fl_cache := touch i (fl_cache fl)\<rparr>)"
    and "believed D (fl\<lparr>fl_cache := touch i (fl_cache fl)\<rparr>) = believed D fl"
proof -
  note old = fl_okD [OF assms(1)]
  show "fl_ok D (fl\<lparr>fl_cache := touch i (fl_cache fl)\<rparr>)"
  proof (rule fl_okI)
    fix j a
    let ?fl = "fl\<lparr>fl_cache := touch i (fl_cache fl)\<rparr>"
    assume "peek_arc (fl_cache ?fl) j = Some a" "\<not> fl_is_dirty ?fl j"
    with old(6) [of j a] show "on_disk D ?fl j (deref (fl_cache ?fl) a)"
      by (simp add: fl_is_dirty_def on_disk_def)
  next
    fix j
    let ?fl = "fl\<lparr>fl_cache := touch i (fl_cache fl)\<rparr>"
    show "fl_is_dirty ?fl j \<longleftrightarrow> j \<in> pc_dirty (fl_cache ?fl)"
      using old(3) [of j] by (simp add: fl_is_dirty_def)
    show "bt_get (fl_out_dirs ?fl) j = Some (D j)" if "fl_is_dirty ?fl j"
      using old(5) [of j] that by (simp add: fl_is_dirty_def)
  qed (use old(2,4) touch_ok [OF old(1) assms(2)] in \<open>simp_all add: dirs_ok_def\<close>)
  show "believed D (fl\<lparr>fl_cache := touch i (fl_cache fl)\<rparr>) = believed D fl"
    by (simp add: believed_def fun_eq_iff cong: option.case_cong)
qed

lemma state_of_refines:
  assumes ok: "fl_ok D fl" and fine: "disk_fine D fl" and inj: "inj D" and at: "project_at D p"
  shows "\<exists>a fl'. fl_state_of now p fl = (Inr a, fl') \<and> fl_ok D fl' \<and> disk_fine D fl'
     \<and> believed D fl' = believed D fl
     \<and> persisted (deref (fl_cache fl') a) = believed D fl (dp_id p)"
proof -
  let ?i = "dp_id p" and ?fl = "remember p fl"
  have dir: "dp_output_dir p = D ?i" using at by (simp add: project_at_def)
  have ok1: "fl_ok D ?fl" using remember_ok [OF ok dir] .
  have fine1: "disk_fine D ?fl" using fine by simp
  show ?thesis
  proof (cases "peek_arc (fl_cache fl) ?i")
    case (Some a)
    then have res: "is_resident (fl_cache ?fl) ?i" by (auto simp: is_resident_def peek_arc_def)
    let ?fl' = "?fl\<lparr>fl_cache := touch ?i (fl_cache ?fl)\<rparr>"
    have "fl_state_of now p fl = (Inr a, ?fl')"
      using res Some by (simp add: fl_state_of_def get_arc_def Let_def)
    moreover note touch_cache_ok [OF ok1 res]
    moreover have "disk_fine D ?fl'" using fine1 by (simp add: disk_fine_def)
    ultimately show ?thesis using Some by (simp add: believed_def)
  next
    case None
    then have nres: "\<not> is_resident (fl_cache fl) ?i" by (simp add: is_resident_def peek_arc_def)
    from fine obtain s where s: "fs_read (fl_disk fl (D ?i)) = Inr s"
      by (cases "fs_read (fl_disk fl (D ?i))") (auto simp: disk_fine_def dest: spec [of _ ?i])
    obtain evs c0 where ins: "cache_insert ?i s False (fl_cache ?fl) = (evs, c0)" by fastforce
    have cok: "cache_ok c0"
      using cache_insert_ok [OF fl_okD(1) [OF ok1], of ?i s False] ins by simp
    have arc: "peek_arc c0 ?i = Some (length (pc_heap (fl_cache fl)))"
      using cache_insert_get(1) [OF fl_okD(1) [OF ok1] ins] by (simp add: peek_arc_def)
    then have res0: "is_resident c0 ?i" by (auto simp: is_resident_def peek_arc_def)
    have not_dirty: "\<not> fl_is_dirty fl ?i" using dirty_resident [OF ok, of ?i] None by (metis option.distinct(1))
    let ?c = "touch ?i c0"
    have "\<exists>fl2. flush_evicted now evs (?fl\<lparr>fl_cache := ?c\<rparr>) = (Inr (), fl2) \<and> fl_ok D fl2
        \<and> disk_fine D fl2 \<and> believed D fl2 = (believed D ?fl)(?i := persisted s) \<and> fl_cache fl2 = ?c
        \<and> fl_cfg fl2 = fl_cfg (?fl\<lparr>fl_cache := ?c\<rparr>)"
      using not_dirty s fl_okD(2) [OF ok1]
      by (intro insert_flush [OF fl_ok_imp_but [OF ok1] fine1 inj ins touch_ok [OF cok res0]])
        (auto simp: fl_is_dirty_def on_disk_def)
    then obtain fl2 where fl2: "flush_evicted now evs (?fl\<lparr>fl_cache := ?c\<rparr>) = (Inr (), fl2)"
      "fl_ok D fl2" "disk_fine D fl2" "believed D fl2 = (believed D fl)(?i := persisted s)"
      "fl_cache fl2 = ?c" by auto
    have here: "believed D fl ?i = persisted s" using None s by (simp add: believed_def)
    have "fl_state_of now p fl = (Inr (length (pc_heap (fl_cache fl))), fl2)"
      using nres s ins res0 arc fl2(1)
      by (simp add: fl_state_of_def get_arc_def Let_def dir fs_load_def load_into_def)
    moreover have "persisted (deref (fl_cache fl2) (length (pc_heap (fl_cache fl)))) = persisted s"
      using cache_insert_get(2) [OF fl_okD(1) [OF ok1] ins] by (simp add: fl2(5) deref_def)
    ultimately show ?thesis using fl2(2,3,4) here by (auto simp: fun_upd_idem)
  qed
qed

lemma record_refines:
  assumes ok: "fl_ok D fl" and fine: "disk_fine D fl" and inj: "inj D" and at: "project_at D p"
  shows "\<exists>fl'. record_apply now p fresh mode fl = (Inr (), fl') \<and> fl_ok D fl' \<and> disk_fine D fl'
     \<and> believed D fl' = (believed D fl)(dp_id p := persisted fresh)"
proof -
  let ?i = "dp_id p" and ?fl = "remember p fl"
  have dir: "dp_output_dir p = D ?i" using at by (simp add: project_at_def)
  have ok1: "fl_ok D ?fl" using remember_ok [OF ok dir] .
  have fine1: "disk_fine D ?fl" using fine by simp
  show ?thesis
  proof (cases mode)
    case Defer
    obtain evs c where ins: "cache_insert ?i fresh True (fl_cache ?fl) = (evs, c)" by fastforce
    have cok: "cache_ok c"
      using cache_insert_ok [OF fl_okD(1) [OF ok1], of ?i fresh True] ins by simp
    let ?fl1 = "open_window now ?i (?fl\<lparr>fl_cache := c\<rparr>)"
    have "\<exists>fl2. flush_evicted now evs ?fl1 = (Inr (), fl2) \<and> fl_ok D fl2 \<and> disk_fine D fl2
        \<and> believed D fl2 = (believed D ?fl)(?i := persisted fresh) \<and> fl_cache fl2 = c
        \<and> fl_cfg fl2 = fl_cfg ?fl1"
      using fl_okD(2) [OF ok1]
      by (intro insert_flush [OF fl_ok_imp_but [OF ok1] fine1 inj ins cok refl refl refl])
        (auto simp: open_window_def fl_is_dirty_def bt_get_insert bt_ok_insert remember_dirs dir)
    with Defer ins show ?thesis by (auto simp: record_apply_def Let_def cache_put_def)
  next
    case Flush
    let ?fw = "?fl\<lparr>fl_disk := (fl_disk ?fl)(D ?i := (fl_disk ?fl (D ?i))\<lparr>fs_file := Some (Inr (persisted fresh))\<rparr>),
                fl_writes := fl_writes ?fl + 1, fl_persisted := bt_insert ?i now (fl_persisted ?fl)\<rparr>"
    have w: "write_state now ?i (D ?i) fresh ?fl = (Inr (), ?fw)" by (rule write_state_fine [OF fine1])
    have written: "disk_fine D ?fw" "on_disk D ?fw ?i fresh"
      "\<And>j. j \<noteq> ?i \<Longrightarrow> fl_disk ?fw (D j) = fl_disk ?fl (D j)"
      using disk_write [OF fine1 inj, of ?fw ?i fresh] by simp_all
    note old = fl_okD [OF ok1]
    have but: "fl_ok_but ?i D ?fw"
      unfolding fl_ok_but_def
    proof (intro conjI allI impI)
      fix j a assume "j \<noteq> ?i" "peek_arc (fl_cache ?fw) j = Some a" "\<not> fl_is_dirty ?fw j"
      with old(6) [of j a] written(3) [of j] show "on_disk D ?fw j (deref (fl_cache ?fw) a)"
        by (simp add: fl_is_dirty_def on_disk_def)
    next
      fix j
      show "fl_is_dirty ?fw j \<longleftrightarrow> j \<in> pc_dirty (fl_cache ?fw)"
        using old(3) [of j] by (simp add: fl_is_dirty_def)
      show "bt_get (fl_out_dirs ?fw) j = Some (D j)" if "fl_is_dirty ?fw j"
        using old(5) [of j] that by (simp add: fl_is_dirty_def)
    qed (use old(1,2,4) in \<open>simp_all add: dirs_ok_def\<close>)
    obtain evs c where ins: "cache_insert ?i fresh False (fl_cache ?fw) = (evs, c)" by fastforce
    have cok: "cache_ok c"
      using cache_insert_ok [OF fl_okD(1) [OF ok1], of ?i fresh False] ins by simp
    let ?fl1 = "?fw\<lparr>fl_cache := c, fl_dirty := bt_remove ?i (fl_dirty ?fw)\<rparr>"
    have "\<exists>fl2. flush_evicted now evs ?fl1 = (Inr (), fl2) \<and> fl_ok D fl2 \<and> disk_fine D fl2
        \<and> believed D fl2 = (believed D ?fw)(?i := persisted fresh) \<and> fl_cache fl2 = c
        \<and> fl_cfg fl2 = fl_cfg ?fl1"
      using fl_okD(2) [OF ok1] written(2)
      by (intro insert_flush [OF but written(1) inj ins cok refl refl refl])
        (auto simp: fl_is_dirty_def bt_get_remove bt_ok_remove)
    moreover have "believed D ?fw j = believed D fl j" if "j \<noteq> ?i" for j
      using written(3) [OF that] by (simp add: believed_def remember_def cong: option.case_cong)
    then have "(believed D ?fw)(?i := persisted fresh) = (believed D fl)(?i := persisted fresh)"
      by (auto simp: fun_eq_iff)
    ultimately show ?thesis using Flush ins w dir
      by (auto simp: record_apply_def Let_def load_into_def)
  qed
qed

section \<open>Flushing\<close>

text \<open>Flushing one project leaves it clean, on disk, and every other window as it was.\<close>

lemma flush_locked_ok:
  assumes ok: "fl_ok D fl" and inj: "inj D"
    and works: "fl_is_dirty fl i \<Longrightarrow> fs_write_error (fl_disk fl (D i)) = None"
  shows "\<exists>fl'. flush_locked now i fl = (Inr (fl_is_dirty fl i), fl') \<and> fl_ok D fl'
     \<and> believed D fl' = believed D fl \<and> fl_dirty fl' = bt_remove i (fl_dirty fl)
     \<and> fl_cfg fl' = fl_cfg fl \<and> (disk_fine D fl \<longrightarrow> disk_fine D fl')"
proof (cases "fl_is_dirty fl i")
  case False
  then have "bt_remove i (fl_dirty fl) = fl_dirty fl"
    by (simp add: fl_is_dirty_def bt_remove_absent)
  with False ok show ?thesis by (simp add: flush_locked_def)
next
  case True
  note old = fl_okD [OF ok]
  obtain a where a: "peek_arc (fl_cache fl) i = Some a" using dirty_resident [OF ok True] by blast
  let ?s = "deref (fl_cache fl) a"
  let ?fw = "fl\<lparr>fl_disk := (fl_disk fl)(D i := (fl_disk fl (D i))\<lparr>fs_file := Some (Inr (persisted ?s))\<rparr>),
              fl_writes := fl_writes fl + 1, fl_persisted := bt_insert i now (fl_persisted fl)\<rparr>"
  let ?fl = "?fw\<lparr>fl_cache := mark_clean i (fl_cache ?fw), fl_dirty := bt_remove i (fl_dirty ?fw)\<rparr>"
  have w: "disk_fine D fl \<Longrightarrow> disk_fine D ?fw" "on_disk D ?fw i ?s"
    "\<And>j. j \<noteq> i \<Longrightarrow> fl_disk ?fw (D j) = fl_disk fl (D j)"
    using inj by (auto simp: disk_fine_def on_disk_def fs_read_def inj_def)
  have dirty: "fl_is_dirty ?fl j \<longleftrightarrow> j \<noteq> i \<and> fl_is_dirty fl j" for j
    by (simp add: fl_is_dirty_def bt_get_remove)
  have arc: "peek_arc (fl_cache ?fl) j = peek_arc (fl_cache fl) j"
    "deref (fl_cache ?fl) b = deref (fl_cache fl) b" for j b
    by (simp_all add: mark_clean_def peek_arc_def deref_def)
  have "flush_locked now i fl = (Inr True, ?fl)"
    using True old(5) [OF True] a works [OF True]
    by (simp add: flush_locked_def write_state_def fs_save_state_def)
  moreover have "fl_ok D ?fl"
  proof (rule fl_okI)
    fix j b assume b: "peek_arc (fl_cache ?fl) j = Some b" "\<not> fl_is_dirty ?fl j"
    show "on_disk D ?fl j (deref (fl_cache ?fl) b)"
    proof (cases "j = i")
      case True
      with a b arc w(2) show ?thesis by (simp add: on_disk_def)
    next
      case False
      with b arc dirty old(6) [of j b] w(3) [of j] show ?thesis by (simp add: on_disk_def)
    qed
  next
    fix j
    show "fl_is_dirty ?fl j \<longleftrightarrow> j \<in> pc_dirty (fl_cache ?fl)"
      using dirty [of j] old(3) [of j] by (auto simp: mark_clean_def)
    show "bt_get (fl_out_dirs ?fl) j = Some (D j)" if "fl_is_dirty ?fl j"
      using dirty [of j] that old(5) [of j] by simp
  qed (use old(1,2,4) in \<open>simp_all add: mark_clean_ok bt_ok_remove dirs_ok_def\<close>)
  moreover have "disk_fine D fl \<longrightarrow> disk_fine D ?fl" using w(1) by (simp add: disk_fine_def)
  moreover have "believed D ?fl = believed D fl"
  proof
    fix j
    show "believed D ?fl j = believed D fl j"
      using a arc w(3) [of j] by (cases "j = i") (simp_all add: believed_def cong: option.case_cong)
  qed
  ultimately show ?thesis using True by auto
qed

lemma flush_locked_refines:
  assumes "fl_ok D fl" "disk_fine D fl" "inj D"
  shows "\<exists>fl'. flush_locked now i fl = (Inr (fl_is_dirty fl i), fl') \<and> fl_ok D fl' \<and> disk_fine D fl'
     \<and> believed D fl' = believed D fl \<and> fl_dirty fl' = bt_remove i (fl_dirty fl)
     \<and> fl_cfg fl' = fl_cfg fl"
  using flush_locked_ok [OF assms(1,3), of i now] assms(2) by (auto simp: disk_fine_def)

text \<open>A flush that reports success on a project left dirty wrote it.\<close>

lemma flush_project_Inr:
  assumes "fl_ok D fl" "inj D" "flush_project now i fl = (Inr b, fl')"
  shows "fl_ok D fl'" and "believed D fl' = believed D fl" and "fl_dirty fl' = bt_remove i (fl_dirty fl)"
proof -
  have "fs_write_error (fl_disk fl (D i)) = None" if dirty: "fl_is_dirty fl i"
  proof -
    obtain a where "peek_arc (fl_cache fl) i = Some a" using dirty_resident [OF assms(1) dirty] by blast
    with assms(3) dirty fl_okD(5) [OF assms(1) dirty] show ?thesis
      by (auto simp: flush_project_def flush_locked_def write_state_def fs_save_state_def
          split: option.splits sum.splits prod.splits)
  qed
  from flush_locked_ok [OF assms(1,2) this, of now] obtain fl1 where
    1: "flush_locked now i fl = (Inr (fl_is_dirty fl i), fl1)" "fl_ok D fl1"
      "believed D fl1 = believed D fl" "fl_dirty fl1 = bt_remove i (fl_dirty fl)" by blast
  have "fl' = fl1"
    using assms(3) 1(1) by (auto simp: flush_project_def flush_locked_def split: if_splits)
  with 1 show "fl_ok D fl'" "believed D fl' = believed D fl" "fl_dirty fl' = bt_remove i (fl_dirty fl)"
    by simp_all
qed

lemma flush_each_Nil:
  assumes "fl_ok D fl" "inj D" "flush_each now ids fl = ([], fl')"
  shows "fl_ok D fl' \<and> believed D fl' = believed D fl
    \<and> (\<forall>j. bt_get (fl_dirty fl') j = (if j \<in> set ids then None else bt_get (fl_dirty fl) j))"
  using assms
proof (induction ids arbitrary: fl)
  case (Cons i ids)
  from Cons.prems(3) obtain b fl1 where
    1: "flush_project now i fl = (Inr b, fl1)" "flush_each now ids fl1 = ([], fl')"
    by (auto simp: Let_def split: prod.splits sum.splits)
  note step = flush_project_Inr [OF Cons.prems(1,2) 1(1)]
  from Cons.IH [OF step(1) Cons.prems(2) 1(2)] step show ?case by (auto simp: bt_get_remove)
qed simp

lemma flush_project_refines:
  assumes "fl_ok D fl" "disk_fine D fl" "inj D"
  shows "\<exists>fl'. flush_project now i fl = (Inr (fl_is_dirty fl i), fl') \<and> fl_ok D fl' \<and> disk_fine D fl'
     \<and> believed D fl' = believed D fl \<and> fl_dirty fl' = bt_remove i (fl_dirty fl)
     \<and> fl_cfg fl' = fl_cfg fl"
proof (cases "fl_is_dirty fl i")
  case True
  then show ?thesis using flush_locked_refines [OF assms, of now i] by (simp add: flush_project_def)
next
  case False
  then have "bt_remove i (fl_dirty fl) = fl_dirty fl"
    by (simp add: fl_is_dirty_def bt_remove_absent)
  with False assms show ?thesis by (simp add: flush_project_def)
qed

lemma flush_each_refines:
  assumes "fl_ok D fl" "disk_fine D fl" "inj D"
  shows "\<exists>fl'. flush_each now ids fl = ([], fl') \<and> fl_ok D fl' \<and> disk_fine D fl'
     \<and> believed D fl' = believed D fl \<and> fl_cfg fl' = fl_cfg fl
     \<and> (\<forall>j. bt_get (fl_dirty fl') j = (if j \<in> set ids then None else bt_get (fl_dirty fl) j))"
  using assms
proof (induction ids arbitrary: fl)
  case (Cons i ids)
  from flush_project_refines [OF Cons.prems, of now i] obtain fl1 where
    1: "flush_project now i fl = (Inr (fl_is_dirty fl i), fl1)" "fl_ok D fl1" "disk_fine D fl1"
       "believed D fl1 = believed D fl" "fl_dirty fl1 = bt_remove i (fl_dirty fl)"
       "fl_cfg fl1 = fl_cfg fl" by blast
  from Cons.IH [OF 1(2,3) assms(3)] obtain fl2 where
    2: "flush_each now ids fl1 = ([], fl2)" "fl_ok D fl2" "disk_fine D fl2"
       "believed D fl2 = believed D fl1" "fl_cfg fl2 = fl_cfg fl1"
       "\<And>j. bt_get (fl_dirty fl2) j = (if j \<in> set ids then None else bt_get (fl_dirty fl1) j)"
    by blast
  from 1 2 show ?case by (auto simp: bt_get_remove)
qed simp

text \<open>A clean project's file holds what is believed of it.\<close>

lemma clean_on_disk:
  assumes "fl_ok D fl" "disk_fine D fl" "\<not> fl_is_dirty fl i"
  shows "\<exists>s. fs_read (fl_disk fl (D i)) = Inr s \<and> persisted s = believed D fl i"
proof (cases "peek_arc (fl_cache fl) i")
  case None
  from assms(2) show ?thesis using None
    by (cases "fs_read (fl_disk fl (D i))")
      (auto simp: believed_def disk_fine_def dest: spec [of _ i])
next
  case (Some a)
  with fl_okD(6) [OF assms(1) Some assms(3)] show ?thesis by (auto simp: on_disk_def believed_def)
qed

section \<open>Runs of operations\<close>

text \<open>What the daemon asks of its flusher, each at the instant the clock reads.\<close>

datatype flush_op =
    Op_Read daemon_project
  | Op_Record daemon_project graph_state persistence
  | Op_Due
  | Op_All

definition run_op :: "nat \<times> flush_op \<Rightarrow> flusher \<Rightarrow> flusher option" where
  "run_op timed fl =
     (case timed of (now, op) \<Rightarrow>
       (case op of
          Op_Read p \<Rightarrow> (case fl_state_of now p fl of (Inl _, _) \<Rightarrow> None | (Inr _, fl) \<Rightarrow> Some fl)
        | Op_Record p s mode \<Rightarrow>
            (case record_apply now p s mode fl of (Inl _, _) \<Rightarrow> None | (Inr _, fl) \<Rightarrow> Some fl)
        | Op_Due \<Rightarrow> (case flush_due now fl of ([], fl) \<Rightarrow> Some fl | (_ # _, _) \<Rightarrow> None)
        | Op_All \<Rightarrow> (case flush_all now fl of ([], fl) \<Rightarrow> Some fl | (_ # _, _) \<Rightarrow> None)))"

fun run_ops :: "(nat \<times> flush_op) list \<Rightarrow> flusher \<Rightarrow> flusher option" where
  "run_ops [] fl = Some fl"
| "run_ops (op # ops) fl = (case run_op op fl of None \<Rightarrow> None | Some fl \<Rightarrow> run_ops ops fl)"

fun op_at :: "(string \<Rightarrow> string) \<Rightarrow> flush_op \<Rightarrow> bool" where
  "op_at D (Op_Read p) = project_at D p"
| "op_at D (Op_Record p s mode) = project_at D p"
| "op_at D _ = True"

text \<open>The map that the flusher implements.\<close>

fun spec_op :: "flush_op \<Rightarrow> (string \<Rightarrow> graph_state) \<Rightarrow> string \<Rightarrow> graph_state" where
  "spec_op (Op_Record p s mode) m = m(dp_id p := persisted s)"
| "spec_op _ m = m"

lemma run_op_refines:
  assumes "fl_ok D fl" "disk_fine D fl" "inj D" "op_at D op"
  shows "\<exists>fl'. run_op (now, op) fl = Some fl' \<and> fl_ok D fl' \<and> disk_fine D fl'
     \<and> believed D fl' = spec_op op (believed D fl)"
proof (cases op)
  case (Op_Read p)
  with assms state_of_refines [OF assms(1-3), of p now] show ?thesis by (auto simp: run_op_def)
next
  case (Op_Record p s mode)
  with assms record_refines [OF assms(1-3), of p now s mode] show ?thesis by (auto simp: run_op_def)
next
  case Op_Due
  with flush_each_refines [OF assms(1-3), of now "due now fl"] show ?thesis
    by (auto simp: run_op_def flush_due_def)
next
  case Op_All
  with flush_each_refines [OF assms(1-3), of now "bt_keys (fl_dirty fl)"] show ?thesis
    by (auto simp: run_op_def flush_all_def)
qed

lemma run_ops_refines:
  assumes "fl_ok D fl" "disk_fine D fl" "inj D" "\<forall>timed \<in> set ops. op_at D (snd timed)"
  shows "\<exists>fl'. run_ops ops fl = Some fl' \<and> fl_ok D fl' \<and> disk_fine D fl'
     \<and> believed D fl' = fold (\<lambda>t. spec_op (snd t)) ops (believed D fl)"
  using assms
proof (induction ops arbitrary: fl)
  case (Cons timed ops)
  obtain now op where timed: "timed = (now, op)" by fastforce
  from run_op_refines [OF Cons.prems(1-3), of op now] Cons.prems(4) timed obtain fl1 where
    1: "run_op timed fl = Some fl1" "fl_ok D fl1" "disk_fine D fl1"
       "believed D fl1 = spec_op op (believed D fl)" by auto
  from Cons.IH [OF 1(2,3) assms(3)] Cons.prems(4) obtain fl2 where
    "run_ops ops fl1 = Some fl2" "fl_ok D fl2" "disk_fine D fl2"
    "believed D fl2 = fold (\<lambda>t. spec_op (snd t)) ops (believed D fl1)" by auto
  with 1 timed show ?case by auto
qed simp

lemma flusher_new_ok: "fl_ok D (flusher_new (cache_new n) cfg disk)"
  by (rule fl_okI)
    (simp_all add: flusher_new_def cache_new_ok fl_is_dirty_def dirs_ok_def peek_arc_def,
     simp_all add: cache_new_def bt_empty_def)

end
