(* ===== verification/Apply_Refine.thy ===== *)
theory Apply_Refine
  imports Apply Flush_Refine
begin

text \<open>
  The daemon's apply refines the pipeline on a plain map of states: with the cache, the eviction, the
  write-behind and the deferred store in between, a job on a project returns what the pipeline returns
  on the state the project is believed to have, and leaves the pipeline's result as that state.
\<close>

section \<open>A page-in is invisible\<close>

text \<open>The facets that are not persisted are not read by an apply.\<close>

lemma persisted_fields [simp]:
  "s_partition (persisted s) = s_partition s" "s_manifest (persisted s) = s_manifest s"
  "s_workspace (persisted s) = s_workspace s" "s_exports (persisted s) = s_exports s"
  by (simp_all add: persisted_def)

lemma run_front_extract_persisted:
  "run_front_extract (persisted s) cs env = run_front_extract s cs env"
  by (simp add: run_front_extract_def)

lemma run_front_link_persisted: "run_front_link (persisted s) env fx = run_front_link s env fx"
  by (simp add: run_front_link_def heal_diverged_refs_def healed_refs_of_def Let_def cong: if_cong)

lemma link_stage_persisted: "link_stage (persisted s) fx fl scope = link_stage s fx fl scope"
  by (simp add: link_stage_def front_impact_def cong: link_scope.case_cong)

lemma apply_with_persisted: "apply_with (persisted s) cs env scope timing = apply_with s cs env scope timing"
  by (simp add: apply_with_def run_front_extract_persisted run_front_link_persisted link_stage_persisted
      Let_def cong: sum.case_cong prod.case_cong cluster_timing.case_cong)

section \<open>The deferred store and the plain state\<close>

definition memory_port :: "memory_store store_port" where
  "memory_port = \<lparr>so_load = memory_load, so_apply = memory_apply\<rparr>"

definition deferred_state :: "deferred_store \<Rightarrow> graph_state" where
  "deferred_state s = (case df_applied s of None \<Rightarrow> df_prior s | Some state \<Rightarrow> state)"

text \<open>A computation on the deferred store of a prior state simulates one on the state.\<close>

definition simulates ::
  "'e + deferred_store \<times> 'a \<Rightarrow> 'e + graph_state \<times> 'a \<Rightarrow> graph_state \<Rightarrow> bool"
where
  "simulates x y s \<longleftrightarrow>
     (case x of
        Inl err \<Rightarrow> y = Inl err
      | Inr (store, r) \<Rightarrow> df_prior store = s \<and> y = Inr (deferred_state store, r))"

lemma pipeline_apply_simulates:
  "simulates (pipeline_apply pl deferred_port (deferred_new s) s cs) (pipeline_apply pl memory_port s s cs) s"
  by (simp add: pipeline_apply_def simulates_def deferred_port_def memory_port_def deferred_apply_def
      memory_apply_def deferred_new_def deferred_state_def merge_from_eq Let_def split: sum.split)

lemma simulates_new: "simulates (Inr (deferred_new s, r)) (Inr (s, r)) s"
  by (simp add: simulates_def deferred_new_def deferred_state_def)

lemma simulates_error: "simulates (Inl err) (Inl err) s"
  by (simp add: simulates_def)

lemma apply_signal_simulates:
  "simulates (apply_signal pl deferred_port (deferred_new s) s cs) (apply_signal pl memory_port s s cs) s"
  by (simp add: apply_signal_def Let_def pipeline_apply_simulates simulates_new simulates_error
      split: option.split)

lemma simulates_result:
  "simulates x y s \<Longrightarrow>
     simulates (case x of Inl err \<Rightarrow> Inl err | Inr (store, b) \<Rightarrow> Inr (store, f b))
       (case y of Inl err \<Rightarrow> Inl err | Inr (store, b) \<Rightarrow> Inr (store, f b)) s"
  by (cases x) (auto simp: simulates_def)

lemma reconcile_simulates:
  "simulates (reconcile_and_apply pl deferred_port (deferred_new s) s deep)
     (reconcile_and_apply pl memory_port s s deep) s"
proof (cases "h_root (pl_host pl)")
  case (Some base)
  show ?thesis
  proof (cases "reconcile (pl_host pl) base s deep")
    case (Inr r)
    obtain report cs where "r = (report, cs)" by fastforce
    with Some Inr simulates_result [OF pipeline_apply_simulates, where f = "Pair report"] show ?thesis
      by (simp add: reconcile_and_apply_def simulates_new)
  qed (simp add: Some reconcile_and_apply_def simulates_error)
qed (simp add: reconcile_and_apply_def simulates_error)

text \<open>The pipeline on the plain state, up to what is not persisted.\<close>

definition same_result :: "'e + graph_state \<times> 'a \<Rightarrow> 'e + graph_state \<times> 'a \<Rightarrow> bool" where
  "same_result x y \<longleftrightarrow> map_sum id (map_prod persisted id) x = map_sum id (map_prod persisted id) y"

lemma same_result_refl [simp]: "same_result x x"
  by (simp add: same_result_def)

lemma pipeline_apply_persisted:
  "pipeline_apply pl memory_port (persisted s) (persisted s) cs = pipeline_apply pl memory_port s s cs"
  by (simp add: pipeline_apply_def memory_port_def memory_apply_def apply_with_persisted
      Let_def cong: sum.case_cong if_cong)

lemma pipeline_apply_same:
  "same_result (pipeline_apply pl memory_port s s cs)
     (pipeline_apply pl memory_port (persisted s) (persisted s) cs)"
  by (simp add: pipeline_apply_persisted)

lemma gate_persisted: "gate_changeset cs (persisted s) h base = gate_changeset cs s h base"
  by (simp add: gate_changeset_def)

lemma reconcile_persisted: "reconcile h base (persisted s) deep = reconcile h base s deep"
  by (simp add: reconcile_def cong: sum.case_cong)

lemma apply_signal_persisted:
  "same_result (apply_signal pl memory_port s s cs)
     (apply_signal pl memory_port (persisted s) (persisted s) cs)"
  by (auto simp: apply_signal_def gate_persisted pipeline_apply_persisted Let_def same_result_def
      split: option.split)

lemma reconcile_and_apply_persisted:
  "same_result (reconcile_and_apply pl memory_port s s deep)
     (reconcile_and_apply pl memory_port (persisted s) (persisted s) deep)"
  by (auto simp: reconcile_and_apply_def reconcile_persisted pipeline_apply_persisted same_result_def
      split: option.split sum.split prod.split)

section \<open>The critical section\<close>

lemma with_project_apply_refines:
  assumes ok: "fl_ok D fl" "disk_fine D fl" "inj D" "project_at D p"
    and sim: "\<And>s. simulates (mutate (daemon_pipeline (host_of p) scope_var mode) (deferred_new s) s) (g s) s"
    and paged: "\<And>s. same_result (g s) (g (persisted s))"
  shows "\<exists>fl'. with_project_apply host_of scope_var now p mode mutate fl =
       (map_sum id snd (g (believed D fl (dp_id p))), fl')
     \<and> fl_ok D fl' \<and> disk_fine D fl'
     \<and> believed D fl' = (believed D fl)(dp_id p :=
         case g (believed D fl (dp_id p)) of Inl _ \<Rightarrow> believed D fl (dp_id p) | Inr (s, _) \<Rightarrow> persisted s)"
proof -
  let ?pl = "daemon_pipeline (host_of p) scope_var mode" and ?i = "dp_id p"
  from state_of_refines [OF ok, of "fst now"] obtain a fl1 where
    1: "fl_state_of (fst now) p fl = (Inr a, fl1)" "fl_ok D fl1" "disk_fine D fl1"
       "believed D fl1 = believed D fl" "persisted (deref (fl_cache fl1) a) = believed D fl ?i" by blast
  let ?s = "deref (fl_cache fl1) a"
  have same: "same_result (g ?s) (g (believed D fl ?i))" using paged [of ?s] 1(5) by simp
  show ?thesis
  proof (cases "mutate ?pl (deferred_new ?s) ?s")
    case (Inl err)
    with sim [of ?s] have "g ?s = Inl err" by (simp add: simulates_def)
    with same have "g (believed D fl ?i) = Inl err"
      by (cases "g (believed D fl ?i)") (simp_all add: same_result_def)
    with Inl 1 show ?thesis by (simp add: with_project_apply_def Let_def fun_upd_idem)
  next
    case (Inr sr)
    obtain store r where sr: "sr = (store, r)" by fastforce
    with Inr sim [of ?s] have g: "df_prior store = ?s" "g ?s = Inr (deferred_state store, r)"
      by (simp_all add: simulates_def)
    with same obtain s' where s': "g (believed D fl ?i) = Inr (s', r)"
      "persisted s' = persisted (deferred_state store)"
      by (cases "g (believed D fl ?i)") (auto simp: same_result_def map_prod_def split: prod.splits)
    show ?thesis
    proof (cases "df_applied store")
      case None
      then have "persisted s' = believed D fl ?i" using s'(2) g(1) 1(5) by (simp add: deferred_state_def)
      with None Inr sr s' 1 show ?thesis
        by (simp add: with_project_apply_def Let_def deferred_take_def fun_upd_idem)
    next
      case (Some fresh)
      then have "persisted fresh = persisted s'" using s'(2) by (simp add: deferred_state_def)
      with record_refines [OF 1(2,3) ok(3,4), of "snd now" fresh mode] Some Inr sr s' 1 show ?thesis
        by (auto simp: with_project_apply_def Let_def deferred_take_def)
    qed
  qed
qed

text \<open>What a job does to the state of its project, with no cache, no disk and no cadence.\<close>

definition spec_job ::
  "(daemon_project \<Rightarrow> host) \<Rightarrow> string option \<Rightarrow> apply_job \<Rightarrow> graph_state \<Rightarrow>
     (daemon_error + applied) \<times> graph_state"
where
  "spec_job host_of scope_var job s =
     (let p = aj_project job; pl = daemon_pipeline (host_of p) scope_var (aj_persistence job)
      in case aj_op job of
           Op_Apply cs \<Rightarrow>
             (case apply_signal pl memory_port s s cs of
                Inl err \<Rightarrow> (Inl (DOther (''apply failed for '' @ dp_id p @ '': '' @ show_error err)), s)
              | Inr (s', r) \<Rightarrow> (Inr (applied_of r), s'))
         | Op_Apply_Exact cs \<Rightarrow>
             (case pipeline_apply pl memory_port s s cs of
                Inl err \<Rightarrow> (Inl (DOther (''apply-exact failed for '' @ dp_id p @ '': '' @ show_error err)), s)
              | Inr (s', r) \<Rightarrow> (Inr (applied_of r), s'))
         | Op_Reconcile deep \<Rightarrow>
             (case reconcile_and_apply pl memory_port s s deep of
                Inl err \<Rightarrow>
                  (Inl (Reconcile_Error (''reconcile failed for '' @ dp_id p @ '': '' @ show_error err)), s)
              | Inr (s', _, b) \<Rightarrow> (Inr (applied_of b), s'))
         | Op_Recluster \<Rightarrow>
             (case recluster s (env_cluster (h_engine (host_of p))) of
                Inl err \<Rightarrow> (Inl (DOther (''recluster failed for '' @ dp_id p @ '': '' @ show_error err)), s)
              | Inr part \<Rightarrow> (Inr applied_default, s\<lparr>s_partition := part\<rparr>)))"

lemma simulates_error_map:
  "simulates x y s \<Longrightarrow>
     simulates (case x of Inl err \<Rightarrow> Inl (f err) | Inr r \<Rightarrow> Inr r) (map_sum f id y) s"
  by (cases x) (auto simp: simulates_def)

lemma same_result_map: "same_result x y \<Longrightarrow> same_result (map_sum f id x) (map_sum f id y)"
  by (cases x; cases y) (auto simp: same_result_def)

lemma recluster_persisted: "recluster (persisted s) c = recluster s c"
  by (simp add: recluster_def)

lemma persisted_partition_update:
  "persisted (s\<lparr>s_partition := part\<rparr>) = (persisted s)\<lparr>s_partition := part\<rparr>"
  by (simp add: persisted_def)

lemma run_job_refines:
  assumes "fl_ok D fl" "disk_fine D fl" "inj D" "project_at D (aj_project job)"
  defines "i \<equiv> dp_id (aj_project job)"
  shows "\<exists>fl'. run_job host_of scope_var now job fl =
       (fst (spec_job host_of scope_var job (believed D fl i)), fl')
     \<and> fl_ok D fl' \<and> disk_fine D fl'
     \<and> believed D fl' = (believed D fl)(i := persisted (snd (spec_job host_of scope_var job (believed D fl i))))"
proof -
  have pers: "persisted (believed D fl j) = believed D fl j" for j
    by (auto simp: believed_def graph_state_default_def persisted_def split: option.split sum.split)
  note critical = with_project_apply_refines [OF assms(1-4)]
  let ?p = "aj_project job" and ?pl = "daemon_pipeline (host_of (aj_project job)) scope_var (aj_persistence job)"
  show ?thesis
  proof (cases "aj_op job")
    case (Op_Apply cs)
    let ?e = "\<lambda>err. DOther (''apply failed for '' @ dp_id ?p @ '': '' @ show_error err)"
    from critical [where mutate = "\<lambda>pl store prior. case apply_signal pl deferred_port store prior cs of
          Inl err \<Rightarrow> Inl (?e err) | Inr r \<Rightarrow> Inr r"
        and g = "\<lambda>s. map_sum ?e id (apply_signal ?pl memory_port s s cs)"
        and host_of = host_of and scope_var = scope_var and mode = "aj_persistence job" and now = now,
        OF simulates_error_map [OF apply_signal_simulates] same_result_map [OF apply_signal_persisted]]
    show ?thesis using Op_Apply pers
      by (cases "apply_signal ?pl memory_port (believed D fl i) (believed D fl i) cs")
        (auto simp: run_job_def apply_core_def spec_job_def i_def Let_def fun_upd_idem)
  next
    case (Op_Apply_Exact cs)
    let ?e = "\<lambda>err. DOther (''apply-exact failed for '' @ dp_id ?p @ '': '' @ show_error err)"
    from critical [where mutate = "\<lambda>pl store prior. case pipeline_apply pl deferred_port store prior cs of
          Inl err \<Rightarrow> Inl (?e err) | Inr r \<Rightarrow> Inr r"
        and g = "\<lambda>s. map_sum ?e id (pipeline_apply ?pl memory_port s s cs)"
        and host_of = host_of and scope_var = scope_var and mode = "aj_persistence job" and now = now,
        OF simulates_error_map [OF pipeline_apply_simulates] same_result_map [OF pipeline_apply_same]]
    show ?thesis using Op_Apply_Exact pers
      by (cases "pipeline_apply ?pl memory_port (believed D fl i) (believed D fl i) cs")
        (auto simp: run_job_def apply_exact_def spec_job_def i_def Let_def fun_upd_idem)
  next
    case (Op_Reconcile deep)
    let ?e = "\<lambda>err. Reconcile_Error (''reconcile failed for '' @ dp_id ?p @ '': '' @ show_error err)"
    from critical [where mutate = "\<lambda>pl store prior. case reconcile_and_apply pl deferred_port store prior deep of
          Inl err \<Rightarrow> Inl (?e err) | Inr r \<Rightarrow> Inr r"
        and g = "\<lambda>s. map_sum ?e id (reconcile_and_apply ?pl memory_port s s deep)"
        and host_of = host_of and scope_var = scope_var and mode = "aj_persistence job" and now = now,
        OF simulates_error_map [OF reconcile_simulates] same_result_map [OF reconcile_and_apply_persisted]]
    show ?thesis using Op_Reconcile pers
      by (cases "reconcile_and_apply ?pl memory_port (believed D fl i) (believed D fl i) deep")
        (auto simp: run_job_def reconcile_project_def spec_job_def i_def Let_def fun_upd_idem)
  next
    case Op_Recluster
    from state_of_refines [OF assms(1-4), of "fst now"] obtain a fl1 where
      1: "fl_state_of (fst now) ?p fl = (Inr a, fl1)" "fl_ok D fl1" "disk_fine D fl1"
         "believed D fl1 = believed D fl" "persisted (deref (fl_cache fl1) a) = believed D fl i"
      unfolding i_def by blast
    let ?s = "deref (fl_cache fl1) a" and ?cl = "env_cluster (h_engine (host_of ?p))"
    have same: "recluster ?s ?cl = recluster (believed D fl i) ?cl"
      "s_partition ?s = s_partition (believed D fl i)"
      using recluster_persisted [of ?s ?cl] 1(5) persisted_fields(1) [of ?s] by simp_all
    show ?thesis
    proof (cases "recluster ?s ?cl")
      case (Inl err)
      then have "recluster (believed D fl i) ?cl = Inl err" using same(1) by simp
      with 1 Inl Op_Recluster pers show ?thesis
        by (simp add: run_job_def recluster_project_def spec_job_def i_def Let_def fun_upd_idem)
    next
      case (Inr part)
      then have inr: "recluster (believed D fl i) ?cl = Inr part" using same(1) by simp
      have upd: "persisted (?s\<lparr>s_partition := part\<rparr>) = persisted ((believed D fl i)\<lparr>s_partition := part\<rparr>)"
        using 1(5) pers by (simp add: persisted_partition_update)
      show ?thesis
      proof (cases "part = s_partition ?s")
        case True
        then have "(believed D fl i)\<lparr>s_partition := part\<rparr> = believed D fl i" using same(2) by simp
        with 1 inr Inr True Op_Recluster pers show ?thesis
          by (simp add: run_job_def recluster_project_def spec_job_def i_def Let_def fun_upd_idem)
      next
        case False
        from record_refines [OF 1(2,3) assms(3,4), of "snd now" "?s\<lparr>s_partition := part\<rparr>" Defer]
        obtain fl2 where "record_apply (snd now) ?p (?s\<lparr>s_partition := part\<rparr>) Defer fl1 = (Inr (), fl2)"
          "fl_ok D fl2" "disk_fine D fl2"
          "believed D fl2 = (believed D fl1)(i := persisted (?s\<lparr>s_partition := part\<rparr>))"
          unfolding i_def by blast
        with 1 inr Inr False Op_Recluster upd show ?thesis
          by (simp add: run_job_def recluster_project_def spec_job_def i_def Let_def)
      qed
    qed
  qed
qed

end
