(* ===== verification/Flush_Props.thy ===== *)
theory Flush_Props
  imports Flush_Refine
begin

text \<open>
  What the flusher promises: the state of a project is the one recorded last, a pass of the driver
  leaves no window older than the configuration allows, and the shutdown flush leaves everything on
  disk; and two runs in which it does not keep its documentation's word.
\<close>

section \<open>Promises\<close>


text \<open>After a pass of the flush driver on working directories, every project still dirty was
  touched within the quiescence period and has been dirty for less than the maximal age: this is how
  much work a crash can lose.\<close>

theorem flush_due_bounds_loss:
  assumes "fl_ok D fl" "disk_fine D fl" "inj D"
    and "bt_get (fl_dirty (snd (flush_due now fl))) i = Some w"
  shows "now - last_apply w < fc_quiescence (fl_cfg fl) \<and> now - first_dirty w < fc_max_dirty_age (fl_cfg fl)"
proof -
  from flush_each_refines [OF assms(1-3), of now "due now fl"]
  have "bt_get (fl_dirty (snd (flush_due now fl))) i =
      (if i \<in> set (due now fl) then None else bt_get (fl_dirty fl) i)"
    by (auto simp: flush_due_def)
  with assms(4) have "i \<notin> set (due now fl)" "bt_get (fl_dirty fl) i = Some w"
    by (simp_all split: if_splits)
  then have "\<not> is_due now (fl_cfg fl) w"
    by (force simp: due_def bt_get_def dest: map_of_SomeD)
  then show ?thesis by (simp add: is_due_def)
qed

text \<open>The shutdown flush on working directories reports no failure, leaves no project dirty, and
  every directory holds the state the daemon believed in.\<close>

theorem flush_all_saves_everything:
  assumes "fl_ok D fl" "disk_fine D fl" "inj D"
  shows "\<exists>fl'. flush_all now fl = ([], fl') \<and> (\<forall>i. \<not> fl_is_dirty fl' i)
    \<and> (\<forall>i. \<exists>s. fs_read (fl_disk fl' (D i)) = Inr s \<and> persisted s = believed D fl i)"
proof -
  from flush_each_refines [OF assms, of now "bt_keys (fl_dirty fl)"] obtain fl' where
    1: "flush_all now fl = ([], fl')" "fl_ok D fl'" "disk_fine D fl'" "believed D fl' = believed D fl"
       "\<And>j. bt_get (fl_dirty fl') j = (if j \<in> set (bt_keys (fl_dirty fl)) then None else bt_get (fl_dirty fl) j)"
    unfolding flush_all_def by blast
  have clean: "\<not> fl_is_dirty fl' i" for i
    using 1(5) [of i] get_Some_key [of "fl_dirty fl" i]
    by (cases "bt_get (fl_dirty fl) i") (auto simp: fl_is_dirty_def bt_keys_def)
  with 1 clean_on_disk [OF 1(2,3)] show ?thesis by metis
qed

section \<open>A concrete daemon\<close>

text \<open>Room for one resident graph, two projects, working directories without a checkpoint. States are
  told apart by the path in their manifest.\<close>

definition ex_a :: daemon_project where
  "ex_a = project_new ''/w/a''"

definition ex_b :: daemon_project where
  "ex_b = project_new ''/w/b''"

definition ex_dir :: "string \<Rightarrow> string" where
  "ex_dir i = ''/w/'' @ i @ ''/.filigrio-out''"

definition ex_state :: "string \<Rightarrow> graph_state" where
  "ex_state path =
     graph_state_default\<lparr>s_manifest := bt_insert path \<lparr>me_hash = 0, me_last_modified = None, me_revision = None\<rparr> bt_empty\<rparr>"

definition ex_disk :: "string \<Rightarrow> fs_store" where
  "ex_disk dir = \<lparr>fs_file = None, fs_write_error = None, fs_force = False\<rparr>"

definition ex_new :: flusher where
  "ex_new = flusher_new (cache_new 1) flush_config_default ex_disk"

text \<open>Both projects are recorded, each paging the other out, and \<open>a\<close> once more.\<close>

definition ex_ops :: "(nat \<times> flush_op) list" where
  "ex_ops = [(0, Op_Record ex_a (ex_state ''1'') Defer), (5, Op_Record ex_b (ex_state ''2'') Defer),
     (6, Op_Read ex_a), (7, Op_Record ex_a (ex_state ''3'') Defer), (8, Op_Read ex_b), (40, Op_Due)]"

lemma ex_dir_inj: "inj ex_dir"
  by (auto simp: inj_def ex_dir_def)

lemma ex_new_fine: "disk_fine ex_dir ex_new"
  by (simp add: disk_fine_def ex_new_def flusher_new_def ex_disk_def fs_read_def)

lemma ex_at: "project_at ex_dir ex_a" "project_at ex_dir ex_b"
  by (code_simp)+


text \<open>Two projects dirty since 0 and 20, with room for both: at 35 only the first is due.\<close>

definition ex_two :: flusher where
  "ex_two = snd (record_apply 20 ex_b (ex_state ''2'') Defer
     (snd (record_apply 0 ex_a (ex_state ''1'') Defer
       (flusher_new (cache_new 2) flush_config_default ex_disk))))"

lemma ex_two_ok: "fl_ok ex_dir ex_two \<and> disk_fine ex_dir ex_two"
proof -
  let ?new = "flusher_new (cache_new 2) flush_config_default ex_disk"
  have fine: "disk_fine ex_dir ?new"
    by (simp add: disk_fine_def flusher_new_def ex_disk_def fs_read_def)
  from record_refines [OF flusher_new_ok fine ex_dir_inj ex_at(1), of 0 "ex_state ''1''" Defer]
  have "fl_ok ex_dir (snd (record_apply 0 ex_a (ex_state ''1'') Defer ?new))"
    "disk_fine ex_dir (snd (record_apply 0 ex_a (ex_state ''1'') Defer ?new))" by auto
  from record_refines [OF this ex_dir_inj ex_at(2), of 20 "ex_state ''2''" Defer]
  show ?thesis by (auto simp: ex_two_def)
qed

lemma flush_due_bounds_loss_witness:
  "bt_get (fl_dirty (snd (flush_due 35 ex_two))) ''b'' = Some \<lparr>first_dirty = 20, last_apply = 20\<rparr>
   \<and> 35 - 20 < fc_quiescence (fl_cfg ex_two)"
proof -
  have "bt_get (fl_dirty (snd (flush_due 35 ex_two))) ''b'' = Some \<lparr>first_dirty = 20, last_apply = 20\<rparr>"
    by code_simp
  with flush_due_bounds_loss [OF _ _ ex_dir_inj this] ex_two_ok show ?thesis by simp
qed

lemma flush_all_saves_everything_witness:
  "\<exists>fl'. flush_all 35 ex_two = ([], fl') \<and> \<not> fl_is_dirty fl' ''a''"
  using flush_all_saves_everything [OF _ _ ex_dir_inj, of ex_two 35] ex_two_ok by blast

section \<open>A failing write\<close>

definition ex_break :: "string \<Rightarrow> error option \<Rightarrow> flusher \<Rightarrow> flusher" where
  "ex_break dir err fl =
     fl\<lparr>fl_disk := (fl_disk fl)(dir := (fl_disk fl dir)\<lparr>fs_write_error := err\<rparr>)\<rparr>"

text \<open>Unpersisted work is lost without a trace when the write of a paged-out project fails: the
  entry and the dirty mark are gone before the write is tried, so once the directory works again the
  project counts as clean, nothing is left to flush, and the next read returns the old checkpoint.\<close>

theorem failed_eviction_write_loses_work:
  "\<exists>err fl fl' a.
     record_apply 5 ex_b (ex_state ''2'') Defer
       (ex_break (ex_dir ''a'') (Some (Storage ''disk full''))
         (snd (record_apply 0 ex_a (ex_state ''1'') Defer ex_new))) = (Inl err, fl)
     \<and> \<not> fl_is_dirty fl ''a''
     \<and> fl_state_of 7 ex_a (snd (flush_all 6 (ex_break (ex_dir ''a'') None fl))) = (Inr a, fl')
     \<and> deref (fl_cache fl') a = graph_state_default"
proof -
  let ?r = "record_apply 5 ex_b (ex_state ''2'') Defer
       (ex_break (ex_dir ''a'') (Some (Storage ''disk full''))
         (snd (record_apply 0 ex_a (ex_state ''1'') Defer ex_new)))"
  let ?s = "fl_state_of 7 ex_a (snd (flush_all 6 (ex_break (ex_dir ''a'') None (snd ?r))))"
  have "isl (fst ?r) \<and> \<not> fl_is_dirty (snd ?r) ''a'' \<and> \<not> isl (fst ?s)
      \<and> deref (fl_cache (snd ?s)) (projr (fst ?s)) = graph_state_default"
    by code_simp
  then show ?thesis
    by (cases "fst ?r"; cases "fst ?s") (metis isl_def prod.collapse sum.collapse(1,2) sum.disc(1))+
qed

section \<open>Two workers\<close>

text \<open>The deferred recording in the two parts between which another worker can run: the cache is
  released once the state is in it, and what it paged out is written afterwards, under no lock of the
  paged-out project.\<close>

definition defer_put ::
  "daemon_project \<Rightarrow> graph_state \<Rightarrow> flusher \<Rightarrow> evicted list \<times> flusher"
where
  "defer_put p fresh fl =
     (let fl = remember p fl; (evs, c) = cache_put (dp_id p) fresh (fl_cache fl)
      in (evs, fl\<lparr>fl_cache := c\<rparr>))"

definition defer_finish ::
  "nat \<Rightarrow> daemon_project \<Rightarrow> evicted list \<Rightarrow> flusher \<Rightarrow> (daemon_error + unit) \<times> flusher"
where
  "defer_finish now p evs fl = flush_evicted now evs (open_window now (dp_id p) fl)"

lemma record_apply_parts:
  "record_apply now p fresh Defer fl = (case defer_put p fresh fl of (evs, fl) \<Rightarrow> defer_finish now p evs fl)"
  by (simp add: record_apply_def defer_put_def defer_finish_def Let_def split: prod.split)

text \<open>Worker 1 records \<open>b\<close>, which pages the dirty \<open>a\<close> out; before it writes \<open>a\<close> back, worker 2 reads
  \<open>a\<close>, computes on what it read and records the result.\<close>

definition race_start :: "evicted list \<times> flusher" where
  "race_start =
     defer_put ex_b (ex_state ''2'') (snd (record_apply 0 ex_a (ex_state ''1'') Defer ex_new))"

definition race_read :: "(daemon_error + arc) \<times> flusher" where
  "race_read = fl_state_of 5 ex_a (snd race_start)"

definition race_end :: flusher where
  "race_end = snd (defer_finish 6 ex_b (fst race_start)
     (snd (record_apply 5 ex_a (ex_state ''3'') Defer (snd race_read))))"

text \<open>Between the page-out of a dirty project and its write-back another worker reads the old
  checkpoint, so its result misses the recorded update; the late write-back then removes the dirty
  mark of the newer result, and the shutdown flush leaves the older state on disk.\<close>

theorem eviction_race_loses_updates:
  "deref (fl_cache (snd race_read)) (projr (fst race_read)) = graph_state_default
   \<and> peek (fl_cache race_end) ''a'' = Some (ex_state ''3'')
   \<and> \<not> fl_is_dirty race_end ''a''
   \<and> fs_read (fl_disk (snd (flush_all 7 race_end)) (ex_dir ''a'')) = Inr (ex_state ''1'')"
  by code_simp

end
