(* ===== verification/Apply_Props.thy ===== *)
theory Apply_Props
  imports Apply_Refine Pipeline_Props Flush_Props
begin

text \<open>Whole runs of the daemon's applies, against the pipeline on a map of states.\<close>

section \<open>Runs\<close>

datatype daemon_step = Run_Job apply_job | Pass flush_op

text \<open>The jobs of a run report their results; a pass of the flusher reports nothing. \<open>None\<close> is a failing
  pass.\<close>

fun run_daemon ::
  "(daemon_project \<Rightarrow> host) \<Rightarrow> string option \<Rightarrow> ((nat \<times> nat) \<times> daemon_step) list \<Rightarrow> flusher \<Rightarrow>
     (daemon_error + applied) list \<times> flusher option"
where
  "run_daemon host_of scope_var [] fl = ([], Some fl)"
| "run_daemon host_of scope_var ((now, Run_Job job) # steps) fl =
     (case run_job host_of scope_var now job fl of
        (r, fl) \<Rightarrow> (case run_daemon host_of scope_var steps fl of (rs, end) \<Rightarrow> (r # rs, end)))"
| "run_daemon host_of scope_var ((now, Pass op1) # steps) fl =
     (case run_op (fst now, op1) fl of
        None \<Rightarrow> ([], None)
      | Some fl \<Rightarrow> run_daemon host_of scope_var steps fl)"

fun spec_daemon ::
  "(daemon_project \<Rightarrow> host) \<Rightarrow> string option \<Rightarrow> daemon_step list \<Rightarrow> (string \<Rightarrow> graph_state) \<Rightarrow>
     (daemon_error + applied) list \<times> (string \<Rightarrow> graph_state)"
where
  "spec_daemon host_of scope_var [] m = ([], m)"
| "spec_daemon host_of scope_var (Run_Job job # steps) m =
     (let i = dp_id (aj_project job); (r, s) = spec_job host_of scope_var job (m i);
          (rs, m') = spec_daemon host_of scope_var steps (m(i := persisted s))
      in (r # rs, m'))"
| "spec_daemon host_of scope_var (Pass op1 # steps) m =
     spec_daemon host_of scope_var steps (spec_op op1 m)"

fun step_at :: "(string \<Rightarrow> string) \<Rightarrow> daemon_step \<Rightarrow> bool" where
  "step_at D (Run_Job job) = project_at D (aj_project job)"
| "step_at D (Pass op1) = op_at D op1"

lemma run_daemon_refines:
  assumes "fl_ok D fl" "disk_fine D fl" "inj D" "\<forall>t \<in> set steps. step_at D (snd t)"
  shows "\<exists>fl'. run_daemon host_of scope_var steps fl =
       (fst (spec_daemon host_of scope_var (map snd steps) (believed D fl)), Some fl')
     \<and> fl_ok D fl' \<and> disk_fine D fl'
     \<and> believed D fl' = snd (spec_daemon host_of scope_var (map snd steps) (believed D fl))"
  using assms
proof (induction steps arbitrary: fl)
  case (Cons t steps)
  obtain now st where t: "t = (now, st)" by fastforce
  show ?case
  proof (cases st)
    case (Run_Job job)
    with Cons.prems(4) t have "project_at D (aj_project job)" by simp
    from run_job_refines [OF Cons.prems(1-3) this, of host_of scope_var now] obtain fl1 where
      1: "run_job host_of scope_var now job fl =
            (fst (spec_job host_of scope_var job (believed D fl (dp_id (aj_project job)))), fl1)"
         "fl_ok D fl1" "disk_fine D fl1"
         "believed D fl1 = (believed D fl)(dp_id (aj_project job) :=
            persisted (snd (spec_job host_of scope_var job (believed D fl (dp_id (aj_project job))))))"
      by blast
    from Cons.IH [OF 1(2,3) assms(3)] Cons.prems(4) obtain fl2 where
      "run_daemon host_of scope_var steps fl1 =
         (fst (spec_daemon host_of scope_var (map snd steps) (believed D fl1)), Some fl2)"
      "fl_ok D fl2" "disk_fine D fl2"
      "believed D fl2 = snd (spec_daemon host_of scope_var (map snd steps) (believed D fl1))" by auto
    with 1 t Run_Job show ?thesis by (auto simp: Let_def split: prod.split)
  next
    case (Pass op1)
    with Cons.prems(4) t have "op_at D op1" by simp
    from run_op_refines [OF Cons.prems(1-3) this, of "fst now"] obtain fl1 where
      1: "run_op (fst now, op1) fl = Some fl1" "fl_ok D fl1" "disk_fine D fl1"
         "believed D fl1 = spec_op op1 (believed D fl)" by blast
    from Cons.IH [OF 1(2,3) assms(3)] Cons.prems(4) 1(1,4) t Pass show ?thesis by auto
  qed
qed simp

section \<open>Refinement\<close>

text \<open>C1. A run of the daemon is a run of the pipeline on a plain map of states: on working
  directories, from a fresh daemon with any cache capacity, every job of any sequence (applies,
  reconciles and reclusters of any projects, in any lane, with flush passes, reads and page-outs in
  between) returns exactly what the pipeline returns on the last state of its project, and a project's
  state at the end is the last one its jobs computed.\<close>

theorem daemon_refines_pipeline:
  assumes "inj D" "disk_fine D (flusher_new (cache_new n) cfg disk)"
    and "\<forall>t \<in> set steps. step_at D (snd t)" "project_at D p"
  defines "m \<equiv> \<lambda>i. case fs_read (disk (D i)) of Inr s \<Rightarrow> persisted s | Inl _ \<Rightarrow> graph_state_default"
  shows "\<exists>fl fl' a.
    run_daemon host_of scope_var steps (flusher_new (cache_new n) cfg disk) =
      (fst (spec_daemon host_of scope_var (map snd steps) m), Some fl)
    \<and> fl_state_of now p fl = (Inr a, fl')
    \<and> persisted (deref (fl_cache fl') a) = snd (spec_daemon host_of scope_var (map snd steps) m) (dp_id p)"
proof -
  let ?fl = "flusher_new (cache_new n) cfg disk"
  have new: "believed D ?fl = m"
    by (simp add: believed_def flusher_new_def cache_new_def peek_arc_def fun_eq_iff m_def)
  from run_daemon_refines [OF flusher_new_ok assms(2,1,3)] obtain fl where
    1: "run_daemon host_of scope_var steps ?fl =
          (fst (spec_daemon host_of scope_var (map snd steps) (believed D ?fl)), Some fl)"
       "fl_ok D fl" "disk_fine D fl"
       "believed D fl = snd (spec_daemon host_of scope_var (map snd steps) (believed D ?fl))" by blast
  from state_of_refines [OF 1(2,3) assms(1,4), of now] 1 new show ?thesis by fastforce
qed

text \<open>Two projects on a daemon with room for one: a file of the first is applied on the producer lane,
  the second is reclustered, and the first applied again.\<close>

definition two_steps :: "((nat \<times> nat) \<times> daemon_step) list" where
  "two_steps =
     [((0, 0), Run_Job \<lparr>aj_project = ex_a, aj_op = Op_Apply_Exact \<lparr>added = [''a.rs''], modified = [], removed = []\<rparr>,
                 aj_persistence = Defer\<rparr>),
      ((1, 1), Run_Job \<lparr>aj_project = ex_b, aj_op = Op_Recluster, aj_persistence = Defer\<rparr>),
      ((2, 2), Pass Op_Due),
      ((3, 3), Run_Job \<lparr>aj_project = ex_a, aj_op = Op_Apply \<lparr>added = [], modified = [''a.rs''], removed = []\<rparr>,
                 aj_persistence = Flush\<rparr>)]"

definition two_host :: host where
  "two_host = rest_host\<lparr>h_sha256_hex := (\<lambda>_. [])\<rparr>"

lemma two_steps_spec:
  "fst (spec_daemon (\<lambda>_. two_host) None (map snd two_steps)
     (\<lambda>i. case fs_read (ex_disk (ex_dir i)) of Inr s \<Rightarrow> persisted s | Inl _ \<Rightarrow> graph_state_default)) =
     [Inr \<lparr>ap_changed = 1, ap_vanished = 0\<rparr>, Inr \<lparr>ap_changed = 0, ap_vanished = 0\<rparr>,
      Inr \<lparr>ap_changed = 0, ap_vanished = 0\<rparr>]"
  by code_simp

theorem daemon_refines_pipeline_witness:
  "fst (run_daemon (\<lambda>_. two_host) None two_steps ex_new) =
     [Inr \<lparr>ap_changed = 1, ap_vanished = 0\<rparr>, Inr \<lparr>ap_changed = 0, ap_vanished = 0\<rparr>,
      Inr \<lparr>ap_changed = 0, ap_vanished = 0\<rparr>]"
proof -
  have at: "\<forall>t \<in> set two_steps. step_at ex_dir (snd t)" by (simp add: two_steps_def ex_at)
  have fine: "disk_fine ex_dir (flusher_new (cache_new 1) flush_config_default ex_disk)"
    using ex_new_fine by (simp add: ex_new_def)
  from daemon_refines_pipeline [OF ex_dir_inj fine at ex_at(1), of "\<lambda>_. two_host" None 9]
  show ?thesis using two_steps_spec by (auto simp: ex_new_def)
qed

end
