(* ===== verification/Handshake.thy ===== *)
theory Handshake
  imports Main
begin

text \<open>
  The single-daemon handshake (\<^verbatim>\<open>filigrio-daemon/src/handshake.rs\<close>) with the startup and the teardown of
  \<^verbatim>\<open>daemon.rs\<close> around it, as a step relation over the processes that share a socket path and a lock
  path. A file has an identity (its inode) apart from its path: an advisory lock is held on the inode,
  and the path may name another file later. A socket path answers when the process that bound it last
  is alive and has not unlinked it.
\<close>

section \<open>The machine\<close>

type_synonym pid = nat
type_synonym inode = nat

text \<open>Where a process stands in \<^verbatim>\<open>perform_handshake\<close>, \<^verbatim>\<open>startup\<close>, its service and \<^verbatim>\<open>teardown\<close>, with the
  lock file it has open.\<close>

datatype hs_state =
    Start
  | Found_None
  | Opened inode
  | Holding inode
  | Became inode
  | Serving inode
  | Lock_Closed
  | Lock_Removed
  | Socket_Removed
  | Gone

datatype hs_action =
    Probe
  | Open_Lock
  | Try_Lock
  | Probe_Again
  | Bind
  | Close_Lock
  | Remove_Lock
  | Remove_Socket
  | Flush_And_Exit
  | Crash

record hs_world =
  w_state :: "pid \<Rightarrow> hs_state"
  w_lock_path :: "inode option"
  w_next_inode :: inode
  w_owner :: "inode \<Rightarrow> pid option"
  w_socket :: "pid option"
  w_flushed :: "pid list"
  w_loaded :: "(pid \<times> pid list) list"

text \<open>\<open>w_flushed\<close> lists the daemons that have written their final state, \<open>w_loaded\<close> what each daemon
  found written when it loaded the stores at its startup.\<close>

definition hs_init :: hs_world where
  "hs_init =
     \<lparr>w_state = (\<lambda>_. Start), w_lock_path = None, w_next_inode = 0, w_owner = (\<lambda>_. None),
      w_socket = None, w_flushed = [], w_loaded = []\<rparr>"

definition goto :: "pid \<Rightarrow> hs_state \<Rightarrow> hs_world \<Rightarrow> hs_world" where
  "goto p s w = w\<lparr>w_state := (w_state w)(p := s)\<rparr>"

text \<open>\<^verbatim>\<open>is_daemon_running\<close>: a connection to the socket path succeeds.\<close>

definition is_daemon_running :: "hs_world \<Rightarrow> bool" where
  "is_daemon_running w \<longleftrightarrow> w_socket w \<noteq> None"

definition release_owner :: "pid \<Rightarrow> hs_world \<Rightarrow> hs_world" where
  "release_owner p w = w\<lparr>w_owner := (\<lambda>i. if w_owner w i = Some p then None else w_owner w i)\<rparr>"

text \<open>\<^verbatim>\<open>acquire_lock\<close> is \<open>Open_Lock\<close> (open, creating the file when the path names none) and \<open>Try_Lock\<close> (a
  non-blocking exclusive lock on the open file). A process that finds a daemon or fails to lock ends;
  \<open>Crash\<close> is a process that ends anywhere, its lock and its listener closed by the kernel.\<close>

fun hs_exec :: "pid \<Rightarrow> hs_action \<Rightarrow> hs_world \<Rightarrow> hs_world option" where
  "hs_exec p Probe w =
     (if w_state w p = Start
      then Some (goto p (if is_daemon_running w then Gone else Found_None) w) else None)"
| "hs_exec p Open_Lock w =
     (if w_state w p = Found_None
      then
        (case w_lock_path w of
           Some i \<Rightarrow> Some (goto p (Opened i) w)
         | None \<Rightarrow>
             Some (goto p (Opened (w_next_inode w))
               (w\<lparr>w_lock_path := Some (w_next_inode w), w_next_inode := Suc (w_next_inode w)\<rparr>)))
      else None)"
| "hs_exec p Try_Lock w =
     (case w_state w p of
        Opened i \<Rightarrow>
          (if w_owner w i = None
           then Some (goto p (Holding i) (w\<lparr>w_owner := (w_owner w)(i := Some p)\<rparr>))
           else Some (goto p Gone w))
      | _ \<Rightarrow> None)"
| "hs_exec p Probe_Again w =
     (case w_state w p of
        Holding i \<Rightarrow>
          (if is_daemon_running w then Some (goto p Gone (release_owner p w))
           else Some (goto p (Became i) (w\<lparr>w_loaded := (p, w_flushed w) # w_loaded w\<rparr>)))
      | _ \<Rightarrow> None)"
| "hs_exec p Bind w =
     (case w_state w p of
        Became i \<Rightarrow> Some (goto p (Serving i) (w\<lparr>w_socket := Some p\<rparr>))
      | _ \<Rightarrow> None)"
| "hs_exec p Close_Lock w =
     (case w_state w p of
        Serving i \<Rightarrow> Some (goto p Lock_Closed (release_owner p w))
      | _ \<Rightarrow> None)"
| "hs_exec p Remove_Lock w =
     (if w_state w p = Lock_Closed
      then Some (goto p Lock_Removed (w\<lparr>w_lock_path := None\<rparr>)) else None)"
| "hs_exec p Remove_Socket w =
     (if w_state w p = Lock_Removed
      then Some (goto p Socket_Removed (w\<lparr>w_socket := None\<rparr>)) else None)"
| "hs_exec p Flush_And_Exit w =
     (if w_state w p = Socket_Removed
      then Some (goto p Gone (w\<lparr>w_flushed := p # w_flushed w\<rparr>)) else None)"
| "hs_exec p Crash w =
     (if w_state w p \<noteq> Gone
      then Some (goto p Gone (release_owner p
             (w\<lparr>w_socket := (if w_socket w = Some p then None else w_socket w)\<rparr>)))
      else None)"

inductive hs_step :: "hs_world \<Rightarrow> pid \<times> hs_action \<Rightarrow> hs_world \<Rightarrow> bool" where
  "hs_exec p a w = Some w' \<Longrightarrow> hs_step w (p, a) w'"

inductive_cases hs_stepE: "hs_step w (p, a) w'"

inductive hs_reach :: "(pid \<times> hs_action) list \<Rightarrow> hs_world \<Rightarrow> bool" where
  start: "hs_reach [] hs_init"
| step: "hs_reach tr w \<Longrightarrow> hs_step w pa w' \<Longrightarrow> hs_reach (tr @ [pa]) w'"

fun hs_run :: "(pid \<times> hs_action) list \<Rightarrow> hs_world \<Rightarrow> hs_world option" where
  "hs_run [] w = Some w"
| "hs_run ((p, a) # tr) w = (case hs_exec p a w of None \<Rightarrow> None | Some w' \<Rightarrow> hs_run tr w')"

lemma hs_run_reach:
  "hs_reach tr0 w \<Longrightarrow> hs_run tr w = Some w' \<Longrightarrow> hs_reach (tr0 @ tr) w'"
proof (induction tr arbitrary: tr0 w)
  case (Cons pa tr)
  obtain p a where pa: "pa = (p, a)" by fastforce
  with Cons.prems(2) obtain w1 where w1: "hs_exec p a w = Some w1" "hs_run tr w1 = Some w'"
    by (auto split: option.splits)
  have "hs_reach (tr0 @ [pa]) w1"
    using Cons.prems(1) w1(1) by (auto simp: pa intro: hs_reach.step hs_step.intros)
  from Cons.IH [OF this w1(2)] show ?case by simp
qed simp

section \<open>Daemons\<close>

text \<open>A daemon is a process that has been told to become one and has not finished its teardown.\<close>

definition is_daemon :: "hs_world \<Rightarrow> pid \<Rightarrow> bool" where
  "is_daemon w p \<longleftrightarrow> (case w_state w p of Became _ \<Rightarrow> True | Serving _ \<Rightarrow> True | _ \<Rightarrow> False)"

fun open_file :: "hs_state \<Rightarrow> inode option" where
  "open_file (Opened i) = Some i"
| "open_file (Holding i) = Some i"
| "open_file (Became i) = Some i"
| "open_file (Serving i) = Some i"
| "open_file _ = None"

fun locked_file :: "hs_state \<Rightarrow> inode option" where
  "locked_file (Holding i) = Some i"
| "locked_file (Became i) = Some i"
| "locked_file (Serving i) = Some i"
| "locked_file _ = None"

definition hs_inv :: "hs_world \<Rightarrow> bool" where
  "hs_inv w \<longleftrightarrow>
     (\<forall>p. open_file (w_state w p) = None \<or> open_file (w_state w p) = w_lock_path w)
     \<and> (\<forall>p i. locked_file (w_state w p) = Some i \<longrightarrow> w_owner w i = Some p)
     \<and> (\<forall>p. w_state w p \<notin> {Lock_Closed, Lock_Removed, Socket_Removed})"

lemma locked_is_open: "locked_file s = Some i \<Longrightarrow> open_file s = Some i"
  by (cases s) auto

lemma hs_inv_init: "hs_inv hs_init"
  by (simp add: hs_inv_def hs_init_def)

lemma release_owner_simps [simp]:
  "w_state (release_owner p w) = w_state w" "w_lock_path (release_owner p w) = w_lock_path w"
  "w_socket (release_owner p w) = w_socket w"
  "w_owner (release_owner p w) i = (if w_owner w i = Some p then None else w_owner w i)"
  by (simp_all add: release_owner_def)

lemma goto_simps [simp]:
  "w_state (goto p s w) = (w_state w)(p := s)" "w_lock_path (goto p s w) = w_lock_path w"
  "w_socket (goto p s w) = w_socket w" "w_owner (goto p s w) = w_owner w"
  by (simp_all add: goto_def)

lemma hs_inv_step:
  assumes "hs_inv w" "hs_step w (p, a) w'" "a \<noteq> Close_Lock"
  shows "hs_inv w'"
proof -
  from assms(2) have ex: "hs_exec p a w = Some w'" by (rule hs_stepE)
  note inv = assms(1) [unfolded hs_inv_def]
  show ?thesis
  proof (cases a)
    case Try_Lock
    then obtain i where i: "w_state w p = Opened i" using ex by (auto split: hs_state.splits)
    with inv have "w_lock_path w = Some i" by (metis open_file.simps(1) option.distinct(1))
    with i Try_Lock ex inv show ?thesis
      by (auto simp: hs_inv_def split: if_splits)
  next
    case Probe_Again
    then obtain i where i: "w_state w p = Holding i" using ex by (auto split: hs_state.splits)
    with inv have "w_lock_path w = Some i" "w_owner w i = Some p"
      by (metis open_file.simps(2,3) option.distinct(1), metis locked_file.simps(1,2))
    with i Probe_Again ex inv show ?thesis
      by (auto simp: hs_inv_def split: if_splits)
  next
    case Bind
    then obtain i where i: "w_state w p = Became i" using ex by (auto split: hs_state.splits)
    with inv have "w_lock_path w = Some i" "w_owner w i = Some p"
      by (metis open_file.simps(2,3) option.distinct(1), metis locked_file.simps(1,2))
    with i Bind ex inv show ?thesis by (auto simp: hs_inv_def split: if_splits)
  qed (use ex inv assms(3) in \<open>auto simp: hs_inv_def split: if_splits option.splits\<close>)
qed

lemma hs_reach_inv:
  assumes "hs_reach tr w" "\<forall>p. (p, Close_Lock) \<notin> set tr"
  shows "hs_inv w"
  using assms
proof (induction rule: hs_reach.induct)
  case (step tr w pa w')
  obtain p a where "pa = (p, a)" by fastforce
  with step hs_inv_step [of w p a w'] show ?case by auto
qed (rule hs_inv_init)

text \<open>C20. As long as no daemon tears down (processes may crash anywhere, at any time), at most one
  process is a daemon: the lock is on the one file that the path ever names.\<close>

theorem one_daemon:
  assumes "hs_reach tr w" "\<forall>p. (p, Close_Lock) \<notin> set tr" "is_daemon w p" "is_daemon w q"
  shows "p = q"
proof -
  from hs_reach_inv [OF assms(1,2)] have inv: "hs_inv w" .
  from assms(3,4) obtain i j where ij: "locked_file (w_state w p) = Some i" "locked_file (w_state w q) = Some j"
    by (auto simp: is_daemon_def split: hs_state.splits)
  from this [THEN locked_is_open] inv have "Some i = w_lock_path w" "Some j = w_lock_path w"
    unfolding hs_inv_def by (metis option.distinct(1))+
  then have "i = j" by (metis option.inject)
  with ij inv have "w_owner w i = Some p" "w_owner w i = Some q" unfolding hs_inv_def by blast+
  then show ?thesis by simp
qed

definition ex_crash_trace :: "(pid \<times> hs_action) list" where
  "ex_crash_trace =
     [(1, Probe), (2, Probe), (1, Open_Lock), (2, Open_Lock), (1, Try_Lock), (1, Probe_Again), (1, Bind),
      (1, Crash), (2, Try_Lock), (2, Probe_Again), (3, Probe), (3, Open_Lock), (3, Try_Lock)]"

lemma ex_crash_run: "\<exists>w. hs_run ex_crash_trace hs_init = Some w \<and> is_daemon w 2"
  by (simp add: ex_crash_trace_def hs_init_def is_daemon_running_def goto_def release_owner_def is_daemon_def)

theorem one_daemon_witness:
  "\<exists>w. hs_reach ex_crash_trace w \<and> is_daemon w 2 \<and> \<not> is_daemon w 3"
proof -
  from ex_crash_run obtain w where w: "hs_run ex_crash_trace hs_init = Some w" "is_daemon w 2" by blast
  from hs_run_reach [OF hs_reach.start w(1)] have r: "hs_reach ex_crash_trace w" by simp
  have "\<forall>p. (p, Close_Lock) \<notin> set ex_crash_trace" by (simp add: ex_crash_trace_def)
  from one_daemon [OF r this w(2), of 3] r w(2) show ?thesis by auto
qed

section \<open>Teardown\<close>

text \<open>A teardown breaks the guard. A process that opened the lock file before the daemon closed it
  locks a file that the daemon then unlinks; the next process creates and locks another file; both are
  told to become the daemon.\<close>

theorem teardown_admits_two_daemons:
  "\<exists>tr w. hs_reach tr w \<and> is_daemon w 2 \<and> is_daemon w 3"
proof -
  let ?tr = "[(1, Probe), (2, Probe), (1, Open_Lock), (2, Open_Lock), (1, Try_Lock), (1, Probe_Again),
    (1, Bind), (1, Close_Lock), (2, Try_Lock), (1, Remove_Lock), (1, Remove_Socket), (2, Probe_Again),
    (3, Probe), (3, Open_Lock), (3, Try_Lock), (3, Probe_Again)]"
  have "\<exists>w. hs_run ?tr hs_init = Some w \<and> is_daemon w 2 \<and> is_daemon w 3"
    by (simp add: hs_init_def is_daemon_running_def goto_def release_owner_def is_daemon_def)
  then show ?thesis using hs_run_reach [OF hs_reach.start] by fastforce
qed

text \<open>Teardown lets a successor in before the final flush: a process that starts after the socket is
  removed becomes the daemon and loads the stores without what the first daemon is about to write.\<close>

theorem successor_loads_before_flush:
  "\<exists>tr w. hs_reach tr w \<and> is_daemon w 2 \<and> 1 \<in> set (w_flushed w) \<and> (2, []) \<in> set (w_loaded w)"
proof -
  let ?tr = "[(1, Probe), (1, Open_Lock), (1, Try_Lock), (1, Probe_Again), (1, Bind), (1, Close_Lock),
    (1, Remove_Lock), (1, Remove_Socket), (2, Probe), (2, Open_Lock), (2, Try_Lock), (2, Probe_Again),
    (1, Flush_And_Exit)]"
  have "\<exists>w. hs_run ?tr hs_init = Some w \<and> is_daemon w 2 \<and> 1 \<in> set (w_flushed w) \<and> (2, []) \<in> set (w_loaded w)"
    by (simp add: hs_init_def is_daemon_running_def goto_def release_owner_def is_daemon_def)
  then show ?thesis using hs_run_reach [OF hs_reach.start] by fastforce
qed

end
