(* ===== verification/Protocol.thy ===== *)
theory Protocol
  imports Sched Report
begin

text \<open>
  The daemon's contract (\<^verbatim>\<open>filigrio-protocol/src/contract.rs\<close>, \<^verbatim>\<open>query_types.rs\<close>) and its framing
  (\<^verbatim>\<open>socket.rs\<close>, \<^verbatim>\<open>client.rs\<close>, the daemon's \<^verbatim>\<open>socket.rs\<close>). The third-party JSON codec is a parameter;
  the JSON object of a query's answer is the datatype \<open>payload\<close>, one constructor per answer with the
  object's fields in order. A connection is what arrives on it, a list of bytes.
\<close>

section \<open>Requests\<close>

record node_address =
  na_id :: "string option"
  na_label :: "string option"
  na_src :: "string option"

definition by_id :: "string \<Rightarrow> node_address" where
  "by_id i = \<lparr>na_id = Some i, na_label = None, na_src = None\<rparr>"

definition by_label :: "string \<Rightarrow> node_address" where
  "by_label l = \<lparr>na_id = None, na_label = Some l, na_src = None\<rparr>"

definition by_label_src :: "string \<Rightarrow> string \<Rightarrow> node_address" where
  "by_label_src l s = \<lparr>na_id = None, na_label = Some l, na_src = Some s\<rparr>"

definition address_is_ambiguous :: "node_address \<Rightarrow> bool" where
  "address_is_ambiguous a \<longleftrightarrow> na_id a = None \<and> na_label a \<noteq> None"

definition address_parse :: "string \<Rightarrow> node_address" where
  "address_parse s = (if CHR '':'' \<in> set s then by_id s else by_label s)"

definition with_src :: "string option \<Rightarrow> node_address \<Rightarrow> node_address" where
  "with_src s a = (if na_label a \<noteq> None then a\<lparr>na_src := s\<rparr> else a)"

record query_params =
  qp_query :: string
  qp_mode :: traversal_mode
  qp_depth :: "8 word"
  qp_budget :: nat
  qp_token_budget :: nat
  qp_relations :: "string list"
  qp_include_unresolved :: bool

datatype command =
    Submit string change_set lane
  | ProjectRegister string
  | ProjectRemove string
  | ProjectIndex string bool
  | ProjectWatch string bool
  | ProjectExport string
  | ProjectFlush string
  | DaemonStop

datatype meta_query = Health | Progress string

datatype control_op = Command command | Meta meta_query

datatype data_query =
    DQ_Status "string option"
  | DQ_Query string query_params
  | DQ_Neighbors string node_address direction "string list" bool
  | DQ_GodNodes string nat
  | DQ_Path string node_address node_address "8 word"
  | DQ_GetNode string node_address
  | DQ_GraphStats string
  | DQ_ProjectGraph string
  | DQ_Community string u64
  | DQ_ListCommunities string nat
  | DQ_GraphReport string nat

datatype request = Control control_op | Data data_query

section \<open>Responses\<close>

datatype command_outcome =
    Indexed string nat nat
  | OApplied string nat nat
  | Exported string string
  | Flushed string bool
  | Watch string bool "nat option" "nat option" "string option"
  | Registered string string
  | Removed string
  | Stopping

record health_status =
  he_uptime_secs :: nat
  he_project_count :: nat
  he_queue_depth :: nat
  he_applies_inflight :: nat
  he_applies_deferred :: nat
  he_memory_bytes :: nat
  he_last_activity :: string

record project_status =
  st_project :: string
  st_has_drift :: bool
  st_last_revision :: "string option"
  st_file_count :: nat
  st_node_count :: nat
  st_watching :: bool
  st_dirty :: bool
  st_dirty_for_secs :: "nat option"
  st_last_persisted_secs_ago :: "nat option"

record community_row =
  cr_id :: community_id
  cr_label :: string
  cr_size :: nat
  cr_cohesion_permille :: u16

datatype payload =
    P_Health health_status
  | P_Status project_status
  | P_Cold_Status string nat nat nat "string option"
  | P_Node node
  | P_Neighbors string direction "(edge \<times> node) list" "(edge \<times> node) list" nat
  | P_Query string "node list" "edge list" "(node_id, string) btree"
  | P_God_Nodes string nat "(node \<times> nat) list"
  | P_Path string string "8 word" "node list" nat
  | P_No_Path string string "8 word"
  | P_Community u64 "string option" "u16 option" "node list"
  | P_Communities string nat nat "community_row list"
  | P_Report string
  | P_Stats string graph_stats nat "string option"
  | P_Project_Graph "project_node list"

datatype response =
    CommandCompleted command_outcome
  | QueryResult payload
  | Error_Response string

section \<open>Framing\<close>

definition MAX_FRAME :: nat where
  "MAX_FRAME = 10 * 1024 * 1024"

datatype protocol_error = PSocket string | PSerialization string | PIo string

fun show_protocol_error :: "protocol_error \<Rightarrow> string" where
  "show_protocol_error (PSocket m) = ''socket error: '' @ m"
| "show_protocol_error (PSerialization m) = ''serialization error: '' @ m"
| "show_protocol_error (PIo m) = ''I/O error: '' @ m"

record 'a codec =
  c_to_vec :: "'a \<Rightarrow> string + bytes"
  c_from_slice :: "bytes \<Rightarrow> string + 'a"

text \<open>\<^verbatim>\<open>(n as u32).to_be_bytes()\<close> and \<^verbatim>\<open>u32::from_be_bytes\<close>.\<close>

definition to_be_bytes :: "u32 \<Rightarrow> bytes" where
  "to_be_bytes w =
     map (\<lambda>k. char_of (unat (drop_bit (8 * k) w) mod 256)) [3, 2, 1, 0]"

definition from_be_bytes :: "bytes \<Rightarrow> u32" where
  "from_be_bytes b = foldl (\<lambda>w c. push_bit 8 w + of_nat (of_char c)) 0 b"

definition frame :: "'a codec \<Rightarrow> 'a \<Rightarrow> protocol_error + bytes" where
  "frame codec msg =
     (case c_to_vec codec msg of
        Inl e \<Rightarrow> Inl (PSerialization (''serialize failed: '' @ e))
      | Inr body \<Rightarrow> Inr (to_be_bytes (of_nat (length body)) @ body))"

text \<open>\<^verbatim>\<open>read_exact\<close> on what arrives before the peer closes or the timeout strikes.\<close>

definition read_exact :: "nat \<Rightarrow> bytes \<Rightarrow> (bytes \<times> bytes) option" where
  "read_exact n s = (if length s < n then None else Some (take n s, drop n s))"

text \<open>The server's side of a connection: \<^verbatim>\<open>handle_connection\<close> up to the handler, and the daemon's
  \<^verbatim>\<open>read_request\<close>, which reads the same way. \<open>io\<close> is the text of the failure of a short read.\<close>

definition read_request :: "string \<Rightarrow> 'a codec \<Rightarrow> bytes \<Rightarrow> protocol_error + 'a" where
  "read_request io codec s =
     (case read_exact 4 s of
        None \<Rightarrow> Inl (PSocket (''read length failed: '' @ io))
      | Some (len_bytes, s) \<Rightarrow>
          (let len = unat (from_be_bytes len_bytes)
           in if len > MAX_FRAME
              then Inl (PSocket (''request too large: '' @ show_nat len @ '' bytes''))
              else
                (case read_exact len s of
                   None \<Rightarrow> Inl (PSocket (''read request failed: '' @ io))
                 | Some (body, _) \<Rightarrow>
                     (case c_from_slice codec body of
                        Inl e \<Rightarrow> Inl (PSerialization (''deserialize failed: '' @ e))
                      | Inr request \<Rightarrow> Inr request))))"

definition handle_connection ::
  "string \<Rightarrow> 'q codec \<Rightarrow> response codec \<Rightarrow> ('q \<Rightarrow> protocol_error + response) \<Rightarrow> bytes \<Rightarrow>
     protocol_error + bytes"
where
  "handle_connection io requests responses handler s =
     (case read_request io requests s of
        Inl err \<Rightarrow> Inl err
      | Inr request \<Rightarrow>
          frame responses
            (case handler request of
               Inr r \<Rightarrow> r
             | Inl err \<Rightarrow> Error_Response (show_protocol_error err)))"

text \<open>The client: what \<open>send\<close> writes, and how it reads the answer; it does not bound the length.\<close>

definition client_write :: "'q codec \<Rightarrow> 'q \<Rightarrow> protocol_error + bytes" where
  "client_write requests request =
     (case c_to_vec requests request of
        Inl e \<Rightarrow> Inl (PSerialization e)
      | Inr body \<Rightarrow> Inr (to_be_bytes (of_nat (length body)) @ body))"

definition client_read :: "string \<Rightarrow> 'r codec \<Rightarrow> bytes \<Rightarrow> protocol_error + 'r" where
  "client_read io responses s =
     (case read_exact 4 s of
        None \<Rightarrow> Inl (PSocket (''read failed: '' @ io))
      | Some (len_bytes, s) \<Rightarrow>
          (case read_exact (unat (from_be_bytes len_bytes)) s of
             None \<Rightarrow> Inl (PSocket (''read failed: '' @ io))
           | Some (body, _) \<Rightarrow>
               (case c_from_slice responses body of
                  Inl e \<Rightarrow> Inl (PSerialization e)
                | Inr r \<Rightarrow> Inr r)))"

definition client_send ::
  "string \<Rightarrow> 'q codec \<Rightarrow> response codec \<Rightarrow> (bytes \<Rightarrow> bytes) \<Rightarrow> 'q \<Rightarrow> protocol_error + response"
where
  "client_send io requests responses server request =
     (case client_write requests request of
        Inl err \<Rightarrow> Inl err
      | Inr out \<Rightarrow> client_read io responses (server out))"

definition outcome_of :: "response \<Rightarrow> protocol_error + command_outcome" where
  "outcome_of r =
     (case r of
        CommandCompleted oc \<Rightarrow> Inr oc
      | Error_Response m \<Rightarrow> Inl (PSocket m)
      | QueryResult _ \<Rightarrow> Inl (PSocket ''unexpected response''))"

definition query_result :: "response \<Rightarrow> protocol_error + payload" where
  "query_result r =
     (case r of
        QueryResult p \<Rightarrow> Inr p
      | Error_Response m \<Rightarrow> Inl (PSocket m)
      | CommandCompleted _ \<Rightarrow> Inl (PSocket ''unexpected response''))"

text \<open>\<^verbatim>\<open>timeout_for\<close>: mutations wait for the work, in seconds.\<close>

definition timeout_for :: "nat \<Rightarrow> nat \<Rightarrow> request \<Rightarrow> nat" where
  "timeout_for timeout command_timeout r =
     (case r of Control (Command _) \<Rightarrow> command_timeout | _ \<Rightarrow> timeout)"

definition socket_path_under :: "string option \<Rightarrow> string" where
  "socket_path_under runtime_dir =
     (case runtime_dir of
        Some dir \<Rightarrow> if dir \<noteq> [] then join_path dir ''filigrio-daemon.sock'' else ''/tmp/filigrio-daemon.sock''
      | None \<Rightarrow> ''/tmp/filigrio-daemon.sock'')"

section \<open>Properties\<close>

lemma to_be_bytes_length [simp]: "length (to_be_bytes w) = 4"
  by (simp add: to_be_bytes_def)

lemma be_value:
  fixes n :: nat
  assumes "n < 2 ^ 32"
  shows "((n div 2 ^ 24 mod 256 * 256 + n div 2 ^ 16 mod 256) * 256 + n div 2 ^ 8 mod 256) * 256 + n mod 256 = n"
proof -
  have top: "n div 2 ^ 24 mod 256 = n div 2 ^ 24"
    using assms by (intro mod_less) (simp add: less_mult_imp_div_less)
  have step: "m div 256 * 256 + m mod 256 = m" for m :: nat by (rule div_mult_mod_eq)
  have "n div 2 ^ 24 = n div 2 ^ 16 div 256" "n div 2 ^ 16 = n div 2 ^ 8 div 256" "n div 2 ^ 8 = n div 256"
    by (simp_all flip: div_mult2_eq)
  then show ?thesis using top step by metis
qed

lemma from_to_be_bytes: "from_be_bytes (to_be_bytes w) = w"
proof -
  have byte: "of_nat (of_char (char_of (unat (drop_bit k w) mod 256) :: char)) =
      (of_nat (unat w div 2 ^ k mod 256) :: u32)" for k
  proof -
    have "unat (drop_bit k w) = unat w div 2 ^ k" by (subst unat_drop_bit_eq) (rule drop_bit_eq_div)
    then show ?thesis by simp
  qed
  have "from_be_bytes (to_be_bytes w) =
      of_nat (((unat w div 2 ^ 24 mod 256 * 256 + unat w div 2 ^ 16 mod 256) * 256
        + unat w div 2 ^ 8 mod 256) * 256 + unat w mod 256)"
    using byte [of 24] byte [of 16] byte [of 8] byte [of 0]
    by (simp add: from_be_bytes_def to_be_bytes_def push_bit_eq_mult)
  also have "\<dots> = of_nat (unat w)"
  proof -
    have "unat w < 2 ^ LENGTH(32)" by (rule unsigned_less)
    then have "unat w < 2 ^ 32" by simp
    then show ?thesis by (simp only: be_value)
  qed
  finally show ?thesis by simp
qed

text \<open>What a reader makes of a frame: the body is cut off at its length, whatever follows.\<close>

lemma read_frame_body:
  assumes "length body < 2 ^ 32"
  shows "read_exact 4 (to_be_bytes (of_nat (length body)) @ body @ rest) =
           Some (to_be_bytes (of_nat (length body)), body @ rest)"
    and "unat (from_be_bytes (to_be_bytes (of_nat (length body) :: u32))) = length body"
    and "read_exact (length body) (body @ rest) = Some (body, rest)"
proof -
  show "unat (from_be_bytes (to_be_bytes (of_nat (length body) :: u32))) = length body"
    using assms by (simp add: from_to_be_bytes unat_of_nat)
qed (simp_all add: read_exact_def)

lemma frame_Inr:
  "frame c m = Inr out \<longleftrightarrow>
     (\<exists>body. c_to_vec c m = Inr body \<and> out = to_be_bytes (of_nat (length body)) @ body)"
  by (auto simp: frame_def split: sum.split)

lemma read_request_frame:
  assumes "c_to_vec c m = Inr body" "length body \<le> MAX_FRAME"
  shows "read_request io c (to_be_bytes (of_nat (length body)) @ body @ rest) =
     (case c_from_slice c body of
        Inl e \<Rightarrow> Inl (PSerialization (''deserialize failed: '' @ e)) | Inr m' \<Rightarrow> Inr m')"
proof -
  have "length body < 2 ^ 32" using assms(2) by (simp add: MAX_FRAME_def)
  from read_frame_body(1) [OF this, of rest] read_frame_body(2) [OF this] read_frame_body(3) [OF this, of rest] assms(2) show ?thesis by (simp add: read_request_def Let_def)
qed

lemma client_read_frame:
  assumes "length body < 2 ^ 32"
  shows "client_read io c (to_be_bytes (of_nat (length body)) @ body @ rest) =
     (case c_from_slice c body of Inl e \<Rightarrow> Inl (PSerialization e) | Inr r \<Rightarrow> Inr r)"
  using read_frame_body(1) [OF assms, of rest] read_frame_body(2) [OF assms] read_frame_body(3) [OF assms, of rest]
  by (simp add: client_read_def)

text \<open>C21. A request within the frame limit reaches the handler and the handler's response, or its error
  as an error response, reaches the client, for codecs that decode what they encode; whatever else is
  on the connection.\<close>

theorem send_roundtrip:
  assumes "c_to_vec requests q = Inr body" "length body \<le> MAX_FRAME" "c_from_slice requests body = Inr q"
    and "r = (case handler q of Inr r \<Rightarrow> r | Inl err \<Rightarrow> Error_Response (show_protocol_error err))"
    and "c_to_vec responses r = Inr answer" "length answer < 2 ^ 32" "c_from_slice responses answer = Inr r"
  shows "client_send io requests responses
     (\<lambda>s. case handle_connection io requests responses handler (s @ junk) of
            Inr out \<Rightarrow> out @ after | Inl _ \<Rightarrow> []) q = Inr r"
  using read_request_frame [OF assms(1,2), of io junk] client_read_frame [OF assms(6), of io responses after] assms(1,3-5,7)
  by (simp add: client_send_def client_write_def handle_connection_def frame_def)

text \<open>A frame that is cut short anywhere is a read error and never a request, so a handler only
  sees whole requests.\<close>

theorem truncated_frame_rejected:
  assumes "frame c m = Inr out" "k < length out" "length out \<le> 4 + MAX_FRAME"
  shows "\<exists>e. read_request io c (take k out) = Inl (PSocket e)"
proof -
  from assms(1) obtain body where
    out: "out = to_be_bytes (of_nat (length body)) @ body" by (auto simp: frame_Inr)
  show ?thesis
  proof (cases "k < 4")
    case True
    then have "length (take k out) < 4" by simp
    then show ?thesis by (simp add: read_request_def read_exact_def del: length_take)
  next
    case False
    have small: "length body \<le> MAX_FRAME" using assms(3) out by simp
    then have "length body < 2 ^ 32" by (simp add: MAX_FRAME_def)
    note body = read_frame_body [OF this]
    obtain part where "take k out = to_be_bytes (of_nat (length body)) @ part" "length part < length body"
    proof
      show "take k out = to_be_bytes (of_nat (length body)) @ take (k - 4) body"
        using False by (simp add: out)
      show "length (take (k - 4) body) < length body" using False assms(2) out by auto
    qed
    then show ?thesis using body(2) small
      by (simp add: read_request_def read_exact_def Let_def)
  qed
qed


section \<open>Examples\<close>

definition text_codec :: "string codec" where
  "text_codec = \<lparr>c_to_vec = Inr, c_from_slice = Inr\<rparr>"

definition stop_codec :: "response codec" where
  "stop_codec =
     \<lparr>c_to_vec = (\<lambda>r. case r of CommandCompleted Stopping \<Rightarrow> Inr ''stopping'' | Error_Response m \<Rightarrow> Inr (CHR ''!'' # m)
                   | _ \<Rightarrow> Inl ''not here''),
      c_from_slice = (\<lambda>b. if b = ''stopping'' then Inr (CommandCompleted Stopping)
                       else if b \<noteq> [] \<and> hd b = CHR ''!'' then Inr (Error_Response (tl b)) else Inl ''eof'')\<rparr>"

theorem send_roundtrip_witness:
  "client_send ''eof'' text_codec stop_codec
     (\<lambda>s. case handle_connection ''eof'' text_codec stop_codec (\<lambda>_. Inr (CommandCompleted Stopping)) (s @ ''x'') of
            Inr out \<Rightarrow> out @ ''y'' | Inl _ \<Rightarrow> []) ''stop'' = Inr (CommandCompleted Stopping)"
proof (rule send_roundtrip)
  show "c_to_vec text_codec ''stop'' = Inr ''stop''" "c_from_slice text_codec ''stop'' = Inr ''stop''"
    by (simp_all add: text_codec_def)
  show "length ''stop'' \<le> MAX_FRAME" by (rule le_trans [of _ 4]) (simp_all add: MAX_FRAME_def)
  show "length ''stopping'' < 2 ^ 32" by (rule le_less_trans [of _ 8]) simp_all
  show "c_to_vec stop_codec (CommandCompleted Stopping) = Inr ''stopping''"
    "c_from_slice stop_codec ''stopping'' = Inr (CommandCompleted Stopping)"
    by (simp_all add: stop_codec_def)
qed simp

theorem truncated_frame_rejected_witness:
  "\<exists>e. read_request ''eof'' text_codec (take 6 (to_be_bytes 4 @ ''stop'')) = Inl (PSocket e)"
  by (rule truncated_frame_rejected [of text_codec "''stop''"])
    (simp_all add: text_codec_def frame_def MAX_FRAME_def)

definition long_body :: bytes where
  "long_body = replicate (Suc MAX_FRAME) (CHR ''x'')"


end
