(* ===== verification/Responder.thy ===== *)
theory Responder
  imports Protocol Apply
begin

text \<open>
  The read side of the daemon: the responder (\<^verbatim>\<open>filigrio-daemon/src/responder.rs\<close>) over a state source,
  and the two sources (\<^verbatim>\<open>state_source.rs\<close>), the resident one over the registry and the flusher and the
  cold one over the directories. A source is the record of its methods on a world \<open>'w\<close> that a read may
  change, as a resident read touches and fills the cache. The petgraph walks, the floating-point scores
  and the formatting of a cohesion are the parameters that the query kernel has.
\<close>

section \<open>The responder\<close>

record 'w state_source =
  ss_has_project :: "'w \<Rightarrow> string \<Rightarrow> bool"
  ss_known :: "'w \<Rightarrow> string list"
  ss_state :: "string \<Rightarrow> 'w \<Rightarrow> (daemon_error + graph_state) \<times> 'w"
  ss_view :: "string \<Rightarrow> 'w \<Rightarrow> (daemon_error + graph_view) \<times> 'w"

definition unregistered_project_error :: "('w, 'b) state_source_scheme \<Rightarrow> 'w \<Rightarrow> string \<Rightarrow> response" where
  "unregistered_project_error src w project =
     Error_Response (unregistered_project_message project (ss_known src w))"

definition project_view ::
  "('w, 'b) state_source_scheme \<Rightarrow> string \<Rightarrow> 'w \<Rightarrow> (response + graph_view) \<times> 'w"
where
  "project_view src project w =
     (if \<not> ss_has_project src w project then (Inl (unregistered_project_error src w project), w)
      else
        (case ss_view src project w of
           (Inr v, w) \<Rightarrow> (Inr v, w)
         | (Inl err, w) \<Rightarrow>
             (Inl (Error_Response
                (case err of
                   ProjectNotIndexed _ \<Rightarrow> show_daemon_error err
                 | _ \<Rightarrow> ''failed to load state for '' @ project @ '': '' @ show_daemon_error err)), w)))"

definition with_view ::
  "('w, 'b) state_source_scheme \<Rightarrow> string \<Rightarrow> (graph_view \<Rightarrow> response) \<Rightarrow> 'w \<Rightarrow> response \<times> 'w"
where
  "with_view src project answer w =
     (case project_view src project w of
        (Inl response, w) \<Rightarrow> (response, w)
      | (Inr v, w) \<Rightarrow> (answer v, w))"

definition format_candidate :: "node \<Rightarrow> string" where
  "format_candidate n =
     CHR 0x0A # ''  - '' @ n_label n @ '' [type='' @ n_kind n @ '', src=''
     @ (case n_file n of None \<Rightarrow> ''unknown'' | Some f \<Rightarrow> f) @ '', id='' @ the_id (n_id n) @ '']''"

definition format_ambiguous_label_response :: "string \<Rightarrow> node list \<Rightarrow> string" where
  "format_ambiguous_label_response label candidates =
     show_nat (length candidates) @ '' nodes named '' @ [CHR 0x27] @ label @ [CHR 0x27] @ '' ''
     @ em_dash @ '' use id or src to disambiguate:'' @ concat (map format_candidate candidates)"

definition resolve_node_address :: "graph_view \<Rightarrow> node_address \<Rightarrow> response + node" where
  "resolve_node_address v a =
     (case na_id a of
        Some i \<Rightarrow>
          (case view_node_by_id v i of
             Some n \<Rightarrow> Inr n
           | None \<Rightarrow> Inl (Error_Response (''node not found by id: '' @ i)))
      | None \<Rightarrow>
          (case na_label a of
             None \<Rightarrow> Inl (Error_Response ''node address must specify either id or label'')
           | Some label \<Rightarrow>
               (let candidates =
                      (case na_src a of
                         Some src \<Rightarrow> filter (\<lambda>n. n_file n = Some src) (nodes_by_label v label)
                       | None \<Rightarrow> nodes_by_label v label)
                in case candidates of
                     [] \<Rightarrow>
                       Inl (Error_Response
                         (case na_src a of
                            Some src \<Rightarrow> ''no node named '' @ [CHR 0x27] @ label @ [CHR 0x27] @ '' found in '' @ src
                          | None \<Rightarrow> ''no nodes found with label: '' @ label))
                   | [n] \<Rightarrow> Inr n
                   | _ \<Rightarrow> Inl (Error_Response (format_ambiguous_label_response label candidates)))))"

definition create_stub_node_for_unresolved :: "edge \<Rightarrow> node" where
  "create_stub_node_for_unresolved e =
     (let name = (case e_target e of Symbol r \<Rightarrow> t_name r | Node i \<Rightarrow> the_id i)
      in node_new (''unresolved-'' @ name) (''unresolved: '' @ name) ''unresolved'')"

definition unresolved_edges ::
  "graph_view \<Rightarrow> node \<Rightarrow> string list \<Rightarrow> direction \<Rightarrow> (edge \<times> node) list"
where
  "unresolved_edges v n relation_filter direction =
     (let keeps = (\<lambda>relation. list_ex (\<lambda>entry. relation_matches_filter entry relation) relation_filter)
      in (if direction = Out \<or> direction = Both
          then map (\<lambda>e. (e, create_stub_node_for_unresolved e))
                 (filter (\<lambda>e. keeps (e_relation e)) (unresolved_out_by_id v (the_id (n_id n))))
          else [])
         @ (if direction = In \<or> direction = Both
            then filter (\<lambda>(e, _). keeps (e_relation e)) (unresolved_in_by_label v (n_label n))
            else []))"

definition handle_get_node :: "node_address \<Rightarrow> graph_view \<Rightarrow> response" where
  "handle_get_node a v =
     (case resolve_node_address v a of Inl response \<Rightarrow> response | Inr n \<Rightarrow> QueryResult (P_Node n))"

definition handle_get_neighbors ::
  "petgraph \<Rightarrow> node_address \<Rightarrow> direction \<Rightarrow> string list \<Rightarrow> bool \<Rightarrow> graph_view \<Rightarrow> response"
where
  "handle_get_neighbors pg a direction relations include_unresolved v =
     (case resolve_node_address v a of
        Inl response \<Rightarrow> response
      | Inr n \<Rightarrow>
          (let relation_filter = filter_normalize relations;
               unresolved = unresolved_edges v n relation_filter direction
           in QueryResult
                (P_Neighbors (the_id (n_id n)) direction
                   (neighbors_by_id pg v (the_id (n_id n)) relation_filter direction)
                   (if include_unresolved then unresolved else []) (length unresolved))))"

definition query_opts_of :: "query_params \<Rightarrow> query_opts" where
  "query_opts_of p =
     \<lparr>q_depth = unat (qp_depth p), q_budget = qp_budget p, q_mode = qp_mode p,
      q_filter = Some (filter_normalize (qp_relations p))\<rparr>"

definition handle_query_graph ::
  "('f, 'b) score_ops_scheme \<Rightarrow> petgraph \<Rightarrow> query_params \<Rightarrow> graph_view \<Rightarrow> response"
where
  "handle_query_graph ops pg p v =
     (let g = query ops pg v (qp_query p) (query_opts_of p)
      in QueryResult (P_Query (qp_query p) (sg_nodes g) (sg_edges g) (sg_communities g)))"

definition handle_god_nodes :: "petgraph \<Rightarrow> string \<Rightarrow> nat \<Rightarrow> graph_view \<Rightarrow> response" where
  "handle_god_nodes pg project limit v = QueryResult (P_God_Nodes project limit (god_nodes pg v limit))"

definition handle_path ::
  "petgraph \<Rightarrow> node_address \<Rightarrow> node_address \<Rightarrow> 8 word \<Rightarrow> graph_view \<Rightarrow> response"
where
  "handle_path pg a b max_hops v =
     (case resolve_node_address v a of
        Inl response \<Rightarrow> response
      | Inr x \<Rightarrow>
          (case resolve_node_address v b of
             Inl response \<Rightarrow> response
           | Inr y \<Rightarrow>
               (case shortest_path pg v (the_id (n_id x)) (the_id (n_id y)) (unat max_hops) of
                  Some path \<Rightarrow>
                    QueryResult (P_Path (the_id (n_id x)) (the_id (n_id y)) max_hops path (length path - 1))
                | None \<Rightarrow> QueryResult (P_No_Path (the_id (n_id x)) (the_id (n_id y)) max_hops))))"

definition handle_community :: "u64 \<Rightarrow> graph_view \<Rightarrow> response" where
  "handle_community i v =
     (let members = community v i
      in QueryResult
           (P_Community i
              (case members of [] \<Rightarrow> None | n # _ \<Rightarrow> bt_get (n_attrs n) ''community'')
              (map_option cm_cohesion_permille (view_community_meta v i)) members))"

definition handle_list_communities :: "string \<Rightarrow> nat \<Rightarrow> graph_view \<Rightarrow> response" where
  "handle_list_communities project limit v =
     (let summaries =
            sort_by (\<lambda>a b. then_with (cmp (su_size b) (su_size a)) (cmp (su_id a) (su_id b)))
              (community_summaries v)
      in QueryResult
           (P_Communities project (length summaries) limit
              (map (\<lambda>c. \<lparr>cr_id = su_id c, cr_label = su_label c, cr_size = su_size c,
                          cr_cohesion_permille = su_cohesion_permille c\<rparr>)
                 (take limit summaries))))"

definition handle_graph_report :: "(u16 \<Rightarrow> string) \<Rightarrow> petgraph \<Rightarrow> nat \<Rightarrow> graph_view \<Rightarrow> response" where
  "handle_graph_report fmt2 pg top_gods v =
     QueryResult (P_Report (render_markdown fmt2 (view_report pg v top_gods)))"

definition handle_graph_stats :: "string \<Rightarrow> graph_view \<Rightarrow> response" where
  "handle_graph_stats project v =
     QueryResult (P_Stats project (stats v) (length (s_manifest (v_state v)))
       (map_option the_rev (latest_revision (s_manifest (v_state v)))))"

definition handle_project_graph :: "graph_view \<Rightarrow> response" where
  "handle_project_graph v = QueryResult (P_Project_Graph (project_graph v))"

definition handle_project_status ::
  "('w, 'b) state_source_scheme \<Rightarrow> string \<Rightarrow> 'w \<Rightarrow> response \<times> 'w"
where
  "handle_project_status src project w =
     (if \<not> ss_has_project src w project then (unregistered_project_error src w project, w)
      else
        (case ss_state src project w of
           (Inl err, w) \<Rightarrow> (Error_Response (''failed to load state: '' @ show_daemon_error err), w)
         | (Inr s, w) \<Rightarrow>
             (QueryResult
                (P_Cold_Status project (length (s_manifest s)) (length (g_nodes (s_graph s)))
                   (length (g_edges (s_graph s)))
                   (map_option the_rev (latest_revision (s_manifest s)))), w)))"

definition handle_query ::
  "('f, 'b) score_ops_scheme \<Rightarrow> petgraph \<Rightarrow> (u16 \<Rightarrow> string) \<Rightarrow> ('w, 'c) state_source_scheme \<Rightarrow>
     data_query \<Rightarrow> 'w \<Rightarrow> response \<times> 'w"
where
  "handle_query ops pg fmt2 src q w =
     (case q of
        DQ_Status (Some project) \<Rightarrow> handle_project_status src project w
      | DQ_Status None \<Rightarrow> (Error_Response ''all-projects Status is not yet implemented'', w)
      | DQ_GetNode project a \<Rightarrow> with_view src project (handle_get_node a) w
      | DQ_Neighbors project a direction relations include_unresolved \<Rightarrow>
          with_view src project (handle_get_neighbors pg a direction relations include_unresolved) w
      | DQ_Query project p \<Rightarrow> with_view src project (handle_query_graph ops pg p) w
      | DQ_GodNodes project limit \<Rightarrow> with_view src project (handle_god_nodes pg project limit) w
      | DQ_Path project a b max_hops \<Rightarrow> with_view src project (handle_path pg a b max_hops) w
      | DQ_GraphStats project \<Rightarrow> with_view src project (handle_graph_stats project) w
      | DQ_ProjectGraph project \<Rightarrow> with_view src project handle_project_graph w
      | DQ_Community project i \<Rightarrow> with_view src project (handle_community i) w
      | DQ_ListCommunities project limit \<Rightarrow> with_view src project (handle_list_communities project limit) w
      | DQ_GraphReport project top_gods \<Rightarrow> with_view src project (handle_graph_report fmt2 pg top_gods) w)"

section \<open>The cold source\<close>

record cold_world =
  cw_base_dir :: string
  cw_disk :: "string \<Rightarrow> fs_store"
  cw_dir_exists :: "string \<Rightarrow> bool"

definition cold_output_dir :: "cold_world \<Rightarrow> string \<Rightarrow> string" where
  "cold_output_dir w project = join_path (join_path (cw_base_dir w) project) ''.filigrio-out''"

definition cold_load_state :: "string \<Rightarrow> cold_world \<Rightarrow> daemon_error + graph_state" where
  "cold_load_state project w =
     (case fs_load (cw_disk w (cold_output_dir w project)) of
        Inl err \<Rightarrow> Inl (Core err)
      | Inr None \<Rightarrow> Inl (DStorage (''no state found for project '' @ project))
      | Inr (Some s) \<Rightarrow> Inr s)"

definition cold_source :: "cold_world state_source" where
  "cold_source =
     \<lparr>ss_has_project = (\<lambda>w project. cw_dir_exists w (cold_output_dir w project)),
      ss_known = (\<lambda>_. []),
      ss_state = (\<lambda>project w. (cold_load_state project w, w)),
      ss_view = (\<lambda>project w. (map_sum id view_new (cold_load_state project w), w))\<rparr>"

section \<open>The resident source\<close>

record warm_world =
  ww_registry :: registry
  ww_flusher :: flusher
  ww_now :: nat

definition registered ::
  "(daemon_project list \<Rightarrow> daemon_project list) \<Rightarrow> registry \<Rightarrow> string \<Rightarrow> daemon_project option"
where
  "registered shuffle r input =
     (case reg_get r input of Some p \<Rightarrow> Some p | None \<Rightarrow> find_by_path shuffle r input)"

definition warm_state_of :: "nat \<Rightarrow> daemon_project \<Rightarrow> flusher \<Rightarrow> (daemon_error + arc) \<times> flusher" where
  "warm_state_of now p fl =
     (case get_arc (fl_cache fl) (dp_id p) of
        (Some a, c) \<Rightarrow> (Inr a, fl\<lparr>fl_cache := c\<rparr>)
      | (None, _) \<Rightarrow>
          if \<not> fs_has_checkpoint (fl_disk fl (dp_output_dir p))
          then (Inl (ProjectNotIndexed (dp_id p)), fl)
          else fl_state_of now p fl)"

definition warm_view_of :: "nat \<Rightarrow> daemon_project \<Rightarrow> flusher \<Rightarrow> (daemon_error + graph_view) \<times> flusher" where
  "warm_view_of now p fl =
     (case cache_view (fl_cache fl) (dp_id p) of
        (Some v, c) \<Rightarrow> (Inr v, fl\<lparr>fl_cache := c\<rparr>)
      | (None, _) \<Rightarrow>
          (case warm_state_of now p fl of
             (Inl err, fl) \<Rightarrow> (Inl err, fl)
           | (Inr a, fl) \<Rightarrow>
               (let v = view_new (deref (fl_cache fl) a)
                in (Inr v, fl\<lparr>fl_cache := snd (install_view (fl_cache fl) (dp_id p) a v)\<rparr>))))"

definition warm_source :: "(daemon_project list \<Rightarrow> daemon_project list) \<Rightarrow> warm_world state_source" where
  "warm_source shuffle =
     \<lparr>ss_has_project = (\<lambda>w input. registered shuffle (ww_registry w) input \<noteq> None),
      ss_known = (\<lambda>w. map dp_id (shuffle (bt_values (ww_registry w)))),
      ss_state = (\<lambda>input w.
        case registered shuffle (ww_registry w) input of
          None \<Rightarrow> (Inl (ProjectNotFound input), w)
        | Some p \<Rightarrow>
            (case warm_state_of (ww_now w) p (ww_flusher w) of
               (Inl err, fl) \<Rightarrow> (Inl err, w\<lparr>ww_flusher := fl\<rparr>)
             | (Inr a, fl) \<Rightarrow> (Inr (deref (fl_cache fl) a), w\<lparr>ww_flusher := fl\<rparr>))),
      ss_view = (\<lambda>input w.
        case registered shuffle (ww_registry w) input of
          None \<Rightarrow> (Inl (ProjectNotFound input), w)
        | Some p \<Rightarrow>
            (case warm_view_of (ww_now w) p (ww_flusher w) of (r, fl) \<Rightarrow> (r, w\<lparr>ww_flusher := fl\<rparr>)))\<rparr>"

end
