(* ===== verification/Responder_Props.thy ===== *)
theory Responder_Props
  imports Responder Flush_Props Query_Props
begin

text \<open>
  What a client may rely on when it reads: an address names a node only when it names exactly one, and
  the answer does not depend on which source serves it. The two sources are two instances of one
  interface (\<open>reading\<close>), whose laws the resident source owes to the refinement of the flusher.
\<close>

section \<open>Addresses\<close>

definition address_names :: "node_address \<Rightarrow> node \<Rightarrow> bool" where
  "address_names a m \<longleftrightarrow>
     (case na_id a of
        Some i \<Rightarrow> n_id m = NodeId i
      | None \<Rightarrow>
          (case na_label a of
             None \<Rightarrow> False
           | Some l \<Rightarrow> n_label m = l \<and> (na_src a = None \<or> n_file m = na_src a)))"

lemma stamp_fields [simp]:
  "n_label (stamp_community v n) = n_label n" "n_file (stamp_community v n) = n_file n"
  "n_kind (stamp_community v n) = n_kind n"
  by (simp_all add: stamp_community_def split: option.split)

lemma filter_single_ex1:
  assumes "distinct xs"
  shows "(\<exists>x. filter P xs = [x]) \<longleftrightarrow> (\<exists>!x. x \<in> set xs \<and> P x)"
proof
  assume "\<exists>x. filter P xs = [x]"
  then obtain x where "filter P xs = [x]" ..
  then have "set (filter P xs) = {x}" by simp
  then have "y \<in> set xs \<and> P y \<longleftrightarrow> y = x" for y by auto
  then show "\<exists>!x. x \<in> set xs \<and> P x" by simp
next
  assume "\<exists>!x. x \<in> set xs \<and> P x"
  then obtain x where "set (filter P xs) = {x}" by auto
  moreover have "distinct (filter P xs)" using assms by simp
  ultimately show "\<exists>x. filter P xs = [x]"
    by (cases "filter P xs" rule: remdups_adj.cases) auto
qed

lemma label_candidates:
  assumes "na_id a = None" "na_label a = Some l"
  shows "(case na_src a of
            Some src \<Rightarrow> filter (\<lambda>n. n_file n = Some src) (nodes_by_label (view_new s) l)
          | None \<Rightarrow> nodes_by_label (view_new s) l) =
         map (stamp_community (view_new s)) (filter (address_names a) (g_nodes (s_graph s)))"
  using assms
  by (auto simp: nodes_by_label_def address_names_def filter_map o_def split: option.split
      intro!: arg_cong [where f = "map _"] filter_cong)

text \<open>C23. An address never guesses: on a graph with distinct ids it resolves exactly when one node and
  no other carries the id, or the label in the file it names, and then to that node.\<close>

theorem address_names_one_node:
  assumes "distinct (map n_id (g_nodes (s_graph s)))"
  shows "((\<exists>n. resolve_node_address (view_new s) a = Inr n)
            \<longleftrightarrow> (\<exists>!m. m \<in> set (g_nodes (s_graph s)) \<and> address_names a m))
    \<and> (\<forall>n. resolve_node_address (view_new s) a = Inr n \<longrightarrow>
          (\<exists>m \<in> set (g_nodes (s_graph s)). address_names a m \<and> n = stamp_community (view_new s) m))"
    (is "?exact \<and> ?named")
proof (cases "na_id a")
  case (Some i)
  let ?ns = "g_nodes (s_graph s)"
  have find: "node_by_id_indexed (view_new s) (NodeId i) = find (\<lambda>n. n_id n = NodeId i) ?ns"
    using index_of_is_scan [OF assms, of "NodeId i"]
    by (simp add: node_by_id_indexed_def node_at_def [abs_def])
  show ?thesis
  proof (cases "find (\<lambda>n. n_id n = NodeId i) ?ns")
    case None
    then have "\<not> (\<exists>m \<in> set ?ns. address_names a m)"
      using Some by (auto simp: find_None_iff address_names_def)
    with None Some find show ?thesis by (auto simp: resolve_node_address_def view_node_by_id_def)
  next
    case (Some m)
    then have m: "m \<in> set ?ns" "n_id m = NodeId i" by (auto simp: find_Some_iff)
    have "x = m" if "x \<in> set ?ns" "n_id x = NodeId i" for x
      using that m assms by (metis distinct_map inj_onD)
    then have "\<exists>!m. m \<in> set ?ns \<and> address_names a m"
      using m \<open>na_id a = Some i\<close> by (auto simp: address_names_def intro!: ex1I [of _ m])
    with Some find m \<open>na_id a = Some i\<close> show ?thesis
      by (auto simp: resolve_node_address_def view_node_by_id_def address_names_def)
  qed
next
  case None
  let ?ns = "g_nodes (s_graph s)"
  show ?thesis
  proof (cases "na_label a")
    case label: None
    with None show ?thesis by (auto simp: resolve_node_address_def address_names_def)
  next
    case (Some l)
    have "distinct ?ns" using assms by (simp add: distinct_map)
    note single = filter_single_ex1 [OF this, of "address_names a"]
    let ?c = "filter (address_names a) ?ns"
    have "resolve_node_address (view_new s) a = Inr n
        \<longleftrightarrow> (\<exists>m. ?c = [m] \<and> n = stamp_community (view_new s) m)" for n
      unfolding resolve_node_address_def None Some option.case Let_def
      using label_candidates [OF None Some, of s]
      by (cases ?c; cases "tl ?c") (auto cong: option.case_cong)
    moreover have "m \<in> set ?ns \<and> address_names a m" if "?c = [m]" for m
      using that by (metis filter_eq_ConsD in_set_conv_decomp)
    ultimately show ?thesis using single by blast
  qed
qed


section \<open>Answers\<close>

text \<open>What a query is about, and its answer on the state of that project.\<close>

fun query_project :: "data_query \<Rightarrow> string option" where
  "query_project (DQ_Status i) = i"
| "query_project (DQ_Query i _) = Some i"
| "query_project (DQ_Neighbors i _ _ _ _) = Some i"
| "query_project (DQ_GodNodes i _) = Some i"
| "query_project (DQ_Path i _ _ _) = Some i"
| "query_project (DQ_GetNode i _) = Some i"
| "query_project (DQ_GraphStats i) = Some i"
| "query_project (DQ_ProjectGraph i) = Some i"
| "query_project (DQ_Community i _) = Some i"
| "query_project (DQ_ListCommunities i _) = Some i"
| "query_project (DQ_GraphReport i _) = Some i"

definition status_answer :: "string \<Rightarrow> graph_state \<Rightarrow> response" where
  "status_answer i s =
     QueryResult
       (P_Cold_Status i (length (s_manifest s)) (length (g_nodes (s_graph s)))
          (length (g_edges (s_graph s))) (map_option the_rev (latest_revision (s_manifest s))))"

fun answer ::
  "('f, 'b) score_ops_scheme \<Rightarrow> petgraph \<Rightarrow> (u16 \<Rightarrow> string) \<Rightarrow> data_query \<Rightarrow> graph_view \<Rightarrow> response"
where
  "answer ops pg fmt2 (DQ_Status i) v =
     (case i of
        Some i \<Rightarrow> status_answer i (v_state v)
      | None \<Rightarrow> Error_Response ''all-projects Status is not yet implemented'')"
| "answer ops pg fmt2 (DQ_GetNode i a) v = handle_get_node a v"
| "answer ops pg fmt2 (DQ_Neighbors i a d rs u) v = handle_get_neighbors pg a d rs u v"
| "answer ops pg fmt2 (DQ_Query i p) v = handle_query_graph ops pg p v"
| "answer ops pg fmt2 (DQ_GodNodes i limit) v = handle_god_nodes pg i limit v"
| "answer ops pg fmt2 (DQ_Path i a b h) v = handle_path pg a b h v"
| "answer ops pg fmt2 (DQ_GraphStats i) v = handle_graph_stats i v"
| "answer ops pg fmt2 (DQ_ProjectGraph i) v = handle_project_graph v"
| "answer ops pg fmt2 (DQ_Community i c) v = handle_community c v"
| "answer ops pg fmt2 (DQ_ListCommunities i limit) v = handle_list_communities i limit v"
| "answer ops pg fmt2 (DQ_GraphReport i gods) v = handle_graph_report fmt2 pg gods v"

text \<open>No answer looks at the facets of a state that are not persisted.\<close>

abbreviation settled :: "graph_view \<Rightarrow> graph_view" where
  "settled v \<equiv> v\<lparr>v_state := persisted (v_state v)\<rparr>"

lemma persisted_more [simp]:
  "s_partition (persisted s) = s_partition s" "s_manifest (persisted s) = s_manifest s"
  "s_workspace (persisted s) = s_workspace s"
  by (simp_all add: persisted_def)

lemma view_persisted: "view_new (persisted s) = settled (view_new s)"
  by (simp add: view_new_def Let_def build_community_labels_def best_step_def [abs_def])

lemma settled_lookup [simp]:
  "stamp_community (settled v) = stamp_community v" "node_at (settled v) = node_at v"
  "edge_at (settled v) = edge_at v" "node_with_community (settled v) = node_with_community v"
  "communities_of (settled v) = communities_of v" "index_of_id (settled v) = index_of_id v"
  "node_by_id_indexed (settled v) = node_by_id_indexed v"
  by (simp_all add: fun_eq_iff stamp_community_def community_of_def node_at_def [abs_def] edge_at_def
      node_with_community_def communities_of_def index_of_id_def node_by_id_indexed_def
      cong: option.case_cong)

lemma settled_query [simp]:
  "neighbors_by_id pg (settled v) = neighbors_by_id pg v"
  "semantic_degree pg (settled v) = semantic_degree pg v"
  "query ops pg (settled v) = query ops pg v" "nodes_by_label (settled v) = nodes_by_label v"
  "view_node_by_id (settled v) = view_node_by_id v"
  "unresolved_out_by_id (settled v) = unresolved_out_by_id v"
  "unresolved_in_by_label (settled v) = unresolved_in_by_label v"
  by (simp_all add: fun_eq_iff neighbors_by_id_def neighbors_at_def matches_relations_def [abs_def]
      semantic_degree_def query_def query_steps_def [abs_def] query_seeds_def seed_scores_def
      nodes_by_label_def view_node_by_id_def unresolved_out_by_id_def unresolved_in_by_label_def
      cong: option.case_cong if_cong edge_target.case_cong)

lemma settled_analysis [simp]:
  "community (settled v) = community v" "view_community_meta (settled v) = view_community_meta v"
  "god_nodes pg (settled v) = god_nodes pg v" "shortest_path pg (settled v) = shortest_path pg v"
  "stats (settled v) = stats v" "project_graph (settled v) = project_graph v"
  "community_summaries (settled v) = community_summaries v" "bridges (settled v) = bridges v"
  by (simp_all add: fun_eq_iff community_def view_community_meta_def god_nodes_def shortest_path_def
      stats_def project_graph_def community_summaries_def group_members_def community_id_of_def
      bridges_def bridge_of_def [abs_def] cong: option.case_cong if_cong edge_target.case_cong)

lemma answer_settled: "answer ops pg fmt2 q (settled v) = answer ops pg fmt2 q v"
  by (cases q)
    (simp_all add: status_answer_def handle_get_node_def resolve_node_address_def handle_get_neighbors_def
      unresolved_edges_def handle_query_graph_def handle_god_nodes_def handle_path_def handle_community_def
      handle_list_communities_def handle_graph_report_def view_report_def handle_graph_stats_def
      handle_project_graph_def cong: option.case_cong if_cong sum.case_cong list.case_cong split: option.split)

lemma answer_persisted: "answer ops pg fmt2 q (view_new (persisted s)) = answer ops pg fmt2 q (view_new s)"
  by (metis view_persisted view_state answer_settled)


section \<open>Sources\<close>

text \<open>The interface of a source: a project with content is known, and reading its state or its view
  gives that content, up to what is not persisted, and takes no project's content away.\<close>

definition keeps :: "('w \<Rightarrow> string \<Rightarrow> graph_state option) \<Rightarrow> 'w \<Rightarrow> 'w \<Rightarrow> bool" where
  "keeps content w w' \<longleftrightarrow> (\<forall>i s. content w i = Some s \<longrightarrow> content w' i = Some s)"

locale reading =
  fixes src :: "'w state_source"
    and sane :: "'w \<Rightarrow> bool"
    and content :: "'w \<Rightarrow> string \<Rightarrow> graph_state option"
  assumes has_project: "sane w \<Longrightarrow> content w i = Some s \<Longrightarrow> ss_has_project src w i"
    and read_state: "sane w \<Longrightarrow> content w i = Some s \<Longrightarrow>
      \<exists>s0 w'. ss_state src i w = (Inr s0, w') \<and> persisted s0 = persisted s \<and> sane w' \<and> keeps content w w'"
    and read_view: "sane w \<Longrightarrow> content w i = Some s \<Longrightarrow>
      \<exists>s0 w'. ss_view src i w = (Inr (view_new s0), w') \<and> persisted s0 = persisted s \<and> sane w'
        \<and> keeps content w w'"
begin

lemma query_answer:
  assumes "sane w" "query_project q = Some i" "content w i = Some s"
  shows "\<exists>w'. handle_query ops pg fmt2 src q w = (answer ops pg fmt2 q (view_new s), w') \<and> sane w'
    \<and> keeps content w w'"
proof -
  have same: "answer ops pg fmt2 q (view_new s0) = answer ops pg fmt2 q (view_new s)"
    if "persisted s0 = persisted s" for s0
    using answer_persisted [of ops pg fmt2 q s0] answer_persisted [of ops pg fmt2 q s] that by simp
  have has: "ss_has_project src w i" using has_project assms(1,3) .
  show ?thesis
  proof (cases "\<exists>j. q = DQ_Status j")
    case True
    from read_state [OF assms(1,3)] obtain s0 w' where
      w': "ss_state src i w = (Inr s0, w')" "persisted s0 = persisted s" "sane w'" "keeps content w w'"
      by blast
    from True assms(2) have q: "q = DQ_Status (Some i)" by auto
    have "handle_query ops pg fmt2 src q w = (answer ops pg fmt2 q (view_new s0), w')"
      by (simp add: q handle_query_def handle_project_status_def status_answer_def has w'(1))
    with w'(3,4) same [OF w'(2)] show ?thesis by auto
  next
    case False
    from read_view [OF assms(1,3)] obtain s0 w' where
      w': "ss_view src i w = (Inr (view_new s0), w')" "persisted s0 = persisted s" "sane w'"
        "keeps content w w'" by blast
    have "with_view src i f w = (f (view_new s0), w')" for f
      by (simp add: with_view_def project_view_def has w'(1))
    with False assms(2) have "handle_query ops pg fmt2 src q w = (answer ops pg fmt2 q (view_new s0), w')"
      by (cases q) (simp_all add: handle_query_def)
    with w'(3,4) same [OF w'(2)] show ?thesis by auto
  qed
qed

end

fun run_queries ::
  "('f, 'b) score_ops_scheme \<Rightarrow> petgraph \<Rightarrow> (u16 \<Rightarrow> string) \<Rightarrow> ('w, 'c) state_source_scheme \<Rightarrow>
     data_query list \<Rightarrow> 'w \<Rightarrow> response list"
where
  "run_queries ops pg fmt2 src [] w = []"
| "run_queries ops pg fmt2 src (q # qs) w =
     (case handle_query ops pg fmt2 src q w of (r, w) \<Rightarrow> r # run_queries ops pg fmt2 src qs w)"

definition about :: "('w \<Rightarrow> string \<Rightarrow> graph_state option) \<Rightarrow> 'w \<Rightarrow> data_query \<Rightarrow> graph_state option" where
  "about content w q = Option.bind (query_project q) (content w)"

context reading
begin

lemma queries_answer:
  assumes "sane w" "\<forall>q \<in> set qs. about content w q \<noteq> None"
  shows "run_queries ops pg fmt2 src qs w =
    map (\<lambda>q. answer ops pg fmt2 q (view_new (the (about content w q)))) qs"
  using assms
proof (induction qs arbitrary: w)
  case (Cons q qs)
  then obtain i s where q: "query_project q = Some i" "content w i = Some s"
    by (cases "query_project q") (auto simp: about_def)
  from query_answer [OF Cons.prems(1) q] obtain w' where
    w': "handle_query ops pg fmt2 src q w = (answer ops pg fmt2 q (view_new s), w')" "sane w'"
      "keeps content w w'" by blast
  have same: "about content w' r = about content w r" if "about content w r \<noteq> None" for r
    using that w'(3) by (cases "query_project r") (auto simp: about_def keeps_def)
  then have "\<forall>r \<in> set qs. about content w' r \<noteq> None" using Cons.prems(2) by simp
  from Cons.IH [OF w'(2) this] same Cons.prems(2) w'(1) q show ?case by (simp add: about_def)
qed simp

end

section \<open>The cold source reads its directory\<close>

definition cold_content :: "cold_world \<Rightarrow> string \<Rightarrow> graph_state option" where
  "cold_content w i =
     (if cw_dir_exists w (cold_output_dir w i)
      then (case fs_load (cw_disk w (cold_output_dir w i)) of Inr (Some s) \<Rightarrow> Some (persisted s) | _ \<Rightarrow> None)
      else None)"

interpretation cold: reading cold_source "\<lambda>_. True" cold_content
  by unfold_locales
    (auto simp: cold_source_def cold_content_def cold_load_state_def keeps_def
      split: if_splits sum.splits option.splits)


section \<open>The resident source reads what the daemon believes\<close>

text \<open>A project with unsaved work or a checkpoint; reads keep it so.\<close>

definition indexed :: "(string \<Rightarrow> string) \<Rightarrow> flusher \<Rightarrow> string \<Rightarrow> bool" where
  "indexed D fl i \<longleftrightarrow> fl_is_dirty fl i \<or> fs_has_checkpoint (fl_disk fl (D i))"

lemma write_state_indexed:
  assumes "write_state now k (D k) s fl = (Inr u, fl')"
  shows "fs_has_checkpoint (fl_disk fl' (D k))" and "indexed D fl j \<Longrightarrow> indexed D fl' j"
    and "fl_dirty fl' = fl_dirty fl" and "fl_out_dirs fl' = fl_out_dirs fl"
  using assms
  by (auto simp: write_state_def fs_save_state_def fs_has_checkpoint_def indexed_def fl_is_dirty_def
      split: sum.splits option.splits if_splits)

lemma flush_evicted_indexed:
  assumes "flush_evicted now evs fl = (Inr u, fl')" "dirs_ok D fl"
    and "\<forall>e \<in> set evs. fl_is_dirty fl (ev_id e) \<longrightarrow> ev_state e \<noteq> None" "indexed D fl j"
  shows "indexed D fl' j"
  using assms
proof (induction evs arbitrary: fl)
  case (Cons e evs)
  let ?fl = "fl\<lparr>fl_dirty := bt_remove (ev_id e) (fl_dirty fl)\<rparr>"
  have dirty: "fl_is_dirty ?fl i \<longleftrightarrow> i \<noteq> ev_id e \<and> fl_is_dirty fl i" for i
    by (simp add: fl_is_dirty_def bt_get_remove)
  show ?case
  proof (cases "ev_state e")
    case None
    with Cons.prems(3) have "\<not> fl_is_dirty fl (ev_id e)" by auto
    with Cons.prems(4) have "indexed D ?fl j" using dirty by (auto simp: indexed_def)
    moreover have "dirs_ok D ?fl" using Cons.prems(2) by (simp add: dirs_ok_def)
    ultimately show ?thesis
      using Cons.IH [of ?fl] Cons.prems(1,3) None dirty by auto
  next
    case (Some a)
    from Cons.prems(1) Some obtain dir where dir: "bt_get (fl_out_dirs fl) (ev_id e) = Some dir"
      by (auto simp: Let_def split: option.splits)
    then have D: "dir = D (ev_id e)" using Cons.prems(2) by (simp add: dirs_ok_def)
    from Cons.prems(1) Some dir obtain fl1 where
      1: "write_state now (ev_id e) (D (ev_id e)) (deref (fl_cache fl) a) ?fl = (Inr (), fl1)"
         "flush_evicted now evs fl1 = (Inr u, fl')"
      by (auto simp: Let_def D split: prod.splits sum.splits)
    note w = write_state_indexed [where D = D and k = "ev_id e", OF 1(1)]
    have "indexed D fl1 j"
    proof (cases "j = ev_id e")
      case True
      with w(1) show ?thesis by (simp add: indexed_def)
    next
      case False
      with Cons.prems(4) have "indexed D ?fl j" by (simp add: indexed_def dirty)
      then show ?thesis by (rule w(2))
    qed
    moreover have "dirs_ok D fl1" using Cons.prems(2) w(4) by (simp add: dirs_ok_def)
    moreover have "fl_is_dirty fl1 i \<Longrightarrow> fl_is_dirty fl i" for i
      using w(3) dirty [of i] by (simp add: fl_is_dirty_def)
    ultimately show ?thesis using Cons.IH [OF 1(2)] Cons.prems(3) by auto
  qed
qed simp

lemma touch_indexed [simp]: "indexed D (fl\<lparr>fl_cache := c\<rparr>) i = indexed D fl i"
  by (simp add: indexed_def fl_is_dirty_def)

lemma remember_indexed [simp]: "indexed D (remember p fl) i = indexed D fl i"
  by (simp add: indexed_def)

lemma state_of_indexed:
  assumes "fl_ok D fl" "project_at D p" "fl_state_of now p fl = (Inr a, fl')" "indexed D fl j"
  shows "indexed D fl' j"
proof -
  let ?i = "dp_id p" and ?fl = "remember p fl"
  have ok1: "fl_ok D ?fl" using remember_ok assms(1,2) by (simp add: project_at_def)
  show ?thesis
  proof (cases "is_resident (fl_cache fl) ?i")
    case True
    with assms(3,4) show ?thesis
      by (auto simp: fl_state_of_def get_arc_def Let_def is_resident_def peek_arc_def)
  next
    case False
    from assms(3) False obtain s where load: "fs_load (fl_disk fl (dp_output_dir p)) = Inr s"
      by (auto simp: fl_state_of_def get_arc_def Let_def split: sum.splits)
    let ?s = "case s of None \<Rightarrow> graph_state_default | Some s \<Rightarrow> s"
    obtain evs c0 where ins: "cache_insert ?i ?s False (fl_cache ?fl) = (evs, c0)" by fastforce
    have evs: "\<forall>e \<in> set evs. fl_is_dirty fl (ev_id e) \<longrightarrow> ev_state e \<noteq> None"
      using cache_insert_get(8) [OF fl_okD(1) [OF ok1] ins] fl_okD(3) [OF assms(1)] by fastforce
    let ?fl1 = "?fl\<lparr>fl_cache := snd (get_arc c0 ?i)\<rparr>"
    from assms(3) False load ins obtain u where "flush_evicted now evs ?fl1 = (Inr u, fl')"
      by (auto simp: fl_state_of_def get_arc_def [of "fl_cache fl"] Let_def load_into_def
          split: prod.splits sum.splits option.splits)
    moreover have "dirs_ok D ?fl1" using fl_okD(4) [OF ok1] by (simp add: dirs_ok_def)
    moreover have "fl_is_dirty ?fl1 i = fl_is_dirty fl i" for i by (simp add: fl_is_dirty_def remember_def)
    ultimately show ?thesis using flush_evicted_indexed evs assms(4) by fastforce
  qed
qed

text \<open>What a read of the flusher owes its caller.\<close>

definition reads :: "(string \<Rightarrow> string) \<Rightarrow> flusher \<Rightarrow> string \<Rightarrow> graph_state \<Rightarrow> flusher \<Rightarrow> bool" where
  "reads D fl i s fl' \<longleftrightarrow>
     fl_ok D fl' \<and> disk_fine D fl' \<and> believed D fl' = believed D fl \<and> persisted s = believed D fl i
     \<and> (\<forall>j. indexed D fl j \<longrightarrow> indexed D fl' j)"

lemma touch_reads:
  assumes "fl_ok D fl" "disk_fine D fl" "peek_arc (fl_cache fl) i = Some a"
  shows "reads D fl i (deref (fl_cache fl) a) (fl\<lparr>fl_cache := touch i (fl_cache fl)\<rparr>)"
proof -
  have "is_resident (fl_cache fl) i" using assms(3) by (auto simp: is_resident_def peek_arc_def)
  from touch_cache_ok [OF assms(1) this] assms(2,3) show ?thesis
    by (simp add: reads_def disk_fine_def believed_def)
qed

lemma warm_state_reads:
  assumes "fl_ok D fl" "disk_fine D fl" "inj D" "project_at D p" "indexed D fl (dp_id p)"
  shows "\<exists>a fl'. warm_state_of now p fl = (Inr a, fl') \<and> reads D fl (dp_id p) (deref (fl_cache fl') a) fl'"
proof (cases "peek_arc (fl_cache fl) (dp_id p)")
  case (Some a)
  then have "is_resident (fl_cache fl) (dp_id p)" by (auto simp: is_resident_def peek_arc_def)
  with touch_reads [OF assms(1,2) Some] Some show ?thesis by (auto simp: warm_state_of_def get_arc_def)
next
  case None
  then have "\<not> is_resident (fl_cache fl) (dp_id p)" by (simp add: is_resident_def peek_arc_def)
  moreover have "\<not> fl_is_dirty fl (dp_id p)" using dirty_resident [OF assms(1)] None by fastforce
  then have "fs_has_checkpoint (fl_disk fl (dp_output_dir p))"
    using assms(4,5) by (simp add: indexed_def project_at_def)
  ultimately have "warm_state_of now p fl = fl_state_of now p fl"
    by (simp add: warm_state_of_def get_arc_def)
  with state_of_refines [OF assms(1-4), of now] state_of_indexed [OF assms(1,4)] show ?thesis
    unfolding reads_def by metis
qed

lemma install_reads:
  assumes "reads D fl i s fl'" "v = view_new (deref (fl_cache fl') a)"
  shows "reads D fl i s (fl'\<lparr>fl_cache := snd (install_view (fl_cache fl') j a v)\<rparr>)"
proof -
  let ?c = "snd (install_view (fl_cache fl') j a v)"
  have same: "peek_arc ?c k = peek_arc (fl_cache fl') k" "deref ?c b = deref (fl_cache fl') b"
    "pc_dirty ?c = pc_dirty (fl_cache fl')" for k b
    by (auto simp: install_view_def peek_arc_def deref_def bt_get_insert split: option.split)
  have ok: "fl_ok D fl'" using assms(1) by (simp add: reads_def)
  note old = fl_okD [OF ok]
  let ?fl = "fl'\<lparr>fl_cache := ?c\<rparr>"
  have dirty: "fl_is_dirty ?fl k = fl_is_dirty fl' k" for k by (simp add: fl_is_dirty_def)
  have "fl_ok D ?fl"
  proof (rule fl_okI)
    show "cache_ok (fl_cache ?fl)" using install_view_ok [OF old(1) assms(2)] by simp
    fix k b
    show "fl_is_dirty ?fl k \<longleftrightarrow> k \<in> pc_dirty (fl_cache ?fl)" using old(3) [of k] same(3) dirty by simp
    show "bt_get (fl_out_dirs ?fl) k = Some (D k)" if "fl_is_dirty ?fl k" using old(5) [of k] that dirty by simp
    show "on_disk D ?fl k (deref (fl_cache ?fl) b)"
      if "peek_arc (fl_cache ?fl) k = Some b" "\<not> fl_is_dirty ?fl k"
      using old(6) [of k b] that same(1,2) dirty by (simp add: on_disk_def)
  qed (use old(2,4) in \<open>simp_all add: dirs_ok_def\<close>)
  moreover have "believed D (fl'\<lparr>fl_cache := ?c\<rparr>) = believed D fl'"
    by (simp add: believed_def fun_eq_iff same cong: option.case_cong)
  ultimately show ?thesis using assms(1) by (simp add: reads_def disk_fine_def)
qed

lemma warm_view_reads:
  assumes "fl_ok D fl" "disk_fine D fl" "inj D" "project_at D p" "indexed D fl (dp_id p)"
  shows "\<exists>s fl'. warm_view_of now p fl = (Inr (view_new s), fl') \<and> reads D fl (dp_id p) s fl'"
proof (cases "Option.bind (bt_get (pc_graphs (fl_cache fl)) (dp_id p)) res_view")
  case None
  from warm_state_reads [OF assms, of now] obtain a fl1 where
    1: "warm_state_of now p fl = (Inr a, fl1)" "reads D fl (dp_id p) (deref (fl_cache fl1) a) fl1" by blast
  from None 1(1) install_reads [OF 1(2) refl, of "dp_id p"] show ?thesis
    by (auto simp: warm_view_of_def cache_view_def Let_def)
next
  case (Some v)
  then obtain r where r: "bt_get (pc_graphs (fl_cache fl)) (dp_id p) = Some r" "res_view r = Some v"
    by (auto simp: bind_eq_Some_conv)
  then have "v = view_new (deref (fl_cache fl) (res_state r))"
    using fl_okD(1) [OF assms(1)] by (auto simp: cache_ok_def graphs_ok_def)
  moreover have "peek_arc (fl_cache fl) (dp_id p) = Some (res_state r)" using r by (simp add: peek_arc_def)
  moreover note touch_reads [OF assms(1,2) this]
  ultimately show ?thesis using Some by (auto simp: warm_view_of_def cache_view_def)
qed

definition warm_sane ::
  "(string \<Rightarrow> string) \<Rightarrow> (daemon_project list \<Rightarrow> daemon_project list) \<Rightarrow> warm_world \<Rightarrow> bool"
where
  "warm_sane D shuffle w \<longleftrightarrow>
     inj D \<and> fl_ok D (ww_flusher w) \<and> disk_fine D (ww_flusher w)
     \<and> (\<forall>i p. registered shuffle (ww_registry w) i = Some p \<longrightarrow> project_at D p)"

definition warm_content ::
  "(string \<Rightarrow> string) \<Rightarrow> (daemon_project list \<Rightarrow> daemon_project list) \<Rightarrow> warm_world \<Rightarrow> string \<Rightarrow>
     graph_state option"
where
  "warm_content D shuffle w i =
     (case registered shuffle (ww_registry w) i of
        None \<Rightarrow> None
      | Some p \<Rightarrow>
          if indexed D (ww_flusher w) (dp_id p) then Some (believed D (ww_flusher w) (dp_id p)) else None)"

lemma reads_keeps:
  assumes "warm_sane D shuffle w" "reads D (ww_flusher w) i s fl'"
  shows "warm_sane D shuffle (w\<lparr>ww_flusher := fl'\<rparr>)"
    and "keeps (warm_content D shuffle) w (w\<lparr>ww_flusher := fl'\<rparr>)"
  using assms
  by (auto simp: warm_sane_def reads_def keeps_def warm_content_def split: option.splits if_splits)

interpretation warm: reading "warm_source shuffle" "warm_sane D shuffle" "warm_content D shuffle"
proof
  fix w i s
  assume sane: "warm_sane D shuffle w" and content: "warm_content D shuffle w i = Some s"
  then obtain p where p: "registered shuffle (ww_registry w) i = Some p" "indexed D (ww_flusher w) (dp_id p)"
      "s = believed D (ww_flusher w) (dp_id p)"
    by (auto simp: warm_content_def split: option.splits if_splits)
  from sane p have ok: "fl_ok D (ww_flusher w)" "disk_fine D (ww_flusher w)" "inj D" "project_at D p"
    by (auto simp: warm_sane_def)
  have read: "persisted s0 = persisted s \<and> warm_sane D shuffle (w\<lparr>ww_flusher := fl'\<rparr>)
      \<and> keeps (warm_content D shuffle) w (w\<lparr>ww_flusher := fl'\<rparr>)"
    if "reads D (ww_flusher w) (dp_id p) s0 fl'" for s0 fl'
    using reads_keeps [OF sane that] that persisted_idem [of s0] p(3) by (simp add: reads_def)
  show "ss_has_project (warm_source shuffle) w i" using p by (simp add: warm_source_def)
  show "\<exists>s0 w'. ss_state (warm_source shuffle) i w = (Inr s0, w') \<and> persisted s0 = persisted s
      \<and> warm_sane D shuffle w' \<and> keeps (warm_content D shuffle) w w'"
    using warm_state_reads [OF ok p(2), of "ww_now w"] read p(1) by (fastforce simp: warm_source_def)
  show "\<exists>s0 w'. ss_view (warm_source shuffle) i w = (Inr (view_new s0), w') \<and> persisted s0 = persisted s
      \<and> warm_sane D shuffle w' \<and> keeps (warm_content D shuffle) w w'"
    using warm_view_reads [OF ok p(2), of "ww_now w"] read p(1) by (fastforce simp: warm_source_def)
qed

section \<open>One answer, two lifecycles\<close>

text \<open>C3. Any sequence of data queries about indexed projects gets the same answers from the resident
  daemon, whatever is cached, dirty or paged out and whatever the queries themselves page in and out,
  as from a cold responder over directories that hold what the daemon believes.\<close>

theorem resident_answers_as_cold:
  assumes "warm_sane D shuffle w"
    and "\<forall>q \<in> set qs. about (warm_content D shuffle) w q \<noteq> None"
    and "\<forall>q \<in> set qs. about cold_content cw q = about (warm_content D shuffle) w q"
  shows "run_queries ops pg fmt2 (warm_source shuffle) qs w = run_queries ops pg fmt2 cold_source qs cw"
  using warm.queries_answer [OF assms(1,2), of ops pg fmt2] cold.queries_answer [OF TrueI, of qs cw ops pg fmt2]
    assms(2,3) by simp


definition a_registry :: registry where
  "a_registry = bt_insert ''a'' ex_a bt_empty"

definition a_warm :: warm_world where
  "a_warm = \<lparr>ww_registry = a_registry, ww_flusher = ex_two, ww_now = 40\<rparr>"

definition a_cold :: cold_world where
  "a_cold = \<lparr>cw_base_dir = ''/w'',
     cw_disk = (\<lambda>_. \<lparr>fs_file = Some (Inr (ex_state ''1'')), fs_write_error = None, fs_force = False\<rparr>),
     cw_dir_exists = (\<lambda>dir. dir = ex_dir ''a'')\<rparr>"

definition a_queries :: "data_query list" where
  "a_queries = [DQ_Status (Some ''a''), DQ_GetNode ''a'' (by_label ''f''), DQ_Status (Some ''a'')]"

lemma a_registered: "registered id a_registry i = Some p \<Longrightarrow> p = ex_a"
proof -
  have "bt_values a_registry = [ex_a]" by (simp add: a_registry_def bt_values_def bt_empty_def)
  then show "registered id a_registry i = Some p \<Longrightarrow> p = ex_a"
    by (auto simp: registered_def reg_get_def find_by_path_def a_registry_def bt_get_insert
        split: option.splits if_splits)
qed

theorem resident_answers_as_cold_witness:
  "run_queries score_rat newest_first (\<lambda>_. []) (warm_source id) a_queries a_warm =
     [QueryResult (P_Cold_Status ''a'' 1 0 0 None),
      Error_Response ''no nodes found with label: f'',
      QueryResult (P_Cold_Status ''a'' 1 0 0 None)]"
proof -
  have "warm_sane ex_dir id a_warm"
    using ex_two_ok a_registered ex_dir_inj ex_at(1) by (auto simp: warm_sane_def a_warm_def)
  moreover have "about (warm_content ex_dir id) a_warm q = Some (ex_state ''1'')"
    "about cold_content a_cold q = Some (ex_state ''1'')" if "q \<in> set a_queries" for q
  proof -
    have i: "query_project q = Some ''a''" using that by (auto simp: a_queries_def)
    have "warm_content ex_dir id a_warm ''a'' = Some (ex_state ''1'')"
      "cold_content a_cold ''a'' = Some (ex_state ''1'')" by code_simp+
    with i show "about (warm_content ex_dir id) a_warm q = Some (ex_state ''1'')"
      "about cold_content a_cold q = Some (ex_state ''1'')" by (simp_all add: about_def)
  qed
  moreover have "run_queries score_rat newest_first (\<lambda>_. []) cold_source a_queries a_cold =
     [QueryResult (P_Cold_Status ''a'' 1 0 0 None),
      Error_Response ''no nodes found with label: f'',
      QueryResult (P_Cold_Status ''a'' 1 0 0 None)]" by code_simp
  ultimately show ?thesis
    using resident_answers_as_cold [of ex_dir id a_warm a_queries a_cold score_rat newest_first "\<lambda>_. []"]
    by simp
qed

text \<open>Two functions of one name in two files.\<close>

definition two_named :: graph_state where
  "two_named = graph_state_default\<lparr>s_graph :=
     \<lparr>g_nodes = [(node_new ''a'' ''run'' ''function'')\<lparr>n_file := Some ''a.rs''\<rparr>,
                 (node_new ''b'' ''run'' ''function'')\<lparr>n_file := Some ''b.rs''\<rparr>], g_edges = []\<rparr>\<rparr>"

theorem address_names_one_node_witness:
  "\<not> (\<exists>!m. m \<in> set (g_nodes (s_graph two_named)) \<and> address_names (by_label ''run'') m)
   \<and> (\<exists>m \<in> set (g_nodes (s_graph two_named)). address_names (by_label_src ''run'' ''b.rs'') m
        \<and> n_file m = Some ''b.rs'')"
proof -
  have d: "distinct (map n_id (g_nodes (s_graph two_named)))" by code_simp
  have "isl (resolve_node_address (view_new two_named) (by_label ''run''))"
    "map_sum id n_file (resolve_node_address (view_new two_named) (by_label_src ''run'' ''b.rs'')) =
       Inr (Some ''b.rs'')" by code_simp+
  with address_names_one_node [OF d, of "by_label ''run''"]
    address_names_one_node [OF d, of "by_label_src ''run'' ''b.rs''"]
  show ?thesis by (cases "resolve_node_address (view_new two_named) (by_label_src ''run'' ''b.rs'')") fastforce+
qed

end
