(* ===== verification/Atomic.thy ===== *)
theory Atomic
  imports Registry
begin

text \<open>
  The one file write of every persistence path (\<^verbatim>\<open>filigrio-store/src/atomic.rs\<close>). A path is the list of
  its components, the files a map from paths to contents. Which system call fails, and what a failing
  write has left of the temporary file, is the environment's choice.
\<close>

record io_env =
  io_mkdir :: "string option"
  io_write :: "(string \<times> bytes option) option"
  io_rename :: "string option"
  io_remove :: "string option"
  io_pid :: nat

type_synonym files = "(string list, bytes) btree"

definition path_parent :: "string list \<Rightarrow> string list option" where
  "path_parent path = (if path = [] \<or> path = [''/''] then None else Some (butlast path))"

definition path_name :: "string list \<Rightarrow> string option" where
  "path_name path =
     (case rev path of [] \<Rightarrow> None | c # _ \<Rightarrow> if c \<in> {''/'', ''.'', ''..''} then None else Some c)"

definition temp_path :: "nat \<Rightarrow> string list \<Rightarrow> string \<Rightarrow> string list" where
  "temp_path pid path name = butlast path @ [name @ ''.tmp.'' @ show_nat pid]"

text \<open>\<^verbatim>\<open>fs::write\<close>, \<^verbatim>\<open>fs::rename\<close> and \<^verbatim>\<open>fs::remove_file\<close>.\<close>

definition sys_write :: "io_env \<Rightarrow> string list \<Rightarrow> bytes \<Rightarrow> files \<Rightarrow> (string + unit) \<times> files" where
  "sys_write env path b fs =
     (case io_write env of
        None \<Rightarrow> (Inr (), bt_insert path b fs)
      | Some (e, None) \<Rightarrow> (Inl e, fs)
      | Some (e, Some part) \<Rightarrow> (Inl e, bt_insert path part fs))"

definition sys_rename :: "io_env \<Rightarrow> string list \<Rightarrow> string list \<Rightarrow> files \<Rightarrow> (string + unit) \<times> files" where
  "sys_rename env old new fs =
     (case io_rename env of
        Some e \<Rightarrow> (Inl e, fs)
      | None \<Rightarrow>
          (case bt_get fs old of
             None \<Rightarrow> (Inl ''No such file or directory'', fs)
           | Some b \<Rightarrow> (Inr (), bt_insert new b (bt_remove old fs))))"

definition sys_remove :: "io_env \<Rightarrow> string list \<Rightarrow> files \<Rightarrow> files" where
  "sys_remove env path fs = (case io_remove env of Some _ \<Rightarrow> fs | None \<Rightarrow> bt_remove path fs)"

definition atomic_write :: "io_env \<Rightarrow> string list \<Rightarrow> bytes \<Rightarrow> files \<Rightarrow> (string + unit) \<times> files" where
  "atomic_write env path b fs =
     (case (case path_parent path of
              Some parent \<Rightarrow> if parent \<noteq> [] then io_mkdir env else None
            | None \<Rightarrow> None) of
        Some e \<Rightarrow> (Inl e, fs)
      | None \<Rightarrow>
          (case path_name path of
             None \<Rightarrow> (Inl (''atomic_write: no file name in '' @ join_str ''/'' path), fs)
           | Some name \<Rightarrow>
               (let tmp = temp_path (io_pid env) path name
                in case sys_write env tmp b fs of
                     (Inl e, fs) \<Rightarrow> (Inl e, fs)
                   | (Inr _, fs) \<Rightarrow>
                       (case sys_rename env tmp path fs of
                          (Inr _, fs) \<Rightarrow> (Inr (), fs)
                        | (Inl e, fs) \<Rightarrow> (Inl e, sys_remove env tmp fs)))))"

lemma temp_path_other: "path_name path = Some name \<Longrightarrow> temp_path pid path name \<noteq> path"
proof
  assume name: "path_name path = Some name" and "temp_path pid path name = path"
  then have "last (temp_path pid path name) = last path" by simp
  moreover from name have "last path = name"
    by (cases path rule: rev_cases) (auto simp: path_name_def split: if_splits)
  ultimately show False by (simp add: temp_path_def)
qed


definition full_disk :: io_env where
  "full_disk = \<lparr>io_mkdir = None, io_write = Some (''No space left on device'', Some ''{''),
     io_rename = None, io_remove = None, io_pid = 41\<rparr>"


text \<open>A temporary file does stay behind when it is the write into it that fails: only a failing
  rename removes it.\<close>

theorem failed_write_leaves_temp:
  "\<exists>e fs. atomic_write full_disk [''w'', ''state.json''] ''{}'' [([''w'', ''state.json''], ''old'')] = (Inl e, fs)
     \<and> bt_get fs [''w'', ''state.json.tmp.41''] = Some ''{''"
  by (intro exI [of _ "''No space left on device''"]
      exI [of _ "snd (atomic_write full_disk [''w'', ''state.json''] ''{}'' [([''w'', ''state.json''], ''old'')])"]) code_simp

end
