(* ===== verification/Graphjson.thy ===== *)
theory Graphjson
  imports Store
begin

text \<open>
  The \<^verbatim>\<open>graph.json\<close> interchange adapter of \<^verbatim>\<open>filigrio-store/src/graphjson.rs\<close>. A JSON value is a
  datatype, its objects key-ordered maps (the code only looks keys up or copies them into such maps);
  reading and writing the bytes is third-party and a parameter.
\<close>

section \<open>Values\<close>

datatype json =
    J_Null
  | J_Bool bool
  | J_Int int
  | J_Float string
  | J_Str string
  | J_Arr "json list"
  | J_Obj "(string \<times> json) list"

text \<open>\<^verbatim>\<open>v[k]\<close>, \<^verbatim>\<open>get\<close> and the accessors of a value.\<close>

definition j_get :: "json \<Rightarrow> string \<Rightarrow> json option" where
  "j_get v k = (case v of J_Obj m \<Rightarrow> bt_get m k | _ \<Rightarrow> None)"

definition j_index :: "json \<Rightarrow> string \<Rightarrow> json" where
  "j_index v k = (case j_get v k of None \<Rightarrow> J_Null | Some x \<Rightarrow> x)"

definition as_str :: "json \<Rightarrow> string option" where
  "as_str v = (case v of J_Str s \<Rightarrow> Some s | _ \<Rightarrow> None)"

definition as_array :: "json \<Rightarrow> json list option" where
  "as_array v = (case v of J_Arr xs \<Rightarrow> Some xs | _ \<Rightarrow> None)"

definition as_u64 :: "json \<Rightarrow> u64 option" where
  "as_u64 v = (case v of J_Int n \<Rightarrow> if 0 \<le> n \<and> n < 2 ^ 64 then Some (of_int n) else None | _ \<Rightarrow> None)"

definition str_or :: "json \<Rightarrow> string \<Rightarrow> string" where
  "str_or v d = (case as_str v of None \<Rightarrow> d | Some s \<Rightarrow> s)"

section \<open>Export\<close>

definition CORE_KEYS :: "string list" where
  "CORE_KEYS = [''id'', ''label'', ''kind'', ''source_file'', ''source_location'', ''community'']"

fun confidence_json :: "confidence \<Rightarrow> json" where
  "confidence_json Extracted = J_Str ''EXTRACTED''"
| "confidence_json Inferred = J_Str ''INFERRED''"
| "confidence_json Ambiguous = J_Str ''AMBIGUOUS''"

definition confidence_of_json :: "json \<Rightarrow> confidence option" where
  "confidence_of_json v =
     (if v = J_Str ''EXTRACTED'' then Some Extracted
      else if v = J_Str ''INFERRED'' then Some Inferred
      else if v = J_Str ''AMBIGUOUS'' then Some Ambiguous
      else None)"

definition node_to_json :: "node \<Rightarrow> partition \<Rightarrow> json" where
  "node_to_json n part =
     (let m = bt_collect [(''id'', J_Str (the_id (n_id n))), (''label'', J_Str (n_label n)),
                (''kind'', J_Str (n_kind n))];
          m = (case n_file n of None \<Rightarrow> m | Some f \<Rightarrow> bt_insert ''source_file'' (J_Str f) m);
          m = (if n_span n \<noteq> None then bt_insert ''source_location'' (J_Str (node_loc n)) m else m);
          m = (case bt_get (node_community part) (n_id n) of
                 None \<Rightarrow> m
               | Some c \<Rightarrow> bt_insert ''community'' (J_Int (uint c)) m)
      in J_Obj (foldl (\<lambda>m (k, v). bt_or_insert k (J_Str v) m) m (n_attrs n)))"

definition edge_to_json :: "edge \<Rightarrow> json" where
  "edge_to_json e =
     J_Obj (bt_collect
       [(''source'', J_Str (the_id (e_source e))),
        (''target'', J_Str (case e_target e of Node t \<Rightarrow> the_id t | Symbol r \<Rightarrow> t_name r)),
        (''relation'', J_Str (e_relation e)), (''confidence'', confidence_json (e_confidence e))])"

definition export_json :: "graph_state \<Rightarrow> json" where
  "export_json s =
     J_Obj (bt_collect
       [(''nodes'', J_Arr (map (\<lambda>n. node_to_json n (s_partition s)) (g_nodes (s_graph s)))),
        (''edges'', J_Arr (map edge_to_json (g_edges (s_graph s))))])"

section \<open>Import\<close>

definition extra_attrs :: "json \<Rightarrow> (string, string) btree" where
  "extra_attrs v =
     (case v of
        J_Obj m \<Rightarrow>
          bt_collect (List.map_filter
            (\<lambda>(k, x). if k \<in> set CORE_KEYS then None else map_option (Pair k) (as_str x)) m)
      | _ \<Rightarrow> bt_empty)"

definition import_node :: "json \<Rightarrow> error + node \<times> u64 option" where
  "import_node v =
     (case as_str (j_index v ''id'') of
        None \<Rightarrow> Inl (Parse ''graph.json: node without `id`'')
      | Some i \<Rightarrow>
          Inr (\<lparr>n_id = NodeId i, n_label = str_or (j_index v ''label'') i,
                n_kind = str_or (j_index v ''kind'') ''concept'',
                n_file = as_str (j_index v ''source_file''),
                n_span = Option.bind (as_str (j_index v ''source_location'')) span_parse,
                n_attrs = extra_attrs v\<rparr>,
               as_u64 (j_index v ''community'')))"

fun import_nodes ::
  "json list \<Rightarrow> (node_id, community_id) btree \<Rightarrow> error + node list \<times> (node_id, community_id) btree"
where
  "import_nodes [] m = Inr ([], m)"
| "import_nodes (v # vs) m =
     (case import_node v of
        Inl err \<Rightarrow> Inl err
      | Inr (n, c) \<Rightarrow>
          (case import_nodes vs (case c of None \<Rightarrow> m | Some c \<Rightarrow> bt_insert (n_id n) c m) of
             Inl err \<Rightarrow> Inl err
           | Inr (ns, m) \<Rightarrow> Inr (n # ns, m)))"

definition import_edge :: "json \<Rightarrow> error + edge" where
  "import_edge v =
     (case as_str (j_index v ''source'') of
        None \<Rightarrow> Inl (Parse ''graph.json: edge without `source`'')
      | Some source \<Rightarrow>
          (case as_str (j_index v ''target'') of
             None \<Rightarrow> Inl (Parse ''graph.json: edge without `target`'')
           | Some target \<Rightarrow>
               Inr \<lparr>e_source = NodeId source, e_relation = str_or (j_index v ''relation'') ''relates'',
                    e_confidence =
                      (case Option.bind (j_get v ''confidence'') confidence_of_json of
                         None \<Rightarrow> Extracted
                       | Some c \<Rightarrow> c),
                    e_target = Node (NodeId target)\<rparr>))"

fun import_edges :: "json list \<Rightarrow> error + edge list" where
  "import_edges [] = Inr []"
| "import_edges (v # vs) =
     (case import_edge v of
        Inl err \<Rightarrow> Inl err
      | Inr e \<Rightarrow> (case import_edges vs of Inl err \<Rightarrow> Inl err | Inr es \<Rightarrow> Inr (e # es)))"

definition import_value :: "json \<Rightarrow> error + graph_state" where
  "import_value v =
     (case as_array (j_index v ''nodes'') of
        None \<Rightarrow> Inl (Parse ''graph.json: missing `nodes` array'')
      | Some node_values \<Rightarrow>
          (case import_nodes node_values bt_empty of
             Inl err \<Rightarrow> Inl err
           | Inr (nodes, nc) \<Rightarrow>
               (let edge_values =
                      (case Option.bind
                              (case j_get v ''edges'' of Some x \<Rightarrow> Some x | None \<Rightarrow> j_get v ''links'')
                              as_array of
                         None \<Rightarrow> []
                       | Some xs \<Rightarrow> xs)
                in case import_edges edge_values of
                     Inl err \<Rightarrow> Inl err
                   | Inr edges \<Rightarrow>
                       Inr (graph_state_default
                         \<lparr>s_graph := \<lparr>g_nodes = nodes, g_edges = edges\<rparr>,
                          s_partition := \<lparr>node_community = nc, communities = bt_empty\<rparr>\<rparr>))))"

definition import_json :: "(bytes \<Rightarrow> string + json) \<Rightarrow> bytes \<Rightarrow> error + graph_state" where
  "import_json from_slice b =
     (case from_slice b of Inl e \<Rightarrow> Inl (Parse e) | Inr v \<Rightarrow> import_value v)"

text \<open>\<^verbatim>\<open>FsStore::snapshot\<close>: the document it writes beside the checkpoint.\<close>

definition fs_snapshot :: "fs_store \<Rightarrow> error + json" where
  "fs_snapshot s =
     (case fs_read s of
        Inl err \<Rightarrow> Inl err
      | Inr state \<Rightarrow>
          (case fs_write_error s of Some err \<Rightarrow> Inl err | None \<Rightarrow> Inr (export_json state)))"

section \<open>What comes back\<close>

text \<open>Nothing of a node is lost whose extra attributes avoid the core keys and whose span is not
  reversed; edges come back resolved.\<close>

definition exportable :: "node \<Rightarrow> bool" where
  "exportable n \<longleftrightarrow>
     bt_ok (n_attrs n) \<and> (\<forall>k \<in> fst ` set (n_attrs n). k \<notin> set CORE_KEYS)
     \<and> (case n_span n of None \<Rightarrow> True | Some s \<Rightarrow> span_start s \<le> span_end s)"

definition linked :: "edge \<Rightarrow> edge" where
  "linked e = e\<lparr>e_target := Node (case e_target e of Node t \<Rightarrow> t | Symbol r \<Rightarrow> NodeId (t_name r))\<rparr>"

lemma import_export_edge: "import_edge (edge_to_json e) = Inr (linked e)"
  by (cases "e_confidence e"; cases "e_target e")
    (simp_all add: import_edge_def edge_to_json_def j_index_def j_get_def as_str_def str_or_def
      linked_def bt_get_collect confidence_of_json_def)

lemma import_export_edges: "import_edges (map edge_to_json es) = Inr (map linked es)"
  by (induction es) (simp_all add: import_export_edge)

lemma get_foldl_or_insert:
  "bt_get (foldl (\<lambda>m (k, v). bt_or_insert k (f v) m) m kvs) k =
     (case bt_get m k of None \<Rightarrow> map_option f (bt_get kvs k) | Some x \<Rightarrow> Some x)"
  by (induction kvs arbitrary: m)
    (auto simp: bt_get_or_insert split: option.splits if_splits)

lemma ok_foldl_or_insert: "bt_ok m \<Longrightarrow> bt_ok (foldl (\<lambda>m (k, v). bt_or_insert k (f v) m) m kvs)"
  by (induction kvs arbitrary: m) (auto simp: bt_ok_or_insert)


lemma bt_collect_id: "bt_ok m \<Longrightarrow> bt_collect m = m"
proof (rule bt.ext_get)
  assume m: "bt_ok m"
  then show "bt_ok m" .
  show "bt_ok (bt_collect m)" by simp
  fix k
  have "map_of (rev m) = map_of m"
    using m bt_ok_distinct [of m] by (intro map_of_inject_set [THEN iffD2]) (simp_all flip: rev_map)
  then show "bt_get (bt_collect m) k = bt_get m k" by (simp add: bt_get_collect [unfolded bt_get_def] bt_get_def)
qed

lemma keys_map_filter:
  "fst ` set (List.map_filter (\<lambda>(k, x). map_option (Pair k) (h k x)) m) \<subseteq> fst ` set m"
  by (force simp: List.map_filter_def split: option.splits)

lemma bt_ok_map_filter:
  "bt_ok m \<Longrightarrow> bt_ok (List.map_filter (\<lambda>(k, x). map_option (Pair k) (h k x)) m)"
proof (induction m)
  case (Cons kv m)
  obtain k x where kv: "kv = (k, x)" by fastforce
  let ?m = "List.map_filter (\<lambda>(k, x). map_option (Pair k) (h k x)) m"
  have "\<forall>k' \<in> fst ` set m. k < k'" "bt_ok ?m" using Cons kv by (simp_all add: bt_ok_Cons)
  moreover from this keys_map_filter [of h m] have "\<forall>k' \<in> fst ` set ?m. k < k'" by blast
  ultimately show ?case using kv by (cases "h k x") (simp_all add: bt_ok_Cons List.map_filter_simps)
qed (simp add: List.map_filter_simps)

lemma bt_get_map_filter:
  "bt_ok m \<Longrightarrow> bt_get (List.map_filter (\<lambda>(k, x). map_option (Pair k) (h k x)) m) k = Option.bind (bt_get m k) (h k)"
proof (induction m)
  case (Cons kv m)
  obtain k' x where kv: "kv = (k', x)" by fastforce
  have none: "bt_get m k' = None"
    using Cons.prems kv bt_ok_Cons by (force simp: bt_get_def map_of_eq_None_iff)
  show ?case using Cons kv none by (cases "h k' x") (auto simp: bt_ok_Cons List.map_filter_simps)
qed (simp add: List.map_filter_simps)

lemma node_object:
  "\<exists>m. node_to_json n part = J_Obj m \<and> bt_ok m \<and> (\<forall>k. bt_get m k =
     (if k = ''id'' then Some (J_Str (the_id (n_id n)))
      else if k = ''label'' then Some (J_Str (n_label n))
      else if k = ''kind'' then Some (J_Str (n_kind n))
      else if k = ''source_file'' \<and> n_file n \<noteq> None then map_option J_Str (n_file n)
      else if k = ''source_location'' \<and> n_span n \<noteq> None then Some (J_Str (node_loc n))
      else if k = ''community'' \<and> bt_get (node_community part) (n_id n) \<noteq> None
      then map_option (\<lambda>c. J_Int (uint c)) (bt_get (node_community part) (n_id n))
      else map_option J_Str (bt_get (n_attrs n) k)))"
proof -
  define m1 where "m1 = bt_collect [(''id'', J_Str (the_id (n_id n))), (''label'', J_Str (n_label n)),
    (''kind'', J_Str (n_kind n))]"
  define m2 where "m2 = (case n_file n of None \<Rightarrow> m1 | Some f \<Rightarrow> bt_insert ''source_file'' (J_Str f) m1)"
  define m3 where "m3 = (if n_span n \<noteq> None then bt_insert ''source_location'' (J_Str (node_loc n)) m2 else m2)"
  define m4 where "m4 = (case bt_get (node_community part) (n_id n) of None \<Rightarrow> m3
    | Some c \<Rightarrow> bt_insert ''community'' (J_Int (uint c)) m3)"
  have ok: "bt_ok m4" by (simp add: m4_def m3_def m2_def m1_def bt_ok_insert split: option.split)
  have get1: "bt_get m1 k = (if k = ''id'' then Some (J_Str (the_id (n_id n)))
      else if k = ''label'' then Some (J_Str (n_label n))
      else if k = ''kind'' then Some (J_Str (n_kind n)) else None)" for k
    by (simp add: m1_def bt_get_collect)
  have get2: "bt_get m2 k = (if k = ''source_file'' \<and> n_file n \<noteq> None then map_option J_Str (n_file n)
      else bt_get m1 k)" for k
    by (cases "n_file n") (simp_all add: m2_def bt_get_insert)
  have get3: "bt_get m3 k = (if k = ''source_location'' \<and> n_span n \<noteq> None then Some (J_Str (node_loc n))
      else bt_get m2 k)" for k
    by (cases "n_span n") (simp_all add: m3_def bt_get_insert)
  have get4: "bt_get m4 k = (if k = ''community'' \<and> bt_get (node_community part) (n_id n) \<noteq> None
      then map_option (\<lambda>c. J_Int (uint c)) (bt_get (node_community part) (n_id n)) else bt_get m3 k)" for k
    by (cases "bt_get (node_community part) (n_id n)") (simp_all add: m4_def bt_get_insert)
  let ?m = "foldl (\<lambda>m (k, v). bt_or_insert k (J_Str v) m) m4 (n_attrs n)"
  have "node_to_json n part = J_Obj ?m"
    unfolding node_to_json_def Let_def m4_def m3_def m2_def m1_def ..
  moreover have "bt_ok ?m" by (rule ok_foldl_or_insert [OF ok])
  ultimately show ?thesis
    by (intro exI [of _ ?m] conjI allI) (cases "n_file n"; cases "n_span n"; cases "bt_get (node_community part) (n_id n)";
        simp add: get_foldl_or_insert get4 get3 get2 get1)+
qed

lemma import_export_node:
  assumes "exportable n"
  shows "import_node (node_to_json n part) = Inr (n, bt_get (node_community part) (n_id n))"
proof -
  from node_object [of n part] obtain m where m: "node_to_json n part = J_Obj m" "bt_ok m"
    and get: "\<And>k. bt_get m k =
     (if k = ''id'' then Some (J_Str (the_id (n_id n)))
      else if k = ''label'' then Some (J_Str (n_label n))
      else if k = ''kind'' then Some (J_Str (n_kind n))
      else if k = ''source_file'' \<and> n_file n \<noteq> None then map_option J_Str (n_file n)
      else if k = ''source_location'' \<and> n_span n \<noteq> None then Some (J_Str (node_loc n))
      else if k = ''community'' \<and> bt_get (node_community part) (n_id n) \<noteq> None
      then map_option (\<lambda>c. J_Int (uint c)) (bt_get (node_community part) (n_id n))
      else map_option J_Str (bt_get (n_attrs n) k))" by blast
  have ok: "bt_ok (n_attrs n)" and core: "k \<in> set CORE_KEYS \<Longrightarrow> bt_get (n_attrs n) k = None" for k
    using assms by (auto simp: exportable_def bt_get_def map_of_eq_None_iff)
  let ?h = "\<lambda>k x. if k \<in> set CORE_KEYS then None else as_str x"
  have "extra_attrs (J_Obj m) = bt_collect (List.map_filter (\<lambda>(k, x). map_option (Pair k) (?h k x)) m)"
    by (auto simp: extra_attrs_def intro!: arg_cong [where f = bt_collect] arg_cong2 [where f = List.map_filter])
  also have "\<dots> = List.map_filter (\<lambda>(k, x). map_option (Pair k) (?h k x)) m"
    by (rule bt_collect_id) (rule bt_ok_map_filter [OF m(2)])
  also have "\<dots> = n_attrs n"
  proof (rule bt.ext_get)
    fix k
    show "bt_get (List.map_filter (\<lambda>(k, x). map_option (Pair k) (?h k x)) m) k = bt_get (n_attrs n) k"
      unfolding bt_get_map_filter [OF m(2)] get
      by (cases "k \<in> set CORE_KEYS"; cases "bt_get (n_attrs n) k")
        (auto simp: core CORE_KEYS_def as_str_def)
  qed (use ok bt_ok_map_filter [OF m(2)] in simp_all)
  finally have attrs: "extra_attrs (J_Obj m) = n_attrs n" .
  have span: "Option.bind (as_str (j_index (J_Obj m) ''source_location'')) span_parse = n_span n"
    using assms core [of "''source_location''"]
    by (cases "n_span n")
      (auto simp: j_index_def j_get_def get as_str_def node_loc_def span_parse_render exportable_def
        span_line_def CORE_KEYS_def)
  have u64: "as_u64 (J_Int (uint c)) = Some c" for c :: u64
    using uint_bounded [of c] by (simp add: as_u64_def)
  have src: "as_str (j_index (J_Obj m) ''source_file'') = n_file n"
    using core [of "''source_file''"]
    by (cases "n_file n") (simp_all add: j_index_def j_get_def get as_str_def CORE_KEYS_def)
  have com: "as_u64 (j_index (J_Obj m) ''community'') = bt_get (node_community part) (n_id n)"
    using core [of "''community''"]
    by (cases "bt_get (node_community part) (n_id n)")
      (simp_all add: j_index_def j_get_def get u64 CORE_KEYS_def, simp add: as_u64_def)
  have core_fields: "j_index (J_Obj m) ''id'' = J_Str (the_id (n_id n))"
    "j_index (J_Obj m) ''label'' = J_Str (n_label n)" "j_index (J_Obj m) ''kind'' = J_Str (n_kind n)"
    by (simp_all add: j_index_def j_get_def get)
  have str: "as_str (J_Str x) = Some x" for x by (simp add: as_str_def)
  show ?thesis
    unfolding m(1) import_node_def core_fields str option.case str_or_def attrs span src com
    by (cases n) simp
qed


lemma import_export_nodes:
  assumes "list_all exportable ns"
  shows "\<exists>m'. import_nodes (map (\<lambda>n. node_to_json n part) ns) m = Inr (ns, m')
    \<and> (bt_ok m \<longrightarrow> bt_ok m')
    \<and> (\<forall>i. bt_get m' i =
          (if i \<in> n_id ` set ns \<and> bt_get (node_community part) i \<noteq> None
           then bt_get (node_community part) i else bt_get m i))"
  using assms
proof (induction ns arbitrary: m)
  case (Cons n ns)
  let ?m = "case bt_get (node_community part) (n_id n) of None \<Rightarrow> m | Some c \<Rightarrow> bt_insert (n_id n) c m"
  from Cons.prems have "list_all exportable ns" by simp
  from Cons.IH [OF this, of ?m] obtain m' where
    m': "import_nodes (map (\<lambda>n. node_to_json n part) ns) ?m = Inr (ns, m')" "bt_ok ?m \<longrightarrow> bt_ok m'"
      "\<And>i. bt_get m' i = (if i \<in> n_id ` set ns \<and> bt_get (node_community part) i \<noteq> None
           then bt_get (node_community part) i else bt_get ?m i)" by blast
  have get: "bt_get ?m i = (if i = n_id n \<and> bt_get (node_community part) i \<noteq> None
      then bt_get (node_community part) i else bt_get m i)" for i
    by (cases "bt_get (node_community part) (n_id n)") (auto simp: bt_get_insert)
  have ok: "bt_ok m \<longrightarrow> bt_ok ?m" by (simp add: bt_ok_insert split: option.split)
  have "import_nodes (map (\<lambda>n. node_to_json n part) (n # ns)) m = Inr (n # ns, m')"
    using Cons.prems m'(1) by (simp add: import_export_node)
  moreover have "bt_get m' i = (if i \<in> n_id ` set (n # ns) \<and> bt_get (node_community part) i \<noteq> None
      then bt_get (node_community part) i else bt_get m i)" for i
    using m'(3) [of i] get [of i] by auto
  ultimately show ?case using m'(2) ok by blast
qed simp

text \<open>C24. An exported \<^verbatim>\<open>graph.json\<close> imports back: every node with all its fields and extra attributes,
  every edge with its relation and provenance and its target resolved (an unresolved one to the node
  named like the symbol), and the community of every node.\<close>

theorem import_export_roundtrip:
  assumes "list_all exportable (g_nodes (s_graph s))" "bt_ok (node_community (s_partition s))"
    and "from_slice (to_vec (export_json s)) = Inr (export_json s)"
  shows "import_json from_slice (to_vec (export_json s)) =
    Inr (graph_state_default
      \<lparr>s_graph := \<lparr>g_nodes = g_nodes (s_graph s), g_edges = map linked (g_edges (s_graph s))\<rparr>,
       s_partition :=
         \<lparr>node_community =
            filter (\<lambda>(i, c). i \<in> n_id ` set (g_nodes (s_graph s))) (node_community (s_partition s)),
          communities = bt_empty\<rparr>\<rparr>)"
proof -
  let ?ns = "g_nodes (s_graph s)" and ?nc = "node_community (s_partition s)"
  from import_export_nodes [OF assms(1), of "s_partition s" bt_empty] obtain m' where
    m': "import_nodes (map (\<lambda>n. node_to_json n (s_partition s)) ?ns) bt_empty = Inr (?ns, m')" "bt_ok m'"
      "\<And>i. bt_get m' i = (if i \<in> n_id ` set ?ns \<and> bt_get ?nc i \<noteq> None then bt_get ?nc i else bt_get bt_empty i)"
    by auto
  have "m' = filter (\<lambda>(i, c). i \<in> n_id ` set ?ns) ?nc"
  proof (rule bt.ext_get)
    fix i
    show "bt_get m' i = bt_get (filter (\<lambda>(i, c). i \<in> n_id ` set ?ns) ?nc) i"
      using m'(3) [of i] bt_filter_get [OF assms(2), of "\<lambda>(i, c). i \<in> n_id ` set ?ns" i]
      by (auto split: option.splits)
  qed (use m'(2) assms(2) in auto)
  with m'(1) show ?thesis
    by (simp add: import_json_def assms(3) import_value_def,
        simp add: export_json_def j_index_def j_get_def as_array_def bt_get_collect import_export_edges)
qed


definition sample_graph :: graph_state where
  "sample_graph = graph_state_default
     \<lparr>s_graph :=
        \<lparr>g_nodes =
           [(node_new ''a'' ''run'' ''function'')
              \<lparr>n_file := Some ''a.rs'', n_span := Some \<lparr>span_start = 4, span_end = 9\<rparr>,
               n_attrs := [(''doc'', ''Runs.'')]\<rparr>,
            node_new ''b'' ''stop'' ''function''],
         g_edges =
           [\<lparr>e_source = NodeId ''a'', e_relation = ''calls'', e_confidence = Ambiguous,
             e_target = Symbol (target_ref_new ''stop'')\<rparr>]\<rparr>,
      s_partition :=
        \<lparr>node_community = [(NodeId ''a'', 7), (NodeId ''gone'', 3)], communities = bt_empty\<rparr>\<rparr>"

theorem import_export_roundtrip_witness:
  "import_json (\<lambda>b. if b = ''doc'' then Inr (export_json sample_graph) else Inl ''eof'') ''doc'' =
     Inr (graph_state_default
       \<lparr>s_graph := \<lparr>g_nodes = g_nodes (s_graph sample_graph),
          g_edges = [\<lparr>e_source = NodeId ''a'', e_relation = ''calls'', e_confidence = Ambiguous,
                      e_target = Node (NodeId ''stop'')\<rparr>]\<rparr>,
        s_partition := \<lparr>node_community = [(NodeId ''a'', 7)], communities = bt_empty\<rparr>\<rparr>)"
proof -
  have "list_all exportable (g_nodes (s_graph sample_graph))"
    "bt_ok (node_community (s_partition sample_graph))" by code_simp+
  from import_export_roundtrip [OF this, of "\<lambda>b. if b = ''doc'' then Inr (export_json sample_graph) else Inl ''eof''"
      "\<lambda>_. ''doc''"]
  show ?thesis by (simp add: sample_graph_def linked_def target_ref_new_def node_new_def)
qed

end
