(* ===== verification/Daemon.thy ===== *)
theory Daemon
  imports Responder Graphjson
begin

text \<open>
  The daemon (\<^verbatim>\<open>filigrio-daemon/src/daemon.rs\<close>): requests planned under its lock and executed outside
  it, the set of watchers (\<^verbatim>\<open>watchers.rs\<close>), the persisted registry, startup, shutdown and the clean
  marker, and the one-shot write path (\<^verbatim>\<open>apply.rs\<close>, \<^verbatim>\<open>bin/daemon.rs\<close>). What the machine decides
  (whether a watch binds, a file can be written, an apply panics, what the clocks read) are arguments or
  fields of \<open>daemon_env\<close>; the order of a hash map is \<open>shuffle\<close> there.
\<close>

section \<open>Watchers\<close>

text \<open>A producer with the items waiting in its channel.\<close>

record watcher =
  wa_priority :: lane
  wa_pending :: "produced list"

type_synonym watcher_set = "(string, watcher) btree"

definition ws_is_watching :: "watcher_set \<Rightarrow> string \<Rightarrow> bool" where
  "ws_is_watching ws i \<longleftrightarrow> bt_get ws i \<noteq> None"

definition ws_start ::
  "(daemon_project \<Rightarrow> error option) \<Rightarrow> daemon_project \<Rightarrow> watcher_set \<Rightarrow> daemon_error + watcher_set"
where
  "ws_start bind p ws =
     (if ws_is_watching ws (dp_id p) then Inr ws
      else
        (case bind p of
           Some err \<Rightarrow> Inl (Core err)
         | None \<Rightarrow> Inr (bt_insert (dp_id p) \<lparr>wa_priority = Fs, wa_pending = []\<rparr> ws)))"

definition ws_stop :: "string \<Rightarrow> watcher_set \<Rightarrow> watcher_set" where
  "ws_stop i ws = bt_remove i ws"

fun ws_start_all ::
  "(daemon_project \<Rightarrow> error option) \<Rightarrow> daemon_project list \<Rightarrow> watcher_set \<Rightarrow> watcher_set"
where
  "ws_start_all bind [] ws = ws"
| "ws_start_all bind (p # ps) ws =
     ws_start_all bind ps (case ws_start bind p ws of Inl _ \<Rightarrow> ws | Inr ws \<Rightarrow> ws)"

definition ws_stop_all :: "watcher_set \<Rightarrow> watcher_set" where
  "ws_stop_all ws = bt_empty"

text \<open>A producer sends; a removed one has no channel any more.\<close>

definition ws_send :: "string \<Rightarrow> produced \<Rightarrow> watcher_set \<Rightarrow> watcher_set" where
  "ws_send i item ws =
     (case bt_get ws i of
        None \<Rightarrow> ws
      | Some w \<Rightarrow> bt_insert i (w\<lparr>wa_pending := wa_pending w @ [item]\<rparr>) ws)"

definition ws_drain ::
  "((string \<times> watcher) list \<Rightarrow> (string \<times> watcher) list) \<Rightarrow> watcher_set \<Rightarrow>
     (string \<times> produced \<times> lane) list \<times> watcher_set"
where
  "ws_drain order ws =
     (concat (map (\<lambda>(i, w). map (\<lambda>item. (i, item, wa_priority w)) (wa_pending w)) (order ws)),
      bt_map_values (\<lambda>w. w\<lparr>wa_pending := []\<rparr>) ws)"

section \<open>The daemon\<close>

record daemon_env =
  de_host_of :: "daemon_project \<Rightarrow> host"
  de_scope_var :: "string option"
  de_shuffle :: "daemon_project list \<Rightarrow> daemon_project list"
  de_to_vec :: "registry_doc \<Rightarrow> bytes"
  de_from_slice :: "bytes \<Rightarrow> string + registry_doc"
  de_bind :: "daemon_project \<Rightarrow> error option"
  de_memory :: nat
  de_elapsed :: "nat \<Rightarrow> string"

text \<open>\<open>dm_marker_stuck\<close>: the marker cannot be removed; \<open>dm_marker_torn\<close>: what a failing write of it
  leaves.\<close>

record daemon =
  dm_registry :: registry
  dm_registry_file :: file_read
  dm_registry_error :: "string option"
  dm_queue :: priority_queue
  dm_flusher :: flusher
  dm_watchers :: watcher_set
  dm_exports :: "(string, json) btree"
  dm_marker :: file_read
  dm_marker_stuck :: bool
  dm_marker_torn :: "file_read option"
  dm_start_time :: nat
  dm_last_activity :: nat
  dm_inflight :: nat
  dm_deferred :: nat
  dm_shutdown :: "bool option"

definition CLEAN_MARKER :: bytes where
  "CLEAN_MARKER = ''clean''"

definition daemon_new ::
  "nat \<Rightarrow> flush_config \<Rightarrow> nat \<Rightarrow> file_read \<Rightarrow> file_read \<Rightarrow> (string \<Rightarrow> fs_store) \<Rightarrow> daemon"
where
  "daemon_new capacity cfg now registry_file marker disk =
     \<lparr>dm_registry = bt_empty, dm_registry_file = registry_file, dm_registry_error = None,
      dm_queue = pq_new, dm_flusher = flusher_new (cache_new (max capacity 1)) cfg disk,
      dm_watchers = bt_empty, dm_exports = bt_empty, dm_marker = marker, dm_marker_stuck = False,
      dm_marker_torn = None,
      dm_start_time = now, dm_last_activity = now, dm_inflight = 0, dm_deferred = 0,
      dm_shutdown = None\<rparr>"

definition dm_unregistered :: "daemon_env \<Rightarrow> daemon \<Rightarrow> string \<Rightarrow> string" where
  "dm_unregistered env d project =
     unregistered_project_message project (map dp_id (de_shuffle env (bt_values (dm_registry d))))"

abbreviation dm_resolve :: "daemon_env \<Rightarrow> daemon \<Rightarrow> string \<Rightarrow> string option" where
  "dm_resolve env d project \<equiv> resolve_project_id (de_shuffle env) (dm_registry d) project"

abbreviation dm_job :: "daemon_env \<Rightarrow> daemon \<Rightarrow> string \<Rightarrow> daemon_op \<Rightarrow> persistence \<Rightarrow> apply_job option" where
  "dm_job env d project op1 mode \<equiv> make_job (de_shuffle env) (dm_registry d) project op1 mode"

fun show_registry_error :: "registry_error \<Rightarrow> string" where
  "show_registry_error (Reg_Io e) = ''registry I/O error: '' @ e"
| "show_registry_error (Corrupt e) = ''registry file is corrupt: '' @ e"

definition save_registry :: "daemon_env \<Rightarrow> daemon \<Rightarrow> (daemon_error + unit) \<times> daemon" where
  "save_registry env d =
     (case dm_registry_error d of
        Some e \<Rightarrow> (Inl (DStorage (''save registry: '' @ show_registry_error (Reg_Io e))), d)
      | None \<Rightarrow>
          (Inr (), d\<lparr>dm_registry_file :=
             Contents (reg_save (de_shuffle env) (de_to_vec env) (dm_registry d))\<rparr>))"

definition handle_project_register ::
  "daemon_env \<Rightarrow> string \<Rightarrow> daemon \<Rightarrow> (daemon_error + daemon_project) \<times> daemon"
where
  "handle_project_register env path d =
     (let p = project_new path
      in case reg_add p (dm_registry d) of
           Inl e \<Rightarrow> (Inl (DOther e), d)
         | Inr r \<Rightarrow>
             (case save_registry env (d\<lparr>dm_registry := r\<rparr>) of
                (Inl err, d) \<Rightarrow> (Inl err, d)
              | (Inr _, d) \<Rightarrow> (Inr p, d)))"

definition handle_project_remove :: "daemon_env \<Rightarrow> string \<Rightarrow> daemon \<Rightarrow> (daemon_error + unit) \<times> daemon" where
  "handle_project_remove env i d =
     (case reg_remove i (dm_registry d) of
        Inl e \<Rightarrow> (Inl (DOther e), d)
      | Inr r \<Rightarrow>
          save_registry env (d\<lparr>dm_registry := r, dm_watchers := ws_stop i (dm_watchers d)\<rparr>))"

section \<open>Planning\<close>

datatype apply_verb = V_Index | V_Submit | V_Watch_On

datatype exec =
    Exec_Apply apply_job apply_verb
  | Exec_Export daemon_project
  | Exec_Flush string

datatype planned = Ready response | Exec exec

definition planned_done :: "command_outcome \<Rightarrow> planned" where
  "planned_done oc = Ready (CommandCompleted oc)"

definition planned_error :: "string \<Rightarrow> planned" where
  "planned_error m = Ready (Error_Response m)"

fun exec_project_id :: "exec \<Rightarrow> string" where
  "exec_project_id (Exec_Apply job _) = dp_id (aj_project job)"
| "exec_project_id (Exec_Export p) = dp_id p"
| "exec_project_id (Exec_Flush i) = i"

definition clean_reindex_unsupported :: daemon_error where
  "clean_reindex_unsupported =
     DOther (''`--clean` (reindex from scratch: wipe and rebuild) is not implemented yet '' @ em_dash
       @ '' run `project index` without `--clean` for an incremental index'')"

definition plan_watch :: "daemon_env \<Rightarrow> string \<Rightarrow> bool \<Rightarrow> daemon \<Rightarrow> planned \<times> daemon" where
  "plan_watch env project on d =
     (case dm_resolve env d project of
        None \<Rightarrow> (planned_error (dm_unregistered env d project), d)
      | Some i \<Rightarrow>
          (case reg_get (dm_registry d) i of
             None \<Rightarrow> (planned_error (dm_unregistered env d project), d)
           | Some p \<Rightarrow>
               if on then
                 (if ws_is_watching (dm_watchers d) i
                  then (planned_done (Watch i True None None
                          (Some (''already watching '' @ em_dash @ '' no reconcile run''))), d)
                  else
                    (case ws_start (de_bind env) p (dm_watchers d) of
                       Inl err \<Rightarrow>
                         (planned_error (''failed to start watcher for '' @ i @ '': '' @ show_daemon_error err), d)
                     | Inr ws \<Rightarrow>
                         (let d = d\<lparr>dm_watchers := ws\<rparr>
                          in case dm_job env d i (Op_Reconcile True) Flush of
                               None \<Rightarrow> (planned_error (dm_unregistered env d project), d)
                             | Some job \<Rightarrow> (Exec (Exec_Apply job V_Watch_On), d))))
               else
                 (let was_watching = ws_is_watching (dm_watchers d) i;
                      d = d\<lparr>dm_watchers := ws_stop i (dm_watchers d)\<rparr>
                  in case reg_set_watch i False (dm_registry d) of
                       Inl e \<Rightarrow> (planned_error (''failed to persist watch=off for '' @ i @ '': '' @ e), d)
                     | Inr r \<Rightarrow>
                         (case save_registry env (d\<lparr>dm_registry := r\<rparr>) of
                            (Inl err, d) \<Rightarrow>
                              (planned_error (''failed to persist watch=off for '' @ i @ '': ''
                                 @ show_daemon_error err), d)
                          | (Inr _, d) \<Rightarrow>
                              (planned_done (Watch i False None None
                                 (if was_watching then None
                                  else Some (''was not watching '' @ em_dash @ '' nothing to stop''))), d)))))"

definition plan_job ::
  "daemon_env \<Rightarrow> daemon \<Rightarrow> string \<Rightarrow> daemon_op \<Rightarrow> apply_verb \<Rightarrow> planned"
where
  "plan_job env d project op1 verb =
     (case dm_job env d project op1 Flush of
        Some job \<Rightarrow> Exec (Exec_Apply job verb)
      | None \<Rightarrow> planned_error (dm_unregistered env d project))"

text \<open>The notifier exists once a shutdown signal was created; it remembers a notification.\<close>

definition create_shutdown :: "daemon \<Rightarrow> daemon" where
  "create_shutdown d = d\<lparr>dm_shutdown := Some False\<rparr>"

definition request_graceful_shutdown :: "daemon \<Rightarrow> daemon" where
  "request_graceful_shutdown d = d\<lparr>dm_shutdown := map_option (\<lambda>_. True) (dm_shutdown d)\<rparr>"

definition plan_command :: "daemon_env \<Rightarrow> nat \<Rightarrow> command \<Rightarrow> daemon \<Rightarrow> planned \<times> daemon" where
  "plan_command env now cmd d =
     (let d = d\<lparr>dm_last_activity := now\<rparr>
      in case cmd of
           ProjectRegister path \<Rightarrow>
             (case handle_project_register env path d of
                (Inr p, d) \<Rightarrow> (planned_done (Registered (dp_id p) path), d)
              | (Inl err, d) \<Rightarrow> (planned_error (''project register failed: '' @ show_daemon_error err), d))
         | ProjectRemove project \<Rightarrow>
             (case handle_project_remove env project d of
                (Inr _, d) \<Rightarrow> (planned_done (Removed project), d)
              | (Inl err, d) \<Rightarrow> (planned_error (''project remove failed: '' @ show_daemon_error err), d))
         | DaemonStop \<Rightarrow> (planned_done Stopping, request_graceful_shutdown d)
         | ProjectIndex project clean \<Rightarrow>
             if clean then (planned_error (show_daemon_error clean_reindex_unsupported), d)
             else (plan_job env d project (Op_Reconcile True) V_Index, d)
         | Submit project cs priority \<Rightarrow> (plan_job env d project (Op_Apply cs) V_Submit, d)
         | ProjectExport project \<Rightarrow>
             (case Option.bind (dm_resolve env d project) (reg_get (dm_registry d)) of
                None \<Rightarrow> (planned_error (dm_unregistered env d project), d)
              | Some p \<Rightarrow> (Exec (Exec_Export p), d))
         | ProjectFlush project \<Rightarrow>
             (case dm_resolve env d project of
                None \<Rightarrow> (planned_error (dm_unregistered env d project), d)
              | Some i \<Rightarrow> (Exec (Exec_Flush i), d))
         | ProjectWatch project on \<Rightarrow> plan_watch env project on d)"


section \<open>Execution\<close>

text \<open>\<open>Exec::run\<close>: under the project's lock inside, so each flusher operation is one step.\<close>

definition exec_run ::
  "daemon_env \<Rightarrow> nat \<times> nat \<Rightarrow> exec \<Rightarrow> daemon \<Rightarrow> (daemon_error + command_outcome) \<times> daemon"
where
  "exec_run env now x d =
     (case x of
        Exec_Apply job verb \<Rightarrow>
          (case run_job (de_host_of env) (de_scope_var env) now job (dm_flusher d) of
             (Inl err, fl) \<Rightarrow> (Inl err, d\<lparr>dm_flusher := fl\<rparr>)
           | (Inr a, fl) \<Rightarrow>
               (let i = dp_id (aj_project job)
                in case flush_project (snd now) i fl of
                     (Inl err, fl) \<Rightarrow> (Inl err, d\<lparr>dm_flusher := fl\<rparr>)
                   | (Inr _, fl) \<Rightarrow>
                       (let d = d\<lparr>dm_flusher := fl\<rparr>
                        in case verb of
                             V_Index \<Rightarrow> (Inr (Indexed i (ap_changed a) (ap_vanished a)), d)
                           | V_Submit \<Rightarrow> (Inr (OApplied i (ap_changed a) (ap_vanished a)), d)
                           | V_Watch_On \<Rightarrow>
                               (case reg_set_watch i True (dm_registry d) of
                                  Inl e \<Rightarrow> (Inl (DOther e), d)
                                | Inr r \<Rightarrow>
                                    (case save_registry env (d\<lparr>dm_registry := r\<rparr>) of
                                       (Inl err, d) \<Rightarrow> (Inl err, d)
                                     | (Inr _, d) \<Rightarrow>
                                         (Inr (Watch i True (Some (ap_changed a)) (Some (ap_vanished a)) None), d))))))
      | Exec_Export p \<Rightarrow>
          (case flush_locked (snd now) (dp_id p) (dm_flusher d) of
             (Inl err, fl) \<Rightarrow> (Inl err, d\<lparr>dm_flusher := fl\<rparr>)
           | (Inr _, fl) \<Rightarrow>
               (let d = d\<lparr>dm_flusher := fl\<rparr>
                in case fs_snapshot (fl_disk fl (dp_output_dir p)) of
                     Inl err \<Rightarrow> (Inl (Core err), d)
                   | Inr doc \<Rightarrow>
                       (Inr (Exported (dp_id p) (join_path (dp_output_dir p) ''graph.json'')),
                        d\<lparr>dm_exports := bt_insert (dp_output_dir p) doc (dm_exports d)\<rparr>)))
      | Exec_Flush i \<Rightarrow>
          (case flush_project (snd now) i (dm_flusher d) of
             (Inl err, fl) \<Rightarrow> (Inl err, d\<lparr>dm_flusher := fl\<rparr>)
           | (Inr wrote, fl) \<Rightarrow> (Inr (Flushed i wrote), d\<lparr>dm_flusher := fl\<rparr>)))"

text \<open>\<open>None\<close>: the work panicked.\<close>

definition catch_command_panic :: "string \<Rightarrow> (daemon_error + 'a) option \<Rightarrow> daemon_error + 'a" where
  "catch_command_panic i work =
     (case work of
        Some r \<Rightarrow> r
      | None \<Rightarrow>
          Inl (DOther (''command panicked while executing for '' @ [CHR 0x27] @ i @ [CHR 0x27] @ '' ''
            @ em_dash @ '' state may be partially applied; run `project index` to converge'')))"

text \<open>\<open>panic\<close>: the work panics, leaving this flusher.\<close>

definition execute_planned ::
  "daemon_env \<Rightarrow> nat \<times> nat \<Rightarrow> flusher option \<Rightarrow> planned \<Rightarrow> daemon \<Rightarrow> response \<times> daemon"
where
  "execute_planned env now panic pl d =
     (case pl of
        Ready response \<Rightarrow> (response, d)
      | Exec x \<Rightarrow>
          (let (r, d) =
                 (case panic of
                    Some fl \<Rightarrow> (catch_command_panic (exec_project_id x) None, d\<lparr>dm_flusher := fl\<rparr>)
                  | None \<Rightarrow>
                      (case exec_run env now x d of
                         (r, d) \<Rightarrow> (catch_command_panic (exec_project_id x) (Some r), d)))
           in case r of
                Inr oc \<Rightarrow> (CommandCompleted oc, d)
              | Inl err \<Rightarrow> (Error_Response (show_daemon_error err), d)))"

section \<open>Reads\<close>

definition health :: "daemon_env \<Rightarrow> nat \<Rightarrow> daemon \<Rightarrow> health_status" where
  "health env now d =
     \<lparr>he_uptime_secs = now - dm_start_time d, he_project_count = length (dm_registry d),
      he_queue_depth = pq_len (dm_queue d), he_applies_inflight = dm_inflight d,
      he_applies_deferred = dm_deferred d, he_memory_bytes = de_memory env,
      he_last_activity = de_elapsed env (now - dm_last_activity d)\<rparr>"

definition handle_meta :: "daemon_env \<Rightarrow> nat \<Rightarrow> meta_query \<Rightarrow> daemon \<Rightarrow> response" where
  "handle_meta env now q d =
     (case q of
        Health \<Rightarrow> QueryResult (P_Health (health env now d))
      | Progress project \<Rightarrow>
          Error_Response (''Progress is not yet implemented (project: '' @ project @ '')''))"

definition project_status ::
  "nat \<Rightarrow> string \<Rightarrow> daemon \<Rightarrow> (daemon_error + project_status) \<times> daemon"
where
  "project_status now i d =
     (case reg_get (dm_registry d) i of
        None \<Rightarrow> (Inl (ProjectNotFound i), d)
      | Some p \<Rightarrow>
          (case fl_state_of now p (dm_flusher d) of
             (Inl err, fl) \<Rightarrow> (Inl err, d\<lparr>dm_flusher := fl\<rparr>)
           | (Inr a, fl) \<Rightarrow>
               (let s = deref (fl_cache fl) a
                in (Inr \<lparr>st_project = i, st_has_drift = False,
                         st_last_revision = map_option the_rev (latest_revision (s_manifest s)),
                         st_file_count = length (s_manifest s),
                         st_node_count = length (g_nodes (s_graph s)),
                         st_watching = ws_is_watching (dm_watchers d) (dp_id p),
                         st_dirty = fl_is_dirty fl (dp_id p),
                         st_dirty_for_secs = dirty_for now fl (dp_id p),
                         st_last_persisted_secs_ago = since_persisted now fl (dp_id p)\<rparr>,
                    d\<lparr>dm_flusher := fl\<rparr>))))"

definition handle_data ::
  "('f, 'b) score_ops_scheme \<Rightarrow> petgraph \<Rightarrow> (u16 \<Rightarrow> string) \<Rightarrow> daemon_env \<Rightarrow> nat \<Rightarrow> data_query \<Rightarrow>
     daemon \<Rightarrow> response \<times> daemon"
where
  "handle_data ops pg fmt2 env now q d =
     (case q of
        DQ_Status (Some project) \<Rightarrow>
          (case dm_resolve env d project of
             None \<Rightarrow> (Error_Response (dm_unregistered env d project), d)
           | Some i \<Rightarrow>
               (case project_status now i d of
                  (Inr st, d) \<Rightarrow> (QueryResult (P_Status st), d)
                | (Inl err, d) \<Rightarrow> (Error_Response (show_daemon_error err), d)))
      | DQ_Status None \<Rightarrow> (Error_Response ''all-projects Status is not yet implemented'', d)
      | _ \<Rightarrow>
          (case handle_query ops pg fmt2 (warm_source (de_shuffle env)) q
                  \<lparr>ww_registry = dm_registry d, ww_flusher = dm_flusher d, ww_now = now\<rparr> of
             (response, w) \<Rightarrow> (response, d\<lparr>dm_flusher := ww_flusher w\<rparr>)))"

section \<open>The request funnel\<close>

definition plan_request ::
  "('f, 'b) score_ops_scheme \<Rightarrow> petgraph \<Rightarrow> (u16 \<Rightarrow> string) \<Rightarrow> daemon_env \<Rightarrow> nat \<Rightarrow> request \<Rightarrow>
     daemon \<Rightarrow> planned \<times> daemon"
where
  "plan_request ops pg fmt2 env now r d =
     (case r of
        Control (Command cmd) \<Rightarrow> plan_command env now cmd d
      | Control (Meta q) \<Rightarrow> (Ready (handle_meta env now q d), d)
      | Data q \<Rightarrow> (case handle_data ops pg fmt2 env now q d of (response, d) \<Rightarrow> (Ready response, d)))"

definition handle_request ::
  "('f, 'b) score_ops_scheme \<Rightarrow> petgraph \<Rightarrow> (u16 \<Rightarrow> string) \<Rightarrow> daemon_env \<Rightarrow> nat \<times> nat \<Rightarrow>
     flusher option \<Rightarrow> request \<Rightarrow> daemon \<Rightarrow> response \<times> daemon"
where
  "handle_request ops pg fmt2 env now panic r d =
     (case plan_request ops pg fmt2 env (fst now) r d of
        (pl, d) \<Rightarrow> execute_planned env now panic pl d)"

section \<open>Lifecycle\<close>

definition load_registry :: "daemon_env \<Rightarrow> daemon \<Rightarrow> (daemon_error + unit) \<times> daemon" where
  "load_registry env d =
     (case reg_load (de_from_slice env) (dm_registry_file d) of
        Inl err \<Rightarrow> (Inl (DStorage (''load registry: '' @ show_registry_error err)), d)
      | Inr loaded \<Rightarrow>
          (Inr (),
           d\<lparr>dm_registry :=
             foldl (\<lambda>r p. if reg_get r (dp_id p) = None
                          then (case reg_add p r of Inl _ \<Rightarrow> r | Inr r \<Rightarrow> r) else r)
               (dm_registry d) (de_shuffle env (bt_values loaded))\<rparr>))"

definition marker_is_clean :: "file_read \<Rightarrow> bool" where
  "marker_is_clean f = (case f of Contents b \<Rightarrow> b = CLEAN_MARKER | _ \<Rightarrow> False)"

definition consume_marker :: "daemon \<Rightarrow> daemon" where
  "consume_marker d =
     (if dm_marker d \<noteq> Absent \<and> \<not> dm_marker_stuck d then d\<lparr>dm_marker := Absent\<rparr> else d)"

definition run_reconcile_now ::
  "daemon_env \<Rightarrow> nat \<times> nat \<Rightarrow> daemon_project \<Rightarrow> bool \<Rightarrow> daemon \<Rightarrow> (daemon_error + unit) \<times> daemon"
where
  "run_reconcile_now env now p deep d =
     (case run_job (de_host_of env) (de_scope_var env) now
             \<lparr>aj_project = p, aj_op = op_of (Reconcile_Request deep), aj_persistence = Flush\<rparr>
             (dm_flusher d) of
        (r, fl) \<Rightarrow> (map_sum id (\<lambda>_. ()) r, d\<lparr>dm_flusher := fl\<rparr>))"

definition watched_projects :: "daemon_env \<Rightarrow> daemon \<Rightarrow> daemon_project list" where
  "watched_projects env d = filter dp_watch (de_shuffle env (bt_values (dm_registry d)))"

definition startup_reconcile :: "daemon_env \<Rightarrow> nat \<times> nat \<Rightarrow> daemon \<Rightarrow> daemon" where
  "startup_reconcile env now d =
     (let deep = \<not> marker_is_clean (dm_marker d); d = consume_marker d
      in foldl (\<lambda>d p. snd (run_reconcile_now env now p deep d)) d (watched_projects env d))"

definition start_all_watchers :: "daemon_env \<Rightarrow> daemon \<Rightarrow> daemon" where
  "start_all_watchers env d =
     d\<lparr>dm_watchers := ws_start_all (de_bind env) (watched_projects env d) (dm_watchers d)\<rparr>"

text \<open>\<open>startup\<close> once the handshake is won.\<close>

definition startup :: "daemon_env \<Rightarrow> nat \<times> nat \<Rightarrow> daemon \<Rightarrow> (daemon_error + unit) \<times> daemon" where
  "startup env now d =
     (case load_registry env d of
        (Inl err, d) \<Rightarrow> (Inl err, d)
      | (Inr _, d) \<Rightarrow> (Inr (), start_all_watchers env (startup_reconcile env now d)))"

definition shutdown :: "nat \<Rightarrow> daemon \<Rightarrow> daemon" where
  "shutdown now d =
     (case flush_all now (dm_flusher d) of
        (failures, fl) \<Rightarrow>
          (let d = d\<lparr>dm_flusher := fl\<rparr>
           in if failures \<noteq> [] then d
              else d\<lparr>dm_marker :=
                (case dm_marker_torn d of None \<Rightarrow> Contents CLEAN_MARKER | Some left \<Rightarrow> left)\<rparr>))"

definition teardown :: "nat \<Rightarrow> daemon \<Rightarrow> daemon" where
  "teardown now d = shutdown now (d\<lparr>dm_watchers := ws_stop_all (dm_watchers d)\<rparr>)"

section \<open>One-shot commands\<close>

definition run_command_cold ::
  "(daemon_project \<Rightarrow> host) \<Rightarrow> string option \<Rightarrow> nat \<times> nat \<Rightarrow> daemon_project \<Rightarrow> command \<Rightarrow>
     (string \<Rightarrow> fs_store) \<Rightarrow> (daemon_error + command_outcome) \<times> (string \<Rightarrow> fs_store) \<times> json option"
where
  "run_command_cold host_of scope_var now p cmd disk =
     (let fl = flusher_new (cache_new 1) flush_config_default disk
      in case cmd of
           Submit _ cs _ \<Rightarrow>
             (case apply_core host_of scope_var now p cs Flush fl of
                (Inl err, fl) \<Rightarrow> (Inl err, fl_disk fl, None)
              | (Inr a, fl) \<Rightarrow>
                  (Inr (OApplied (dp_id p) (ap_changed a) (ap_vanished a)), fl_disk fl, None))
         | ProjectIndex _ clean \<Rightarrow>
             if clean then (Inl clean_reindex_unsupported, disk, None)
             else
               (case reconcile_project host_of scope_var now p True Flush fl of
                  (Inl err, fl) \<Rightarrow> (Inl err, fl_disk fl, None)
                | (Inr a, fl) \<Rightarrow>
                    (Inr (Indexed (dp_id p) (ap_changed a) (ap_vanished a)), fl_disk fl, None))
         | ProjectFlush _ \<Rightarrow> (Inr (Flushed (dp_id p) False), disk, None)
         | ProjectExport _ \<Rightarrow>
             (case flush_locked (snd now) (dp_id p) fl of
                (Inl err, fl) \<Rightarrow> (Inl err, fl_disk fl, None)
              | (Inr _, fl) \<Rightarrow>
                  (case fs_snapshot (fl_disk fl (dp_output_dir p)) of
                     Inl err \<Rightarrow>
                       (Inl (DOther (''export failed for '' @ dp_id p @ '': '' @ show_error err)),
                        fl_disk fl, None)
                   | Inr doc \<Rightarrow>
                       (Inr (Exported (dp_id p) (join_path (dp_output_dir p) ''graph.json'')),
                        fl_disk fl, Some doc)))
         | ProjectWatch _ _ \<Rightarrow>
             (Inl (DOther ''watch requires the resident daemon (`filigrio server serve`)''), disk, None)
         | _ \<Rightarrow>
             (Inl (DOther (''this command needs the resident daemon''
                @ [CHR 0x27] @ ''s registry/lifecycle '' @ em_dash
                @ '' start the daemon, or drop --no-daemon'')), disk, None))"

text \<open>The one-shot process's project: the request's name, the working directory as its root.\<close>

definition cold_project :: "cold_world \<Rightarrow> string \<Rightarrow> daemon_project" where
  "cold_project w project =
     \<lparr>dp_id = project, dp_root = cw_base_dir w, dp_output_dir = cold_output_dir w project,
      dp_watch = False\<rparr>"

definition run_one_shot_command ::
  "(daemon_project \<Rightarrow> host) \<Rightarrow> string option \<Rightarrow> nat \<times> nat \<Rightarrow> command \<Rightarrow> cold_world \<Rightarrow>
     response \<times> cold_world \<times> json option"
where
  "run_one_shot_command host_of scope_var now cmd w =
     (let run = (\<lambda>project.
            (case run_command_cold host_of scope_var now (cold_project w project) cmd (cw_disk w) of
               (Inr oc, disk, doc) \<Rightarrow> (CommandCompleted oc, w\<lparr>cw_disk := disk\<rparr>, doc)
             | (Inl err, disk, doc) \<Rightarrow>
                 (Error_Response (''one-shot command failed: '' @ show_daemon_error err),
                  w\<lparr>cw_disk := disk\<rparr>, doc)))
      in case cmd of
           Submit project _ _ \<Rightarrow> run project
         | ProjectIndex project _ \<Rightarrow> run project
         | ProjectExport project \<Rightarrow> run project
         | ProjectFlush project \<Rightarrow> run project
         | ProjectWatch _ _ \<Rightarrow>
             (Error_Response ''watch requires the resident daemon (`filigrio server serve`)'', w, None)
         | _ \<Rightarrow>
             (Error_Response (''this command needs the resident daemon'' @ [CHR 0x27]
                @ ''s registry/lifecycle '' @ em_dash @ '' start the daemon, or drop --no-daemon''), w, None))"

end
