(* ===== verification/Daemon_Props.thy ===== *)
theory Daemon_Props
  imports Daemon Responder_Props Apply_Refine
begin

text \<open>
  What the daemon keeps across any sequence of requests, jobs of the pool and passes of the flush driver,
  what an acknowledged command has achieved, and what a clean start may rely on.
\<close>

section \<open>Reads of projects without content\<close>

lemma warm_state_any:
  assumes "fl_ok D fl" "disk_fine D fl" "inj D" "project_at D p" "warm_state_of now p fl = (r, fl')"
  shows "(\<exists>err. r = Inl err) \<and> fl' = fl
    \<or> (\<exists>a. r = Inr a \<and> reads D fl (dp_id p) (deref (fl_cache fl') a) fl')"
proof (cases "peek_arc (fl_cache fl) (dp_id p)")
  case (Some a)
  then have "is_resident (fl_cache fl) (dp_id p)" by (auto simp: is_resident_def peek_arc_def)
  with touch_reads [OF assms(1,2) Some] Some assms(5) show ?thesis
    by (auto simp: warm_state_of_def get_arc_def)
next
  case None
  then have none: "\<not> is_resident (fl_cache fl) (dp_id p)" by (simp add: is_resident_def peek_arc_def)
  show ?thesis
  proof (cases "fs_has_checkpoint (fl_disk fl (dp_output_dir p))")
    case True
    then have "indexed D fl (dp_id p)" using assms(4) by (simp add: indexed_def project_at_def)
    from warm_state_reads [OF assms(1-4) this, of now] assms(5) show ?thesis by auto
  next
    case False
    with none assms(5) show ?thesis by (auto simp: warm_state_of_def get_arc_def)
  qed
qed

lemma warm_view_any:
  assumes "fl_ok D fl" "disk_fine D fl" "inj D" "project_at D p" "warm_view_of now p fl = (r, fl')"
  shows "(\<exists>err. r = Inl err) \<and> fl' = fl \<or> (\<exists>s. r = Inr (view_new s) \<and> reads D fl (dp_id p) s fl')"
proof (cases "Option.bind (bt_get (pc_graphs (fl_cache fl)) (dp_id p)) res_view")
  case None
  obtain r1 fl1 where 1: "warm_state_of now p fl = (r1, fl1)" by fastforce
  from warm_state_any [OF assms(1-4) 1] show ?thesis
  proof
    assume "(\<exists>err. r1 = Inl err) \<and> fl1 = fl"
    with None 1 assms(5) show ?thesis by (auto simp: warm_view_of_def cache_view_def)
  next
    assume "\<exists>a. r1 = Inr a \<and> reads D fl (dp_id p) (deref (fl_cache fl1) a) fl1"
    then obtain a where a: "r1 = Inr a" "reads D fl (dp_id p) (deref (fl_cache fl1) a) fl1" by blast
    with None 1 assms(5) have "r = Inr (view_new (deref (fl_cache fl1) a))"
      "fl' = fl1\<lparr>fl_cache := snd (install_view (fl_cache fl1) (dp_id p) a (view_new (deref (fl_cache fl1) a)))\<rparr>"
      by (auto simp: warm_view_of_def cache_view_def Let_def)
    with install_reads [OF a(2) refl, of "dp_id p" a] show ?thesis by blast
  qed
next
  case (Some v)
  then obtain q where q: "bt_get (pc_graphs (fl_cache fl)) (dp_id p) = Some q" "res_view q = Some v"
    by (auto simp: bind_eq_Some_conv)
  then have v: "v = view_new (deref (fl_cache fl) (res_state q))"
    using fl_okD(1) [OF assms(1)] by (auto simp: cache_ok_def graphs_ok_def)
  have "peek_arc (fl_cache fl) (dp_id p) = Some (res_state q)" using q by (simp add: peek_arc_def)
  note touch_reads [OF assms(1,2) this]
  with Some v assms(5) show ?thesis by (auto simp: warm_view_of_def cache_view_def)
qed

text \<open>A predicate of the world that the two reads of a source keep is kept by every query.\<close>

lemma handle_query_keeps:
  assumes "\<And>i w. P w \<Longrightarrow> P (snd (ss_state src i w))" "\<And>i w. P w \<Longrightarrow> P (snd (ss_view src i w))" "P w"
  shows "P (snd (handle_query ops pg fmt2 src q w))"
proof -
  have view: "P (snd (with_view src i f w))" for i f
    using assms(2) [OF assms(3), of i] assms(3)
    by (auto simp: with_view_def project_view_def split: prod.split sum.split)
  have "P (snd (handle_project_status src i w))" for i
    using assms(1) [OF assms(3), of i] assms(3)
    by (auto simp: handle_project_status_def split: prod.split sum.split)
  with view assms(3) show ?thesis by (cases q) (auto simp: handle_query_def split: option.split)
qed

section \<open>The invariant\<close>

definition placed :: "(string \<Rightarrow> string) \<Rightarrow> registry \<Rightarrow> bool" where
  "placed D r \<longleftrightarrow> reg_ok r \<and> (\<forall>i p. bt_get r i = Some p \<longrightarrow> project_at D p)"

definition daemon_ok :: "(string \<Rightarrow> string) \<Rightarrow> daemon \<Rightarrow> bool" where
  "daemon_ok D d \<longleftrightarrow>
     fl_ok D (dm_flusher d) \<and> disk_fine D (dm_flusher d) \<and> placed D (dm_registry d)
     \<and> bt_ok (dm_watchers d)
     \<and> (\<forall>i. ws_is_watching (dm_watchers d) i \<longrightarrow> bt_get (dm_registry d) i \<noteq> None)"

lemma daemon_okD:
  assumes "daemon_ok D d"
  shows "fl_ok D (dm_flusher d)" and "disk_fine D (dm_flusher d)" and "placed D (dm_registry d)"
    and "bt_ok (dm_watchers d)" and "ws_is_watching (dm_watchers d) i \<Longrightarrow> bt_get (dm_registry d) i \<noteq> None"
  using assms by (auto simp: daemon_ok_def)

lemma daemon_ok_flusher:
  "daemon_ok D d \<Longrightarrow> fl_ok D fl \<Longrightarrow> disk_fine D fl \<Longrightarrow> daemon_ok D (d\<lparr>dm_flusher := fl\<rparr>)"
  by (simp add: daemon_ok_def)

lemma daemon_ok_other [simp]:
  "daemon_ok D (d\<lparr>dm_registry_file := f\<rparr>) = daemon_ok D d"
  "daemon_ok D (d\<lparr>dm_last_activity := n\<rparr>) = daemon_ok D d"
  "daemon_ok D (d\<lparr>dm_shutdown := s\<rparr>) = daemon_ok D d"
  "daemon_ok D (d\<lparr>dm_exports := e\<rparr>) = daemon_ok D d"
  "daemon_ok D (d\<lparr>dm_marker := m\<rparr>) = daemon_ok D d"
  by (simp_all add: daemon_ok_def)

lemma placed_get: "placed D r \<Longrightarrow> reg_get r i = Some p \<Longrightarrow> project_at D p \<and> dp_id p = i"
  by (auto simp: placed_def reg_get_def reg_ok_get)

lemma placed_add: "placed D r \<Longrightarrow> project_at D p \<Longrightarrow> reg_add p r = Inr r' \<Longrightarrow> placed D r'"
  by (auto simp: placed_def reg_add_def reg_ok_iff bt_get_insert bt_ok_insert split: option.splits if_splits)

lemma placed_remove:
  assumes "placed D r" "reg_remove i r = Inr r'"
  shows "placed D r'"
proof -
  have "r' = bt_remove i r" using assms(2) by (auto simp: reg_remove_def split: option.splits)
  with assms reg_remove_ok [OF _ assms(2)] show ?thesis
    by (auto simp: placed_def bt_get_remove split: if_splits)
qed

lemma placed_set_watch:
  assumes "placed D r" "reg_set_watch i b r = Inr r'"
  shows "placed D r'" and "bt_get r' j \<noteq> None \<longleftrightarrow> bt_get r j \<noteq> None"
proof -
  obtain p where p: "bt_get r i = Some p" "r' = bt_insert i (p\<lparr>dp_watch := b\<rparr>) r"
    using assms(2) by (auto simp: reg_set_watch_def split: option.splits)
  show "placed D r'"
    using assms(1) reg_set_watch_ok [OF _ assms(2)] p
    by (auto simp: placed_def bt_get_insert project_at_def split: if_splits)
  show "bt_get r' j \<noteq> None \<longleftrightarrow> bt_get r j \<noteq> None" using p by (simp add: bt_get_insert)
qed

lemma save_registry_ok: "save_registry env d = (r, d') \<Longrightarrow> daemon_ok D d' = daemon_ok D d"
  by (auto simp: save_registry_def split: option.splits)

text \<open>What an input names when it resolves.\<close>

lemma resolved_registered:
  assumes "placed D r" "\<And>ps. set (shuffle ps) = set ps" "resolve_project_id shuffle r input = Some i"
  shows "\<exists>p. reg_get r i = Some p \<and> project_at D p \<and> dp_id p = i"
proof (cases "reg_get r input")
  case (Some p)
  with assms placed_get [OF assms(1) Some] show ?thesis by (auto simp: resolve_project_id_def)
next
  case None
  with assms(3) obtain p where p: "find_by_path shuffle r input = Some p" "dp_id p = i"
    by (auto simp: resolve_project_id_def)
  then have "p \<in> set (shuffle (bt_values r))" by (auto simp: find_by_path_def find_Some_iff)
  then have "p \<in> set (bt_values r)" by (simp only: assms(2))
  then obtain k where "(k, p) \<in> set r" by (auto simp: bt_values_def)
  moreover have "bt_ok r" using assms(1) by (simp add: placed_def reg_ok_def)
  ultimately have "reg_get r k = Some p" by (simp add: reg_get_def bt_in_set_iff)
  with placed_get [OF assms(1) this] p(2) show ?thesis by auto
qed

lemma made_job:
  assumes "placed D r" "\<And>ps. set (shuffle ps) = set ps" "make_job shuffle r input op1 mode = Some job"
  shows "project_at D (aj_project job)" and "aj_op job = op1" and "aj_persistence job = mode"
    and "resolve_project_id shuffle r input = Some (dp_id (aj_project job))"
  using assms(3) resolved_registered [OF assms(1,2), of input]
  by (auto simp: make_job_def split: option.splits)

section \<open>Executing\<close>

fun exec_at :: "(string \<Rightarrow> string) \<Rightarrow> exec \<Rightarrow> bool" where
  "exec_at D (Exec_Apply job v) = project_at D (aj_project job)"
| "exec_at D _ = True"

fun spec_exec :: "daemon_env \<Rightarrow> exec \<Rightarrow> (string \<Rightarrow> graph_state) \<Rightarrow> string \<Rightarrow> graph_state" where
  "spec_exec env (Exec_Apply job v) m =
     (let i = dp_id (aj_project job)
      in m(i := persisted (snd (spec_job (de_host_of env) (de_scope_var env) job (m i)))))"
| "spec_exec env _ m = m"

text \<open>The daemon after a step: well formed, and believing this of its projects.\<close>

definition settles :: "(string \<Rightarrow> string) \<Rightarrow> (string \<Rightarrow> graph_state) \<Rightarrow> daemon \<Rightarrow> bool" where
  "settles D m d \<longleftrightarrow> daemon_ok D d \<and> believed D (dm_flusher d) = m"

lemma settles_flusher:
  "daemon_ok D d \<Longrightarrow> fl_ok D fl \<Longrightarrow> disk_fine D fl \<Longrightarrow> believed D fl = m \<Longrightarrow> settles D m (d\<lparr>dm_flusher := fl\<rparr>)"
  by (simp add: settles_def daemon_ok_flusher)

lemma settles_other [simp]:
  "settles D m (d\<lparr>dm_exports := e\<rparr>) = settles D m d"
  "settles D m (d\<lparr>dm_registry_file := f\<rparr>) = settles D m d"
  "settles D m (d\<lparr>dm_last_activity := n\<rparr>) = settles D m d"
  "settles D m (d\<lparr>dm_shutdown := b\<rparr>) = settles D m d"
  by (simp_all add: settles_def)

lemma save_registry_settles:
  assumes "save_registry env d = (r, d')"
  shows "settles D m d' = settles D m d" and "dm_flusher d' = dm_flusher d"
    and "dm_registry d' = dm_registry d" and "dm_marker d' = dm_marker d"
    and "dm_marker_stuck d' = dm_marker_stuck d" and "dm_watchers d' = dm_watchers d"
  using assms by (auto simp: save_registry_def split: option.splits)

lemma set_watch_settles:
  assumes "settles D m d" "reg_set_watch i b (dm_registry d) = Inr r"
  shows "settles D m (d\<lparr>dm_registry := r\<rparr>)"
  using assms placed_set_watch [OF _ assms(2)] by (auto simp: settles_def daemon_ok_def)

lemma watch_saved:
  assumes "settles D m d" "reg_set_watch i b (dm_registry d) = Inr r"
    "save_registry env (d\<lparr>dm_registry := r\<rparr>) = (res, d')"
  shows "settles D m d'" and "dm_flusher d' = dm_flusher d"
  using save_registry_settles [OF assms(3)] set_watch_settles [OF assms(1,2)] by simp_all

text \<open>What an apply acknowledges once its state is written.\<close>

definition acknowledge ::
  "daemon_env \<Rightarrow> string \<Rightarrow> apply_verb \<Rightarrow> applied \<Rightarrow> daemon \<Rightarrow> (daemon_error + command_outcome) \<times> daemon"
where
  "acknowledge env i verb a d =
     (case verb of
        V_Index \<Rightarrow> (Inr (Indexed i (ap_changed a) (ap_vanished a)), d)
      | V_Submit \<Rightarrow> (Inr (OApplied i (ap_changed a) (ap_vanished a)), d)
      | V_Watch_On \<Rightarrow>
          (case reg_set_watch i True (dm_registry d) of
             Inl e \<Rightarrow> (Inl (DOther e), d)
           | Inr r \<Rightarrow>
               (case save_registry env (d\<lparr>dm_registry := r\<rparr>) of
                  (Inl err, d) \<Rightarrow> (Inl err, d)
                | (Inr _, d) \<Rightarrow>
                    (Inr (Watch i True (Some (ap_changed a)) (Some (ap_vanished a)) None), d))))"

lemma acknowledge_settles:
  assumes "settles D m d" "acknowledge env i verb a d = (r, d')"
  shows "settles D m d'" and "dm_flusher d' = dm_flusher d"
  using assms watch_saved [OF assms(1)]
  by (fastforce simp: acknowledge_def split: apply_verb.splits sum.splits prod.splits)+

lemma exec_apply_run:
  fixes env :: daemon_env
  assumes "daemon_ok D d" "inj D" "project_at D (aj_project job)"
  defines "i \<equiv> dp_id (aj_project job)" and "m \<equiv> believed D (dm_flusher d)"
  defines "spec \<equiv> spec_job (de_host_of env) (de_scope_var env) job (m i)"
  shows "\<exists>fl. settles D (m(i := persisted (snd spec))) (d\<lparr>dm_flusher := fl\<rparr>)
    \<and> exec_run env now (Exec_Apply job verb) d =
       (case fst spec of
          Inl err \<Rightarrow> (Inl err, d\<lparr>dm_flusher := fl\<rparr>)
        | Inr a \<Rightarrow> acknowledge env i verb a (d\<lparr>dm_flusher := fl\<rparr>))
    \<and> (\<forall>a. fst spec = Inr a \<longrightarrow> \<not> fl_is_dirty fl i)"
proof -
  note ok = daemon_okD [OF assms(1)]
  from run_job_refines [OF ok(1,2) assms(2,3), of "de_host_of env" "de_scope_var env" now] obtain fl1 where
    1: "run_job (de_host_of env) (de_scope_var env) now job (dm_flusher d) = (fst spec, fl1)"
       "fl_ok D fl1" "disk_fine D fl1" "believed D fl1 = m(i := persisted (snd spec))"
    unfolding i_def m_def spec_def by blast
  show ?thesis
  proof (cases "fst spec")
    case (Inl err)
    with 1 settles_flusher [OF assms(1) 1(2,3,4)] show ?thesis by (auto simp: exec_run_def)
  next
    case (Inr a)
    from flush_project_refines [OF 1(2,3) assms(2), of "snd now" i] obtain fl2 where
      2: "flush_project (snd now) i fl1 = (Inr (fl_is_dirty fl1 i), fl2)" "fl_ok D fl2" "disk_fine D fl2"
         "believed D fl2 = believed D fl1" "fl_dirty fl2 = bt_remove i (fl_dirty fl1)" by blast
    then have clean: "\<not> fl_is_dirty fl2 i" by (simp add: fl_is_dirty_def bt_get_remove)
    have "settles D (m(i := persisted (snd spec))) (d\<lparr>dm_flusher := fl2\<rparr>)"
      using settles_flusher [OF assms(1) 2(2,3)] 1(4) 2(4) by simp
    with clean 1(1) 2(1) Inr show ?thesis
      by (intro exI [of _ fl2])
        (simp add: exec_run_def acknowledge_def Let_def i_def cong: apply_verb.case_cong sum.case_cong)
  qed
qed

text \<open>A flush that saves a project ahead of an export or on request.\<close>

lemma saved_settles:
  assumes "daemon_ok D d" "fl_ok D fl" "disk_fine D fl" "believed D fl = believed D (dm_flusher d)"
    and "fl_dirty fl = bt_remove i (fl_dirty (dm_flusher d))"
  shows "settles D (believed D (dm_flusher d)) (d\<lparr>dm_flusher := fl\<rparr>) \<and> \<not> fl_is_dirty fl i"
  using settles_flusher [OF assms(1-4)] assms(5) by (simp add: fl_is_dirty_def bt_get_remove)

lemma exec_run_settles:
  assumes "daemon_ok D d" "inj D" "exec_at D x" "exec_run env now x d = (r, d')"
  shows "settles D (spec_exec env x (believed D (dm_flusher d))) d'
    \<and> ((\<exists>oc. r = Inr oc) \<longrightarrow> \<not> fl_is_dirty (dm_flusher d') (exec_project_id x))"
proof (cases x)
  note ok = daemon_okD [OF assms(1)]
  {
    case (Exec_Apply job verb)
    with assms(3) have "project_at D (aj_project job)" by simp
    note run = exec_apply_run [OF assms(1,2) this, of env now verb]
    let ?i = "dp_id (aj_project job)"
    let ?spec = "spec_job (de_host_of env) (de_scope_var env) job (believed D (dm_flusher d) ?i)"
    from run obtain fl where
      fl: "settles D ((believed D (dm_flusher d))(?i := persisted (snd ?spec))) (d\<lparr>dm_flusher := fl\<rparr>)"
        "\<And>a. fst ?spec = Inr a \<Longrightarrow> \<not> fl_is_dirty fl ?i" and
      res: "exec_run env now (Exec_Apply job verb) d =
        (case fst ?spec of Inl err \<Rightarrow> (Inl err, d\<lparr>dm_flusher := fl\<rparr>)
         | Inr a \<Rightarrow> acknowledge env ?i verb a (d\<lparr>dm_flusher := fl\<rparr>))" by blast
    show ?thesis
    proof (cases "fst ?spec")
      case (Inl err)
      with fl(1) res assms(4) Exec_Apply show ?thesis by (auto simp: Let_def)
    next
      case (Inr a)
      with res assms(4) Exec_Apply have "acknowledge env ?i verb a (d\<lparr>dm_flusher := fl\<rparr>) = (r, d')" by simp
      from acknowledge_settles [OF fl(1) this] fl(2) [OF Inr] Exec_Apply show ?thesis by (simp add: Let_def)
    qed
  next
    case (Exec_Export p)
    from flush_locked_refines [OF ok(1,2) assms(2), of "snd now" "dp_id p"] obtain fl where
      "flush_locked (snd now) (dp_id p) (dm_flusher d) = (Inr (fl_is_dirty (dm_flusher d) (dp_id p)), fl)"
      "settles D (believed D (dm_flusher d)) (d\<lparr>dm_flusher := fl\<rparr>) \<and> \<not> fl_is_dirty fl (dp_id p)"
      using saved_settles [OF assms(1)] by blast
    with assms(4) Exec_Export show ?thesis by (auto simp: exec_run_def Let_def split: sum.splits)
  next
    case (Exec_Flush i)
    from flush_project_refines [OF ok(1,2) assms(2), of "snd now" i] obtain fl where
      "flush_project (snd now) i (dm_flusher d) = (Inr (fl_is_dirty (dm_flusher d) i), fl)"
      "settles D (believed D (dm_flusher d)) (d\<lparr>dm_flusher := fl\<rparr>) \<and> \<not> fl_is_dirty fl i"
      using saved_settles [OF assms(1)] by blast
    with assms(4) Exec_Flush show ?thesis by (auto simp: exec_run_def)
  }
qed

section \<open>Planning\<close>

fun command_at :: "(string \<Rightarrow> string) \<Rightarrow> command \<Rightarrow> bool" where
  "command_at D (ProjectRegister path) = project_at D (project_new path)"
| "command_at D _ = True"

definition fair :: "daemon_env \<Rightarrow> bool" where
  "fair env \<longleftrightarrow> (\<forall>ps. mset (de_shuffle env ps) = mset ps)"

lemma fair_set: "fair env \<Longrightarrow> set (de_shuffle env ps) = set ps"
  by (metis fair_def set_mset_mset)

lemma register_settles:
  assumes "settles D m d" "project_at D (project_new path)" "handle_project_register env path d = (r, d')"
  shows "settles D m d'"
proof (cases "reg_add (project_new path) (dm_registry d)")
  case (Inr r1)
  have "settles D m (d\<lparr>dm_registry := r1\<rparr>)"
    using assms(1) placed_add [OF _ assms(2) Inr] Inr
    by (auto simp: settles_def daemon_ok_def reg_add_def bt_get_insert split: option.splits)
  with assms(3) Inr show ?thesis
    by (auto simp: handle_project_register_def Let_def dest: save_registry_settles(1) split: prod.splits sum.splits)
qed (use assms(1,3) in \<open>auto simp: handle_project_register_def\<close>)

lemma remove_settles:
  assumes "settles D m d" "handle_project_remove env i d = (r, d')"
  shows "settles D m d'"
proof (cases "reg_remove i (dm_registry d)")
  case (Inr r1)
  then have r1: "r1 = bt_remove i (dm_registry d)" by (auto simp: reg_remove_def split: option.splits)
  have "settles D m (d\<lparr>dm_registry := r1, dm_watchers := ws_stop i (dm_watchers d)\<rparr>)"
    using assms(1) placed_remove [OF _ Inr]
    by (auto simp: settles_def daemon_ok_def ws_stop_def ws_is_watching_def bt_get_remove bt_ok_remove r1)
  with assms(2) Inr show ?thesis
    by (auto simp: handle_project_remove_def dest: save_registry_settles(1))
qed (use assms in \<open>auto simp: handle_project_remove_def\<close>)

lemma resolved:
  assumes "settles D m d" "fair env" "dm_resolve env d project = Some i"
  shows "\<exists>p. reg_get (dm_registry d) i = Some p \<and> project_at D p \<and> dp_id p = i"
  using resolved_registered [of D "dm_registry d" "de_shuffle env"] fair_set [OF assms(2)] assms(1,3)
  by (simp add: settles_def daemon_ok_def)

lemma job_at:
  assumes "settles D m d" "fair env" "dm_job env d project op1 mode = Some job"
  shows "project_at D (aj_project job)"
  using made_job(1) [of D "dm_registry d" "de_shuffle env"] fair_set [OF assms(2)] assms(1,3)
  by (simp add: settles_def daemon_ok_def)

lemma watch_bt_ok: "ws_start bind p ws = Inr ws' \<Longrightarrow> bt_ok ws \<Longrightarrow> bt_ok ws'"
  by (auto simp: ws_start_def bt_ok_insert split: if_splits option.splits)

lemma ws_start_watching:
  "ws_start bind p ws = Inr ws' \<Longrightarrow> ws_is_watching ws' i \<longleftrightarrow> i = dp_id p \<or> ws_is_watching ws i"
  by (auto simp: ws_start_def ws_is_watching_def bt_get_insert split: if_splits option.splits)

lemma watchers_settles:
  assumes "settles D m d" "bt_ok ws" "\<And>i. ws_is_watching ws i \<Longrightarrow> bt_get (dm_registry d) i \<noteq> None"
  shows "settles D m (d\<lparr>dm_watchers := ws\<rparr>)"
  using assms by (simp add: settles_def daemon_ok_def)

lemma ws_stop_settles: "settles D m d \<Longrightarrow> settles D m (d\<lparr>dm_watchers := ws_stop i (dm_watchers d)\<rparr>)"
  by (rule watchers_settles)
    (auto simp: settles_def daemon_ok_def ws_stop_def ws_is_watching_def bt_get_remove bt_ok_remove
      split: if_splits)

text \<open>A plan is placed and leaves the daemon well formed.\<close>

definition plans :: "(string \<Rightarrow> string) \<Rightarrow> (string \<Rightarrow> graph_state) \<Rightarrow> planned \<times> daemon \<Rightarrow> bool" where
  "plans D m pd \<longleftrightarrow> settles D m (snd pd) \<and> (\<forall>x. fst pd = Exec x \<longrightarrow> exec_at D x)"

lemma plans_ready [simp]: "plans D m (planned_done oc, d) = settles D m d"
    "plans D m (planned_error e, d) = settles D m d" "plans D m (Ready r, d) = settles D m d"
    "plans D m (Exec x, d) \<longleftrightarrow> settles D m d \<and> exec_at D x"
  by (simp_all add: plans_def planned_done_def planned_error_def)

lemma plan_job_plans: "settles D m d \<Longrightarrow> fair env \<Longrightarrow> plans D m (plan_job env d project op1 verb, d)"
  by (auto simp: plan_job_def dest: job_at split: option.split)

lemma plan_watch_plans:
  assumes "settles D m d" "fair env"
  shows "plans D m (plan_watch env project on d)"
proof (cases "dm_resolve env d project")
  case (Some i)
  from resolved [OF assms Some] obtain p where
    p: "reg_get (dm_registry d) i = Some p" "project_at D p" "dp_id p = i" by blast
  show ?thesis
  proof (cases on)
    case True
    show ?thesis
    proof (cases "ws_start (de_bind env) p (dm_watchers d)")
      case (Inr ws)
      have "settles D m (d\<lparr>dm_watchers := ws\<rparr>)"
        using assms(1) watch_bt_ok [OF Inr] ws_start_watching [OF Inr] p(1,3)
        by (intro watchers_settles) (auto simp: settles_def daemon_ok_def reg_get_def)
      moreover have "project_at D (aj_project job)"
        if "make_job (de_shuffle env) (dm_registry d) i op1 mode = Some job" for job op1 mode
        using job_at [OF assms that] .
      ultimately show ?thesis using Some p(1) True Inr assms(1)
        by (auto simp: plan_watch_def Let_def split: option.split)
    qed (use Some p(1) True assms(1) in \<open>auto simp: plan_watch_def\<close>)
  next
    case False
    let ?d = "d\<lparr>dm_watchers := ws_stop i (dm_watchers d)\<rparr>"
    note stop = ws_stop_settles [OF assms(1), of i]
    show ?thesis
    proof (cases "reg_set_watch i False (dm_registry d)")
      case (Inr r)
      then have "reg_set_watch i False (dm_registry ?d) = Inr r" by simp
      note saved = watch_saved(1) [OF stop this]
      obtain res d' where save: "save_registry env (?d\<lparr>dm_registry := r\<rparr>) = (res, d')" by fastforce
      from saved [OF save] save Some p(1) False Inr show ?thesis
        by (auto simp: plan_watch_def Let_def split: sum.split)
    qed (use Some p(1) False stop in \<open>auto simp: plan_watch_def Let_def\<close>)
  qed
qed (use assms(1) in \<open>auto simp: plan_watch_def\<close>)

lemma plan_command_plans:
  assumes "settles D m d" "fair env" "command_at D cmd"
  shows "plans D m (plan_command env now cmd d)"
proof -
  let ?d = "d\<lparr>dm_last_activity := now\<rparr>"
  have d: "settles D m ?d" using assms(1) by simp
  show ?thesis
  proof (cases cmd)
    case (ProjectRegister path)
    with assms(3) register_settles [OF d] show ?thesis
      by (auto simp: plan_command_def split: prod.split sum.split)
  next
    case (ProjectRemove i)
    with remove_settles [OF d] show ?thesis
      by (auto simp: plan_command_def split: prod.split sum.split)
  next
    case (ProjectWatch project on)
    with plan_watch_plans [OF d assms(2)] show ?thesis by (simp add: plan_command_def)
  next
    case (ProjectIndex project clean)
    with plan_job_plans [OF d assms(2)] d show ?thesis by (simp add: plan_command_def Let_def)
  next
    case (Submit project cs l)
    with plan_job_plans [OF d assms(2)] show ?thesis by (simp add: plan_command_def Let_def)
  qed (use d in \<open>auto simp: plan_command_def request_graceful_shutdown_def Let_def split: option.split\<close>)
qed

section \<open>Reading\<close>

lemma reads_settles:
  "daemon_ok D d \<Longrightarrow> reads D (dm_flusher d) i s fl \<Longrightarrow> settles D (believed D (dm_flusher d)) (d\<lparr>dm_flusher := fl\<rparr>)"
  by (auto simp: reads_def intro: settles_flusher)

text \<open>The resident source only pages.\<close>

definition paged :: "(string \<Rightarrow> string) \<Rightarrow> registry \<Rightarrow> (string \<Rightarrow> graph_state) \<Rightarrow> warm_world \<Rightarrow> bool" where
  "paged D r m w \<longleftrightarrow>
     ww_registry w = r \<and> fl_ok D (ww_flusher w) \<and> disk_fine D (ww_flusher w) \<and> believed D (ww_flusher w) = m"

lemma registered_at:
  assumes "placed D r" "\<And>ps. set (shuffle ps) = set ps" "registered shuffle r input = Some p"
  shows "project_at D p"
proof (cases "reg_get r input")
  case (Some q)
  with assms(3) placed_get [OF assms(1) Some] show ?thesis by (simp add: registered_def)
next
  case None
  with assms(3) have "p \<in> set (shuffle (bt_values r))"
    by (auto simp: registered_def find_by_path_def find_Some_iff)
  then have "p \<in> set (bt_values r)" by (simp only: assms(2))
  then obtain k where "(k, p) \<in> set r" by (auto simp: bt_values_def)
  with assms(1) show ?thesis by (auto simp: placed_def reg_ok_def bt_in_set_iff)
qed

lemma paged_reads:
  assumes "inj D" "placed D r" "\<And>ps. set (shuffle ps) = set ps" "paged D r m w"
  shows "paged D r m (snd (ss_state (warm_source shuffle) i w))"
    and "paged D r m (snd (ss_view (warm_source shuffle) i w))"
proof -
  have w: "ww_registry w = r" "fl_ok D (ww_flusher w)" "disk_fine D (ww_flusher w)"
    "believed D (ww_flusher w) = m" using assms(4) by (auto simp: paged_def)
  have keep: "paged D r m (w\<lparr>ww_flusher := fl\<rparr>)" if "fl = ww_flusher w \<or> reads D (ww_flusher w) k s fl" for fl k s
    using that w by (auto simp: paged_def reads_def)
  show "paged D r m (snd (ss_state (warm_source shuffle) i w))"
  proof (cases "registered shuffle r i")
    case (Some p)
    obtain res fl where res: "warm_state_of (ww_now w) p (ww_flusher w) = (res, fl)" by fastforce
    from warm_state_any [OF w(2,3) assms(1) registered_at [OF assms(2,3) Some] res] keep
    have "paged D r m (w\<lparr>ww_flusher := fl\<rparr>)" by blast
    with Some res w(1) show ?thesis by (simp add: warm_source_def split: sum.split)
  qed (use assms(4) w(1) in \<open>simp add: warm_source_def\<close>)
  show "paged D r m (snd (ss_view (warm_source shuffle) i w))"
  proof (cases "registered shuffle r i")
    case (Some p)
    obtain res fl where res: "warm_view_of (ww_now w) p (ww_flusher w) = (res, fl)" by fastforce
    from warm_view_any [OF w(2,3) assms(1) registered_at [OF assms(2,3) Some] res] keep
    have "paged D r m (w\<lparr>ww_flusher := fl\<rparr>)" by blast
    with Some res w(1) show ?thesis by (simp add: warm_source_def)
  qed (use assms(4) w(1) in \<open>simp add: warm_source_def\<close>)
qed

lemma handle_data_settles:
  assumes "settles D m d" "inj D" "fair env"
  shows "settles D m (snd (handle_data ops pg fmt2 env now q d))"
proof -
  have ok: "daemon_ok D d" "believed D (dm_flusher d) = m" using assms(1) by (simp_all add: settles_def)
  note d = daemon_okD [OF ok(1)]
  let ?w = "\<lparr>ww_registry = dm_registry d, ww_flusher = dm_flusher d, ww_now = now\<rparr>"
  obtain r w where w: "handle_query ops pg fmt2 (warm_source (de_shuffle env)) q ?w = (r, w)" by fastforce
  have "paged D (dm_registry d) m (snd (handle_query ops pg fmt2 (warm_source (de_shuffle env)) q ?w))"
    by (rule handle_query_keeps [where P = "paged D (dm_registry d) m"],
        use paged_reads [OF assms(2) d(3) fair_set [OF assms(3)]] ok(2) d(1,2) in \<open>simp_all add: paged_def\<close>)
  with w have page: "settles D m (d\<lparr>dm_flusher := ww_flusher w\<rparr>)"
    using ok(1) by (auto simp: paged_def settles_def daemon_ok_flusher)
  have status: "settles D m (snd (project_status now i d))" for i
  proof (cases "reg_get (dm_registry d) i")
    case (Some p)
    from placed_get [OF d(3) Some] state_of_refines [OF d(1,2) assms(2), of p now] obtain a fl where
      "fl_state_of now p (dm_flusher d) = (Inr a, fl)" "fl_ok D fl" "disk_fine D fl"
      "believed D fl = believed D (dm_flusher d)" by blast
    with Some settles_flusher [OF ok(1), of fl m] ok(2) show ?thesis by (simp add: project_status_def Let_def)
  qed (use assms(1) in \<open>simp add: project_status_def\<close>)
  then have status': "project_status now i d = (res, d1) \<Longrightarrow> settles D m d1" for i res d1 by (metis snd_conv)
  show ?thesis
  proof (cases "\<exists>i. q = DQ_Status i")
    case True
    then obtain i where "q = DQ_Status i" by blast
    with assms(1) show ?thesis
      by (cases i) (auto simp: handle_data_def split: option.split prod.split sum.split dest: status')
  next
    case False
    with w page show ?thesis by (cases q) (simp_all add: handle_data_def)
  qed
qed

section \<open>Requests\<close>

fun request_at :: "(string \<Rightarrow> string) \<Rightarrow> request \<Rightarrow> bool" where
  "request_at D (Control (Command cmd)) = command_at D cmd"
| "request_at D _ = True"

lemma plan_request_plans:
  assumes "settles D m d" "inj D" "fair env" "request_at D r"
  shows "plans D m (plan_request ops pg fmt2 env now r d)"
proof (cases r)
  case (Control c)
  with assms plan_command_plans [OF assms(1,3)] show ?thesis
    by (cases c) (auto simp: plan_request_def)
next
  case (Data q)
  with handle_data_settles [OF assms(1-3), of ops pg fmt2 now q] show ?thesis
    by (auto simp: plan_request_def split: prod.split)
qed

text \<open>What a request makes of the states.\<close>

definition spec_plan :: "daemon_env \<Rightarrow> planned \<Rightarrow> (string \<Rightarrow> graph_state) \<Rightarrow> string \<Rightarrow> graph_state" where
  "spec_plan env pl m = (case pl of Ready _ \<Rightarrow> m | Exec x \<Rightarrow> spec_exec env x m)"

lemma execute_settles:
  assumes "plans D m (pl, d)" "inj D" "execute_planned env now None pl d = (resp, d')"
  shows "settles D (spec_plan env pl m) d'"
    and "pl = Exec x \<Longrightarrow> resp = CommandCompleted oc \<Longrightarrow> \<not> fl_is_dirty (dm_flusher d') (exec_project_id x)"
proof -
  have "settles D (spec_plan env pl m) d' \<and> (\<forall>x oc. pl = Exec x \<longrightarrow> resp = CommandCompleted oc \<longrightarrow>
      \<not> fl_is_dirty (dm_flusher d') (exec_project_id x))"
  proof (cases pl)
    case (Exec x)
    obtain r d1 where run: "exec_run env now x d = (r, d1)" by fastforce
    from assms(1) Exec have "daemon_ok D d" "believed D (dm_flusher d) = m" "exec_at D x"
      by (simp_all add: settles_def)
    with exec_run_settles [OF _ assms(2) _ run] run assms(3) Exec show ?thesis
      by (auto simp: execute_planned_def catch_command_panic_def spec_plan_def split: sum.splits)
  qed (use assms in \<open>auto simp: execute_planned_def spec_plan_def\<close>)
  then show "settles D (spec_plan env pl m) d'"
    and "pl = Exec x \<Longrightarrow> resp = CommandCompleted oc \<Longrightarrow> \<not> fl_is_dirty (dm_flusher d') (exec_project_id x)"
    by blast+
qed

lemma handle_request_settles:
  assumes "settles D m d" "inj D" "fair env" "request_at D r"
    and "handle_request ops pg fmt2 env now None r d = (resp, d')"
  shows "settles D (spec_plan env (fst (plan_request ops pg fmt2 env (fst now) r d)) m) d'"
proof -
  obtain pl d1 where plan: "plan_request ops pg fmt2 env (fst now) r d = (pl, d1)" by fastforce
  with plan_request_plans [OF assms(1-4), of ops pg fmt2 "fst now"] have "plans D m (pl, d1)" by simp
  from execute_settles(1) [OF this assms(2)] assms(5) plan show ?thesis by (simp add: handle_request_def)
qed

section \<open>The life of a daemon\<close>

datatype daemon_event =
    Request "nat \<times> nat" request
  | Pool_Job "nat \<times> nat" apply_job
  | Flush_Pass nat
  | Notify string produced
  | Collect

definition event_step ::
  "('f, 'b) score_ops_scheme \<Rightarrow> petgraph \<Rightarrow> (u16 \<Rightarrow> string) \<Rightarrow> daemon_env \<Rightarrow> daemon_event \<Rightarrow>
     daemon \<Rightarrow> daemon"
where
  "event_step ops pg fmt2 env ev d =
     (case ev of
        Request now r \<Rightarrow> snd (handle_request ops pg fmt2 env now None r d)
      | Pool_Job now job \<Rightarrow>
          d\<lparr>dm_flusher := snd (run_job (de_host_of env) (de_scope_var env) now job (dm_flusher d))\<rparr>
      | Flush_Pass now \<Rightarrow> d\<lparr>dm_flusher := snd (flush_due now (dm_flusher d))\<rparr>
      | Notify i item \<Rightarrow> d\<lparr>dm_watchers := ws_send i item (dm_watchers d)\<rparr>
      | Collect \<Rightarrow>
          (case ws_drain id (dm_watchers d) of
             (items, ws) \<Rightarrow> d\<lparr>dm_watchers := ws, dm_queue := route_watcher_events items (dm_queue d)\<rparr>))"

definition run_events ::
  "('f, 'b) score_ops_scheme \<Rightarrow> petgraph \<Rightarrow> (u16 \<Rightarrow> string) \<Rightarrow> daemon_env \<Rightarrow> daemon_event list \<Rightarrow>
     daemon \<Rightarrow> daemon"
where
  "run_events ops pg fmt2 env evs d = fold (event_step ops pg fmt2 env) evs d"

fun event_at :: "(string \<Rightarrow> string) \<Rightarrow> daemon_event \<Rightarrow> bool" where
  "event_at D (Request now r) = request_at D r"
| "event_at D (Pool_Job now job) = project_at D (aj_project job)"
| "event_at D _ = True"

lemma event_ok:
  assumes "daemon_ok D d" "inj D" "fair env" "event_at D ev"
  shows "daemon_ok D (event_step ops pg fmt2 env ev d)"
proof (cases ev)
  note d = daemon_okD [OF assms(1)]
  have settled: "settles D (believed D (dm_flusher d)) d" using assms(1) by (simp add: settles_def)
  {
    case (Request now r)
    obtain resp d' where "handle_request ops pg fmt2 env now None r d = (resp, d')" by fastforce
    with handle_request_settles [OF settled assms(2,3) _ this] assms(4) Request show ?thesis
      by (simp add: event_step_def settles_def)
  next
    case (Pool_Job now job)
    with assms(4) have "project_at D (aj_project job)" by simp
    from run_job_refines [OF d(1,2) assms(2) this, of "de_host_of env" "de_scope_var env" now]
    show ?thesis using Pool_Job assms(1) by (auto simp: event_step_def daemon_ok_flusher)
  next
    case (Flush_Pass now)
    from flush_each_refines [OF d(1,2) assms(2), of now "due now (dm_flusher d)"]
    show ?thesis using Flush_Pass assms(1) by (auto simp: event_step_def flush_due_def daemon_ok_flusher)
  next
    case (Notify i item)
    with assms(1) show ?thesis
      by (auto simp: event_step_def daemon_ok_def ws_send_def ws_is_watching_def bt_get_insert bt_ok_insert
          split: option.splits if_splits)
  next
    case Collect
    with assms(1) show ?thesis
      by (auto simp: event_step_def ws_drain_def daemon_ok_def ws_is_watching_def bt_get_map_values)
  }
qed

lemma events_ok:
  assumes "daemon_ok D d" "inj D" "fair env" "\<forall>ev \<in> set evs. event_at D ev"
  shows "daemon_ok D (run_events ops pg fmt2 env evs d)"
  using assms(1,4)
proof (induction evs arbitrary: d)
  case (Cons ev evs)
  from event_ok [OF Cons.prems(1) assms(2,3), of ev ops pg fmt2] Cons show ?case by (simp add: run_events_def)
qed (simp add: run_events_def)

section \<open>An acknowledged command is on disk\<close>

fun saves :: "command \<Rightarrow> string option" where
  "saves (ProjectIndex project _) = Some project"
| "saves (Submit project _ _) = Some project"
| "saves (ProjectFlush project) = Some project"
| "saves (ProjectExport project) = Some project"
| "saves _ = None"

lemma saving_plan:
  assumes "settles D m d" "fair env" "saves cmd = Some project" "dm_resolve env d project = Some i"
  shows "(\<exists>x. fst (plan_command env now cmd d) = Exec x \<and> exec_project_id x = i)
    \<or> fst (plan_command env now cmd d) = planned_error (show_daemon_error clean_reindex_unsupported)"
proof -
  from resolved [OF assms(1,2,4)] obtain p where
    p: "reg_get (dm_registry d) i = Some p" "dp_id p = i" by blast
  with assms(3,4) show ?thesis
    by (cases cmd) (auto simp: plan_command_def plan_job_def make_job_def Let_def)
qed

text \<open>C6. When an index, a submission, a flush or an export is answered with success, the directory of the
  project it names holds the state that the daemon believes the project to have.\<close>

theorem command_success_means_saved:
  assumes "daemon_ok D d" "inj D" "fair env" "saves cmd = Some project" "dm_resolve env d project = Some i"
    and "handle_request ops pg fmt2 env now None (Control (Command cmd)) d = (CommandCompleted oc, d')"
  shows "\<exists>s. fs_read (fl_disk (dm_flusher d') (D i)) = Inr s \<and> persisted s = believed D (dm_flusher d') i"
proof -
  have m: "settles D (believed D (dm_flusher d)) d" using assms(1) by (simp add: settles_def)
  obtain pl d1 where plan: "plan_command env (fst now) cmd d = (pl, d1)" by fastforce
  have run: "execute_planned env now None pl d1 = (CommandCompleted oc, d')"
    using assms(6) plan by (simp add: handle_request_def plan_request_def)
  have "command_at D cmd" using assms(4) by (cases cmd) simp_all
  from plan_command_plans [OF m assms(3) this, of "fst now"] plan
  have plans: "plans D (believed D (dm_flusher d)) (pl, d1)" by simp
  from saving_plan [OF m assms(3-5), of "fst now"] plan run obtain x where
    x: "pl = Exec x" "exec_project_id x = i"
    by (auto simp: execute_planned_def planned_error_def)
  from execute_settles(1) [OF plans assms(2) run] have "daemon_ok D d'" by (simp add: settles_def)
  moreover from execute_settles(2) [OF plans assms(2) run x(1) refl] x(2)
  have "\<not> fl_is_dirty (dm_flusher d') i" by simp
  ultimately show ?thesis using clean_on_disk daemon_okD(1,2) by blast
qed

section \<open>A clean start\<close>

lemma save_registry_marker [simp]: "save_registry env d = (r, d') \<Longrightarrow> dm_marker d' = dm_marker d"
  by (auto simp: save_registry_def split: option.splits)

lemma plan_watch_marker: "dm_marker (snd (plan_watch env project on d)) = dm_marker d"
  by (auto simp: plan_watch_def Let_def split: option.split sum.split prod.split)

lemma plan_command_marker: "dm_marker (snd (plan_command env now cmd d)) = dm_marker d"
  by (cases cmd)
    (auto simp: plan_command_def handle_project_register_def handle_project_remove_def plan_watch_marker Let_def
      request_graceful_shutdown_def split: option.split sum.split prod.split if_split)

lemma handle_request_marker: "dm_marker (snd (handle_request ops pg fmt2 env now None r d)) = dm_marker d"
proof -
  have data: "dm_marker (snd (handle_data ops pg fmt2 env n q d)) = dm_marker d" for n q
    by (cases q) (auto simp: handle_data_def project_status_def Let_def split: option.split sum.split prod.split)
  have plan: "dm_marker (snd (plan_request ops pg fmt2 env n r d)) = dm_marker d" for n
  proof (cases r)
    case (Control c)
    with plan_command_marker [of env n _ d] show ?thesis by (cases c) (simp_all add: plan_request_def)
  next
    case (Data q)
    with data [of n q] show ?thesis by (auto simp: plan_request_def split: prod.split)
  qed
  have run: "dm_marker (snd (exec_run env now x d1)) = dm_marker d1" for x d1
    by (auto simp: exec_run_def Let_def split: exec.split sum.split prod.split apply_verb.split)
  have exec: "dm_marker (snd (execute_planned env now None pl d1)) = dm_marker d1" for pl d1
  proof (cases pl)
    case (Exec x)
    with run [of x d1] show ?thesis
      by (cases "exec_run env now x d1") (auto simp: execute_planned_def split: sum.split)
  qed (simp add: execute_planned_def)
  show ?thesis using plan [of "fst now"] exec
    by (cases "plan_request ops pg fmt2 env (fst now) r d") (simp add: handle_request_def)
qed

lemma events_marker: "dm_marker (run_events ops pg fmt2 env evs d) = dm_marker d"
proof (induction evs arbitrary: d)
  case (Cons ev evs)
  have "dm_marker (event_step ops pg fmt2 env ev d) = dm_marker d"
    by (cases ev) (simp_all add: event_step_def handle_request_marker ws_drain_def)
  with Cons show ?case by (simp add: run_events_def)
qed (simp add: run_events_def)

section \<open>Startup\<close>

lemma placed_fold_add:
  assumes "placed D r" "\<forall>p \<in> set ps. project_at D p"
  shows "placed D (foldl (\<lambda>r p. if reg_get r (dp_id p) = None
            then (case reg_add p r of Inl _ \<Rightarrow> r | Inr r \<Rightarrow> r) else r) r ps)
    \<and> (\<forall>i. bt_get r i \<noteq> None \<longrightarrow> bt_get (foldl (\<lambda>r p. if reg_get r (dp_id p) = None
            then (case reg_add p r of Inl _ \<Rightarrow> r | Inr r \<Rightarrow> r) else r) r ps) i \<noteq> None)"
  using assms
proof (induction ps arbitrary: r)
  case (Cons p ps)
  let ?r = "if reg_get r (dp_id p) = None then (case reg_add p r of Inl _ \<Rightarrow> r | Inr r \<Rightarrow> r) else r"
  have "placed D ?r" using Cons.prems placed_add [of D r p] by (auto split: sum.split)
  moreover have "bt_get r i \<noteq> None \<Longrightarrow> bt_get ?r i \<noteq> None" for i
    by (auto simp: reg_add_def bt_get_insert split: sum.split option.splits)
  ultimately show ?case using Cons.IH [of ?r] Cons.prems(2) by simp
qed simp

lemma load_registry_ok:
  assumes "daemon_ok D d" "load_registry env d = (Inr u, d')" "fair env"
    and "\<forall>loaded. reg_load (de_from_slice env) (dm_registry_file d) = Inr loaded \<longrightarrow>
          (\<forall>p \<in> set (bt_values loaded). project_at D p)"
  shows "daemon_ok D d'"
proof -
  from assms(2) obtain loaded where loaded: "reg_load (de_from_slice env) (dm_registry_file d) = Inr loaded"
    "d' = d\<lparr>dm_registry := foldl (\<lambda>r p. if reg_get r (dp_id p) = None
        then (case reg_add p r of Inl _ \<Rightarrow> r | Inr r \<Rightarrow> r) else r) (dm_registry d) (de_shuffle env (bt_values loaded))\<rparr>"
    by (auto simp: load_registry_def split: sum.splits)
  have "\<forall>p \<in> set (de_shuffle env (bt_values loaded)). project_at D p"
    using assms(4) loaded(1) by (simp add: fair_set [OF assms(3)])
  from placed_fold_add [OF daemon_okD(3) [OF assms(1)] this] assms(1) show ?thesis
    by (simp add: daemon_ok_def loaded(2))
qed

lemma reconcile_now_ok:
  assumes "daemon_ok D d" "inj D" "project_at D p"
  shows "daemon_ok D (snd (run_reconcile_now env now p deep d))"
    and "dm_registry (snd (run_reconcile_now env now p deep d)) = dm_registry d"
    and "dm_marker (snd (run_reconcile_now env now p deep d)) = dm_marker d"
proof -
  let ?job = "\<lparr>aj_project = p, aj_op = op_of (Reconcile_Request deep), aj_persistence = Flush\<rparr>"
  have "project_at D (aj_project ?job)" using assms(3) by simp
  from run_job_refines [OF daemon_okD(1,2) [OF assms(1)] assms(2) this, of "de_host_of env" "de_scope_var env" now]
  show "daemon_ok D (snd (run_reconcile_now env now p deep d))"
    using assms(1) by (auto simp: run_reconcile_now_def daemon_ok_flusher)
qed (simp_all add: run_reconcile_now_def split: prod.split)

lemma reconcile_all_ok:
  assumes "daemon_ok D d" "inj D" "\<forall>p \<in> set ps. project_at D p"
  shows "daemon_ok D (foldl (\<lambda>d p. snd (run_reconcile_now env now p deep d)) d ps)
    \<and> dm_registry (foldl (\<lambda>d p. snd (run_reconcile_now env now p deep d)) d ps) = dm_registry d
    \<and> dm_marker (foldl (\<lambda>d p. snd (run_reconcile_now env now p deep d)) d ps) = dm_marker d"
  using assms by (induction ps arbitrary: d) (simp_all add: reconcile_now_ok)

lemma watched_registered:
  assumes "placed D (dm_registry d)" "fair env" "p \<in> set (watched_projects env d)"
  shows "project_at D p" and "bt_get (dm_registry d) (dp_id p) = Some p"
proof -
  have "p \<in> set (bt_values (dm_registry d))" using assms(2,3) by (simp add: watched_projects_def fair_set)
  then obtain k where "(k, p) \<in> set (dm_registry d)" by (auto simp: bt_values_def)
  then have k: "reg_get (dm_registry d) k = Some p"
    using assms(1) by (simp add: placed_def reg_ok_def reg_get_def bt_in_set_iff)
  with placed_get [OF assms(1) k] show "project_at D p" "bt_get (dm_registry d) (dp_id p) = Some p"
    by (auto simp: reg_get_def)
qed

lemma start_all_ok:
  assumes "bt_ok ws" "\<forall>p \<in> set ps. bt_get r (dp_id p) \<noteq> None" "\<And>i. ws_is_watching ws i \<Longrightarrow> bt_get r i \<noteq> None"
  shows "bt_ok (ws_start_all bind ps ws) \<and> (\<forall>i. ws_is_watching (ws_start_all bind ps ws) i \<longrightarrow> bt_get r i \<noteq> None)"
  using assms
proof (induction ps arbitrary: ws)
  case (Cons p ps)
  show ?case
  proof (cases "ws_start bind p ws")
    case (Inr ws')
    have "ws_is_watching ws' i \<Longrightarrow> bt_get r i \<noteq> None" for i
      using ws_start_watching [OF Inr, of i] Cons.prems(2,3) by auto
    with Cons.IH [OF watch_bt_ok [OF Inr Cons.prems(1)]] Cons.prems(2) Inr show ?thesis by simp
  qed (use Cons in simp)
qed simp

lemma startup_ok:
  assumes "daemon_ok D d" "inj D" "fair env" "startup env now d = (Inr u, d')"
    and "\<forall>loaded. reg_load (de_from_slice env) (dm_registry_file d) = Inr loaded \<longrightarrow>
          (\<forall>p \<in> set (bt_values loaded). project_at D p)"
  shows "daemon_ok D d'" and "dm_marker_stuck d = False \<Longrightarrow> dm_marker d' = Absent"
proof -
  from assms(4) obtain u1 d1 where load: "load_registry env d = (Inr u1, d1)"
    and d': "d' = start_all_watchers env (startup_reconcile env now d1)"
    by (auto simp: startup_def split: prod.splits sum.splits)
  have ok1: "daemon_ok D d1" using load_registry_ok [OF assms(1) load assms(3,5)] .
  let ?d2 = "startup_reconcile env now d1"
  have "daemon_ok D (consume_marker d1)" using ok1 by (simp add: consume_marker_def)
  moreover have reg: "dm_registry (consume_marker d1) = dm_registry d1" by (simp add: consume_marker_def)
  moreover have "\<forall>p \<in> set (watched_projects env (consume_marker d1)). project_at D p"
    using watched_registered(1) [OF _ assms(3)] daemon_okD(3) [OF calculation(1)] by blast
  ultimately have ok2: "daemon_ok D ?d2" "dm_registry ?d2 = dm_registry d1"
    "dm_marker ?d2 = dm_marker (consume_marker d1)"
    using reconcile_all_ok [of D "consume_marker d1" "watched_projects env (consume_marker d1)"] assms(2)
    by (auto simp: startup_reconcile_def Let_def)
  have "bt_ok (ws_start_all (de_bind env) (watched_projects env ?d2) (dm_watchers ?d2))
    \<and> (\<forall>i. ws_is_watching (ws_start_all (de_bind env) (watched_projects env ?d2) (dm_watchers ?d2)) i \<longrightarrow>
          bt_get (dm_registry ?d2) i \<noteq> None)"
    by (rule start_all_ok)
      (use daemon_okD [OF ok2(1)] watched_registered(2) [OF daemon_okD(3) [OF ok2(1)] assms(3)] in auto)
  with ok2(1) show "daemon_ok D d'" by (simp add: d' start_all_watchers_def daemon_ok_def)
  show "dm_marker d' = Absent" if "dm_marker_stuck d = False"
    using that ok2(3) load
    by (auto simp: d' start_all_watchers_def consume_marker_def load_registry_def split: sum.splits if_splits)
qed

lemma daemon_new_ok:
  "disk_fine D (flusher_new (cache_new (max n 1)) cfg disk) \<Longrightarrow>
     daemon_ok D (daemon_new n cfg now registry_file marker disk)"
  by (simp add: daemon_ok_def daemon_new_def flusher_new_ok placed_def reg_ok_def ws_is_watching_def,
    simp add: bt_empty_def)

section \<open>What the daemon promises\<close>


text \<open>The disks at shutdown may fail in any way: \<open>breaks\<close> relates the daemon before and after they begin to.\<close>

definition breaks :: "daemon \<Rightarrow> daemon \<Rightarrow> bool" where
  "breaks d d' \<longleftrightarrow>
     (\<exists>errs torn. d' = d\<lparr>dm_flusher := (dm_flusher d)\<lparr>fl_disk :=
         (\<lambda>dir. (fl_disk (dm_flusher d) dir)\<lparr>fs_write_error := errs dir\<rparr>)\<rparr>, dm_marker_torn := torn\<rparr>)"

lemma read_error_update: "fs_read (s\<lparr>fs_write_error := e\<rparr>) = fs_read s"
  by (simp add: fs_read_def cong: option.case_cong)

lemma breaks_ok:
  fixes errs :: "string \<Rightarrow> error option"
  assumes "fl_ok D fl"
  defines "fl' \<equiv> fl\<lparr>fl_disk := (\<lambda>dir. (fl_disk fl dir)\<lparr>fs_write_error := errs dir\<rparr>)\<rparr>"
  shows "fl_ok D fl'" and "believed D fl' = believed D fl"
proof -
  have same: "fs_read (fl_disk fl' dir) = fs_read (fl_disk fl dir)" for dir
    by (simp add: fl'_def read_error_update)
  have rest: "fl_cache fl' = fl_cache fl" "fl_dirty fl' = fl_dirty fl" "fl_out_dirs fl' = fl_out_dirs fl"
    "\<And>i. fl_is_dirty fl' i = fl_is_dirty fl i" "\<And>i s. on_disk D fl' i s = on_disk D fl i s"
    by (simp_all add: fl'_def fl_is_dirty_def on_disk_def read_error_update)
  have dirs: "dirs_ok D fl' = dirs_ok D fl" by (simp add: dirs_ok_def rest(3))
  show "fl_ok D fl'" using assms(1) unfolding fl_ok_def rest dirs .
  show "believed D fl' = believed D fl" unfolding believed_def rest(1) same ..
qed

lemma write_state_readable:
  assumes "write_state now i dir s fl = (r, fl')" "\<not> isl (fs_read (fl_disk fl d))"
  shows "\<not> isl (fs_read (fl_disk fl' d))"
  using assms
  by (auto simp: write_state_def fs_save_state_def fs_read_def split: sum.splits option.splits if_splits)

lemma flush_each_readable:
  assumes "flush_each now ids fl = (failures, fl')" "\<not> isl (fs_read (fl_disk fl d))"
  shows "\<not> isl (fs_read (fl_disk fl' d))"
  using assms
proof (induction ids arbitrary: fl failures)
  case (Cons i ids)
  obtain r fl1 where 1: "flush_project now i fl = (r, fl1)" by fastforce
  then have "\<not> isl (fs_read (fl_disk fl1 d))"
    using Cons.prems(2) write_state_readable [where d = d]
    by (fastforce simp: flush_project_def flush_locked_def split: if_splits option.splits prod.splits sum.splits)
  with Cons.IH Cons.prems(1) 1 show ?case by (auto simp: Let_def split: sum.splits prod.splits)
qed simp


section \<open>One command, two lifecycles\<close>

text \<open>An apply that is to be flushed leaves nothing dirty that was not.\<close>

lemma flush_evicted_dirty:
  "flush_evicted now evs fl = (r, fl') \<Longrightarrow> fl_is_dirty fl' j \<Longrightarrow> fl_is_dirty fl j"
proof (induction evs arbitrary: fl)
  case (Cons e evs)
  let ?fl = "fl\<lparr>fl_dirty := bt_remove (ev_id e) (fl_dirty fl)\<rparr>"
  have "fl_is_dirty ?fl j \<Longrightarrow> fl_is_dirty fl j" by (simp add: fl_is_dirty_def bt_get_remove split: if_splits)
  moreover have "fl_is_dirty fl1 j = fl_is_dirty ?fl j"
    if "write_state now i dir s ?fl = (res, fl1)" for i dir s res fl1
    using that by (auto simp: write_state_def fl_is_dirty_def split: sum.splits)
  ultimately show ?case using Cons
    by (fastforce simp: Let_def split: option.splits prod.splits sum.splits)
qed simp

lemma dirty_cache [simp]: "fl_is_dirty (fl\<lparr>fl_cache := c\<rparr>) j = fl_is_dirty fl j"
  by (simp add: fl_is_dirty_def)

lemma state_of_dirty: "fl_state_of now p fl = (r, fl') \<Longrightarrow> fl_is_dirty fl' j \<Longrightarrow> fl_is_dirty fl j"
  by (auto simp: fl_state_of_def Let_def split: prod.splits option.splits sum.splits
      dest: flush_evicted_dirty)

lemma record_flush_dirty: "record_apply now p s Flush fl = (r, fl') \<Longrightarrow> fl_is_dirty fl' j \<Longrightarrow> fl_is_dirty fl j"
proof -
  assume rec: "record_apply now p s Flush fl = (r, fl')" and dirty: "fl_is_dirty fl' j"
  obtain res fl1 where w: "write_state now (dp_id p) (dp_output_dir p) s (remember p fl) = (res, fl1)" by fastforce
  then have 1: "fl_is_dirty fl1 j = fl_is_dirty fl j"
    by (auto simp: write_state_def fl_is_dirty_def split: sum.splits)
  obtain evs c where l: "load_into (dp_id p) s (fl_cache fl1) = (evs, c)" by fastforce
  show "fl_is_dirty fl j"
  proof (cases res)
    case (Inr u)
    with rec w l have "flush_evicted now evs
        (fl1\<lparr>fl_cache := c, fl_dirty := bt_remove (dp_id p) (fl_dirty fl1)\<rparr>) = (r, fl')"
      by (simp add: record_apply_def Let_def)
    from flush_evicted_dirty [OF this dirty] 1 show ?thesis
      by (auto simp: fl_is_dirty_def bt_get_remove split: if_splits)
  qed (use rec w 1 dirty in \<open>simp add: record_apply_def Let_def\<close>)
qed

lemma with_project_dirty:
  "with_project_apply host_of scope_var now p Flush mutate fl = (r, fl') \<Longrightarrow> fl_is_dirty fl' j \<Longrightarrow> fl_is_dirty fl j"
  by (auto simp: with_project_apply_def Let_def split: prod.splits sum.splits option.splits
      dest: state_of_dirty record_flush_dirty)

text \<open>A one-shot command runs the job of its verb on a fresh flusher and renames the counts.\<close>

fun cold_job :: "daemon_project \<Rightarrow> command \<Rightarrow> apply_job option" where
  "cold_job p (Submit _ cs _) = Some \<lparr>aj_project = p, aj_op = Op_Apply cs, aj_persistence = Flush\<rparr>"
| "cold_job p (ProjectIndex _ clean) =
     (if clean then None else Some \<lparr>aj_project = p, aj_op = Op_Reconcile True, aj_persistence = Flush\<rparr>)"
| "cold_job p _ = None"

fun applied_outcome :: "command \<Rightarrow> string \<Rightarrow> applied \<Rightarrow> command_outcome" where
  "applied_outcome (Submit _ _ _) i a = OApplied i (ap_changed a) (ap_vanished a)"
| "applied_outcome _ i a = Indexed i (ap_changed a) (ap_vanished a)"

lemma cold_run:
  assumes "cold_job p cmd = Some job" "inj D" "project_at D p"
    and "disk_fine D (flusher_new (cache_new 1) flush_config_default disk)"
  defines "s \<equiv> believed D (flusher_new (cache_new 1) flush_config_default disk) (dp_id p)"
  shows "\<exists>disk'. run_command_cold host_of scope_var now p cmd disk =
      (map_sum id (applied_outcome cmd (dp_id p)) (fst (spec_job host_of scope_var job s)), disk', None)
    \<and> (\<exists>s0. fs_read (disk' (D (dp_id p))) = Inr s0
          \<and> persisted s0 = persisted (snd (spec_job host_of scope_var job s)))"
proof -
  let ?fl = "flusher_new (cache_new 1) flush_config_default disk"
  have job: "aj_project job = p" "aj_persistence job = Flush"
    using assms(1) by (cases cmd; auto split: if_splits)+
  from run_job_refines [OF flusher_new_ok assms(4,2), of job host_of scope_var now] job assms(3)
  obtain fl' where run: "run_job host_of scope_var now job ?fl = (fst (spec_job host_of scope_var job s), fl')"
    "fl_ok D fl'" "disk_fine D fl'"
    "believed D fl' (dp_id p) = persisted (snd (spec_job host_of scope_var job s))"
    by (auto simp: s_def)
  have "\<not> fl_is_dirty fl' (dp_id p)"
  proof
    assume dirty: "fl_is_dirty fl' (dp_id p)"
    have "fl_is_dirty ?fl (dp_id p)"
      using run(1) assms(1) dirty
      by (cases cmd)
        (auto simp: run_job_def apply_core_def reconcile_project_def split: if_splits prod.splits sum.splits
          dest: with_project_dirty)
    then show False by (simp add: fl_is_dirty_def flusher_new_def)
  qed
  from clean_on_disk [OF run(2,3) this] run(4) obtain s0 where
    s0: "fs_read (fl_disk fl' (D (dp_id p))) = Inr s0"
      "persisted s0 = persisted (snd (spec_job host_of scope_var job s))" by auto
  have "run_command_cold host_of scope_var now p cmd disk =
      (map_sum id (applied_outcome cmd (dp_id p)) (fst (spec_job host_of scope_var job s)), fl_disk fl', None)"
    using run(1) assms(1)
    by (cases cmd)
      (auto simp: run_command_cold_def run_job_def Let_def split: if_splits sum.split)
  with s0 show ?thesis by blast
qed

lemma resident_run:
  assumes "daemon_ok D d" "inj D" "reg_get (dm_registry d) (dp_id p) = Some p" "project_at D p"
    and "cmd = Submit (dp_id p) cs l \<or> cmd = ProjectIndex (dp_id p) False" "cold_job p cmd = Some job"
    and "handle_request ops pg fmt2 env now None (Control (Command cmd)) d = (resp, d')"
  defines "i \<equiv> dp_id p"
  defines "spec \<equiv> spec_job (de_host_of env) (de_scope_var env) job (believed D (dm_flusher d) i)"
  shows "resp = (case map_sum id (applied_outcome cmd i) (fst spec) of
            Inr oc \<Rightarrow> CommandCompleted oc | Inl err \<Rightarrow> Error_Response (show_daemon_error err))"
    and "believed D (dm_flusher d') i = persisted (snd spec)"
proof -
  let ?d = "d\<lparr>dm_last_activity := fst now\<rparr>" and ?verb = "case cmd of Submit _ _ _ \<Rightarrow> V_Submit | _ \<Rightarrow> V_Index"
  have job: "aj_project job = p" using assms(5,6) by (auto split: if_splits)
  have plan: "plan_command env (fst now) cmd d = (Exec (Exec_Apply job ?verb), ?d)"
    using assms(3,5,6)
    by (auto simp: plan_command_def plan_job_def make_job_def resolve_project_id_def Let_def)
  have ok: "daemon_ok D ?d" using assms(1) by simp
  have at: "project_at D (aj_project job)" using assms(4) job by simp
  have e: "believed D (dm_flusher ?d) = believed D (dm_flusher d)" by simp
  from exec_apply_run [OF ok assms(2) at, of env now ?verb, unfolded job e, folded i_def, folded spec_def]
  obtain fl where
    fl: "settles D ((believed D (dm_flusher d))(i := persisted (snd spec))) (?d\<lparr>dm_flusher := fl\<rparr>)" and
    run: "exec_run env now (Exec_Apply job ?verb) ?d =
      (case fst spec of Inl err \<Rightarrow> (Inl err, ?d\<lparr>dm_flusher := fl\<rparr>)
       | Inr a \<Rightarrow> acknowledge env i ?verb a (?d\<lparr>dm_flusher := fl\<rparr>))"
    by blast
  have res: "(resp, d') = execute_planned env now None (Exec (Exec_Apply job ?verb)) ?d"
    using assms(7) plan by (simp add: handle_request_def plan_request_def)
  have "resp = (case map_sum id (applied_outcome cmd i) (fst spec) of
            Inr oc \<Rightarrow> CommandCompleted oc | Inl err \<Rightarrow> Error_Response (show_daemon_error err))
      \<and> d' = ?d\<lparr>dm_flusher := fl\<rparr>"
  proof (cases "fst spec")
    case (Inl err)
    with res run show ?thesis by (simp add: execute_planned_def catch_command_panic_def)
  next
    case (Inr a)
    with res run assms(5) show ?thesis
      by (auto simp: execute_planned_def catch_command_panic_def acknowledge_def)
  qed
  with fl show "resp = (case map_sum id (applied_outcome cmd i) (fst spec) of
            Inr oc \<Rightarrow> CommandCompleted oc | Inl err \<Rightarrow> Error_Response (show_daemon_error err))"
    and "believed D (dm_flusher d') i = persisted (snd spec)"
    by (auto simp: settles_def)
qed

text \<open>C8. A submission or an index of a registered project has the same outcome, and leaves the same state, in
  the resident daemon as in a one-shot process over a directory that holds what the daemon believes.\<close>

theorem cold_and_resident_commands_agree:
  assumes "daemon_ok D d" "inj D" "reg_get (dm_registry d) (dp_id p) = Some p"
    and "cmd = Submit (dp_id p) cs l \<or> cmd = ProjectIndex (dp_id p) False"
    and "disk_fine D (flusher_new (cache_new 1) flush_config_default disk)"
    and "believed D (flusher_new (cache_new 1) flush_config_default disk) (dp_id p) =
      believed D (dm_flusher d) (dp_id p)"
    and "handle_request ops pg fmt2 env now None (Control (Command cmd)) d = (resp, d')"
    and "run_command_cold (de_host_of env) (de_scope_var env) now' p cmd disk = (r, disk', doc)"
  shows "resp = (case r of Inr oc \<Rightarrow> CommandCompleted oc | Inl err \<Rightarrow> Error_Response (show_daemon_error err))
    \<and> (\<exists>s. fs_read (disk' (D (dp_id p))) = Inr s \<and> persisted s = believed D (dm_flusher d') (dp_id p))"
proof -
  have at: "project_at D p" using placed_get [OF daemon_okD(3) [OF assms(1)] assms(3)] by simp
  obtain job where job: "cold_job p cmd = Some job" using assms(4) by auto
  from cold_run [OF job assms(2) at assms(5), of "de_host_of env" "de_scope_var env" now']
    resident_run [OF assms(1-3) at assms(4) job assms(7)] assms(6,8)
  show ?thesis by auto
qed

section \<open>A status is honest\<close>

text \<open>A status counts the files and nodes of the state the daemon believes the project to have, and one that
  is not dirty means that the directory holds that state.\<close>

theorem status_is_honest:
  assumes "daemon_ok D d" "inj D" "project_status now i d = (Inr st, d')"
  shows "st_file_count st = length (s_manifest (believed D (dm_flusher d) i))
    \<and> st_node_count st = length (g_nodes (s_graph (believed D (dm_flusher d) i)))
    \<and> (\<not> st_dirty st \<longrightarrow> (\<exists>s. fs_read (fl_disk (dm_flusher d') (D i)) = Inr s
          \<and> persisted s = believed D (dm_flusher d) i))"
proof -
  from assms(3) obtain p where p: "reg_get (dm_registry d) i = Some p"
    by (auto simp: project_status_def split: option.splits)
  note at = placed_get [OF daemon_okD(3) [OF assms(1)] p]
  from state_of_refines [OF daemon_okD(1,2) [OF assms(1)] assms(2), of p now] at obtain a fl where
    fl: "fl_state_of now p (dm_flusher d) = (Inr a, fl)" "fl_ok D fl" "disk_fine D fl"
      "believed D fl = believed D (dm_flusher d)"
      "persisted (deref (fl_cache fl) a) = believed D (dm_flusher d) i" by auto
  have st: "d' = d\<lparr>dm_flusher := fl\<rparr>" "st_dirty st = fl_is_dirty fl i"
    "st_file_count st = length (s_manifest (deref (fl_cache fl) a))"
    "st_node_count st = length (g_nodes (s_graph (deref (fl_cache fl) a)))"
    using assms(3) p at fl(1) by (auto simp: project_status_def Let_def)
  have "s_manifest (persisted s) = s_manifest s" "s_graph (persisted s) = s_graph s" for s
    by (simp_all add: persisted_def)
  with fl(5) st(3,4) have "st_file_count st = length (s_manifest (believed D (dm_flusher d) i))"
    "st_node_count st = length (g_nodes (s_graph (believed D (dm_flusher d) i)))" by metis+
  with clean_on_disk [OF fl(2,3), of i] st(1,2) fl(4) show ?thesis by simp
qed

end
