(* ===== verification/Daemon_Examples.thy ===== *)
theory Daemon_Examples
  imports Daemon_Props Apply_Props
begin

text \<open>
  A small daemon on which the hypotheses of \<open>Daemon_Props\<close> hold, and runs in which the daemon does not do what
  its documentation says.
\<close>

section \<open>A daemon with two projects\<close>

definition toy_env :: daemon_env where
  "toy_env =
     \<lparr>de_host_of = (\<lambda>_. two_host), de_scope_var = None, de_shuffle = rev, de_to_vec = (\<lambda>_. ''saved''),
      de_from_slice = (\<lambda>b. if b = ''doc'' then Inr \<lparr>doc_version = 1, doc_projects = [ex_a, ex_b]\<rparr> else Inl ''eof''),
      de_bind = (\<lambda>_. None), de_memory = 0, de_elapsed = (\<lambda>_. [])\<rparr>"

lemma toy_fair: "fair toy_env"
  by (simp add: fair_def toy_env_def)

definition toy_new :: daemon where
  "toy_new = daemon_new 1 flush_config_default 0 (Contents ''doc'') (Contents CLEAN_MARKER) ex_disk"

abbreviation ask :: "nat \<Rightarrow> command \<Rightarrow> daemon \<Rightarrow> response \<times> daemon" where
  "ask now cmd \<equiv> handle_request score_rat newest_first (\<lambda>_. []) toy_env (now, now) None (Control (Command cmd))"

definition toy_dirty :: daemon where
  "toy_dirty = toy_new\<lparr>dm_registry := a_registry, dm_flusher := ex_two\<rparr>"

lemma toy_ok: "daemon_ok ex_dir toy_dirty"
proof -
  have "reg_ok a_registry" by code_simp
  moreover have "bt_get a_registry i = Some p \<Longrightarrow> p = ex_a" for i p
    by (simp add: a_registry_def bt_get_insert split: if_splits)
  ultimately have "placed ex_dir a_registry" using ex_at(1) by (auto simp: placed_def)
  then show ?thesis
    using ex_two_ok by (simp add: daemon_ok_def toy_dirty_def toy_new_def daemon_new_def ws_is_watching_def)
qed

definition toy_file :: change_set where
  "toy_file = \<lparr>added = [''a.rs''], modified = [], removed = []\<rparr>"

definition toy_events :: "daemon_event list" where
  "toy_events =
     [Request (1, 1) (Control (Command (ProjectRegister ''/w/c''))),
      Request (2, 2) (Control (Command (ProjectWatch ''a'' True))),
      Notify ''a'' (Signal toy_file), Collect,
      Pool_Job (4, 4) \<lparr>aj_project = ex_a, aj_op = Op_Apply toy_file, aj_persistence = Defer\<rparr>,
      Request (5, 5) (Data (DQ_GraphStats ''b'')), Flush_Pass 40,
      Request (41, 41) (Control (Command (ProjectRemove ''b'')))]"

lemma toy_events_at: "\<forall>ev \<in> set toy_events. event_at ex_dir ev"
  by code_simp

lemma toy_documents:
  assumes "reg_load (de_from_slice toy_env) (Contents ''doc'') = Inr loaded"
  shows "\<forall>p \<in> set (bt_values loaded). project_at ex_dir p"
proof -
  have "map_sum id bt_values (reg_load (de_from_slice toy_env) (Contents ''doc'')) = Inr [ex_a, ex_b]"
    by code_simp
  with assms ex_at show ?thesis by simp
qed

lemma toy_fine: "disk_fine ex_dir (flusher_new (cache_new n) flush_config_default ex_disk)"
  by (simp add: disk_fine_def flusher_new_def ex_disk_def fs_read_def)

lemma toy_started: "startup toy_env (1, 1) toy_new = (Inr (), snd (startup toy_env (1, 1) toy_new))"
proof -
  have "fst (startup toy_env (1, 1) toy_new) = Inr ()" by code_simp
  then show ?thesis by (metis prod.collapse)
qed


theorem command_success_means_saved_witness:
  "\<exists>d' s. ask 40 (Submit ''a'' toy_file Fs) toy_dirty = (CommandCompleted (OApplied ''a'' 1 0), d')
     \<and> fs_read (fl_disk (dm_flusher d') (ex_dir ''a'')) = Inr s \<and> persisted s = believed ex_dir (dm_flusher d') ''a''"
proof -
  have "fst (ask 40 (Submit ''a'' toy_file Fs) toy_dirty) = CommandCompleted (OApplied ''a'' 1 0)" by code_simp
  then obtain d' where d': "ask 40 (Submit ''a'' toy_file Fs) toy_dirty = (CommandCompleted (OApplied ''a'' 1 0), d')"
    by (metis prod.collapse)
  have "dm_resolve toy_env toy_dirty ''a'' = Some ''a''" by code_simp
  from command_success_means_saved [OF toy_ok ex_dir_inj toy_fair _ this d'] d' show ?thesis by auto
qed

theorem status_is_honest_witness:
  "\<exists>st d'. project_status 40 ''a'' toy_dirty = (Inr st, d') \<and> st_dirty st
     \<and> st_file_count st = length (s_manifest (believed ex_dir (dm_flusher toy_dirty) ''a''))"
proof -
  have "map_sum id st_dirty (fst (project_status 40 ''a'' toy_dirty)) = Inr True" by code_simp
  then obtain st d' where st: "project_status 40 ''a'' toy_dirty = (Inr st, d')" "st_dirty st"
    by (cases "project_status 40 ''a'' toy_dirty"; cases "fst (project_status 40 ''a'' toy_dirty)") auto
  from status_is_honest [OF toy_ok ex_dir_inj st(1)] st show ?thesis by blast
qed

text \<open>The project of \<open>toy_dirty\<close> in a one-shot process over a directory with its last state.\<close>

definition toy_cold :: "string \<Rightarrow> fs_store" where
  "toy_cold dir = \<lparr>fs_file = Some (Inr (ex_state ''1'')), fs_write_error = None, fs_force = False\<rparr>"

theorem cold_and_resident_commands_agree_witness:
  "fst (ask 40 (Submit ''a'' toy_file Fs) toy_dirty) = CommandCompleted (OApplied ''a'' 1 0)
   \<and> fst (run_command_cold (\<lambda>_. two_host) None (0, 0) ex_a (Submit ''a'' toy_file Fs) toy_cold) =
       Inr (OApplied ''a'' 1 0)"
proof -
  have fine: "disk_fine ex_dir (flusher_new (cache_new 1) flush_config_default toy_cold)"
    by (simp add: disk_fine_def flusher_new_def toy_cold_def fs_read_def)
  have same: "believed ex_dir (flusher_new (cache_new 1) flush_config_default toy_cold) (dp_id ex_a) =
      believed ex_dir (dm_flusher toy_dirty) (dp_id ex_a)" by code_simp
  have reg: "reg_get (dm_registry toy_dirty) (dp_id ex_a) = Some ex_a" by code_simp
  have "Submit ''a'' toy_file Fs = Submit (dp_id ex_a) toy_file Fs" by code_simp
  moreover obtain resp d' where "ask 40 (Submit ''a'' toy_file Fs) toy_dirty = (resp, d')" by fastforce
  moreover obtain r disk' doc where "run_command_cold (\<lambda>_. two_host) None (0, 0) ex_a (Submit ''a'' toy_file Fs) toy_cold
      = (r, disk', doc)" by (metis prod_cases3)
  moreover have "r = Inr (OApplied ''a'' 1 0)"
  proof -
    have "fst (run_command_cold (\<lambda>_. two_host) None (0, 0) ex_a (Submit ''a'' toy_file Fs) toy_cold) =
       Inr (OApplied ''a'' 1 0)" by code_simp
    with calculation show ?thesis by simp
  qed
  ultimately show ?thesis
    using cold_and_resident_commands_agree [OF toy_ok ex_dir_inj reg _ fine same,
        of "Submit ''a'' toy_file Fs" toy_file Fs score_rat newest_first "\<lambda>_. []" toy_env "(40, 40)" resp d' "(0, 0)" r disk' doc]
    by (simp add: toy_env_def)
qed

text \<open>A run and a teardown: the marker is written, and the directories hold what was believed.\<close>

definition toy_run :: daemon where
  "toy_run = run_events score_rat newest_first (\<lambda>_. []) toy_env toy_events (snd (startup toy_env (1, 1) toy_new))"

lemma toy_new_ok: "daemon_ok ex_dir toy_new"
  unfolding toy_new_def by (rule daemon_new_ok [OF toy_fine])


section \<open>Where the daemon falls short\<close>

abbreviation ask_in :: "daemon_env \<Rightarrow> nat \<Rightarrow> command \<Rightarrow> daemon \<Rightarrow> response \<times> daemon" where
  "ask_in env now cmd \<equiv> handle_request score_rat newest_first (\<lambda>_. []) env (now, now) None (Control (Command cmd))"

text \<open>The cache, the dirty windows and the directories are keyed by the id, the last component of the root,
  and a removal leaves them alone. Another root of that name registered later is answered with the removed
  project's graph, and a flush writes that graph into the new project's directory.\<close>

definition reregistered :: daemon where
  "reregistered = snd (ask 2 (ProjectRegister ''/v/a'') (snd (ask 1 (ProjectRemove ''a'') toy_dirty)))"

theorem reregistered_id_serves_old_graph:
  "map_option dp_root (reg_get (dm_registry reregistered) ''a'') = Some ''/v/a''
   \<and> \<not> fs_has_checkpoint (fl_disk (dm_flusher reregistered) ''/v/a/.filigrio-out'')
   \<and> map_sum id st_file_count (fst (project_status 3 ''a'' reregistered)) = Inr 1
   \<and> fs_read (fl_disk (dm_flusher (snd (ask 4 (ProjectFlush ''a'') (snd (project_status 3 ''a'' reregistered)))))
        ''/v/a/.filigrio-out'') = Inr (ex_state ''1'')"
  by code_simp

text \<open>A watch whose first reconcile fails has started its watcher but not recorded the wish; asking again is
  answered with success and still neither reconciles nor records it, so a restart forgets the watch.\<close>

definition lost_env :: daemon_env where
  "lost_env = toy_env\<lparr>de_host_of := (\<lambda>_. two_host\<lparr>h_root := None\<rparr>)\<rparr>"

theorem failed_watch_on_sticks:
  "(case ask_in lost_env 1 (ProjectWatch ''a'' True) toy_dirty of
      (Error_Response _, d) \<Rightarrow>
        (case ask_in lost_env 2 (ProjectWatch ''a'' True) d of
           (CommandCompleted (Watch i on changed vanished note), d) \<Rightarrow>
             on \<and> changed = None \<and> note \<noteq> None
             \<and> map_option dp_watch (reg_get (dm_registry d) ''a'') = Some False
         | _ \<Rightarrow> False)
    | _ \<Rightarrow> False)"
  by code_simp

text \<open>A registration whose save fails is answered with an error and yet stands: the project is served, and
  asking again is refused as a duplicate.\<close>

theorem failed_register_sticks:
  "(case ask 1 (ProjectRegister ''/w/c'') (toy_dirty\<lparr>dm_registry_error := Some ''disk full''\<rparr>) of
      (Error_Response _, d) \<Rightarrow>
        dm_resolve toy_env d ''c'' = Some ''c''
        \<and> fst (ask 2 (ProjectRegister ''/w/c'') (d\<lparr>dm_registry_error := None\<rparr>)) =
            Error_Response ''project register failed: other: project already exists: c''
    | _ \<Rightarrow> False)"
  by code_simp

end
