(* ===== verification/Syntax_Tree.thy ===== *)
theory Syntax_Tree
  imports Relation_Vocab
begin

text \<open>
  Parse trees as the extractors of \<^verbatim>\<open>filigrio-index\<close> see them. The parsers are third-party and parameters; a
  tree is what the accessors of \<^verbatim>\<open>tree_sitter::Node\<close> show: a kind, whether it is named, its byte range, its
  rows, and its children in order, each with the field it fills. A field is looked up as its first child.
\<close>

section \<open>UTF-8\<close>

text \<open>\<^verbatim>\<open>std::str::from_utf8\<close>: the range of the second byte after a lead byte, and how many more follow.\<close>

definition utf8_lead :: "nat \<Rightarrow> (nat \<times> nat \<times> nat) option" where
  "utf8_lead b =
     (if 0xC2 \<le> b \<and> b \<le> 0xDF then Some (0x80, 0xBF, 0)
      else if b = 0xE0 then Some (0xA0, 0xBF, 1)
      else if b = 0xED then Some (0x80, 0x9F, 1)
      else if 0xE1 \<le> b \<and> b \<le> 0xEF then Some (0x80, 0xBF, 1)
      else if b = 0xF0 then Some (0x90, 0xBF, 2)
      else if 0xF1 \<le> b \<and> b \<le> 0xF3 then Some (0x80, 0xBF, 2)
      else if b = 0xF4 then Some (0x80, 0x8F, 2)
      else None)"

definition is_cont :: "char \<Rightarrow> bool" where
  "is_cont c \<longleftrightarrow> 0x80 \<le> (of_char c :: nat) \<and> (of_char c :: nat) \<le> 0xBF"

function utf8_ok :: "bytes \<Rightarrow> bool" where
  "utf8_ok [] = True"
| "utf8_ok (c # cs) =
     (if (of_char c :: nat) < 0x80 then utf8_ok cs
      else
        (case utf8_lead (of_char c) of
           None \<Rightarrow> False
         | Some (lo, hi, n) \<Rightarrow>
             (case cs of
                [] \<Rightarrow> False
              | d # ds \<Rightarrow>
                  lo \<le> of_char d \<and> of_char d \<le> hi \<and> n \<le> length ds \<and> list_all is_cont (take n ds)
                  \<and> utf8_ok (drop n ds))))"
  by pat_completeness auto
termination
  by (relation "measure length") auto

section \<open>Trees\<close>

datatype ts_node =
  TS (ts_kind: string) (ts_named: bool) (ts_range: "nat \<times> nat") (ts_rows: "nat \<times> nat")
    (ts_kids: "(string option \<times> ts_node) list")

definition ts_children :: "ts_node \<Rightarrow> ts_node list" where
  "ts_children n = map snd (ts_kids n)"

definition ts_named_children :: "ts_node \<Rightarrow> ts_node list" where
  "ts_named_children n = filter ts_named (ts_children n)"

text \<open>\<open>node.named_child(0)\<close>\<close>

definition ts_first_named :: "ts_node \<Rightarrow> ts_node option" where
  "ts_first_named n = find ts_named (ts_children n)"

definition ts_field :: "ts_node \<Rightarrow> string \<Rightarrow> ts_node option" where
  "ts_field n f = map_option snd (find (\<lambda>k. fst k = Some f) (ts_kids n))"

definition ts_slice :: "bytes \<Rightarrow> nat \<times> nat \<Rightarrow> bytes" where
  "ts_slice src r = take (snd r - fst r) (drop (fst r) src)"

definition ts_text :: "bytes \<Rightarrow> ts_node \<Rightarrow> string option" where
  "ts_text src n = (let b = ts_slice src (ts_range n) in if utf8_ok b then Some b else None)"

text \<open>\<open>node.child_by_field_name(f).and_then(|n| text(n))\<close>\<close>

definition ts_field_text :: "bytes \<Rightarrow> ts_node \<Rightarrow> string \<Rightarrow> string option" where
  "ts_field_text src n f = Option.bind (ts_field n f) (ts_text src)"

section \<open>Size\<close>

lemma kids_size: "(f, c) \<in> set ks \<Longrightarrow> size c \<le> size_list (size_prod (\<lambda>x. 0) size) ks"
  by (induction ks) auto

lemma ts_child_size: "c \<in> set (ts_children n) \<Longrightarrow> size c < size n"
proof (cases n)
  case (TS k named r rows ks)
  assume "c \<in> set (ts_children n)"
  then obtain f where "(f, c) \<in> set ks" by (auto simp: ts_children_def TS)
  from kids_size [OF this] show ?thesis by (cases r; cases rows) (simp add: TS)
qed

lemma ts_named_child: "c \<in> set (ts_named_children n) \<Longrightarrow> c \<in> set (ts_children n)"
  by (simp add: ts_named_children_def)

lemma find_in: "find P xs = Some x \<Longrightarrow> x \<in> set xs"
  by (auto simp: find_Some_iff)

lemma ts_field_child: "ts_field n f = Some c \<Longrightarrow> c \<in> set (ts_children n)"
  by (auto simp: ts_field_def ts_children_def dest!: find_in intro: rev_image_eqI)

lemma ts_field_size: "ts_field n f = Some c \<Longrightarrow> size c < size n"
  by (rule ts_child_size [OF ts_field_child])

lemma ts_named_size: "c \<in> set (ts_named_children n) \<Longrightarrow> size c < size n"
  by (rule ts_child_size [OF ts_named_child])

lemma ts_first_named_size: "ts_first_named n = Some c \<Longrightarrow> size c < size n"
  by (auto simp: ts_first_named_def dest!: find_in intro: ts_child_size)

lemmas ts_sizes = ts_child_size ts_field_size ts_named_size

text \<open>The nodes of a tree.\<close>

function ts_subtrees :: "ts_node \<Rightarrow> ts_node list" where
  "ts_subtrees n = n # concat (map ts_subtrees (ts_children n))"
  by pat_completeness auto
termination
  by (relation "measure size") (auto dest: ts_child_size)

declare ts_subtrees.simps [simp del]

lemma ts_subtrees_self: "n \<in> set (ts_subtrees n)"
  by (simp add: ts_subtrees.simps [of n])

lemma ts_subtrees_child: "c \<in> set (ts_children n) \<Longrightarrow> set (ts_subtrees c) \<subseteq> set (ts_subtrees n)"
  by (auto simp: ts_subtrees.simps [of n])

end
