(* ===== verification/Driver.thy ===== *)
theory Driver
  imports Syntax_Tree
begin

text \<open>
  The shared extraction driver (\<^verbatim>\<open>filigrio-index/src/driver.rs\<close>), the minting of node ids (\<^verbatim>\<open>idgen.rs\<close>)
  and the filter of noise types (\<^verbatim>\<open>type_filter.rs\<close>). A \<^verbatim>\<open>HashMap\<close> whose order is not observed is an ordered
  map, a \<^verbatim>\<open>HashSet\<close> that is only asked for membership a set.
\<close>

section \<open>Facts on nodes and relations\<close>

definition ABSTRACT :: string where "ABSTRACT = ''abstract''"
definition ATTR_TRUE :: string where "ATTR_TRUE = ''true''"
definition IMPL :: string where "IMPL = ''impl''"
definition RETURNS :: string where "RETURNS = ''returns''"
definition LANGUAGE :: string where "LANGUAGE = ''language''"
definition IMPLEMENTS :: string where "IMPLEMENTS = ''implements''"
definition EXTENDS :: string where "EXTENDS = ''extends''"
definition INHERITS :: string where "INHERITS = ''inherits''"
definition FIELD_TYPE :: string where "FIELD_TYPE = ''type/field''"
definition PARAM_TYPE :: string where "PARAM_TYPE = ''type/param''"
definition RETURN_TYPE :: string where "RETURN_TYPE = ''type/return''"
definition BOUND_TYPE :: string where "BOUND_TYPE = ''type/bound''"

lemmas extract_consts =
  ABSTRACT_def ATTR_TRUE_def IMPL_def RETURNS_def LANGUAGE_def IMPLEMENTS_def EXTENDS_def INHERITS_def
  FIELD_TYPE_def PARAM_TYPE_def RETURN_TYPE_def BOUND_TYPE_def

section \<open>Ids\<close>

definition fnv_step :: "64 word \<Rightarrow> char \<Rightarrow> 64 word" where
  "fnv_step h b = (xor h (word_of_nat (of_char b))) * 0x100000001b3"

definition hex_char :: "nat \<Rightarrow> char" where
  "hex_char d = (if d < 10 then char_of (48 + d) else char_of (87 + d))"

fun hex_chars :: "nat \<Rightarrow> nat \<Rightarrow> string" where
  "hex_chars 0 v = []"
| "hex_chars (Suc k) v = hex_chars k (v div 16) @ [hex_char (v mod 16)]"

definition short_hash :: "string \<Rightarrow> string" where
  "short_hash s = hex_chars 8 (unat (ucast (foldl fnv_step 0xcbf29ce484222325 s) :: u32))"

definition qualify :: "string \<Rightarrow> string option \<Rightarrow> string" where
  "qualify name owner = (case owner of Some o' \<Rightarrow> o' @ ''::'' @ name | None \<Rightarrow> name)"

record id_meta =
  im_base :: string
  im_decl :: string

text \<open>The first of \<open>hashed\<close>, \<open>hashed~1\<close>, \<open>hashed~2\<close>, \<dots> that is not used: with \<open>length used\<close> of
  fuel one is found, as shown below.\<close>

fun free_candidate :: "nat \<Rightarrow> nat \<Rightarrow> string \<Rightarrow> string list \<Rightarrow> string \<Rightarrow> string" where
  "free_candidate 0 k hashed used candidate = candidate"
| "free_candidate (Suc fuel) k hashed used candidate =
     (if candidate \<in> set used then free_candidate fuel (k + 1) hashed used (hashed @ ''~'' @ show_nat k)
      else candidate)"

definition base_count :: "(string, id_meta) btree \<Rightarrow> string \<Rightarrow> nat" where
  "base_count meta base = length (filter (\<lambda>m. im_base m = base) (bt_values meta))"

fun remap_of ::
  "(string, id_meta) btree \<Rightarrow> node list \<Rightarrow> string list \<Rightarrow> (string, string) btree \<Rightarrow> (string, string) btree"
where
  "remap_of meta [] used remap = remap"
| "remap_of meta (n # ns) used remap =
     (case bt_get meta (the_id (n_id n)) of
        None \<Rightarrow> remap_of meta ns used remap
      | Some m \<Rightarrow>
          if base_count meta (im_base m) \<le> 1 then remap_of meta ns used remap
          else
            (let hashed = im_base m @ ''#'' @ short_hash (im_decl m);
                 candidate = free_candidate (length used) 1 hashed used hashed
             in remap_of meta ns (candidate # used) (bt_insert (the_id (n_id n)) candidate remap)))"

definition remap_id :: "(string, string) btree \<Rightarrow> node_id \<Rightarrow> node_id" where
  "remap_id remap i = (case bt_get remap (the_id i) of None \<Rightarrow> i | Some new \<Rightarrow> NodeId new)"

definition remap_edge :: "(string, string) btree \<Rightarrow> edge \<Rightarrow> edge" where
  "remap_edge remap e =
     e\<lparr>e_source := remap_id remap (e_source e),
       e_target := (case e_target e of Node t \<Rightarrow> Node (remap_id remap t) | Symbol r \<Rightarrow> Symbol r)\<rparr>"

definition finalize_collisions ::
  "node list \<Rightarrow> edge list \<Rightarrow> (string, id_meta) btree \<Rightarrow> node list \<times> edge list"
where
  "finalize_collisions nodes edges meta =
     (let remap = remap_of meta nodes [] bt_empty
      in if remap = bt_empty then (nodes, edges)
         else (map (\<lambda>n. n\<lparr>n_id := remap_id remap (n_id n)\<rparr>) nodes, map (remap_edge remap) edges))"

section \<open>Noise types\<close>

definition rust_denylist :: "string list" where
  "rust_denylist =
     [''Result'', ''Option'', ''String'', ''Box'', ''Rc'', ''Arc'', ''Cow'', ''bool'',
      ''u8'', ''u16'', ''u32'', ''u64'', ''u128'', ''usize'', ''i8'', ''i16'', ''i32'', ''i64'', ''i128'', ''isize'',
      ''f32'', ''f64'', ''char'', ''str'', ''Vec'', ''VecDeque'', ''LinkedList'', ''BinaryHeap'',
      ''HashMap'', ''HashSet'', ''BTreeMap'', ''BTreeSet'', ''RefCell'', ''Mutex'', ''RwLock'',
      ''Future'', ''Stream'', ''Pin'', ''Poll'', ''Waker'', ''Path'', ''PathBuf'',
      ''Duration'', ''Instant'', ''SystemTime'']"

definition python_denylist :: "string list" where
  "python_denylist =
     [''bool'', ''int'', ''float'', ''str'', ''list'', ''dict'', ''tuple'', ''set'', ''bytes'', ''bytearray'',
      ''complex'', ''object'', ''True'', ''False'',
      ''List'', ''Dict'', ''Tuple'', ''Set'', ''Optional'', ''Any'', ''Union'', ''Callable'', ''Iterable'',
      ''Iterator'',
      ''Sequence'', ''Mapping'', ''MutableMapping'', ''MutableSequence'', ''Awaitable'', ''AsyncIterable'',
      ''AsyncIterator'', ''Coroutine'', ''Generator'', ''AsyncGenerator'', ''ContextManager'',
      ''AsyncContextManager'', ''Annotated'', ''ClassVar'', ''Final'', ''Literal'', ''Concatenate'',
      ''ParamSpec'', ''TypeVar'', ''None'', ''Ellipsis'', ''Type'',
      ''MagicMock'', ''Mock'', ''AsyncMock'', ''NonCallableMock'', ''NonCallableMagicMock'', ''PropertyMock'',
      ''patch'', ''sentinel'']"

definition typescript_denylist :: "string list" where
  "typescript_denylist =
     [''string'', ''number'', ''boolean'', ''bigint'', ''symbol'', ''any'', ''unknown'', ''never'', ''void'',
      ''null'', ''undefined'', ''Array'', ''ReadonlyArray'', ''Map'', ''ReadonlyMap'', ''Set'', ''ReadonlySet'',
      ''WeakMap'', ''WeakSet'', ''Promise'', ''Object'', ''Record'', ''Partial'', ''Required'', ''Readonly'',
      ''Pick'', ''Omit'', ''Exclude'', ''Extract'', ''ReturnType'', ''Parameters'', ''InstanceType'', ''Buffer'']"

definition should_filter_type_with_context :: "string \<Rightarrow> string \<Rightarrow> string set \<Rightarrow> string set \<Rightarrow> bool" where
  "should_filter_type_with_context language type_name local_types type_parameters =
     (let cleaned = trim type_name
      in if cleaned = [] then True
         else
           (let last_segment = rsplit_next ''::'' cleaned
            in if cleaned \<in> type_parameters then True
               else if cleaned \<in> local_types then False
               else
                 (let l = to_lowercase language
                  in if l = ''rust'' then last_segment \<in> set rust_denylist
                     else if l = ''python'' then last_segment \<in> set python_denylist
                     else if l = ''typescript'' \<or> l = ''javascript'' then last_segment \<in> set typescript_denylist
                     else False)))"

definition should_filter_type :: "string \<Rightarrow> string \<Rightarrow> string set \<Rightarrow> bool" where
  "should_filter_type language type_name local_types =
     should_filter_type_with_context language type_name local_types {}"

record filter_stats =
  fs_considered :: nat
  fs_filtered :: nat
  fs_emitted :: nat

definition filter_stats_new :: filter_stats where
  "filter_stats_new = \<lparr>fs_considered = 0, fs_filtered = 0, fs_emitted = 0\<rparr>"

definition record_considered :: "filter_stats \<Rightarrow> filter_stats" where
  "record_considered s = s\<lparr>fs_considered := fs_considered s + 1\<rparr>"

definition record_filtered :: "filter_stats \<Rightarrow> filter_stats" where
  "record_filtered s = s\<lparr>fs_filtered := fs_filtered s + 1\<rparr>"

definition record_emitted :: "filter_stats \<Rightarrow> filter_stats" where
  "record_emitted s = s\<lparr>fs_emitted := fs_emitted s + 1\<rparr>"

section \<open>The driver\<close>

record 'v driver =
  dr_path :: string
  dr_src :: bytes
  dr_file_id :: node_id
  dr_nodes :: "node list"
  dr_edges :: "edge list"
  dr_exports :: "export list"
  dr_seen :: "(string, u32) btree"
  dr_id_meta :: "(string, id_meta) btree"
  dr_scopes :: "(string, 'v) btree list"
  dr_language :: string
  dr_stats :: filter_stats
  dr_local_types :: "string set"
  dr_tp_stack :: "string set list"
  dr_tps :: "string set"

definition driver_new :: "artifact \<Rightarrow> bytes \<Rightarrow> string \<Rightarrow> 'v driver" where
  "driver_new a src language =
     (let file_id = NodeId (''file:'' @ a_path a)
      in \<lparr>dr_path = a_path a, dr_src = src, dr_file_id = file_id,
          dr_nodes = [(node_new (''file:'' @ a_path a) (a_path a) ''file'')
            \<lparr>n_file := Some (a_path a), n_attrs := bt_insert LANGUAGE language bt_empty\<rparr>],
          dr_edges = [], dr_exports = [], dr_seen = bt_empty, dr_id_meta = bt_empty, dr_scopes = [],
          dr_language = language, dr_stats = filter_stats_new, dr_local_types = {}, dr_tp_stack = [],
          dr_tps = {}\<rparr>)"

text \<open>The stacks have the innermost frame at the head.\<close>

definition push_type_parameters :: "string set \<Rightarrow> 'v driver \<Rightarrow> 'v driver" where
  "push_type_parameters ps d = d\<lparr>dr_tps := dr_tps d \<union> ps, dr_tp_stack := ps # dr_tp_stack d\<rparr>"

definition pop_type_parameters :: "'v driver \<Rightarrow> 'v driver" where
  "pop_type_parameters d =
     (case dr_tp_stack d of
        [] \<Rightarrow> d
      | _ # frames \<Rightarrow> d\<lparr>dr_tp_stack := frames, dr_tps := \<Union> (set frames)\<rparr>)"

definition insert_type_parameter :: "string \<Rightarrow> 'v driver \<Rightarrow> 'v driver" where
  "insert_type_parameter name d =
     d\<lparr>dr_tp_stack :=
         (case dr_tp_stack d of [] \<Rightarrow> [{name}] | frame # frames \<Rightarrow> insert name frame # frames),
       dr_tps := insert name (dr_tps d)\<rparr>"

abbreviation dr_text :: "'v driver \<Rightarrow> ts_node \<Rightarrow> string option" where
  "dr_text d n \<equiv> ts_text (dr_src d) n"

definition decl_text :: "'v driver \<Rightarrow> ts_node \<Rightarrow> string" where
  "decl_text d n =
     (let stop = (case ts_field n ''body'' of Some b \<Rightarrow> fst (ts_range b) | None \<Rightarrow> snd (ts_range n));
          s = ts_slice (dr_src d) (fst (ts_range n), stop)
      in trim (if utf8_ok s then s else []))"

definition id_base :: "string \<Rightarrow> string \<Rightarrow> string \<Rightarrow> string" where
  "id_base pre path name = pre @ '':'' @ path @ '':'' @ name"

definition mint_id :: "string \<Rightarrow> string \<Rightarrow> 'v driver \<Rightarrow> node_id \<times> 'v driver" where
  "mint_id pre name d =
     (let base = id_base pre (dr_path d) name;
          n = (case bt_get (dr_seen d) base of None \<Rightarrow> 0 | Some n \<Rightarrow> n)
      in (NodeId (if n = 0 then base else base @ ''~'' @ show_nat (unat n)),
          d\<lparr>dr_seen := bt_insert base (n + 1) (dr_seen d)\<rparr>))"

definition register_local_type :: "string \<Rightarrow> 'v driver \<Rightarrow> 'v driver" where
  "register_local_type type_name d =
     d\<lparr>dr_local_types := insert (trim (rsplit_next ''::'' (hd (split_str ''<'' type_name)))) (dr_local_types d)\<rparr>"

definition row_span :: "nat \<times> nat \<Rightarrow> span" where
  "row_span rows = \<lparr>span_start = word_of_nat (fst rows) + 1, span_end = word_of_nat (snd rows) + 1\<rparr>"

definition edge_to :: "node_id \<Rightarrow> string \<Rightarrow> edge_target \<Rightarrow> edge" where
  "edge_to source relation target =
     \<lparr>e_source = source, e_relation = relation, e_confidence = Extracted, e_target = target\<rparr>"

definition push_edge :: "edge \<Rightarrow> 'v driver \<Rightarrow> 'v driver" where
  "push_edge e d = d\<lparr>dr_edges := dr_edges d @ [e]\<rparr>"

text \<open>\<open>add_def_raw\<close> and \<open>add_variant_raw\<close> are the forms for a frontend without tree-sitter nodes, given the lines
  and the declaration text; \<open>add_def\<close> and \<open>add_variant\<close> take them from the node.\<close>

definition def_node :: "'v driver \<Rightarrow> node_id \<Rightarrow> string \<Rightarrow> string \<Rightarrow> span \<Rightarrow> string option \<Rightarrow> node" where
  "def_node d i name kind sp owner =
     (node_new (the_id i) name kind)
       \<lparr>n_file := Some (dr_path d), n_span := Some sp,
        n_attrs := (case owner of None \<Rightarrow> bt_empty | Some o' \<Rightarrow> bt_insert IMPL o' bt_empty)\<rparr>"

definition add_def_raw ::
  "string \<Rightarrow> string \<Rightarrow> string \<Rightarrow> span \<Rightarrow> string \<Rightarrow> node_id \<Rightarrow> string option \<Rightarrow> 'v driver \<Rightarrow>
     node_id \<times> 'v driver"
where
  "add_def_raw pre kind name sp decl container owner d =
     (let qualified = qualify name owner;
          (i, d) = mint_id pre qualified d;
          m = \<lparr>im_base = id_base pre (dr_path d) qualified, im_decl = decl\<rparr>
      in (i, d\<lparr>dr_id_meta := bt_insert (the_id i) m (dr_id_meta d),
               dr_edges := dr_edges d @ [edge_to container CONTAINS (Node i)],
               dr_nodes := dr_nodes d @ [def_node d i name kind sp owner]\<rparr>))"

definition add_def ::
  "string \<Rightarrow> string \<Rightarrow> string \<Rightarrow> ts_node \<Rightarrow> node_id \<Rightarrow> string option \<Rightarrow> 'v driver \<Rightarrow> node_id \<times> 'v driver"
where
  "add_def pre kind name node container owner d =
     add_def_raw pre kind name (row_span (ts_rows node)) (decl_text d node) container owner d"

definition mark_abstract :: "node_id \<Rightarrow> 'v driver \<Rightarrow> 'v driver" where
  "mark_abstract i d =
     d\<lparr>dr_nodes :=
       (let (after, rest) = (takeWhile (\<lambda>n. n_id n \<noteq> i) (rev (dr_nodes d)), dropWhile (\<lambda>n. n_id n \<noteq> i) (rev (dr_nodes d)))
        in case rest of
             [] \<Rightarrow> dr_nodes d
           | n # earlier \<Rightarrow>
               rev earlier @ n\<lparr>n_attrs := bt_insert ABSTRACT ATTR_TRUE (n_attrs n)\<rparr> # rev after)\<rparr>"

definition emit_call :: "node_id \<Rightarrow> target_ref \<Rightarrow> 'v driver \<Rightarrow> 'v driver" where
  "emit_call source tref d = push_edge (edge_to source CALLS (Symbol tref)) d"

definition emit_import :: "target_ref \<Rightarrow> 'v driver \<Rightarrow> 'v driver" where
  "emit_import tref d = push_edge (edge_to (dr_file_id d) IMPORTS (Symbol tref)) d"

definition emit_heritage :: "node_id \<Rightarrow> string \<Rightarrow> string \<Rightarrow> 'v driver \<Rightarrow> 'v driver" where
  "emit_heritage source relation target d =
     push_edge (edge_to source relation (Symbol (target_ref_new target))) d"

text \<open>The four emitters of type edges share their filter; \<open>emit_typed\<close> is their common text.\<close>

definition is_noise :: "'v driver \<Rightarrow> string \<Rightarrow> bool" where
  "is_noise d ty = should_filter_type_with_context (dr_language d) ty (dr_local_types d) (dr_tps d)"

definition emit_typed :: "edge \<Rightarrow> string \<Rightarrow> 'v driver \<Rightarrow> bool \<times> 'v driver" where
  "emit_typed e ty d =
     (let d = d\<lparr>dr_stats := record_considered (dr_stats d)\<rparr>
      in if is_noise d ty then (False, d\<lparr>dr_stats := record_filtered (dr_stats d)\<rparr>)
         else (True, (push_edge e d)\<lparr>dr_stats := record_emitted (dr_stats d)\<rparr>))"

definition emit_field_type ::
  "node_id \<Rightarrow> string \<Rightarrow> string \<Rightarrow> string option \<Rightarrow> 'v driver \<Rightarrow> bool \<times> 'v driver"
where
  "emit_field_type source name ty vis d =
     (let hints = bt_insert ''name'' name bt_empty;
          hints = (case vis of None \<Rightarrow> hints | Some v \<Rightarrow> bt_insert ''vis'' v hints)
      in emit_typed (edge_to source FIELD_TYPE (Symbol ((target_ref_new ty)\<lparr>t_hints := hints\<rparr>))) ty d)"

definition emit_param_type :: "node_id \<Rightarrow> string \<Rightarrow> 'v driver \<Rightarrow> bool \<times> 'v driver" where
  "emit_param_type source ty d = emit_typed (edge_to source PARAM_TYPE (Symbol (target_ref_new ty))) ty d"

definition emit_return_type :: "node_id \<Rightarrow> string \<Rightarrow> 'v driver \<Rightarrow> bool \<times> 'v driver" where
  "emit_return_type source ty d = emit_typed (edge_to source RETURN_TYPE (Symbol (target_ref_new ty))) ty d"

definition emit_bound_type :: "node_id \<Rightarrow> string \<Rightarrow> 'v driver \<Rightarrow> bool \<times> 'v driver" where
  "emit_bound_type source ty d = emit_typed (edge_to source BOUND_TYPE (Symbol (target_ref_new ty))) ty d"

definition add_variant_raw ::
  "node_id \<Rightarrow> string \<Rightarrow> string \<Rightarrow> span \<Rightarrow> string \<Rightarrow> 'v driver \<Rightarrow> node_id \<times> 'v driver"
where
  "add_variant_raw enum_id enum_name variant sp decl d =
     (let qualified = qualify variant (Some enum_name);
          (i, d) = mint_id ''variant'' qualified d;
          m = \<lparr>im_base = id_base ''variant'' (dr_path d) qualified, im_decl = decl\<rparr>
      in (i, d\<lparr>dr_id_meta := bt_insert (the_id i) m (dr_id_meta d),
               dr_edges := dr_edges d @ [edge_to enum_id HAS_VARIANT (Node i)],
               dr_nodes := dr_nodes d @ [def_node d i variant ''enum_variant'' sp (Some enum_name)]\<rparr>))"

definition add_variant ::
  "node_id \<Rightarrow> string \<Rightarrow> string \<Rightarrow> ts_node \<Rightarrow> 'v driver \<Rightarrow> node_id \<times> 'v driver"
where
  "add_variant enum_id enum_name variant node d =
     add_variant_raw enum_id enum_name variant (row_span (ts_rows node)) (decl_text d node) d"

definition scope_push :: "'v driver \<Rightarrow> 'v driver" where
  "scope_push d = d\<lparr>dr_scopes := bt_empty # dr_scopes d\<rparr>"

definition scope_pop :: "'v driver \<Rightarrow> 'v driver" where
  "scope_pop d = d\<lparr>dr_scopes := tl (dr_scopes d)\<rparr>"

definition scope_insert :: "string \<Rightarrow> 'v \<Rightarrow> 'v driver \<Rightarrow> 'v driver" where
  "scope_insert var ty d =
     (case dr_scopes d of
        [] \<Rightarrow> d
      | scope # scopes \<Rightarrow> d\<lparr>dr_scopes := bt_insert var ty scope # scopes\<rparr>)"

fun lookup_scopes :: "string \<Rightarrow> (string, 'v) btree list \<Rightarrow> 'v option" where
  "lookup_scopes var [] = None"
| "lookup_scopes var (s # ss) = (case bt_get s var of Some v \<Rightarrow> Some v | None \<Rightarrow> lookup_scopes var ss)"

definition lookup_var :: "string \<Rightarrow> 'v driver \<Rightarrow> 'v option" where
  "lookup_var var d = lookup_scopes var (dr_scopes d)"

definition driver_finish :: "'v driver \<Rightarrow> extraction" where
  "driver_finish d =
     (case finalize_collisions (dr_nodes d) (dr_edges d) (dr_id_meta d) of
        (nodes, edges) \<Rightarrow> \<lparr>x_nodes = nodes, x_edges = edges, x_exports = dr_exports d\<rparr>)"

end
