(* ===== verification/Rust_Extract.thy ===== *)
theory Rust_Extract
  imports Driver
begin

text \<open>
  The Rust extractor (\<^verbatim>\<open>filigrio-index/src/rust.rs\<close>) over a parse tree. Kinds and fields are those of the
  third-party grammar, as the code names them. The parser is a parameter, and so is \<open>first_upper\<close>: whether
  a string begins with an upper-case character of Unicode.
\<close>

record rust_env =
  rx_grammar_error :: "string option"
  rx_parse :: "bytes \<Rightarrow> ts_node option"
  rx_first_upper :: "string \<Rightarrow> bool"

datatype var_type = Concrete string | ReturnOf string "string option"

record rust_ctx =
  rc_d :: "var_type driver"
  rc_type_ids :: "(string, node_id) btree"
  rc_pending_impls :: "(string \<times> string) list"
  rc_pending_methods :: "(string \<times> node_id) list"
  rc_declined :: "(string \<times> string) list"
  rc_trait :: "(node_id \<times> string) option"

definition rust_ctx_new :: "artifact \<Rightarrow> bytes \<Rightarrow> rust_ctx" where
  "rust_ctx_new a src =
     \<lparr>rc_d = driver_new a src ''rust'', rc_type_ids = bt_empty, rc_pending_impls = [],
      rc_pending_methods = [], rc_declined = [], rc_trait = None\<rparr>"

abbreviation on_d :: "(var_type driver \<Rightarrow> var_type driver) \<Rightarrow> rust_ctx \<Rightarrow> rust_ctx" where
  "on_d f c \<equiv> c\<lparr>rc_d := f (rc_d c)\<rparr>"

section \<open>Names\<close>

definition def_kind :: "ts_node \<Rightarrow> (string \<times> string) option" where
  "def_kind n =
     (if ts_kind n = ''function_item'' then Some (''fn'', ''function'')
      else if ts_kind n = ''struct_item'' \<or> ts_kind n = ''union_item'' then Some (''type'', ''struct'')
      else if ts_kind n = ''enum_item'' then Some (''type'', ''enum'')
      else if ts_kind n = ''trait_item'' then Some (''type'', ''trait'')
      else None)"

definition local_path :: "string \<Rightarrow> bool" where
  "local_path s \<longleftrightarrow>
     starts_with s ''crate::'' \<or> starts_with s ''self::'' \<or> starts_with s ''super::'' \<or> starts_with s ''Self::''"

definition last_seg :: "string \<Rightarrow> string" where
  "last_seg s = rsplit_next ''::'' s"

definition base_type_name :: "string \<Rightarrow> string" where
  "base_type_name owner =
     (let s = trim (hd (split_str ''<'' owner))
      in if local_path s then trim (last_seg s) else s)"

function rx_type_name :: "bytes \<Rightarrow> ts_node \<Rightarrow> string option" where
  "rx_type_name src n =
     (if ts_kind n = ''type_identifier'' then ts_text src n
      else if ts_kind n = ''reference_type'' \<or> ts_kind n = ''generic_type''
      then (case ts_field n ''type'' of None \<Rightarrow> None | Some t \<Rightarrow> rx_type_name src t)
      else if ts_kind n = ''scoped_type_identifier''
      then map_option (\<lambda>t. if local_path t then last_seg t else t) (ts_text src n)
      else None)"
  by (pat_completeness, (elim Pair_inject)?, hypsubst, rule refl)
termination
  by (relation "measure (\<lambda>(_, n). size n)") (auto dest: ts_sizes)

declare rx_type_name.simps [simp del]

definition is_type_node :: "string \<Rightarrow> bool" where
  "is_type_node kind \<longleftrightarrow>
     kind \<in> set [''type_identifier'', ''scoped_type_identifier'', ''generic_type'', ''reference_type'',
               ''pointer_type'', ''array_type'', ''tuple_type'', ''slice_type'']"

section \<open>Type references\<close>

text \<open>The trait of a projection \<open><T as Trait>::Item\<close>: the first named child after the \<open>as\<close>.\<close>

definition projected_trait :: "ts_node \<Rightarrow> ts_node option" where
  "projected_trait n =
     (case find (\<lambda>c. ts_kind c = ''bracketed_type'') (ts_children n) of
        None \<Rightarrow> None
      | Some b \<Rightarrow>
          (case find (\<lambda>q. ts_kind q = ''qualified_type'' \<and> list_ex (\<lambda>c. ts_kind c = ''as'') (ts_children q))
                  (ts_children b) of
             None \<Rightarrow> None
           | Some q \<Rightarrow> find ts_named (tl (dropWhile (\<lambda>c. ts_kind c \<noteq> ''as'') (ts_children q)))))"

lemma projected_size: "projected_trait n = Some t \<Longrightarrow> size t < size n"
proof -
  assume "projected_trait n = Some t"
  then obtain b q where b: "find (\<lambda>c. ts_kind c = ''bracketed_type'') (ts_children n) = Some b"
    and q: "find (\<lambda>q. ts_kind q = ''qualified_type'' \<and> list_ex (\<lambda>c. ts_kind c = ''as'') (ts_children q))
                  (ts_children b) = Some q"
    and t: "find ts_named (tl (dropWhile (\<lambda>c. ts_kind c \<noteq> ''as'') (ts_children q))) = Some t"
    by (auto simp: projected_trait_def split: option.splits)
  from find_in [OF t] have "t \<in> set (ts_children q)"
    by (metis list.sel(2) list.set_sel(2) set_dropWhileD)
  with find_in [OF b] find_in [OF q] show ?thesis using ts_child_size by (meson less_trans)
qed

definition ref_role :: "bool \<Rightarrow> string" where
  "ref_role generic = (if generic then ''generic_arg'' else ''type'')"

definition scoped_name :: "string \<Rightarrow> string" where
  "scoped_name t =
     (if contains_str t ''<'' \<and> contains_str t ''>'' then last_seg t
      else if local_path t then last_seg t else t)"

definition generic_base :: "bytes \<Rightarrow> ts_node \<Rightarrow> string option" where
  "generic_base src n =
     (case Option.bind (ts_field n ''type'') (rx_type_name src) of
        Some name \<Rightarrow> Some name
      | None \<Rightarrow>
          Option.bind
            (find (\<lambda>c. ts_kind c = ''type_identifier'' \<or> ts_kind c = ''scoped_type_identifier'') (ts_children n))
            (rx_type_name src))"

function collect_refs :: "bytes \<Rightarrow> bool \<Rightarrow> ts_node \<Rightarrow> (string \<times> string) list" where
  "collect_refs src generic n =
     (if ts_kind n = ''primitive_type'' then []
      else if ts_kind n = ''type_identifier''
      then (case ts_text src n of None \<Rightarrow> [] | Some t \<Rightarrow> [(t, ref_role generic)])
      else if ts_kind n = ''scoped_type_identifier''
      then (case projected_trait n of None \<Rightarrow> [] | Some t \<Rightarrow> collect_refs src generic t)
           @ (case ts_text src n of None \<Rightarrow> [] | Some t \<Rightarrow> [(scoped_name t, ref_role generic)])
      else if ts_kind n = ''generic_type''
      then (case generic_base src n of None \<Rightarrow> [] | Some b \<Rightarrow> [(b, ref_role generic)])
           @ concat (map (\<lambda>c. if ts_kind c = ''type_arguments''
                              then concat (map (collect_refs src True) (ts_named_children c)) else [])
                       (ts_children n))
      else if ts_kind n \<in> set [''reference_type'', ''pointer_type'', ''array_type'', ''tuple_type'', ''slice_type'']
         \<or> ts_named n
      then concat (map (collect_refs src generic) (ts_named_children n))
      else [])"
  by (pat_completeness, (elim Pair_inject)?, hypsubst, rule refl)
termination
proof (relation "measure (\<lambda>(_, _, n). size n)", goal_cases)
  case (3 src generic n c a)
  then show ?case using ts_child_size [of c n] ts_named_size [of a c] by simp
qed (auto dest: projected_size ts_sizes)

declare collect_refs.simps [simp del]

definition ref_names :: "bytes \<Rightarrow> ts_node \<Rightarrow> string list" where
  "ref_names src n = map fst (collect_refs src False n)"

section \<open>Calls and receivers\<close>

function callee_ref :: "rust_env \<Rightarrow> bytes \<Rightarrow> ts_node \<Rightarrow> (string \<times> string option) option" where
  "callee_ref env src f =
     (if ts_kind f \<in> set [''identifier'', ''field_identifier'', ''type_identifier'']
      then map_option (\<lambda>n. (n, None)) (ts_text src f)
      else if ts_kind f = ''scoped_identifier''
      then (case (case ts_field_text src f ''name'' of Some n \<Rightarrow> Some n | None \<Rightarrow> ts_text src f) of
              None \<Rightarrow> None
            | Some name \<Rightarrow>
                Some (name,
                  case ts_field_text src f ''path'' of
                    None \<Rightarrow> None
                  | Some p \<Rightarrow> (if rx_first_upper env (last_seg p) then Some (last_seg p) else None)))
      else if ts_kind f = ''field_expression''
      then map_option (\<lambda>n. (n, None)) (ts_field_text src f ''field'')
      else if ts_kind f = ''generic_function''
      then (case ts_field f ''function'' of None \<Rightarrow> None | Some g \<Rightarrow> callee_ref env src g)
      else None)"
  by (pat_completeness, (elim Pair_inject)?, hypsubst, rule refl)
termination
  by (relation "measure (\<lambda>(_, _, n). size n)") (auto dest: ts_sizes)

declare callee_ref.simps [simp del]

definition receiver_type :: "ts_node \<Rightarrow> string option \<Rightarrow> var_type driver \<Rightarrow> var_type option" where
  "receiver_type field_expr current_impl d =
     (case ts_field field_expr ''value'' of
        None \<Rightarrow> None
      | Some recv \<Rightarrow>
          if ts_kind recv = ''self'' then map_option Concrete current_impl
          else if ts_kind recv = ''identifier''
          then (case dr_text d recv of
                  None \<Rightarrow> None
                | Some name \<Rightarrow>
                    if name = ''self'' then map_option Concrete current_impl else lookup_var name d)
          else None)"

section \<open>Imports\<close>

datatype parsed_import =
    Import_Named "string option" string "string option"
  | Import_Wildcard string

definition rsplit_once :: "string \<Rightarrow> string \<Rightarrow> (string \<times> string) option" where
  "rsplit_once sep s = map_option (\<lambda>i. (take i s, drop (i + length sep) s)) (rfind_str sep s)"

definition split_use :: "string \<Rightarrow> string option \<Rightarrow> parsed_import" where
  "split_use full alias =
     (case rsplit_once ''::'' (trim full) of
        Some (spec, name) \<Rightarrow> Import_Named (Some (trim spec)) (trim name) alias
      | None \<Rightarrow> Import_Named None (trim full) alias)"

fun prepend :: "string option \<Rightarrow> parsed_import \<Rightarrow> parsed_import" where
  "prepend None u = u"
| "prepend (Some pre) (Import_Named spec imported alias) =
     Import_Named (Some (case spec of Some s \<Rightarrow> pre @ ''::'' @ s | None \<Rightarrow> pre)) imported alias"
| "prepend (Some pre) (Import_Wildcard spec) = Import_Wildcard (pre @ ''::'' @ spec)"

function trim_end_str :: "string \<Rightarrow> string \<Rightarrow> string" where
  "trim_end_str p s =
     (if p = [] then s else case strip_suffix s p of None \<Rightarrow> s | Some t \<Rightarrow> trim_end_str p t)"
  by (pat_completeness, (elim Pair_inject)?, hypsubst, rule refl)
termination
  by (relation "measure (\<lambda>(_, s). length s)")
    (auto simp: strip_suffix_def ends_with_def split: if_splits intro!: diff_less)

declare trim_end_str.simps [simp del]

definition last_path_segment :: "bytes \<Rightarrow> ts_node \<Rightarrow> string option" where
  "last_path_segment src n =
     (if ts_kind n = ''identifier'' \<or> ts_kind n = ''type_identifier'' then ts_text src n
      else if ts_kind n = ''scoped_identifier''
      then (case ts_field_text src n ''name'' of Some t \<Rightarrow> Some t | None \<Rightarrow> ts_text src n)
      else
        (case ts_text src n of
           None \<Rightarrow> None
         | Some t \<Rightarrow> (let seg = trim (last_seg t) in if seg = [] then None else Some seg)))"

function rx_imports :: "bytes \<Rightarrow> ts_node \<Rightarrow> parsed_import list" where
  "rx_imports src arg =
     (if ts_kind arg \<in> set [''identifier'', ''type_identifier'', ''scoped_identifier'']
      then (case ts_text src arg of None \<Rightarrow> [] | Some full \<Rightarrow> [split_use full None])
      else if ts_kind arg = ''use_as_clause''
      then (case ts_field_text src arg ''path'' of
              None \<Rightarrow> [] | Some full \<Rightarrow> [split_use full (ts_field_text src arg ''alias'')])
      else if ts_kind arg = ''use_wildcard''
      then (case ts_text src arg of
              None \<Rightarrow> []
            | Some t \<Rightarrow>
                (let spec = trim (trim_end_str ''::'' (trim_end_char CHR ''*'' t))
                 in if spec = [] then [] else [Import_Wildcard spec]))
      else if ts_kind arg = ''scoped_use_list''
      then (case ts_field arg ''list'' of
              None \<Rightarrow> []
            | Some l \<Rightarrow>
                concat (map (\<lambda>item. map (prepend (ts_field_text src arg ''path'')) (rx_imports src item))
                  (ts_named_children l)))
      else if ts_kind arg = ''use_list''
      then concat (map (rx_imports src) (ts_named_children arg))
      else
        (case last_path_segment src arg of
           None \<Rightarrow> [] | Some imported \<Rightarrow> [Import_Named None imported None]))"
  by (pat_completeness, (elim Pair_inject)?, hypsubst, rule refl)
termination
proof (relation "measure (\<lambda>(_, n). size n)", goal_cases)
  case (2 src arg l item)
  then show ?case using ts_field_size [of arg "''list''" l] ts_named_size [of item l] by simp
qed (auto dest: ts_sizes)

declare rx_imports.simps [simp del]

definition emit_use :: "parsed_import \<Rightarrow> bool \<Rightarrow> var_type driver \<Rightarrow> var_type driver" where
  "emit_use u is_public d =
     (case u of
        Import_Named specifier imported alias \<Rightarrow>
          (let name = (case alias of Some a \<Rightarrow> a | None \<Rightarrow> imported);
               d = (if is_public
                    then d\<lparr>dr_exports := dr_exports d @
                      [case specifier of Some spec \<Rightarrow> ReExport name spec imported | None \<Rightarrow> Local name]\<rparr>
                    else d);
               hints = (case specifier of None \<Rightarrow> bt_empty | Some spec \<Rightarrow> bt_insert ''specifier'' spec bt_empty);
               hints = (case alias of None \<Rightarrow> hints | Some _ \<Rightarrow> bt_insert ''imported'' imported hints)
           in emit_import ((target_ref_new name)\<lparr>t_hints := hints\<rparr>) d)
      | Import_Wildcard specifier \<Rightarrow>
          if is_public then d\<lparr>dr_exports := dr_exports d @ [Star specifier]\<rparr> else d)"

section \<open>Heritage, fields, type parameters, bounds\<close>

definition is_pub :: "ts_node \<Rightarrow> bool" where
  "is_pub n \<longleftrightarrow> list_ex (\<lambda>c. ts_kind c = ''visibility_modifier'') (ts_children n)"

definition visibility_of :: "bytes \<Rightarrow> ts_node \<Rightarrow> string option" where
  "visibility_of src n =
     Option.bind (find (\<lambda>c. ts_kind c = ''visibility_modifier'') (ts_children n)) (ts_text src)"

definition rx_heritage :: "bytes \<Rightarrow> ts_node \<Rightarrow> (string \<times> string) list" where
  "rx_heritage src n =
     (if ts_kind n = ''trait_item''
      then (case ts_field n ''bounds'' of
              None \<Rightarrow> []
            | Some bounds \<Rightarrow>
                map (\<lambda>t. (EXTENDS, t)) (List.map_filter (rx_type_name src) (ts_named_children bounds)))
      else if ts_kind n = ''impl_item''
      then (case Option.bind (ts_field n ''trait'') (rx_type_name src) of
              None \<Rightarrow> [] | Some t \<Rightarrow> [(IMPLEMENTS, t)])
      else [])"

definition rx_fields :: "bytes \<Rightarrow> ts_node \<Rightarrow> (string \<times> string \<times> string option) list" where
  "rx_fields src n =
     (case ts_field n ''body'' of
        None \<Rightarrow> []
      | Some body \<Rightarrow>
          if ts_kind body \<noteq> ''field_declaration_list'' then []
          else
            List.map_filter
              (\<lambda>fd. case ts_field_text src fd ''name'' of
                      None \<Rightarrow> None
                    | Some name \<Rightarrow>
                        (case Option.bind (ts_field fd ''type'') (rx_type_name src) of
                           None \<Rightarrow> None
                         | Some ty \<Rightarrow> Some (name, ty, visibility_of src fd)))
              (filter (\<lambda>c. ts_kind c = ''field_declaration'') (ts_named_children body)))"

definition tuple_fields :: "ts_node \<Rightarrow> ts_node list" where
  "tuple_fields n =
     (case ts_field n ''body'' of
        None \<Rightarrow> []
      | Some body \<Rightarrow>
          if ts_kind body \<noteq> ''ordered_field_declaration_list'' then [] else ts_named_children body)"

function collect_type_parameters :: "bytes \<Rightarrow> ts_node \<Rightarrow> string set" where
  "collect_type_parameters src n =
     \<Union> (set (map
       (\<lambda>c. if ts_kind c = ''type_parameter''
            then (case ts_field_text src c ''name'' of None \<Rightarrow> {} | Some name \<Rightarrow> {name})
            else if ts_named c then collect_type_parameters src c else {})
       (ts_children n)))"
  by (pat_completeness, (elim Pair_inject)?, hypsubst, rule refl)
termination
  by (relation "measure (\<lambda>(_, n). size n)") (auto dest: ts_sizes)

declare collect_type_parameters.simps [simp del]

text \<open>The references below a \<open>trait_bounds\<close>; \<open>skip\<close>: without the removed bounds (\<open>?Sized\<close>).\<close>

definition bounds_refs :: "bytes \<Rightarrow> bool \<Rightarrow> ts_node \<Rightarrow> string list" where
  "bounds_refs src skip bounds =
     concat (map (ref_names src)
       (filter (\<lambda>b. \<not> (skip \<and> ts_kind b = ''removed_trait_bound'') \<and> ts_named b) (ts_children bounds)))"

definition bounds_below :: "bytes \<Rightarrow> bool \<Rightarrow> ts_node \<Rightarrow> string list" where
  "bounds_below src skip n =
     concat (map (bounds_refs src skip) (filter (\<lambda>c. ts_kind c = ''trait_bounds'') (ts_children n)))"

function collect_trait_bounds :: "bytes \<Rightarrow> ts_node \<Rightarrow> string list" where
  "collect_trait_bounds src n =
     concat (map
       (\<lambda>c. if ts_kind c = ''type_parameter'' then bounds_below src True c
            else if ts_named c then collect_trait_bounds src c else [])
       (ts_children n))"
  by (pat_completeness, (elim Pair_inject)?, hypsubst, rule refl)
termination
  by (relation "measure (\<lambda>(_, n). size n)") (auto dest: ts_sizes)

declare collect_trait_bounds.simps [simp del]

function collect_trait_bounds_with_coverage :: "bytes \<Rightarrow> ts_node \<Rightarrow> string list \<times> nat" where
  "collect_trait_bounds_with_coverage src n =
     (let parts = map
       (\<lambda>c. if ts_kind c = ''type_parameter'' then (bounds_below src True c, 1)
            else if ts_named c then collect_trait_bounds_with_coverage src c else ([], 0))
       (ts_children n)
      in (concat (map fst parts), sum_list (map snd parts)))"
  by (pat_completeness, (elim Pair_inject)?, hypsubst, rule refl)
termination
  by (relation "measure (\<lambda>(_, n). size n)") (auto dest: ts_sizes)

declare collect_trait_bounds_with_coverage.simps [simp del]

definition collect_where_clause_bounds :: "bytes \<Rightarrow> ts_node \<Rightarrow> string list" where
  "collect_where_clause_bounds src n =
     concat (map (bounds_below src False) (filter (\<lambda>c. ts_kind c = ''where_predicate'') (ts_children n)))"

definition collect_where_clause_bounds_with_coverage :: "bytes \<Rightarrow> ts_node \<Rightarrow> string list \<times> nat" where
  "collect_where_clause_bounds_with_coverage src n =
     (let preds = filter (\<lambda>c. ts_kind c = ''where_predicate'') (ts_children n)
      in (concat (map (bounds_below src True) preds), length preds))"

definition collect_associated_type_bounds :: "bytes \<Rightarrow> ts_node \<Rightarrow> string list" where
  "collect_associated_type_bounds src n =
     fold (\<lambda>r bounds. let t = base_type_name r in if t \<in> set bounds then bounds else bounds @ [t])
       (concat (map (\<lambda>c. concat (map (ref_names src)
            (filter (\<lambda>i. ts_kind i = ''trait_bounds'') (ts_children c))))
          (filter (\<lambda>c. ts_kind c = ''associated_type'') (ts_children n))))
       []"

definition emit_bounds :: "node_id \<Rightarrow> string list \<Rightarrow> var_type driver \<Rightarrow> var_type driver" where
  "emit_bounds source bounds d = fold (\<lambda>b d. snd (emit_bound_type source (base_type_name b) d)) bounds d"

definition emit_bound_type_edges :: "node_id \<Rightarrow> ts_node \<Rightarrow> var_type driver \<Rightarrow> var_type driver" where
  "emit_bound_type_edges source n d =
     (let src = dr_src d;
          d = (case ts_field n ''type_parameters'' of
                 None \<Rightarrow> d | Some tp \<Rightarrow> emit_bounds source (collect_trait_bounds src tp) d);
          d = (case find (\<lambda>c. ts_kind c = ''where_clause'') (ts_children n) of
                 None \<Rightarrow> d | Some w \<Rightarrow> emit_bounds source (collect_where_clause_bounds src w) d)
      in if ts_kind n = ''trait_item'' \<or> ts_kind n = ''trait''
         then (case ts_field n ''body'' of
                 None \<Rightarrow> d | Some body \<Rightarrow> emit_bounds source (collect_associated_type_bounds src body) d)
         else d)"

section \<open>Local types\<close>

definition pattern_name :: "bytes \<Rightarrow> ts_node \<Rightarrow> string option" where
  "pattern_name src pat =
     (if ts_kind pat = ''identifier'' then ts_text src pat
      else if ts_kind pat = ''mut_pattern''
      then Option.bind (find (\<lambda>n. ts_kind n = ''identifier'') (ts_named_children pat)) (ts_text src)
      else None)"

definition own_type :: "string \<Rightarrow> string option \<Rightarrow> string" where
  "own_type ty owner =
     (if ty = ''Self'' then (case owner of Some o' \<Rightarrow> o' | None \<Rightarrow> ty) else ty)"

text \<open>The edges of a signature position: \<open>Self\<close> is the owner, a type named as the function is left out.\<close>

definition emit_signature ::
  "(string \<Rightarrow> var_type driver \<Rightarrow> bool \<times> var_type driver) \<Rightarrow> string \<Rightarrow> string option \<Rightarrow> string list \<Rightarrow>
     var_type driver \<Rightarrow> var_type driver"
where
  "emit_signature emit fn_name owner refs d =
     fold (\<lambda>r d. let t = base_type_name (own_type r owner)
                 in if base_type_name fn_name \<noteq> t then snd (emit t d) else d) refs d"

definition collect_param ::
  "string option \<Rightarrow> node_id \<Rightarrow> string \<Rightarrow> ts_node \<Rightarrow> var_type driver \<Rightarrow> var_type driver"
where
  "collect_param current_impl fn_id fn_name child d =
     (let src = dr_src d
      in if ts_kind child = ''self_parameter''
         then (case current_impl of None \<Rightarrow> d | Some owner \<Rightarrow> scope_insert ''self'' (Concrete owner) d)
         else if ts_kind child = ''parameter''
         then
           (let d = (case (Option.bind (ts_field child ''pattern'') (pattern_name src),
                           Option.bind (ts_field child ''type'') (rx_type_name src)) of
                       (Some name, Some ty) \<Rightarrow> scope_insert name (Concrete ty) d
                     | _ \<Rightarrow> d)
            in case ts_field child ''type'' of
                 None \<Rightarrow> d
               | Some ty \<Rightarrow> emit_signature (emit_param_type fn_id) fn_name current_impl (ref_names src ty) d)
         else d)"

definition collect_params ::
  "ts_node \<Rightarrow> string option \<Rightarrow> node_id \<Rightarrow> string \<Rightarrow> var_type driver \<Rightarrow> var_type driver"
where
  "collect_params params current_impl fn_id fn_name d =
     fold (collect_param current_impl fn_id fn_name) (ts_children params) d"

definition RETURNS_SELF :: "string list" where
  "RETURNS_SELF = [''new'', ''default'', ''from'', ''with_capacity'']"

definition value_type :: "rust_env \<Rightarrow> bytes \<Rightarrow> ts_node \<Rightarrow> string option \<Rightarrow> string option" where
  "value_type env src val current_impl =
     (if ts_kind val = ''struct_expression''
      then (case Option.bind (ts_field val ''name'') (rx_type_name src) of
              None \<Rightarrow> None | Some ty \<Rightarrow> if ty = ''Self'' then current_impl else Some ty)
      else if ts_kind val = ''call_expression''
      then (case Option.bind (ts_field val ''function'') (callee_ref env src) of
              None \<Rightarrow> None
            | Some (name, hint) \<Rightarrow>
                if name \<notin> set RETURNS_SELF then None
                else if hint = Some ''Self'' then current_impl else hint)
      else None)"

definition deferred_return_of :: "rust_env \<Rightarrow> bytes \<Rightarrow> ts_node \<Rightarrow> (string \<times> string option) option" where
  "deferred_return_of env src val =
     (if ts_kind val \<noteq> ''call_expression'' then None
      else
        (case ts_field val ''function'' of
           None \<Rightarrow> None
         | Some func \<Rightarrow>
             if ts_kind func = ''identifier'' then map_option (\<lambda>name. (name, None)) (ts_text src func)
             else if ts_kind func = ''scoped_identifier'' \<or> ts_kind func = ''generic_function''
             then callee_ref env src func
             else None))"

definition infer_let_type ::
  "rust_env \<Rightarrow> bytes \<Rightarrow> ts_node \<Rightarrow> string option \<Rightarrow> (string \<times> var_type) option"
where
  "infer_let_type env src n current_impl =
     (case Option.bind (ts_field n ''pattern'') (pattern_name src) of
        None \<Rightarrow> None
      | Some var \<Rightarrow>
          (case Option.bind (ts_field n ''type'') (rx_type_name src) of
             Some ty \<Rightarrow> Some (var, Concrete ty)
           | None \<Rightarrow>
               (case ts_field n ''value'' of
                  None \<Rightarrow> None
                | Some val \<Rightarrow>
                    (case value_type env src val current_impl of
                       Some ty \<Rightarrow> Some (var, Concrete ty)
                     | None \<Rightarrow>
                         map_option (\<lambda>(callee, owner). (var, ReturnOf callee owner))
                           (deferred_return_of env src val)))))"

section \<open>Types\<close>

definition emit_fields ::
  "node_id \<Rightarrow> string \<Rightarrow> string option \<Rightarrow> string list \<Rightarrow> var_type driver \<Rightarrow> var_type driver"
where
  "emit_fields source field vis types d =
     fold (\<lambda>t d. snd (emit_field_type source field t vis d)) types d"

definition emit_tuple_variant_payloads :: "node_id \<Rightarrow> ts_node \<Rightarrow> var_type driver \<Rightarrow> var_type driver" where
  "emit_tuple_variant_payloads variant_id n d =
     fold (\<lambda>(k, f). emit_fields variant_id (show_nat k) None (map base_type_name (ref_names (dr_src d) f)))
       (enumerate 0 (filter (\<lambda>f. is_type_node (ts_kind f)) (ts_named_children n))) d"

definition emit_struct_variant_payloads :: "node_id \<Rightarrow> ts_node \<Rightarrow> var_type driver \<Rightarrow> var_type driver" where
  "emit_struct_variant_payloads variant_id n d =
     fold (\<lambda>f. case (ts_field_text (dr_src d) f ''name'', ts_field f ''type'') of
                 (Some name, Some ty) \<Rightarrow>
                   emit_fields variant_id name (visibility_of (dr_src d) f)
                     (map base_type_name (ref_names (dr_src d) ty))
               | _ \<Rightarrow> id)
       (filter (\<lambda>f. ts_kind f = ''field_declaration'') (ts_named_children n)) d"

definition emit_variant_payload_types :: "node_id \<Rightarrow> ts_node \<Rightarrow> var_type driver \<Rightarrow> var_type driver" where
  "emit_variant_payload_types variant_id n d =
     fold (\<lambda>c d. if ts_kind c = ''ordered_field_declaration_list'' then emit_tuple_variant_payloads variant_id c d
                 else if ts_kind c = ''field_declaration_list'' then emit_struct_variant_payloads variant_id c d
                 else d)
       (ts_children n) d"

definition emit_variants :: "ts_node \<Rightarrow> string \<Rightarrow> node_id \<Rightarrow> var_type driver \<Rightarrow> var_type driver" where
  "emit_variants n enum_name enum_id d =
     (case ts_field n ''body'' of
        None \<Rightarrow> d
      | Some body \<Rightarrow>
          fold (\<lambda>v d. case ts_field_text (dr_src d) v ''name'' of
                        None \<Rightarrow> d
                      | Some vname \<Rightarrow>
                          (let (variant_id, d) = add_variant enum_id enum_name vname v d
                           in emit_variant_payload_types variant_id v d))
            (filter (\<lambda>v. ts_kind v = ''enum_variant'') (ts_named_children body)) d)"

definition emit_struct_fields :: "ts_node \<Rightarrow> string \<Rightarrow> node_id \<Rightarrow> var_type driver \<Rightarrow> var_type driver" where
  "emit_struct_fields n name i d =
     (let src = dr_src d;
          d = fold (\<lambda>(field, ty, vis) d. snd (emit_field_type i field ty vis d)) (rx_fields src n) d
      in fold (\<lambda>(k, t). emit_fields i (show_nat k) None
                 (filter (\<lambda>t. base_type_name name \<noteq> t) (map base_type_name (ref_names src t))))
           (enumerate 0 (tuple_fields n)) d)"

definition emit_trait_parts :: "ts_node \<Rightarrow> node_id \<Rightarrow> var_type driver \<Rightarrow> var_type driver" where
  "emit_trait_parts n i d =
     (let src = dr_src d;
          d = fold (\<lambda>(relation, target). emit_heritage i relation target) (rx_heritage src n) d
      in case ts_field n ''body'' of
           None \<Rightarrow> d
         | Some body \<Rightarrow>
             emit_bounds i
               (concat (map (\<lambda>c. concat (map (ref_names src)
                    (filter (\<lambda>a. ts_kind a = ''trait_bound'') (ts_children c))))
                  (filter (\<lambda>c. ts_kind c = ''type_item'') (ts_named_children body)))) d)"

definition add_named_type :: "ts_node \<Rightarrow> rust_ctx \<Rightarrow> rust_ctx" where
  "add_named_type n c =
     (case ts_field_text (dr_src (rc_d c)) n ''name'' of
        None \<Rightarrow> c
      | Some name \<Rightarrow>
          (let d = rc_d c;
               d = (if is_pub n then d\<lparr>dr_exports := dr_exports d @ [Local name]\<rparr> else d);
               (pre, kind) = (case def_kind n of Some pk \<Rightarrow> pk | None \<Rightarrow> (''type'', ''struct''));
               (i, d) = add_def pre kind name n (dr_file_id d) None d;
               d = register_local_type (base_type_name name) d;
               d = (if ts_kind n = ''struct_item'' \<or> ts_kind n = ''union_item'' then emit_struct_fields n name i d
                    else if ts_kind n = ''trait_item'' then emit_trait_parts n i d
                    else if ts_kind n = ''enum_item'' then emit_variants n name i d
                    else d)
           in c\<lparr>rc_d := d, rc_type_ids := bt_insert name i (rc_type_ids c)\<rparr>))"

section \<open>The walk\<close>

definition type_parameters_of :: "bytes \<Rightarrow> ts_node \<Rightarrow> string set" where
  "type_parameters_of src n =
     (case ts_field n ''type_parameters'' of None \<Rightarrow> {} | Some tp \<Rightarrow> collect_type_parameters src tp)"

definition push_parameters_of :: "ts_node \<Rightarrow> var_type driver \<Rightarrow> var_type driver" where
  "push_parameters_of n d = push_type_parameters (type_parameters_of (dr_src d) n) d"

text \<open>What a function's own scope begins with: its parameters.\<close>

definition open_function ::
  "ts_node \<Rightarrow> string option \<Rightarrow> node_id \<Rightarrow> string \<Rightarrow> var_type driver \<Rightarrow> var_type driver"
where
  "open_function n owner i name d =
     (let d = (case ts_field n ''return_type'' of
                 None \<Rightarrow> d
               | Some t \<Rightarrow> emit_signature (emit_return_type i) name owner (ref_names (dr_src d) t) d);
          d = scope_push (emit_bound_type_edges i n d)
      in case ts_field n ''parameters'' of
           None \<Rightarrow> d | Some params \<Rightarrow> collect_params params owner i name d)"

definition def_signature_item :: "ts_node \<Rightarrow> node_id \<Rightarrow> string \<Rightarrow> var_type driver \<Rightarrow> var_type driver" where
  "def_signature_item n trait_id trait_name d =
     (case ts_field_text (dr_src d) n ''name'' of
        None \<Rightarrow> d
      | Some name \<Rightarrow>
          (let d = push_parameters_of n d;
               (i, d) = add_def ''fn'' ''function'' name n trait_id (Some trait_name) d;
               d = open_function n (Some trait_name) i name (mark_abstract i d)
           in pop_type_parameters (scope_pop d)))"

text \<open>The last node's \<open>returns\<close> fact.\<close>

definition stamp_returns :: "string \<Rightarrow> var_type driver \<Rightarrow> var_type driver" where
  "stamp_returns rt d =
     d\<lparr>dr_nodes :=
       (if dr_nodes d = [] then []
        else butlast (dr_nodes d)
             @ [(last (dr_nodes d))\<lparr>n_attrs := bt_insert RETURNS rt (n_attrs (last (dr_nodes d)))\<rparr>])\<rparr>"

definition enter_function :: "ts_node \<Rightarrow> string \<Rightarrow> string option \<Rightarrow> rust_ctx \<Rightarrow> node_id \<times> rust_ctx" where
  "enter_function n name current_impl c =
     (let d = push_parameters_of n (rc_d c);
          d = (if current_impl = None \<and> is_pub n then d\<lparr>dr_exports := dr_exports d @ [Local name]\<rparr> else d);
          (pre, kind) = (case def_kind n of Some pk \<Rightarrow> pk | None \<Rightarrow> (''fn'', ''function''));
          (i, d) = add_def pre kind name n (dr_file_id d) current_impl d;
          pending = (case current_impl of
                       None \<Rightarrow> rc_pending_methods c
                     | Some owner \<Rightarrow> rc_pending_methods c @ [(base_type_name owner, i)]);
          d = (case Option.bind (ts_field n ''return_type'') (rx_type_name (dr_src d)) of
                 None \<Rightarrow> d | Some rt \<Rightarrow> stamp_returns (own_type rt current_impl) d)
      in (i, c\<lparr>rc_d := open_function n current_impl i name d, rc_pending_methods := pending\<rparr>))"

definition enter_type :: "ts_node \<Rightarrow> rust_ctx \<Rightarrow> rust_ctx" where
  "enter_type n c =
     (let c = add_named_type n (on_d (push_parameters_of n) c);
          name = ts_field_text (dr_src (rc_d c)) n ''name'';
          type_id = Option.bind name (bt_get (rc_type_ids c));
          c = (case type_id of None \<Rightarrow> c | Some i \<Rightarrow> on_d (emit_bound_type_edges i n) c);
          c = c\<lparr>rc_trait := None\<rparr>
      in if ts_kind n \<noteq> ''trait_item'' then c
         else
           (case type_id of
              None \<Rightarrow> c
            | Some i \<Rightarrow> (on_d (mark_abstract i) c)\<lparr>rc_trait := map_option (\<lambda>name. (i, name)) name\<rparr>))"

definition enter_impl :: "ts_node \<Rightarrow> rust_ctx \<Rightarrow> rust_ctx" where
  "enter_impl n c =
     (let src = dr_src (rc_d c);
          c = on_d (push_parameters_of n) c
      in case Option.bind (ts_field n ''type'') (rx_type_name src) of
           None \<Rightarrow> c
         | Some ty \<Rightarrow>
             (let c = c\<lparr>rc_pending_impls := rc_pending_impls c @ map (\<lambda>(_, t). (ty, t)) (rx_heritage src n)\<rparr>
              in case bt_get (rc_type_ids c) (base_type_name ty) of
                   Some i \<Rightarrow> on_d (emit_bound_type_edges i n) c
                 | None \<Rightarrow>
                     c\<lparr>rc_declined := rc_declined c @ [(base_type_name ty, ''no_local_node'')]\<rparr>))"

definition impl_owner :: "ts_node \<Rightarrow> string option \<Rightarrow> rust_ctx \<Rightarrow> string option" where
  "impl_owner n current_impl c =
     (case ts_field_text (dr_src (rc_d c)) n ''type'' of Some t \<Rightarrow> Some t | None \<Rightarrow> current_impl)"

definition visit_call ::
  "rust_env \<Rightarrow> ts_node \<Rightarrow> (node_id \<times> string) option \<Rightarrow> string option \<Rightarrow> var_type driver \<Rightarrow> var_type driver"
where
  "visit_call env n current_fn current_impl d =
     (case (current_fn, ts_field n ''function'') of
        (Some (src_id, _), Some func) \<Rightarrow>
          (case callee_ref env (dr_src d) func of
             None \<Rightarrow> d
           | Some (callee, syntactic_hint) \<Rightarrow>
               (let syntactic = (if syntactic_hint = Some ''Self'' then current_impl else syntactic_hint);
                    hints =
                      (case syntactic of
                         Some ty \<Rightarrow> bt_insert ''type'' ty bt_empty
                       | None \<Rightarrow>
                           if ts_kind func = ''field_expression''
                           then (case receiver_type func current_impl d of
                                   Some (Concrete ty) \<Rightarrow> bt_insert ''type'' ty bt_empty
                                 | Some (ReturnOf callee owner) \<Rightarrow>
                                     (let h = bt_insert ''recv_returns'' callee bt_empty
                                      in case owner of
                                           None \<Rightarrow> h
                                         | Some o' \<Rightarrow> bt_insert ''recv_returns_owner'' o' h)
                                 | None \<Rightarrow> bt_insert ''recv'' ''opaque'' bt_empty)
                           else bt_empty)
                in emit_call src_id ((target_ref_new callee)\<lparr>t_hints := hints\<rparr>) d))
      | _ \<Rightarrow> d)"

definition visit_use :: "ts_node \<Rightarrow> var_type driver \<Rightarrow> var_type driver" where
  "visit_use n d =
     (case ts_field n ''argument'' of
        None \<Rightarrow> d
      | Some arg \<Rightarrow> fold (\<lambda>u. emit_use u (is_pub n)) (rx_imports (dr_src d) arg) d)"

function walk ::
  "rust_env \<Rightarrow> ts_node \<Rightarrow> (node_id \<times> string) option \<Rightarrow> string option \<Rightarrow> rust_ctx \<Rightarrow> rust_ctx"
where
  "walk env n current_fn current_impl c =
     (let src = dr_src (rc_d c)
      in if ts_kind n = ''function_item'' \<and> ts_field_text src n ''name'' \<noteq> None
         then
           (let name = the (ts_field_text src n ''name'');
                (i, c) = enter_function n name current_impl c;
                c = fold (\<lambda>child. walk env child (Some (i, name)) current_impl) (ts_children n) c
            in on_d (\<lambda>d. pop_type_parameters (scope_pop d)) c)
         else if ts_kind n = ''function_signature_item'' \<and> rc_trait c \<noteq> None
         then on_d (def_signature_item n (fst (the (rc_trait c))) (snd (the (rc_trait c)))) c
         else if ts_kind n = ''let_declaration''
         then
           (let binding = infer_let_type env src n current_impl;
                c = fold (\<lambda>child. walk env child current_fn current_impl) (ts_children n) c
            in case binding of None \<Rightarrow> c | Some (var, ty) \<Rightarrow> on_d (scope_insert var ty) c)
         else if ts_kind n \<in> set [''struct_item'', ''union_item'', ''enum_item'', ''trait_item'']
         then
           (let outer_trait = rc_trait c;
                c = fold (\<lambda>child. walk env child current_fn current_impl) (ts_children n) (enter_type n c)
            in (on_d pop_type_parameters c)\<lparr>rc_trait := outer_trait\<rparr>)
         else if ts_kind n = ''impl_item''
         then
           (let owner = impl_owner n current_impl c;
                c = fold (\<lambda>child. walk env child current_fn owner) (ts_children n) (enter_impl n c)
            in on_d pop_type_parameters c)
         else
           (let c = (if ts_kind n = ''call_expression'' then on_d (visit_call env n current_fn current_impl) c
                     else if ts_kind n = ''use_declaration'' then on_d (visit_use n) c
                     else c)
            in fold (\<lambda>child. walk env child current_fn current_impl) (ts_children n) c))"
  by (pat_completeness, (elim Pair_inject)?, hypsubst, rule refl)
termination
  by (relation "measure (\<lambda>(_, n, _). size n)") (auto dest: ts_sizes)

declare walk.simps [simp del]

section \<open>After the walk\<close>

definition resolve_pending_impls :: "rust_ctx \<Rightarrow> rust_ctx" where
  "resolve_pending_impls c =
     c\<lparr>rc_d := fold (\<lambda>(ty, target) d.
                  case bt_get (rc_type_ids c) ty of
                    None \<Rightarrow> d | Some i \<Rightarrow> emit_heritage i IMPLEMENTS target d)
                (rc_pending_impls c) (rc_d c),
       rc_pending_impls := []\<rparr>"

fun reparent :: "node_id \<Rightarrow> node_id \<Rightarrow> node_id \<Rightarrow> edge list \<Rightarrow> edge list" where
  "reparent file_id method type_id [] = []"
| "reparent file_id method type_id (e # es) =
     (if e_relation e = CONTAINS \<and> e_source e = file_id \<and> e_target e = Node method
      then e\<lparr>e_source := type_id\<rparr> # es
      else e # reparent file_id method type_id es)"

definition resolve_pending_method_containment :: "rust_ctx \<Rightarrow> rust_ctx" where
  "resolve_pending_method_containment c =
     c\<lparr>rc_d := fold (\<lambda>(owner, method) d.
                  case bt_get (rc_type_ids c) owner of
                    None \<Rightarrow> d
                  | Some i \<Rightarrow> d\<lparr>dr_edges := reparent (dr_file_id d) method i (dr_edges d)\<rparr>)
                (rc_pending_methods c) (rc_d c),
       rc_pending_methods := []\<rparr>"

definition rust_handles :: "artifact \<Rightarrow> bool" where
  "rust_handles a \<longleftrightarrow> a_language a = Some ''rust''"

definition rust_extract :: "rust_env \<Rightarrow> artifact \<Rightarrow> bytes \<Rightarrow> error + extraction" where
  "rust_extract env a src =
     (case rx_grammar_error env of
        Some e \<Rightarrow> Inl (Parse (''load rust grammar: '' @ e))
      | None \<Rightarrow>
          (case rx_parse env src of
             None \<Rightarrow> Inl (Parse (''parse failed: '' @ a_path a))
           | Some tree \<Rightarrow>
               Inr (driver_finish (rc_d (resolve_pending_method_containment
                 (resolve_pending_impls (walk env tree None None (rust_ctx_new a src))))))))"

definition rust_extractor :: "rust_env \<Rightarrow> extractor_port" where
  "rust_extractor env = \<lparr>ext_handles = rust_handles, ext_extract = rust_extract env\<rparr>"

end
