(* ===== verification/Driver_Steps.thy ===== *)
theory Driver_Steps
  imports Rust_Extract
begin

text \<open>
  What an extraction does to its driver, as a step relation: every operation of a walk is a sequence of
  these steps, so an invariant of a step is an invariant of the extraction. A name is minted only if it
  satisfies \<open>nm\<close>, an edge starts only at a node there is, and only if \<open>rl\<close> are nodes given other labels or ids of
  another prefix than that of their kind.
\<close>

section \<open>Steps\<close>

definition known :: "'v driver \<Rightarrow> node_id set" where
  "known d = n_id ` set (dr_nodes d)"

definition owning :: "string \<Rightarrow> bool" where
  "owning r \<longleftrightarrow> r = CONTAINS \<or> r = HAS_VARIANT"

definition kind_prefix :: "string \<Rightarrow> string" where
  "kind_prefix kind =
     (if kind = ''function'' then ''fn'' else if kind = ''enum_variant'' then ''variant''
      else if kind = ''type_alias'' then ''type_alias'' else ''type'')"

inductive dr_step :: "bool \<Rightarrow> (string \<Rightarrow> bool) \<Rightarrow> 'v driver \<Rightarrow> 'v driver \<Rightarrow> bool" for rl nm where
  bookkeeping:
    "dr_step rl nm d (d\<lparr>dr_exports := es, dr_scopes := ss, dr_local_types := ls, dr_tp_stack := ps, dr_tps := us\<rparr>)"
| stamp:
    "\<lbrakk>dr_nodes d = before @ n # after; k \<noteq> IMPL\<rbrakk>
      \<Longrightarrow> dr_step rl nm d (d\<lparr>dr_nodes := before @ n\<lparr>n_attrs := bt_insert k v (n_attrs n)\<rparr> # after\<rparr>)"
| symbol:
    "\<lbrakk>s \<in> known d; \<not> owning r\<rbrakk> \<Longrightarrow> dr_step rl nm d (push_edge (edge_to s r (Symbol t)) d)"
| typed:
    "\<lbrakk>s \<in> known d; \<not> owning r\<rbrakk> \<Longrightarrow> dr_step rl nm d (snd (emit_typed (edge_to s r (Symbol t)) ty d))"
| adds:
    "\<lbrakk>container \<in> known d; pre = kind_prefix kind \<or> rl \<and> (\<exists>k. pre = kind_prefix k); kind \<noteq> ''enum_variant'';
      nm name; pred_option nm owner\<rbrakk>
      \<Longrightarrow> dr_step rl nm d (snd (add_def_raw pre kind name sp decl container owner d))"
| adds_variant:
    "\<lbrakk>e \<in> known d; nm en; nm name\<rbrakk> \<Longrightarrow> dr_step rl nm d (snd (add_variant_raw e en name sp decl d))"
| labels:
    "\<lbrakk>rl; dr_nodes d = before @ n # after\<rbrakk>
      \<Longrightarrow> dr_step rl nm d (d\<lparr>dr_nodes := before @ n\<lparr>n_label := l\<rparr> # after\<rparr>)"
| moves:
    "i \<in> known d \<Longrightarrow> dr_step rl nm d (d\<lparr>dr_edges := reparent (dr_file_id d) m i (dr_edges d)\<rparr>)"

abbreviation dr_steps :: "bool \<Rightarrow> (string \<Rightarrow> bool) \<Rightarrow> 'v driver \<Rightarrow> 'v driver \<Rightarrow> bool" where
  "dr_steps rl nm \<equiv> (dr_step rl nm)\<^sup>*\<^sup>*"

lemma emit_typed_fields:
  "dr_nodes (snd (emit_typed e ty d)) = dr_nodes d"
  "dr_src (snd (emit_typed e ty d)) = dr_src d"
  "dr_file_id (snd (emit_typed e ty d)) = dr_file_id d"
  "dr_tp_stack (snd (emit_typed e ty d)) = dr_tp_stack d"
  "dr_tps (snd (emit_typed e ty d)) = dr_tps d"
  "dr_scopes (snd (emit_typed e ty d)) = dr_scopes d"
  "dr_path (snd (emit_typed e ty d)) = dr_path d"
  "dr_seen (snd (emit_typed e ty d)) = dr_seen d"
  "dr_id_meta (snd (emit_typed e ty d)) = dr_id_meta d"
  by (simp_all add: emit_typed_def push_edge_def Let_def)

lemma add_def_raw_fields:
  "dr_nodes (snd (add_def_raw pre kind name sp decl container owner d)) =
     dr_nodes d @ [def_node d (fst (add_def_raw pre kind name sp decl container owner d)) name kind sp owner]"
  "dr_edges (snd (add_def_raw pre kind name sp decl container owner d)) =
     dr_edges d @ [edge_to container CONTAINS (Node (fst (add_def_raw pre kind name sp decl container owner d)))]"
  "dr_src (snd (add_def_raw pre kind name sp decl container owner d)) = dr_src d"
  "dr_file_id (snd (add_def_raw pre kind name sp decl container owner d)) = dr_file_id d"
  "dr_tp_stack (snd (add_def_raw pre kind name sp decl container owner d)) = dr_tp_stack d"
  "dr_tps (snd (add_def_raw pre kind name sp decl container owner d)) = dr_tps d"
  "dr_scopes (snd (add_def_raw pre kind name sp decl container owner d)) = dr_scopes d"
  "dr_path (snd (add_def_raw pre kind name sp decl container owner d)) = dr_path d"
  "dr_stats (snd (add_def_raw pre kind name sp decl container owner d)) = dr_stats d"
  by (simp_all add: add_def_raw_def mint_id_def def_node_def Let_def)

lemma add_variant_raw_fields:
  "dr_nodes (snd (add_variant_raw e en name sp decl d)) =
     dr_nodes d @ [def_node d (fst (add_variant_raw e en name sp decl d)) name ''enum_variant'' sp (Some en)]"
  "dr_edges (snd (add_variant_raw e en name sp decl d)) =
     dr_edges d @ [edge_to e HAS_VARIANT (Node (fst (add_variant_raw e en name sp decl d)))]"
  "dr_src (snd (add_variant_raw e en name sp decl d)) = dr_src d"
  "dr_file_id (snd (add_variant_raw e en name sp decl d)) = dr_file_id d"
  "dr_tp_stack (snd (add_variant_raw e en name sp decl d)) = dr_tp_stack d"
  "dr_tps (snd (add_variant_raw e en name sp decl d)) = dr_tps d"
  "dr_scopes (snd (add_variant_raw e en name sp decl d)) = dr_scopes d"
  "dr_path (snd (add_variant_raw e en name sp decl d)) = dr_path d"
  "dr_stats (snd (add_variant_raw e en name sp decl d)) = dr_stats d"
  by (simp_all add: add_variant_raw_def mint_id_def def_node_def Let_def)

lemmas dr_fields = emit_typed_fields add_def_raw_fields add_variant_raw_fields

lemma step_known: "dr_step rl nm d d' \<Longrightarrow> known d \<subseteq> known d'"
  by (induction rule: dr_step.induct) (auto simp: known_def dr_fields push_edge_def)

lemma steps_known: "dr_steps rl nm d d' \<Longrightarrow> known d \<subseteq> known d'"
  by (induction rule: rtranclp_induct) (auto dest: step_known)

lemma step_same:
  "dr_step rl nm d d' \<Longrightarrow> dr_src d' = dr_src d \<and> dr_file_id d' = dr_file_id d \<and> dr_path d' = dr_path d"
  by (induction rule: dr_step.induct) (auto simp: dr_fields push_edge_def)

lemma steps_same:
  "dr_steps rl nm d d' \<Longrightarrow> dr_src d' = dr_src d \<and> dr_file_id d' = dr_file_id d \<and> dr_path d' = dr_path d"
  by (induction rule: rtranclp_induct) (auto dest: step_same)

section \<open>Operations that keep the level\<close>

text \<open>Type parameters are the union of their frames. An operation keeps the level if it is made of steps and
  leaves the frames and all scopes but the innermost as they were.\<close>

definition tps_ok :: "'v driver \<Rightarrow> bool" where
  "tps_ok d \<longleftrightarrow> dr_tps d = \<Union> (set (dr_tp_stack d))"

definition level :: "bool \<Rightarrow> (string \<Rightarrow> bool) \<Rightarrow> 'v driver \<Rightarrow> 'v driver \<Rightarrow> bool" where
  "level rl nm d d' \<longleftrightarrow>
     dr_steps rl nm d d' \<and> dr_tp_stack d' = dr_tp_stack d \<and> (tps_ok d \<longrightarrow> tps_ok d')
     \<and> length (dr_scopes d') = length (dr_scopes d) \<and> tl (dr_scopes d') = tl (dr_scopes d)"

lemma level_refl [simp]: "level rl nm d d"
  by (simp add: level_def)

lemma level_trans [trans]: "level rl nm d d' \<Longrightarrow> level rl nm d' d'' \<Longrightarrow> level rl nm d d''"
  by (auto simp: level_def)

lemma level_known: "level rl nm d d' \<Longrightarrow> i \<in> known d \<Longrightarrow> i \<in> known d'"
  using steps_known [of rl nm d d'] by (auto simp: level_def)

lemma level_src: "level rl nm d d' \<Longrightarrow> dr_src d' = dr_src d"
  using steps_same by (auto simp: level_def)

lemma level_file: "level rl nm d d' \<Longrightarrow> dr_file_id d' = dr_file_id d"
  using steps_same by (auto simp: level_def)

lemma level_step:
  assumes "dr_step rl nm d d'" "dr_tp_stack d' = dr_tp_stack d" "dr_tps d' = dr_tps d"
    and "dr_scopes d' = dr_scopes d"
  shows "level rl nm d d'"
  using assms by (auto simp: level_def tps_ok_def)

lemma level_fold:
  assumes "\<And>x d'. x \<in> set xs \<Longrightarrow> i \<in> known d' \<Longrightarrow> dr_src d' = dr_src d \<Longrightarrow> level rl nm d' (f x d')"
    and "i \<in> known d"
  shows "level rl nm d (fold f xs d)"
  using assms
proof (induction xs arbitrary: d)
  case (Cons x xs)
  have "level rl nm d (f x d)" by (rule Cons.prems) (simp_all add: Cons.prems)
  moreover have "level rl nm (f x d) (fold f xs (f x d))"
    using Cons.prems level_known [OF calculation] level_src [OF calculation] by (intro Cons.IH) auto
  ultimately show ?case by (simp add: level_trans)
qed simp

lemma level_exports: "level rl nm d (d\<lparr>dr_exports := es\<rparr>)"
proof -
  have "dr_step rl nm d (d\<lparr>dr_exports := es, dr_scopes := dr_scopes d, dr_local_types := dr_local_types d,
      dr_tp_stack := dr_tp_stack d, dr_tps := dr_tps d\<rparr>)"
    by (rule bookkeeping)
  then show ?thesis by (intro level_step) simp_all
qed

lemma level_register_local_type: "level rl nm d (register_local_type t d)"
proof -
  have "dr_step rl nm d (d\<lparr>dr_exports := dr_exports d, dr_scopes := dr_scopes d,
      dr_local_types := dr_local_types (register_local_type t d), dr_tp_stack := dr_tp_stack d, dr_tps := dr_tps d\<rparr>)"
    by (rule bookkeeping)
  then show ?thesis by (intro level_step) (simp_all add: register_local_type_def)
qed

lemma level_scope_insert: "level rl nm d (scope_insert v t d)"
proof -
  have "dr_step rl nm d (d\<lparr>dr_exports := dr_exports d, dr_scopes := dr_scopes (scope_insert v t d),
      dr_local_types := dr_local_types d, dr_tp_stack := dr_tp_stack d, dr_tps := dr_tps d\<rparr>)"
    by (rule bookkeeping)
  moreover have "d\<lparr>dr_exports := dr_exports d, dr_scopes := dr_scopes (scope_insert v t d),
      dr_local_types := dr_local_types d, dr_tp_stack := dr_tp_stack d, dr_tps := dr_tps d\<rparr>
      = scope_insert v t d"
    by (cases "dr_scopes d") (simp_all add: scope_insert_def)
  ultimately show ?thesis
    by (cases "dr_scopes d") (auto simp: level_def tps_ok_def scope_insert_def)
qed

lemma level_params:
  assumes "level rl nm (push_type_parameters ps d) d'"
  shows "level rl nm d (pop_type_parameters d')"
proof -
  have a: "dr_step rl nm d (push_type_parameters ps d)"
    using bookkeeping [of rl nm d "dr_tps d \<union> ps" "ps # dr_tp_stack d" "dr_local_types d" "dr_scopes d" "dr_exports d"]
    by (cases d) (simp add: push_type_parameters_def)
  from assms have s: "dr_tp_stack d' = ps # dr_tp_stack d"
    by (simp add: level_def push_type_parameters_def)
  have b: "dr_step rl nm d' (pop_type_parameters d')"
    using bookkeeping [of rl nm d' "\<Union> (set (dr_tp_stack d))" "dr_tp_stack d" "dr_local_types d'" "dr_scopes d'"
        "dr_exports d'"] s
    by (cases d') (simp add: pop_type_parameters_def)
  from assms a b have "dr_steps rl nm d (pop_type_parameters d')"
    by (meson converse_rtranclp_into_rtranclp level_def rtranclp.rtrancl_into_rtrancl)
  with assms show ?thesis
    by (simp add: level_def s pop_type_parameters_def push_type_parameters_def tps_ok_def)
qed

lemma level_scope:
  assumes "level rl nm (scope_push d) d'"
  shows "level rl nm d (scope_pop d')" "dr_scopes (scope_pop d') = dr_scopes d"
proof -
  have a: "dr_step rl nm d (scope_push d)"
    using bookkeeping [of rl nm d "dr_tps d" "dr_tp_stack d" "dr_local_types d" "bt_empty # dr_scopes d" "dr_exports d"]
    by (simp add: scope_push_def)
  have b: "dr_step rl nm d' (scope_pop d')"
    using bookkeeping [of rl nm d' "dr_tps d'" "dr_tp_stack d'" "dr_local_types d'" "tl (dr_scopes d')" "dr_exports d'"]
    by (simp add: scope_pop_def)
  from assms a b have "dr_steps rl nm d (scope_pop d')"
    by (meson converse_rtranclp_into_rtranclp level_def rtranclp.rtrancl_into_rtrancl)
  moreover show "dr_scopes (scope_pop d') = dr_scopes d"
    using assms by (simp add: level_def scope_push_def scope_pop_def)
  ultimately show "level rl nm d (scope_pop d')"
    using assms by (simp add: level_def scope_push_def scope_pop_def tps_ok_def)
qed

lemma not_owning [simp]:
  "\<not> owning CALLS" "\<not> owning IMPORTS" "\<not> owning IMPLEMENTS" "\<not> owning EXTENDS" "\<not> owning FIELD_TYPE"
  "\<not> owning PARAM_TYPE" "\<not> owning RETURN_TYPE" "\<not> owning BOUND_TYPE" "owning CONTAINS" "owning HAS_VARIANT"
  by (simp_all add: owning_def extract_consts CALLS_def IMPORTS_def CONTAINS_def HAS_VARIANT_def)

lemma level_push_symbol:
  assumes "s \<in> known d" "\<not> owning r"
  shows "level rl nm d (push_edge (edge_to s r (Symbol t)) d)"
  by (rule level_step [OF symbol]) (simp_all add: assms push_edge_def)

lemma level_typed:
  assumes "s \<in> known d" "\<not> owning r"
  shows "level rl nm d (snd (emit_typed (edge_to s r (Symbol t)) ty d))"
  by (rule level_step [OF typed]) (simp_all add: assms dr_fields)

lemma level_emit_call: "s \<in> known d \<Longrightarrow> level rl nm d (emit_call s t d)"
  by (simp add: emit_call_def level_push_symbol)

lemma level_emit_import: "dr_file_id d \<in> known d \<Longrightarrow> level rl nm d (emit_import t d)"
  by (simp add: emit_import_def level_push_symbol)

lemma level_emit_heritage: "s \<in> known d \<Longrightarrow> \<not> owning r \<Longrightarrow> level rl nm d (emit_heritage s r t d)"
  by (simp add: emit_heritage_def level_push_symbol)

lemma level_emit_types:
  "s \<in> known d \<Longrightarrow> level rl nm d (snd (emit_field_type s name ty vis d))"
  "s \<in> known d \<Longrightarrow> level rl nm d (snd (emit_param_type s ty d))"
  "s \<in> known d \<Longrightarrow> level rl nm d (snd (emit_return_type s ty d))"
  "s \<in> known d \<Longrightarrow> level rl nm d (snd (emit_bound_type s ty d))"
  by (simp_all add: emit_field_type_def emit_param_type_def emit_return_type_def emit_bound_type_def
      level_typed Let_def)


lemma level_add_def:
  assumes "add_def pre kind name n container owner d = (i, d')"
    and "container \<in> known d" "pre = kind_prefix kind \<or> rl \<and> (\<exists>k. pre = kind_prefix k)" "kind \<noteq> ''enum_variant''"
    and "nm name" "pred_option nm owner"
  shows "level rl nm d d'" "i \<in> known d'"
    "dr_nodes d' = dr_nodes d @ [def_node d i name kind (row_span (ts_rows n)) owner]"
proof -
  let ?r = "add_def_raw pre kind name (row_span (ts_rows n)) (decl_text d n) container owner d"
  have r: "?r = (i, d')" using assms(1) by (simp add: add_def_def)
  have "dr_step rl nm d (snd ?r)" using assms(2-6) by (rule adds)
  then show "level rl nm d d'" 
    by (intro level_step) (metis r snd_conv add_def_raw_fields)+
  show nodes: "dr_nodes d' = dr_nodes d @ [def_node d i name kind (row_span (ts_rows n)) owner]"
    by (metis r fst_conv snd_conv add_def_raw_fields(1))
  show "i \<in> known d'" by (simp add: nodes known_def def_node_def node_new_def)
qed

lemma level_add_variant:
  assumes "add_variant e en name n d = (i, d')" and "e \<in> known d" "nm en" "nm name"
  shows "level rl nm d d'" "i \<in> known d'"
proof -
  let ?r = "add_variant_raw e en name (row_span (ts_rows n)) (decl_text d n) d"
  have r: "?r = (i, d')" using assms(1) by (simp add: add_variant_def)
  have "dr_step rl nm d (snd ?r)" using assms(2-4) by (rule adds_variant)
  moreover have "dr_tp_stack d' = dr_tp_stack d" "dr_tps d' = dr_tps d" "dr_scopes d' = dr_scopes d"
    using add_variant_raw_fields(5-7) [of e en name "row_span (ts_rows n)" "decl_text d n" d]
    by (simp_all add: r)
  ultimately show "level rl nm d d'" by (simp add: r level_step)
  have "dr_nodes d' = dr_nodes d @ [def_node d i name ''enum_variant'' (row_span (ts_rows n)) (Some en)]"
    by (metis r fst_conv snd_conv add_variant_raw_fields(1))
  then show "i \<in> known d'" by (simp add: known_def def_node_def node_new_def)
qed

lemma level_stamp:
  assumes "dr_nodes d = before @ n # after" "k \<noteq> IMPL"
  shows "level rl nm d (d\<lparr>dr_nodes := before @ n\<lparr>n_attrs := bt_insert k v (n_attrs n)\<rparr> # after\<rparr>)"
  by (rule level_step [OF stamp [OF assms]]) simp_all

lemma level_mark_abstract: "level rl nm d (mark_abstract i d)"
proof (cases "dropWhile (\<lambda>n. n_id n \<noteq> i) (rev (dr_nodes d))")
  case (Cons n before)
  have "dr_nodes d = rev (takeWhile (\<lambda>n. n_id n \<noteq> i) (rev (dr_nodes d)) @ n # before)"
    using takeWhile_dropWhile_id [of "\<lambda>n. n_id n \<noteq> i" "rev (dr_nodes d)"] Cons by (metis rev_rev_ident)
  then have "dr_nodes d = rev before @ n # rev (takeWhile (\<lambda>n. n_id n \<noteq> i) (rev (dr_nodes d)))" by simp
  from level_stamp [OF this, of ABSTRACT rl nm ATTR_TRUE] show ?thesis
    by (simp add: mark_abstract_def Cons extract_consts)
next
  case Nil
  have "mark_abstract i d = d" unfolding mark_abstract_def Nil Let_def prod.case list.case by simp
  then show ?thesis by simp
qed

lemma pop_same [simp]: "known (scope_pop d) = known d" "dr_file_id (scope_pop d) = dr_file_id d"
  by (simp_all add: known_def scope_pop_def)

lemma known_exports [simp]: "known (d\<lparr>dr_exports := es\<rparr>) = known d"
  by (simp add: known_def)

end
