(* ===== verification/Extract_Steps.thy ===== *)
theory Extract_Steps
  imports Driver_Steps
begin

text \<open>
  The extraction of a Rust file is made of the steps of \<open>Driver_Steps\<close>: the operations of its walk, the walk, and
  what follows it.
\<close>

section \<open>The operations of the walk\<close>

lemma level_emit_bounds: "i \<in> known d \<Longrightarrow> level False nm d (emit_bounds i bs d)"
  unfolding emit_bounds_def by (rule level_fold) (auto intro: level_emit_types)

lemma level_emit_bound_type_edges:
  assumes "i \<in> known d"
  shows "level False nm d (emit_bound_type_edges i n d)"
proof -
  let ?a = "case ts_field n ''type_parameters'' of
       None \<Rightarrow> d | Some tp \<Rightarrow> emit_bounds i (collect_trait_bounds (dr_src d) tp) d"
  let ?b = "case find (\<lambda>c. ts_kind c = ''where_clause'') (ts_children n) of
       None \<Rightarrow> ?a | Some w \<Rightarrow> emit_bounds i (collect_where_clause_bounds (dr_src d) w) ?a"
  have a: "level False nm d ?a" using assms by (auto split: option.split intro: level_emit_bounds)
  have b: "level False nm ?a ?b" using level_known [OF a assms] by (auto split: option.split intro: level_emit_bounds)
  note ab = level_trans [OF a b]
  have "level False nm ?b (emit_bound_type_edges i n d)"
    unfolding emit_bound_type_edges_def Let_def
    using level_known [OF ab assms] by (simp add: level_emit_bounds split: option.split)
  with ab show ?thesis by (rule level_trans)
qed

lemma level_emit_signature:
  assumes "i \<in> known d" "\<And>t d'. i \<in> known d' \<Longrightarrow> level False nm d' (snd (emit t d'))"
  shows "level False nm d (emit_signature emit fn_name owner refs d)"
  unfolding emit_signature_def using assms by (intro level_fold) (auto simp: Let_def)

lemma level_collect_param:
  assumes "i \<in> known d"
  shows "level False nm d (collect_param owner i fn_name child d)"
proof -
  let ?a = "case (Option.bind (ts_field child ''pattern'') (pattern_name (dr_src d)),
                  Option.bind (ts_field child ''type'') (rx_type_name (dr_src d))) of
              (Some name, Some ty) \<Rightarrow> scope_insert name (Concrete ty) d | _ \<Rightarrow> d"
  have a: "level False nm d ?a" by (auto split: option.split intro: level_scope_insert)
  have "level False nm ?a (emit_signature (emit_param_type i) fn_name owner refs ?a)" for refs
    using level_known [OF a assms] by (intro level_emit_signature) (auto intro: level_emit_types)
  with a have "level False nm d (emit_signature (emit_param_type i) fn_name owner refs ?a)" for refs
    by (blast intro: level_trans)
  then show ?thesis
    using a unfolding collect_param_def Let_def by (auto split: option.split intro: level_scope_insert)
qed

lemma level_collect_params: "i \<in> known d \<Longrightarrow> level False nm d (collect_params params owner i fn_name d)"
  unfolding collect_params_def by (rule level_fold) (auto intro: level_collect_param)

lemma level_emit_fields: "i \<in> known d \<Longrightarrow> level False nm d (emit_fields i field vis types d)"
  unfolding emit_fields_def by (rule level_fold) (auto intro: level_emit_types)

lemma level_payloads:
  assumes "i \<in> known d"
  shows "level False nm d (emit_variant_payload_types i v d)"
proof -
  have "level False nm d' (emit_tuple_variant_payloads i n d')" if "i \<in> known d'" for n d'
    unfolding emit_tuple_variant_payloads_def using that by (intro level_fold) (auto intro: level_emit_fields)
  moreover have "level False nm d' (emit_struct_variant_payloads i n d')" if "i \<in> known d'" for n d'
    unfolding emit_struct_variant_payloads_def using that
    by (intro level_fold) (auto intro: level_emit_fields split: option.split)
  ultimately show ?thesis
    unfolding emit_variant_payload_types_def using assms by (intro level_fold) auto
qed

text \<open>The names of a tree that can be minted: those in \<open>name\<close> fields, and the types of impl blocks.\<close>

definition names_ok :: "(string \<Rightarrow> bool) \<Rightarrow> bytes \<Rightarrow> ts_node \<Rightarrow> bool" where
  "names_ok nm src n \<longleftrightarrow>
     (\<forall>m \<in> set (ts_subtrees n).
        pred_option nm (ts_field_text src m ''name'')
        \<and> (ts_kind m = ''impl_item'' \<longrightarrow> pred_option nm (ts_field_text src m ''type'')))"

lemma names_ok_child: "names_ok nm src n \<Longrightarrow> c \<in> set (ts_children n) \<Longrightarrow> names_ok nm src c"
  using ts_subtrees_child unfolding names_ok_def by blast

lemma names_ok_name: "names_ok nm src n \<Longrightarrow> ts_field_text src n ''name'' = Some t \<Longrightarrow> nm t"
  using ts_subtrees_self unfolding names_ok_def by fastforce

lemma level_emit_variants:
  assumes "i \<in> known d" "nm name" "names_ok nm (dr_src d) n"
  shows "level False nm d (emit_variants n name i d)"
proof (cases "ts_field n ''body''")
  case (Some body)
  let ?f = "\<lambda>v d. case ts_field_text (dr_src d) v ''name'' of
              None \<Rightarrow> d
            | Some vname \<Rightarrow>
                (let (variant_id, d) = add_variant i name vname v d in emit_variant_payload_types variant_id v d)"
  have "level False nm d' (?f v d')"
    if v: "v \<in> set (ts_named_children body)" and d': "i \<in> known d'" "dr_src d' = dr_src d" for v d'
  proof (cases "ts_field_text (dr_src d') v ''name''")
    case (Some vname)
    have "names_ok nm (dr_src d) v"
      using names_ok_child [OF names_ok_child [OF assms(3) ts_field_child]] ts_named_child [OF v]
        \<open>ts_field n ''body'' = Some body\<close> by blast
    with Some d' have "nm vname" by (simp add: names_ok_name)
    obtain j d'' where add: "add_variant i name vname v d' = (j, d'')" by fastforce
    note va = level_add_variant [OF add d'(1) assms(2) \<open>nm vname\<close>]
    show ?thesis using level_trans [OF va(1) level_payloads [OF va(2)]] by (simp add: Some add)
  qed simp
  then show ?thesis
    unfolding emit_variants_def Some option.case using assms(1) by (intro level_fold) auto
qed (simp add: emit_variants_def)

lemma level_emit_struct_fields:
  assumes "i \<in> known d"
  shows "level False nm d (emit_struct_fields n name i d)"
proof -
  have a: "level False nm d (fold (\<lambda>(field, ty, vis) d. snd (emit_field_type i field ty vis d)) xs d)" for xs
    using assms by (intro level_fold) (auto intro: level_emit_types)
  show ?thesis
    unfolding emit_struct_fields_def Let_def
    by (rule level_trans [OF a level_fold]) (use level_known [OF a assms] in \<open>auto intro: level_emit_fields\<close>)
qed

lemma heritage_relations: "list_all (\<lambda>h. \<not> owning (fst h)) (rx_heritage src n)"
  unfolding rx_heritage_def
  by (cases "ts_field n ''bounds''"; cases "Option.bind (ts_field n ''trait'') (rx_type_name src)")
    (simp_all add: list.pred_map comp_def list.pred_True)

lemma heritage_not_owning: "(r, t) \<in> set (rx_heritage src n) \<Longrightarrow> \<not> owning r"
  using heritage_relations by (fastforce simp: list_all_iff)

lemma level_emit_trait_parts:
  assumes "i \<in> known d"
  shows "level False nm d (emit_trait_parts n i d)"
proof -
  let ?d = "fold (\<lambda>(relation, target). emit_heritage i relation target) (rx_heritage (dr_src d) n) d"
  have a: "level False nm d ?d"
    using assms by (intro level_fold) (auto intro: level_emit_heritage dest: heritage_not_owning)
  then show ?thesis
    unfolding emit_trait_parts_def Let_def
    by (auto split: option.split intro: level_trans [OF a level_emit_bounds] level_known [OF a assms])
qed

lemma level_emit_use:
  assumes "dr_file_id d \<in> known d"
  shows "level False nm d (emit_use u p d)"
proof (cases u)
  case (Import_Named spec imp al)
  have "dr_file_id (d\<lparr>dr_exports := es\<rparr>) \<in> known (d\<lparr>dr_exports := es\<rparr>)" for es
    using assms by (simp add: known_def)
  then have "level False nm d (emit_import t (d\<lparr>dr_exports := es\<rparr>))" for t es
    by (rule level_trans [OF level_exports level_emit_import])
  then show ?thesis using level_emit_import [OF assms] by (simp add: emit_use_def Import_Named Let_def)
qed (simp add: emit_use_def level_exports)

lemma level_visit_use:
  assumes "dr_file_id d \<in> known d"
  shows "level False nm d (visit_use n d)"
proof -
  have "level False nm d (fold (\<lambda>u. emit_use u p) us d)" for us p
    using assms
  proof (induction us arbitrary: d)
    case (Cons u us)
    note a = level_emit_use [OF Cons.prems, of nm u p]
    show ?case using level_trans [OF a Cons.IH] level_known [OF a Cons.prems] level_file [OF a] by simp
  qed simp
  then show ?thesis by (simp add: visit_use_def split: option.split)
qed

lemma level_visit_call:
  assumes "pred_option (\<lambda>f. fst f \<in> known d) cur"
  shows "level False nm d (visit_call env n cur owner d)"
  using assms unfolding visit_call_def
  by (auto split: option.splits prod.splits simp: Let_def intro: level_emit_call)

section \<open>The walk\<close>

lemma level_stamp_returns: "level False nm d (stamp_returns rt d)"
proof (cases "dr_nodes d = []")
  case False
  then have "dr_nodes d = butlast (dr_nodes d) @ last (dr_nodes d) # []" by simp
  from level_stamp [OF this, of RETURNS False nm rt] False show ?thesis
    by (simp add: stamp_returns_def extract_consts)
qed (cases d, simp add: stamp_returns_def)

lemma level_open_function:
  assumes "i \<in> known d"
  shows "\<exists>ds. level False nm d ds \<and> level False nm (scope_push ds) (open_function n owner i name d)"
proof -
  let ?a = "case ts_field n ''return_type'' of
       None \<Rightarrow> d | Some t \<Rightarrow> emit_signature (emit_return_type i) name owner (ref_names (dr_src d) t) d"
  let ?b = "emit_bound_type_edges i n ?a"
  have a: "level False nm d ?a"
    using assms by (auto split: option.split intro: level_emit_signature level_emit_types)
  note b = level_trans [OF a level_emit_bound_type_edges [OF level_known [OF a assms]]]
  have "i \<in> known (scope_push ?b)" using level_known [OF b assms] by (simp add: known_def scope_push_def)
  then have "level False nm (scope_push ?b) (open_function n owner i name d)"
    unfolding open_function_def Let_def by (auto split: option.split intro: level_collect_params)
  with b show ?thesis by blast
qed

definition ctx_ok :: "(string \<Rightarrow> bool) \<Rightarrow> rust_ctx \<Rightarrow> bool" where
  "ctx_ok nm c \<longleftrightarrow>
     (\<forall>k i. bt_get (rc_type_ids c) k = Some i \<longrightarrow> i \<in> known (rc_d c))
     \<and> pred_option (\<lambda>(i, t). i \<in> known (rc_d c) \<and> nm t) (rc_trait c)
     \<and> dr_file_id (rc_d c) \<in> known (rc_d c)"

lemma ctx_ok_grow:
  assumes "ctx_ok nm c" "level False nm (rc_d c) d"
  shows "ctx_ok nm (c\<lparr>rc_d := d\<rparr>)"
  using assms level_known [OF assms(2)] level_file [OF assms(2)]
  by (auto simp: ctx_ok_def pred_option_def)

definition keeps :: "(string \<Rightarrow> bool) \<Rightarrow> rust_ctx \<Rightarrow> rust_ctx \<Rightarrow> bool" where
  "keeps nm c c' \<longleftrightarrow> level False nm (rc_d c) (rc_d c') \<and> ctx_ok nm c' \<and> rc_trait c' = rc_trait c"

lemma keeps_refl: "ctx_ok nm c \<Longrightarrow> keeps nm c c"
  by (simp add: keeps_def)

lemma keeps_trans: "keeps nm c c' \<Longrightarrow> keeps nm c' c'' \<Longrightarrow> keeps nm c c''"
  by (auto simp: keeps_def intro: level_trans)

lemma keeps_on_d: "ctx_ok nm c \<Longrightarrow> level False nm (rc_d c) (f (rc_d c)) \<Longrightarrow> keeps nm c (on_d f c)"
  by (simp add: keeps_def ctx_ok_grow)

lemma keeps_fold:
  assumes "ctx_ok nm c"
    and "\<And>x c'. x \<in> set xs \<Longrightarrow> ctx_ok nm c' \<Longrightarrow> level False nm (rc_d c) (rc_d c') \<Longrightarrow> keeps nm c' (f x c')"
  shows "keeps nm c (fold f xs c)"
  using assms
proof (induction xs arbitrary: c)
  case (Cons x xs)
  have a: "keeps nm c (f x c)" using Cons.prems by simp
  moreover have "keeps nm (f x c) (fold f xs (f x c))"
  proof (rule Cons.IH)
    show "ctx_ok nm (f x c)" using a by (simp add: keeps_def)
    fix y c' assume y: "y \<in> set xs" "ctx_ok nm c'" "level False nm (rc_d (f x c)) (rc_d c')"
    moreover have "level False nm (rc_d c) (rc_d c')" using a y(3) by (auto simp: keeps_def intro: level_trans)
    ultimately show "keeps nm c' (f y c')" using Cons.prems(2) by simp
  qed
  ultimately show ?case by (simp add: keeps_trans)
qed (simp add: keeps_refl)

lemma level_def_signature_item:
  assumes "i \<in> known d" "nm t" "names_ok nm (dr_src d) n"
  shows "level False nm d (def_signature_item n i t d)"
proof (cases "ts_field_text (dr_src d) n ''name''")
  case (Some name)
  let ?d = "push_parameters_of n d"
  have "i \<in> known ?d" using assms(1) by (simp add: known_def push_parameters_of_def push_type_parameters_def)
  moreover have "nm name" using names_ok_name [OF assms(3) Some] .
  moreover obtain j d1 where add: "add_def ''fn'' ''function'' name n i (Some t) ?d = (j, d1)" by fastforce
  ultimately have d1: "level False nm ?d d1" "j \<in> known d1"
    using level_add_def [OF add, where nm = nm] assms(2) by (simp_all add: kind_prefix_def)
  note m = level_trans [OF d1(1) level_mark_abstract [of False nm d1 j]]
  have "j \<in> known (mark_abstract j d1)" by (rule level_known [OF level_mark_abstract d1(2)])
  then obtain ds where ds: "level False nm (mark_abstract j d1) ds"
      "level False nm (scope_push ds) (open_function n (Some t) j name (mark_abstract j d1))"
    using level_open_function by blast
  have "level False nm ?d (scope_pop (open_function n (Some t) j name (mark_abstract j d1)))"
    by (rule level_trans [OF m level_trans [OF ds(1) level_scope(1) [OF ds(2)]]])
  then have "level False nm d (pop_type_parameters (scope_pop (open_function n (Some t) j name (mark_abstract j d1))))"
    by (simp only: push_parameters_of_def level_params)
  then show ?thesis unfolding def_signature_item_def Some option.case Let_def add prod.case .
qed (simp add: def_signature_item_def)

lemma function_kind: "ts_kind n = ''function_item'' \<Longrightarrow> def_kind n = Some (''fn'', ''function'')"
  by (simp add: def_kind_def)

lemma push_same [simp]:
  "known (push_parameters_of n d) = known d" "dr_src (push_parameters_of n d) = dr_src d"
  "dr_file_id (push_parameters_of n d) = dr_file_id d"
  by (simp_all add: known_def push_parameters_of_def push_type_parameters_def)

lemma enter_function_effect:
  assumes "ts_kind n = ''function_item''" "nm name" "pred_option nm owner" "ctx_ok nm c"
    and enter: "enter_function n name owner c = (i, c')"
  shows "\<exists>ds. level False nm (push_parameters_of n (rc_d c)) ds \<and> level False nm (scope_push ds) (rc_d c')
    \<and> i \<in> known (rc_d c') \<and> ctx_ok nm c' \<and> rc_trait c' = rc_trait c"
proof -
  let ?p = "push_parameters_of n (rc_d c)"
  let ?e = "if owner = None \<and> is_pub n then ?p\<lparr>dr_exports := dr_exports ?p @ [Local name]\<rparr> else ?p"
  have at_file: "dr_file_id (rc_d c) \<in> known (rc_d c)" using assms(4) by (simp add: ctx_ok_def)
  have e: "level False nm ?p ?e" by (simp add: level_exports)
  obtain d1 j where add: "add_def ''fn'' ''function'' name n (dr_file_id ?e) owner ?e = (j, d1)" by fastforce
  have "dr_file_id ?e \<in> known ?e"
    using at_file by simp
  then have d1: "level False nm ?e d1" "j \<in> known d1"
    using level_add_def [OF add] assms(2,3) by (simp_all add: kind_prefix_def)
  let ?r = "case Option.bind (ts_field n ''return_type'') (rx_type_name (dr_src d1)) of
      None \<Rightarrow> d1 | Some rt \<Rightarrow> stamp_returns (own_type rt owner) d1"
  have r: "level False nm d1 ?r" by (auto split: option.split intro: level_stamp_returns)
  obtain ds where ds: "level False nm ?r ds" "level False nm (scope_push ds) (open_function n owner j name ?r)"
    using level_open_function level_known [OF r d1(2)] by blast
  have res: "i = j" "rc_d c' = open_function n owner j name ?r" "rc_trait c' = rc_trait c"
      "rc_type_ids c' = rc_type_ids c"
    using enter unfolding enter_function_def Let_def function_kind [OF assms(1)] option.case prod.case add
    by auto
  note lev = level_trans [OF e level_trans [OF d1(1) level_trans [OF r ds(1)]]]
  have k: "known (rc_d c) \<subseteq> known ds" using level_known [OF lev] by auto
  have "known (scope_push ds) = known ds" by (simp add: known_def scope_push_def)
  with k level_known [OF ds(2)] have k': "known (rc_d c) \<subseteq> known (rc_d c')" by (auto simp: res)
  have f: "dr_file_id (rc_d c') = dr_file_id (rc_d c)"
    using level_file [OF ds(2)] level_file [OF lev]
    by (simp add: res scope_push_def)
  have "j \<in> known ds" by (rule level_known [OF ds(1) level_known [OF r d1(2)]])
  with \<open>known (scope_push ds) = known ds\<close> level_known [OF ds(2)] have "i \<in> known (rc_d c')" by (simp add: res)
  moreover have "ctx_ok nm c'"
    using assms(4) k' f by (auto simp: ctx_ok_def res pred_option_def)
  ultimately show ?thesis using lev ds(2) res by (intro exI [of _ ds]) simp
qed

definition type_kinds :: "string set" where
  "type_kinds = set [''struct_item'', ''union_item'', ''enum_item'', ''trait_item'']"

lemma type_kind:
  "ts_kind n \<in> type_kinds \<Longrightarrow>
     \<exists>kind. def_kind n = Some (''type'', kind) \<and> kind_prefix kind = ''type'' \<and> kind \<noteq> ''enum_variant''"
  by (auto simp: type_kinds_def def_kind_def kind_prefix_def)

lemma add_named_type_effect:
  assumes "ts_kind n \<in> type_kinds" "names_ok nm (dr_src (rc_d c)) n" "ctx_ok nm c"
  shows "keeps nm c (add_named_type n c)"
proof (cases "ts_field_text (dr_src (rc_d c)) n ''name''")
  case (Some name)
  let ?d = "rc_d c"
  let ?e = "if is_pub n then ?d\<lparr>dr_exports := dr_exports ?d @ [Local name]\<rparr> else ?d"
  have e: "level False nm ?d ?e" by (simp add: level_exports)
  obtain kind where kind: "def_kind n = Some (''type'', kind)" "''type'' = kind_prefix kind" "kind \<noteq> ''enum_variant''"
    using type_kind [OF assms(1)] by metis
  obtain i d1 where add: "add_def ''type'' kind name n (dr_file_id ?e) None ?e = (i, d1)" by fastforce
  have "dr_file_id ?e \<in> known ?e" using assms(3) by (simp add: ctx_ok_def)
  then have d1: "level False nm ?e d1" "i \<in> known d1"
    using level_add_def [OF add] kind(2,3) names_ok_name [OF assms(2) Some] by simp_all
  let ?l = "register_local_type (base_type_name name) d1"
  have l: "level False nm d1 ?l" by (rule level_register_local_type)
  note il = level_known [OF l d1(2)]
  let ?t = "if ts_kind n = ''struct_item'' \<or> ts_kind n = ''union_item'' then emit_struct_fields n name i ?l
            else if ts_kind n = ''trait_item'' then emit_trait_parts n i ?l
            else if ts_kind n = ''enum_item'' then emit_variants n name i ?l else ?l"
  note el = level_trans [OF e level_trans [OF d1(1) l]]
  have "names_ok nm (dr_src ?l) n" using assms(2) by (simp add: level_src [OF el])
  then have t: "level False nm ?l ?t"
    using il names_ok_name [OF assms(2) Some]
    by (auto intro: level_emit_struct_fields level_emit_trait_parts level_emit_variants)
  have res: "add_named_type n c = c\<lparr>rc_d := ?t, rc_type_ids := bt_insert name i (rc_type_ids c)\<rparr>"
    unfolding add_named_type_def Some option.case Let_def kind(1) prod.case add by simp
  note lev = level_trans [OF el t]
  show ?thesis
    using assms(3) lev level_known [OF lev] level_file [OF lev] level_known [OF t il]
    unfolding res keeps_def ctx_ok_def by (auto simp: bt_get_insert pred_option_def split: if_splits)
next
  case None
  show ?thesis unfolding add_named_type_def None option.case using assms(3) by (rule keeps_refl)
qed

lemma push_ctx_ok: "ctx_ok nm c \<Longrightarrow> ctx_ok nm (on_d (push_parameters_of n) c)"
  by (simp add: ctx_ok_def)

lemma enter_type_effect:
  assumes "ts_kind n \<in> type_kinds" "names_ok nm (dr_src (rc_d c)) n" "ctx_ok nm c"
  shows "level False nm (push_parameters_of n (rc_d c)) (rc_d (enter_type n c)) \<and> ctx_ok nm (enter_type n c)"
proof -
  let ?p = "on_d (push_parameters_of n) c"
  let ?c = "add_named_type n ?p"
  have "names_ok nm (dr_src (rc_d ?p)) n"
    using assms(2) by simp
  then have k: "keeps nm ?p ?c" by (rule add_named_type_effect [OF assms(1) _ push_ctx_ok [OF assms(3)]])
  let ?name = "ts_field_text (dr_src (rc_d ?c)) n ''name''"
  let ?i = "Option.bind ?name (bt_get (rc_type_ids ?c))"
  have src: "dr_src (rc_d ?c) = dr_src (rc_d c)"
    using k level_src by (fastforce simp: keeps_def)
  let ?b = "case ?i of None \<Rightarrow> ?c | Some i \<Rightarrow> on_d (emit_bound_type_edges i n) ?c"
  have i: "i \<in> known (rc_d ?c)" if "?i = Some i" for i
    using k that by (auto simp: keeps_def ctx_ok_def bind_eq_Some_conv)
  have b: "keeps nm ?c ?b"
    using i conjunct1 [OF conjunct2 [OF k [unfolded keeps_def]]]
    by (auto split: option.split intro!: keeps_on_d keeps_refl level_emit_bound_type_edges)
  have ids: "rc_type_ids ?b = rc_type_ids ?c" by (simp split: option.split)
  have none: "ctx_ok nm (c'\<lparr>rc_trait := None\<rparr>)" if "ctx_ok nm c'" for c' using that by (simp add: ctx_ok_def)
  note kb = keeps_trans [OF k b]
  show ?thesis
  proof (cases "ts_kind n = ''trait_item'' \<and> ?i \<noteq> None")
    case False
    then have "enter_type n c = ?b\<lparr>rc_trait := None\<rparr>"
      by (auto simp: enter_type_def Let_def split: option.split)
    with kb none show ?thesis by (simp add: keeps_def)
  next
    case True
    then obtain i where is_i: "?i = Some i" by blast
    then obtain name where name: "?name = Some name" by (auto simp: bind_eq_Some_conv)
    have res: "enter_type n c = (on_d (mark_abstract i) (?b\<lparr>rc_trait := None\<rparr>))\<lparr>rc_trait := Some (i, name)\<rparr>"
      using True name is_i unfolding enter_type_def Let_def by simp
    have m: "level False nm (rc_d ?b) (mark_abstract i (rc_d ?b))" by (rule level_mark_abstract)
    have "i \<in> known (mark_abstract i (rc_d ?b))"
      using level_known [OF m] i [OF is_i] b level_known by (fastforce simp: keeps_def)
    moreover have "nm name" using names_ok_name [OF assms(2)] name by (simp add: src)
    moreover have "ctx_ok nm (on_d (mark_abstract i) ?b)"
      using b ctx_ok_grow [OF _ m] by (simp add: keeps_def)
    ultimately have "ctx_ok nm (enter_type n c)" unfolding res by (simp add: ctx_ok_def)
    moreover have "level False nm (rc_d ?p) (mark_abstract i (rc_d ?b))"
      using kb m by (auto simp: keeps_def intro: level_trans)
    ultimately show ?thesis unfolding res by simp
  qed
qed

lemma enter_impl_effect:
  assumes "ctx_ok nm c"
  shows "level False nm (push_parameters_of n (rc_d c)) (rc_d (enter_impl n c)) \<and> ctx_ok nm (enter_impl n c)
    \<and> rc_trait (enter_impl n c) = rc_trait c"
proof -
  note p = push_ctx_ok [OF assms, of n]
  have "level False nm (rc_d (on_d (push_parameters_of n) c))
      (emit_bound_type_edges i n (rc_d (on_d (push_parameters_of n) c)))"
    if "bt_get (rc_type_ids c) k = Some i" for i k
    using p that by (intro level_emit_bound_type_edges) (auto simp: ctx_ok_def)
  then show ?thesis
    using p ctx_ok_grow [OF p] by (auto simp: enter_impl_def Let_def ctx_ok_def split: option.splits)
qed

lemma pop_keeps:
  assumes "level False nm (push_parameters_of n (rc_d c)) (rc_d c')" "ctx_ok nm c'" "ctx_ok nm c"
  shows "keeps nm c ((on_d pop_type_parameters c')\<lparr>rc_trait := rc_trait c\<rparr>)"
proof -
  have l: "level False nm (rc_d c) (pop_type_parameters (rc_d c'))"
    using level_params assms(1) by (simp add: push_parameters_of_def)
  have "known (pop_type_parameters d) = known d" "dr_file_id (pop_type_parameters d) = dr_file_id d"
    for d :: "var_type driver"
    by (simp_all add: known_def pop_type_parameters_def split: list.split)
  with l level_known [OF l] assms(2,3) show ?thesis
    by (auto simp: keeps_def ctx_ok_def pred_option_def)
qed

theorem walk_keeps:
  assumes "ctx_ok nm c" "names_ok nm (dr_src (rc_d c)) n"
    and "pred_option (\<lambda>f. fst f \<in> known (rc_d c)) cur" "pred_option nm owner"
  shows "keeps nm c (walk env n cur owner c)"
  using assms
proof (induction n arbitrary: cur owner c rule: measure_induct_rule [where f = size])
  case (less n)
  let ?src = "dr_src (rc_d c)"
  have kids: "keeps nm c1 (fold (\<lambda>child. walk env child cur' owner') (ts_children n) c1)"
    if "ctx_ok nm c1" "dr_src (rc_d c1) = ?src" "pred_option (\<lambda>f. fst f \<in> known (rc_d c1)) cur'"
      "pred_option nm owner'" for c1 cur' owner'
  proof (rule keeps_fold [OF that(1)])
    fix child c2 assume child: "child \<in> set (ts_children n)" and c2: "ctx_ok nm c2" "level False nm (rc_d c1) (rc_d c2)"
    have "names_ok nm (dr_src (rc_d c2)) child"
      using names_ok_child [OF less.prems(2) child] level_src [OF c2(2)] that(2) by simp
    moreover have "pred_option (\<lambda>f. fst f \<in> known (rc_d c2)) cur'"
      using that(3) level_known [OF c2(2)] by (auto simp: pred_option_def)
    ultimately show "keeps nm c2 (walk env child cur' owner' c2)"
      using less.IH [OF ts_child_size [OF child] c2(1)] that(4) by blast
  qed
  note plain = kids [OF less.prems(1) refl less.prems(3,4)]
  consider (fun_item) name where "ts_kind n = ''function_item''" "ts_field_text ?src n ''name'' = Some name"
    | (sig_item) i t where "ts_kind n = ''function_signature_item''" "rc_trait c = Some (i, t)"
    | (let_item) "ts_kind n = ''let_declaration''"
    | (type_item) "ts_kind n \<in> type_kinds"
    | (impl_item) "ts_kind n = ''impl_item''"
    | (other_item) "\<not> (ts_kind n = ''function_item'' \<and> ts_field_text ?src n ''name'' \<noteq> None)"
        "\<not> (ts_kind n = ''function_signature_item'' \<and> rc_trait c \<noteq> None)"
        "ts_kind n \<noteq> ''let_declaration''" "ts_kind n \<notin> type_kinds" "ts_kind n \<noteq> ''impl_item''"
    by fast
  then show ?case
  proof cases
    case fun_item
    obtain i c1 where enter: "enter_function n name owner c = (i, c1)" by fastforce
    obtain ds where ds: "level False nm (push_parameters_of n (rc_d c)) ds" "level False nm (scope_push ds) (rc_d c1)"
        "i \<in> known (rc_d c1)" "ctx_ok nm c1" "rc_trait c1 = rc_trait c"
      using enter_function_effect [OF fun_item(1) names_ok_name [OF less.prems(2) fun_item(2)] less.prems(4,1) enter]
      by blast
    let ?c2 = "fold (\<lambda>child. walk env child (Some (i, name)) owner) (ts_children n) c1"
    have "dr_src (rc_d c1) = ?src"
      using level_src [OF ds(2)] level_src [OF ds(1)] by (simp add: scope_push_def)
    then have k: "keeps nm c1 ?c2" using ds(3,4) less.prems(4) by (intro kids) auto
    have l: "level False nm ds (scope_pop (rc_d ?c2))"
      using level_scope(1) [OF level_trans [OF ds(2)]] k by (simp add: keeps_def)
    have "ctx_ok nm ?c2" using k by (simp add: keeps_def)
    then have "ctx_ok nm (on_d scope_pop ?c2)" by (simp add: ctx_ok_def)
    with pop_keeps [of nm n c "on_d scope_pop ?c2"] level_trans [OF ds(1) l] less.prems(1)
    have "keeps nm c ((on_d pop_type_parameters (on_d scope_pop ?c2))\<lparr>rc_trait := rc_trait c\<rparr>)" by simp
    moreover have "(on_d pop_type_parameters (on_d scope_pop ?c2))\<lparr>rc_trait := rc_trait c\<rparr>
        = on_d (\<lambda>d. pop_type_parameters (scope_pop d)) ?c2"
      using k ds(5) by (cases ?c2) (simp add: keeps_def)
    ultimately show ?thesis by (simp add: walk.simps [of env n] fun_item enter Let_def)
  next
    case sig_item
    then have "i \<in> known (rc_d c)" "nm t" using less.prems(1) by (simp_all add: ctx_ok_def)
    then show ?thesis
      using level_def_signature_item [OF _ _ less.prems(2)] less.prems(1)
      by (simp add: walk.simps [of env n] sig_item keeps_on_d Let_def)
  next
    case let_item
    have "keeps nm c1 (on_d (scope_insert v t) c1)" if "ctx_ok nm c1" for c1 v t
      using that by (rule keeps_on_d) (rule level_scope_insert)
    then have "keeps nm c (on_d (scope_insert v t) (fold (\<lambda>child. walk env child cur owner) (ts_children n) c))" for v t
      using plain by (meson keeps_def keeps_trans)
    with plain show ?thesis
      unfolding walk.simps [of env n] Let_def by (simp add: let_item split: option.split)
  next
    case type_item
    note e = enter_type_effect [OF type_item less.prems(2,1)]
    have "pred_option (\<lambda>f. fst f \<in> known (rc_d (enter_type n c))) cur"
      using less.prems(3) level_known [OF conjunct1 [OF e]] by (auto simp: pred_option_def)
    then have k: "keeps nm (enter_type n c)
        (fold (\<lambda>child. walk env child cur owner) (ts_children n) (enter_type n c))"
      using e level_src [OF conjunct1 [OF e]] less.prems(4) by (intro kids) simp_all
    with e have "keeps nm c ((on_d pop_type_parameters
        (fold (\<lambda>child. walk env child cur owner) (ts_children n) (enter_type n c)))\<lparr>rc_trait := rc_trait c\<rparr>)"
      using less.prems(1) by (intro pop_keeps) (auto simp: keeps_def intro: level_trans)
    then show ?thesis
      using type_item by (auto simp: walk.simps [of env n] Let_def type_kinds_def)
  next
    case impl_item
    note e = enter_impl_effect [OF less.prems(1), of n]
    let ?owner = "impl_owner n owner c"
    have owner: "pred_option nm ?owner"
      using less.prems(2,4) ts_subtrees_self impl_item unfolding names_ok_def impl_owner_def
      by (fastforce split: option.split)
    have "pred_option (\<lambda>f. fst f \<in> known (rc_d (enter_impl n c))) cur"
      using less.prems(3) level_known [OF conjunct1 [OF e]] by (auto simp: pred_option_def)
    then have k: "keeps nm (enter_impl n c)
        (fold (\<lambda>child. walk env child cur ?owner) (ts_children n) (enter_impl n c))"
      using e level_src [OF conjunct1 [OF e]] owner by (intro kids) simp_all
    let ?c2 = "fold (\<lambda>child. walk env child cur ?owner) (ts_children n) (enter_impl n c)"
    have "keeps nm c ((on_d pop_type_parameters ?c2)\<lparr>rc_trait := rc_trait c\<rparr>)"
      using e k less.prems(1) by (intro pop_keeps) (auto simp: keeps_def intro: level_trans)
    moreover have "(on_d pop_type_parameters ?c2)\<lparr>rc_trait := rc_trait c\<rparr> = on_d pop_type_parameters ?c2"
      using k e by (cases ?c2) (simp add: keeps_def)
    ultimately show ?thesis by (simp add: walk.simps [of env n] impl_item Let_def)
  next
    case other_item
    let ?v = "if ts_kind n = ''call_expression'' then on_d (visit_call env n cur owner) c
        else if ts_kind n = ''use_declaration'' then on_d (visit_use n) c else c"
    have v: "keeps nm c ?v"
      using less.prems(1,3)
      by (auto intro!: keeps_on_d keeps_refl level_visit_call level_visit_use simp: ctx_ok_def)
    have "pred_option (\<lambda>f. fst f \<in> known (rc_d ?v)) cur"
      using less.prems(3) v level_known by (fastforce simp: pred_option_def keeps_def)
    then have "keeps nm ?v (fold (\<lambda>child. walk env child cur owner) (ts_children n) ?v)"
      using v less.prems(4) level_src by (intro kids) (auto simp: keeps_def)
    from keeps_trans [OF v this] show ?thesis
      unfolding walk.simps [of env n] Let_def using other_item by (simp only: type_kinds_def if_False)
  qed
qed

section \<open>The extraction\<close>

lemma resolve_pending_steps:
  assumes "ctx_ok nm c"
  shows "ctx_ok nm (resolve_pending_impls c) \<and> dr_steps False nm (rc_d c) (rc_d (resolve_pending_impls c))"
proof -
  let ?f = "\<lambda>(ty, target) d. case bt_get (rc_type_ids c) ty of
                    None \<Rightarrow> d | Some i \<Rightarrow> emit_heritage i IMPLEMENTS target d"
  have steps: "level False nm d (fold ?f ps d)" if "\<forall>k i. bt_get (rc_type_ids c) k = Some i \<longrightarrow> i \<in> known d" for ps d
    using that
  proof (induction ps arbitrary: d)
    case (Cons p ps)
    have a: "level False nm d (?f p d)"
      using Cons.prems by (auto split: prod.split option.split intro: level_emit_heritage)
    then show ?case using Cons level_known [OF a] by (auto intro: level_trans [OF a])
  qed simp
  have l: "level False nm (rc_d c) (fold ?f (rc_pending_impls c) (rc_d c))"
    using assms by (intro steps) (simp add: ctx_ok_def)
  then show ?thesis
    using ctx_ok_grow [OF assms l] by (simp add: resolve_pending_impls_def ctx_ok_def level_def)
qed

lemma resolve_containment_steps:
  assumes "ctx_ok nm c"
  shows "dr_steps False nm (rc_d c) (rc_d (resolve_pending_method_containment c))"
proof -
  let ?f = "\<lambda>(owner, method) d. case bt_get (rc_type_ids c) owner of
              None \<Rightarrow> d | Some i \<Rightarrow> d\<lparr>dr_edges := reparent (dr_file_id d) method i (dr_edges d)\<rparr>"
  have steps: "dr_steps False nm d (fold ?f ps d)" if "\<forall>k i. bt_get (rc_type_ids c) k = Some i \<longrightarrow> i \<in> known d" for ps d
    using that
  proof (induction ps arbitrary: d)
    case (Cons p ps)
    have a: "dr_steps False nm d (?f p d)"
      using Cons.prems by (auto split: prod.split option.split intro: moves)
    then show ?case using Cons steps_known [OF a] by (fastforce intro: rtranclp_trans [OF a])
  qed simp
  have "dr_steps False nm (rc_d c) (fold ?f (rc_pending_methods c) (rc_d c))"
    using assms by (intro steps) (simp add: ctx_ok_def)
  then show ?thesis by (simp add: resolve_pending_method_containment_def)
qed

theorem rust_extract_steps:
  assumes "rust_extract env a src = Inr x" "rx_parse env src = Some tree" "names_ok nm src tree"
  shows "\<exists>d :: var_type driver. dr_steps False nm (driver_new a src ''rust'') d \<and> x = driver_finish d"
proof -
  let ?c = "rust_ctx_new a src"
  let ?w = "walk env tree None None ?c"
  let ?d = "rc_d (resolve_pending_method_containment (resolve_pending_impls ?w))"
  have "ctx_ok nm ?c"
    by (simp add: ctx_ok_def rust_ctx_new_def driver_new_def known_def node_new_def Let_def)
  moreover have "names_ok nm (dr_src (rc_d ?c)) tree"
    using assms(3) by (simp add: rust_ctx_new_def driver_new_def Let_def)
  ultimately have w: "keeps nm ?c ?w" by (intro walk_keeps) auto
  then have "dr_steps False nm (rc_d ?c) ?d"
    using resolve_pending_steps resolve_containment_steps
    unfolding keeps_def level_def by (meson rtranclp_trans)
  moreover have "x = driver_finish ?d"
    using assms(1,2) by (auto simp: rust_extract_def split: option.splits)
  moreover have "rc_d ?c = driver_new a src ''rust''" by (simp add: rust_ctx_new_def)
  ultimately show ?thesis by (intro exI [of _ ?d] conjI) simp_all
qed

end
