(* ===== verification/Driver_Props.thy ===== *)
theory Driver_Props
  imports Driver_Steps
begin

text \<open>
  The invariants of the steps of \<open>Driver_Steps\<close>: edges are wired to the nodes, each definition is owned once, ids
  are minted from bases, one for each definition; and what the final renaming makes of them.
\<close>

section \<open>Wiring\<close>

definition well_aimed :: "edge \<Rightarrow> bool" where
  "well_aimed e \<longleftrightarrow> (case e_target e of Node _ \<Rightarrow> owning (e_relation e) | Symbol _ \<Rightarrow> True)"

definition wired_parts :: "node_id \<Rightarrow> node list \<Rightarrow> edge list \<Rightarrow> bool" where
  "wired_parts file_id nodes edges \<longleftrightarrow>
     nodes \<noteq> [] \<and> n_id (hd nodes) = file_id
     \<and> (\<forall>e \<in> set edges. e_source e \<in> n_id ` set nodes)
     \<and> map e_target (filter (\<lambda>e. owning (e_relation e)) edges) = map (\<lambda>n. Node (n_id n)) (tl nodes)
     \<and> (\<forall>e \<in> set edges. well_aimed e)"

abbreviation wired :: "'v driver \<Rightarrow> bool" where
  "wired d \<equiv> wired_parts (dr_file_id d) (dr_nodes d) (dr_edges d)"

lemma reparent_targets: "map e_target (filter (\<lambda>e. P (e_relation e)) (reparent f m i es)) =
    map e_target (filter (\<lambda>e. P (e_relation e)) es)"
  by (induction f m i es rule: reparent.induct) auto

lemma reparent_in:
  "e \<in> set (reparent f m i es) \<Longrightarrow>
     (\<exists>e' \<in> set es. e_relation e = e_relation e' \<and> e_target e = e_target e' \<and> (e_source e = e_source e' \<or> e_source e = i))"
  by (induction f m i es rule: reparent.induct) (auto split: if_splits)

lemma aimed_same: "e_relation e = e_relation e' \<Longrightarrow> e_target e = e_target e' \<Longrightarrow> well_aimed e' \<Longrightarrow> well_aimed e"
  by (simp add: well_aimed_def split: edge_target.splits)

lemma wired_add:
  assumes "wired_parts f nodes edges" "s \<in> n_id ` set nodes" "owning r"
  shows "wired_parts f (nodes @ [n]) (edges @ [edge_to s r (Node (n_id n))])"
  using assms by (cases nodes) (auto simp: wired_parts_def edge_to_def well_aimed_def)

lemma wired_symbol:
  assumes "wired_parts f nodes edges" "s \<in> n_id ` set nodes" "\<not> owning r"
  shows "wired_parts f nodes (edges @ [edge_to s r (Symbol t)])"
  using assms by (auto simp: wired_parts_def edge_to_def well_aimed_def)

lemma emit_typed_edges:
  "dr_edges (snd (emit_typed e ty d)) = (if is_noise (d\<lparr>dr_stats := record_considered (dr_stats d)\<rparr>) ty
     then dr_edges d else dr_edges d @ [e])"
  by (simp add: emit_typed_def push_edge_def Let_def)

lemma node_of_def [simp]: "n_id (def_node d i name kind sp owner) = i"
  by (simp add: def_node_def node_new_def)

lemma wired_step: "dr_step rl nm d d' \<Longrightarrow> wired d \<Longrightarrow> wired d'"
proof (induction rule: dr_step.induct)
  case (stamp d before n after k v)
  then show ?case by (cases before) (auto simp: wired_parts_def)
next
  case (labels d before n after l)
  then show ?case by (cases before) (auto simp: wired_parts_def)
next
  case (symbol s d r t)
  then show ?case by (simp add: push_edge_def known_def wired_symbol)
next
  case (typed s d r t ty)
  then show ?case by (simp add: dr_fields emit_typed_edges known_def wired_symbol)
next
  case (adds container d pre kind name owner sp decl)
  then show ?case
    using wired_add [OF adds.prems, of container CONTAINS
        "def_node d (fst (add_def_raw pre kind name sp decl container owner d)) name kind sp owner"]
    by (simp add: dr_fields known_def)
next
  case (adds_variant e d en name sp decl)
  then show ?case
    using wired_add [OF adds_variant.prems, of e HAS_VARIANT
        "def_node d (fst (add_variant_raw e en name sp decl d)) name ''enum_variant'' sp (Some en)"]
    by (simp add: dr_fields known_def)
next
  case (moves i d m)
  have "e_source e \<in> n_id ` set (dr_nodes d)" "well_aimed e"
    if "e \<in> set (reparent (dr_file_id d) m i (dr_edges d))" for e
    using reparent_in [OF that] moves aimed_same by (auto simp: wired_parts_def known_def)
  then show ?case using moves by (simp add: wired_parts_def reparent_targets)
qed (simp add: wired_parts_def)

lemma wired_steps: "dr_steps rl nm d d' \<Longrightarrow> wired d \<Longrightarrow> wired d'"
  by (induction rule: rtranclp_induct) (auto intro: wired_step)

section \<open>Minting\<close>

definition node_base :: "string \<Rightarrow> node \<Rightarrow> string" where
  "node_base path n = id_base (kind_prefix (n_kind n)) path (qualify (n_label n) (bt_get (n_attrs n) IMPL))"

definition provisional :: "string \<Rightarrow> nat \<Rightarrow> string" where
  "provisional b k = (let w = word_of_nat k :: u32 in if w = 0 then b else b @ ''~'' @ show_nat (unat w))"

text \<open>The ids minted for bases, given newest first.\<close>

fun minted :: "string list \<Rightarrow> string list" where
  "minted [] = []"
| "minted (b # older) = minted older @ [provisional b (count_list older b)]"

definition bases_of :: "string \<Rightarrow> node list \<Rightarrow> string list" where
  "bases_of path nodes = map (node_base path) (tl nodes)"

definition ids_of :: "node list \<Rightarrow> string list" where
  "ids_of nodes = map (\<lambda>n. the_id (n_id n)) (tl nodes)"

text \<open>\<open>bs\<close> are the bases of the definitions so far, made of names that satisfy \<open>nm\<close>.\<close>

definition based :: "(string \<Rightarrow> bool) \<Rightarrow> string \<Rightarrow> string \<Rightarrow> bool" where
  "based nm path b \<longleftrightarrow>
     (\<exists>kind name owner. nm name \<and> pred_option nm owner \<and> b = id_base (kind_prefix kind) path (qualify name owner))"

definition minting_parts ::
  "(string \<Rightarrow> bool) \<Rightarrow> string \<Rightarrow> string list \<Rightarrow> node list \<Rightarrow> (string, u32) btree \<Rightarrow> (string, id_meta) btree \<Rightarrow> bool"
where
  "minting_parts nm path bs nodes seen meta \<longleftrightarrow>
     nodes \<noteq> [] \<and> ids_of nodes = minted (rev bs)
     \<and> (\<forall>b. bt_get seen b =
           (if count_list bs b = 0 then None else Some (word_of_nat (count_list bs b))))
     \<and> (\<exists>ms. map im_base ms = bs \<and> meta = bt_collect (zip (ids_of nodes) ms))
     \<and> (\<forall>b \<in> set bs. based nm path b)"

abbreviation minting :: "(string \<Rightarrow> bool) \<Rightarrow> string list \<Rightarrow> 'v driver \<Rightarrow> bool" where
  "minting nm bs d \<equiv> minting_parts nm (dr_path d) bs (dr_nodes d) (dr_seen d) (dr_id_meta d)"

lemma count_list_rev: "count_list (rev xs) x = count_list xs x"
  by (induction xs) auto

lemma length_minted [simp]: "length (minted bs) = length bs"
  by (induction bs) auto

lemma bt_collect_snoc: "bt_collect (kvs @ [(k, v)]) = bt_insert k v (bt_collect kvs)"
  by (simp add: bt_collect_def bt_extend_fold)

lemma mint_id_provisional:
  assumes "minting nm bs d" "b = id_base pre (dr_path d) q"
  shows "mint_id pre q d =
    (NodeId (provisional b (count_list bs b)),
     d\<lparr>dr_seen := bt_insert b (word_of_nat (count_list bs b) + 1) (dr_seen d)\<rparr>)"
  using assms by (simp add: mint_id_def minting_parts_def provisional_def Let_def)

text \<open>Adding a node with a freshly minted id.\<close>

lemma minting_add:
  assumes old: "minting nm bs d"
    and n: "n_id n = NodeId (provisional b (count_list bs b))" "based nm (dr_path d) b"
    and im: "im_base im = b"
  shows "minting_parts nm (dr_path d) (bs @ [b]) (dr_nodes d @ [n])
    (bt_insert b (word_of_nat (count_list bs b) + 1) (dr_seen d))
    (bt_insert (provisional b (count_list bs b)) im (dr_id_meta d))"
proof -
  let ?k = "count_list bs b"
  from old obtain ms where ne: "dr_nodes d \<noteq> []" and ids: "ids_of (dr_nodes d) = minted (rev bs)"
    and seen: "\<And>b. bt_get (dr_seen d) b = (if count_list bs b = 0 then None else Some (word_of_nat (count_list bs b)))"
    and ms: "map im_base ms = bs" "dr_id_meta d = bt_collect (zip (ids_of (dr_nodes d)) ms)"
    and based: "\<forall>b \<in> set bs. based nm (dr_path d) b"
    unfolding minting_parts_def by blast
  have len: "length ms = length (ids_of (dr_nodes d))"
    using arg_cong [OF ms(1), of length] by (simp add: ids length_minted)
  have eq: "ids_of (dr_nodes d @ [n]) = ids_of (dr_nodes d) @ [provisional b ?k]"
    using ne n by (simp add: ids_of_def)
  have "map im_base (ms @ [im]) = bs @ [b]" using ms(1) im by simp
  moreover have "bt_insert (provisional b ?k) im (dr_id_meta d) =
      bt_collect (zip (ids_of (dr_nodes d) @ [provisional b ?k]) (ms @ [im]))"
    using ms(2) len by (simp add: bt_collect_snoc)
  ultimately have meta: "\<exists>ms. map im_base ms = bs @ [b] \<and> bt_insert (provisional b ?k) im (dr_id_meta d) =
      bt_collect (zip (ids_of (dr_nodes d) @ [provisional b ?k]) ms)" by blast
  show ?thesis
    unfolding minting_parts_def eq using meta ne ids based n
    by (simp add: seen bt_get_insert count_list_rev)
qed

lemma minting_same:
  assumes "minting_parts nm p bs nodes seen meta" "ids_of nodes' = ids_of nodes" "nodes' \<noteq> []"
  shows "minting_parts nm p bs nodes' seen meta"
  using assms(1,3) unfolding minting_parts_def assms(2) by blast

lemma base_of_def:
  "node_base path (def_node d i name kind sp owner) = id_base (kind_prefix kind) path (qualify name owner)"
  by (cases owner) (simp_all add: node_base_def def_node_def node_new_def bt_get_insert)

lemma def_node_attrs:
  "n_label (def_node d i name kind sp owner) = name"
  "bt_get (n_attrs (def_node d i name kind sp owner)) IMPL = owner"
  "def_node (d\<lparr>dr_seen := s\<rparr>) i name kind sp owner = def_node d i name kind sp owner"
  by (cases owner; simp add: def_node_def node_new_def bt_get_insert)+

text \<open>The bases follow from the nodes, unless labels change.\<close>

definition minting_from :: "bool \<Rightarrow> (string \<Rightarrow> bool) \<Rightarrow> string list \<Rightarrow> 'v driver \<Rightarrow> bool" where
  "minting_from rl nm bs d \<longleftrightarrow> minting nm bs d \<and> (rl \<or> bs = bases_of (dr_path d) (dr_nodes d))"

lemma minting_from_same:
  assumes "minting_from rl nm bs d" "dr_path d' = dr_path d" "dr_seen d' = dr_seen d" "dr_id_meta d' = dr_id_meta d"
    and "ids_of (dr_nodes d') = ids_of (dr_nodes d)" "dr_nodes d' \<noteq> []"
    and "rl \<or> bases_of (dr_path d) (dr_nodes d') = bases_of (dr_path d) (dr_nodes d)"
  shows "minting_from rl nm bs d'"
  using assms by (auto simp: minting_from_def intro: minting_same)

lemma minting_from_add:
  assumes "minting_from rl nm bs d" "nm name" "pred_option nm owner"
    and "b = id_base pre (dr_path d) (qualify name owner)" "im_base im = b"
    and "pre = kind_prefix kind \<or> rl \<and> (\<exists>k. pre = kind_prefix k)"
    and "dr_nodes d' = dr_nodes d @ [def_node d (NodeId (provisional b (count_list bs b))) name kind sp owner]"
    and "dr_seen d' = bt_insert b (word_of_nat (count_list bs b) + 1) (dr_seen d)"
    and "dr_id_meta d' = bt_insert (provisional b (count_list bs b)) im (dr_id_meta d)" "dr_path d' = dr_path d"
  shows "minting_from rl nm (bs @ [b]) d'"
proof -
  have m: "minting nm bs d" using assms(1) by (simp add: minting_from_def)
  have "based nm (dr_path d) b" using assms(2-4,6) unfolding based_def by blast
  then have "minting nm (bs @ [b]) d'"
    using minting_add [OF m _ _ assms(5), of "def_node d (NodeId (provisional b (count_list bs b))) name kind sp owner"]
    by (simp add: assms(7-10))
  moreover have "dr_nodes d \<noteq> []" using m by (simp add: minting_parts_def)
  ultimately show ?thesis
    using assms(1,4,6) by (auto simp: minting_from_def assms(7,10) bases_of_def base_of_def)
qed

lemma minting_step: "dr_step rl nm d d' \<Longrightarrow> minting_from rl nm bs d \<Longrightarrow> \<exists>bs'. minting_from rl nm bs' d'"
proof (induction rule: dr_step.induct)
  case (bookkeeping d es ss ls ps us)
  then show ?case by (auto simp: minting_from_def)
next
  case (stamp d before n after k v)
  have "node_base p (n\<lparr>n_attrs := bt_insert k v (n_attrs n)\<rparr>) = node_base p n" for p
    using stamp(2) by (simp add: node_base_def bt_get_insert)
  with stamp(1) have "minting_from rl nm bs (d\<lparr>dr_nodes := before @ n\<lparr>n_attrs := bt_insert k v (n_attrs n)\<rparr> # after\<rparr>)"
    by (intro minting_from_same [OF stamp(3)]; cases before) (simp_all add: bases_of_def ids_of_def)
  then show ?case by blast
next
  case (labels d before n after l)
  then have "minting_from rl nm bs (d\<lparr>dr_nodes := before @ n\<lparr>n_label := l\<rparr> # after\<rparr>)"
    by (intro minting_from_same [OF labels(3)]; cases before) (simp_all add: ids_of_def)
  then show ?case by blast
next
  case (symbol s d r t)
  then show ?case by (auto simp: push_edge_def minting_from_def)
next
  case (typed s d r t ty)
  then show ?case by (auto simp: dr_fields minting_from_def)
next
  case (adds container d pre kind name owner sp decl)
  let ?b = "id_base pre (dr_path d) (qualify name owner)"
  have m: "minting nm bs d" using adds.prems by (simp add: minting_from_def)
  note mint = mint_id_provisional [OF m refl, of pre "qualify name owner"]
  have "minting_from rl nm (bs @ [?b]) (snd (add_def_raw pre kind name sp decl container owner d))"
    using adds(2,4,5) by (intro minting_from_add [OF adds.prems, of name owner ?b pre "\<lparr>im_base = ?b, im_decl = decl\<rparr>" kind])
      (simp_all add: add_def_raw_def Let_def mint def_node_attrs)
  then show ?case by blast
next
  case (adds_variant e d en name sp decl)
  let ?b = "id_base (kind_prefix ''enum_variant'') (dr_path d) (qualify name (Some en))"
  have m: "minting nm bs d" using adds_variant.prems by (simp add: minting_from_def)
  note mint = mint_id_provisional [OF m refl, of "''variant''" "qualify name (Some en)"]
  have "minting_from rl nm (bs @ [?b]) (snd (add_variant_raw e en name sp decl d))"
    using adds_variant(2,3)
    by (intro minting_from_add [OF adds_variant.prems, of name "Some en" ?b "''variant''" "\<lparr>im_base = ?b, im_decl = decl\<rparr>" "''enum_variant''"])
      (simp_all add: add_variant_raw_def Let_def mint def_node_attrs kind_prefix_def)
  then show ?case by blast
next
  case (moves i d m)
  then show ?case by (auto simp: minting_from_def)
qed

lemma minting_steps: "dr_steps rl nm d d' \<Longrightarrow> minting_from rl nm bs d \<Longrightarrow> \<exists>bs'. minting_from rl nm bs' d'"
  by (induction rule: rtranclp_induct) (auto dest: minting_step)

lemma new_driver_ok: "wired (driver_new a src l)" "minting_from rl nm [] (driver_new a src l)"
  by (simp_all add: driver_new_def wired_parts_def minting_parts_def node_new_def bt_collect_def Let_def
      bases_of_def ids_of_def minting_from_def bt_extend_fold)

lemma minting_fromD:
  "minting_from rl nm bs d \<Longrightarrow> minting nm bs d"
  "minting_from False nm bs d \<Longrightarrow> bs = bases_of (dr_path d) (dr_nodes d)"
  by (simp_all add: minting_from_def)

section \<open>The final renaming\<close>

lemma remap_none: "remap_id bt_empty i = i"
  by (simp add: remap_id_def)

lemma remap_edge_none: "remap_edge bt_empty e = e"
  by (cases "e_target e") (simp_all add: remap_edge_def remap_none)

lemma finalize_map:
  "finalize_collisions nodes edges meta =
     (map (\<lambda>n. n\<lparr>n_id := remap_id (remap_of meta nodes [] bt_empty) (n_id n)\<rparr>) nodes,
      map (remap_edge (remap_of meta nodes [] bt_empty)) edges)"
  by (auto simp: finalize_collisions_def Let_def remap_none remap_edge_none map_idI)

text \<open>A free candidate is free: of \<open>n + 1\<close> distinct candidates one is not among \<open>n\<close> used ones.\<close>

lemma digit_char_inj: "d < 10 \<Longrightarrow> e < 10 \<Longrightarrow> digit_char d = digit_char e \<Longrightarrow> d = e"
  using char_digit_digit_char by (metis option.inject)

lemma show_nat_inj: "show_nat m = show_nat n \<Longrightarrow> m = n"
proof (induction m arbitrary: n rule: show_nat.induct)
  case (1 m)
  have "last (show_nat k) = digit_char (k mod 10)" "butlast (show_nat k) = (if k < 10 then [] else show_nat (k div 10))"
    for k by (subst show_nat.simps, simp)+
  note ends = this
  from ends(1) [of m] ends(1) [of n] "1.prems" have "m mod 10 = n mod 10"
    using digit_char_inj [of "m mod 10" "n mod 10"] by simp
  moreover from ends(2) [of m] ends(2) [of n] "1.prems" have "m div 10 = n div 10"
    using "1.IH" [of "n div 10"] show_nat_not_Nil [symmetric] by (auto split: if_splits)
  ultimately show ?case by (metis mult_div_mod_eq)
qed

definition candidate :: "string \<Rightarrow> nat \<Rightarrow> string" where
  "candidate hashed k = (if k = 0 then hashed else hashed @ ''~'' @ show_nat k)"

lemma candidate_inj: "inj (candidate hashed)"
  by (rule injI) (auto simp: candidate_def dest: show_nat_inj split: if_splits)

lemma free_candidate_from:
  "\<exists>j \<ge> k. free_candidate fuel (k + 1) hashed used (candidate hashed k) = candidate hashed j
     \<and> (candidate hashed j \<notin> set used \<or> (j = k + fuel \<and> (\<forall>x. k \<le> x \<and> x < j \<longrightarrow> candidate hashed x \<in> set used)))"
proof (induction fuel arbitrary: k)
  case 0
  show ?case by (intro exI [of _ k]) auto
next
  case (Suc fuel)
  show ?case
  proof (cases "candidate hashed k \<in> set used")
    case True
    have "hashed @ ''~'' @ show_nat (k + 1) = candidate hashed (k + 1)" by (simp add: candidate_def)
    with True obtain j where j: "j \<ge> k + 1"
      "free_candidate (Suc fuel) (k + 1) hashed used (candidate hashed k) = candidate hashed j"
      "candidate hashed j \<notin> set used \<or> (j = k + 1 + fuel \<and> (\<forall>x. k + 1 \<le> x \<and> x < j \<longrightarrow> candidate hashed x \<in> set used))"
      using Suc [of "k + 1"] by auto
    have "candidate hashed x \<in> set used" if "k \<le> x" "x < j" "\<forall>x. k + 1 \<le> x \<and> x < j \<longrightarrow> candidate hashed x \<in> set used" for x
      using that True by (cases "x = k") simp_all
    with j True show ?thesis by (intro exI [of _ j]) auto
  qed (auto intro!: exI [of _ k])
qed

lemma free_candidate_spec:
  "\<exists>s. free_candidate (length used) 1 hashed used hashed = hashed @ s
     \<and> free_candidate (length used) 1 hashed used hashed \<notin> set used"
proof -
  have h: "candidate hashed 0 = hashed" by (simp add: candidate_def)
  obtain j where j: "free_candidate (length used) 1 hashed used hashed = candidate hashed j"
    "candidate hashed j \<notin> set used \<or> (j = length used \<and> (\<forall>x < j. candidate hashed x \<in> set used))"
    using free_candidate_from [of 0 "length used" hashed used] by (auto simp: h)
  have "candidate hashed j \<notin> set used"
  proof
    assume c: "candidate hashed j \<in> set used"
    with j have "candidate hashed ` {0..<Suc j} \<subseteq> set used" "j = length used" by (auto simp: less_Suc_eq)
    then have "card (candidate hashed ` {0..<Suc j}) \<le> card (set used)" by (simp add: card_mono)
    also have "card (candidate hashed ` {0..<Suc j}) = Suc j"
      by (subst card_image [OF inj_on_subset [OF candidate_inj subset_UNIV]]) simp
    finally show False using \<open>j = length used\<close> card_length [of used] by simp
  qed
  moreover have "\<exists>s. candidate hashed j = hashed @ s" by (simp add: candidate_def)
  ultimately show ?thesis using j by auto
qed


definition renamed :: "(string, id_meta) btree \<Rightarrow> string \<Rightarrow> bool" where
  "renamed meta k \<longleftrightarrow> (\<exists>m. bt_get meta k = Some m \<and> base_count meta (im_base m) > 1)"

definition renames ::
  "(string, id_meta) btree \<Rightarrow> string list \<Rightarrow> string list \<Rightarrow> (string, string) btree \<Rightarrow> (string, string) btree \<Rightarrow> bool"
where
  "renames meta ks used old r \<longleftrightarrow>
     (\<forall>k. k \<notin> set ks \<longrightarrow> bt_get r k = bt_get old k)
     \<and> (\<forall>k \<in> set ks. (bt_get r k \<noteq> None) = renamed meta k)
     \<and> (\<forall>k \<in> set ks. \<forall>c. bt_get r k = Some c \<longrightarrow>
          c \<notin> set used \<and> (\<exists>m s. bt_get meta k = Some m \<and> c = im_base m @ ''#'' @ s))
     \<and> (\<forall>k \<in> set ks. \<forall>k' \<in> set ks. \<forall>c. bt_get r k = Some c \<and> bt_get r k' = Some c \<longrightarrow> k = k')"

lemma renamesD:
  assumes "renames meta ks used old r" "k \<in> set ks"
  shows "(bt_get r k \<noteq> None) = renamed meta k"
    and "bt_get r k = Some c \<Longrightarrow> \<exists>m s. bt_get meta k = Some m \<and> c = im_base m @ ''#'' @ s"
    and "k' \<in> set ks \<Longrightarrow> bt_get r k = Some c \<Longrightarrow> bt_get r k' = Some c \<Longrightarrow> k = k'"
  using assms unfolding renames_def by blast+

lemma renames_skip:
  assumes "renames meta ks used old r" "k \<notin> set ks" "bt_get old k = None" "\<not> renamed meta k"
  shows "renames meta (k # ks) used old r"
proof -
  have k: "bt_get r k = None" using assms(1-3) by (simp add: renames_def)
  show ?thesis
    unfolding renames_def
  proof (intro conjI ballI allI impI)
    fix x assume "x \<notin> set (k # ks)"
    then show "bt_get r x = bt_get old x" using assms(1) by (simp add: renames_def)
  next
    fix x assume "x \<in> set (k # ks)"
    then show "(bt_get r x \<noteq> None) = renamed meta x" using k assms(1,4) by (cases "x = k") (simp_all add: renames_def)
  next
    fix x c assume "x \<in> set (k # ks)" "bt_get r x = Some c"
    then have "x \<in> set ks" "bt_get r x = Some c" using k by auto
    then show "c \<notin> set used" "\<exists>m s. bt_get meta x = Some m \<and> c = im_base m @ ''#'' @ s"
      using assms(1) by (simp_all add: renames_def)
  next
    fix x y c assume "x \<in> set (k # ks)" "y \<in> set (k # ks)" "bt_get r x = Some c \<and> bt_get r y = Some c"
    then have "x \<in> set ks" "y \<in> set ks" "bt_get r x = Some c \<and> bt_get r y = Some c" using k by auto
    then show "x = y" using assms(1) unfolding renames_def by blast
  qed
qed

lemma renames_take:
  assumes "renames meta ks (c # used) (bt_insert k c old) r" "k \<notin> set ks" "renamed meta k" "c \<notin> set used"
    and "bt_get meta k = Some m" "c = im_base m @ ''#'' @ s"
  shows "renames meta (k # ks) used old r"
proof -
  have k: "bt_get r k = Some c" using assms(1,2) by (simp add: renames_def bt_get_insert)
  have out: "bt_get r x = bt_get old x" if "x \<notin> set ks" "x \<noteq> k" for x
    using assms(1) that by (simp add: renames_def bt_get_insert)
  have new: "c' \<noteq> c \<and> c' \<notin> set used \<and> (\<exists>m s. bt_get meta x = Some m \<and> c' = im_base m @ ''#'' @ s)"
    if "x \<in> set ks" "bt_get r x = Some c'" for x c'
    using assms(1) that by (auto simp: renames_def)
  have some: "(bt_get r x \<noteq> None) = renamed meta x" if "x \<in> set ks" for x
    using assms(1) that by (simp add: renames_def)
  have inj: "x = y" if "x \<in> set ks" "y \<in> set ks" "bt_get r x = Some c'" "bt_get r y = Some c'" for x y c'
    using assms(1) that unfolding renames_def by blast
  have own: "\<exists>m s. bt_get meta k = Some m \<and> c = im_base m @ ''#'' @ s" using assms(5,6) by blast
  show ?thesis
    unfolding renames_def
  proof (intro conjI ballI allI impI)
    fix x assume "x \<notin> set (k # ks)"
    then show "bt_get r x = bt_get old x" by (simp add: out)
  next
    fix x assume "x \<in> set (k # ks)"
    then show "(bt_get r x \<noteq> None) = renamed meta x" using k assms(3) some [of x] by (cases "x = k") simp_all
  next
    fix x c' assume x: "x \<in> set (k # ks)" "bt_get r x = Some c'"
    show "c' \<notin> set used" using x k assms(4) new [of x c'] by (cases "x = k") simp_all
    show "\<exists>m s. bt_get meta x = Some m \<and> c' = im_base m @ ''#'' @ s"
      using x k own new [of x c'] by (cases "x = k") simp_all
  next
    fix x y c' assume x: "x \<in> set (k # ks)" "y \<in> set (k # ks)" "bt_get r x = Some c' \<and> bt_get r y = Some c'"
    then show "x = y"
      using k new [of x c'] new [of y c'] inj [of x y c'] by (cases "x = k"; cases "y = k") simp_all
  qed
qed

lemma remap_of_renames:
  assumes "distinct (map (\<lambda>n. the_id (n_id n)) ns)" "\<forall>n \<in> set ns. bt_get old (the_id (n_id n)) = None"
  shows "renames meta (map (\<lambda>n. the_id (n_id n)) ns) used old (remap_of meta ns used old)"
  using assms
proof (induction meta ns used old rule: remap_of.induct)
  case (2 meta n ns used old)
  let ?k = "the_id (n_id n)" and ?ks = "map (\<lambda>n. the_id (n_id n)) ns"
  show ?case
  proof (cases "renamed meta ?k")
    case True
    then obtain m where m: "bt_get meta ?k = Some m" "\<not> base_count meta (im_base m) \<le> 1"
      by (auto simp: renamed_def)
    let ?h = "im_base m @ ''#'' @ short_hash (im_decl m)"
    let ?c = "free_candidate (length used) 1 ?h used ?h"
    have "?k \<notin> set ?ks" using 2(4) by simp
    then have other: "the_id (n_id x) \<noteq> ?k" if "x \<in> set ns" for x
      using imageI [OF that, of "\<lambda>n. the_id (n_id n)"] by (auto simp only: set_map)
    obtain s where s: "?c = ?h @ s" "?c \<notin> set used"
      using free_candidate_spec [of used ?h] by (elim exE conjE)
    have "renames meta ?ks (?c # used) (bt_insert ?k ?c old) (remap_of meta ns (?c # used) (bt_insert ?k ?c old))"
      by (rule 2(3) [OF m refl refl]) (use 2(4,5) other in \<open>simp_all add: bt_get_insert\<close>)
    then have "renames meta (?k # ?ks) used old (remap_of meta ns (?c # used) (bt_insert ?k ?c old))"
      by (rule renames_take [where m = m and s = "short_hash (im_decl m) @ s"])
        (use True 2(4) s m(1) in simp_all)
    moreover have "remap_of meta (n # ns) used old = remap_of meta ns (?c # used) (bt_insert ?k ?c old)"
      using m by (simp only: remap_of.simps option.case if_False Let_def)
    ultimately show ?thesis by (simp only: list.map)
  next
    case False
    then have r: "remap_of meta (n # ns) used old = remap_of meta ns used old"
      by (auto simp: renamed_def not_le split: option.split)
    have d: "distinct ?ks" "\<forall>n \<in> set ns. bt_get old (the_id (n_id n)) = None" using 2(4,5) by simp_all
    have "renames meta ?ks used old (remap_of meta ns used old)"
    proof (cases "bt_get meta ?k")
      case None
      then show ?thesis by (rule 2(1) [OF _ d])
    next
      case (Some m)
      then have "base_count meta (im_base m) \<le> 1" using False by (simp add: renamed_def not_less)
      then show ?thesis by (rule 2(2) [OF Some _ d])
    qed
    then show ?thesis
      unfolding r list.map using False 2(4,5) by (intro renames_skip) simp_all
  qed
qed (simp add: renames_def)


section \<open>Ids\<close>

definition clean :: "string \<Rightarrow> bool" where
  "clean s \<longleftrightarrow> CHR ''#'' \<notin> set s \<and> CHR ''~'' \<notin> set s"

lemma clean_append [simp]: "clean (s @ t) \<longleftrightarrow> clean s \<and> clean t"
  by (auto simp: clean_def)

definition tame :: "string \<Rightarrow> string \<Rightarrow> bool" where
  "tame path b \<longleftrightarrow> (\<exists>kind q. clean q \<and> b = id_base (kind_prefix kind) path q)"

lemma id_base_inj:
  assumes "id_base (kind_prefix k) path q @ s = id_base (kind_prefix k') path q' @ s'"
  shows "kind_prefix k = kind_prefix k' \<and> q @ s = q' @ s'"
  using assms by (auto simp: id_base_def kind_prefix_def split: if_splits)

lemma take_clean:
  "CHR ''~'' \<notin> set q \<Longrightarrow> t = [] \<or> hd t = CHR ''~'' \<Longrightarrow> takeWhile (\<lambda>c. c \<noteq> CHR ''~'') (q @ t) = q"
  by (cases t) (auto simp: takeWhile_append)

lemma provisional_tail:
  "\<exists>t. provisional b k = b @ t \<and> (t = [] \<or> hd t = CHR ''~'') \<and> (t = [] \<longleftrightarrow> (word_of_nat k :: u32) = 0)
     \<and> (t \<noteq> [] \<longrightarrow> tl t = show_nat (unat (word_of_nat k :: u32)))"
  by (simp add: provisional_def Let_def)

lemma provisional_inj:
  assumes "tame path b" "tame path b'" "k < 2 ^ 32" "k' < 2 ^ 32" "provisional b k = provisional b' k'"
  shows "b = b' \<and> k = k'"
proof -
  obtain t where t: "provisional b k = b @ t" "t = [] \<or> hd t = CHR ''~''" "t = [] \<longleftrightarrow> (word_of_nat k :: u32) = 0"
      "t \<noteq> [] \<longrightarrow> tl t = show_nat (unat (word_of_nat k :: u32))"
    using provisional_tail [of b k] by blast
  obtain t' where t': "provisional b' k' = b' @ t'" "t' = [] \<or> hd t' = CHR ''~''" "t' = [] \<longleftrightarrow> (word_of_nat k' :: u32) = 0"
      "t' \<noteq> [] \<longrightarrow> tl t' = show_nat (unat (word_of_nat k' :: u32))"
    using provisional_tail [of b' k'] by blast
  obtain p q p' q' where b: "b = id_base (kind_prefix p) path q" "clean q"
    and b': "b' = id_base (kind_prefix p') path q'" "clean q'"
    using assms(1,2) by (auto simp: tame_def)
  have "id_base (kind_prefix p) path q @ t = id_base (kind_prefix p') path q' @ t'"
    using assms(5) unfolding t(1) t'(1) unfolding b(1) b'(1) .
  from id_base_inj [OF this] have eq: "kind_prefix p = kind_prefix p'" "q @ t = q' @ t'" by blast+
  have "q = q'"
    using arg_cong [OF eq(2), of "takeWhile (\<lambda>c. c \<noteq> CHR ''~'')"] take_clean t(2) t'(2) b(2) b'(2)
    by (simp add: clean_def)
  with eq have "b = b'" "t = t'" by (simp_all add: b b')
  moreover have "(word_of_nat k :: u32) = word_of_nat k'"
    using t(3,4) t'(3,4) \<open>t = t'\<close> show_nat_inj by (metis unsigned_word_eqI)
  then have "k = k'" using assms(3,4) by (simp add: word_of_nat_eq_iff take_bit_nat_eq_self)
  ultimately show ?thesis by simp
qed

lemma minted_nth:
  "i < length bs \<Longrightarrow> minted (rev bs) ! i = provisional (bs ! i) (count_list (take i bs) (bs ! i))"
proof (induction bs rule: rev_induct)
  case (snoc b bs)
  have "length (minted (rev bs)) = length bs" by (induction bs rule: rev_induct) auto
  then show ?case using snoc by (auto simp: nth_append count_list_rev less_Suc_eq)
qed simp

lemma count_take_less: "i < length bs \<Longrightarrow> count_list (take i bs) (bs ! i) < count_list bs (bs ! i)"
  by (metis count_list_append append_take_drop_id count_list.simps(2) Cons_nth_drop_Suc less_add_same_cancel1
      zero_less_Suc Suc_eq_plus1)

lemma count_take_mono: "i \<le> j \<Longrightarrow> count_list (take i bs) b \<le> count_list (take j bs) b"
  by (metis count_list_append le_add1 le_Suc_ex take_add)

lemma minted_distinct:
  assumes "\<forall>b \<in> set bs. tame path b" "length bs \<le> 2 ^ 32"
  shows "distinct (minted (rev bs))"
  unfolding distinct_conv_nth
proof (intro allI impI notI)
  have ne: False if "i < j" "j < length bs" "minted (rev bs) ! i = minted (rev bs) ! j" for i j
  proof -
    have less: "count_list (take n bs) (bs ! n) < 2 ^ 32" if "n < length bs" for n
      using count_take_less [OF that] count_le_length [of bs "bs ! n"] assms(2) by linarith
    have "tame path (bs ! i)" "tame path (bs ! j)" using assms(1) that by simp_all
    moreover have "provisional (bs ! i) (count_list (take i bs) (bs ! i)) =
        provisional (bs ! j) (count_list (take j bs) (bs ! j))" using that by (simp add: minted_nth)
    ultimately have "bs ! i = bs ! j \<and> count_list (take i bs) (bs ! i) = count_list (take j bs) (bs ! j)"
      using that by (intro provisional_inj less) simp_all
    then have "count_list (take i bs) (bs ! i) = count_list (take j bs) (bs ! i)" by auto
    moreover have "count_list (take i bs) (bs ! i) < count_list (take (Suc i) bs) (bs ! i)"
      using that by (simp add: take_Suc_conv_app_nth)
    moreover have "count_list (take (Suc i) bs) (bs ! i) \<le> count_list (take j bs) (bs ! i)"
      using that(1) by (intro count_take_mono) simp
    ultimately show False by linarith
  qed
  fix i j assume "i < length (minted (rev bs))" "j < length (minted (rev bs))" "i \<noteq> j"
    "minted (rev bs) ! i = minted (rev bs) ! j"
  then show False using ne [of i j] ne [of j i] by (cases "i < j") auto
qed

lemma mset_bt_collect:
  assumes "distinct (map fst kvs)"
  shows "mset (bt_collect kvs) = mset kvs"
proof -
  have "kv \<in> set (bt_collect kvs) \<longleftrightarrow> kv \<in> set kvs" for kv
    using map_of_eq_Some_iff [of "rev kvs" "fst kv" "snd kv"] assms
      bt_in_set_iff [OF bt_ok_collect, of "fst kv" "snd kv" kvs]
    by (simp add: bt_get_collect rev_map [symmetric])
  then have "set (bt_collect kvs) = set kvs" by blast
  moreover have "distinct (bt_collect kvs)" using bt_ok_distinct [OF bt_ok_collect] distinct_map by blast
  ultimately show ?thesis using assms distinct_map set_eq_iff_mset_eq_distinct by blast
qed

lemma base_count_collect:
  assumes "distinct ks" "length ks = length ms"
  shows "base_count (bt_collect (zip ks ms)) b = count_list (map im_base ms) b"
proof -
  have "mset (map snd (bt_collect (zip ks ms))) = mset ms"
    using mset_bt_collect [of "zip ks ms"] assms by (metis map_fst_zip map_snd_zip mset_map)
  then have "mset (filter (\<lambda>m. im_base m = b) (bt_values (bt_collect (zip ks ms)))) = mset (filter (\<lambda>m. im_base m = b) ms)"
    by (simp only: mset_filter bt_values_def)
  then have "base_count (bt_collect (zip ks ms)) b = length (filter (\<lambda>m. im_base m = b) ms)"
    unfolding base_count_def by (rule mset_eq_length)
  moreover have "length (filter (\<lambda>m. im_base m = b) ms) = count_list (map im_base ms) b" by (induction ms) auto
  ultimately show ?thesis by simp
qed


section \<open>What is left of the ids\<close>

lemma minted_in: "x \<in> set (minted bs) \<Longrightarrow> \<exists>b \<in> set bs. \<exists>k. x = provisional b k"
  by (induction bs rule: minted.induct) auto

lemma provisional_prefix: "\<exists>t. provisional b k = b @ t"
  by (simp add: provisional_def Let_def)

lemma file_not_minted:
  assumes "minting nm bs d"
  shows "''file:'' @ p \<notin> set (ids_of (dr_nodes d))"
proof
  assume "''file:'' @ p \<in> set (ids_of (dr_nodes d))"
  then have "''file:'' @ p \<in> set (minted (rev bs))"
    using assms by (simp add: minting_parts_def)
  then obtain b k where b: "b \<in> set bs" "''file:'' @ p = provisional b k"
    by (auto dest!: minted_in)
  moreover obtain t where "provisional b k = b @ t" using provisional_prefix [of b k] by blast
  moreover have "based nm (dr_path d) b" using assms b(1) by (simp add: minting_parts_def)
  ultimately obtain kind q where "''file:'' @ p = id_base (kind_prefix kind) (dr_path d) q @ t"
    by (auto simp: based_def)
  then show False by (auto simp: id_base_def kind_prefix_def split: if_splits)
qed

lemma remap_of_untouched:
  "bt_get meta k = None \<Longrightarrow> bt_get (remap_of meta ns used old) k = bt_get old k"
  by (induction meta ns used old rule: remap_of.induct) (auto simp: Let_def bt_get_insert split: option.split)

abbreviation renaming :: "'v driver \<Rightarrow> (string, string) btree" where
  "renaming d \<equiv> remap_of (dr_id_meta d) (dr_nodes d) [] bt_empty"

lemma meta_of:
  assumes "minting nm bs d"
  obtains ms where "map im_base ms = bs"
    and "dr_id_meta d = bt_collect (zip (ids_of (dr_nodes d)) ms)" "length ms = length (ids_of (dr_nodes d))"
proof -
  from assms obtain ms where ms: "map im_base ms = bs" "ids_of (dr_nodes d) = minted (rev bs)"
    "dr_id_meta d = bt_collect (zip (ids_of (dr_nodes d)) ms)" by (auto simp: minting_parts_def)
  moreover have "length ms = length (ids_of (dr_nodes d))"
    using arg_cong [OF ms(1), of length] by (simp add: ms(2))
  ultimately show thesis by (intro that)
qed

lemma file_kept:
  assumes "minting nm bs d"
  shows "remap_id (renaming d) (NodeId (''file:'' @ p)) = NodeId (''file:'' @ p)"
proof -
  obtain ms where "dr_id_meta d = bt_collect (zip (ids_of (dr_nodes d)) ms)" using meta_of [OF assms] by blast
  then have "bt_get (dr_id_meta d) (''file:'' @ p) = None"
    using file_not_minted [OF assms, of p] set_zip_leftD by (fastforce simp: bt_get_collect map_of_eq_None_iff)
  then show ?thesis by (simp add: remap_id_def remap_of_untouched)
qed

lemma minted_bases_tame:
  assumes "minting clean bs d" "b \<in> set bs"
  shows "tame (dr_path d) b"
proof -
  obtain kind name owner where b: "clean name" "pred_option clean owner"
      "b = id_base (kind_prefix kind) (dr_path d) (qualify name owner)"
    using assms unfolding minting_parts_def based_def by blast
  then have "clean (qualify name owner)"
    by (auto simp: qualify_def split: option.split) (simp_all add: clean_def)
  then show ?thesis unfolding b(3) tame_def by blast
qed

lemma count_one_unique:
  assumes "i < length bs" "j < length bs" "bs ! i = bs ! j" "count_list bs (bs ! i) = 1"
  shows "i = j"
proof -
  have no: False if "i < j" "j < length bs" "bs ! i = bs ! j" "count_list bs (bs ! j) = 1" for i j
  proof -
    have "count_list (take (Suc i) bs) (bs ! i) \<le> count_list (take j bs) (bs ! i)"
      using that(1) by (intro count_take_mono) simp
    moreover have "0 < count_list (take (Suc i) bs) (bs ! i)" using that(1,2) by (simp add: take_Suc_conv_app_nth)
    ultimately show False using count_take_less [OF that(2)] that(3,4) by simp
  qed
  then show ?thesis using assms no [of i j] no [of j i] by (metis linorder_neqE_nat)
qed

lemma final_ids:
  assumes mint: "minting clean bs d" and "n_id (hd (dr_nodes d)) = NodeId (''file:'' @ p)"
    and "length (dr_nodes d) \<le> 2 ^ 32"
  defines "final \<equiv> \<lambda>i. remap_id (renaming d) (NodeId (ids_of (dr_nodes d) ! i))"
  shows "i < length bs \<Longrightarrow> count_list bs (bs ! i) = 1 \<Longrightarrow> final i = NodeId (bs ! i)"
    and "i < length bs \<Longrightarrow> count_list bs (bs ! i) \<noteq> 1 \<Longrightarrow> \<exists>s. final i = NodeId (bs ! i @ ''#'' @ s)"
    and "i < length bs \<Longrightarrow> j < length bs \<Longrightarrow> final i = final j \<Longrightarrow> i = j"
proof -
  let ?ids = "ids_of (dr_nodes d)"
  have ids: "?ids = minted (rev bs)" using mint by (simp add: minting_parts_def)
  then have len: "length ?ids = length bs" by simp
  have len_nodes: "length bs \<le> 2 ^ 32" using assms(3) by (simp add: len [symmetric] ids_of_def)
  have tame: "\<forall>b \<in> set bs. tame (dr_path d) b" using minted_bases_tame [OF mint] by simp
  have dist: "distinct ?ids"
    unfolding ids by (intro minted_distinct [OF tame] len_nodes)
  obtain ms where ms: "map im_base ms = bs" "dr_id_meta d = bt_collect (zip ?ids ms)" "length ms = length ?ids"
    using meta_of [OF mint] by blast
  have get: "bt_get (dr_id_meta d) (?ids ! i) = Some (ms ! i)" if "i < length bs" for i
  proof -
    have "(?ids ! i, ms ! i) \<in> set (zip ?ids ms)" using that len ms(3) by (force simp: in_set_zip)
    moreover have "distinct (map fst (rev (zip ?ids ms)))" using dist ms(3) by (simp add: rev_map [symmetric])
    ultimately show ?thesis using map_of_eq_Some_iff [of "rev (zip ?ids ms)"] by (simp add: ms(2) bt_get_collect)
  qed
  have ne: "dr_nodes d \<noteq> []" using mint by (simp add: minting_parts_def)
  have all: "map (\<lambda>n. the_id (n_id n)) (dr_nodes d) = (''file:'' @ p) # ?ids"
    using assms(2) ne by (cases "dr_nodes d") (simp_all add: ids_of_def)
  have "distinct (map (\<lambda>n. the_id (n_id n)) (dr_nodes d))"
    unfolding all using dist file_not_minted [OF mint] by simp
  then have ren: "renames (dr_id_meta d) ((''file:'' @ p) # ?ids) [] bt_empty (renaming d)"
    using remap_of_renames [of "dr_nodes d" bt_empty "dr_id_meta d" "[]"] by (simp add: all)
  have renamed: "renamed (dr_id_meta d) (?ids ! i) \<longleftrightarrow> 1 < count_list bs (bs ! i)" if "i < length bs" for i
  proof -
    have "im_base (ms ! i) = bs ! i" using arg_cong [OF ms(1), of "\<lambda>l. l ! i"] that len ms(3) by simp
    then show ?thesis
      using get [OF that] base_count_collect [OF dist ms(3) [symmetric]] by (simp add: renamed_def ms(1,2))
  qed
  have in_ids: "?ids ! i \<in> set ((''file:'' @ p) # ?ids)" if "i < length bs" for i using that len by simp
  have single: "final i = NodeId (bs ! i)" if i: "i < length bs" "count_list bs (bs ! i) = 1" for i
  proof -
    have "bt_get (renaming d) (?ids ! i) = None"
      using renamesD(1) [OF ren in_ids [OF i(1)]] renamed [OF i(1)] i(2) by simp
    moreover have "count_list (take i bs) (bs ! i) = 0" using count_take_less [OF i(1)] i(2) by simp
    then have "?ids ! i = bs ! i" using minted_nth [OF i(1)] by (simp add: ids provisional_def)
    ultimately show ?thesis by (simp add: final_def remap_id_def)
  qed
  have hashed: "\<exists>c s. bt_get (renaming d) (?ids ! i) = Some c \<and> final i = NodeId c \<and> c = bs ! i @ ''#'' @ s"
    if i: "i < length bs" "count_list bs (bs ! i) \<noteq> 1" for i
  proof -
    have "1 < count_list bs (bs ! i)" using count_take_less [OF i(1)] i(2) by simp
    then obtain c where c: "bt_get (renaming d) (?ids ! i) = Some c"
      using renamesD(1) [OF ren in_ids [OF i(1)]] renamed [OF i(1)] by auto
    then obtain m s where "bt_get (dr_id_meta d) (?ids ! i) = Some m" "c = im_base m @ ''#'' @ s"
      using renamesD(2) [OF ren in_ids [OF i(1)]] by blast
    moreover have "im_base (ms ! i) = bs ! i" using arg_cong [OF ms(1), of "\<lambda>l. l ! i"] i(1) len ms(3) by simp
    ultimately show ?thesis using get [OF i(1)] c by (auto simp: final_def remap_id_def)
  qed
  show "i < length bs \<Longrightarrow> count_list bs (bs ! i) = 1 \<Longrightarrow> final i = NodeId (bs ! i)" by (rule single)
  show "i < length bs \<Longrightarrow> count_list bs (bs ! i) \<noteq> 1 \<Longrightarrow> \<exists>s. final i = NodeId (bs ! i @ ''#'' @ s)"
    using hashed by blast
  have mixed: False if less: "i < length bs" "j < length bs" "bs ! i = bs ! j @ ''#'' @ s" for i j s
  proof -
    obtain k q k' q' where "clean q" "bs ! i = id_base (kind_prefix k) (dr_path d) q"
      "clean q'" "bs ! j = id_base (kind_prefix k') (dr_path d) q'"
      using tame less(1,2) unfolding tame_def by (metis nth_mem)
    then show False using less(3) id_base_inj [of k "dr_path d" q "[]" k' q' "''#'' @ s"] by (auto simp: clean_def)
  qed
  show "i < length bs \<Longrightarrow> j < length bs \<Longrightarrow> final i = final j \<Longrightarrow> i = j"
  proof -
    assume i: "i < length bs" and j: "j < length bs" and eq: "final i = final j"
    consider "count_list bs (bs ! i) = 1" "count_list bs (bs ! j) = 1"
      | "count_list bs (bs ! i) = 1" "count_list bs (bs ! j) \<noteq> 1"
      | "count_list bs (bs ! i) \<noteq> 1" "count_list bs (bs ! j) = 1"
      | "count_list bs (bs ! i) \<noteq> 1" "count_list bs (bs ! j) \<noteq> 1" by blast
    then show "i = j"
    proof cases
      case 1
      with eq i j single show ?thesis using count_one_unique [of i bs j] by simp
    next
      case 2
      with eq i j single hashed [of j] mixed [of i j] show ?thesis by auto
    next
      case 3
      with eq i j single hashed [of i] mixed [of j i] show ?thesis by auto
    next
      case 4
      obtain c where c: "bt_get (renaming d) (?ids ! i) = Some c" "bt_get (renaming d) (?ids ! j) = Some c"
        using hashed [OF i 4(1)] hashed [OF j 4(2)] eq by auto
      then have "?ids ! i = ?ids ! j"
        by (rule renamesD(3) [OF ren in_ids [OF i] in_ids [OF j]])
      then show ?thesis using dist i j len by (simp add: nth_eq_iff_index_eq)
    qed
  qed
qed

section \<open>What is wired is wired after the renaming\<close>

definition retarget :: "(string, string) btree \<Rightarrow> edge_target \<Rightarrow> edge_target" where
  "retarget r t = (case t of Node i \<Rightarrow> Node (remap_id r i) | Symbol s \<Rightarrow> Symbol s)"

lemma remap_edge_fields:
  "e_source (remap_edge r e) = remap_id r (e_source e)" "e_relation (remap_edge r e) = e_relation e"
  "e_target (remap_edge r e) = retarget r (e_target e)"
  by (simp_all add: remap_edge_def retarget_def)

lemma wired_remap:
  assumes "wired_parts f nodes edges" "remap_id r f = f"
  shows "wired_parts f (map (\<lambda>n. n\<lparr>n_id := remap_id r (n_id n)\<rparr>) nodes) (map (remap_edge r) edges)"
proof -
  have "map e_target (filter (\<lambda>e. owning (e_relation e)) (map (remap_edge r) edges))
      = map (retarget r) (map e_target (filter (\<lambda>e. owning (e_relation e)) edges))"
    by (simp add: filter_map comp_def remap_edge_fields)
  also have "\<dots> = map (retarget r) (map (\<lambda>n. Node (n_id n)) (tl nodes))" using assms(1) by (simp add: wired_parts_def)
  finally have "map e_target (filter (\<lambda>e. owning (e_relation e)) (map (remap_edge r) edges))
      = map (\<lambda>n. Node (remap_id r (n_id n))) (tl nodes)" by (simp add: retarget_def)
  moreover have "well_aimed e \<Longrightarrow> well_aimed (remap_edge r e)" for e
    by (simp add: well_aimed_def remap_edge_fields retarget_def split: edge_target.splits)
  moreover have "n_id ` set (map (\<lambda>n. n\<lparr>n_id := remap_id r (n_id n)\<rparr>) nodes) = remap_id r ` n_id ` set nodes"
    by (simp add: image_image)
  moreover have "map (\<lambda>n. Node (n_id n)) (tl (map (\<lambda>n. n\<lparr>n_id := remap_id r (n_id n)\<rparr>) nodes))
      = map (\<lambda>n. Node (remap_id r (n_id n))) (tl nodes)" by (simp add: map_tl [symmetric])
  ultimately show ?thesis
    using assms by (simp add: wired_parts_def remap_edge_fields hd_map)
qed

section \<open>What every sequence of steps ends with\<close>

lemma steps_end:
  assumes "dr_steps rl nm (driver_new a src l) d" "x = driver_finish d"
  obtains bs where "wired d" "minting_from rl nm bs d" "dr_file_id d = NodeId (''file:'' @ a_path a)"
    "dr_path d = a_path a"
    "x_nodes x = map (\<lambda>n. n\<lparr>n_id := remap_id (renaming d) (n_id n)\<rparr>) (dr_nodes d)"
    "x_edges x = map (remap_edge (renaming d)) (dr_edges d)"
proof -
  have "dr_file_id (driver_new a src l :: 'a driver) = NodeId (''file:'' @ a_path a)"
    "dr_path (driver_new a src l :: 'a driver) = a_path a"
    by (simp_all add: driver_new_def Let_def)
  moreover obtain bs where "minting_from rl nm bs d"
    using minting_steps [OF assms(1) new_driver_ok(2)] by blast
  ultimately show thesis
    using steps_same [OF assms(1)] wired_steps [OF assms(1) new_driver_ok(1)]
    by (intro that [of bs]) (simp_all add: assms(2) driver_finish_def finalize_map)
qed

lemma wired_end:
  assumes "dr_steps rl nm (driver_new a src l) d"
  shows "wired_parts (NodeId (''file:'' @ a_path a)) (x_nodes (driver_finish d)) (x_edges (driver_finish d))"
proof (rule steps_end [OF assms refl])
  fix bs
  assume d: "wired d" "minting_from rl nm bs d" "dr_file_id d = NodeId (''file:'' @ a_path a)"
    and x: "x_nodes (driver_finish d) = map (\<lambda>n. n\<lparr>n_id := remap_id (renaming d) (n_id n)\<rparr>) (dr_nodes d)"
      "x_edges (driver_finish d) = map (remap_edge (renaming d)) (dr_edges d)"
  show ?thesis using wired_remap [OF d(1)] file_kept [OF minting_fromD(1) [OF d(2)]] by (simp add: d(3) x)
qed

lemma distinct_end:
  assumes mint: "minting clean bs d" and hd: "n_id (hd (dr_nodes d)) = NodeId (''file:'' @ p)"
    and "length (dr_nodes d) \<le> 2 ^ 32"
  shows "distinct (map (\<lambda>n. remap_id (renaming d) (n_id n)) (dr_nodes d))"
proof -
  note fin = final_ids [OF assms]
  have ne: "dr_nodes d \<noteq> []" using mint by (simp add: minting_parts_def)
  have ids: "ids_of (dr_nodes d) = minted (rev bs)" using mint by (simp add: minting_parts_def)
  have len: "length (tl (dr_nodes d)) = length bs" using arg_cong [OF ids, of length] by (simp add: ids_of_def)
  have nth: "remap_id (renaming d) (n_id (tl (dr_nodes d) ! i)) =
      remap_id (renaming d) (NodeId (ids_of (dr_nodes d) ! i))" if "i < length bs" for i
    using that len by (simp add: ids_of_def)
  have "distinct (map (\<lambda>n. remap_id (renaming d) (n_id n)) (tl (dr_nodes d)))"
    unfolding distinct_conv_nth using nth fin(3) len by (metis length_map nth_map)
  moreover have "NodeId (''file:'' @ p) \<notin> set (map (\<lambda>n. remap_id (renaming d) (n_id n)) (tl (dr_nodes d)))"
  proof
    assume "NodeId (''file:'' @ p) \<in> set (map (\<lambda>n. remap_id (renaming d) (n_id n)) (tl (dr_nodes d)))"
    then obtain n where n: "n \<in> set (tl (dr_nodes d))" "remap_id (renaming d) (n_id n) = NodeId (''file:'' @ p)"
      by auto
    from n(1) obtain i where i: "i < length bs" "tl (dr_nodes d) ! i = n" using len by (metis in_set_conv_nth)
    with n(2) have at_file: "remap_id (renaming d) (NodeId (ids_of (dr_nodes d) ! i)) = NodeId (''file:'' @ p)"
      using nth [OF i(1)] by simp
    have "\<exists>s. remap_id (renaming d) (NodeId (ids_of (dr_nodes d) ! i)) = NodeId (bs ! i @ s)"
      using fin(1,2) [OF i(1)] by (cases "count_list bs (bs ! i) = 1") auto
    then obtain s where "NodeId (''file:'' @ p) = NodeId (bs ! i @ s)" using at_file by auto
    moreover have "based clean (dr_path d) (bs ! i)" using mint i(1) by (simp add: minting_parts_def)
    ultimately show False by (auto simp: based_def id_base_def kind_prefix_def split: if_splits)
  qed
  moreover have "remap_id (renaming d) (n_id (hd (dr_nodes d))) = NodeId (''file:'' @ p)"
    using hd file_kept [OF mint] by simp
  ultimately show ?thesis using ne by (cases "dr_nodes d") simp_all
qed

lemma distinct_ids_end:
  assumes "dr_steps rl clean (driver_new a src l) d" "length (x_nodes (driver_finish d)) \<le> 2 ^ 32"
  shows "distinct (map n_id (x_nodes (driver_finish d)))"
proof (rule steps_end [OF assms(1) refl])
  fix bs
  assume d: "wired d" "minting_from rl clean bs d" "dr_file_id d = NodeId (''file:'' @ a_path a)"
    and x: "x_nodes (driver_finish d) = map (\<lambda>n. n\<lparr>n_id := remap_id (renaming d) (n_id n)\<rparr>) (dr_nodes d)"
  have "n_id (hd (dr_nodes d)) = NodeId (''file:'' @ a_path a)" using d(1,3) by (simp add: wired_parts_def)
  from distinct_end [OF minting_fromD(1) [OF d(2)] this] assms(2) show ?thesis by (simp add: x comp_def)
qed

end
