(* ===== verification/Extract_Props.thy ===== *)
theory Extract_Props
  imports Extract_Steps Driver_Props
begin

text \<open>
  What every extraction of a Rust file satisfies: its edges are wired to its nodes, each definition is owned
  once, ids are distinct and stable, scopes are left as they were found.
\<close>

section \<open>Every extraction\<close>

lemma extraction_end:
  assumes "rust_extract env a src = Inr x" "rx_parse env src = Some tree" "names_ok nm src tree"
  obtains d :: "var_type driver" and bs where "wired d" "minting_from False nm bs d"
    "dr_file_id d = NodeId (''file:'' @ a_path a)" "dr_path d = a_path a"
    "x_nodes x = map (\<lambda>n. n\<lparr>n_id := remap_id (renaming d) (n_id n)\<rparr>) (dr_nodes d)"
proof -
  obtain d :: "var_type driver" where d: "dr_steps False nm (driver_new a src ''rust'') d" "x = driver_finish d"
    using rust_extract_steps [OF assms] by blast
  show thesis by (rule steps_end [OF d], rule that)
qed

text \<open>C9. In what the Rust extractor returns for any parse tree, the first node is the file's, every edge starts
  at a node, only \<open>contains\<close> and \<open>has_variant\<close> edges point at nodes, and these are one per definition, in the
  order of the definitions.\<close>

theorem extraction_wired:
  assumes "rust_extract env a src = Inr x"
  shows "wired_parts (NodeId (''file:'' @ a_path a)) (x_nodes x) (x_edges x)"
proof -
  obtain tree where tree: "rx_parse env src = Some tree" using assms by (auto simp: rust_extract_def split: option.splits)
  have "pred_option (\<lambda>_. True) y" for y :: "string option" by (cases y) simp_all
  then have "names_ok (\<lambda>_. True) src tree" by (simp add: names_ok_def)
  then obtain d :: "var_type driver" where "dr_steps False (\<lambda>_. True) (driver_new a src ''rust'') d" "x = driver_finish d"
    using rust_extract_steps [OF assms tree] by blast
  then show ?thesis using wired_end by blast
qed

lemma bases_remap: "bases_of p (map (\<lambda>n. n\<lparr>n_id := f n\<rparr>) nodes) = bases_of p nodes"
  by (cases nodes) (simp_all add: bases_of_def node_base_def)

lemma extraction_ids:
  assumes "rust_extract env a src = Inr x" "rx_parse env src = Some tree" "names_ok clean src tree"
    and "length (x_nodes x) \<le> 2 ^ 32"
  defines "bs \<equiv> bases_of (a_path a) (x_nodes x)"
  shows "distinct (map n_id (x_nodes x))"
    and "n \<in> set (tl (x_nodes x)) \<Longrightarrow> count_list bs (node_base (a_path a) n) = 1 \<Longrightarrow> n_id n = NodeId (node_base (a_path a) n)"
    and "n \<in> set (tl (x_nodes x)) \<Longrightarrow> count_list bs (node_base (a_path a) n) \<noteq> 1 \<Longrightarrow>
      \<exists>s. n_id n = NodeId (node_base (a_path a) n @ ''#'' @ s)"
proof -
  obtain d :: "var_type driver" and bs' where
    d: "wired d" "minting_from False clean bs' d" "dr_file_id d = NodeId (''file:'' @ a_path a)" "dr_path d = a_path a"
      "x_nodes x = map (\<lambda>n. n\<lparr>n_id := remap_id (renaming d) (n_id n)\<rparr>) (dr_nodes d)"
    by (rule extraction_end [OF assms(1-3)])
  have bs: "bs = bases_of (dr_path d) (dr_nodes d)" by (simp add: bs_def d(4,5) bases_remap)
  have "bs = bs'" using minting_fromD(2) [OF d(2)] bs by simp
  with minting_fromD(1) [OF d(2)] have mint: "minting clean bs d" by simp
  have hd: "n_id (hd (dr_nodes d)) = NodeId (''file:'' @ a_path a)" "dr_nodes d \<noteq> []"
    using d(1,3) by (simp_all add: wired_parts_def)
  have small: "length (dr_nodes d) \<le> 2 ^ 32" using assms(4) by (simp add: d(5))
  note fin = final_ids [OF mint hd(1) small]
  have len: "length (tl (x_nodes x)) = length bs" by (simp add: bs bases_of_def d(5))
  have nth: "n_id (tl (x_nodes x) ! i) = remap_id (renaming d) (NodeId (ids_of (dr_nodes d) ! i))
      \<and> node_base (a_path a) (tl (x_nodes x) ! i) = bs ! i" if "i < length bs" for i
    using that hd(2) by (cases "dr_nodes d") (simp_all add: d(4,5) ids_of_def bs bases_of_def node_base_def)
  have single: "n_id n = NodeId (node_base (a_path a) n)"
    if "n \<in> set (tl (x_nodes x))" "count_list bs (node_base (a_path a) n) = 1" for n
    using that nth fin(1) len by (metis in_set_conv_nth)
  have hashed: "\<exists>s. n_id n = NodeId (node_base (a_path a) n @ ''#'' @ s)"
    if "n \<in> set (tl (x_nodes x))" "count_list bs (node_base (a_path a) n) \<noteq> 1" for n
    using that nth fin(2) len by (metis in_set_conv_nth)
  show "n \<in> set (tl (x_nodes x)) \<Longrightarrow> count_list bs (node_base (a_path a) n) = 1 \<Longrightarrow> n_id n = NodeId (node_base (a_path a) n)"
    by (rule single)
  show "n \<in> set (tl (x_nodes x)) \<Longrightarrow> count_list bs (node_base (a_path a) n) \<noteq> 1 \<Longrightarrow>
      \<exists>s. n_id n = NodeId (node_base (a_path a) n @ ''#'' @ s)" by (rule hashed)
  show "distinct (map n_id (x_nodes x))"
    using distinct_end [OF mint hd(1) small] by (simp add: d(5) comp_def)
qed

text \<open>C10. If the names that a file declares contain neither \<open>#\<close> nor \<open>~\<close>, and there are at most \<open>2 ^ 32\<close> nodes,
  the ids of an extraction are distinct.\<close>

theorem extracted_ids_distinct:
  assumes "rust_extract env a src = Inr x" "rx_parse env src = Some tree" "names_ok clean src tree"
    and "length (x_nodes x) \<le> 2 ^ 32"
  shows "distinct (map n_id (x_nodes x))"
  by (rule extraction_ids(1) [OF assms])

text \<open>C11. Ids are stable under edits: the id of a definition whose kind, path, owner and name no other definition of
  its file shares is made of these only; only the others carry a hash.\<close>

theorem extracted_ids_stable:
  assumes "rust_extract env a src = Inr x" "rx_parse env src = Some tree" "names_ok clean src tree"
    and "length (x_nodes x) \<le> 2 ^ 32" "n \<in> set (tl (x_nodes x))"
  shows "if count_list (bases_of (a_path a) (x_nodes x)) (node_base (a_path a) n) = 1
    then n_id n = NodeId (node_base (a_path a) n)
    else \<exists>s. n_id n = NodeId (node_base (a_path a) n @ ''#'' @ s)"
  using extraction_ids(2,3) [OF assms] by simp

text \<open>Scopes nest: whatever the walk meets, it leaves the type parameters in force, all scopes of local
  variables but the innermost, and the trait it is in, as it found them.\<close>

theorem walk_nests:
  assumes "ctx_ok (\<lambda>_. True) c" "tps_ok (rc_d c)" "pred_option (\<lambda>f. fst f \<in> known (rc_d c)) cur"
  shows "dr_tp_stack (rc_d (walk env n cur owner c)) = dr_tp_stack (rc_d c)
    \<and> dr_tps (rc_d (walk env n cur owner c)) = dr_tps (rc_d c)
    \<and> length (dr_scopes (rc_d (walk env n cur owner c))) = length (dr_scopes (rc_d c))
    \<and> tl (dr_scopes (rc_d (walk env n cur owner c))) = tl (dr_scopes (rc_d c))
    \<and> rc_trait (walk env n cur owner c) = rc_trait c"
proof -
  have t: "pred_option (\<lambda>_. True) y" for y :: "string option" by (cases y) simp_all
  then have "names_ok (\<lambda>_. True) (dr_src (rc_d c)) n" by (simp add: names_ok_def)
  from walk_keeps [OF assms(1) this assms(3) t] assms(2) show ?thesis
    by (simp add: keeps_def level_def tps_ok_def)
qed

end
