(* ===== verification/Rust_Examples.thy ===== *)
theory Rust_Examples
  imports Extract_Props
begin

text \<open>
  Small Rust files, laid out as parse trees of the grammar: witnesses for \<open>Extract_Props\<close>, and files on which the
  extractor does not do what its comments say.
\<close>

section \<open>Laying out a file\<close>

text \<open>A sketch is a tree of tokens; laying it out puts one blank before every token and computes the ranges.\<close>

datatype sketch =
    Tok string bool string
  | Tree string "(string option \<times> sketch) list"

fun lay :: "nat \<Rightarrow> sketch \<Rightarrow> ts_node \<times> string"
  and lays :: "nat \<Rightarrow> (string option \<times> sketch) list \<Rightarrow> (string option \<times> ts_node) list \<times> string"
where
  "lay off (Tok kind named t) = (TS kind named (off + 1, off + 1 + length t) (0, 0) [], CHR '' '' # t)"
| "lay off (Tree kind kids) =
     (case lays off kids of (ns, t) \<Rightarrow> (TS kind True (off + 1, off + length t) (0, 0) ns, t))"
| "lays off [] = ([], [])"
| "lays off ((f, k) # ks) =
     (case lay off k of (n, t) \<Rightarrow> (case lays (off + length t) ks of (ns, ts) \<Rightarrow> ((f, n) # ns, t @ ts)))"

definition file_of :: "(string option \<times> sketch) list \<Rightarrow> ts_node \<times> string" where
  "file_of items = lay 0 (Tree ''source_file'' items)"

definition ex_art :: artifact where
  "ex_art = \<lparr>a_path = ''a.rs'', a_kind = Code, a_language = Some ''rust''\<rparr>"

definition ex_rx :: "ts_node \<Rightarrow> rust_env" where
  "ex_rx tree = \<lparr>rx_grammar_error = None, rx_parse = (\<lambda>_. Some tree),
     rx_first_upper = (\<lambda>s. case s of [] \<Rightarrow> False | c # _ \<Rightarrow> CHR ''A'' \<le> c \<and> c \<le> CHR ''Z'')\<rparr>"

definition extracted :: "(string option \<times> sketch) list \<Rightarrow> error + extraction" where
  "extracted items = (case file_of items of (tree, src) \<Rightarrow> rust_extract (ex_rx tree) ex_art src)"

abbreviation plain :: "sketch \<Rightarrow> string option \<times> sketch" where
  "plain k \<equiv> (None, k)"

abbreviation punct :: "string \<Rightarrow> string option \<times> sketch" where
  "punct t \<equiv> (None, Tok t False t)"

abbreviation type_id :: "string \<Rightarrow> sketch" where
  "type_id t \<equiv> Tok ''type_identifier'' True t"

abbreviation ident :: "string \<Rightarrow> sketch" where
  "ident t \<equiv> Tok ''identifier'' True t"

text \<open>\<open>struct S ;\<close>, \<open>fn f ( ) -> R { body }\<close>\<close>

definition struct_item :: "string \<Rightarrow> string option \<times> sketch" where
  "struct_item name = plain (Tree ''struct_item'' [punct ''struct'', (Some ''name'', type_id name), punct '';''])"

definition fn_item :: "string \<Rightarrow> (string option \<times> sketch) list \<Rightarrow> (string option \<times> sketch) list \<Rightarrow> string option \<times> sketch" where
  "fn_item name extra body = plain (Tree ''function_item''
     ([punct ''fn'', (Some ''name'', ident name),
       (Some ''parameters'', Tree ''parameters'' [punct ''('', punct '')''])] @ extra
      @ [(Some ''body'', Tree ''block'' ([punct ''{''] @ body @ [punct ''}'']))]))"

definition self_call :: "string \<Rightarrow> string option \<times> sketch" where
  "self_call name = plain (Tree ''call_expression''
     [(Some ''function'', Tree ''field_expression''
         [(Some ''value'', Tok ''self'' True ''self''), punct ''.'', (Some ''field'', Tok ''field_identifier'' True name)]),
      (Some ''arguments'', Tree ''arguments'' [punct ''('', punct '')''])])"

definition impl_item :: "string \<Rightarrow> (string option \<times> sketch) list \<Rightarrow> (string option \<times> sketch) list \<Rightarrow> string option \<times> sketch" where
  "impl_item ty extra items = plain (Tree ''impl_item''
     ([punct ''impl''] @ extra @ [(Some ''type'', type_id ty),
       (Some ''body'', Tree ''declaration_list'' ([punct ''{''] @ items @ [punct ''}'']))]))"

text \<open>The ids of an extraction, and its edges as triples.\<close>

definition outline :: "error + extraction \<Rightarrow> (string list \<times> (string \<times> string \<times> string) list) option" where
  "outline r = (case r of Inl _ \<Rightarrow> None | Inr x \<Rightarrow> Some (map (\<lambda>n. the_id (n_id n)) (x_nodes x),
     map (\<lambda>e. (the_id (e_source e), e_relation e,
        case e_target e of Node i \<Rightarrow> the_id i | Symbol t \<Rightarrow> t_name t)) (x_edges x)))"

section \<open>A struct, a method of it and a function\<close>

definition widget_items :: "(string option \<times> sketch) list" where
  "widget_items = [struct_item ''W'', impl_item ''W'' [] [fn_item ''go'' [] [self_call ''stop'']], fn_item ''go'' [] []]"

definition widget_tree :: ts_node where
  "widget_tree = fst (file_of widget_items)"

definition widget_src :: string where
  "widget_src = snd (file_of widget_items)"

definition widget_x :: extraction where
  "widget_x = (case rust_extract (ex_rx widget_tree) ex_art widget_src of
      Inr x \<Rightarrow> x | Inl _ \<Rightarrow> \<lparr>x_nodes = [], x_edges = [], x_exports = []\<rparr>)"

lemma widget_outline:
  "outline (extracted widget_items) = Some
    ([''file:a.rs'', ''type:a.rs:W'', ''fn:a.rs:W::go'', ''fn:a.rs:go''],
     [(''file:a.rs'', ''contains'', ''type:a.rs:W''), (''type:a.rs:W'', ''contains'', ''fn:a.rs:W::go''),
      (''fn:a.rs:W::go'', ''calls'', ''stop''), (''file:a.rs'', ''contains'', ''fn:a.rs:go'')])"
  by code_simp

lemma widget_extracted: "rust_extract (ex_rx widget_tree) ex_art widget_src = Inr widget_x"
proof -
  have "extracted widget_items = rust_extract (ex_rx widget_tree) ex_art widget_src"
    by (simp add: extracted_def widget_tree_def widget_src_def split: prod.split)
  with widget_outline show ?thesis by (auto simp: outline_def widget_x_def split: sum.splits)
qed

lemma widget_parse: "rx_parse (ex_rx widget_tree) widget_src = Some widget_tree"
  by (simp add: ex_rx_def)

lemma pred_option_case [code]: "pred_option P y = (case y of None \<Rightarrow> True | Some t \<Rightarrow> P t)"
  by (cases y) simp_all

lemma widget_clean: "names_ok clean widget_src widget_tree"
  by code_simp

lemma widget_small: "length (x_nodes widget_x) \<le> 2 ^ 32"
proof -
  have "length (x_nodes widget_x) = 4" by code_simp
  then show ?thesis by simp
qed

theorem extraction_wired_witness:
  "wired_parts (NodeId ''file:a.rs'') (x_nodes widget_x) (x_edges widget_x)"
  using extraction_wired [OF widget_extracted] by (simp add: ex_art_def)

theorem extracted_ids_distinct_witness: "distinct (map n_id (x_nodes widget_x))"
  by (rule extracted_ids_distinct [OF widget_extracted widget_parse widget_clean widget_small])

theorem extracted_ids_stable_witness: "n_id (x_nodes widget_x ! 2) = NodeId ''fn:a.rs:W::go''"
proof -
  have "x_nodes widget_x ! 2 \<in> set (tl (x_nodes widget_x))" by code_simp
  moreover have "count_list (bases_of (a_path ex_art) (x_nodes widget_x))
      (node_base (a_path ex_art) (x_nodes widget_x ! 2)) = 1" by code_simp
  moreover have "node_base (a_path ex_art) (x_nodes widget_x ! 2) = ''fn:a.rs:W::go''" by code_simp
  ultimately show ?thesis
    using extracted_ids_stable [OF widget_extracted widget_parse widget_clean widget_small] by metis
qed

theorem walk_nests_witness:
  "dr_tp_stack (rc_d (walk (ex_rx widget_tree) widget_tree None None (rust_ctx_new ex_art widget_src))) = []"
proof -
  have "ctx_ok (\<lambda>_. True) (rust_ctx_new ex_art widget_src)"
    by (simp add: ctx_ok_def rust_ctx_new_def driver_new_def known_def node_new_def Let_def)
  moreover have "tps_ok (rc_d (rust_ctx_new ex_art widget_src))" "dr_tp_stack (rc_d (rust_ctx_new ex_art widget_src)) = []"
    by (simp_all add: tps_ok_def rust_ctx_new_def driver_new_def Let_def)
  ultimately show ?thesis
    using walk_nests [of "rust_ctx_new ex_art widget_src" None "ex_rx widget_tree" widget_tree None] by simp
qed

section \<open>Where the extractor falls short\<close>

text \<open>\<open>?Sized\<close> is not a bound: the collector of inline bounds leaves it out, that of where clauses does not, so
  \<open>fn f<T> () where T : ?Sized\<close> gets a bound edge that \<open>fn f<T: ?Sized> ()\<close> does not.\<close>

definition removed_bounds :: "string option \<times> sketch" where
  "removed_bounds = (Some ''bounds'', Tree ''trait_bounds''
     [punct '':'', plain (Tree ''removed_trait_bound'' [punct ''?'', plain (type_id ''Sized'')])])"

definition type_params :: "(string option \<times> sketch) list \<Rightarrow> string option \<times> sketch" where
  "type_params bounds = (Some ''type_parameters'', Tree ''type_parameters''
      [punct ''<'', plain (Tree ''type_parameter'' ((Some ''name'', type_id ''T'') # bounds)), punct ''>''])"

definition where_clause :: "(string option \<times> sketch) list \<Rightarrow> string option \<times> sketch" where
  "where_clause bounds = plain (Tree ''where_clause'' [punct ''where'',
     plain (Tree ''where_predicate'' ((Some ''left'', type_id ''T'') # bounds))])"

lemma where_clause_keeps_removed_bound:
  "outline (extracted [fn_item ''f'' [type_params [removed_bounds]] []]) =
     Some ([''file:a.rs'', ''fn:a.rs:f''], [(''file:a.rs'', ''contains'', ''fn:a.rs:f'')])"
  "outline (extracted [fn_item ''f'' [type_params [], where_clause [removed_bounds]] []]) =
     Some ([''file:a.rs'', ''fn:a.rs:f''],
       [(''file:a.rs'', ''contains'', ''fn:a.rs:f''), (''fn:a.rs:f'', ''type/bound'', ''Sized'')])"
  by code_simp+

text \<open>A trait contains its bodiless methods, but a default method is a free function of the file: it is not
  contained by the trait, its id does not name the trait, and its calls on \<open>self\<close> are opaque.\<close>

definition store_items :: "(string option \<times> sketch) list" where
  "store_items = [plain (Tree ''trait_item'' [punct ''trait'', (Some ''name'', type_id ''Store''),
     (Some ''body'', Tree ''declaration_list'' [punct ''{'',
        plain (Tree ''function_signature_item'' [punct ''fn'', (Some ''name'', ident ''get''),
          (Some ''parameters'', Tree ''parameters'' [punct ''('', punct '')'']), punct '';'']),
        fn_item ''get_or_default'' [] [self_call ''get''], punct ''}''])])]"

lemma default_method_is_free_function:
  "outline (extracted store_items) = Some
    ([''file:a.rs'', ''type:a.rs:Store'', ''fn:a.rs:Store::get'', ''fn:a.rs:get_or_default''],
     [(''file:a.rs'', ''contains'', ''type:a.rs:Store''), (''type:a.rs:Store'', ''contains'', ''fn:a.rs:Store::get''),
      (''file:a.rs'', ''contains'', ''fn:a.rs:get_or_default''), (''fn:a.rs:get_or_default'', ''calls'', ''get'')])"
  by code_simp

lemma default_method_self_call_is_opaque:
  "(case extracted store_items of Inl _ \<Rightarrow> None
    | Inr x \<Rightarrow> Some (List.map_filter (\<lambda>e. case e_target e of Symbol t \<Rightarrow> Some (t_hints t) | Node _ \<Rightarrow> None) (x_edges x)))
   = Some [[(''recv'', ''opaque'')]]"
  by code_simp

text \<open>An implementation's \<open>implements\<close> edge and its methods' owners are resolved after the walk, because the
  type may be declared later; its bounds are looked up during the walk and are lost when the type comes later.\<close>

definition show_param :: "string option \<times> sketch" where
  "show_param = type_params [(Some ''bounds'', Tree ''trait_bounds'' [punct '':'', plain (type_id ''Show'')])]"

lemma impl_before_type_loses_bounds:
  "outline (extracted [struct_item ''W'', impl_item ''W'' [show_param] []]) =
     Some ([''file:a.rs'', ''type:a.rs:W''],
       [(''file:a.rs'', ''contains'', ''type:a.rs:W''), (''type:a.rs:W'', ''type/bound'', ''Show'')])"
  "outline (extracted [impl_item ''W'' [show_param] [], struct_item ''W'']) =
     Some ([''file:a.rs'', ''type:a.rs:W''], [(''file:a.rs'', ''contains'', ''type:a.rs:W'')])"
  by code_simp+

text \<open>A type that the file defines is not noise even if it is named like a library type, but only from its
  definition on.\<close>

definition returns :: "string \<Rightarrow> string option \<times> sketch" where
  "returns ty = fn_item ''f'' [(Some ''return_type'', type_id ty)] []"

lemma local_type_filtered_before_definition:
  "outline (extracted [struct_item ''Instant'', returns ''Instant'']) =
     Some ([''file:a.rs'', ''type:a.rs:Instant'', ''fn:a.rs:f''],
       [(''file:a.rs'', ''contains'', ''type:a.rs:Instant''), (''file:a.rs'', ''contains'', ''fn:a.rs:f''),
        (''fn:a.rs:f'', ''type/return'', ''Instant'')])"
  "outline (extracted [returns ''Instant'', struct_item ''Instant'']) =
     Some ([''file:a.rs'', ''fn:a.rs:f'', ''type:a.rs:Instant''],
       [(''file:a.rs'', ''contains'', ''fn:a.rs:f''), (''file:a.rs'', ''contains'', ''type:a.rs:Instant'')])"
  by code_simp+

text \<open>A function nested in a method is taken for a method of the type.\<close>

lemma nested_function_is_method:
  "outline (extracted [struct_item ''W'', impl_item ''W'' [] [fn_item ''outer'' [] [fn_item ''helper'' [] []]]]) =
     Some ([''file:a.rs'', ''type:a.rs:W'', ''fn:a.rs:W::outer'', ''fn:a.rs:W::helper''],
       [(''file:a.rs'', ''contains'', ''type:a.rs:W''), (''type:a.rs:W'', ''contains'', ''fn:a.rs:W::outer''),
        (''type:a.rs:W'', ''contains'', ''fn:a.rs:W::helper'')])"
  by code_simp

end
