(* ===== verification/Dispatch.thy ===== *)
theory Dispatch
  imports Syntax_Tree
begin

text \<open>
  The choice of an extractor (\<^verbatim>\<open>filigrio-index/src/dispatch.rs\<close>) and the line-based fallback (\<^verbatim>\<open>mock.rs\<close>). Text is
  UTF-8 bytes; whether a character beyond ASCII is alphanumeric is a parameter. The fallback can panic, on a
  slice that begins inside a character, so a run of it returns \<open>None\<close> for a panic.
\<close>

section \<open>Text\<close>

definition REPLACEMENT :: bytes where
  "REPLACEMENT = [CHR 0xEF, CHR 0xBF, CHR 0xBD]"

text \<open>\<^verbatim>\<open>String::from_utf8_lossy\<close>: each longest beginning of a character that is not completed is replaced.\<close>

function lossy :: "bytes \<Rightarrow> string" where
  "lossy [] = []"
| "lossy (c # cs) =
     (if (of_char c :: nat) < 0x80 then c # lossy cs
      else
        (case utf8_lead (of_char c) of
           None \<Rightarrow> REPLACEMENT @ lossy cs
         | Some (lo, hi, n) \<Rightarrow>
             (case cs of
                [] \<Rightarrow> REPLACEMENT
              | d # ds \<Rightarrow>
                  if lo \<le> of_char d \<and> of_char d \<le> hi
                  then
                    (let more = takeWhile is_cont (take n ds)
                     in if length more = n then c # d # more @ lossy (drop n ds)
                        else REPLACEMENT @ lossy (drop (length more) ds))
                  else REPLACEMENT @ lossy cs)))"
  by pat_completeness auto
termination
  by (relation "measure length") auto

text \<open>The characters of a valid text.\<close>

function utf8_chars :: "string \<Rightarrow> string list" where
  "utf8_chars [] = []"
| "utf8_chars (c # cs) = (c # takeWhile is_cont cs) # utf8_chars (dropWhile is_cont cs)"
  by pat_completeness auto
termination
  by (relation "measure length") (auto simp: less_Suc_eq_le length_dropWhile_le)

definition ascii_alnum :: "char \<Rightarrow> bool" where
  "ascii_alnum c \<longleftrightarrow>
     CHR ''0'' \<le> c \<and> c \<le> CHR ''9'' \<or> CHR ''A'' \<le> c \<and> c \<le> CHR ''Z'' \<or> CHR ''a'' \<le> c \<and> c \<le> CHR ''z''"

text \<open>\<^verbatim>\<open>(b as char).is_alphanumeric()\<close> of a byte: the letters and numbers of Latin-1.\<close>

definition byte_alnum :: "char \<Rightarrow> bool" where
  "byte_alnum c \<longleftrightarrow>
     (let n = of_char c :: nat
      in ascii_alnum c \<or> n \<in> set [0xAA, 0xB2, 0xB3, 0xB5, 0xB9, 0xBA, 0xBC, 0xBD, 0xBE]
         \<or> 0xC0 \<le> n \<and> n \<le> 0xD6 \<or> 0xD8 \<le> n \<and> n \<le> 0xF6 \<or> 0xF8 \<le> n)"

definition char_alnum :: "(string \<Rightarrow> bool) \<Rightarrow> string \<Rightarrow> bool" where
  "char_alnum uni ch = (case ch of [c] \<Rightarrow> ascii_alnum c | _ \<Rightarrow> uni ch)"

section \<open>The fallback\<close>

definition def_name :: "(string \<Rightarrow> bool) \<Rightarrow> string \<Rightarrow> string option" where
  "def_name uni line =
     (let l = trim_start line;
          name = (\<lambda>rest. concat (takeWhile (\<lambda>ch. char_alnum uni ch \<or> ch = ''_'') (utf8_chars rest)))
      in map_option (\<lambda>kw. name (drop (length kw) l))
           (find (\<lambda>kw. starts_with l kw \<and> name (drop (length kw) l) \<noteq> [])
             [''fn '', ''def '', ''function '', ''func '']))"

definition call_keywords :: "string list" where
  "call_keywords = [''if'', ''while'', ''for'', ''switch'', ''match'', ''fn'', ''def'']"

text \<open>The bytes before the first parenthesis, back to one that is not alphanumeric as Latin-1. Slicing there
  panics if it is inside a character.\<close>

definition first_call :: "string \<Rightarrow> string option option" where
  "first_call line =
     (case find_char CHR ''('' line of
        None \<Rightarrow> Some None
      | Some paren \<Rightarrow>
          (let name = rev (takeWhile (\<lambda>c. byte_alnum c \<or> c = CHR ''_'') (rev (take paren line)))
           in if name \<noteq> [] \<and> is_cont (hd name) then None
              else if name = [] \<or> (CHR ''0'' \<le> hd name \<and> hd name \<le> CHR ''9'') then Some None
              else if name \<in> set call_keywords then Some None
              else Some (Some name)))"

record mock_run =
  mr_nodes :: "node list"
  mr_edges :: "edge list"
  mr_fn :: "(node_id \<times> string) option"

definition mock_edge :: "node_id \<Rightarrow> string \<Rightarrow> edge_target \<Rightarrow> edge" where
  "mock_edge source relation target =
     \<lparr>e_source = source, e_relation = relation, e_confidence = Extracted, e_target = target\<rparr>"

definition mock_def :: "string \<Rightarrow> nat \<Rightarrow> string \<Rightarrow> mock_run \<Rightarrow> mock_run" where
  "mock_def path lineno name m =
     (let fid = ''fn:'' @ path @ '':'' @ name
      in m\<lparr>mr_nodes := mr_nodes m @ [(node_new fid name ''function'')
               \<lparr>n_file := Some path, n_span := Some (span_line (word_of_nat lineno + 1))\<rparr>],
           mr_edges := mr_edges m @ [mock_edge (NodeId (''file:'' @ path)) CONTAINS (Node (NodeId fid))],
           mr_fn := Some (NodeId fid, name)\<rparr>)"

definition mock_line :: "(string \<Rightarrow> bool) \<Rightarrow> string \<Rightarrow> nat \<times> string \<Rightarrow> mock_run \<Rightarrow> mock_run option" where
  "mock_line uni path l m =
     (case def_name uni (snd l) of
        Some name \<Rightarrow> Some (mock_def path (fst l) name m)
      | None \<Rightarrow>
          (case mr_fn m of
             None \<Rightarrow> map_option (\<lambda>_. m) (first_call (snd l))
           | Some (caller_id, caller_name) \<Rightarrow>
               (case first_call (snd l) of
                  None \<Rightarrow> None
                | Some None \<Rightarrow> Some m
                | Some (Some callee) \<Rightarrow>
                    Some (if callee \<noteq> caller_name
                          then m\<lparr>mr_edges := mr_edges m @
                                 [mock_edge caller_id CALLS (Symbol (target_ref_new callee))]\<rparr>
                          else m))))"

fun mock_lines ::
  "(string \<Rightarrow> bool) \<Rightarrow> string \<Rightarrow> (nat \<times> string) list \<Rightarrow> mock_run \<Rightarrow> mock_run option"
where
  "mock_lines uni path [] m = Some m"
| "mock_lines uni path (l # ls) m = Option.bind (mock_line uni path l m) (mock_lines uni path ls)"

definition mock_start :: "artifact \<Rightarrow> mock_run" where
  "mock_start a =
     \<lparr>mr_nodes = [(node_new (''file:'' @ a_path a) (a_path a) ''file'')
        \<lparr>n_file := Some (a_path a),
         n_attrs := (case a_language a of None \<Rightarrow> bt_empty | Some l \<Rightarrow> bt_insert ''language'' l bt_empty)\<rparr>],
      mr_edges = [], mr_fn = None\<rparr>"

definition mock_extract :: "(string \<Rightarrow> bool) \<Rightarrow> artifact \<Rightarrow> bytes \<Rightarrow> extraction option" where
  "mock_extract uni a b =
     map_option (\<lambda>m. \<lparr>x_nodes = mr_nodes m, x_edges = mr_edges m, x_exports = []\<rparr>)
       (mock_lines uni (a_path a) (enumerate 0 (lines (lossy b))) (mock_start a))"

definition mock_handles :: "artifact \<Rightarrow> bool" where
  "mock_handles a \<longleftrightarrow> a_kind a = Code"

section \<open>Dispatch\<close>

definition dispatch_handles :: "extractor_port list \<Rightarrow> artifact \<Rightarrow> bool" where
  "dispatch_handles es a \<longleftrightarrow> list_ex (\<lambda>e. ext_handles e a) es"

fun dispatch_extract :: "extractor_port list \<Rightarrow> artifact \<Rightarrow> bytes \<Rightarrow> error + extraction" where
  "dispatch_extract [] a b = Inl (Parse (''no extractor for '' @ a_path a))"
| "dispatch_extract (e # es) a b = (if ext_handles e a then ext_extract e a b else dispatch_extract es a b)"

definition dispatch_extractor :: "extractor_port list \<Rightarrow> extractor_port" where
  "dispatch_extractor es = \<lparr>ext_handles = dispatch_handles es, ext_extract = dispatch_extract es\<rparr>"


section \<open>When the fallback panics\<close>

definition is_ascii :: "string \<Rightarrow> bool" where
  "is_ascii s \<longleftrightarrow> (\<forall>c \<in> set s. (of_char c :: nat) < 0x80)"

lemma lossy_ascii: "is_ascii b \<Longrightarrow> lossy b = b"
  by (induction b rule: lossy.induct) (auto simp: is_ascii_def)

lemma first_call_ascii:
  assumes "is_ascii line"
  shows "first_call line \<noteq> None"
proof (cases "find_char CHR ''('' line")
  case (Some paren)
  let ?name = "rev (takeWhile (\<lambda>c. byte_alnum c \<or> c = CHR ''_'') (rev (take paren line)))"
  have "\<not> is_cont (hd ?name)" if "?name \<noteq> []"
  proof -
    have "hd ?name \<in> set ?name" using that by (rule hd_in_set)
    then have "hd ?name \<in> set line" by (auto dest!: set_takeWhileD in_set_takeD)
    then show ?thesis using assms by (auto simp: is_ascii_def is_cont_def)
  qed
  then show ?thesis by (auto simp: first_call_def Some Let_def)
next
  case None
  show ?thesis unfolding first_call_def None by simp
qed

lemma mock_lines_ascii:
  "\<forall>l \<in> set ls. is_ascii (snd l) \<Longrightarrow> mock_lines uni path ls m \<noteq> None"
proof (induction ls arbitrary: m)
  case (Cons l ls)
  have "mock_line uni path l m \<noteq> None"
    using Cons.prems first_call_ascii [of "snd l"]
    by (auto simp: mock_line_def split: option.split)
  with Cons show ?case by auto
qed simp

lemma split_acc_end: "s = [] \<or> sep = [] \<Longrightarrow> split_acc sep acc s = [rev acc @ s]"
  by (subst split_acc.simps) simp

lemma split_acc_within: "p \<in> set (split_acc sep acc s) \<Longrightarrow> set p \<subseteq> set acc \<union> set s"
proof (induction sep acc s rule: split_acc.induct)
  case (1 sep acc s)
  show ?case
  proof (cases "s = [] \<or> sep = []")
    case False
    then obtain h t where s: "s = h # t" by (meson neq_Nil_conv)
    have tl: "set (tl s) \<subseteq> set s" "hd s \<in> set s" unfolding s by auto
    show ?thesis
    proof (cases "starts_with s sep")
      case True
      then have "p = rev acc \<or> p \<in> set (split_acc sep [] (drop (length sep) s))"
        using "1.prems" False unfolding split_acc.simps [of sep acc s] by simp
      then show ?thesis
        using "1.IH"(1) [OF False True] set_drop_subset [of "length sep" s] by auto
    next
      case nope: False
      then have "p \<in> set (split_acc sep (hd s # acc) (tl s))"
        using "1.prems" False unfolding split_acc.simps [of sep acc s] by simp
      from "1.IH"(2) [OF False nope this] tl show ?thesis by auto
    qed
  qed (use "1.prems" in \<open>auto simp: split_acc_end\<close>)
qed

lemma strip_cr_within: "set (strip_cr p) \<subseteq> set p"
  by (auto simp: strip_cr_def strip_suffix_def split: if_splits dest: in_set_takeD)

lemma lines_within: "l \<in> set (lines s) \<Longrightarrow> set l \<subseteq> set s"
proof -
  let ?ps = "split_str [CHR 0x0A] s"
  assume l: "l \<in> set (lines s)"
  have piece: "set p \<subseteq> set s" if "p \<in> set ?ps" for p
    using split_acc_within [of p "[CHR 0x0A]" "[]" s] that by (simp add: split_str_def)
  have "?ps \<noteq> []" by (rule split_str_not_Nil)
  with l consider p where "p \<in> set ?ps" "l = strip_cr p" | "l \<in> set ?ps"
    unfolding lines_def Let_def by (auto split: if_splits dest: in_set_butlastD)
  then show ?thesis using piece strip_cr_within by cases blast+
qed

text \<open>On a file of ASCII bytes the fallback extractor returns.\<close>

theorem mock_returns_on_ascii:
  assumes "is_ascii b"
  shows "mock_extract uni a b \<noteq> None"
proof -
  have "is_ascii (snd l)" if "l \<in> set (enumerate 0 (lines (lossy b)))" for l
  proof -
    have "snd l \<in> set (lines (lossy b))" using that by (metis image_eqI map_snd_enumerate set_map)
    then have "set (snd l) \<subseteq> set b" using lines_within lossy_ascii [OF assms] by fastforce
    then show ?thesis using assms by (auto simp: is_ascii_def)
  qed
  then show ?thesis using mock_lines_ascii by (simp add: mock_extract_def)
qed

theorem mock_returns_on_ascii_witness:
  "mock_extract (\<lambda>_. False) \<lparr>a_path = ''a.go'', a_kind = Code, a_language = None\<rparr> ''func f() {'' \<noteq> None"
  by (rule mock_returns_on_ascii) code_simp

text \<open>A line with a call of a name that ends in a character whose last byte is a letter of Latin-1, such as the
  bytes E4 B8 AA of one Chinese character, is sliced inside that character.\<close>

definition sliced_line :: string where
  "sliced_line = [CHR 0xE4, CHR 0xB8, CHR 0xAA, CHR ''('', CHR '')'']"

lemma mock_panics_inside_character:
  "utf8_ok sliced_line"
  "mock_extract (\<lambda>_. True) \<lparr>a_path = ''a.go'', a_kind = Code, a_language = Some ''go''\<rparr> sliced_line = None"
  by code_simp+

text \<open>Two definitions of one name in a file are two nodes with one id.\<close>

lemma mock_repeats_ids:
  "map_option (\<lambda>x. map (\<lambda>n. the_id (n_id n)) (x_nodes x))
     (mock_extract (\<lambda>_. False) \<lparr>a_path = ''a.go'', a_kind = Code, a_language = Some ''go''\<rparr>
        (''func f() {}'' @ [CHR 0x0A] @ ''func f(int) {}''))
   = Some [''file:a.go'', ''fn:a.go:f'', ''fn:a.go:f'']"
  by code_simp

end
