(* ===== verification/Python_Extract.thy ===== *)
theory Python_Extract
  imports Driver Dispatch
begin

text \<open>
  The Python extractor (\<^verbatim>\<open>filigrio-index/src/python.rs\<close>) over a parse tree. Kinds and fields are those of the
  third-party grammar, as the code names them. It can panic, on a slice whose end is before its beginning, so
  what can panic returns \<open>None\<close> for a panic. Parameters are the parser, what Unicode says of characters beyond
  ASCII, and the order in which a \<^verbatim>\<open>HashSet\<close> is traversed.
\<close>

record py_env =
  px_grammar_error :: "string option"
  px_parse :: "bytes \<Rightarrow> ts_node option"
  px_first_upper :: "string \<Rightarrow> bool"
  px_alnum :: "string \<Rightarrow> bool"
  px_order :: "(string \<times> string) list \<Rightarrow> (string \<times> string) list"

record py_ctx =
  pc_d :: "string driver"
  pc_class :: "string option"
  pc_bounds :: "(string \<times> string) list"

definition py_ctx_new :: "artifact \<Rightarrow> bytes \<Rightarrow> py_ctx" where
  "py_ctx_new a src = \<lparr>pc_d = driver_new a src ''python'', pc_class = None, pc_bounds = []\<rparr>"

abbreviation on_pd :: "(string driver \<Rightarrow> string driver) \<Rightarrow> py_ctx \<Rightarrow> py_ctx" where
  "on_pd f c \<equiv> c\<lparr>pc_d := f (pc_d c)\<rparr>"

section \<open>Loops that can panic\<close>

fun fold_opt :: "('a \<Rightarrow> 'b \<Rightarrow> 'b option) \<Rightarrow> 'a list \<Rightarrow> 'b \<Rightarrow> 'b option" where
  "fold_opt f [] s = Some s"
| "fold_opt f (x # xs) s = Option.bind (f x s) (fold_opt f xs)"

lemma fold_opt_cong [fundef_cong]:
  "xs = ys \<Longrightarrow> s = t \<Longrightarrow> (\<And>x u. x \<in> set ys \<Longrightarrow> f x u = g x u) \<Longrightarrow> fold_opt f xs s = fold_opt g ys t"
proof (induction xs arbitrary: ys s t)
  case (Cons x xs)
  have "fold_opt f xs = fold_opt g xs" using Cons.prems by (intro ext Cons.IH) auto
  then show ?case using Cons.prems by auto
qed auto

fun concat_opt :: "('a \<Rightarrow> 'b list option) \<Rightarrow> 'a list \<Rightarrow> 'b list option" where
  "concat_opt f [] = Some []"
| "concat_opt f (x # xs) = Option.bind (f x) (\<lambda>ys. map_option ((@) ys) (concat_opt f xs))"

lemma concat_opt_cong [fundef_cong]:
  "xs = ys \<Longrightarrow> (\<And>x. x \<in> set ys \<Longrightarrow> f x = g x) \<Longrightarrow> concat_opt f xs = concat_opt g ys"
  by (induction xs arbitrary: ys) auto

fun any_opt :: "('a \<Rightarrow> bool option) \<Rightarrow> 'a list \<Rightarrow> bool option" where
  "any_opt f [] = Some False"
| "any_opt f (x # xs) = Option.bind (f x) (\<lambda>b. if b then Some True else any_opt f xs)"

fun first_opt :: "('a \<Rightarrow> 'b option option) \<Rightarrow> 'a list \<Rightarrow> 'b option option" where
  "first_opt f [] = Some None"
| "first_opt f (x # xs) = Option.bind (f x) (\<lambda>r. if r = None then first_opt f xs else Some r)"

declare Option.bind_cong [fundef_cong]

section \<open>Names\<close>

definition py_scalars :: "string list" where
  "py_scalars = [''int'', ''str'', ''bool'', ''float'', ''bytes'', ''complex'', ''object'', ''bytearray'', ''True'', ''False'']"

definition py_containers :: "string list" where
  "py_containers =
     [''list'', ''dict'', ''set'', ''tuple'', ''frozenset'', ''type'', ''List'', ''Dict'', ''Set'', ''Tuple'',
      ''FrozenSet'', ''Type'', ''Optional'', ''Union'', ''Sequence'', ''Iterable'', ''Mapping'', ''MutableMapping'',
      ''MutableSequence'', ''Callable'', ''Awaitable'', ''AsyncIterable'', ''AsyncIterator'', ''Coroutine'',
      ''Generator'', ''AsyncGenerator'', ''ContextManager'', ''AsyncContextManager'', ''Any'', ''ClassVar'',
      ''Final'', ''Annotated'', ''Literal'', ''Concatenate'', ''ParamSpec'', ''TypeVar'', ''None'', ''Ellipsis'']"

definition py_never_node :: "string \<Rightarrow> bool" where
  "py_never_node name \<longleftrightarrow> name \<in> set py_scalars \<or> name \<in> set py_containers"

definition py_base_type_name :: "string \<Rightarrow> string" where
  "py_base_type_name t = trim (rsplit_next ''.'' (hd (split_str ''<'' t)))"

definition py_def_kind :: "ts_node \<Rightarrow> (string \<times> string) option" where
  "py_def_kind n =
     (if ts_kind n = ''class_definition'' then Some (''type'', ''class'')
      else if ts_kind n = ''function_definition'' then Some (''fn'', ''function'')
      else None)"

definition word_char :: "py_env \<Rightarrow> string \<Rightarrow> bool" where
  "word_char env ch \<longleftrightarrow> char_alnum (px_alnum env) ch \<or> ch = ''_''"

definition all_word :: "py_env \<Rightarrow> string \<Rightarrow> bool" where
  "all_word env s \<longleftrightarrow> list_all (word_char env) (utf8_chars s)"

definition py_first_word :: "py_env \<Rightarrow> string \<Rightarrow> string" where
  "py_first_word env s = concat (takeWhile (word_char env) (utf8_chars s))"

text \<open>\<open>&s[lo..hi]\<close>, where \<open>hi\<close> is in range and both are the bounds of characters.\<close>

definition str_slice :: "string \<Rightarrow> nat \<Rightarrow> nat \<Rightarrow> string option" where
  "str_slice s lo hi = (if lo \<le> hi then Some (take (hi - lo) (drop lo s)) else None)"

lemma str_slice_length: "str_slice s lo hi = Some t \<Longrightarrow> length t \<le> length s - lo"
  by (auto simp: str_slice_def split: if_splits)

lemma trim_length: "length (trim s) \<le> length s"
  unfolding trim_def trim_start_def trim_end_def by (metis length_dropWhile_le length_rev le_trans)

text \<open>A forward reference in quotes; the recursion is on what is between the brackets.\<close>

definition quoted :: "string \<Rightarrow> bool" where
  "quoted t \<longleftrightarrow> starts_with t [CHR 34] \<and> ends_with t [CHR 34] \<or> starts_with t [CHR 39] \<and> ends_with t [CHR 39]"

definition last_dotted :: "string \<Rightarrow> string option" where
  "last_dotted s = map_option (\<lambda>i. drop (i + 1) s) (rfind_char CHR ''.'' s)"

definition dotted_word :: "py_env \<Rightarrow> string \<Rightarrow> string option" where
  "dotted_word env s = (case last_dotted s of None \<Rightarrow> None | Some l \<Rightarrow> if all_word env l then Some l else None)"

definition between_brackets :: "string \<Rightarrow> string option option" where
  "between_brackets s =
     (case (find_char CHR ''['' s, rfind_char CHR '']'' s) of
        (Some i, Some j) \<Rightarrow> map_option (\<lambda>t. Some (trim t)) (str_slice s (i + 1) j)
      | _ \<Rightarrow> Some None)"

lemma between_shorter: "between_brackets s = Some (Some t) \<Longrightarrow> length t < length s"
proof -
  assume "between_brackets s = Some (Some t)"
  then obtain i j u where "str_slice s (i + 1) j = Some u" "t = trim u" "rfind_char CHR '']'' s = Some j"
    by (auto simp: between_brackets_def split: option.splits)
  then show ?thesis using str_slice_length [of s "i + 1" j u] trim_length [of u] rfind_char_less [of "CHR '']''" s j] by simp
qed

function py_forward :: "py_env \<Rightarrow> string \<Rightarrow> string option option" where
  "py_forward env text =
     (if \<not> quoted (trim text) then Some None
      else
        (case str_slice (trim text) 1 (length (trim text) - 1) of
           None \<Rightarrow> None
         | Some s \<Rightarrow>
             if trim s = [] then Some None
             else if all_word env (trim s) then Some (Some (trim s))
             else
               (case dotted_word env (trim s) of
                  Some l \<Rightarrow> Some (Some l)
                | None \<Rightarrow>
                    (case between_brackets (trim s) of
                       None \<Rightarrow> None
                     | Some None \<Rightarrow>
                         Some (let word = py_first_word env (trim s) in if word = [] then None else Some word)
                     | Some (Some content) \<Rightarrow>
                         (case py_forward env content of
                            None \<Rightarrow> None
                          | Some (Some u) \<Rightarrow> Some (Some u)
                          | Some None \<Rightarrow>
                              Some (Some (case last_dotted content of Some l \<Rightarrow> trim l | None \<Rightarrow> content)))))))"
  by (pat_completeness, (elim Pair_inject)?, hypsubst, rule refl)
termination
proof (relation "measure (\<lambda>(_, t). length t)", goal_cases)
  case (2 env t s r content)
  then have "length content < length (trim s)" by (intro between_shorter) simp
  moreover have "length s \<le> length (trim t) - 1" using 2 by (auto dest: str_slice_length)
  ultimately show ?case using trim_length [of s] trim_length [of t] by simp
qed simp

declare py_forward.simps [simp del]

text \<open>The name of an annotation; \<open>cls\<close> is the class that \<open>Self\<close> stands for.\<close>

definition self_or :: "string option \<Rightarrow> string \<Rightarrow> string option" where
  "self_or cls name = (if name = ''Self'' then cls else Some name)"

function py_type_name :: "py_env \<Rightarrow> string option \<Rightarrow> bytes \<Rightarrow> ts_node \<Rightarrow> string option option" where
  "py_type_name env cls src n =
     (if ts_kind n = ''type''
      then (case ts_first_named n of None \<Rightarrow> Some None | Some c \<Rightarrow> py_type_name env cls src c)
      else if ts_kind n = ''string''
      then (case ts_text src n of None \<Rightarrow> Some None | Some t \<Rightarrow> py_forward env t)
      else if ts_kind n = ''identifier''
      then Some (case ts_text src n of None \<Rightarrow> None | Some t \<Rightarrow> self_or cls t)
      else if ts_kind n = ''subscript''
      then (case ts_field n ''value'' of None \<Rightarrow> Some None | Some v \<Rightarrow> py_type_name env cls src v)
      else if ts_kind n = ''attribute''
      then Some (case ts_field_text src n ''attribute'' of None \<Rightarrow> None | Some t \<Rightarrow> self_or cls t)
      else Some None)"
  by (pat_completeness, (elim Pair_inject)?, hypsubst, rule refl)
termination
  by (relation "measure (\<lambda>(_, _, _, n). size n)") (auto dest: ts_first_named_size ts_sizes)

declare py_type_name.simps [simp del]

definition never_dropped :: "string option \<Rightarrow> string list" where
  "never_dropped t = (case t of None \<Rightarrow> [] | Some n \<Rightarrow> if py_never_node n then [] else [n])"

function py_targets :: "py_env \<Rightarrow> string option \<Rightarrow> bytes \<Rightarrow> ts_node \<Rightarrow> string list option" where
  "py_targets env cls src n =
     (if ts_kind n = ''type'' then concat_opt (py_targets env cls src) (ts_named_children n)
      else if ts_kind n = ''string''
      then (case ts_text src n of None \<Rightarrow> Some [] | Some t \<Rightarrow> map_option never_dropped (py_forward env t))
      else if ts_kind n = ''identifier'' \<or> ts_kind n = ''attribute''
      then map_option never_dropped (py_type_name env cls src n)
      else if ts_kind n = ''generic_type''
      then concat_opt (\<lambda>c.
             if ts_kind c = ''identifier'' \<or> ts_kind c = ''attribute'' then py_targets env cls src c
             else if ts_kind c = ''type_parameter''
             then concat_opt (py_targets env cls src) (ts_named_children c)
             else Some [])
           (ts_named_children n)
      else Some [])"
  by (pat_completeness, (elim Pair_inject)?, hypsubst, rule refl)
termination
proof (relation "measure (\<lambda>(_, _, _, n). size n)", goal_cases)
  case (4 env cls src n c p)
  then show ?case using ts_named_size [of c n] ts_named_size [of p c] by simp
qed (auto dest: ts_sizes)

declare py_targets.simps [simp del]

section \<open>Classes and functions\<close>

text \<open>The superclasses of a class; without any, the questions about them are answered no.\<close>

definition py_bases :: "ts_node \<Rightarrow> ts_node list" where
  "py_bases n = (case ts_field n ''superclasses'' of None \<Rightarrow> [] | Some s \<Rightarrow> ts_named_children s)"

definition named_in :: "string list \<Rightarrow> string option \<Rightarrow> bool" where
  "named_in names t \<longleftrightarrow> (case t of None \<Rightarrow> False | Some n \<Rightarrow> n \<in> set names)"

definition is_enum_class :: "py_env \<Rightarrow> string option \<Rightarrow> bytes \<Rightarrow> ts_node \<Rightarrow> bool option" where
  "is_enum_class env cls src n =
     any_opt (\<lambda>b. map_option (named_in [''Enum'', ''IntEnum'', ''StrEnum'', ''Flag'', ''IntFlag'', ''ReprEnum''])
               (py_type_name env cls src b))
       (py_bases n)"

definition abstract_base :: "bytes \<Rightarrow> ts_node \<Rightarrow> ts_node option" where
  "abstract_base src b =
     (if ts_kind b = ''keyword_argument''
      then (if ts_field_text src b ''name'' = Some ''metaclass'' then ts_field b ''value'' else None)
      else Some b)"

definition is_abstract_class :: "py_env \<Rightarrow> string option \<Rightarrow> bytes \<Rightarrow> ts_node \<Rightarrow> bool option" where
  "is_abstract_class env cls src n =
     any_opt (\<lambda>b. case abstract_base src b of
                    None \<Rightarrow> Some False
                  | Some t \<Rightarrow> map_option (named_in [''ABC'', ''ABCMeta'', ''Protocol'']) (py_type_name env cls src t))
       (py_bases n)"

text \<open>A decorated function is a child of a \<open>decorated_definition\<close>, so its parent is asked if it is one.\<close>

definition decorated_parent :: "ts_node \<Rightarrow> ts_node option" where
  "decorated_parent p = (if ts_kind p = ''decorated_definition'' then Some p else None)"

definition abstract_decorator :: "bytes \<Rightarrow> ts_node \<Rightarrow> bool" where
  "abstract_decorator src n \<longleftrightarrow>
     ts_kind n = ''decorator''
     \<and> (case ts_text src n of
          None \<Rightarrow> False
        | Some t \<Rightarrow>
            trim (hd (split_str ''('' (rsplit_next ''.'' (trim_start_char CHR ''@'' t))))
              \<in> {''abstractmethod'', ''abstractproperty''})"

definition has_abstract_decorator :: "bytes \<Rightarrow> ts_node option \<Rightarrow> bool" where
  "has_abstract_decorator src decorated \<longleftrightarrow>
     (case decorated of None \<Rightarrow> False | Some p \<Rightarrow> list_ex (abstract_decorator src) (ts_named_children p))"

fun placeholder_body :: "bytes \<Rightarrow> ts_node list \<Rightarrow> bool \<Rightarrow> bool" where
  "placeholder_body src [] found = found"
| "placeholder_body src (s # ss) found =
     (if ts_kind s = ''raise_statement''
      then contains_str (case ts_text src s of None \<Rightarrow> [] | Some t \<Rightarrow> t) ''NotImplementedError''
           \<and> placeholder_body src ss True
      else if ts_kind s = ''expression_statement''
      then (case map_option ts_kind (ts_first_named s) of
              None \<Rightarrow> False
            | Some k \<Rightarrow>
                if k = ''ellipsis'' then placeholder_body src ss True
                else if k = ''string'' then placeholder_body src ss found
                else False)
      else if ts_kind s = ''comment'' then placeholder_body src ss found
      else False)"

definition is_abstract_method :: "bytes \<Rightarrow> ts_node option \<Rightarrow> ts_node \<Rightarrow> bool" where
  "is_abstract_method src decorated n \<longleftrightarrow>
     has_abstract_decorator src decorated
     \<or> (case ts_field n ''body'' of None \<Rightarrow> False | Some b \<Rightarrow> placeholder_body src (ts_named_children b) False)"

text \<open>The assignment that a statement of an enum's body is, or holds.\<close>

definition variant_assignment :: "ts_node \<Rightarrow> ts_node option" where
  "variant_assignment s =
     (if ts_kind s = ''assignment'' then Some s
      else if ts_kind s = ''expression_statement''
      then (case ts_first_named s of
              None \<Rightarrow> None | Some c \<Rightarrow> if ts_kind c = ''assignment'' then Some c else None)
      else None)"

definition enum_variant_of :: "bytes \<Rightarrow> ts_node \<Rightarrow> (string \<times> ts_node) option" where
  "enum_variant_of src s =
     (case variant_assignment s of
        None \<Rightarrow> None
      | Some a \<Rightarrow>
          if ts_field a ''type'' \<noteq> None then None
          else
            (case ts_field a ''left'' of
               None \<Rightarrow> None
             | Some l \<Rightarrow>
                 if ts_kind l \<noteq> ''identifier'' then None
                 else
                   (case ts_text src l of
                      None \<Rightarrow> None
                    | Some name \<Rightarrow>
                        if name = ''_ignore_'' \<or> starts_with name ''__'' \<and> ends_with name ''__'' then None
                        else Some (name, a))))"

definition extract_enum_variants :: "bytes \<Rightarrow> ts_node \<Rightarrow> (string \<times> ts_node) list" where
  "extract_enum_variants src n =
     (case ts_field n ''body'' of
        None \<Rightarrow> [] | Some b \<Rightarrow> List.map_filter (enum_variant_of src) (ts_named_children b))"

definition py_heritage :: "py_env \<Rightarrow> string option \<Rightarrow> bytes \<Rightarrow> ts_node \<Rightarrow> string list option" where
  "py_heritage env cls src n =
     (if ts_kind n \<noteq> ''class_definition'' then Some []
      else concat_opt (\<lambda>b. map_option (\<lambda>t. case t of None \<Rightarrow> [] | Some x \<Rightarrow> [x]) (py_type_name env cls src b))
             (py_bases n))"

text \<open>The name and the annotation of a statement \<open>x: T\<close> of a class.\<close>

definition py_field_of :: "bytes \<Rightarrow> ts_node \<Rightarrow> (string \<times> ts_node) option" where
  "py_field_of src s =
     (if ts_kind s \<noteq> ''expression_statement'' then None
      else
        (case ts_first_named s of
           None \<Rightarrow> None
         | Some a \<Rightarrow>
             if ts_kind a \<noteq> ''assignment'' then None
             else
               (case ts_field a ''left'' of
                  None \<Rightarrow> None
                | Some l \<Rightarrow>
                    if ts_kind l \<noteq> ''identifier'' then None
                    else
                      (case (ts_text src l, ts_field a ''type'') of
                         (Some name, Some ty) \<Rightarrow> Some (name, ty)
                       | _ \<Rightarrow> None))))"

definition py_fields :: "py_env \<Rightarrow> string option \<Rightarrow> bytes \<Rightarrow> ts_node \<Rightarrow> (string \<times> string) list option" where
  "py_fields env cls src n =
     (if ts_kind n \<noteq> ''class_definition'' then Some []
      else
        (case ts_field n ''body'' of
           None \<Rightarrow> Some []
         | Some b \<Rightarrow>
             concat_opt (\<lambda>s. case py_field_of src s of
                              None \<Rightarrow> Some []
                            | Some (name, ty) \<Rightarrow> map_option (map (Pair name)) (py_targets env cls src ty))
               (ts_named_children b)))"

section \<open>Type parameters\<close>

definition is_typevar_name :: "bytes \<Rightarrow> ts_node \<Rightarrow> bool" where
  "is_typevar_name src f \<longleftrightarrow>
     (if ts_kind f = ''identifier'' then ts_text src f = Some ''TypeVar''
      else if ts_kind f = ''attribute'' then ts_field_text src f ''attribute'' = Some ''TypeVar''
      else False)"

definition is_typevar_call :: "bytes \<Rightarrow> ts_node \<Rightarrow> bool" where
  "is_typevar_call src n \<longleftrightarrow>
     ts_kind n = ''call'' \<and> (case ts_field n ''function'' of None \<Rightarrow> False | Some f \<Rightarrow> is_typevar_name src f)"

definition is_typevar_declaration :: "bytes \<Rightarrow> ts_node \<Rightarrow> bool" where
  "is_typevar_declaration src n \<longleftrightarrow>
     ts_kind n = ''assignment''
     \<and> map_option ts_kind (ts_field n ''left'') = Some ''identifier''
     \<and> (case ts_field n ''right'' of None \<Rightarrow> False | Some r \<Rightarrow> is_typevar_call src r)"

definition extract_typevar_name :: "bytes \<Rightarrow> ts_node \<Rightarrow> string option" where
  "extract_typevar_name src n = ts_field_text src n ''left''"

definition extract_typevar_bound :: "py_env \<Rightarrow> string option \<Rightarrow> bytes \<Rightarrow> ts_node \<Rightarrow> string option option" where
  "extract_typevar_bound env cls src n =
     (if \<not> is_typevar_call src n then Some None
      else
        (case ts_field n ''arguments'' of
           None \<Rightarrow> Some None
         | Some args \<Rightarrow>
             first_opt (\<lambda>arg.
                 if ts_kind arg = ''keyword_argument'' \<and> ts_field_text src arg ''name'' = Some ''bound''
                 then (case ts_field arg ''value'' of None \<Rightarrow> Some None | Some v \<Rightarrow> py_type_name env cls src v)
                 else Some None)
               (ts_named_children args)))"

definition trim_end_bracket :: "string \<Rightarrow> string" where
  "trim_end_bracket s = trim_end_char CHR '']'' (trim_start_char CHR ''['' s)"

definition pep695_bound :: "string \<Rightarrow> (string \<times> string) option" where
  "pep695_bound part =
     (case find_char CHR '':'' (trim part) of
        None \<Rightarrow> None
      | Some i \<Rightarrow>
          (let param = trim (take i (trim part));
               spec = trim (drop (i + 1) (trim part));
               bound = trim (trim_end_bracket spec)
           in if param = [] \<or> spec = [] \<or> bound = [] then None else Some (param, bound)))"

text \<open>The text of the named children that are type parameters.\<close>

definition type_parameter_texts :: "bytes \<Rightarrow> ts_node \<Rightarrow> string list" where
  "type_parameter_texts src n =
     (if ts_kind n = ''class_definition'' \<or> ts_kind n = ''function_definition''
      then List.map_filter (ts_text src) (filter (\<lambda>c. ts_kind c = ''type_parameter'') (ts_named_children n))
      else [])"

definition collect_pep695_type_bounds :: "bytes \<Rightarrow> ts_node \<Rightarrow> (string \<times> string) list" where
  "collect_pep695_type_bounds src n =
     concat (map (\<lambda>t. List.map_filter pep695_bound (split_str '','' (trim_end_bracket t)))
       (type_parameter_texts src n))"

definition trim_brackets :: "string \<Rightarrow> string" where
  "trim_brackets s =
     rev (dropWhile (\<lambda>c. c = CHR ''['' \<or> c = CHR '']'') (rev (dropWhile (\<lambda>c. c = CHR ''['' \<or> c = CHR '']'') s)))"

text \<open>Without type parameters among the children, the name is looked at, and then the siblings after it.\<close>

definition bracketed_parameters :: "bytes \<Rightarrow> ts_node \<Rightarrow> string set option" where
  "bracketed_parameters src n =
     (case ts_field_text src n ''name'' of
        None \<Rightarrow> Some {}
      | Some name \<Rightarrow>
          (case find_char CHR ''['' name of
             Some i \<Rightarrow>
               (case find_char CHR '']'' name of
                  None \<Rightarrow> Some {}
                | Some j \<Rightarrow>
                    map_option (\<lambda>t. set (map (\<lambda>p. trim_brackets (trim p)) (split_str '','' t)) - {[]}) (str_slice name (i + 1) j))
           | None \<Rightarrow>
               Some (set (List.map_filter (\<lambda>k. if ts_kind (snd k) = ''type_parameter'' then ts_text src (snd k) else None)
                 (tl (dropWhile (\<lambda>k. fst k \<noteq> Some ''name'') (ts_kids n)))))))"

definition collect_pep695_type_parameters :: "bytes \<Rightarrow> ts_node \<Rightarrow> string set option" where
  "collect_pep695_type_parameters src n =
     (if ts_kind n \<noteq> ''class_definition'' \<and> ts_kind n \<noteq> ''function_definition'' then Some {}
      else
        (let params = set (concat (map (\<lambda>t. map trim (split_str '','' (trim_brackets t))) (type_parameter_texts src n))) - {[]}
         in if params \<noteq> {} then Some params else bracketed_parameters src n))"

section \<open>Aliases, calls, imports\<close>

definition is_pep613_type_alias :: "bytes \<Rightarrow> ts_node \<Rightarrow> bool" where
  "is_pep613_type_alias src n \<longleftrightarrow>
     ts_kind n = ''assignment''
     \<and> (case ts_field n ''type'' of
          None \<Rightarrow> False
        | Some t \<Rightarrow>
            if ts_kind t = ''identifier'' \<or> ts_kind t = ''type'' then ts_text src t = Some ''TypeAlias''
            else ts_kind t = ''attribute'' \<and> ts_field_text src t ''attribute'' = Some ''TypeAlias'')"

definition infer_assignment_type ::
  "py_env \<Rightarrow> string option \<Rightarrow> bytes \<Rightarrow> ts_node \<Rightarrow> (string \<times> string) option option"
where
  "infer_assignment_type env cls src n =
     (case ts_field n ''left'' of
        None \<Rightarrow> Some None
      | Some l \<Rightarrow>
          if ts_kind l \<noteq> ''identifier'' then Some None
          else
            (case (ts_text src l, ts_field n ''type'') of
               (Some var, Some t) \<Rightarrow> map_option (map_option (Pair var)) (py_type_name env cls src t)
             | _ \<Rightarrow> Some None))"

definition py_receiver_type :: "py_env \<Rightarrow> ts_node \<Rightarrow> string option \<Rightarrow> string driver \<Rightarrow> string option" where
  "py_receiver_type env attr current_class d =
     (case ts_field attr ''object'' of
        None \<Rightarrow> None
      | Some obj \<Rightarrow>
          if ts_kind obj \<noteq> ''identifier'' then None
          else
            (case dr_text d obj of
               None \<Rightarrow> None
             | Some name \<Rightarrow>
                 if name = ''self'' then current_class
                 else if px_first_upper env name then Some name
                 else lookup_var name d))"

definition py_callee_ref ::
  "py_env \<Rightarrow> ts_node \<Rightarrow> string option \<Rightarrow> string driver \<Rightarrow> (string \<times> string option) option"
where
  "py_callee_ref env func current_class d =
     (if ts_kind func = ''identifier'' then map_option (\<lambda>n. (n, None)) (dr_text d func)
      else if ts_kind func = ''attribute''
      then (case (ts_field_text (dr_src d) func ''attribute'', py_receiver_type env func current_class d) of
              (Some method, Some hint) \<Rightarrow> Some (method, Some hint)
            | _ \<Rightarrow> None)
      else None)"

definition py_visit_call ::
  "py_env \<Rightarrow> ts_node \<Rightarrow> (node_id \<times> string) option \<Rightarrow> (node_id \<times> string) option \<Rightarrow> string driver \<Rightarrow> string driver"
where
  "py_visit_call env n current_fn current_class d =
     (if is_typevar_call (dr_src d) n then d
      else
        (case (current_fn, ts_field n ''function'') of
           (Some (src_id, _), Some func) \<Rightarrow>
             (case py_callee_ref env func (map_option snd current_class) d of
                None \<Rightarrow> d
              | Some (callee, hint) \<Rightarrow>
                  emit_call src_id ((target_ref_new callee)
                    \<lparr>t_hints := (case hint of None \<Rightarrow> bt_empty | Some ty \<Rightarrow> bt_insert ''type'' ty bt_empty)\<rparr>) d)
         | _ \<Rightarrow> d))"

definition imported_binding :: "bytes \<Rightarrow> ts_node \<Rightarrow> string option" where
  "imported_binding src n =
     (if ts_kind n = ''aliased_import'' then ts_field_text src n ''alias''
      else
        (case ts_text src n of
           None \<Rightarrow> None
         | Some t \<Rightarrow> (let name = trim (rsplit_next ''.'' t) in if name = [] then None else Some name)))"

definition imported_names :: "bytes \<Rightarrow> ts_node \<Rightarrow> string list" where
  "imported_names src n =
     List.map_filter (\<lambda>k. if fst k = Some ''name'' then imported_binding src (snd k) else None) (ts_kids n)"

definition py_visit_import :: "ts_node \<Rightarrow> string driver \<Rightarrow> string driver" where
  "py_visit_import n d = fold (\<lambda>name. emit_import (target_ref_new name)) (imported_names (dr_src d) n) d"

section \<open>Entering a class\<close>

definition push_export :: "string \<Rightarrow> (node_id \<times> string) option \<Rightarrow> (node_id \<times> string) option \<Rightarrow> 'v driver \<Rightarrow> 'v driver" where
  "push_export name current_fn current_class d =
     (if current_fn = None \<and> current_class = None then d\<lparr>dr_exports := dr_exports d @ [Local name]\<rparr> else d)"

text \<open>The first node with the id is given the label.\<close>

definition relabel :: "node_id \<Rightarrow> string \<Rightarrow> 'v driver \<Rightarrow> 'v driver" where
  "relabel i label d =
     d\<lparr>dr_nodes :=
       (case dropWhile (\<lambda>n. n_id n \<noteq> i) (dr_nodes d) of
          [] \<Rightarrow> dr_nodes d
        | n # later \<Rightarrow> takeWhile (\<lambda>n. n_id n \<noteq> i) (dr_nodes d) @ n\<lparr>n_label := label\<rparr> # later)\<rparr>"

definition py_add_variant :: "node_id \<Rightarrow> string \<Rightarrow> string \<times> ts_node \<Rightarrow> 'v driver \<Rightarrow> 'v driver" where
  "py_add_variant i name v d =
     (let (variant_id, d) = add_variant i name (fst v) (snd v) d
      in relabel variant_id (qualify (fst v) (Some name)) d)"

definition py_emit_type_edges ::
  "py_env \<Rightarrow> string option \<Rightarrow> node_id \<Rightarrow> ts_node \<Rightarrow> string driver \<Rightarrow> string driver option"
where
  "py_emit_type_edges env cls i n d =
     Option.bind (py_heritage env cls (dr_src d) n) (\<lambda>bases.
       let d = fold (emit_heritage i INHERITS) bases d
       in map_option (\<lambda>fields. fold (\<lambda>(name, ty) d. snd (emit_field_type i name ty None d)) fields d)
            (py_fields env cls (dr_src d) n))"

definition enter_class ::
  "py_env \<Rightarrow> ts_node \<Rightarrow> string \<Rightarrow> (node_id \<times> string) option \<Rightarrow> (node_id \<times> string) option \<Rightarrow> py_ctx \<Rightarrow>
     (node_id \<times> py_ctx) option"
where
  "enter_class env n name current_fn current_class c =
     (let d = push_export name current_fn current_class (pc_d c);
          src = dr_src d
      in Option.bind (is_enum_class env (pc_class c) src n) (\<lambda>is_enum.
         Option.bind (collect_pep695_type_parameters src n) (\<lambda>params.
           let d = push_type_parameters params d;
               (pre, kind) = (if is_enum then (''type'', ''enum'')
                              else case py_def_kind n of Some pk \<Rightarrow> pk | None \<Rightarrow> (''type'', ''class''));
               (i, d) = add_def pre kind name n (dr_file_id d) None d
           in Option.bind (is_abstract_class env (pc_class c) src n) (\<lambda>is_abstract.
             let d = (if is_abstract then mark_abstract i d else d);
                 d = register_local_type (py_base_type_name name) d;
                 d = (if is_enum then fold (py_add_variant i name) (extract_enum_variants src n) d else d)
             in map_option (\<lambda>d. (i, c\<lparr>pc_d := d, pc_class := Some name\<rparr>))
                  (py_emit_type_edges env (Some name) i n d)))))"

section \<open>Entering a function\<close>

definition py_emit_bounds :: "py_env \<Rightarrow> node_id \<Rightarrow> ts_node \<Rightarrow> py_ctx \<Rightarrow> string driver \<Rightarrow> string driver" where
  "py_emit_bounds env i n c d =
     (let in_scope = dr_tps d;
          d = fold (\<lambda>(_, bound) d. snd (emit_bound_type i (py_base_type_name bound) d))
                (collect_pep695_type_bounds (dr_src d) n) d
      in fold (\<lambda>(typevar, bound) d.
             if typevar \<in> in_scope then snd (emit_bound_type i (py_base_type_name bound) d) else d)
           (px_order env (pc_bounds c)) d)"

definition py_emit_returns ::
  "py_env \<Rightarrow> string option \<Rightarrow> node_id \<Rightarrow> string \<Rightarrow> ts_node \<Rightarrow> string driver \<Rightarrow> string driver option"
where
  "py_emit_returns env cls i name n d =
     (case ts_field n ''return_type'' of
        None \<Rightarrow> Some d
      | Some t \<Rightarrow>
          map_option
            (\<lambda>targets. fold (\<lambda>ty d.
                 if py_base_type_name name \<noteq> py_base_type_name ty
                 then snd (emit_return_type i (py_base_type_name ty) d) else d)
               targets d)
            (py_targets env cls (dr_src d) t))"

text \<open>A parameter's name and annotation.\<close>

definition py_param :: "bytes \<Rightarrow> ts_node \<Rightarrow> string option \<times> ts_node option" where
  "py_param src p =
     (if ts_kind p = ''typed_parameter''
      then (Option.bind (find (\<lambda>c. ts_kind c = ''identifier'') (ts_named_children p)) (ts_text src), ts_field p ''type'')
      else if ts_kind p = ''typed_default_parameter'' then (ts_field_text src p ''name'', ts_field p ''type'')
      else (None, None))"

definition py_collect_param ::
  "py_env \<Rightarrow> string option \<Rightarrow> node_id \<Rightarrow> ts_node \<Rightarrow> string driver \<Rightarrow> string driver option"
where
  "py_collect_param env cls i p d =
     (case py_param (dr_src d) p of
        (_, None) \<Rightarrow> Some d
      | (name, Some t) \<Rightarrow>
          Option.bind (py_type_name env cls (dr_src d) t) (\<lambda>ty.
            let d = (case (name, ty) of (Some var, Some ty) \<Rightarrow> scope_insert var ty d | _ \<Rightarrow> d)
            in map_option (\<lambda>targets. fold (\<lambda>ty d. snd (emit_param_type i ty d)) targets d)
                 (py_targets env cls (dr_src d) t)))"

definition py_collect_params ::
  "py_env \<Rightarrow> string option \<Rightarrow> node_id \<Rightarrow> ts_node \<Rightarrow> string driver \<Rightarrow> string driver option"
where
  "py_collect_params env cls i n d =
     (case ts_field n ''parameters'' of
        None \<Rightarrow> Some d | Some params \<Rightarrow> fold_opt (py_collect_param env cls i) (ts_children params) d)"

definition py_enter_function ::
  "py_env \<Rightarrow> ts_node option \<Rightarrow> ts_node \<Rightarrow> string \<Rightarrow> (node_id \<times> string) option \<Rightarrow> (node_id \<times> string) option \<Rightarrow>
     py_ctx \<Rightarrow> (node_id \<times> py_ctx) option"
where
  "py_enter_function env decorated n name current_fn current_class c =
     (let d = push_export name current_fn current_class (pc_d c);
          src = dr_src d
      in Option.bind (collect_pep695_type_parameters src n) (\<lambda>params.
        let d = push_type_parameters params d;
            container = (case current_class of Some (i, _) \<Rightarrow> i | None \<Rightarrow> dr_file_id d);
            (pre, kind) = (case py_def_kind n of Some pk \<Rightarrow> pk | None \<Rightarrow> (''fn'', ''function''));
            (i, d) = add_def pre kind name n container (map_option snd current_class) d;
            d = (if current_class \<noteq> None \<and> is_abstract_method src decorated n then mark_abstract i d else d);
            d = py_emit_bounds env i n c d
        in Option.bind (py_emit_returns env (pc_class c) i name n d) (\<lambda>d.
             map_option (\<lambda>d. (i, c\<lparr>pc_d := d\<rparr>)) (py_collect_params env (pc_class c) i n (scope_push d)))))"

section \<open>Assignments and aliases\<close>

definition declare_typevar :: "py_env \<Rightarrow> ts_node \<Rightarrow> py_ctx \<Rightarrow> py_ctx option" where
  "declare_typevar env n c =
     (let src = dr_src (pc_d c)
      in case (if is_typevar_declaration src n then extract_typevar_name src n else None) of
           None \<Rightarrow> Some c
         | Some name \<Rightarrow>
             (let c = on_pd (insert_type_parameter name) c
              in case ts_field n ''right'' of
                   None \<Rightarrow> Some c
                 | Some right \<Rightarrow>
                     map_option (\<lambda>b. case b of
                         None \<Rightarrow> c
                       | Some bound \<Rightarrow>
                           if (name, bound) \<in> set (pc_bounds c) then c
                           else c\<lparr>pc_bounds := pc_bounds c @ [(name, bound)]\<rparr>)
                       (extract_typevar_bound env (pc_class c) src right)))"

definition add_alias :: "string \<Rightarrow> ts_node \<Rightarrow> 'v driver \<Rightarrow> 'v driver" where
  "add_alias name n d = snd (add_def ''type_alias'' ''type_alias'' name n (dr_file_id d) None d)"

definition close_assignment :: "ts_node \<Rightarrow> (string \<times> string) option \<Rightarrow> string driver \<Rightarrow> string driver" where
  "close_assignment n binding d =
     (let src = dr_src d;
          d = (case (if is_pep613_type_alias src n then ts_field_text src n ''left'' else None) of
                 None \<Rightarrow> d | Some name \<Rightarrow> add_alias name n d)
      in case binding of None \<Rightarrow> d | Some (var, ty) \<Rightarrow> scope_insert var ty d)"

definition visit_alias ::
  "ts_node \<Rightarrow> (node_id \<times> string) option \<Rightarrow> (node_id \<times> string) option \<Rightarrow> string driver \<Rightarrow> string driver"
where
  "visit_alias n current_fn current_class d =
     (case ts_children n of
        _ # m # _ \<Rightarrow>
          (case dr_text d m of
             None \<Rightarrow> d | Some name \<Rightarrow> push_export name current_fn current_class (add_alias name n d))
      | _ \<Rightarrow> d)"

section \<open>The walk\<close>

definition py_visit ::
  "py_env \<Rightarrow> ts_node \<Rightarrow> (node_id \<times> string) option \<Rightarrow> (node_id \<times> string) option \<Rightarrow> string driver \<Rightarrow> string driver"
where
  "py_visit env n current_fn current_class d =
     (if ts_kind n = ''type_alias_statement'' then visit_alias n current_fn current_class d
      else if ts_kind n = ''call'' then py_visit_call env n current_fn current_class d
      else if ts_kind n = ''import_statement'' \<or> ts_kind n = ''import_from_statement'' then py_visit_import n d
      else d)"

text \<open>\<open>pc_class\<close> is cleared, not restored, after a class.\<close>

function py_walk ::
  "py_env \<Rightarrow> ts_node option \<Rightarrow> ts_node \<Rightarrow> (node_id \<times> string) option \<Rightarrow> (node_id \<times> string) option \<Rightarrow> py_ctx \<Rightarrow>
     py_ctx option"
where
  "py_walk env decorated n current_fn current_class c =
     (let src = dr_src (pc_d c)
      in if ts_kind n = ''class_definition'' \<and> ts_field_text src n ''name'' \<noteq> None
         then
           (let name = the (ts_field_text src n ''name'')
            in Option.bind (enter_class env n name current_fn current_class c) (\<lambda>(i, c).
                 map_option (\<lambda>c. (on_pd pop_type_parameters c)\<lparr>pc_class := None\<rparr>)
                   (fold_opt (\<lambda>child. py_walk env (decorated_parent n) child current_fn (Some (i, name))) (ts_children n) c)))
         else if ts_kind n = ''function_definition'' \<and> ts_field_text src n ''name'' \<noteq> None
         then
           (let name = the (ts_field_text src n ''name'')
            in Option.bind (py_enter_function env decorated n name current_fn current_class c) (\<lambda>(i, c).
                 map_option (on_pd (\<lambda>d. pop_type_parameters (scope_pop d)))
                   (fold_opt (\<lambda>child. py_walk env (decorated_parent n) child (Some (i, name)) current_class) (ts_children n) c)))
         else if ts_kind n = ''assignment''
         then
           Option.bind (declare_typevar env n c) (\<lambda>c.
           Option.bind (infer_assignment_type env (pc_class c) src n) (\<lambda>binding.
             map_option (on_pd (close_assignment n binding))
               (fold_opt (\<lambda>child. py_walk env (decorated_parent n) child current_fn current_class) (ts_children n) c)))
         else
           fold_opt (\<lambda>child. py_walk env (decorated_parent n) child current_fn current_class) (ts_children n)
             (on_pd (py_visit env n current_fn current_class) c))"
  by (pat_completeness, (elim Pair_inject)?, hypsubst, rule refl)
termination
  by (relation "measure (\<lambda>(_, _, n, _). size n)") (auto dest: ts_sizes)

declare py_walk.simps [simp del]

text \<open>The module's own type variables, as the first pass finds them: among the children of the root.\<close>

definition module_typevars :: "bytes \<Rightarrow> ts_node \<Rightarrow> string set" where
  "module_typevars src root_node =
     set (List.map_filter (\<lambda>n. if is_typevar_declaration src n then extract_typevar_name src n else None)
       (ts_named_children root_node))"

definition py_handles :: "artifact \<Rightarrow> bool" where
  "py_handles a \<longleftrightarrow> a_language a = Some ''python''"

definition py_run :: "py_env \<Rightarrow> artifact \<Rightarrow> bytes \<Rightarrow> ts_node \<Rightarrow> py_ctx option" where
  "py_run env a src tree =
     py_walk env None tree None None (on_pd (push_type_parameters (module_typevars src tree)) (py_ctx_new a src))"

definition py_extract :: "py_env \<Rightarrow> artifact \<Rightarrow> bytes \<Rightarrow> (error + extraction) option" where
  "py_extract env a src =
     (case px_grammar_error env of
        Some e \<Rightarrow> Some (Inl (Parse (''load python grammar: '' @ e)))
      | None \<Rightarrow>
          (case px_parse env src of
             None \<Rightarrow> Some (Inl (Parse (''parse failed: '' @ a_path a)))
           | Some tree \<Rightarrow> map_option (\<lambda>c. Inr (driver_finish (pc_d c))) (py_run env a src tree)))"

end
