(* ===== verification/Python_Steps.thy ===== *)
theory Python_Steps
  imports Driver_Steps Python_Extract
begin

text \<open>
  The extraction of a Python file is made of the steps of \<open>Driver_Steps\<close>, if it does not panic.
\<close>

section \<open>Loops\<close>

lemma fold_opt_rel:
  assumes "fold_opt f xs s = Some t" "\<And>u. R u u" "\<And>u v w. R u v \<Longrightarrow> R v w \<Longrightarrow> R u w"
    and "\<And>x u v. x \<in> set xs \<Longrightarrow> R s u \<Longrightarrow> f x u = Some v \<Longrightarrow> R u v"
  shows "R s t"
  using assms(1,4)
proof (induction xs arbitrary: s)
  case (Cons x xs)
  from Cons.prems(1) obtain u where u: "f x s = Some u" "fold_opt f xs u = Some t" by (auto simp: bind_eq_Some_conv)
  have su: "R s u" by (rule Cons.prems(2) [OF _ assms(2) u(1)]) simp
  have "R u t"
  proof (rule Cons.IH [OF u(2)])
    fix y v w assume y: "y \<in> set xs" "R u v" "f y v = Some w"
    show "R v w" by (rule Cons.prems(2) [OF _ assms(3) [OF su y(2)] y(3)]) (simp add: y(1))
  qed
  then show ?case by (rule assms(3) [OF su])
qed (simp add: assms(2))

section \<open>What a walk leaves\<close>

text \<open>A type variable that is declared joins the innermost frame; the frames outside it are kept.\<close>

definition py_level :: "(string \<Rightarrow> bool) \<Rightarrow> 'v driver \<Rightarrow> 'v driver \<Rightarrow> bool" where
  "py_level nm d d' \<longleftrightarrow>
     dr_steps True nm d d'
     \<and> (dr_tp_stack d \<noteq> [] \<longrightarrow> dr_tp_stack d' \<noteq> [] \<and> tl (dr_tp_stack d') = tl (dr_tp_stack d))
     \<and> (tps_ok d \<longrightarrow> tps_ok d')
     \<and> length (dr_scopes d') = length (dr_scopes d) \<and> tl (dr_scopes d') = tl (dr_scopes d)"

lemma py_level_of: "level True nm d d' \<Longrightarrow> py_level nm d d'"
  by (simp add: py_level_def level_def)

lemma py_level_refl [simp]: "py_level nm d d"
  by (simp add: py_level_def)

lemma py_level_trans: "py_level nm d d' \<Longrightarrow> py_level nm d' d'' \<Longrightarrow> py_level nm d d''"
  unfolding py_level_def using rtranclp_trans [of "dr_step True nm" d d' d''] by auto

lemma py_level_known: "py_level nm d d' \<Longrightarrow> i \<in> known d \<Longrightarrow> i \<in> known d'"
  using steps_known [of True nm d d'] by (auto simp: py_level_def)

lemma py_level_same: "py_level nm d d' \<Longrightarrow> dr_src d' = dr_src d \<and> dr_file_id d' = dr_file_id d"
  using steps_same [of True nm d d'] by (auto simp: py_level_def)

lemma py_level_params:
  assumes "py_level nm (push_type_parameters ps d) d'"
  shows "level True nm d (pop_type_parameters d')"
proof -
  obtain p where s: "dr_tp_stack d' = p # dr_tp_stack d"
    using assms by (cases "dr_tp_stack d'") (auto simp: py_level_def push_type_parameters_def)
  have a: "dr_step True nm d (push_type_parameters ps d)"
    using bookkeeping [of True nm d "dr_tps d \<union> ps" "ps # dr_tp_stack d" "dr_local_types d" "dr_scopes d" "dr_exports d"]
    by (cases d) (simp add: push_type_parameters_def)
  have b: "dr_step True nm d' (pop_type_parameters d')"
    using bookkeeping [of True nm d' "\<Union> (set (dr_tp_stack d))" "dr_tp_stack d" "dr_local_types d'" "dr_scopes d'"
        "dr_exports d'"] s
    by (cases d') (simp add: pop_type_parameters_def)
  from assms a b have "dr_steps True nm d (pop_type_parameters d')"
    by (meson converse_rtranclp_into_rtranclp py_level_def rtranclp.rtrancl_into_rtrancl)
  moreover have "dr_tp_stack (pop_type_parameters d') = dr_tp_stack d"
      "dr_scopes (pop_type_parameters d') = dr_scopes d'" "tps_ok (pop_type_parameters d')"
    using s by (simp_all add: pop_type_parameters_def tps_ok_def)
  ultimately show ?thesis using assms by (simp add: level_def py_level_def push_type_parameters_def)
qed

lemma py_level_scope:
  assumes "py_level nm (scope_push d) d'"
  shows "py_level nm d (scope_pop d')"
proof -
  have a: "dr_step True nm d (scope_push d)"
    using bookkeeping [of True nm d "dr_tps d" "dr_tp_stack d" "dr_local_types d" "bt_empty # dr_scopes d" "dr_exports d"]
    by (simp add: scope_push_def)
  have b: "dr_step True nm d' (scope_pop d')"
    using bookkeeping [of True nm d' "dr_tps d'" "dr_tp_stack d'" "dr_local_types d'" "tl (dr_scopes d')" "dr_exports d'"]
    by (simp add: scope_pop_def)
  from assms a b have "dr_steps True nm d (scope_pop d')"
    by (meson converse_rtranclp_into_rtranclp py_level_def rtranclp.rtrancl_into_rtrancl)
  with assms show ?thesis by (auto simp: py_level_def scope_push_def scope_pop_def tps_ok_def)
qed

lemma py_level_declare: "py_level nm d (insert_type_parameter name d)"
proof -
  have "dr_step True nm d (insert_type_parameter name d)"
    using bookkeeping [of True nm d "dr_tps (insert_type_parameter name d)" "dr_tp_stack (insert_type_parameter name d)"
        "dr_local_types d" "dr_scopes d" "dr_exports d"]
    by (cases d) (simp add: insert_type_parameter_def)
  then show ?thesis
    by (auto simp: py_level_def insert_type_parameter_def tps_ok_def split: list.split)
qed

section \<open>The operations\<close>

lemma inherits_not_owning [simp]: "\<not> owning INHERITS"
  by (simp add: owning_def extract_consts CONTAINS_def HAS_VARIANT_def)

lemma level_push_export: "level rl nm d (push_export name cur cls d)"
  by (simp add: push_export_def level_exports)

lemma level_relabel: "level True nm d (relabel i l d)"
proof (cases "dropWhile (\<lambda>n. n_id n \<noteq> i) (dr_nodes d)")
  case (Cons n later)
  then have "dr_nodes d = takeWhile (\<lambda>n. n_id n \<noteq> i) (dr_nodes d) @ n # later"
    by (metis takeWhile_dropWhile_id)
  from labels [OF TrueI this, of nm l] Cons show ?thesis
    by (intro level_step) (simp_all add: relabel_def)
next
  case Nil
  have "relabel i l d = d" unfolding relabel_def Nil list.case by simp
  then show ?thesis by simp
qed

lemma level_py_add_variant:
  assumes "i \<in> known d" "nm name" "nm (fst v)"
  shows "level True nm d (py_add_variant i name v d)"
proof -
  obtain j d' where add: "add_variant i name (fst v) (snd v) d = (j, d')" by fastforce
  from level_trans [OF level_add_variant(1) [OF add assms] level_relabel] show ?thesis
    by (simp add: py_add_variant_def add)
qed

lemma level_py_emit_type_edges:
  assumes "py_emit_type_edges env cls i n d = Some d'" "i \<in> known d"
  shows "level True nm d d'"
proof -
  have a: "level True nm d (fold (emit_heritage i INHERITS) bs d)" for bs
    using assms(2) by (intro level_fold) (auto intro: level_emit_heritage)
  have b: "level True nm d1 (fold (\<lambda>(name, ty) d. snd (emit_field_type i name ty None d)) fs d1)"
    if "i \<in> known d1" for fs d1
    using that by (intro level_fold) (auto intro: level_emit_types)
  show ?thesis
    using assms(1) level_trans [OF a b] level_known [OF a assms(2)]
    by (auto simp: py_emit_type_edges_def Let_def bind_eq_Some_conv)
qed

lemma level_py_emit_bounds:
  assumes "i \<in> known d"
  shows "level True nm d (py_emit_bounds env i n c d)"
proof -
  have a: "level True nm d (fold (\<lambda>(_, bound) d. snd (emit_bound_type i (py_base_type_name bound) d)) bs d)" for bs
    using assms by (intro level_fold) (auto intro: level_emit_types)
  have b: "level True nm d1 (fold (\<lambda>(typevar, bound) d.
      if typevar \<in> ps then snd (emit_bound_type i (py_base_type_name bound) d) else d) bs d1)"
    if "i \<in> known d1" for ps bs d1
    using that by (intro level_fold) (auto intro: level_emit_types)
  show ?thesis
    unfolding py_emit_bounds_def Let_def using level_trans [OF a b] level_known [OF a assms] by blast
qed

lemma level_py_emit_returns:
  assumes "py_emit_returns env cls i name n d = Some d'" "i \<in> known d"
  shows "level True nm d d'"
proof -
  have "level True nm d (fold (\<lambda>ty d. if py_base_type_name name \<noteq> py_base_type_name ty
      then snd (emit_return_type i (py_base_type_name ty) d) else d) ts d)" for ts
    using assms(2) by (intro level_fold) (auto intro: level_emit_types)
  then show ?thesis using assms(1) by (auto simp: py_emit_returns_def split: option.splits)
qed

lemma level_py_collect_param:
  assumes "py_collect_param env cls i p d = Some d'" "i \<in> known d"
  shows "level True nm d d'"
proof -
  have a: "level True nm d (case (name, ty) of (Some var, Some ty) \<Rightarrow> scope_insert var ty d | _ \<Rightarrow> d)" for name ty
    by (auto split: option.split intro: level_scope_insert)
  have b: "level True nm d1 (fold (\<lambda>ty d. snd (emit_param_type i ty d)) ts d1)" if "i \<in> known d1" for ts d1
    using that by (intro level_fold) (auto intro: level_emit_types)
  obtain name t where p: "py_param (dr_src d) p = (name, t)" by fastforce
  show ?thesis
  proof (cases t)
    case (Some ty_node)
    with assms(1) p obtain ty ts where "d' = fold (\<lambda>ty d. snd (emit_param_type i ty d)) ts
        (case (name, ty) of (Some var, Some ty) \<Rightarrow> scope_insert var ty d | _ \<Rightarrow> d)"
      by (auto simp: py_collect_param_def Let_def bind_eq_Some_conv)
    then show ?thesis using level_trans [OF a b [OF level_known [OF a assms(2)]]] by simp
  qed (use assms p in \<open>simp add: py_collect_param_def\<close>)
qed

lemma level_py_collect_params:
  assumes "py_collect_params env cls i n d = Some d'" "i \<in> known d"
  shows "level True nm d d'"
proof (cases "ts_field n ''parameters''")
  case (Some params)
  with assms(1) have "fold_opt (py_collect_param env cls i) (ts_children params) d = Some d'"
    by (simp add: py_collect_params_def)
  then show ?thesis
  proof (rule fold_opt_rel)
    show "\<And>u v w. level True nm u v \<Longrightarrow> level True nm v w \<Longrightarrow> level True nm u w" by (rule level_trans)
    fix x u v assume "level True nm d u" "py_collect_param env cls i x u = Some v"
    then show "level True nm u v" using level_py_collect_param level_known assms(2) by metis
  qed simp
qed (use assms in \<open>simp add: py_collect_params_def\<close>)

section \<open>The walk\<close>

lemma bind_Some: "Option.bind (Some x) f = f x"
  by simp

text \<open>The names of a tree that can be minted: those of definitions, of assigned variables and of aliases.\<close>

definition py_names_ok :: "(string \<Rightarrow> bool) \<Rightarrow> bytes \<Rightarrow> ts_node \<Rightarrow> bool" where
  "py_names_ok nm src n \<longleftrightarrow>
     (\<forall>m \<in> set (ts_subtrees n).
        pred_option nm (ts_field_text src m ''name'')
        \<and> (ts_kind m = ''assignment''
           \<and> (map_option ts_kind (ts_field m ''left'') = Some ''identifier'' \<or> is_pep613_type_alias src m)
             \<longrightarrow> pred_option nm (ts_field_text src m ''left''))
        \<and> (ts_kind m = ''type_alias_statement''
             \<longrightarrow> list_all (\<lambda>k. pred_option nm (ts_text src k)) (ts_children m)))"

lemma py_names_child: "py_names_ok nm src n \<Longrightarrow> c \<in> set (ts_children n) \<Longrightarrow> py_names_ok nm src c"
  using ts_subtrees_child unfolding py_names_ok_def by blast

lemma py_names_name: "py_names_ok nm src n \<Longrightarrow> ts_field_text src n ''name'' = Some t \<Longrightarrow> nm t"
  using ts_subtrees_self unfolding py_names_ok_def by fastforce

lemma py_names_alias:
  "py_names_ok nm src n \<Longrightarrow> is_pep613_type_alias src n \<Longrightarrow> ts_field_text src n ''left'' = Some t \<Longrightarrow> nm t"
  using ts_subtrees_self [of n] unfolding py_names_ok_def by (fastforce simp: is_pep613_type_alias_def)

lemma py_names_statement:
  "py_names_ok nm src n \<Longrightarrow> ts_kind n = ''type_alias_statement'' \<Longrightarrow> k \<in> set (ts_children n) \<Longrightarrow>
     ts_text src k = Some t \<Longrightarrow> nm t"
  using ts_subtrees_self [of n] unfolding py_names_ok_def by (fastforce simp: list_all_iff)

lemma in_map_filter: "y \<in> set (List.map_filter f xs) \<Longrightarrow> \<exists>x \<in> set xs. f x = Some y"
  by (induction xs) (auto split: option.splits)

lemma variant_names:
  assumes "py_names_ok nm src n" "v \<in> set (extract_enum_variants src n)"
  shows "nm (fst v)"
proof -
  obtain b s where b: "ts_field n ''body'' = Some b" "s \<in> set (ts_named_children b)" "enum_variant_of src s = Some v"
    using assms(2) in_map_filter [of v "enum_variant_of src"]
    by (cases "ts_field n ''body''") (auto simp: extract_enum_variants_def, blast)
  note names = py_names_child [OF py_names_child [OF assms(1) ts_field_child [OF b(1)]] ts_named_child [OF b(2)]]
  obtain a l where a: "variant_assignment s = Some a" "ts_field a ''left'' = Some l" "ts_kind l = ''identifier''"
      "ts_text src l = Some (fst v)"
    using b(3) by (auto simp: enum_variant_of_def split: option.splits if_splits)
  have "a = s \<or> a \<in> set (ts_children s)" "ts_kind a = ''assignment''"
    using a(1) by (auto simp: variant_assignment_def ts_first_named_def split: if_splits option.splits dest!: find_in)
  then have "py_names_ok nm src a" using names py_names_child by blast
  then show ?thesis
    using a ts_subtrees_self [of a] \<open>ts_kind a = ''assignment''\<close> unfolding py_names_ok_def
    by (fastforce simp: ts_field_text_def)
qed

lemma enter_class_effect:
  assumes enter: "enter_class env n name cur cls c = Some (i, c')" and kind: "ts_kind n = ''class_definition''"
    and "nm name" "py_names_ok nm (dr_src (pc_d c)) n" "dr_file_id (pc_d c) \<in> known (pc_d c)"
  shows "\<exists>ps d. level True nm (pc_d c) d \<and> level True nm (push_type_parameters ps d) (pc_d c') \<and> i \<in> known (pc_d c')"
proof -
  let ?d = "push_export name cur cls (pc_d c)"
  have e: "level True nm (pc_d c) ?d" by (rule level_push_export)
  have src: "dr_src ?d = dr_src (pc_d c)" by (rule level_src [OF e])
  obtain is_enum where en: "is_enum_class env (pc_class c) (dr_src ?d) n = Some is_enum"
    using enter unfolding enter_class_def Let_def by (cases "is_enum_class env (pc_class c) (dr_src ?d) n") simp_all
  obtain ps where ps: "collect_pep695_type_parameters (dr_src ?d) n = Some ps"
    using enter unfolding enter_class_def Let_def en bind_Some
    by (cases "collect_pep695_type_parameters (dr_src ?d) n") simp_all
  let ?p = "push_type_parameters ps ?d"
  let ?kind = "if is_enum then ''enum'' else ''class''"
  have pair: "(if is_enum then (''type'', ''enum'') else case py_def_kind n of Some pk \<Rightarrow> pk | None \<Rightarrow> (''type'', ''class''))
      = (''type'', ?kind)" by (simp add: py_def_kind_def kind)
  obtain j d1 where add: "add_def ''type'' ?kind name n (dr_file_id ?p) None ?p = (j, d1)" by fastforce
  have "dr_file_id ?p \<in> known ?p"
    using level_known [OF e assms(5)] level_file [OF e] by (simp add: push_type_parameters_def known_def)
  then have d1: "level True nm ?p d1" "j \<in> known d1"
    using level_add_def [OF add] assms(3) by (simp_all add: kind_prefix_def split: if_splits)
  obtain is_abstract where ab: "is_abstract_class env (pc_class c) (dr_src ?d) n = Some is_abstract"
    using enter unfolding enter_class_def Let_def en ps bind_Some pair prod.case add
    by (cases "is_abstract_class env (pc_class c) (dr_src ?d) n") simp_all
  let ?a = "if is_abstract then mark_abstract j d1 else d1"
  let ?l = "register_local_type (py_base_type_name name) ?a"
  have l: "level True nm d1 ?l"
    by (rule level_trans [OF _ level_register_local_type]) (simp add: level_mark_abstract)
  let ?v = "if is_enum then fold (py_add_variant j name) (extract_enum_variants (dr_src ?d) n) ?l else ?l"
  have v: "level True nm ?l ?v"
    using level_known [OF l d1(2)] assms(3) variant_names [OF assms(4)]
    by (auto simp: src intro!: level_fold level_py_add_variant)
  note lv = level_trans [OF d1(1) level_trans [OF l v]]
  have j: "j \<in> known ?v" by (rule level_known [OF v level_known [OF l d1(2)]])
  obtain d' where d': "py_emit_type_edges env (Some name) j n ?v = Some d'" "i = j" "c' = c\<lparr>pc_d := d', pc_class := Some name\<rparr>"
    using enter unfolding enter_class_def Let_def en ps bind_Some pair prod.case add ab by auto
  note ed = level_py_emit_type_edges [OF d'(1) j]
  have "level True nm ?p (pc_d c')" using level_trans [OF lv ed] by (simp add: d'(3))
  moreover have "i \<in> known (pc_d c')" using level_known [OF ed j] by (simp add: d'(2,3))
  ultimately show ?thesis using e by blast
qed

lemma py_enter_function_effect:
  assumes enter: "py_enter_function env par n name cur cls c = Some (i, c')" and kind: "ts_kind n = ''function_definition''"
    and "nm name" "pred_option (\<lambda>k. fst k \<in> known (pc_d c) \<and> nm (snd k)) cls" "dr_file_id (pc_d c) \<in> known (pc_d c)"
  shows "\<exists>ps d ds. level True nm (pc_d c) d \<and> level True nm (push_type_parameters ps d) ds
    \<and> level True nm (scope_push ds) (pc_d c') \<and> i \<in> known (pc_d c')"
proof -
  let ?d = "push_export name cur cls (pc_d c)"
  have e: "level True nm (pc_d c) ?d" by (rule level_push_export)
  let ?container = "\<lambda>d. case cls of Some (i, _) \<Rightarrow> i | None \<Rightarrow> dr_file_id d"
  have fk: "(case py_def_kind n of Some pk \<Rightarrow> pk | None \<Rightarrow> (''fn'', ''function'')) = (''fn'', ''function'')"
    by (simp add: py_def_kind_def kind)
  obtain ps where ps: "collect_pep695_type_parameters (dr_src ?d) n = Some ps"
    using enter unfolding py_enter_function_def Let_def
    by (cases "collect_pep695_type_parameters (dr_src ?d) n") simp_all
  let ?p = "push_type_parameters ps ?d"
  obtain j d1 where add: "add_def ''fn'' ''function'' name n (?container ?p) (map_option snd cls) ?p = (j, d1)" by fastforce
  have known_p: "k \<in> known ?p" if "k \<in> known (pc_d c)" for k
    using level_known [OF e that] by (simp add: push_type_parameters_def known_def)
  have "dr_file_id ?p = dr_file_id (pc_d c)" using level_file [OF e] by (simp add: push_type_parameters_def)
  then have "?container ?p \<in> known ?p"
    using assms(4,5) known_p by (auto split: option.split)
  moreover have "pred_option nm (map_option snd cls)" using assms(4) by (cases cls) auto
  ultimately have d1: "level True nm ?p d1" "j \<in> known d1"
    using level_add_def [OF add] assms(3) by (simp_all add: kind_prefix_def)
  let ?a = "if cls \<noteq> None \<and> is_abstract_method (dr_src ?d) par n then mark_abstract j d1 else d1"
  have a: "level True nm d1 ?a" by (simp add: level_mark_abstract)
  note b = level_trans [OF a level_py_emit_bounds [OF level_known [OF a d1(2)]]]
  obtain d2 where d2: "py_emit_returns env (pc_class c) j name n (py_emit_bounds env j n c ?a) = Some d2"
    using enter unfolding py_enter_function_def Let_def ps bind_Some fk prod.case add
    by (cases "py_emit_returns env (pc_class c) j name n (py_emit_bounds env j n c ?a)") simp_all
  obtain d3 where d3: "py_collect_params env (pc_class c) j n (scope_push d2) = Some d3" "i = j" "c' = c\<lparr>pc_d := d3\<rparr>"
    using enter unfolding py_enter_function_def Let_def ps bind_Some fk prod.case add d2 by auto
  note r = level_trans [OF b level_py_emit_returns [OF d2 level_known [OF b d1(2)]]]
  have j: "j \<in> known (scope_push d2)" using level_known [OF r d1(2)] by (simp add: known_def scope_push_def)
  note s = level_py_collect_params [OF d3(1) j]
  have "level True nm ?p d2" by (rule level_trans [OF d1(1) r])
  moreover have "level True nm (scope_push d2) (pc_d c')" using s by (simp add: d3(3))
  moreover have "i \<in> known (pc_d c')" using level_known [OF s j] by (simp add: d3(2,3))
  ultimately show ?thesis using e by blast
qed

lemma declare_typevar_effect:
  assumes "declare_typevar env n c = Some c'"
  shows "py_level nm (pc_d c) (pc_d c')"
proof -
  let ?name = "if is_typevar_declaration (dr_src (pc_d c)) n then extract_typevar_name (dr_src (pc_d c)) n else None"
  have "pc_d c' = pc_d c" if "?name = None"
    using assms that unfolding declare_typevar_def Let_def by (simp add: option.case_eq_if)
  moreover have "pc_d c' = insert_type_parameter name (pc_d c)" if "?name = Some name" for name
    using assms unfolding declare_typevar_def Let_def that option.case
    by (auto split: option.splits if_splits)
  ultimately show ?thesis using py_level_declare by (cases ?name) auto
qed

lemma level_add_alias:
  assumes "nm name" "dr_file_id d \<in> known d"
  shows "level rl nm d (add_alias name n d)"
proof -
  obtain i d' where add: "add_def ''type_alias'' ''type_alias'' name n (dr_file_id d) None d = (i, d')" by fastforce
  from level_add_def(1) [OF add assms(2)] assms(1) show ?thesis by (simp add: add_alias_def add kind_prefix_def)
qed

lemma level_close_assignment:
  assumes "py_names_ok nm (dr_src d) n" "dr_file_id d \<in> known d"
  shows "level rl nm d (close_assignment n binding d)"
proof -
  let ?by_alias = "if is_pep613_type_alias (dr_src d) n then ts_field_text (dr_src d) n ''left'' else None"
  let ?a = "case ?by_alias of None \<Rightarrow> d | Some name \<Rightarrow> add_alias name n d"
  have a: "level rl nm d ?a"
  proof (cases ?by_alias)
    case (Some name)
    then have "nm name" using py_names_alias [OF assms(1)] by (auto split: if_splits)
    then show ?thesis unfolding Some option.case using assms(2) by (rule level_add_alias)
  qed simp
  have "level rl nm ?a (case binding of None \<Rightarrow> ?a | Some (var, ty) \<Rightarrow> scope_insert var ty ?a)"
    by (auto split: option.split intro: level_scope_insert)
  from level_trans [OF a this] show ?thesis by (simp only: close_assignment_def Let_def)
qed

lemma level_py_visit:
  assumes "py_names_ok nm (dr_src d) n" "dr_file_id d \<in> known d" "pred_option (\<lambda>f. fst f \<in> known d) cur"
  shows "level True nm d (py_visit env n cur cls d)"
proof -
  have al: "level True nm d (visit_alias n cur cls d)" if "ts_kind n = ''type_alias_statement''"
  proof -
    have "nm name" if "k \<in> set (ts_children n)" "ts_text (dr_src d) k = Some name" for k name
      using py_names_statement [OF assms(1) \<open>ts_kind n = ''type_alias_statement''\<close> that] .
    note name = this
    show ?thesis
    proof (cases "\<exists>k m ks t. ts_children n = k # m # ks \<and> ts_text (dr_src d) m = Some t")
      case True
      then obtain k m ks t where m: "ts_children n = k # m # ks" "ts_text (dr_src d) m = Some t" by blast
      have "nm t" by (rule name [OF _ m(2)]) (simp add: m(1))
      from level_trans [OF level_add_alias [where nm = nm, OF this assms(2)] level_push_export] m show ?thesis
        by (simp add: visit_alias_def)
    next
      case False
      then have "visit_alias n cur cls d = d" by (auto simp: visit_alias_def split: list.split option.split)
      then show ?thesis by simp
    qed
  qed
  have call: "level True nm d (py_visit_call env n cur cls d)"
    using assms(3) unfolding py_visit_call_def
    by (auto split: option.splits prod.splits simp: Let_def intro: level_emit_call)
  have imp: "level True nm d (py_visit_import n d)"
  proof -
    have "level True nm d (fold (\<lambda>name. emit_import (target_ref_new name)) names d)" for names
      using assms(2)
    proof (induction names arbitrary: d)
      case (Cons name names)
      note a = level_emit_import [OF Cons.prems, of True nm "target_ref_new name"]
      show ?case using level_trans [OF a Cons.IH] level_known [OF a Cons.prems] level_file [OF a] by simp
    qed simp
    then show ?thesis by (simp add: py_visit_import_def)
  qed
  show ?thesis unfolding py_visit_def using al call imp by simp
qed

theorem py_walk_steps:
  assumes "py_walk env par n cur cls c = Some c'" "py_names_ok nm (dr_src (pc_d c)) n"
    and "dr_file_id (pc_d c) \<in> known (pc_d c)" "pred_option (\<lambda>f. fst f \<in> known (pc_d c)) cur"
    and "pred_option (\<lambda>k. fst k \<in> known (pc_d c) \<and> nm (snd k)) cls"
  shows "py_level nm (pc_d c) (pc_d c')"
  using assms
proof (induction n arbitrary: par cur cls c c' rule: measure_induct_rule [where f = size])
  case (less n)
  let ?src = "dr_src (pc_d c)"
  have kids: "py_level nm (pc_d c1) (pc_d c2)"
    if run: "fold_opt (\<lambda>child. py_walk env (decorated_parent n) child cur' cls') (ts_children n) c1 = Some c2"
      and same: "dr_src (pc_d c1) = ?src" "dr_file_id (pc_d c1) \<in> known (pc_d c1)"
      and cur': "pred_option (\<lambda>f. fst f \<in> known (pc_d c1)) cur'"
      and cls': "pred_option (\<lambda>k. fst k \<in> known (pc_d c1) \<and> nm (snd k)) cls'" for c1 c2 cur' cls'
    using run
  proof (rule fold_opt_rel [where R = "\<lambda>c c'. py_level nm (pc_d c) (pc_d c')"])
    fix child u v
    assume child: "child \<in> set (ts_children n)" "py_level nm (pc_d c1) (pc_d u)"
      "py_walk env (decorated_parent n) child cur' cls' u = Some v"
    have "py_names_ok nm (dr_src (pc_d u)) child"
      using py_names_child [OF less.prems(2) child(1)] py_level_same [OF child(2)] same(1) by simp
    moreover have "dr_file_id (pc_d u) \<in> known (pc_d u)"
      using py_level_known [OF child(2) same(2)] py_level_same [OF child(2)] by simp
    moreover have "pred_option (\<lambda>f. fst f \<in> known (pc_d u)) cur'"
      "pred_option (\<lambda>k. fst k \<in> known (pc_d u) \<and> nm (snd k)) cls'"
      using cur' cls' py_level_known [OF child(2)] by (auto simp: pred_option_def)
    ultimately show "py_level nm (pc_d u) (pc_d v)"
      by (rule less.IH [OF ts_child_size [OF child(1)] child(3)])
  next
    show "\<And>u v w. py_level nm (pc_d u) (pc_d v) \<Longrightarrow> py_level nm (pc_d v) (pc_d w) \<Longrightarrow> py_level nm (pc_d u) (pc_d w)"
      by (rule py_level_trans)
  qed simp
  consider (class_item) name where "ts_kind n = ''class_definition''" "ts_field_text ?src n ''name'' = Some name"
    | (fun_item) name where "ts_kind n = ''function_definition''" "ts_field_text ?src n ''name'' = Some name"
    | (assign) "ts_kind n = ''assignment''"
    | (other_item) "\<not> (ts_kind n = ''class_definition'' \<and> ts_field_text ?src n ''name'' \<noteq> None)"
        "\<not> (ts_kind n = ''function_definition'' \<and> ts_field_text ?src n ''name'' \<noteq> None)" "ts_kind n \<noteq> ''assignment''"
    by fast
  then show ?case
  proof cases
    case class_item
    obtain i c1 c2 where enter: "enter_class env n name cur cls c = Some (i, c1)"
        and run: "fold_opt (\<lambda>child. py_walk env (decorated_parent n) child cur (Some (i, name))) (ts_children n) c1 = Some c2"
        and c': "c' = (on_pd pop_type_parameters c2)\<lparr>pc_class := None\<rparr>"
      using less.prems(1) by (auto simp: py_walk.simps [of env par n] class_item Let_def bind_eq_Some_conv)
    note name = py_names_name [OF less.prems(2) class_item(2)]
    obtain ps d where eff: "level True nm (pc_d c) d" "level True nm (push_type_parameters ps d) (pc_d c1)"
        "i \<in> known (pc_d c1)"
      using enter_class_effect [OF enter class_item(1) name less.prems(2,3)] by blast
    have same: "known (push_type_parameters ps d) = known d" "dr_src (push_type_parameters ps d) = dr_src d"
        "dr_file_id (push_type_parameters ps d) = dr_file_id d"
      by (simp_all add: known_def push_type_parameters_def)
    have k: "x \<in> known (pc_d c1)" if "x \<in> known (pc_d c)" for x
      using level_known [OF eff(2)] level_known [OF eff(1) that] by (simp add: same)
    have "py_level nm (pc_d c1) (pc_d c2)"
    proof (rule kids [OF run])
      show "dr_src (pc_d c1) = ?src" using level_src [OF eff(1)] level_src [OF eff(2)] by (simp add: same)
      show "dr_file_id (pc_d c1) \<in> known (pc_d c1)"
        using k [OF less.prems(3)] level_file [OF eff(1)] level_file [OF eff(2)] by (simp add: same)
      show "pred_option (\<lambda>f. fst f \<in> known (pc_d c1)) cur" using less.prems(4) k by (auto simp: pred_option_def)
      show "pred_option (\<lambda>k. fst k \<in> known (pc_d c1) \<and> nm (snd k)) (Some (i, name))" using eff(3) name by simp
    qed
    from py_level_params [OF py_level_trans [OF py_level_of [OF eff(2)] this]] eff(1)
    show ?thesis by (simp add: c' py_level_of level_trans)
  next
    case fun_item
    obtain i c1 c2 where enter: "py_enter_function env par n name cur cls c = Some (i, c1)"
        and run: "fold_opt (\<lambda>child. py_walk env (decorated_parent n) child (Some (i, name)) cls) (ts_children n) c1 = Some c2"
        and c': "c' = on_pd (\<lambda>d. pop_type_parameters (scope_pop d)) c2"
      using less.prems(1) by (auto simp: py_walk.simps [of env par n] fun_item Let_def bind_eq_Some_conv)
    note name = py_names_name [OF less.prems(2) fun_item(2)]
    obtain ps d ds where eff: "level True nm (pc_d c) d" "level True nm (push_type_parameters ps d) ds"
        "level True nm (scope_push ds) (pc_d c1)" "i \<in> known (pc_d c1)"
      using py_enter_function_effect [OF enter fun_item(1) name less.prems(5,3)] by blast
    have same: "known (push_type_parameters ps d) = known d" "dr_src (push_type_parameters ps d) = dr_src d"
        "dr_file_id (push_type_parameters ps d) = dr_file_id d"
        "known (scope_push ds) = known ds" "dr_src (scope_push ds) = dr_src ds"
        "dr_file_id (scope_push ds) = dr_file_id ds"
      by (simp_all add: known_def push_type_parameters_def scope_push_def)
    have k: "x \<in> known (pc_d c1)" if "x \<in> known (pc_d c)" for x
      using level_known [OF eff(3)] level_known [OF eff(2)] level_known [OF eff(1) that] by (simp add: same)
    have "py_level nm (pc_d c1) (pc_d c2)"
    proof (rule kids [OF run])
      show "dr_src (pc_d c1) = ?src"
        using level_src [OF eff(1)] level_src [OF eff(2)] level_src [OF eff(3)] by (simp add: same)
      show "dr_file_id (pc_d c1) \<in> known (pc_d c1)"
        using k [OF less.prems(3)] level_file [OF eff(1)] level_file [OF eff(2)] level_file [OF eff(3)]
        by (simp add: same)
      show "pred_option (\<lambda>f. fst f \<in> known (pc_d c1)) (Some (i, name))" using eff(4) by simp
      show "pred_option (\<lambda>k. fst k \<in> known (pc_d c1) \<and> nm (snd k)) cls"
        using less.prems(5) k by (auto simp: pred_option_def)
    qed
    from py_level_scope [OF py_level_trans [OF py_level_of [OF eff(3)] this]]
    have "py_level nm (push_type_parameters ps d) (scope_pop (pc_d c2))"
      by (rule py_level_trans [OF py_level_of [OF eff(2)]])
    from py_level_params [OF this] eff(1) show ?thesis by (simp add: c' py_level_of level_trans)
  next
    case assign
    obtain c1 binding c2 where declared: "declare_typevar env n c = Some c1"
        and run: "fold_opt (\<lambda>child. py_walk env (decorated_parent n) child cur cls) (ts_children n) c1 = Some c2"
        and c': "c' = on_pd (close_assignment n binding) c2"
      using less.prems(1) by (auto simp: py_walk.simps [of env par n] assign Let_def bind_eq_Some_conv)
    have a: "py_level nm (pc_d c) (pc_d c1)" by (rule declare_typevar_effect [OF declared])
    note same = py_level_same [OF a] and k = py_level_known [OF a]
    have "py_level nm (pc_d c1) (pc_d c2)"
      using same k less.prems(3-5) by (intro kids [OF run]) (auto simp: pred_option_def)
    note b = py_level_trans [OF a this]
    have "level True nm (pc_d c2) (close_assignment n binding (pc_d c2))"
      using py_level_same [OF b] py_level_known [OF b less.prems(3)] less.prems(2)
      by (intro level_close_assignment) simp_all
    then show ?thesis by (simp add: c' py_level_trans [OF b] py_level_of)
  next
    case other_item
    let ?c = "on_pd (py_visit env n cur cls) c"
    have a: "py_level nm (pc_d c) (pc_d ?c)"
      using level_py_visit [OF less.prems(2,3,4)] by (simp add: py_level_of)
    have run: "fold_opt (\<lambda>child. py_walk env (decorated_parent n) child cur cls) (ts_children n) ?c = Some c'"
      using less.prems(1) unfolding py_walk.simps [of env par n] Let_def using other_item by (simp only: if_False)
    have "py_level nm (pc_d ?c) (pc_d c')"
    proof (rule kids [OF run])
      show "dr_src (pc_d ?c) = ?src" using py_level_same [OF a] by simp
      show "dr_file_id (pc_d ?c) \<in> known (pc_d ?c)"
        using py_level_known [OF a less.prems(3)] py_level_same [OF a] by simp
      show "pred_option (\<lambda>f. fst f \<in> known (pc_d ?c)) cur"
        using less.prems(4) py_level_known [OF a] unfolding pred_option_def by blast
      show "pred_option (\<lambda>k. fst k \<in> known (pc_d ?c) \<and> nm (snd k)) cls"
        using less.prems(5) py_level_known [OF a] unfolding pred_option_def by blast
    qed
    with a show ?thesis by (rule py_level_trans)
  qed
qed

end
