(* ===== verification/Python_Props.thy ===== *)
theory Python_Props
  imports Python_Steps Driver_Props
begin

text \<open>
  What every extraction of a Python file satisfies, and when there is one: the extractor panics only on a
  forward reference with misplaced brackets or a lone quote.
\<close>

section \<open>Every extraction\<close>

lemma py_extract_steps:
  assumes "py_extract env a src = Some (Inr x)" "px_parse env src = Some tree" "py_names_ok nm src tree"
  shows "\<exists>d :: string driver. dr_steps True nm (driver_new a src ''python'') d \<and> x = driver_finish d"
proof -
  let ?c = "on_pd (push_type_parameters (module_typevars src tree)) (py_ctx_new a src)"
  let ?d = "driver_new a src ''python'' :: string driver"
  obtain c where run: "py_run env a src tree = Some c" and x: "x = driver_finish (pc_d c)"
    using assms(1,2) by (auto simp: py_extract_def split: option.splits)
  have d: "pc_d ?c = push_type_parameters (module_typevars src tree) ?d"
    and src: "dr_src (pc_d (py_ctx_new a src)) = src"
    by (simp_all add: py_ctx_new_def driver_new_def Let_def)
  have "py_level nm (pc_d ?c) (pc_d c)"
  proof (rule py_walk_steps [OF run [unfolded py_run_def]])
    show "py_names_ok nm (dr_src (pc_d ?c)) tree"
      using assms(3) by (simp add: src push_type_parameters_def)
    show "dr_file_id (pc_d ?c) \<in> known (pc_d ?c)"
      by (simp add: push_type_parameters_def known_def py_ctx_new_def driver_new_def Let_def node_new_def)
  qed simp_all
  moreover have "dr_step True nm ?d (push_type_parameters (module_typevars src tree) ?d)"
    using bookkeeping [of True nm ?d "dr_tps ?d \<union> module_typevars src tree" "module_typevars src tree # dr_tp_stack ?d"
        "dr_local_types ?d" "dr_scopes ?d" "dr_exports ?d"]
    by (cases ?d) (simp add: push_type_parameters_def)
  then have "dr_step True nm ?d (pc_d ?c)" unfolding d .
  ultimately have "dr_steps True nm ?d (pc_d c)"
    unfolding py_level_def by (meson converse_rtranclp_into_rtranclp)
  with x show ?thesis by blast
qed

lemma any_names: "py_names_ok (\<lambda>_. True) src n"
proof -
  have "pred_option (\<lambda>_. True) y" for y :: "string option" by (cases y) simp_all
  then show ?thesis by (simp add: py_names_ok_def list.pred_True)
qed

lemma py_parsed: "py_extract env a src = Some (Inr x) \<Longrightarrow> \<exists>tree. px_parse env src = Some tree"
  by (auto simp: py_extract_def split: option.splits)

text \<open>C12. In what the Python extractor returns for any parse tree, the first node is the file's, every edge starts
  at a node, only \<open>contains\<close> and \<open>has_variant\<close> edges point at nodes, and these are one per definition, in the
  order of the definitions.\<close>

theorem python_extraction_wired:
  assumes "py_extract env a src = Some (Inr x)"
  shows "wired_parts (NodeId (''file:'' @ a_path a)) (x_nodes x) (x_edges x)"
proof -
  obtain tree where tree: "px_parse env src = Some tree" using py_parsed [OF assms] by blast
  obtain d :: "string driver" where "dr_steps True (\<lambda>_. True) (driver_new a src ''python'') d" "x = driver_finish d"
    using py_extract_steps [OF assms tree any_names] by blast
  then show ?thesis using wired_end by blast
qed

text \<open>If the names that a Python file defines, assigns or aliases contain neither \<open>#\<close> nor \<open>~\<close>, and there are at
  most \<open>2 ^ 32\<close> nodes, the ids of its extraction are distinct.\<close>

theorem python_ids_distinct:
  assumes "py_extract env a src = Some (Inr x)" "px_parse env src = Some tree" "py_names_ok clean src tree"
    and "length (x_nodes x) \<le> 2 ^ 32"
  shows "distinct (map n_id (x_nodes x))"
proof -
  obtain d :: "string driver" where d: "dr_steps True clean (driver_new a src ''python'') d" "x = driver_finish d"
    using py_extract_steps [OF assms(1-3)] by blast
  from distinct_ids_end [OF d(1)] assms(4) show ?thesis by (simp add: d(2))
qed

section \<open>When it panics\<close>

definition calm_text :: "string \<Rightarrow> bool" where
  "calm_text t \<longleftrightarrow> length (trim t) \<noteq> 1 \<and> CHR '']'' \<notin> set t"

definition calm_node :: "bytes \<Rightarrow> ts_node \<Rightarrow> bool" where
  "calm_node src m \<longleftrightarrow>
     (ts_kind m = ''string'' \<longrightarrow> pred_option calm_text (ts_text src m))
     \<and> (ts_kind m = ''class_definition'' \<or> ts_kind m = ''function_definition''
          \<longrightarrow> pred_option (\<lambda>t. CHR '']'' \<notin> set t) (ts_field_text src m ''name''))"

definition calm :: "bytes \<Rightarrow> ts_node \<Rightarrow> bool" where
  "calm src n \<longleftrightarrow> list_all (calm_node src) (ts_subtrees n)"

lemma calm_child: "calm src n \<Longrightarrow> c \<in> set (ts_children n) \<Longrightarrow> calm src c"
  using ts_subtrees_child unfolding calm_def list_all_iff by blast

lemma calm_at: "calm src n \<Longrightarrow> calm_node src n"
  using ts_subtrees_self unfolding calm_def list_all_iff by blast

lemma calm_named: "calm src n \<Longrightarrow> c \<in> set (ts_named_children n) \<Longrightarrow> calm src c"
  by (rule calm_child [OF _ ts_named_child])

lemma calm_field: "calm src n \<Longrightarrow> ts_field n f = Some c \<Longrightarrow> calm src c"
  by (rule calm_child [OF _ ts_field_child])

lemma calm_first: "calm src n \<Longrightarrow> ts_first_named n = Some c \<Longrightarrow> calm src c"
  by (auto simp: ts_first_named_def dest!: find_in intro: calm_child)

lemmas calm_down = calm_child calm_named calm_field calm_first

lemma trim_subset: "set (trim s) \<subseteq> set s"
  unfolding trim_def trim_start_def trim_end_def by (metis set_dropWhileD set_rev subsetI)

lemma py_forward_returns: "calm_text t \<Longrightarrow> py_forward env t \<noteq> None"
proof -
  assume calm: "calm_text t"
  show ?thesis
  proof (cases "quoted (trim t)")
    case True
    then have "trim t \<noteq> []" by (auto simp: quoted_def starts_with_def)
    with calm obtain s where s: "str_slice (trim t) 1 (length (trim t) - 1) = Some s"
      by (cases "trim t") (auto simp: calm_text_def str_slice_def Suc_le_eq)
    then have "set s \<subseteq> set t" using trim_subset [of t] set_take_subset set_drop_subset
      by (fastforce simp: str_slice_def split: if_splits)
    then have "CHR '']'' \<notin> set (trim s)" using calm trim_subset [of s] by (auto simp: calm_text_def)
    then have none: "rfind_char CHR '']'' (trim s) = None" by simp
    have "between_brackets (trim s) = Some None"
      unfolding between_brackets_def none by (simp split: option.split)
    then show ?thesis unfolding py_forward.simps [of env t] s option.case by (simp split: option.split)
  qed (simp add: py_forward.simps [of env t])
qed

lemma py_type_name_returns: "calm src n \<Longrightarrow> py_type_name env cls src n \<noteq> None"
proof (induction n rule: measure_induct_rule [where f = size])
  case (less n)
  have "py_forward env t \<noteq> None" if "ts_kind n = ''string''" "ts_text src n = Some t" for t
    using calm_at [OF less.prems] that by (intro py_forward_returns) (simp add: calm_node_def)
  then show ?case
    using less.IH calm_down [OF less.prems]
    by (auto simp: py_type_name.simps [of env cls src n] ts_first_named_size ts_field_size split: option.split)
qed

lemma concat_opt_returns: "(\<And>x. x \<in> set xs \<Longrightarrow> f x \<noteq> None) \<Longrightarrow> concat_opt f xs \<noteq> None"
proof (induction xs)
  case (Cons x xs)
  obtain y where "f x = Some y" using Cons.prems [of x] by auto
  with Cons show ?case by simp
qed simp

lemma any_opt_returns: "(\<And>x. x \<in> set xs \<Longrightarrow> f x \<noteq> None) \<Longrightarrow> any_opt f xs \<noteq> None"
proof (induction xs)
  case (Cons x xs)
  obtain y where "f x = Some y" using Cons.prems [of x] by auto
  with Cons show ?case by (cases y) simp_all
qed simp

lemma first_opt_returns: "(\<And>x. x \<in> set xs \<Longrightarrow> f x \<noteq> None) \<Longrightarrow> first_opt f xs \<noteq> None"
proof (induction xs)
  case (Cons x xs)
  obtain y where "f x = Some y" using Cons.prems [of x] by auto
  with Cons show ?case by simp
qed simp

lemma py_targets_returns: "calm src n \<Longrightarrow> py_targets env cls src n \<noteq> None"
proof (induction n rule: measure_induct_rule [where f = size])
  case (less n)
  have str: "py_forward env t \<noteq> None" if "ts_kind n = ''string''" "ts_text src n = Some t" for t
    using calm_at [OF less.prems] that by (intro py_forward_returns) (simp add: calm_node_def)
  have kid: "py_targets env cls src c \<noteq> None" if "c \<in> set (ts_named_children n)" for c
    using less.IH [OF ts_named_size [OF that] calm_named [OF less.prems that]] .
  have grand: "py_targets env cls src p \<noteq> None"
    if "c \<in> set (ts_named_children n)" "p \<in> set (ts_named_children c)" for c p
    using less.IH [OF less_trans [OF ts_named_size [OF that(2)] ts_named_size [OF that(1)]]]
      calm_named [OF calm_named [OF less.prems that(1)] that(2)] by simp
  have "concat_opt (py_targets env cls src) (ts_named_children n) \<noteq> None"
    by (intro concat_opt_returns kid)
  moreover have "concat_opt (\<lambda>c.
             if ts_kind c = ''identifier'' \<or> ts_kind c = ''attribute'' then py_targets env cls src c
             else if ts_kind c = ''type_parameter''
             then concat_opt (py_targets env cls src) (ts_named_children c)
             else Some []) (ts_named_children n) \<noteq> None"
    by (intro concat_opt_returns) (simp add: kid concat_opt_returns grand del: not_None_eq)
  moreover have "py_type_name env cls src n \<noteq> None" by (rule py_type_name_returns [OF less.prems])
  ultimately show ?case
    using str by (simp add: py_targets.simps [of env cls src n] del: not_None_eq split: option.split)
qed

text \<open>Every operation that looks at annotations.\<close>

lemma bind_returns: "m \<noteq> None \<Longrightarrow> (\<And>x. m = Some x \<Longrightarrow> f x \<noteq> None) \<Longrightarrow> Option.bind m f \<noteq> None"
  by (cases m) simp_all

lemma map_returns: "m \<noteq> None \<Longrightarrow> map_option f m \<noteq> None"
  by (cases m) simp_all

lemma calm_bases: "calm src n \<Longrightarrow> b \<in> set (py_bases n) \<Longrightarrow> calm src b"
  by (cases "ts_field n ''superclasses''") (auto simp: py_bases_def intro: calm_down)

lemma is_enum_returns: "calm src n \<Longrightarrow> is_enum_class env cls src n \<noteq> None"
  unfolding is_enum_class_def by (intro any_opt_returns map_returns py_type_name_returns) (rule calm_bases)

lemma is_abstract_returns:
  assumes "calm src n"
  shows "is_abstract_class env cls src n \<noteq> None"
  unfolding is_abstract_class_def
proof (rule any_opt_returns)
  fix b assume "b \<in> set (py_bases n)"
  then have b: "calm src b" by (rule calm_bases [OF assms])
  have "calm src t" if "abstract_base src b = Some t" for t
    using that b calm_field [OF b] by (auto simp: abstract_base_def split: if_splits)
  then show "(case abstract_base src b of None \<Rightarrow> Some False
      | Some t \<Rightarrow> map_option (named_in [''ABC'', ''ABCMeta'', ''Protocol'']) (py_type_name env cls src t)) \<noteq> None"
    using map_returns [OF py_type_name_returns] by (simp del: not_None_eq split: option.split)
qed

lemma typevar_bound_returns:
  assumes "calm src n"
  shows "extract_typevar_bound env cls src n \<noteq> None"
proof (cases "is_typevar_call src n \<and> ts_field n ''arguments'' \<noteq> None")
  case True
  then obtain args where args: "is_typevar_call src n" "ts_field n ''arguments'' = Some args" by blast
  have "py_type_name env cls src v \<noteq> None" if "arg \<in> set (ts_named_children args)" "ts_field arg ''value'' = Some v" for arg v
    by (rule py_type_name_returns [OF calm_field [OF calm_named [OF calm_field [OF assms args(2)] that(1)] that(2)]])
  then have "first_opt (\<lambda>arg.
       if ts_kind arg = ''keyword_argument'' \<and> ts_field_text src arg ''name'' = Some ''bound''
       then (case ts_field arg ''value'' of None \<Rightarrow> Some None | Some v \<Rightarrow> py_type_name env cls src v)
       else Some None) (ts_named_children args) \<noteq> None"
    by (intro first_opt_returns) (simp del: not_None_eq split: option.split)
  with args show ?thesis by (simp add: extract_typevar_bound_def)
qed (auto simp: extract_typevar_bound_def)

lemma py_heritage_returns: "calm src n \<Longrightarrow> py_heritage env cls src n \<noteq> None"
proof -
  assume "calm src n"
  then have "concat_opt (\<lambda>b. map_option (\<lambda>t. case t of None \<Rightarrow> [] | Some x \<Rightarrow> [x]) (py_type_name env cls src b)) (py_bases n) \<noteq> None"
    by (intro concat_opt_returns map_returns py_type_name_returns) (rule calm_bases)
  then show ?thesis unfolding py_heritage_def by (simp del: not_None_eq)
qed

lemma py_field_calm:
  assumes "calm src s" "py_field_of src s = Some (name, ty)"
  shows "calm src ty"
proof -
  obtain a where "ts_first_named s = Some a" "ts_field a ''type'' = Some ty"
    using assms(2) by (auto simp: py_field_of_def split: if_splits option.splits)
  then show ?thesis using calm_field [OF calm_first [OF assms(1)]] by blast
qed

lemma py_fields_returns:
  assumes "calm src n"
  shows "py_fields env cls src n \<noteq> None"
proof (cases "ts_kind n = ''class_definition'' \<and> ts_field n ''body'' \<noteq> None")
  case True
  then obtain b where b: "ts_field n ''body'' = Some b" by blast
  have "(case py_field_of src s of None \<Rightarrow> Some []
      | Some (name, ty) \<Rightarrow> map_option (map (Pair name)) (py_targets env cls src ty)) \<noteq> None"
    if "s \<in> set (ts_named_children b)" for s
    using map_returns [OF py_targets_returns [OF py_field_calm [OF calm_named [OF calm_field [OF assms b] that]]]]
    by (simp del: not_None_eq split: option.split prod.split)
  from concat_opt_returns [OF this] True b show ?thesis by (simp add: py_fields_def)
qed (auto simp: py_fields_def)

lemma parameters_return:
  assumes "calm src n"
  shows "collect_pep695_type_parameters src n \<noteq> None"
proof -
  have "bracketed_parameters src n \<noteq> None" if "ts_kind n = ''class_definition'' \<or> ts_kind n = ''function_definition''"
  proof (cases "ts_field_text src n ''name''")
    case (Some name)
    then have "CHR '']'' \<notin> set name" using calm_at [OF assms] that by (auto simp: calm_node_def)
    then have none: "find_char CHR '']'' name = None" by simp
    show ?thesis unfolding bracketed_parameters_def Some option.case none by (simp split: option.split)
  qed (simp add: bracketed_parameters_def)
  then show ?thesis by (auto simp: collect_pep695_type_parameters_def Let_def)
qed

lemma type_edges_return:
  assumes "calm (dr_src d) n" "i \<in> known d"
  shows "py_emit_type_edges env cls i n d \<noteq> None"
proof -
  have "dr_src (fold (emit_heritage i INHERITS) bases d) = dr_src d" for bases
    by (rule level_src [where rl = True and nm = "\<lambda>_. True"], rule level_fold)
      (use assms(2) in \<open>auto intro: level_emit_heritage\<close>)
  then show ?thesis
    unfolding py_emit_type_edges_def Let_def using assms(1)
    by (intro bind_returns map_returns py_heritage_returns) (simp_all add: py_fields_returns del: not_None_eq)
qed

lemma returns_return: "calm (dr_src d) n \<Longrightarrow> py_emit_returns env cls i name n d \<noteq> None"
  using map_returns [OF py_targets_returns [OF calm_field]]
  by (simp add: py_emit_returns_def del: not_None_eq split: option.split)

lemma param_returns:
  assumes "calm (dr_src d) p"
  shows "py_collect_param env cls i p d \<noteq> None"
proof -
  obtain name t where p: "py_param (dr_src d) p = (name, t)" by fastforce
  show ?thesis
  proof (cases t)
    case (Some ty_node)
    have "calm (dr_src d) ty_node"
      using p Some calm_field [OF assms] by (auto simp: py_param_def split: if_splits)
    moreover have "dr_src (case (n, ty) of (Some var, Some ty) \<Rightarrow> scope_insert var ty d | _ \<Rightarrow> d) = dr_src d" for n ty
      by (auto simp: scope_insert_def split: option.split list.split)
    ultimately show ?thesis
      unfolding py_collect_param_def p Some Let_def prod.case option.case
      by (intro bind_returns map_returns py_type_name_returns py_targets_returns) simp_all
  qed (simp add: py_collect_param_def p)
qed

lemma fold_opt_returns:
  assumes "P s" "\<And>x u. x \<in> set xs \<Longrightarrow> P u \<Longrightarrow> f x u \<noteq> None"
    and "\<And>x u v. x \<in> set xs \<Longrightarrow> P u \<Longrightarrow> f x u = Some v \<Longrightarrow> P v"
  shows "fold_opt f xs s \<noteq> None"
  using assms
proof (induction xs arbitrary: s)
  case (Cons x xs)
  obtain u where u: "f x s = Some u" using Cons.prems(2) [of x s] Cons.prems(1) by auto
  have "fold_opt f xs u \<noteq> None"
  proof (rule Cons.IH)
    show "P u" by (rule Cons.prems(3) [OF _ Cons.prems(1) u]) simp
  next
    fix y v assume "y \<in> set xs" "P v"
    then show "f y v \<noteq> None" by (intro Cons.prems(2)) simp_all
  next
    fix y v w assume "y \<in> set xs" "P v" "f y v = Some w"
    then show "P w" by (intro Cons.prems(3) [of y v w]) simp_all
  qed
  with u show ?case by simp
qed simp

lemma params_return:
  assumes "calm (dr_src d) n" "i \<in> known d"
  shows "py_collect_params env cls i n d \<noteq> None"
proof (cases "ts_field n ''parameters''")
  case (Some params)
  have "fold_opt (py_collect_param env cls i) (ts_children params) d \<noteq> None"
  proof (rule fold_opt_returns [where P = "\<lambda>u. dr_src u = dr_src d \<and> i \<in> known u"])
    fix p and u :: "string driver" assume "p \<in> set (ts_children params)" "dr_src u = dr_src d \<and> i \<in> known u"
    then show "py_collect_param env cls i p u \<noteq> None"
      using calm_child [OF calm_field [OF assms(1) Some]] by (intro param_returns) simp
  next
    fix p and u v :: "string driver" assume u: "dr_src u = dr_src d \<and> i \<in> known u" and v: "py_collect_param env cls i p u = Some v"
    have "level True (\<lambda>_. True) u v" using level_py_collect_param [OF v] u by blast
    from level_src [OF this] level_known [OF this] u show "dr_src v = dr_src d \<and> i \<in> known v" by simp
  qed (simp add: assms(2))
  then show ?thesis by (simp add: py_collect_params_def Some)
qed (simp add: py_collect_params_def)

lemma declare_returns:
  assumes "calm (dr_src (pc_d c)) n"
  shows "declare_typevar env n c \<noteq> None"
proof -
  have b: "extract_typevar_bound env cls (dr_src (pc_d c)) r \<noteq> None" if "ts_field n ''right'' = Some r" for r cls
    by (rule typevar_bound_returns [OF calm_field [OF assms that]])
  show ?thesis
    unfolding declare_typevar_def Let_def using map_returns [OF b]
    by (simp del: not_None_eq split: option.split)
qed

lemma infer_returns:
  assumes "calm src n"
  shows "infer_assignment_type env cls src n \<noteq> None"
proof -
  have "py_type_name env cls src t \<noteq> None" if "ts_field n ''type'' = Some t" for t
    by (rule py_type_name_returns [OF calm_field [OF assms that]])
  then show ?thesis
    unfolding infer_assignment_type_def using map_returns
    by (simp del: not_None_eq split: option.split)
qed

section \<open>The walk returns\<close>

lemma enter_class_returns:
  assumes "ts_kind n = ''class_definition''" "calm (dr_src (pc_d c)) n" "dr_file_id (pc_d c) \<in> known (pc_d c)"
  shows "enter_class env n name cur cls c \<noteq> None"
proof -
  let ?t = "\<lambda>_ :: string. True"
  let ?d = "push_export name cur cls (pc_d c)"
  have e: "level True ?t (pc_d c) ?d" by (rule level_push_export)
  have src: "dr_src ?d = dr_src (pc_d c)" by (rule level_src [OF e])
  obtain is_enum where en: "is_enum_class env (pc_class c) (dr_src ?d) n = Some is_enum"
    using is_enum_returns [OF assms(2)] by (auto simp: src)
  obtain ps where ps: "collect_pep695_type_parameters (dr_src ?d) n = Some ps"
    using parameters_return [OF assms(2)] by (auto simp: src)
  obtain is_abstract where ab: "is_abstract_class env (pc_class c) (dr_src ?d) n = Some is_abstract"
    using is_abstract_returns [OF assms(2)] by (auto simp: src)
  let ?p = "push_type_parameters ps ?d"
  let ?kind = "if is_enum then ''enum'' else ''class''"
  have pair: "(if is_enum then (''type'', ''enum'') else case py_def_kind n of Some pk \<Rightarrow> pk | None \<Rightarrow> (''type'', ''class''))
      = (''type'', ?kind)" by (simp add: py_def_kind_def assms(1))
  obtain j d1 where add: "add_def ''type'' ?kind name n (dr_file_id ?p) None ?p = (j, d1)" by fastforce
  have "dr_file_id ?p \<in> known ?p"
    using level_known [OF e assms(3)] level_file [OF e] by (simp add: push_type_parameters_def known_def)
  then have d1: "level True ?t ?p d1" "j \<in> known d1"
    using level_add_def [OF add] by (simp_all add: kind_prefix_def split: if_splits)
  let ?a = "if is_abstract then mark_abstract j d1 else d1"
  let ?l = "register_local_type (py_base_type_name name) ?a"
  have l: "level True ?t d1 ?l"
    by (rule level_trans [OF _ level_register_local_type]) (simp add: level_mark_abstract)
  let ?v = "if is_enum then fold (py_add_variant j name) (extract_enum_variants (dr_src ?d) n) ?l else ?l"
  have v: "level True ?t ?l ?v"
    using level_known [OF l d1(2)] by (auto intro!: level_fold level_py_add_variant)
  note lv = level_trans [OF d1(1) level_trans [OF l v]]
  have "j \<in> known ?v" by (rule level_known [OF v level_known [OF l d1(2)]])
  moreover have "calm (dr_src ?v) n"
    using assms(2) level_src [OF lv] by (simp add: src push_type_parameters_def)
  ultimately have "py_emit_type_edges env (Some name) j n ?v \<noteq> None" by (intro type_edges_return)
  then show ?thesis
    unfolding enter_class_def Let_def en ps bind_Some pair prod.case add ab by (rule map_returns)
qed

lemma enter_function_returns:
  assumes "ts_kind n = ''function_definition''" "calm (dr_src (pc_d c)) n"
    and "pred_option (\<lambda>k. fst k \<in> known (pc_d c)) cls" "dr_file_id (pc_d c) \<in> known (pc_d c)"
  shows "py_enter_function env par n name cur cls c \<noteq> None"
proof -
  let ?t = "\<lambda>_ :: string. True"
  let ?d = "push_export name cur cls (pc_d c)"
  have e: "level True ?t (pc_d c) ?d" by (rule level_push_export)
  have src: "dr_src ?d = dr_src (pc_d c)" by (rule level_src [OF e])
  let ?container = "\<lambda>d. case cls of Some (i, _) \<Rightarrow> i | None \<Rightarrow> dr_file_id d"
  have fk: "(case py_def_kind n of Some pk \<Rightarrow> pk | None \<Rightarrow> (''fn'', ''function'')) = (''fn'', ''function'')"
    by (simp add: py_def_kind_def assms(1))
  obtain ps where ps: "collect_pep695_type_parameters (dr_src ?d) n = Some ps"
    using parameters_return [OF assms(2)] by (auto simp: src)
  let ?p = "push_type_parameters ps ?d"
  obtain j d1 where add: "add_def ''fn'' ''function'' name n (?container ?p) (map_option snd cls) ?p = (j, d1)" by fastforce
  have known_p: "k \<in> known ?p" if "k \<in> known (pc_d c)" for k
    using level_known [OF e that] by (simp add: push_type_parameters_def known_def)
  have "dr_file_id ?p = dr_file_id (pc_d c)" using level_file [OF e] by (simp add: push_type_parameters_def)
  then have "?container ?p \<in> known ?p"
    using assms(3,4) known_p by (auto split: option.split)
  moreover have "pred_option ?t (map_option snd cls)" by (cases cls) auto
  ultimately have d1: "level True ?t ?p d1" "j \<in> known d1"
    using level_add_def [OF add] by (simp_all add: kind_prefix_def)
  let ?a = "if cls \<noteq> None \<and> is_abstract_method (dr_src ?d) par n then mark_abstract j d1 else d1"
  have a: "level True ?t d1 ?a" by (simp add: level_mark_abstract)
  note b = level_trans [OF a level_py_emit_bounds [OF level_known [OF a d1(2)]]]
  let ?b = "py_emit_bounds env j n c ?a"
  have calm: "calm (dr_src ?b) n"
    using assms(2) level_src [OF b, of env n c] level_src [OF d1(1)] by (simp add: src push_type_parameters_def)
  obtain d2 where d2: "py_emit_returns env (pc_class c) j name n ?b = Some d2"
    using returns_return [OF calm] by blast
  have r: "level True ?t ?b d2" by (rule level_py_emit_returns [OF d2 level_known [OF b d1(2)]])
  have "j \<in> known (scope_push d2)"
    using level_known [OF r level_known [OF b d1(2)]] by (simp add: known_def scope_push_def)
  moreover have "calm (dr_src (scope_push d2)) n" using calm level_src [OF r] by (simp add: scope_push_def)
  ultimately have "py_collect_params env (pc_class c) j n (scope_push d2) \<noteq> None" by (intro params_return)
  then show ?thesis
    unfolding py_enter_function_def Let_def ps bind_Some fk prod.case add d2 by (rule map_returns)
qed

lemma py_walk_returns:
  assumes "calm (dr_src (pc_d c)) n" "dr_file_id (pc_d c) \<in> known (pc_d c)"
    and "pred_option (\<lambda>f. fst f \<in> known (pc_d c)) cur" "pred_option (\<lambda>k. fst k \<in> known (pc_d c)) cls"
  shows "py_walk env par n cur cls c \<noteq> None"
  using assms
proof (induction n arbitrary: par cur cls c rule: measure_induct_rule [where f = size])
  case (less n)
  let ?t = "\<lambda>_ :: string. True"
  let ?src = "dr_src (pc_d c)"
  have kids: "fold_opt (\<lambda>child. py_walk env (decorated_parent n) child cur' cls') (ts_children n) c1 \<noteq> None"
    if c1: "py_level ?t d (pc_d c1)" and d: "dr_src d = ?src" "dr_file_id (pc_d c1) \<in> known (pc_d c1)"
      and cur': "pred_option (\<lambda>f. fst f \<in> known (pc_d c1)) cur'"
      and cls': "pred_option (\<lambda>k. fst k \<in> known (pc_d c1)) cls'" for c1 d cur' cls'
  proof (rule fold_opt_returns [where P = "\<lambda>u. py_level ?t (pc_d c1) (pc_d u)"])
    fix child and u :: py_ctx assume child: "child \<in> set (ts_children n)" and u: "py_level ?t (pc_d c1) (pc_d u)"
    note same = py_level_same [OF c1] py_level_same [OF u]
    have src: "dr_src (pc_d u) = ?src" using same d(1) by simp
    have at_file: "dr_file_id (pc_d u) \<in> known (pc_d u)" using same py_level_known [OF u d(2)] by simp
    have opts: "pred_option (\<lambda>f. fst f \<in> known (pc_d u)) cur'" "pred_option (\<lambda>k. fst k \<in> known (pc_d u)) cls'"
      using cur' cls' py_level_known [OF u] by (auto simp: pred_option_def)
    show "py_walk env (decorated_parent n) child cur' cls' u \<noteq> None"
      using less.IH [OF ts_child_size [OF child] _ at_file opts] calm_child [OF less.prems(1) child] by (simp add: src)
    fix v assume v: "py_walk env (decorated_parent n) child cur' cls' u = Some v"
    have "pred_option (\<lambda>k. fst k \<in> known (pc_d u) \<and> ?t (snd k)) cls'" using opts(2) by simp
    from py_walk_steps [OF v any_names at_file opts(1) this] show "py_level ?t (pc_d c1) (pc_d v)"
      by (rule py_level_trans [OF u])
  qed simp
  consider (class_item) name where "ts_kind n = ''class_definition''" "ts_field_text ?src n ''name'' = Some name"
    | (fun_item) name where "ts_kind n = ''function_definition''" "ts_field_text ?src n ''name'' = Some name"
    | (assign) "ts_kind n = ''assignment''"
    | (other_item) "\<not> (ts_kind n = ''class_definition'' \<and> ts_field_text ?src n ''name'' \<noteq> None)"
        "\<not> (ts_kind n = ''function_definition'' \<and> ts_field_text ?src n ''name'' \<noteq> None)" "ts_kind n \<noteq> ''assignment''"
    by fast
  then show ?case
  proof cases
    case class_item
    obtain i c1 where enter: "enter_class env n name cur cls c = Some (i, c1)"
      using enter_class_returns [OF class_item(1) less.prems(1,2)] by fastforce
    obtain ps d where eff: "level True ?t (pc_d c) d" "level True ?t (push_type_parameters ps d) (pc_d c1)"
        "i \<in> known (pc_d c1)"
      using enter_class_effect [OF enter class_item(1) TrueI any_names less.prems(2)] by blast
    have same: "known (push_type_parameters ps d) = known d" "dr_src (push_type_parameters ps d) = dr_src d"
        "dr_file_id (push_type_parameters ps d) = dr_file_id d"
      by (simp_all add: known_def push_type_parameters_def)
    have k: "x \<in> known (pc_d c1)" if "x \<in> known (pc_d c)" for x
      using level_known [OF eff(2)] level_known [OF eff(1) that] by (simp add: same)
    have "fold_opt (\<lambda>child. py_walk env (decorated_parent n) child cur (Some (i, name))) (ts_children n) c1 \<noteq> None"
    proof (rule kids [OF py_level_of [OF eff(2)]])
      show "dr_src (push_type_parameters ps d) = ?src" using level_src [OF eff(1)] by (simp add: same)
      show "dr_file_id (pc_d c1) \<in> known (pc_d c1)"
        using k [OF less.prems(2)] level_file [OF eff(1)] level_file [OF eff(2)] by (simp add: same)
      show "pred_option (\<lambda>f. fst f \<in> known (pc_d c1)) cur" using less.prems(3) k by (auto simp: pred_option_def)
    qed (simp add: eff(3))
    then show ?thesis by (simp add: py_walk.simps [of env par n] class_item enter Let_def)
  next
    case fun_item
    have cls: "pred_option (\<lambda>k. fst k \<in> known (pc_d c) \<and> ?t (snd k)) cls" using less.prems(4) by simp
    obtain i c1 where enter: "py_enter_function env par n name cur cls c = Some (i, c1)"
      using enter_function_returns [OF fun_item(1) less.prems(1,4,2)] by fastforce
    obtain ps d ds where eff: "level True ?t (pc_d c) d" "level True ?t (push_type_parameters ps d) ds"
        "level True ?t (scope_push ds) (pc_d c1)" "i \<in> known (pc_d c1)"
      using py_enter_function_effect [OF enter fun_item(1) TrueI cls less.prems(2)] by blast
    have same: "known (push_type_parameters ps d) = known d" "dr_src (push_type_parameters ps d) = dr_src d"
        "dr_file_id (push_type_parameters ps d) = dr_file_id d"
        "known (scope_push ds) = known ds" "dr_src (scope_push ds) = dr_src ds"
        "dr_file_id (scope_push ds) = dr_file_id ds"
      by (simp_all add: known_def push_type_parameters_def scope_push_def)
    have k: "x \<in> known (pc_d c1)" if "x \<in> known (pc_d c)" for x
      using level_known [OF eff(3)] level_known [OF eff(2)] level_known [OF eff(1) that] by (simp add: same)
    have "fold_opt (\<lambda>child. py_walk env (decorated_parent n) child (Some (i, name)) cls) (ts_children n) c1 \<noteq> None"
    proof (rule kids [OF py_level_of [OF eff(3)]])
      show "dr_src (scope_push ds) = ?src" using level_src [OF eff(1)] level_src [OF eff(2)] by (simp add: same)
      show "dr_file_id (pc_d c1) \<in> known (pc_d c1)"
        using k [OF less.prems(2)] level_file [OF eff(1)] level_file [OF eff(2)] level_file [OF eff(3)]
        by (simp add: same)
      show "pred_option (\<lambda>k. fst k \<in> known (pc_d c1)) cls" using less.prems(4) k by (auto simp: pred_option_def)
    qed (simp add: eff(4))
    then show ?thesis by (simp add: py_walk.simps [of env par n] fun_item enter Let_def)
  next
    case assign
    obtain c1 where declared: "declare_typevar env n c = Some c1" using declare_returns [OF less.prems(1)] by blast
    obtain binding where binding: "infer_assignment_type env (pc_class c1) ?src n = Some binding"
      using infer_returns [OF less.prems(1)] by blast
    have a: "py_level ?t (pc_d c) (pc_d c1)" by (rule declare_typevar_effect [OF declared])
    note same = py_level_same [OF a] and k = py_level_known [OF a]
    have "fold_opt (\<lambda>child. py_walk env (decorated_parent n) child cur cls) (ts_children n) c1 \<noteq> None"
    proof (rule kids [OF a refl])
      show "dr_file_id (pc_d c1) \<in> known (pc_d c1)" using same k [OF less.prems(2)] by simp
      show "pred_option (\<lambda>f. fst f \<in> known (pc_d c1)) cur" "pred_option (\<lambda>k. fst k \<in> known (pc_d c1)) cls"
        using less.prems(3,4) k by (auto simp: pred_option_def)
    qed
    then show ?thesis by (simp add: py_walk.simps [of env par n] assign declared binding Let_def)
  next
    case other_item
    let ?c = "on_pd (py_visit env n cur cls) c"
    have a: "py_level ?t (pc_d c) (pc_d ?c)"
      using level_py_visit [OF any_names less.prems(2,3)] by (simp add: py_level_of)
    note same = py_level_same [OF a] and k = py_level_known [OF a]
    have "fold_opt (\<lambda>child. py_walk env (decorated_parent n) child cur cls) (ts_children n) ?c \<noteq> None"
    proof (rule kids [OF a refl])
      show "dr_file_id (pc_d ?c) \<in> known (pc_d ?c)" using same k [OF less.prems(2)] by simp
      show "pred_option (\<lambda>f. fst f \<in> known (pc_d ?c)) cur"
        using less.prems(3) k unfolding pred_option_def by blast
      show "pred_option (\<lambda>k. fst k \<in> known (pc_d ?c)) cls"
        using less.prems(4) k unfolding pred_option_def by blast
    qed
    then show ?thesis unfolding py_walk.simps [of env par n] Let_def using other_item by (simp only: if_False not_False_eq_True)
  qed
qed

text \<open>C13. The Python extractor returns, and does not panic, on every file in which no string and no name of a
  definition holds a closing bracket, and no string is a lone quote.\<close>

theorem python_returns_on_calm:
  assumes "px_grammar_error env = None" "px_parse env src = Some tree" "calm src tree"
  shows "\<exists>x. py_extract env a src = Some (Inr x)"
proof -
  let ?c = "on_pd (push_type_parameters (module_typevars src tree)) (py_ctx_new a src)"
  have "py_walk env None tree None None ?c \<noteq> None"
  proof (rule py_walk_returns)
    show "calm (dr_src (pc_d ?c)) tree"
      using assms(3) by (simp add: push_type_parameters_def py_ctx_new_def driver_new_def Let_def)
    show "dr_file_id (pc_d ?c) \<in> known (pc_d ?c)"
      by (simp add: push_type_parameters_def known_def py_ctx_new_def driver_new_def Let_def node_new_def)
  qed simp_all
  with assms(1,2) show ?thesis by (auto simp: py_extract_def py_run_def)
qed

end
