(* ===== verification/Python_Examples.thy ===== *)
theory Python_Examples
  imports Rust_Examples Python_Props
begin

text \<open>
  Small Python files, laid out as in \<open>Rust_Examples\<close>: witnesses for \<open>Python_Props\<close>, and files on which the extractor
  does not do what its comments say.
\<close>

section \<open>Laying out a file\<close>

definition py_art :: artifact where
  "py_art = \<lparr>a_path = ''a.py'', a_kind = Code, a_language = Some ''python''\<rparr>"

definition py_file :: "(string option \<times> sketch) list \<Rightarrow> ts_node \<times> string" where
  "py_file items = lay 0 (Tree ''module'' items)"

definition py_parser :: "(string option \<times> sketch) list \<Rightarrow> bytes \<Rightarrow> ts_node option" where
  "py_parser items src = Some (fst (py_file items))"

definition ex_px ::
  "((string \<times> string) list \<Rightarrow> (string \<times> string) list) \<Rightarrow> (string option \<times> sketch) list \<Rightarrow> py_env"
where
  "ex_px order items = \<lparr>px_grammar_error = None, px_parse = py_parser items,
     px_first_upper = (\<lambda>s. case s of [] \<Rightarrow> False | c # _ \<Rightarrow> CHR ''A'' \<le> c \<and> c \<le> CHR ''Z''),
     px_alnum = (\<lambda>_. False), px_order = order\<rparr>"

definition py_extracted ::
  "((string \<times> string) list \<Rightarrow> (string \<times> string) list) \<Rightarrow> (string option \<times> sketch) list \<Rightarrow> (error + extraction) option"
where
  "py_extracted order items = py_extract (ex_px order items) py_art (snd (py_file items))"

text \<open>\<open>class C : body\<close>, \<open>def f params : body\<close>, \<open>x : T\<close>, \<open>f ( )\<close>, \<open>self . f ( )\<close>, \<open>T = TypeVar ( bound = W )\<close>\<close>

definition py_class :: "string \<Rightarrow> (string option \<times> sketch) list \<Rightarrow> (string option \<times> sketch) list \<Rightarrow> string option \<times> sketch" where
  "py_class name extra body = plain (Tree ''class_definition''
     ([punct ''class'', (Some ''name'', ident name)] @ extra @ [punct '':'', (Some ''body'', Tree ''block'' body)]))"

definition py_def ::
  "string \<Rightarrow> (string option \<times> sketch) list \<Rightarrow> (string option \<times> sketch) list \<Rightarrow> (string option \<times> sketch) list \<Rightarrow>
     string option \<times> sketch"
where
  "py_def name extra params body = plain (Tree ''function_definition''
     ([punct ''def'', (Some ''name'', ident name)] @ extra
      @ [(Some ''parameters'', Tree ''parameters'' ([punct ''(''] @ params @ [punct '')''])), punct '':'',
         (Some ''body'', Tree ''block'' body)]))"

definition py_typed :: "string \<Rightarrow> sketch \<Rightarrow> string option \<times> sketch" where
  "py_typed name ty = plain (Tree ''typed_parameter''
     [plain (ident name), punct '':'', (Some ''type'', Tree ''type'' [plain ty])])"

definition py_stmt :: "sketch \<Rightarrow> string option \<times> sketch" where
  "py_stmt e = plain (Tree ''expression_statement'' [plain e])"

definition py_field :: "string \<Rightarrow> string \<Rightarrow> string option \<times> sketch" where
  "py_field name ty = py_stmt (Tree ''assignment''
     [(Some ''left'', ident name), punct '':'', (Some ''type'', Tree ''type'' [plain (ident ty)])])"

definition py_self_call :: "string \<Rightarrow> string option \<times> sketch" where
  "py_self_call name = py_stmt (Tree ''call''
     [(Some ''function'', Tree ''attribute''
         [(Some ''object'', ident ''self''), punct ''.'', (Some ''attribute'', ident name)]),
      (Some ''arguments'', Tree ''argument_list'' [punct ''('', punct '')''])])"

definition py_typevar :: "string \<Rightarrow> string \<Rightarrow> string option \<times> sketch" where
  "py_typevar name bound = py_stmt (Tree ''assignment''
     [(Some ''left'', ident name), punct ''='', (Some ''right'', Tree ''call''
        [(Some ''function'', ident ''TypeVar''),
         (Some ''arguments'', Tree ''argument_list''
            [punct ''('', plain (Tree ''keyword_argument''
               [(Some ''name'', ident ''bound''), punct ''='', (Some ''value'', ident bound)]), punct '')''])])])"

definition py_outline ::
  "(error + extraction) option \<Rightarrow> (string list \<times> (string \<times> string \<times> string) list) option"
where
  "py_outline r = Option.bind r outline"

text \<open>For evaluation: what follows a step is not touched before the step's result is known.\<close>

lemma bind_case [code_unfold]: "Option.bind m f = (case m of None \<Rightarrow> None | Some x \<Rightarrow> f x)"
  by (cases m) simp_all

lemma map_option_case [code_unfold]: "map_option f m = (case m of None \<Rightarrow> None | Some x \<Rightarrow> Some (f x))"
  by (cases m) simp_all

lemma prod_case_let [code_unfold]: "case_prod f p = (let q = p in f (fst q) (snd q))"
  by (cases p) simp

section \<open>A class with a field and a method, and a function\<close>

definition shop_items :: "(string option \<times> sketch) list" where
  "shop_items = [py_class ''Shop'' [] [py_field ''owner'' ''Person'',
      py_def ''go'' [] [py_typed ''x'' (ident ''Item'')] [py_self_call ''stop'']],
    py_def ''go'' [] [] []]"

definition shop_tree :: ts_node where
  "shop_tree = fst (py_file shop_items)"

definition shop_src :: string where
  "shop_src = snd (py_file shop_items)"

definition shop_x :: extraction where
  "shop_x = (case py_extract (ex_px id shop_items) py_art shop_src of
      Some (Inr x) \<Rightarrow> x | _ \<Rightarrow> \<lparr>x_nodes = [], x_edges = [], x_exports = []\<rparr>)"

lemma shop_outline:
  "py_outline (py_extracted id shop_items) = Some
    ([''file:a.py'', ''type:a.py:Shop'', ''fn:a.py:Shop::go'', ''fn:a.py:go''],
     [(''file:a.py'', ''contains'', ''type:a.py:Shop''), (''type:a.py:Shop'', ''type/field'', ''Person''),
      (''type:a.py:Shop'', ''contains'', ''fn:a.py:Shop::go''), (''fn:a.py:Shop::go'', ''type/param'', ''Item''),
      (''fn:a.py:Shop::go'', ''calls'', ''stop''), (''file:a.py'', ''contains'', ''fn:a.py:go'')])"
  by code_simp

lemma shop_extracted: "py_extract (ex_px id shop_items) py_art shop_src = Some (Inr shop_x)"
proof -
  have "py_extracted id shop_items = py_extract (ex_px id shop_items) py_art shop_src"
    by (simp add: py_extracted_def shop_src_def)
  with shop_outline have "py_outline (py_extract (ex_px id shop_items) py_art shop_src) \<noteq> None" by simp
  then show ?thesis
    by (cases "py_extract (ex_px id shop_items) py_art shop_src")
      (auto simp: py_outline_def outline_def shop_x_def split: sum.splits)
qed

lemma shop_parse: "px_parse (ex_px id shop_items) shop_src = Some shop_tree"
  by (simp add: ex_px_def py_parser_def shop_tree_def)

lemma shop_clean: "py_names_ok clean shop_src shop_tree"
  by code_simp

lemma shop_small: "length (x_nodes shop_x) \<le> 2 ^ 32"
proof -
  have "length (x_nodes shop_x) = 4" by code_simp
  then show ?thesis by simp
qed

theorem python_extraction_wired_witness:
  "wired_parts (NodeId ''file:a.py'') (x_nodes shop_x) (x_edges shop_x)"
  using python_extraction_wired [OF shop_extracted] by (simp add: py_art_def)

theorem python_ids_distinct_witness: "distinct (map n_id (x_nodes shop_x))"
  by (rule python_ids_distinct [OF shop_extracted shop_parse shop_clean shop_small])

lemma shop_calm: "calm shop_src shop_tree"
  by code_simp

theorem python_returns_on_calm_witness: "\<exists>x. py_extract (ex_px id shop_items) py_art shop_src = Some (Inr x)"
proof (rule python_returns_on_calm [OF _ shop_parse shop_calm])
  show "px_grammar_error (ex_px id shop_items) = None" by (simp add: ex_px_def)
qed

section \<open>Where code and comments part\<close>

text \<open>\<open>def f(x: "]["): \<dots>\<close> makes the extractor panic: the content is sliced from after the opening bracket to the
  closing one, which comes first.\<close>

lemma misplaced_bracket_panics:
  "py_extracted id [py_def ''f'' [] [py_typed ''x'' (Tok ''string'' True [CHR 34, CHR '']'', CHR ''['', CHR 34])] []] = None"
  by code_simp

text \<open>After a nested class, \<open>Self\<close> stands for no class, not for the outer one.\<close>

definition py_self_items :: "(string option \<times> sketch) list \<Rightarrow> (string option \<times> sketch) list" where
  "py_self_items inner = [py_class ''A'' [] (inner @ [py_def ''f'' [] [py_typed ''x'' (ident ''Self'')] []])]"

lemma nested_class_loses_self:
  "py_outline (py_extracted id (py_self_items [])) = Some
    ([''file:a.py'', ''type:a.py:A'', ''fn:a.py:A::f''],
     [(''file:a.py'', ''contains'', ''type:a.py:A''), (''type:a.py:A'', ''contains'', ''fn:a.py:A::f''),
      (''fn:a.py:A::f'', ''type/param'', ''A'')])
   \<and> py_outline (py_extracted id (py_self_items [py_class ''B'' [] []])) = Some
    ([''file:a.py'', ''type:a.py:A'', ''type:a.py:B'', ''fn:a.py:A::f''],
     [(''file:a.py'', ''contains'', ''type:a.py:A''), (''file:a.py'', ''contains'', ''type:a.py:B''),
      (''type:a.py:A'', ''contains'', ''fn:a.py:A::f'')])"
  by (intro conjI; code_simp)

text \<open>A type parameter with a bound enters the scope as the text \<open>T: W\<close>, so \<open>T\<close> itself is taken for a type.\<close>

definition py_generic :: "string \<Rightarrow> (string option \<times> sketch) list" where
  "py_generic params = [py_def ''f'' [plain (Tok ''type_parameter'' True params)] [py_typed ''x'' (ident ''T'')] []]"

lemma bounded_parameter_not_in_scope:
  "py_outline (py_extracted id (py_generic ''[T]'')) = Some
    ([''file:a.py'', ''fn:a.py:f''], [(''file:a.py'', ''contains'', ''fn:a.py:f'')])
   \<and> py_outline (py_extracted id (py_generic ''[T: W]'')) = Some
    ([''file:a.py'', ''fn:a.py:f''],
     [(''file:a.py'', ''contains'', ''fn:a.py:f''), (''fn:a.py:f'', ''type/bound'', ''W''),
      (''fn:a.py:f'', ''type/param'', ''T'')])"
  by (intro conjI; code_simp)

text \<open>The bounds of all type variables in scope are given to a function that uses none of them, in the order of a
  \<^verbatim>\<open>HashSet\<close>: two runs over one file can differ.\<close>

definition py_two_typevars :: "(string option \<times> sketch) list" where
  "py_two_typevars = [py_typevar ''T'' ''A'', py_typevar ''U'' ''B'', py_def ''f'' [] [] []]"

lemma typevar_bounds_unordered:
  "py_outline (py_extracted id py_two_typevars) = Some
    ([''file:a.py'', ''fn:a.py:f''],
     [(''file:a.py'', ''contains'', ''fn:a.py:f''), (''fn:a.py:f'', ''type/bound'', ''A''),
      (''fn:a.py:f'', ''type/bound'', ''B'')])
   \<and> py_outline (py_extracted rev py_two_typevars) = Some
    ([''file:a.py'', ''fn:a.py:f''],
     [(''file:a.py'', ''contains'', ''fn:a.py:f''), (''fn:a.py:f'', ''type/bound'', ''B''),
      (''fn:a.py:f'', ''type/bound'', ''A'')])"
  by (intro conjI; code_simp)

text \<open>A type variable declared after the class that uses it: the first pass, made for this case, looks for
  assignments among the statements of the module, where each is wrapped in an expression statement.\<close>

definition py_late_typevar :: "(string option \<times> sketch) list" where
  "py_late_typevar = [py_class ''C'' [] [py_field ''x'' ''T''], py_typevar ''T'' ''A'']"

lemma first_pass_finds_nothing:
  "(case py_file py_late_typevar of (tree, src) \<Rightarrow> module_typevars src tree) = {}
   \<and> py_outline (py_extracted id py_late_typevar) = Some
    ([''file:a.py'', ''type:a.py:C''],
     [(''file:a.py'', ''contains'', ''type:a.py:C''), (''type:a.py:C'', ''type/field'', ''T'')])"
  by (intro conjI; code_simp)

end
