(* ===== verification/Typescript_Extract.thy ===== *)
theory Typescript_Extract
  imports Driver
begin

text \<open>
  The TypeScript extractor (\<^verbatim>\<open>filigrio-index/src/typescript.rs\<close>) over a parse tree. Kinds and fields are those of
  the third-party grammars, as the code names them. The parser is a parameter that takes whether the grammar is the
  one with JSX; so is whether a string begins with an upper-case character of Unicode.
\<close>

record tx_env =
  tx_grammar_error :: "bool \<Rightarrow> string option"
  tx_parse :: "bool \<Rightarrow> bytes \<Rightarrow> ts_node option"
  tx_first_upper :: "string \<Rightarrow> bool"

section \<open>Names\<close>

definition is_ts_never_node :: "string \<Rightarrow> bool" where
  "is_ts_never_node name \<longleftrightarrow>
     name \<in> set [''bigint'', ''Array'', ''ReadonlyArray'', ''Map'', ''ReadonlyMap'', ''Set'', ''ReadonlySet'',
       ''WeakMap'', ''WeakSet'', ''Promise'', ''Record'']"

definition is_class_kind :: "string \<Rightarrow> bool" where
  "is_class_kind k \<longleftrightarrow> k \<in> set [''class_declaration'', ''abstract_class_declaration'', ''class'']"

definition tx_def_kind :: "ts_node \<Rightarrow> (string \<times> string) option" where
  "tx_def_kind n =
     (if is_class_kind (ts_kind n) then Some (''type'', ''class'')
      else if ts_kind n = ''interface_declaration'' then Some (''type'', ''interface'')
      else if ts_kind n = ''type_alias_declaration'' then Some (''type'', ''type_alias'')
      else if ts_kind n = ''enum_declaration'' then Some (''type'', ''enum'')
      else if ts_kind n \<in> set [''method_definition'', ''function_declaration'', ''generator_function_declaration'']
      then Some (''fn'', ''function'')
      else None)"

definition tx_base_type_name :: "string \<Rightarrow> string" where
  "tx_base_type_name t = trim (rsplit_next ''.'' (hd (split_str ''<'' t)))"

function tx_type_name :: "bytes \<Rightarrow> ts_node \<Rightarrow> string option" where
  "tx_type_name src n =
     (if ts_kind n = ''type_annotation''
      then (case ts_first_named n of None \<Rightarrow> None | Some c \<Rightarrow> tx_type_name src c)
      else if ts_kind n \<in> set [''type_identifier'', ''identifier'', ''predefined_type''] then ts_text src n
      else if ts_kind n = ''generic_type''
      then (case ts_field n ''name'' of None \<Rightarrow> None | Some c \<Rightarrow> tx_type_name src c)
      else if ts_kind n = ''nested_type_identifier''
      then (case ts_field_text src n ''name'' of
              Some t \<Rightarrow> Some t | None \<Rightarrow> map_option (rsplit_next ''.'') (ts_text src n))
      else None)"
  by (pat_completeness, (elim Pair_inject)?, hypsubst, rule refl)
termination
  by (relation "measure (\<lambda>(_, n). size n)") (auto dest: ts_first_named_size ts_sizes)

declare tx_type_name.simps [simp del]

definition tx_target :: "string option \<Rightarrow> string list" where
  "tx_target t = (case t of None \<Rightarrow> [] | Some n \<Rightarrow> if is_ts_never_node n then [] else [n])"

function tx_targets :: "bytes \<Rightarrow> ts_node \<Rightarrow> string list" where
  "tx_targets src n =
     (if ts_kind n = ''type_annotation''
      then (case ts_first_named n of None \<Rightarrow> [] | Some c \<Rightarrow> tx_targets src c)
      else if ts_kind n = ''predefined_type'' then []
      else if ts_kind n \<in> set [''type_identifier'', ''identifier'', ''nested_type_identifier'']
      then tx_target (tx_type_name src n)
      else if ts_kind n = ''generic_type''
      then tx_target (Option.bind (ts_field n ''name'') (tx_type_name src))
           @ (case ts_field n ''type_arguments'' of
                None \<Rightarrow> [] | Some args \<Rightarrow> concat (map (tx_targets src) (ts_named_children args)))
      else if ts_kind n = ''array_type''
      then (case ts_first_named n of None \<Rightarrow> [] | Some c \<Rightarrow> tx_targets src c)
      else if ts_kind n = ''union_type'' \<or> ts_kind n = ''intersection_type''
      then concat (map (tx_targets src) (ts_named_children n))
      else [])"
  by (pat_completeness, (elim Pair_inject)?, hypsubst, rule refl)
termination
proof (relation "measure (\<lambda>(_, n). size n)", goal_cases)
  case (3 src n args c)
  then show ?case using ts_field_size [of n "''type_arguments''" args] ts_named_size [of c args] by simp
qed (auto dest: ts_first_named_size ts_sizes)

declare tx_targets.simps [simp del]

section \<open>Calls and receivers\<close>

definition tx_receiver_type :: "tx_env \<Rightarrow> ts_node \<Rightarrow> string option \<Rightarrow> string driver \<Rightarrow> string option" where
  "tx_receiver_type env member current_class d =
     (case ts_field member ''object'' of
        None \<Rightarrow> None
      | Some obj \<Rightarrow>
          if ts_kind obj = ''this'' then current_class
          else if ts_kind obj = ''identifier''
          then (case dr_text d obj of
                  None \<Rightarrow> None
                | Some name \<Rightarrow> if tx_first_upper env name then Some name else lookup_var name d)
          else None)"

definition tx_callee_ref ::
  "tx_env \<Rightarrow> ts_node \<Rightarrow> string option \<Rightarrow> string driver \<Rightarrow> (string \<times> string option) option"
where
  "tx_callee_ref env func current_class d =
     (if ts_kind func = ''identifier'' then map_option (\<lambda>n. (n, None)) (dr_text d func)
      else if ts_kind func = ''member_expression''
      then map_option (\<lambda>m. (m, tx_receiver_type env func current_class d)) (ts_field_text (dr_src d) func ''property'')
      else None)"

definition tx_visit_call ::
  "tx_env \<Rightarrow> ts_node \<Rightarrow> (node_id \<times> string) option \<Rightarrow> (node_id \<times> string) option \<Rightarrow> string driver \<Rightarrow> string driver"
where
  "tx_visit_call env n current_fn current_class d =
     (case (current_fn, ts_field n ''function'') of
        (Some (src_id, _), Some func) \<Rightarrow>
          (case tx_callee_ref env func (map_option snd current_class) d of
             None \<Rightarrow> d
           | Some (callee, hint) \<Rightarrow>
               emit_call src_id ((target_ref_new callee)
                 \<lparr>t_hints := (case hint of None \<Rightarrow> bt_empty | Some ty \<Rightarrow> bt_insert ''type'' ty bt_empty)\<rparr>) d)
      | _ \<Rightarrow> d)"

section \<open>Imports\<close>

definition is_quote :: "char \<Rightarrow> bool" where
  "is_quote c \<longleftrightarrow> c = CHR 39 \<or> c = CHR 34 \<or> c = CHR 96"

definition trim_quote_chars :: "string \<Rightarrow> string" where
  "trim_quote_chars s = rev (dropWhile is_quote (rev (dropWhile is_quote s)))"

definition tx_import_specifier :: "bytes \<Rightarrow> ts_node \<Rightarrow> string option" where
  "tx_import_specifier src n = map_option trim_quote_chars (ts_field_text src n ''source'')"

text \<open>The bound and the imported name of each binding.\<close>

definition tx_specifier_names :: "bytes \<Rightarrow> ts_node \<Rightarrow> (string \<times> string) option" where
  "tx_specifier_names src spec =
     (case ts_field_text src spec ''name'' of
        None \<Rightarrow> None
      | Some imported \<Rightarrow>
          Some (case ts_field_text src spec ''alias'' of Some a \<Rightarrow> a | None \<Rightarrow> imported, imported))"

definition tx_clause_names :: "bytes \<Rightarrow> ts_node \<Rightarrow> (string \<times> string) list" where
  "tx_clause_names src c =
     (if ts_kind c = ''identifier'' then (case ts_text src c of None \<Rightarrow> [] | Some t \<Rightarrow> [(t, t)])
      else if ts_kind c = ''namespace_import''
      then (case Option.bind (find (\<lambda>m. ts_kind m = ''identifier'') (ts_named_children c)) (ts_text src) of
              None \<Rightarrow> [] | Some t \<Rightarrow> [(t, t)])
      else if ts_kind c = ''named_imports''
      then List.map_filter (tx_specifier_names src)
             (filter (\<lambda>s. ts_kind s = ''import_specifier'') (ts_named_children c))
      else [])"

definition tx_imported_names :: "bytes \<Rightarrow> ts_node \<Rightarrow> (string \<times> string) list" where
  "tx_imported_names src n =
     (case find (\<lambda>c. ts_kind c = ''import_clause'') (ts_named_children n) of
        None \<Rightarrow> [] | Some clause \<Rightarrow> concat (map (tx_clause_names src) (ts_named_children clause)))"

text \<open>A binding's specifier, imported name and, if it has another name here, that name.\<close>

definition tx_imports :: "bytes \<Rightarrow> ts_node \<Rightarrow> (string option \<times> string \<times> string option) list" where
  "tx_imports src n =
     map (\<lambda>(bound, imported). (tx_import_specifier src n, imported, if bound \<noteq> imported then Some bound else None))
       (tx_imported_names src n)"

definition tx_emit_import :: "string option \<times> string \<times> string option \<Rightarrow> string driver \<Rightarrow> string driver" where
  "tx_emit_import u d =
     (case u of
        (specifier, imported, alias) \<Rightarrow>
          (let name = (case alias of Some a \<Rightarrow> a | None \<Rightarrow> imported);
               hints = (case specifier of None \<Rightarrow> bt_empty | Some spec \<Rightarrow> bt_insert ''specifier'' spec bt_empty);
               hints = (case alias of None \<Rightarrow> hints | Some _ \<Rightarrow> bt_insert ''imported'' imported hints)
           in emit_import ((target_ref_new name)\<lparr>t_hints := hints\<rparr>) d))"

section \<open>Exports\<close>

definition tx_export_clause :: "ts_node \<Rightarrow> ts_node option" where
  "tx_export_clause n = find (\<lambda>c. ts_kind c = ''export_clause'') (ts_named_children n)"

definition tx_has_child_kind :: "ts_node \<Rightarrow> string \<Rightarrow> bool" where
  "tx_has_child_kind n kind \<longleftrightarrow> list_ex (\<lambda>c. ts_kind c = kind) (ts_named_children n)"

definition tx_declared_names :: "bytes \<Rightarrow> ts_node \<Rightarrow> string list" where
  "tx_declared_names src c =
     (if ts_kind c \<in> set [''function_declaration'', ''generator_function_declaration'', ''interface_declaration'',
           ''type_alias_declaration'', ''enum_declaration''] \<or> is_class_kind (ts_kind c)
      then (case ts_field_text src c ''name'' of None \<Rightarrow> [] | Some n \<Rightarrow> [n])
      else if ts_kind c = ''lexical_declaration'' \<or> ts_kind c = ''variable_declaration''
      then List.map_filter (\<lambda>d.
             if ts_kind d = ''variable_declarator''
             then (case ts_field d ''name'' of
                     None \<Rightarrow> None | Some n \<Rightarrow> if ts_kind n = ''identifier'' then ts_text src n else None)
             else None)
           (ts_named_children c)
      else [])"

definition tx_exported_decl_names :: "bytes \<Rightarrow> ts_node \<Rightarrow> string list" where
  "tx_exported_decl_names src n = concat (map (tx_declared_names src) (ts_named_children n))"

definition tx_exports_of :: "bytes \<Rightarrow> ts_node \<Rightarrow> export list" where
  "tx_exports_of src n =
     (case tx_import_specifier src n of
        Some spec \<Rightarrow>
          (case tx_export_clause n of
             Some clause \<Rightarrow>
               List.map_filter (\<lambda>e. if ts_kind e \<noteq> ''export_specifier'' then None
                   else map_option (\<lambda>(name, imported). ReExport name spec imported) (tx_specifier_names src e))
                 (ts_named_children clause)
           | None \<Rightarrow> if tx_has_child_kind n ''namespace_export'' then [] else [Star spec])
      | None \<Rightarrow>
          (case tx_export_clause n of
             Some clause \<Rightarrow>
               List.map_filter (\<lambda>e. if ts_kind e = ''export_specifier'' \<and> ts_field e ''alias'' = None
                   then map_option Local (ts_field_text src e ''name'') else None)
                 (ts_named_children clause)
           | None \<Rightarrow> map Local (tx_exported_decl_names src n)))"

definition tx_handle_export :: "ts_node \<Rightarrow> string driver \<Rightarrow> string driver" where
  "tx_handle_export n d = d\<lparr>dr_exports := dr_exports d @ tx_exports_of (dr_src d) n\<rparr>"

section \<open>Heritage, fields, type parameters\<close>

definition tx_type_list :: "bytes \<Rightarrow> ts_node \<Rightarrow> string list" where
  "tx_type_list src n = List.map_filter (tx_type_name src) (ts_named_children n)"

definition tx_clause_heritage :: "bytes \<Rightarrow> ts_node \<Rightarrow> (string \<times> string) list" where
  "tx_clause_heritage src clause =
     (if ts_kind clause = ''extends_clause'' then map (Pair EXTENDS) (tx_type_list src clause)
      else if ts_kind clause = ''implements_clause'' then map (Pair IMPLEMENTS) (tx_type_list src clause)
      else [])"

definition tx_heritage :: "bytes \<Rightarrow> ts_node \<Rightarrow> (string \<times> string) list" where
  "tx_heritage src n =
     (if \<not> is_class_kind (ts_kind n) \<and> ts_kind n \<noteq> ''interface_declaration'' then []
      else
        concat (map (\<lambda>c.
            if ts_kind c = ''class_heritage'' then concat (map (tx_clause_heritage src) (ts_named_children c))
            else if ts_kind c = ''extends_type_clause'' then map (Pair EXTENDS) (tx_type_list src c)
            else [])
          (ts_named_children n)))"

definition tx_members :: "ts_node \<Rightarrow> ts_node option" where
  "tx_members n =
     (if is_class_kind (ts_kind n) \<or> ts_kind n = ''interface_declaration'' then ts_field n ''body''
      else if ts_kind n = ''type_alias_declaration''
      then (case ts_field n ''value'' of
              None \<Rightarrow> None | Some v \<Rightarrow> if ts_kind v = ''object_type'' then Some v else None)
      else None)"

definition tx_fields :: "bytes \<Rightarrow> ts_node \<Rightarrow> (string \<times> string) list" where
  "tx_fields src n =
     (case tx_members n of
        None \<Rightarrow> []
      | Some body \<Rightarrow>
          concat (map (\<lambda>c.
              if ts_kind c = ''public_field_definition'' \<or> ts_kind c = ''property_signature''
              then (case (ts_field_text src c ''name'', ts_field c ''type'') of
                      (Some name, Some ty) \<Rightarrow> map (Pair name) (tx_targets src ty) | _ \<Rightarrow> [])
              else [])
            (ts_named_children body)))"

definition tx_emit_type_edges :: "node_id \<Rightarrow> ts_node \<Rightarrow> string driver \<Rightarrow> string driver" where
  "tx_emit_type_edges i n d =
     (let d = fold (\<lambda>(relation, target). emit_heritage i relation target) (tx_heritage (dr_src d) n) d
      in fold (\<lambda>(name, ty) d. snd (emit_field_type i name ty None d)) (tx_fields (dr_src d) n) d)"

definition tx_type_parameters :: "bytes \<Rightarrow> ts_node \<Rightarrow> string set" where
  "tx_type_parameters src n =
     (case ts_field n ''type_parameters'' of
        None \<Rightarrow> {}
      | Some tps \<Rightarrow>
          set (List.map_filter (\<lambda>c. if ts_kind c = ''type_parameter'' then ts_field_text src c ''name'' else None)
            (ts_children tps)))"

definition tx_push_parameters :: "ts_node \<Rightarrow> string driver \<Rightarrow> string driver" where
  "tx_push_parameters n d = push_type_parameters (tx_type_parameters (dr_src d) n) d"

definition tx_variant_name :: "bytes \<Rightarrow> ts_node \<Rightarrow> string option" where
  "tx_variant_name src c =
     (if ts_kind c = ''property_identifier'' then ts_text src c
      else if ts_kind c = ''enum_assignment'' then ts_field_text src c ''name''
      else None)"

definition tx_emit_variants :: "ts_node \<Rightarrow> string \<Rightarrow> node_id \<Rightarrow> string driver \<Rightarrow> string driver" where
  "tx_emit_variants n enum_name enum_id d =
     (case ts_field n ''body'' of
        None \<Rightarrow> d
      | Some body \<Rightarrow>
          fold (\<lambda>c d. case tx_variant_name (dr_src d) c of
                        None \<Rightarrow> d | Some vname \<Rightarrow> snd (add_variant enum_id enum_name vname c d))
            (ts_named_children body) d)"

section \<open>Functions\<close>

definition tx_param :: "bytes \<Rightarrow> ts_node \<Rightarrow> string option" where
  "tx_param src p =
     (case ts_field p ''pattern'' of
        None \<Rightarrow> None | Some q \<Rightarrow> if ts_kind q = ''identifier'' then ts_text src q else None)"

text \<open>The types of a signature, without those that have the function's name.\<close>

definition tx_signature_types :: "string \<Rightarrow> string list \<Rightarrow> string list" where
  "tx_signature_types fn_name tys =
     filter (\<lambda>t. tx_base_type_name fn_name \<noteq> t) (map tx_base_type_name tys)"

definition tx_collect_param :: "node_id \<Rightarrow> string \<Rightarrow> ts_node \<Rightarrow> string driver \<Rightarrow> string driver" where
  "tx_collect_param i fn_name p d =
     (if ts_kind p \<noteq> ''required_parameter'' \<and> ts_kind p \<noteq> ''optional_parameter'' then d
      else
        (let src = dr_src d;
             d = (case (tx_param src p, Option.bind (ts_field p ''type'') (tx_type_name src)) of
                    (Some name, Some ty) \<Rightarrow> scope_insert name ty d | _ \<Rightarrow> d)
         in case ts_field p ''type'' of
              None \<Rightarrow> d
            | Some t \<Rightarrow> fold (\<lambda>ty d. snd (emit_param_type i ty d)) (tx_signature_types fn_name (tx_targets src t)) d))"

definition tx_collect_params :: "node_id \<Rightarrow> string \<Rightarrow> ts_node \<Rightarrow> string driver \<Rightarrow> string driver" where
  "tx_collect_params i fn_name n d =
     (case ts_field n ''parameters'' of
        None \<Rightarrow> d | Some params \<Rightarrow> fold (tx_collect_param i fn_name) (ts_children params) d)"

definition tx_emit_returns :: "node_id \<Rightarrow> string \<Rightarrow> ts_node \<Rightarrow> string driver \<Rightarrow> string driver" where
  "tx_emit_returns i fn_name n d =
     (case ts_field n ''return_type'' of
        None \<Rightarrow> d
      | Some t \<Rightarrow>
          fold (\<lambda>ty d. snd (emit_return_type i ty d)) (tx_signature_types fn_name (tx_targets (dr_src d) t)) d)"

text \<open>What \<open>enter_fn\<close> does before and after it walks the children of \<open>n\<close>.\<close>

definition tx_open_fn :: "ts_node \<Rightarrow> node_id \<Rightarrow> string \<Rightarrow> string driver \<Rightarrow> string driver" where
  "tx_open_fn n i name d =
     tx_emit_returns i name n (tx_collect_params i name n (tx_push_parameters n (scope_push d)))"

definition tx_close_fn :: "string driver \<Rightarrow> string driver" where
  "tx_close_fn d = scope_pop (pop_type_parameters d)"

definition tx_container_of :: "(node_id \<times> string) option \<Rightarrow> string driver \<Rightarrow> node_id \<times> string option" where
  "tx_container_of current_class d =
     (case current_class of Some (i, name) \<Rightarrow> (i, Some name) | None \<Rightarrow> (dr_file_id d, None))"

definition tx_add_fn ::
  "string \<times> string \<Rightarrow> string \<Rightarrow> ts_node \<Rightarrow> (node_id \<times> string) option \<Rightarrow> string driver \<Rightarrow> node_id \<times> string driver"
where
  "tx_add_fn pk name n current_class d =
     (let (container, owner) = tx_container_of current_class d
      in add_def (fst pk) (snd pk) name n container owner d)"

definition infer_declarator_type :: "bytes \<Rightarrow> ts_node \<Rightarrow> (string \<times> string) option" where
  "infer_declarator_type src decl =
     (case ts_field decl ''name'' of
        None \<Rightarrow> None
      | Some nm \<Rightarrow>
          if ts_kind nm \<noteq> ''identifier'' then None
          else
            (case ts_text src nm of
               None \<Rightarrow> None
             | Some name \<Rightarrow>
                 (case Option.bind (ts_field decl ''type'') (tx_type_name src) of
                    Some ty \<Rightarrow> Some (name, ty)
                  | None \<Rightarrow>
                      (case ts_field decl ''value'' of
                         None \<Rightarrow> None
                       | Some val \<Rightarrow>
                           if ts_kind val = ''new_expression''
                           then (case ts_field val ''constructor'' of
                                   None \<Rightarrow> None
                                 | Some c \<Rightarrow>
                                     if ts_kind c = ''identifier'' then map_option (Pair name) (ts_text src c) else None)
                           else None))))"

section \<open>The walk\<close>

definition tx_kind_or :: "ts_node \<Rightarrow> string \<times> string \<Rightarrow> string \<times> string" where
  "tx_kind_or n pk = (case tx_def_kind n of Some x \<Rightarrow> x | None \<Rightarrow> pk)"

definition tx_add_type :: "ts_node \<Rightarrow> string \<times> string \<Rightarrow> string \<Rightarrow> string driver \<Rightarrow> node_id \<times> string driver" where
  "tx_add_type n pk name d = add_def (fst (tx_kind_or n pk)) (snd (tx_kind_or n pk)) name n (dr_file_id d) None d"

definition tx_enter_class :: "ts_node \<Rightarrow> string \<Rightarrow> string driver \<Rightarrow> node_id \<times> string driver" where
  "tx_enter_class n name d =
     (let (i, d) = tx_add_type n (''type'', ''class'') name d;
          d = (if ts_kind n = ''abstract_class_declaration'' then mark_abstract i d else d);
          d = register_local_type (tx_base_type_name name) d
      in (i, tx_emit_type_edges i n (tx_push_parameters n d)))"

definition tx_enter_interface :: "ts_node \<Rightarrow> string \<Rightarrow> string driver \<Rightarrow> node_id \<times> string driver" where
  "tx_enter_interface n name d =
     (let (i, d) = tx_add_type n (''type'', ''interface'') name d;
          d = register_local_type (tx_base_type_name name) d
      in (i, tx_emit_type_edges i n (mark_abstract i (tx_push_parameters n d))))"

definition tx_enter_enum :: "ts_node \<Rightarrow> string \<Rightarrow> string driver \<Rightarrow> string driver" where
  "tx_enter_enum n name d =
     (let (i, d) = tx_add_type n (''type'', ''enum'') name d in tx_emit_variants n name i d)"

definition tx_enter_alias :: "ts_node \<Rightarrow> string \<Rightarrow> string driver \<Rightarrow> string driver" where
  "tx_enter_alias n name d =
     (let (i, d) = tx_add_type n (''type'', ''type_alias'') name d
      in tx_emit_type_edges i n (tx_push_parameters n d))"

definition tx_visit ::
  "tx_env \<Rightarrow> ts_node \<Rightarrow> (node_id \<times> string) option \<Rightarrow> (node_id \<times> string) option \<Rightarrow> string driver \<Rightarrow> string driver"
where
  "tx_visit env n current_fn current_class d =
     (if ts_kind n = ''call_expression'' then tx_visit_call env n current_fn current_class d
      else if ts_kind n = ''import_statement'' then fold tx_emit_import (tx_imports (dr_src d) n) d
      else if ts_kind n = ''export_statement'' then tx_handle_export n d
      else d)"

definition tx_is_function :: "string \<Rightarrow> bool" where
  "tx_is_function k \<longleftrightarrow> k \<in> set [''method_definition'', ''function_declaration'', ''generator_function_declaration'']"

definition tx_is_signature :: "string option \<Rightarrow> ts_node \<Rightarrow> bool" where
  "tx_is_signature parent_kind n \<longleftrightarrow>
     ts_kind n = ''abstract_method_signature''
     \<or> ts_kind n = ''method_signature'' \<and> parent_kind = Some ''interface_body''"

text \<open>The function that a declarator binds.\<close>

definition tx_fn_value :: "ts_node \<Rightarrow> ts_node option" where
  "tx_fn_value n =
     (case ts_field n ''value'' of
        None \<Rightarrow> None
      | Some v \<Rightarrow> if ts_kind v \<in> set [''arrow_function'', ''function_expression'', ''function''] then Some v else None)"

lemma tx_fn_value_field: "tx_fn_value n = Some v \<Longrightarrow> ts_field n ''value'' = Some v"
  by (auto simp: tx_fn_value_def split: option.splits if_splits)

lemma tx_fn_child: "tx_fn_value n = Some v \<Longrightarrow> c \<in> set (ts_children v) \<Longrightarrow> size c < size n"
  using ts_child_size [of c v] ts_field_size [OF tx_fn_value_field] by (meson less_trans)

function tx_walk ::
  "tx_env \<Rightarrow> string option \<Rightarrow> ts_node \<Rightarrow> (node_id \<times> string) option \<Rightarrow> (node_id \<times> string) option \<Rightarrow>
     string driver \<Rightarrow> string driver"
where
  "tx_walk env parent_kind n current_fn current_class d =
     (let src = dr_src d;
          name = (case ts_field_text src n ''name'' of None \<Rightarrow> [] | Some t \<Rightarrow> t);
          named = ts_field_text src n ''name'' \<noteq> None
      in if is_class_kind (ts_kind n) \<and> named
         then
           (let (i, d) = tx_enter_class n name d
            in pop_type_parameters
                 (fold (\<lambda>child. tx_walk env (Some (ts_kind n)) child current_fn (Some (i, name))) (ts_children n) d))
         else if ts_kind n = ''interface_declaration'' \<and> named
         then
           (let (i, d) = tx_enter_interface n name d
            in pop_type_parameters
                 (fold (\<lambda>child. tx_walk env (Some (ts_kind n)) child current_fn (Some (i, name))) (ts_children n) d))
         else if ts_kind n = ''enum_declaration'' \<and> named
         then fold (\<lambda>child. tx_walk env (Some (ts_kind n)) child current_fn None) (ts_children n) (tx_enter_enum n name d)
         else if ts_kind n = ''type_alias_declaration'' \<and> named
         then
           pop_type_parameters
             (fold (\<lambda>child. tx_walk env (Some (ts_kind n)) child current_fn None) (ts_children n) (tx_enter_alias n name d))
         else if tx_is_function (ts_kind n) \<and> named
         then
           (let (i, d) = tx_add_fn (tx_kind_or n (''fn'', ''function'')) name n current_class d
            in tx_close_fn
                 (fold (\<lambda>child. tx_walk env (Some (ts_kind n)) child (Some (i, name)) current_class) (ts_children n)
                   (tx_open_fn n i name d)))
         else if tx_is_signature parent_kind n
         then
           (if named
            then
              (let (i, d) = tx_add_fn (''fn'', ''function'') name n current_class d
               in tx_close_fn
                    (fold (\<lambda>child. tx_walk env (Some (ts_kind n)) child (Some (i, name)) current_class) (ts_children n)
                      (tx_open_fn n i name (mark_abstract i d))))
            else d)
         else if ts_kind n = ''variable_declarator'' \<and> named \<and> tx_fn_value n \<noteq> None
         then
           (let v = the (tx_fn_value n);
                (i, d) = tx_add_fn (''fn'', ''function'') name n current_class d
            in tx_close_fn
                 (fold (\<lambda>child. tx_walk env (Some (ts_kind v)) child (Some (i, name)) current_class) (ts_children v)
                   (tx_open_fn v i name d)))
         else if ts_kind n = ''variable_declarator''
         then
           (let binding = infer_declarator_type src n;
                d = fold (\<lambda>child. tx_walk env (Some (ts_kind n)) child current_fn current_class) (ts_children n) d
            in case binding of None \<Rightarrow> d | Some (var, ty) \<Rightarrow> scope_insert var ty d)
         else
           fold (\<lambda>child. tx_walk env (Some (ts_kind n)) child current_fn current_class) (ts_children n)
             (tx_visit env n current_fn current_class d))"
  by (pat_completeness, (elim Pair_inject)?, hypsubst, rule refl)
termination
  by (relation "measure (\<lambda>(_, _, n, _). size n)")
    (auto dest: ts_sizes tx_fn_child)

declare tx_walk.simps [simp del]

definition tx_handles :: "artifact \<Rightarrow> bool" where
  "tx_handles a \<longleftrightarrow> a_language a = Some ''typescript'' \<or> a_language a = Some ''javascript''"

definition tx_extract :: "tx_env \<Rightarrow> artifact \<Rightarrow> bytes \<Rightarrow> error + extraction" where
  "tx_extract env a src =
     (let jsx = ends_with (a_path a) ''x''
      in case tx_grammar_error env jsx of
           Some e \<Rightarrow> Inl (Parse (''load ts grammar: '' @ e))
         | None \<Rightarrow>
             (case tx_parse env jsx src of
                None \<Rightarrow> Inl (Parse (''parse failed: '' @ a_path a))
              | Some tree \<Rightarrow>
                  Inr (driver_finish (tx_walk env None tree None None (driver_new a src ''typescript'')))))"

definition tx_extractor :: "tx_env \<Rightarrow> extractor_port" where
  "tx_extractor env = \<lparr>ext_handles = tx_handles, ext_extract = tx_extract env\<rparr>"

end
