(* ===== verification/Typescript_Steps.thy ===== *)
theory Typescript_Steps
  imports Driver_Steps Typescript_Extract
begin

text \<open>
  The extraction of a TypeScript file is made of the steps of \<open>Driver_Steps\<close>, and the walk of a tree leaves the
  type parameters and the outer scopes as it found them.
\<close>

section \<open>What only grows\<close>

definition grows :: "'v driver \<Rightarrow> 'v driver \<Rightarrow> bool" where
  "grows d d' \<longleftrightarrow> known d \<subseteq> known d' \<and> dr_src d' = dr_src d \<and> dr_file_id d' = dr_file_id d"

lemma grows_trans: "grows d d' \<Longrightarrow> grows d' d'' \<Longrightarrow> grows d d''"
  by (auto simp: grows_def)

lemma grows_level: "level rl nm d d' \<Longrightarrow> grows d d'"
  using level_known level_src level_file unfolding grows_def by blast

lemma grows_push: "grows d (push_type_parameters ps d)" "grows d (scope_push d)"
  by (simp_all add: grows_def known_def push_type_parameters_def scope_push_def)

lemma grows_in: "grows d d' \<Longrightarrow> i \<in> known d \<Longrightarrow> i \<in> known d'"
  by (auto simp: grows_def)

text \<open>The file, the enclosing function and the enclosing type are nodes; the type's name can be minted.\<close>

definition placed ::
  "(string \<Rightarrow> bool) \<Rightarrow> (node_id \<times> string) option \<Rightarrow> (node_id \<times> string) option \<Rightarrow> 'v driver \<Rightarrow> bool"
where
  "placed nm cur cls d \<longleftrightarrow>
     dr_file_id d \<in> known d \<and> pred_option (\<lambda>f. fst f \<in> known d) cur
     \<and> pred_option (\<lambda>k. fst k \<in> known d \<and> nm (snd k)) cls"

lemma placed_grows: "placed nm cur cls d \<Longrightarrow> grows d d' \<Longrightarrow> placed nm cur cls d'"
  by (auto simp: placed_def grows_def pred_option_def)

lemma placed_type: "placed nm cur cls d \<Longrightarrow> i \<in> known d \<Longrightarrow> nm name \<Longrightarrow> placed nm cur (Some (i, name)) d"
  by (simp add: placed_def)

lemma placed_fn: "placed nm cur cls d \<Longrightarrow> i \<in> known d \<Longrightarrow> placed nm (Some (i, name)) cls d"
  by (simp add: placed_def)

lemma placed_none: "placed nm cur cls d \<Longrightarrow> placed nm cur None d"
  by (simp add: placed_def)

lemma level_loop:
  assumes "\<And>x d'. x \<in> set xs \<Longrightarrow> level rl nm d d' \<Longrightarrow> level rl nm d' (f x d')"
  shows "level rl nm d (fold f xs d)"
  using assms
proof (induction xs arbitrary: d)
  case (Cons x xs)
  have "level rl nm d (f x d)" by (rule Cons.prems) simp_all
  moreover have "level rl nm (f x d) (fold f xs (f x d))"
    using Cons.prems level_trans [OF calculation] by (intro Cons.IH) auto
  ultimately show ?case by (simp add: level_trans)
qed simp

section \<open>The operations\<close>

lemma tx_heritage_relation: "u \<in> set (tx_heritage src n) \<Longrightarrow> fst u = EXTENDS \<or> fst u = IMPLEMENTS"
  by (auto simp: tx_heritage_def tx_clause_heritage_def split: if_splits)

lemma level_tx_emit_type_edges:
  assumes "i \<in> known d"
  shows "level True nm d (tx_emit_type_edges i n d)"
proof -
  have a: "level True nm d (fold (\<lambda>(relation, target). emit_heritage i relation target) us d)"
    if "\<And>u. u \<in> set us \<Longrightarrow> fst u = EXTENDS \<or> fst u = IMPLEMENTS" for us
  proof (rule level_loop)
    fix u d' assume u: "u \<in> set us" and l: "level True nm d d'"
    obtain r t where rt: "u = (r, t)" by fastforce
    have "\<not> owning r" using that [OF u] by (auto simp: rt)
    from level_emit_heritage [OF level_known [OF l assms] this]
    show "level True nm d' ((case u of (r, t) \<Rightarrow> emit_heritage i r t) d')" by (simp add: rt)
  qed
  have b: "level True nm d1 (fold (\<lambda>(name, ty) d. snd (emit_field_type i name ty None d)) fs d1)"
    if "i \<in> known d1" for fs d1
    using level_known [OF _ that] by (intro level_loop) (auto intro: level_emit_types)
  show ?thesis
    unfolding tx_emit_type_edges_def Let_def
    using level_trans [OF a b] level_known [OF a assms] tx_heritage_relation by blast
qed

lemma level_tx_collect_param:
  assumes "i \<in> known d"
  shows "level True nm d (tx_collect_param i fn_name p d)"
proof -
  let ?s = "case (tx_param (dr_src d) p, Option.bind (ts_field p ''type'') (tx_type_name (dr_src d))) of
      (Some name, Some ty) \<Rightarrow> scope_insert name ty d | _ \<Rightarrow> d"
  have a: "level True nm d ?s" by (auto split: option.split intro: level_scope_insert)
  have b: "level True nm ?s (fold (\<lambda>ty d. snd (emit_param_type i ty d)) ts ?s)" for ts
    using level_known [OF _ level_known [OF a assms]] by (intro level_loop) (auto intro: level_emit_types)
  show ?thesis
  proof (cases "ts_field p ''type''")
    case None
    then show ?thesis by (simp add: tx_collect_param_def Let_def split: option.split)
  next
    case (Some t)
    show ?thesis
      unfolding tx_collect_param_def Let_def Some option.case
      by (split if_split, intro conjI impI) (rule level_refl level_trans [OF a b, unfolded Some])+
  qed
qed

lemma level_tx_collect_params: "i \<in> known d \<Longrightarrow> level True nm d (tx_collect_params i fn_name n d)"
  unfolding tx_collect_params_def
  by (auto split: option.split intro!: level_loop level_tx_collect_param dest: level_known)

lemma level_tx_emit_returns: "i \<in> known d \<Longrightarrow> level True nm d (tx_emit_returns i fn_name n d)"
  unfolding tx_emit_returns_def
  by (auto split: option.split intro!: level_loop level_emit_types dest: level_known)

text \<open>A function's scope and type parameters are closed after its children.\<close>

lemma grows_open_fn:
  assumes "i \<in> known d"
  shows "grows d (tx_open_fn n i name d)"
    "level True nm (tx_open_fn n i name d) d' \<Longrightarrow> level True nm d (tx_close_fn d')"
proof -
  let ?p = "tx_push_parameters n (scope_push d)"
  have g: "grows d ?p" unfolding tx_push_parameters_def by (rule grows_trans [OF grows_push(2) grows_push(1)])
  note i = grows_in [OF g assms]
  note c = level_tx_collect_params [OF i]
  have o: "level True nm ?p (tx_open_fn n i name d)" for nm
    unfolding tx_open_fn_def by (rule level_trans [OF c level_tx_emit_returns [OF level_known [OF c i]]])
  show "grows d (tx_open_fn n i name d)" by (rule grows_trans [OF g grows_level [OF o]])
  assume "level True nm (tx_open_fn n i name d) d'"
  from level_trans [OF o this] have "level True nm (scope_push d) (pop_type_parameters d')"
    unfolding tx_push_parameters_def by (rule level_params)
  then show "level True nm d (tx_close_fn d')" unfolding tx_close_fn_def by (rule level_scope)
qed

text \<open>The names of a tree that can be minted: those of definitions and of enum members.\<close>

definition tx_names_ok :: "(string \<Rightarrow> bool) \<Rightarrow> bytes \<Rightarrow> ts_node \<Rightarrow> bool" where
  "tx_names_ok nm src n \<longleftrightarrow>
     (\<forall>m \<in> set (ts_subtrees n).
        pred_option nm (ts_field_text src m ''name'')
        \<and> (ts_kind m = ''property_identifier'' \<longrightarrow> pred_option nm (ts_text src m)))"

lemma tx_names_child: "tx_names_ok nm src n \<Longrightarrow> c \<in> set (ts_children n) \<Longrightarrow> tx_names_ok nm src c"
  using ts_subtrees_child unfolding tx_names_ok_def by blast

lemma tx_names_name: "tx_names_ok nm src n \<Longrightarrow> ts_field_text src n ''name'' = Some t \<Longrightarrow> nm t"
  using ts_subtrees_self unfolding tx_names_ok_def by fastforce

lemma tx_variant_ok: "tx_names_ok nm src c \<Longrightarrow> tx_variant_name src c = Some t \<Longrightarrow> nm t"
  using ts_subtrees_self [of c] unfolding tx_names_ok_def tx_variant_name_def by (fastforce split: if_splits)

lemma level_tx_emit_variants:
  assumes "i \<in> known d" "nm name" "tx_names_ok nm (dr_src d) n"
  shows "level True nm d (tx_emit_variants n name i d)"
proof (cases "ts_field n ''body''")
  case (Some body)
  have "level True nm d (fold (\<lambda>c d. case tx_variant_name (dr_src d) c of
      None \<Rightarrow> d | Some vname \<Rightarrow> snd (add_variant i name vname c d)) (ts_named_children body) d)"
  proof (rule level_loop)
    fix c d' assume c: "c \<in> set (ts_named_children body)" and l: "level True nm d d'"
    have names: "tx_names_ok nm (dr_src d') c"
      using tx_names_child [OF tx_names_child [OF assms(3) ts_field_child [OF Some]] ts_named_child [OF c]] level_src [OF l]
      by simp
    show "level True nm d' (case tx_variant_name (dr_src d') c of
        None \<Rightarrow> d' | Some vname \<Rightarrow> snd (add_variant i name vname c d'))"
    proof (cases "tx_variant_name (dr_src d') c")
      case (Some v)
      obtain j d2 where add: "add_variant i name v c d' = (j, d2)" by fastforce
      from level_add_variant(1) [OF add level_known [OF l assms(1)] assms(2) tx_variant_ok [OF names Some]]
      show ?thesis by (simp add: Some add)
    qed simp
  qed
  then show ?thesis by (simp add: tx_emit_variants_def Some)
qed (simp add: tx_emit_variants_def)

section \<open>Definitions\<close>

lemma type_prefix: "''type'' = kind_prefix kind \<or> True \<and> (\<exists>k. ''type'' = kind_prefix k)"
  by (rule disjI2) (auto simp: kind_prefix_def intro: exI [of _ "''class''"])

lemma level_tx_add_type:
  assumes "tx_add_type n (''type'', kind) name d = (i, d')" "\<not> tx_is_function (ts_kind n)"
    and "dr_file_id d \<in> known d" "nm name" "kind \<noteq> ''enum_variant''"
  shows "level True nm d d'" "i \<in> known d'"
proof -
  obtain k where pk: "tx_kind_or n (''type'', kind) = (''type'', k)" "k \<noteq> ''enum_variant''"
    using assms(2,5)
    by (cases "tx_def_kind n") (auto simp: tx_kind_or_def tx_def_kind_def tx_is_function_def split: if_splits)
  have "add_def ''type'' k name n (dr_file_id d) None d = (i, d')" using assms(1) by (simp add: tx_add_type_def pk)
  note add = level_add_def [OF this assms(3) type_prefix pk(2), where nm = nm]
  show "level True nm d d'" "i \<in> known d'" by (rule add; simp add: assms(4))+
qed

definition enters :: "(string \<Rightarrow> bool) \<Rightarrow> 'v driver \<Rightarrow> 'v driver \<Rightarrow> bool" where
  "enters nm d d' \<longleftrightarrow> (\<exists>ps d0. level True nm d d0 \<and> level True nm (push_type_parameters ps d0) d')"

lemma enters_grows: "enters nm d d' \<Longrightarrow> grows d d'"
  unfolding enters_def using grows_level grows_push grows_trans by metis

lemma enters_left: "enters nm d d' \<Longrightarrow> level True nm d' d'' \<Longrightarrow> level True nm d (pop_type_parameters d'')"
  unfolding enters_def using level_params level_trans by metis

lemma enters_pushed:
  "level True nm d d0 \<Longrightarrow> level True nm (tx_push_parameters n d0) d' \<Longrightarrow> enters nm d d'"
  unfolding enters_def tx_push_parameters_def by blast

lemma known_pushed: "i \<in> known d \<Longrightarrow> i \<in> known (tx_push_parameters n d)"
  by (simp add: tx_push_parameters_def known_def push_type_parameters_def)

lemma tx_enter_class_effect:
  assumes "tx_enter_class n name d = (i, d')" "is_class_kind (ts_kind n)" "dr_file_id d \<in> known d" "nm name"
  shows "enters nm d d'" "i \<in> known d'"
proof -
  obtain j d1 where add: "tx_add_type n (''type'', ''class'') name d = (j, d1)" by fastforce
  have "\<not> tx_is_function (ts_kind n)" using assms(2) by (auto simp: is_class_kind_def tx_is_function_def)
  note d1 = level_tx_add_type [where nm = nm, OF add this assms(3,4), simplified]
  let ?a = "if ts_kind n = ''abstract_class_declaration'' then mark_abstract j d1 else d1"
  let ?l = "register_local_type (tx_base_type_name name) ?a"
  have l: "level True nm d1 ?l"
    by (rule level_trans [OF _ level_register_local_type]) (simp add: level_mark_abstract)
  have j: "j \<in> known (tx_push_parameters n ?l)" by (rule known_pushed [OF level_known [OF l d1(2)]])
  have res: "i = j" "d' = tx_emit_type_edges j n (tx_push_parameters n ?l)"
    using assms(1) by (auto simp: tx_enter_class_def add Let_def)
  note e = level_tx_emit_type_edges [OF j, of nm n]
  from enters_pushed [OF level_trans [OF d1(1) l] e] show "enters nm d d'" by (simp only: res)
  from level_known [OF e j] show "i \<in> known d'" by (simp only: res)
qed

lemma tx_enter_interface_effect:
  assumes "tx_enter_interface n name d = (i, d')" "ts_kind n = ''interface_declaration''"
    and "dr_file_id d \<in> known d" "nm name"
  shows "enters nm d d'" "i \<in> known d'"
proof -
  obtain j d1 where add: "tx_add_type n (''type'', ''interface'') name d = (j, d1)" by fastforce
  have "\<not> tx_is_function (ts_kind n)" using assms(2) by (simp add: tx_is_function_def)
  note d1 = level_tx_add_type [where nm = nm, OF add this assms(3,4), simplified]
  let ?l = "register_local_type (tx_base_type_name name) d1"
  let ?p = "tx_push_parameters n ?l"
  have l: "level True nm d1 ?l" by (rule level_register_local_type)
  have m: "level True nm ?p (mark_abstract j ?p)" by (rule level_mark_abstract)
  have j: "j \<in> known (mark_abstract j ?p)"
    by (rule level_known [OF m known_pushed [OF level_known [OF l d1(2)]]])
  have res: "i = j" "d' = tx_emit_type_edges j n (mark_abstract j ?p)"
    using assms(1) by (auto simp: tx_enter_interface_def add Let_def)
  note e = level_tx_emit_type_edges [OF j, of nm n]
  from enters_pushed [OF level_trans [OF d1(1) l] level_trans [OF m e]] show "enters nm d d'" by (simp only: res)
  from level_known [OF e j] show "i \<in> known d'" by (simp only: res)
qed

lemma tx_enter_alias_effect:
  assumes "ts_kind n = ''type_alias_declaration''" "dr_file_id d \<in> known d" "nm name"
  shows "enters nm d (tx_enter_alias n name d)"
proof -
  obtain j d1 where add: "tx_add_type n (''type'', ''type_alias'') name d = (j, d1)" by fastforce
  have "\<not> tx_is_function (ts_kind n)" using assms(1) by (simp add: tx_is_function_def)
  note d1 = level_tx_add_type [where nm = nm, OF add this assms(2,3), simplified]
  from enters_pushed [OF d1(1) level_tx_emit_type_edges [OF known_pushed [OF d1(2)]]]
  show ?thesis by (simp add: tx_enter_alias_def add)
qed

lemma level_tx_enter_enum:
  assumes "ts_kind n = ''enum_declaration''" "dr_file_id d \<in> known d" "nm name" "tx_names_ok nm (dr_src d) n"
  shows "level True nm d (tx_enter_enum n name d)"
proof -
  obtain j d1 where add: "tx_add_type n (''type'', ''enum'') name d = (j, d1)" by fastforce
  have "\<not> tx_is_function (ts_kind n)" using assms(1) by (simp add: tx_is_function_def)
  note d1 = level_tx_add_type [where nm = nm, OF add this assms(2,3), simplified]
  have "tx_names_ok nm (dr_src d1) n" using assms(4) level_src [OF d1(1)] by simp
  from level_trans [OF d1(1) level_tx_emit_variants [OF d1(2) assms(3) this]]
  show ?thesis by (simp add: tx_enter_enum_def add)
qed

lemma level_tx_add_fn:
  assumes "tx_add_fn pk name n cls d = (i, d')" "pk = (''fn'', ''function'')" "placed nm cur cls d" "nm name"
  shows "level True nm d d'" "i \<in> known d'"
proof -
  obtain container owner where c: "tx_container_of cls d = (container, owner)" by fastforce
  have k: "container \<in> known d" "pred_option nm owner"
    using c assms(3) by (auto simp: tx_container_of_def placed_def split: option.splits prod.splits)
  have "add_def ''fn'' ''function'' name n container owner d = (i, d')"
    using assms(1) by (simp add: tx_add_fn_def c assms(2))
  note add = level_add_def [OF this k(1), where nm = nm]
  show "level True nm d d'" "i \<in> known d'" by (rule add; simp add: k assms(4) kind_prefix_def)+
qed

lemma function_kind_or: "tx_is_function (ts_kind n) \<Longrightarrow> tx_kind_or n (''fn'', ''function'') = (''fn'', ''function'')"
  by (auto simp: tx_is_function_def tx_kind_or_def tx_def_kind_def is_class_kind_def)

lemma level_tx_visit:
  assumes "placed nm cur cls d"
  shows "level True nm d (tx_visit env n cur cls d)"
proof -
  have call: "level True nm d (tx_visit_call env n cur cls d)"
    using assms unfolding tx_visit_call_def placed_def
    by (auto split: option.splits prod.splits simp: Let_def intro: level_emit_call)
  have imp: "level True nm d (fold tx_emit_import us d)" for us
  proof (rule level_loop)
    fix u d' assume "level True nm d d'"
    then have "dr_file_id d' \<in> known d'" using placed_grows [OF assms grows_level] by (auto simp: placed_def)
    then show "level True nm d' (tx_emit_import u d')"
      by (auto simp: tx_emit_import_def Let_def split: prod.split intro: level_emit_import)
  qed
  show ?thesis unfolding tx_visit_def tx_handle_export_def by (simp add: call imp level_exports)
qed

section \<open>The walk\<close>

text \<open>The kinds that the walk tells apart are different.\<close>

lemma fun_kinds:
  "tx_is_function k \<Longrightarrow> \<not> is_class_kind k \<and> k \<noteq> ''interface_declaration'' \<and> k \<noteq> ''enum_declaration''
     \<and> k \<noteq> ''type_alias_declaration''"
  by (auto simp: tx_is_function_def is_class_kind_def)

lemma sig_kinds:
  "tx_is_signature pk n \<Longrightarrow> \<not> is_class_kind (ts_kind n) \<and> ts_kind n \<noteq> ''interface_declaration''
     \<and> ts_kind n \<noteq> ''enum_declaration'' \<and> ts_kind n \<noteq> ''type_alias_declaration'' \<and> \<not> tx_is_function (ts_kind n)"
  by (auto simp: tx_is_signature_def tx_is_function_def is_class_kind_def)

lemma declaration_kinds:
  "\<not> is_class_kind ''interface_declaration''" "\<not> is_class_kind ''enum_declaration''"
  "\<not> is_class_kind ''type_alias_declaration''" "\<not> is_class_kind ''variable_declarator''"
  "\<not> tx_is_function ''variable_declarator''"
  "ts_kind n = ''variable_declarator'' \<Longrightarrow> \<not> tx_is_signature pk n"
  by (simp_all add: tx_is_signature_def tx_is_function_def is_class_kind_def)

theorem tx_walk_level:
  assumes "tx_names_ok nm (dr_src d) n" "placed nm cur cls d"
  shows "level True nm d (tx_walk env pk n cur cls d)"
  using assms
proof (induction n arbitrary: pk cur cls d rule: measure_induct_rule [where f = size])
  case (less n)
  let ?src = "dr_src d"
  have kids: "level True nm d1 (fold (\<lambda>child. tx_walk env k child cur' cls') cs d1)"
    if "grows d d1" "placed nm cur' cls' d1" "\<And>c. c \<in> set cs \<Longrightarrow> size c < size n \<and> tx_names_ok nm ?src c"
    for d1 k cur' cls' cs
  proof (rule level_loop)
    fix c d2 assume c: "c \<in> set cs" and l: "level True nm d1 d2"
    have "tx_names_ok nm (dr_src d2) c" using that(3) [OF c] that(1) level_src [OF l] by (simp add: grows_def)
    then show "level True nm d2 (tx_walk env k c cur' cls' d2)"
      using that(3) [OF c] placed_grows [OF that(2) grows_level [OF l]] by (intro less.IH) simp_all
  qed
  have own: "size c < size n \<and> tx_names_ok nm ?src c" if "c \<in> set (ts_children n)" for c
    using ts_child_size [OF that] tx_names_child [OF less.prems(1) that] by simp
  have at_file: "dr_file_id d \<in> known d" using less.prems(2) by (simp add: placed_def)
  have fn: "level True nm d (tx_close_fn (fold (\<lambda>child. tx_walk env k child (Some (i, name)) cls) cs (tx_open_fn m i name d1)))"
    if "level True nm d d1" "i \<in> known d1" "\<And>c. c \<in> set cs \<Longrightarrow> size c < size n \<and> tx_names_ok nm ?src c" for d1 i name m k cs
  proof -
    note g = grows_trans [OF grows_level [OF that(1)] grows_open_fn(1) [OF that(2)]]
    have "placed nm (Some (i, name)) cls (tx_open_fn m i name d1)"
      by (rule placed_fn [OF placed_grows [OF less.prems(2) g] grows_in [OF grows_open_fn(1) [OF that(2)] that(2)]])
    from grows_open_fn(2) [OF that(2) kids [OF g this that(3)]] show ?thesis by (rule level_trans [OF that(1)])
  qed
  consider (class_item) name where "is_class_kind (ts_kind n)" "ts_field_text ?src n ''name'' = Some name"
    | (interface_item) name where "ts_kind n = ''interface_declaration''" "ts_field_text ?src n ''name'' = Some name"
    | (enum_item) name where "ts_kind n = ''enum_declaration''" "ts_field_text ?src n ''name'' = Some name"
    | (alias_item) name where "ts_kind n = ''type_alias_declaration''" "ts_field_text ?src n ''name'' = Some name"
    | (fun_item) name where "tx_is_function (ts_kind n)" "ts_field_text ?src n ''name'' = Some name"
    | (sig_item) name where "tx_is_signature pk n" "ts_field_text ?src n ''name'' = Some name"
    | (sig_unnamed) "tx_is_signature pk n" "ts_field_text ?src n ''name'' = None"
    | (fn_value) name v where "ts_kind n = ''variable_declarator''" "ts_field_text ?src n ''name'' = Some name" "tx_fn_value n = Some v"
    | (value_item) "ts_kind n = ''variable_declarator''" "\<not> (ts_field_text ?src n ''name'' \<noteq> None \<and> tx_fn_value n \<noteq> None)"
    | (other_item) "\<not> (is_class_kind (ts_kind n) \<and> ts_field_text ?src n ''name'' \<noteq> None)"
        "\<not> (ts_kind n = ''interface_declaration'' \<and> ts_field_text ?src n ''name'' \<noteq> None)"
        "\<not> (ts_kind n = ''enum_declaration'' \<and> ts_field_text ?src n ''name'' \<noteq> None)"
        "\<not> (ts_kind n = ''type_alias_declaration'' \<and> ts_field_text ?src n ''name'' \<noteq> None)"
        "\<not> (tx_is_function (ts_kind n) \<and> ts_field_text ?src n ''name'' \<noteq> None)"
        "\<not> tx_is_signature pk n" "ts_kind n \<noteq> ''variable_declarator''"
    by fast
  then show ?case
  proof cases
    case class_item
    note name = tx_names_name [OF less.prems(1) class_item(2)]
    obtain i d1 where enter: "tx_enter_class n name d = (i, d1)" by fastforce
    note eff = tx_enter_class_effect [where nm = nm, OF enter class_item(1) at_file name]
    note g = enters_grows [OF eff(1)]
    from enters_left [OF eff(1) kids [OF g placed_type [OF placed_grows [OF less.prems(2) g] eff(2) name] own]]
    show ?thesis by (simp add: tx_walk.simps [of env pk n] class_item enter Let_def)
  next
    case interface_item
    note name = tx_names_name [OF less.prems(1) interface_item(2)]
    obtain i d1 where enter: "tx_enter_interface n name d = (i, d1)" by fastforce
    note eff = tx_enter_interface_effect [where nm = nm, OF enter interface_item(1) at_file name]
    note g = enters_grows [OF eff(1)]
    from enters_left [OF eff(1) kids [OF g placed_type [OF placed_grows [OF less.prems(2) g] eff(2) name] own]]
    show ?thesis by (simp add: tx_walk.simps [of env pk n] interface_item declaration_kinds enter Let_def)
  next
    case enum_item
    note l = level_tx_enter_enum [where nm = nm, OF enum_item(1) at_file tx_names_name [OF less.prems(1) enum_item(2)] less.prems(1)]
    note g = grows_level [OF l]
    from level_trans [OF l kids [OF g placed_none [OF placed_grows [OF less.prems(2) g]] own]]
    show ?thesis by (simp add: tx_walk.simps [of env pk n] enum_item declaration_kinds Let_def)
  next
    case alias_item
    note eff = tx_enter_alias_effect [where nm = nm, OF alias_item(1) at_file tx_names_name [OF less.prems(1) alias_item(2)]]
    note g = enters_grows [OF eff]
    from enters_left [OF eff kids [OF g placed_none [OF placed_grows [OF less.prems(2) g]] own]]
    show ?thesis by (simp add: tx_walk.simps [of env pk n] alias_item declaration_kinds Let_def)
  next
    case fun_item
    obtain i d1 where add: "tx_add_fn (tx_kind_or n (''fn'', ''function'')) name n cls d = (i, d1)" by fastforce
    note eff = level_tx_add_fn [where nm = nm, OF add function_kind_or [OF fun_item(1)] less.prems(2)
        tx_names_name [OF less.prems(1) fun_item(2)]]
    from fn [OF eff own] show ?thesis
      by (simp add: tx_walk.simps [of env pk n] fun_item fun_kinds [OF fun_item(1)] add Let_def)
  next
    case sig_item
    obtain i d1 where add: "tx_add_fn (''fn'', ''function'') name n cls d = (i, d1)" by fastforce
    note eff = level_tx_add_fn [where nm = nm, OF add refl less.prems(2) tx_names_name [OF less.prems(1) sig_item(2)]]
    note m = level_mark_abstract [of True nm d1 i]
    from fn [OF level_trans [OF eff(1) m] level_known [OF m eff(2)] own] show ?thesis
      by (simp add: tx_walk.simps [of env pk n] sig_item sig_kinds [OF sig_item(1)] add Let_def)
  next
    case sig_unnamed
    then show ?thesis by (simp add: tx_walk.simps [of env pk n] Let_def)
  next
    case fn_value
    obtain i d1 where add: "tx_add_fn (''fn'', ''function'') name n cls d = (i, d1)" by fastforce
    note eff = level_tx_add_fn [where nm = nm, OF add refl less.prems(2) tx_names_name [OF less.prems(1) fn_value(2)]]
    have "size c < size n \<and> tx_names_ok nm ?src c" if "c \<in> set (ts_children v)" for c
      using tx_fn_child [OF fn_value(3) that]
        tx_names_child [OF tx_names_child [OF less.prems(1) ts_field_child [OF tx_fn_value_field [OF fn_value(3)]]] that]
      by simp
    from fn [OF eff this] show ?thesis
      by (simp add: tx_walk.simps [of env pk n] fn_value declaration_kinds add Let_def)
  next
    case value_item
    let ?k = "fold (\<lambda>child. tx_walk env (Some ''variable_declarator'') child cur cls) (ts_children n) d"
    let ?b = "infer_declarator_type ?src n"
    have k: "level True nm d ?k" by (rule kids [OF grows_level [OF level_refl] less.prems(2) own])
    have "level True nm ?k (case ?b of None \<Rightarrow> ?k | Some (var, ty) \<Rightarrow> scope_insert var ty ?k)"
      by (auto split: option.split intro: level_scope_insert)
    moreover have "tx_walk env pk n cur cls d = (case ?b of None \<Rightarrow> ?k | Some (var, ty) \<Rightarrow> scope_insert var ty ?k)"
      using value_item by (auto simp: tx_walk.simps [of env pk n] declaration_kinds Let_def)
    ultimately show ?thesis using level_trans [OF k] by simp
  next
    case other_item
    note l = level_tx_visit [OF less.prems(2), of env n]
    let ?k = "fold (\<lambda>child. tx_walk env (Some (ts_kind n)) child cur cls) (ts_children n) (tx_visit env n cur cls d)"
    have "level True nm (tx_visit env n cur cls d) ?k"
      by (rule kids [OF grows_level [OF l] placed_grows [OF less.prems(2) grows_level [OF l]] own])
    moreover have "tx_walk env pk n cur cls d = ?k"
      unfolding tx_walk.simps [of env pk n] Let_def using other_item by (simp only: if_False simp_thms)
    ultimately show ?thesis using level_trans [OF l] by simp
  qed
qed
end
