(* ===== verification/Typescript_Props.thy ===== *)
theory Typescript_Props
  imports Typescript_Steps Driver_Props
begin

text \<open>
  What every extraction of a TypeScript or JavaScript file satisfies.
\<close>

lemma tx_extract_steps:
  assumes "tx_extract env a src = Inr x"
  shows "\<exists>tree. tx_parse env (ends_with (a_path a) ''x'') src = Some tree \<and>
     (\<forall>nm. tx_names_ok nm src tree \<longrightarrow>
       (\<exists>d :: string driver. dr_steps True nm (driver_new a src ''typescript'') d \<and> x = driver_finish d))"
proof -
  let ?d = "driver_new a src ''typescript'' :: string driver"
  obtain tree where tree: "tx_parse env (ends_with (a_path a) ''x'') src = Some tree"
      "x = driver_finish (tx_walk env None tree None None ?d)"
    using assms by (auto simp: tx_extract_def Let_def split: option.splits)
  have "dr_src ?d = src" "placed nm None None ?d" for nm
    by (simp_all add: placed_def known_def driver_new_def Let_def node_new_def)
  then have "level True nm ?d (tx_walk env None tree None None ?d)" if "tx_names_ok nm src tree" for nm
    using that by (intro tx_walk_level) simp_all
  then show ?thesis using tree unfolding level_def by blast
qed

lemma tx_any_names: "tx_names_ok (\<lambda>_. True) src n"
proof -
  have "pred_option (\<lambda>_. True) y" for y :: "string option" by (cases y) simp_all
  then show ?thesis by (simp add: tx_names_ok_def)
qed

text \<open>C14. In what the TypeScript extractor returns for any parse tree, the first node is the file's, every edge starts
  at a node, only \<open>contains\<close> and \<open>has_variant\<close> edges point at nodes, and these are one per definition, in the
  order of the definitions.\<close>

theorem typescript_extraction_wired:
  assumes "tx_extract env a src = Inr x"
  shows "wired_parts (NodeId (''file:'' @ a_path a)) (x_nodes x) (x_edges x)"
proof -
  obtain d :: "string driver"
    where "dr_steps True (\<lambda>_. True) (driver_new a src ''typescript'') d" "x = driver_finish d"
    using tx_extract_steps [OF assms] tx_any_names by blast
  then show ?thesis using wired_end by blast
qed

text \<open>If the names that a TypeScript file declares contain neither \<open>#\<close> nor \<open>~\<close>, and there are at most
  \<open>2 ^ 32\<close> nodes, the ids of its extraction are distinct.\<close>

theorem typescript_ids_distinct:
  assumes "tx_extract env a src = Inr x" "tx_parse env (ends_with (a_path a) ''x'') src = Some tree"
    and "tx_names_ok clean src tree" "length (x_nodes x) \<le> 2 ^ 32"
  shows "distinct (map n_id (x_nodes x))"
proof -
  obtain d :: "string driver" where d: "dr_steps True clean (driver_new a src ''typescript'') d" "x = driver_finish d"
    using tx_extract_steps [OF assms(1)] assms(2,3) by auto
  from distinct_ids_end [OF d(1)] assms(4) show ?thesis by (simp add: d(2))
qed

text \<open>The walk of any TypeScript tree leaves the type parameters and the outer variable scopes as it found them.\<close>

theorem typescript_walk_nests:
  assumes "placed (\<lambda>_. True) cur cls d" "tps_ok d"
  shows "dr_tp_stack (tx_walk env pk n cur cls d) = dr_tp_stack d" "dr_tps (tx_walk env pk n cur cls d) = dr_tps d"
    "length (dr_scopes (tx_walk env pk n cur cls d)) = length (dr_scopes d)"
    "tl (dr_scopes (tx_walk env pk n cur cls d)) = tl (dr_scopes d)"
  using tx_walk_level [OF tx_any_names assms(1), of env pk n] assms(2) by (simp_all add: level_def tps_ok_def)

end
