(* ===== verification/Typescript_Examples.thy ===== *)
theory Typescript_Examples
  imports Python_Examples Typescript_Props
begin

text \<open>
  Small TypeScript files, laid out as in \<open>Rust_Examples\<close>: witnesses for \<open>Typescript_Props\<close>, and files on which the
  extractor does not do what its comments say.
\<close>

section \<open>Laying out a file\<close>

definition tx_art :: artifact where
  "tx_art = \<lparr>a_path = ''a.ts'', a_kind = Code, a_language = Some ''typescript''\<rparr>"

definition tx_file :: "(string option \<times> sketch) list \<Rightarrow> ts_node \<times> string" where
  "tx_file items = lay 0 (Tree ''program'' items)"

definition tx_parser :: "(string option \<times> sketch) list \<Rightarrow> bool \<Rightarrow> bytes \<Rightarrow> ts_node option" where
  "tx_parser items jsx src = Some (fst (tx_file items))"

definition ex_tx :: "(string option \<times> sketch) list \<Rightarrow> tx_env" where
  "ex_tx items = \<lparr>tx_grammar_error = (\<lambda>_. None), tx_parse = tx_parser items,
     tx_first_upper = (\<lambda>s. case s of [] \<Rightarrow> False | c # _ \<Rightarrow> CHR ''A'' \<le> c \<and> c \<le> CHR ''Z'')\<rparr>"

definition tx_extracted :: "(string option \<times> sketch) list \<Rightarrow> error + extraction" where
  "tx_extracted items = tx_extract (ex_tx items) tx_art (snd (tx_file items))"

text \<open>\<open>class C { members }\<close>, \<open>x : T\<close>, \<open>f ( params ) { body }\<close>, \<open>f = ( ) { body }\<close>, \<open>this . f ( )\<close>\<close>

definition tx_block :: "(string option \<times> sketch) list \<Rightarrow> string option \<times> sketch" where
  "tx_block body = (Some ''body'', Tree ''statement_block'' ([punct ''{''] @ body @ [punct ''}'']))"

definition tx_members_of :: "(string option \<times> sketch) list \<Rightarrow> string option \<times> sketch" where
  "tx_members_of ms = (Some ''body'', Tree ''class_body'' ([punct ''{''] @ ms @ [punct ''}'']))"

definition tx_class :: "string \<Rightarrow> (string option \<times> sketch) list \<Rightarrow> string option \<times> sketch" where
  "tx_class name ms = plain (Tree ''class_declaration'' [punct ''class'', (Some ''name'', type_id name), tx_members_of ms])"

definition tx_typed :: "string \<Rightarrow> string option \<times> sketch" where
  "tx_typed ty = (Some ''type'', Tree ''type_annotation'' [punct '':'', plain (type_id ty)])"

definition tx_field_item :: "string \<Rightarrow> string \<Rightarrow> string option \<times> sketch" where
  "tx_field_item name ty = plain (Tree ''public_field_definition''
     [(Some ''name'', Tok ''property_identifier'' True name), tx_typed ty])"

definition tx_params :: "(string option \<times> sketch) list \<Rightarrow> string option \<times> sketch" where
  "tx_params ps = (Some ''parameters'', Tree ''formal_parameters'' ([punct ''(''] @ ps @ [punct '')'']))"

definition tx_parameter :: "string \<Rightarrow> string \<Rightarrow> string option \<times> sketch" where
  "tx_parameter name ty = plain (Tree ''required_parameter'' [(Some ''pattern'', ident name), tx_typed ty])"

definition tx_method ::
  "string \<Rightarrow> (string option \<times> sketch) list \<Rightarrow> (string option \<times> sketch) list \<Rightarrow> string option \<times> sketch"
where
  "tx_method name ps body = plain (Tree ''method_definition''
     [(Some ''name'', Tok ''property_identifier'' True name), tx_params ps, tx_block body])"

definition tx_function :: "string \<Rightarrow> (string option \<times> sketch) list \<Rightarrow> string option \<times> sketch" where
  "tx_function name body = plain (Tree ''function_declaration''
     [punct ''function'', (Some ''name'', ident name), tx_params [], tx_block body])"

definition tx_arrow :: "string \<Rightarrow> (string option \<times> sketch) list \<Rightarrow> sketch" where
  "tx_arrow name body = Tree ''variable_declarator''
     [(Some ''name'', ident name), punct ''='',
      (Some ''value'', Tree ''arrow_function'' [tx_params [], punct ''=>'', tx_block body])]"

definition tx_this_call :: "string \<Rightarrow> string option \<times> sketch" where
  "tx_this_call name = plain (Tree ''call_expression''
     [(Some ''function'', Tree ''member_expression''
         [(Some ''object'', Tok ''this'' True ''this''), punct ''.'',
          (Some ''property'', Tok ''property_identifier'' True name)]),
      (Some ''arguments'', Tree ''arguments'' [punct ''('', punct '')''])])"

section \<open>A class with a field and a method, and a function\<close>

definition cart_items :: "(string option \<times> sketch) list" where
  "cart_items = [tx_class ''Cart'' [tx_field_item ''owner'' ''Person'',
      tx_method ''go'' [tx_parameter ''x'' ''Item''] [tx_this_call ''stop'']],
    tx_function ''go'' []]"

definition cart_tree :: ts_node where
  "cart_tree = fst (tx_file cart_items)"

definition cart_src :: string where
  "cart_src = snd (tx_file cart_items)"

definition cart_x :: extraction where
  "cart_x = (case tx_extract (ex_tx cart_items) tx_art cart_src of
      Inr x \<Rightarrow> x | Inl _ \<Rightarrow> \<lparr>x_nodes = [], x_edges = [], x_exports = []\<rparr>)"

lemma cart_outline:
  "outline (tx_extracted cart_items) = Some
    ([''file:a.ts'', ''type:a.ts:Cart'', ''fn:a.ts:Cart::go'', ''fn:a.ts:go''],
     [(''file:a.ts'', ''contains'', ''type:a.ts:Cart''), (''type:a.ts:Cart'', ''type/field'', ''Person''),
      (''type:a.ts:Cart'', ''contains'', ''fn:a.ts:Cart::go''), (''fn:a.ts:Cart::go'', ''type/param'', ''Item''),
      (''fn:a.ts:Cart::go'', ''calls'', ''stop''), (''file:a.ts'', ''contains'', ''fn:a.ts:go'')])"
  by code_simp

lemma cart_extracted: "tx_extract (ex_tx cart_items) tx_art cart_src = Inr cart_x"
proof -
  have "tx_extracted cart_items = tx_extract (ex_tx cart_items) tx_art cart_src"
    by (simp add: tx_extracted_def cart_src_def)
  with cart_outline show ?thesis by (auto simp: outline_def cart_x_def split: sum.splits)
qed

lemma cart_parse: "tx_parse (ex_tx cart_items) (ends_with (a_path tx_art) ''x'') cart_src = Some cart_tree"
  by (simp add: ex_tx_def tx_parser_def cart_tree_def)

lemma cart_clean: "tx_names_ok clean cart_src cart_tree"
  by code_simp

lemma cart_small: "length (x_nodes cart_x) \<le> 2 ^ 32"
proof -
  have "length (x_nodes cart_x) = 4" by code_simp
  then show ?thesis by simp
qed

theorem typescript_extraction_wired_witness:
  "wired_parts (NodeId ''file:a.ts'') (x_nodes cart_x) (x_edges cart_x)"
  using typescript_extraction_wired [OF cart_extracted] by (simp add: tx_art_def)

theorem typescript_ids_distinct_witness: "distinct (map n_id (x_nodes cart_x))"
  by (rule typescript_ids_distinct [OF cart_extracted cart_parse cart_clean cart_small])

section \<open>Where code and comments part\<close>

text \<open>A function nested in a method is recorded as a method of the class.\<close>

lemma typescript_nested_function_is_method:
  "outline (tx_extracted [tx_class ''C'' [tx_method ''m'' [] [tx_function ''helper'' []]]]) = Some
    ([''file:a.ts'', ''type:a.ts:C'', ''fn:a.ts:C::m'', ''fn:a.ts:C::helper''],
     [(''file:a.ts'', ''contains'', ''type:a.ts:C''), (''type:a.ts:C'', ''contains'', ''fn:a.ts:C::m''),
      (''type:a.ts:C'', ''contains'', ''fn:a.ts:C::helper'')])"
  by code_simp

text \<open>The methods of a class expression \<open>A = class { \<dots> }\<close> are free functions.\<close>

lemma class_expression_methods_are_free:
  "outline (tx_extracted [plain (Tree ''variable_declarator'' [(Some ''name'', ident ''A''), punct ''='',
       (Some ''value'', Tree ''class'' [punct ''class'', tx_members_of [tx_method ''go'' [] []]])])]) = Some
    ([''file:a.ts'', ''fn:a.ts:go''], [(''file:a.ts'', ''contains'', ''fn:a.ts:go'')])"
  by code_simp

text \<open>The declaration text of an arrow function, from which the ids of colliding functions are made, has its body;
  that of a function declaration does not.\<close>

definition tx_decl_text :: "sketch \<Rightarrow> string" where
  "tx_decl_text s = (case lay 0 s of (n, src) \<Rightarrow> decl_text (driver_new tx_art src ''typescript'' :: string driver) n)"

lemma arrow_body_in_declaration:
  "tx_decl_text (tx_arrow ''f'' [tx_this_call ''g'']) = ''f = ( ) => { this . g ( ) }''
   \<and> tx_decl_text (snd (tx_function ''f'' [tx_this_call ''g''])) = ''function f ( )''"
  by (intro conjI; code_simp)

text \<open>An exported constant is in the export table, and there is no node for it.\<close>

definition tx_constant :: "(string option \<times> sketch) list" where
  "tx_constant = [plain (Tree ''export_statement'' [punct ''export'', (Some ''declaration'', Tree ''lexical_declaration''
     [punct ''const'', plain (Tree ''variable_declarator''
        [(Some ''name'', ident ''x''), punct ''='', (Some ''value'', Tok ''number'' True ''1'')])])])]"

lemma exported_constant_has_no_node:
  "(case tx_extracted tx_constant of Inl _ \<Rightarrow> None | Inr x \<Rightarrow> Some (map n_id (x_nodes x), x_exports x))
     = Some ([NodeId ''file:a.ts''], [Local ''x''])"
  by code_simp

end
