(* ===== verification/Managed_Block.thy ===== *)
theory Managed_Block
  imports Prelude
begin

text \<open>
  Managed blocks (\<^verbatim>\<open>filigrio-install/src/block.rs\<close>): a region between two marker lines inside a file of the
  user's. What is installed over a file and then removed leaves the file, and installing again replaces the region.
  A file's text is a string; the reading and writing of files is not part of the theory.
\<close>

section \<open>Lines\<close>

abbreviation LF :: char where
  "LF \<equiv> CHR 0x0A"

text \<open>\<open>split_inclusive('\n')\<close>: the lines, each with its line feed.\<close>

fun split_inclusive :: "string \<Rightarrow> string list" where
  "split_inclusive [] = []"
| "split_inclusive (c # s) =
     (if c = LF then [c] # split_inclusive s
      else (case split_inclusive s of [] \<Rightarrow> [[c]] | l # ls \<Rightarrow> (c # l) # ls))"

definition is_eol :: "char \<Rightarrow> bool" where
  "is_eol c \<longleftrightarrow> c = LF \<or> c = CHR 0x0D"

definition trim_eol :: "string \<Rightarrow> string" where
  "trim_eol s = rev (dropWhile is_eol (rev s))"

definition ended :: "string \<Rightarrow> bool" where
  "ended s \<longleftrightarrow> s = [] \<or> last s = LF"

lemma ended_LF: "ended s \<Longrightarrow> ended (LF # s)"
  by (auto simp: ended_def)

lemma ended_Cons: "ended s \<Longrightarrow> s \<noteq> [] \<Longrightarrow> ended (c # s)"
  by (auto simp: ended_def)

lemma split_inclusive_Nil [simp]: "split_inclusive s = [] \<longleftrightarrow> s = []"
  by (cases s) (auto split: list.split)

lemma concat_split [simp]: "concat (split_inclusive s) = s"
proof (induction s)
  case (Cons c s)
  then show ?case by (cases "split_inclusive s") auto
qed simp

lemma split_append: "ended s \<Longrightarrow> split_inclusive (s @ t) = split_inclusive s @ split_inclusive t"
proof (induction s)
  case (Cons c s)
  show ?case
  proof (cases "s = []")
    case True
    with Cons.prems show ?thesis by (simp add: ended_def)
  next
    case False
    with Cons have "split_inclusive (s @ t) = split_inclusive s @ split_inclusive t" by (simp add: ended_def)
    moreover have "split_inclusive s \<noteq> []" using False by simp
    ultimately show ?thesis by (cases "split_inclusive s") simp_all
  qed
qed (simp add: ended_def)

lemma split_line: "LF \<notin> set s \<Longrightarrow> split_inclusive (s @ [LF]) = [s @ [LF]]"
  by (induction s) auto

lemma trim_eol_Cons: "trim_eol (c # s) = (if trim_eol s = [] \<and> is_eol c then [] else c # trim_eol s)"
  by (auto simp: trim_eol_def dropWhile_append)

lemma trim_eol_LF: "trim_eol (s @ [LF]) = trim_eol s"
  by (simp add: trim_eol_def is_eol_def)

text \<open>A final line feed adds at most an empty line.\<close>

lemma trimmed_lines_LF:
  "map trim_eol (split_inclusive (s @ [LF])) = map trim_eol (split_inclusive s) @ (if ended s then [[]] else [])"
proof (induction s)
  case Nil
  show ?case by (simp add: ended_def trim_eol_def is_eol_def)
next
  case (Cons c s)
  show ?case
  proof (cases "c = LF")
    case True
    with Cons show ?thesis by (simp add: ended_def)
  next
    case False
    show ?thesis
    proof (cases "split_inclusive s")
      case Nil
      with False show ?thesis by (simp add: ended_def trim_eol_def is_eol_def)
    next
      case (Cons l ls)
      then have "s \<noteq> []" by auto
      obtain l' ls' where l': "split_inclusive (s @ [LF]) = l' # ls'" by (cases "split_inclusive (s @ [LF])") simp_all
      have "trim_eol l' = trim_eol l" using Cons.IH l' Cons by simp
      then have "trim_eol (c # l') = trim_eol (c # l)" by (simp add: trim_eol_Cons)
      with Cons.IH l' Cons False \<open>s \<noteq> []\<close> show ?thesis by (simp add: ended_def)
    qed
  qed
qed

text \<open>The lines before a line of a text end with a line feed, and are the lines of what they make.\<close>

lemma split_prefix: "split_inclusive s = a @ b \<Longrightarrow> b \<noteq> [] \<Longrightarrow> ended (concat a) \<and> split_inclusive (concat a) = a"
proof (induction s arbitrary: a)
  case (Cons c s)
  show ?case
  proof (cases a)
    case (Cons x xs)
    show ?thesis
    proof (cases "c = LF")
      case True
      with Cons Cons.prems have "x = [LF]" "split_inclusive s = xs @ b" by simp_all
      with Cons.IH [of xs] Cons.prems(2) have "ended (concat xs)" "split_inclusive (concat xs) = xs" by simp_all
      then show ?thesis using ended_LF [of "concat xs"] by (simp add: Cons \<open>x = [LF]\<close>)
    next
      case False
      with Cons Cons.prems obtain l where x: "x = c # l" and "split_inclusive s = l # xs @ b \<or> l = [] \<and> xs @ b = []"
        by (cases "split_inclusive s") auto
      then have "split_inclusive s = (l # xs) @ b" using Cons.prems(2) by simp
      with Cons.IH [of "l # xs"] Cons.prems(2)
      have e: "ended (l @ concat xs)" "split_inclusive (l @ concat xs) = l # xs" by simp_all
      have "l @ concat xs \<noteq> []" using e(2) by (metis list.distinct(1) split_inclusive.simps(1))
      from ended_Cons [OF e(1) this] e(2) False show ?thesis by (simp add: Cons x)
    qed
  qed (simp add: ended_def)
qed simp

lemma split_suffix: "split_inclusive s = a @ b \<Longrightarrow> split_inclusive (concat b) = b"
proof (cases "b = []")
  case False
  assume split: "split_inclusive s = a @ b"
  then have s: "s = concat a @ concat b" using concat_split [of s] by simp
  note pre = split_prefix [OF split False]
  have "split_inclusive s = a @ split_inclusive (concat b)"
    using split_append [of "concat a" "concat b"] pre by (simp add: s)
  with split show ?thesis by simp
qed simp

section \<open>The operations\<close>

record markers =
  m_start :: string
  m_end :: string

definition MARKDOWN :: markers where
  "MARKDOWN = \<lparr>m_start = ''<!-- filigrio:start -->'', m_end = ''<!-- filigrio:end -->''\<rparr>"

definition SHELL :: markers where
  "SHELL = \<lparr>m_start = ''# filigrio-hook-start'', m_end = ''# filigrio-hook-end''\<rparr>"

definition YAML :: markers where
  "YAML = \<lparr>m_start = ''# filigrio:start'', m_end = ''# filigrio:end''\<rparr>"

definition is_start :: "markers \<Rightarrow> string \<Rightarrow> bool" where
  "is_start m l \<longleftrightarrow> trim (trim_eol l) = m_start m"

definition is_end :: "markers \<Rightarrow> string \<Rightarrow> bool" where
  "is_end m l \<longleftrightarrow> trim (trim_eol l) = m_end m"

text \<open>A start without an end runs to the end of the text.\<close>

fun find_from :: "markers \<Rightarrow> nat option \<Rightarrow> nat \<Rightarrow> string list \<Rightarrow> (nat \<times> nat) option" where
  "find_from m start offset [] = map_option (\<lambda>s. (s, offset)) start"
| "find_from m start offset (l # ls) =
     (case start of
        None \<Rightarrow> find_from m (if is_start m l then Some offset else None) (offset + length l) ls
      | Some s \<Rightarrow> if is_end m l then Some (s, offset + length l) else find_from m start (offset + length l) ls)"

definition block_find :: "string \<Rightarrow> markers \<Rightarrow> (nat \<times> nat) option" where
  "block_find content m = find_from m None 0 (split_inclusive content)"

definition has_block :: "string \<Rightarrow> markers \<Rightarrow> bool" where
  "has_block content m \<longleftrightarrow> block_find content m \<noteq> None"

text \<open>\<open>&content[s..e]\<close>\<close>

definition text_slice :: "string \<Rightarrow> nat \<times> nat \<Rightarrow> string" where
  "text_slice content r = take (snd r - fst r) (drop (fst r) content)"

definition body_of :: "string \<Rightarrow> markers \<Rightarrow> string option" where
  "body_of content m =
     map_option (\<lambda>r.
         let ls = tl (lines (text_slice content r));
             ls = (if ls \<noteq> [] \<and> trim (last ls) = m_end m then butlast ls else ls)
         in join_str [LF] ls)
       (block_find content m)"

definition trim_newlines :: "string \<Rightarrow> string" where
  "trim_newlines s = trim_end_char LF (trim_start_char LF s)"

definition block_text :: "string \<Rightarrow> markers \<Rightarrow> string" where
  "block_text body m = m_start m @ [LF] @ trim_newlines body @ [LF] @ m_end m @ [LF]"

definition block_append :: "string \<Rightarrow> string \<Rightarrow> string" where
  "block_append content block =
     (if content = [] then block
      else content @ (if ends_with content [LF] then [] else [LF]) @ [LF] @ block)"

text \<open>Where a text's lines leave and enter the block.\<close>

fun upto_end :: "markers \<Rightarrow> string list \<Rightarrow> nat" where
  "upto_end m [] = 0"
| "upto_end m (l # ls) = (if is_end m l then length l else length l + upto_end m ls)"

lemma find_from_open: "find_from m (Some s) offset ls = Some (s, offset + upto_end m ls)"
  by (induction ls arbitrary: offset) simp_all

lemma find_from_closed:
  "find_from m None offset ls =
     (case dropWhile (\<lambda>l. \<not> is_start m l) ls of
        [] \<Rightarrow> None
      | l # rest \<Rightarrow>
          (let s = offset + length (concat (takeWhile (\<lambda>l. \<not> is_start m l) ls))
           in Some (s, s + length l + upto_end m rest)))"
proof (induction ls arbitrary: offset)
  case (Cons l ls)
  show ?case
  proof (cases "is_start m l")
    case False
    then have "find_from m None offset (l # ls) = find_from m None (offset + length l) ls" by simp
    then show ?thesis
      by (cases "dropWhile (\<lambda>l. \<not> is_start m l) ls")
        (simp_all only: Cons.IH dropWhile.simps takeWhile.simps False not_False_eq_True if_True list.case Let_def
          concat.simps length_append add.assoc)
  qed (simp add: find_from_open Let_def)
qed simp

lemma upto_end_le: "upto_end m ls \<le> length (concat ls)"
  by (induction ls) auto

lemma split_lines_nonempty: "l \<in> set (split_inclusive s) \<Longrightarrow> l \<noteq> []"
proof (induction s)
  case (Cons c s)
  then show ?case by (cases "split_inclusive s") (auto split: if_splits)
qed simp

lemma find_bounds:
  assumes "block_find content m = Some (s, e)"
  shows "s < e" "e \<le> length content"
proof -
  let ?ls = "split_inclusive content"
  let ?no = "\<lambda>l. \<not> is_start m l"
  obtain l rest where d: "dropWhile ?no ?ls = l # rest"
    using assms by (auto simp: block_find_def find_from_closed split: list.splits)
  then have se: "s = length (concat (takeWhile ?no ?ls))" "e = s + length l + upto_end m rest"
    using assms by (auto simp: block_find_def find_from_closed Let_def)
  have split: "?ls = takeWhile ?no ?ls @ l # rest" using d by (metis takeWhile_dropWhile_id)
  then have "l \<in> set ?ls" by (metis in_set_conv_decomp)
  then show "s < e" using split_lines_nonempty by (simp add: se)
  have "content = concat (takeWhile ?no ?ls) @ l @ concat rest" using arg_cong [OF split, of concat] by simp
  from arg_cong [OF this, of length] have "length content = s + length l + length (concat rest)"
    by (simp add: se(1))
  then show "e \<le> length content" using upto_end_le [of m rest] by (simp add: se(2))
qed

lemma find_shrinks: "block_find content m = Some (s, e) \<Longrightarrow> length (take s content @ drop e content) < length content"
  using find_bounds [of content m s e] by simp

function strip_all :: "string \<Rightarrow> markers \<Rightarrow> string" where
  "strip_all content m =
     (case block_find content m of
        None \<Rightarrow> content | Some (s, e) \<Rightarrow> strip_all (take s content @ drop e content) m)"
  by pat_completeness auto
termination
  by (relation "measure (\<lambda>(content, _). length content)") (use find_shrinks in auto)

declare strip_all.simps [simp del]

definition block_upsert :: "string \<Rightarrow> string \<Rightarrow> markers \<Rightarrow> string" where
  "block_upsert content body m =
     (let block = block_text body m
      in case block_find content m of
           None \<Rightarrow> block_append content block
         | Some (s, e) \<Rightarrow> take s content @ block @ strip_all (drop e content) m)"

definition block_remove :: "string \<Rightarrow> markers \<Rightarrow> string option" where
  "block_remove content m =
     map_option (\<lambda>(s, e).
         let head = take s content
         in (case strip_suffix head [LF] of Some h \<Rightarrow> h | None \<Rightarrow> head) @ strip_all (drop e content) m)
       (block_find content m)"

section \<open>What is found\<close>

definition no_start :: "markers \<Rightarrow> string \<Rightarrow> bool" where
  "no_start m s \<longleftrightarrow> list_all (\<lambda>l. \<not> is_start m l) (split_inclusive s)"

text \<open>Markers are lines that trimming leaves alone, and a body must not have the line that ends it.\<close>

definition markers_ok :: "markers \<Rightarrow> bool" where
  "markers_ok m \<longleftrightarrow>
     m_start m \<noteq> [] \<and> m_end m \<noteq> [] \<and> LF \<notin> set (m_start m) \<and> LF \<notin> set (m_end m)
     \<and> trim (trim_eol (m_start m)) = m_start m \<and> trim (trim_eol (m_end m)) = m_end m"

definition body_ok :: "markers \<Rightarrow> string \<Rightarrow> bool" where
  "body_ok m body \<longleftrightarrow> list_all (\<lambda>l. \<not> is_end m l) (split_inclusive (trim_newlines body))"

lemma shipped_markers_ok: "markers_ok MARKDOWN" "markers_ok SHELL" "markers_ok YAML"
  by code_simp+

lemma find_None_iff: "block_find s m = None \<longleftrightarrow> no_start m s"
  unfolding block_find_def find_from_closed no_start_def list_all_iff dropWhile_eq_Nil_conv [symmetric]
  by (cases "dropWhile (\<lambda>l. \<not> is_start m l) (split_inclusive s)") (simp_all add: Let_def del: dropWhile_eq_Nil_conv)

lemma no_start_Nil [simp]: "no_start m []"
  by (simp add: no_start_def)

lemma no_start_append: "ended s \<Longrightarrow> no_start m (s @ t) \<longleftrightarrow> no_start m s \<and> no_start m t"
  by (simp add: no_start_def split_append)

lemma trim_Nil: "trim [] = []"
  by (simp add: trim_def trim_start_def trim_end_def)

lemma all_trimmed: "list_all (\<lambda>l. Q (trim_eol l)) ls \<longleftrightarrow> list_all Q (map trim_eol ls)"
  by (simp add: list_all_iff)

lemma no_start_LF: "markers_ok m \<Longrightarrow> no_start m s \<Longrightarrow> no_start m (s @ [LF])"
  by (auto simp: no_start_def is_start_def all_trimmed [of "\<lambda>t. trim t \<noteq> m_start m"] trimmed_lines_LF markers_ok_def trim_Nil)

lemma upto_end_body:
  "list_all (\<lambda>l. \<not> is_end m l) ls \<Longrightarrow> is_end m e \<Longrightarrow> upto_end m (ls @ e # rest) = length (concat ls) + length e"
  by (induction ls) auto

text \<open>The block that is written between two texts, without a start before it, is found.\<close>

lemma block_lines:
  assumes "markers_ok m"
  shows "split_inclusive (block_text body m @ rest) =
     (m_start m @ [LF]) # split_inclusive (trim_newlines body @ [LF]) @ (m_end m @ [LF]) # split_inclusive rest"
proof -
  have a: "split_inclusive (m_start m @ [LF]) = [m_start m @ [LF]]" "split_inclusive (m_end m @ [LF]) = [m_end m @ [LF]]"
    using assms by (simp_all add: markers_ok_def split_line)
  have e: "ended (s @ [LF])" for s by (simp add: ended_def)
  have "block_text body m @ rest = (m_start m @ [LF]) @ (trim_newlines body @ [LF]) @ (m_end m @ [LF]) @ rest"
    by (simp add: block_text_def)
  then show ?thesis by (simp only: split_append [OF e] a append.simps)
qed

lemma find_framed:
  assumes "markers_ok m" "body_ok m body" "ended pre" "no_start m pre"
  shows "block_find (pre @ block_text body m @ rest) m = Some (length pre, length pre + length (block_text body m))"
proof -
  let ?b = "split_inclusive (trim_newlines body @ [LF])"
  let ?no = "\<lambda>l. \<not> is_start m l"
  have start: "is_start m (m_start m @ [LF])" and stop: "is_end m (m_end m @ [LF])"
    using assms(1) by (simp_all add: is_start_def is_end_def trim_eol_LF markers_ok_def)
  have "list_all (\<lambda>l. \<not> is_end m l) ?b"
    using assms(1,2)
    by (auto simp: body_ok_def is_end_def all_trimmed [of "\<lambda>t. trim t \<noteq> m_end m"] trimmed_lines_LF markers_ok_def trim_Nil)
  note upto = upto_end_body [OF this stop]
  have pre: "dropWhile ?no (split_inclusive pre @ ls) = dropWhile ?no ls"
    "takeWhile ?no (split_inclusive pre @ ls) = split_inclusive pre @ takeWhile ?no ls" for ls
    using assms(4) by (simp_all add: no_start_def list_all_iff)
  show ?thesis
    unfolding block_find_def find_from_closed split_append [OF assms(3)] block_lines [OF assms(1)] pre
    by (simp add: start upto block_text_def Let_def)
qed

lemma strip_all_none: "no_start m s \<Longrightarrow> strip_all s m = s"
  by (simp add: strip_all.simps [of s m] find_None_iff [symmetric])

lemma strip_all_clean: "no_start m (strip_all s m)"
proof (induction s m rule: strip_all.induct)
  case (1 s m)
  show ?case
  proof (cases "block_find s m")
    case None
    then have "no_start m s" by (simp add: find_None_iff)
    then show ?thesis by (simp add: strip_all_none)
  next
    case (Some r)
    with 1 show ?thesis by (cases r) (simp add: strip_all.simps [of s m])
  qed
qed

lemma before_block:
  assumes "block_find s m = Some (a, b)"
  shows "ended (take a s)" "no_start m (take a s)"
proof -
  let ?ls = "split_inclusive s" and ?no = "\<lambda>l. \<not> is_start m l"
  let ?p = "takeWhile ?no ?ls"
  obtain l rest where d: "dropWhile ?no ?ls = l # rest"
    using assms by (auto simp: block_find_def find_from_closed split: list.splits)
  then have a: "a = length (concat ?p)" using assms by (auto simp: block_find_def find_from_closed Let_def)
  have split: "?ls = ?p @ l # rest" using d by (metis takeWhile_dropWhile_id)
  then have "s = concat ?p @ concat (l # rest)" by (metis concat_append concat_split)
  then have "take a s = concat ?p" by (metis a append_eq_conv_conj)
  with split_prefix [OF split] show "ended (take a s)" "no_start m (take a s)"
    by (auto simp: no_start_def list_all_iff dest: set_takeWhileD)
qed

section \<open>Installing and removing\<close>

text \<open>What an append puts the block after.\<close>

definition separated :: "string \<Rightarrow> string" where
  "separated content =
     (if content = [] then [] else content @ (if ends_with content [LF] then [] else [LF]) @ [LF])"

lemma ends_with_LF: "ends_with s [LF] \<longleftrightarrow> s \<noteq> [] \<and> last s = LF"
  by (cases s rule: rev_cases) (auto simp: ends_with_def)

lemma append_separated: "block_append content block = separated content @ block"
  by (simp add: block_append_def separated_def)

lemma separated_ok: "markers_ok m \<Longrightarrow> no_start m s \<Longrightarrow> ended (separated s) \<and> no_start m (separated s)"
  using no_start_LF [of m s] no_start_LF [of m "s @ [LF]"] by (simp add: separated_def ended_def)

text \<open>An upsert writes the block between two texts that have none.\<close>

lemma upsert_shape:
  assumes "markers_ok m"
  shows "\<exists>pre rest. ended pre \<and> no_start m pre \<and> no_start m rest
     \<and> (\<forall>body. block_upsert s body m = pre @ block_text body m @ rest)"
proof (cases "block_find s m")
  case None
  then have "no_start m s" by (simp add: find_None_iff)
  note sep = separated_ok [OF assms this]
  have "block_upsert s body m = separated s @ block_text body m @ []" for body
    by (simp add: block_upsert_def None append_separated)
  with sep no_start_Nil show ?thesis by blast
next
  case (Some r)
  obtain a b where r: "r = (a, b)" by fastforce
  have "block_upsert s body m = take a s @ block_text body m @ strip_all (drop b s) m" for body
    by (simp add: block_upsert_def Some r)
  then show ?thesis using before_block [OF Some [unfolded r]] strip_all_clean by blast
qed

lemma upsert_framed:
  assumes "markers_ok m" "body_ok m body" "ended pre" "no_start m pre" "no_start m rest"
  shows "block_upsert (pre @ block_text body m @ rest) new m = pre @ block_text new m @ rest"
  using assms(5) by (simp add: block_upsert_def find_framed [OF assms(1-4)] strip_all_none)

lemma remove_framed:
  assumes "markers_ok m" "body_ok m body" "ended pre" "no_start m pre" "no_start m rest"
  shows "block_remove (pre @ block_text body m @ rest) m =
    Some ((case strip_suffix pre [LF] of Some h \<Rightarrow> h | None \<Rightarrow> pre) @ rest)"
  using assms(5) by (simp add: block_remove_def find_framed [OF assms(1-4)] strip_all_none)

text \<open>C26. Installing over a file without a block and then removing it gives the file back, with a final line feed if
  it lacked one.\<close>

theorem remove_undoes_upsert:
  assumes "markers_ok m" "body_ok m body" "\<not> has_block s m"
  shows "block_remove (block_upsert s body m) m = Some (if ended s then s else s @ [LF])"
proof -
  have none: "no_start m s" using assms(3) by (simp add: has_block_def find_None_iff)
  note sep = separated_ok [OF assms(1) none]
  have up: "block_upsert s body m = separated s @ block_text body m @ []"
    using none by (simp add: block_upsert_def find_None_iff [THEN iffD2] append_separated)
  from remove_framed [OF assms(1,2) _ _ no_start_Nil, of "separated s"] sep show ?thesis
    unfolding up by (auto simp: separated_def strip_suffix_def ends_with_LF ended_def)
qed

text \<open>C27. Whatever blocks a file has, installing a second time replaces what the first installed: the result is that
  of installing the second body alone; so installing the same body twice changes nothing.\<close>

theorem upsert_twice:
  assumes "markers_ok m" "body_ok m body"
  shows "block_upsert (block_upsert s body m) new m = block_upsert s new m"
proof -
  obtain pre rest where s: "ended pre" "no_start m pre" "no_start m rest"
      "\<And>body. block_upsert s body m = pre @ block_text body m @ rest"
    using upsert_shape [OF assms(1)] by blast
  show ?thesis unfolding s(4) by (rule upsert_framed [OF assms s(1-3)])
qed

text \<open>A block that stands between two texts of the user's is replaced without touching them, and removing it takes
  away, besides the block, one line feed before it.\<close>

theorem user_text_survives:
  assumes "markers_ok m" "body_ok m body" "ended pre" "\<not> has_block pre m" "\<not> has_block rest m"
  shows "block_upsert (pre @ block_text body m @ rest) new m = pre @ block_text new m @ rest"
    "pre \<noteq> [] \<Longrightarrow> block_remove (pre @ block_text body m @ rest) m = Some (butlast pre @ rest)"
proof -
  have none: "no_start m pre" "no_start m rest" using assms(4,5) by (simp_all add: has_block_def find_None_iff)
  show "block_upsert (pre @ block_text body m @ rest) new m = pre @ block_text new m @ rest"
    by (rule upsert_framed [OF assms(1-3) none])
  assume "pre \<noteq> []"
  then obtain h where "pre = h @ [LF]" using assms(3) by (cases pre rule: rev_cases) (auto simp: ended_def)
  then show "block_remove (pre @ block_text body m @ rest) m = Some (butlast pre @ rest)"
    unfolding remove_framed [OF assms(1-3) none] by (simp add: strip_suffix_def ends_with_LF)
qed

section \<open>Concrete files\<close>

definition notes_file :: string where
  "notes_file = ''keep'' @ [LF] @ ''this'' @ [LF]"

theorem remove_undoes_upsert_witness:
  "block_remove (block_upsert notes_file ''use filigrio'' MARKDOWN) MARKDOWN = Some notes_file"
proof -
  have "body_ok MARKDOWN ''use filigrio''" "\<not> has_block notes_file MARKDOWN" "ended notes_file" by code_simp+
  from remove_undoes_upsert [OF shipped_markers_ok(1) this(1,2)] this(3) show ?thesis by simp
qed

theorem upsert_twice_witness:
  "block_upsert (block_upsert notes_file ''old'' SHELL) ''new'' SHELL = block_upsert notes_file ''new'' SHELL"
proof -
  have "body_ok SHELL ''old''" by code_simp
  then show ?thesis by (rule upsert_twice [OF shipped_markers_ok(2)])
qed

text \<open>When the user has put lines next to the block, removing it joins them.\<close>

lemma remove_joins_lines:
  "block_remove (''x'' @ [LF] @ block_text ''b'' YAML @ ''y'' @ [LF]) YAML = Some (''xy'' @ [LF])"
  by code_simp

text \<open>A body that has the end marker as a line: a second installation leaves the rest of the first behind.\<close>

lemma end_marker_in_body_accumulates:
  "block_upsert (block_upsert [] (''a'' @ [LF] @ ''# filigrio:end'') YAML) ''b'' YAML
     = block_text ''b'' YAML @ ''# filigrio:end'' @ [LF]"
  by code_simp

end
