(* ===== verification/Pieces.thy ===== *)
theory Pieces
  imports Prelude
begin

text \<open>
  Texts made of pieces: what is joined with a separator, or ended piece by piece with a character, is split into the
  pieces again.
\<close>

section \<open>Separated and terminated pieces\<close>

lemma split_acc_piece: "c \<notin> set p \<Longrightarrow> split_acc [c] acc (p @ c # s) = (rev acc @ p) # split_acc [c] [] s"
proof (induction p arbitrary: acc)
  case Nil
  show ?case by (subst split_acc.simps) (simp add: starts_with_iff)
next
  case (Cons x p)
  then have "\<not> starts_with ((x # p) @ c # s) [c]" by (auto simp: starts_with_iff)
  then have "split_acc [c] acc ((x # p) @ c # s) = split_acc [c] (x # acc) (p @ c # s)"
    by (subst split_acc.simps) simp
  also have "\<dots> = (rev (x # acc) @ p) # split_acc [c] [] s" using Cons by (intro Cons.IH) simp
  finally show ?case by simp
qed

lemma split_piece: "c \<notin> set p \<Longrightarrow> split_str [c] (p @ c # s) = p # split_str [c] s"
  by (simp add: split_str_def split_acc_piece)

text \<open>The text of pieces that are each ended by a character.\<close>

definition terminated :: "char \<Rightarrow> string list \<Rightarrow> string" where
  "terminated c ps = concat (map (\<lambda>p. p @ [c]) ps)"

lemma split_terminated: "list_all (\<lambda>p. c \<notin> set p) ps \<Longrightarrow> split_str [c] (terminated c ps) = ps @ [[]]"
  by (induction ps) (simp_all add: terminated_def split_piece, simp add: split_str_def)

lemma nonempty_terminated:
  assumes "\<And>p. p \<in> set ps \<Longrightarrow> p \<noteq> [] \<and> c \<notin> set p"
  shows "filter (\<lambda>p. p \<noteq> []) (split_str [c] (terminated c ps)) = ps"
  using assms by (simp add: split_terminated list_all_iff filter_id_conv)

lemma lines_terminated:
  assumes "list_all (\<lambda>p. CHR 0x0A \<notin> set p \<and> (p = [] \<or> last p \<noteq> CHR 0x0D)) ps"
  shows "lines (terminated (CHR 0x0A) ps) = ps"
proof -
  have "strip_cr p = p" if "p = [] \<or> last p \<noteq> CHR 0x0D" for p
    using that by (cases p rule: rev_cases) (auto simp: strip_cr_def strip_suffix_def ends_with_def)
  then have "map strip_cr ps = ps" using assms by (intro map_idI) (auto simp: list_all_iff)
  moreover have "list_all (\<lambda>p. CHR 0x0A \<notin> set p) ps" using assms by (auto simp: list_all_iff)
  ultimately show ?thesis by (simp add: lines_def split_terminated)
qed

lemma split_join_slash:
  "list_all (\<lambda>n. CHR ''/'' \<notin> set n) ns \<Longrightarrow> ns \<noteq> [] \<Longrightarrow> split_str ''/'' (join_str ''/'' ns) = ns"
proof (induction ns)
  case (Cons n ns)
  show ?case
  proof (cases "ns = []")
    case True
    from Cons.prems have "split_acc ''/'' acc n = [rev acc @ n]" for acc
    proof (induction n arbitrary: acc)
      case (Cons c n)
      then have "\<not> starts_with (c # n) ''/''" by (auto simp: starts_with_iff)
      with Cons show ?case by (subst split_acc.simps) simp
    qed simp
    then show ?thesis by (simp add: True split_str_def)
  next
    case False
    with Cons show ?thesis by (simp add: join_str_Cons split_piece)
  qed
qed simp

lemma join_no_char: "c \<noteq> CHR ''/'' \<Longrightarrow> list_all (\<lambda>n. c \<notin> set n) ns \<Longrightarrow> c \<notin> set (join_str ''/'' ns)"
  by (induction "''/''" ns rule: join_str.induct) auto

end
