(* ===== verification/Hook_Git.thy ===== *)
theory Hook_Git
  imports Core_State Dispatch Pieces
begin

text \<open>
  What a git hook submits (\<^verbatim>\<open>filigrio-client-cli/src/hook/git.rs\<close>): from the hook's arguments and standard input to
  the two ends of a transition, and from git's account of their difference to a change set. Git is a parameter, a
  function from a directory, the variables taken out of its environment and its arguments to a failure to start or
  to success, standard output and standard error; the text of the standard library's decoding error is one, too.
  An error is the chain of its messages, outermost first.
\<close>

section \<open>Events\<close>

datatype hook_event = PostCommit | PostCheckout | PostMerge | PostRewrite

fun hook_name :: "hook_event \<Rightarrow> string" where
  "hook_name PostCommit = ''post-commit''"
| "hook_name PostCheckout = ''post-checkout''"
| "hook_name PostMerge = ''post-merge''"
| "hook_name PostRewrite = ''post-rewrite''"

definition hook_parse :: "string \<Rightarrow> hook_event option" where
  "hook_parse name =
     (if name = ''post-commit'' then Some PostCommit
      else if name = ''post-checkout'' then Some PostCheckout
      else if name = ''post-merge'' then Some PostMerge
      else if name = ''post-rewrite'' then Some PostRewrite
      else None)"

fun reads_stdin :: "hook_event \<Rightarrow> bool" where
  "reads_stdin PostRewrite = True"
| "reads_stdin _ = False"

lemma hook_parse_name: "hook_parse (hook_name e) = Some e"
  by (cases e) (simp_all add: hook_parse_def)

section \<open>Running git\<close>

type_synonym git_error = "string list"

record git_env =
  ge_spawn :: "string \<Rightarrow> string list \<Rightarrow> string list \<Rightarrow> string + bool \<times> bytes \<times> bytes"
  ge_utf8_error :: "bytes \<Rightarrow> string"

record git =
  g_root :: string

definition HOOK_VARS :: "string list" where
  "HOOK_VARS =
     [''GIT_DIR'', ''GIT_COMMON_DIR'', ''GIT_WORK_TREE'', ''GIT_INDEX_FILE'', ''GIT_PREFIX'', ''GIT_OBJECT_DIRECTORY'',
      ''GIT_ALTERNATE_OBJECT_DIRECTORIES'']"

definition git_run :: "git_env \<Rightarrow> string \<Rightarrow> string list \<Rightarrow> git_error + bytes" where
  "git_run env cwd args =
     (case ge_spawn env cwd HOOK_VARS args of
        Inl e \<Rightarrow> Inl [''running `git '' @ join_str '' '' args @ ''`'', e]
      | Inr (success, out, err) \<Rightarrow>
          if success then Inr out
          else Inl [''`git '' @ join_str '' '' args @ ''` failed: '' @ trim (lossy err)])"

definition git_discover :: "git_env \<Rightarrow> string \<Rightarrow> git option" where
  "git_discover env cwd =
     (case git_run env cwd [''rev-parse'', ''--show-toplevel''] of
        Inl _ \<Rightarrow> None
      | Inr out \<Rightarrow>
          if utf8_ok out then (let root = trim out in if root = [] then None else Some \<lparr>g_root = root\<rparr>) else None)"

definition git_raw :: "git_env \<Rightarrow> git \<Rightarrow> string list \<Rightarrow> git_error + bytes" where
  "git_raw env g args = git_run env (g_root g) args"

definition git_resolve :: "git_env \<Rightarrow> git \<Rightarrow> string \<Rightarrow> string option" where
  "git_resolve env g revision =
     (case git_raw env g [''rev-parse'', ''--verify'', ''--quiet'', revision @ ''^{commit}''] of
        Inl _ \<Rightarrow> None
      | Inr out \<Rightarrow>
          if utf8_ok out then (let id = trim out in if id = [] then None else Some id) else None)"

definition empty_tree :: "git_env \<Rightarrow> git \<Rightarrow> git_error + string" where
  "empty_tree env g =
     (case git_raw env g [''hash-object'', ''-t'', ''tree'', ''/dev/null''] of
        Inl e \<Rightarrow> Inl e
      | Inr out \<Rightarrow>
          if utf8_ok out then Inr (trim out) else Inl [''git hash-object emitted non-UTF-8'', ge_utf8_error env out])"

section \<open>The two ends\<close>

record endpoints =
  e_old :: string
  e_new :: "string option"
  e_why :: string

datatype resolved = Diff endpoints | NoOp string

definition is_null_oid :: "string \<Rightarrow> bool" where
  "is_null_oid s \<longleftrightarrow> s \<noteq> [] \<and> list_all (\<lambda>b. b = CHR ''0'') s"

text \<open>\<open>split_whitespace()\<close>\<close>

fun words_acc :: "string \<Rightarrow> string \<Rightarrow> string list" where
  "words_acc acc [] = (if acc = [] then [] else [rev acc])"
| "words_acc acc (c # s) =
     (if is_space c then (if acc = [] then words_acc [] s else rev acc # words_acc [] s)
      else words_acc (c # acc) s)"

definition rewrite_pair :: "string \<Rightarrow> (string \<times> string) option" where
  "rewrite_pair line =
     (case words_acc [] line of
        old # new # _ \<Rightarrow> if is_null_oid old then None else Some (old, new)
      | _ \<Rightarrow> None)"

definition rewrite_pairs :: "string \<Rightarrow> (string \<times> string) list" where
  "rewrite_pairs stdin = List.map_filter rewrite_pair (lines stdin)"

fun for_event :: "git_env \<Rightarrow> git \<Rightarrow> hook_event \<Rightarrow> string list \<Rightarrow> string \<Rightarrow> git_error + resolved" where
  "for_event env g PostCommit args stdin =
     (case (case git_resolve env g ''HEAD^1'' of Some parent \<Rightarrow> Inr parent | None \<Rightarrow> empty_tree env g) of
        Inl e \<Rightarrow> Inl e
      | Inr old \<Rightarrow> Inr (Diff \<lparr>e_old = old, e_new = Some ''HEAD'', e_why = ''HEAD^1..HEAD''\<rparr>))"
| "for_event env g PostCheckout args stdin =
     (case args of
        prev # new # branch # _ \<Rightarrow>
          if branch \<noteq> ''1'' then Inr (NoOp (''file-level checkout (branch flag 0) '' @ [CHR 0xE2, CHR 0x80, CHR 0x94] @ '' not a tree transition''))
          else if prev = new then Inr (NoOp ''checkout did not move HEAD'')
          else
            (case (if prev = [] \<or> is_null_oid prev then empty_tree env g else Inr prev) of
               Inl e \<Rightarrow> Inl e
             | Inr old \<Rightarrow> Inr (Diff \<lparr>e_old = old, e_new = Some new, e_why = ''checkout endpoints''\<rparr>))
      | _ \<Rightarrow> Inr (NoOp ''post-checkout without git's <prev> <new> <branch-flag> arguments''))"
| "for_event env g PostMerge args stdin =
     (if (case args of squash # _ \<Rightarrow> squash = ''1'' | [] \<Rightarrow> False)
      then Inr (Diff \<lparr>e_old = ''HEAD'', e_new = None, e_why = ''squash merge: HEAD..worktree''\<rparr>)
      else
        (case (case git_resolve env g ''ORIG_HEAD'' of
                 Some orig \<Rightarrow> Inr (orig, ''ORIG_HEAD..HEAD'')
               | None \<Rightarrow>
                   (case git_resolve env g ''HEAD^1'' of
                      Some parent \<Rightarrow> Inr (parent, ''HEAD^1..HEAD (no ORIG_HEAD)'')
                    | None \<Rightarrow>
                        (case empty_tree env g of
                           Inl e \<Rightarrow> Inl e
                         | Inr t \<Rightarrow> Inr (t, ''empty tree..HEAD (no ORIG_HEAD, no parent)'')))) of
           Inl e \<Rightarrow> Inl e
         | Inr (old, why) \<Rightarrow> Inr (Diff \<lparr>e_old = old, e_new = Some ''HEAD'', e_why = why\<rparr>)))"
| "for_event env g PostRewrite args stdin =
     (let pairs = rewrite_pairs stdin
      in if pairs = [] then Inr (NoOp ''post-rewrite carried no rewrite pairs'')
         else Inr (Diff \<lparr>e_old = fst (last pairs), e_new = Some ''HEAD'', e_why = ''pre-rewrite tip..HEAD''\<rparr>))"

section \<open>The difference\<close>

abbreviation NUL :: char where
  "NUL \<equiv> CHR 0x00"

definition no_change :: change_set where
  "no_change = \<lparr>added = [], modified = [], removed = []\<rparr>"

fun read_records :: "change_set \<Rightarrow> string list \<Rightarrow> change_set" where
  "read_records cs [] = cs"
| "read_records cs (status # rest) =
     (case status of
        [] \<Rightarrow> read_records cs rest
      | code # _ \<Rightarrow>
          if code = CHR ''R'' \<or> code = CHR ''C''
          then
            (case rest of
               old # new # rest \<Rightarrow>
                 read_records
                   (cs\<lparr>removed := (if code = CHR ''R'' then removed cs @ [old] else removed cs), added := added cs @ [new]\<rparr>)
                   rest
             | _ \<Rightarrow> cs)
          else
            (case rest of
               [] \<Rightarrow> cs
             | path # rest \<Rightarrow>
                 read_records
                   (if code = CHR ''A'' then cs\<lparr>added := added cs @ [path]\<rparr>
                    else if code = CHR ''D'' then cs\<lparr>removed := removed cs @ [path]\<rparr>
                    else cs\<lparr>modified := modified cs @ [path]\<rparr>)
                   rest))"

definition normalize_cs :: "change_set \<Rightarrow> change_set" where
  "normalize_cs cs = \<lparr>added = canon (added cs), modified = canon (modified cs), removed = canon (removed cs)\<rparr>"

definition parse_name_status :: "bytes \<Rightarrow> change_set" where
  "parse_name_status raw =
     normalize_cs (read_records no_change (map lossy (filter (\<lambda>f. f \<noteq> []) (split_str [NUL] raw))))"

definition git_diff :: "git_env \<Rightarrow> git \<Rightarrow> string \<Rightarrow> string option \<Rightarrow> git_error + change_set" where
  "git_diff env g old new =
     (case git_raw env g
             ([''diff'', ''--name-status'', ''-z'', ''-M'', ''-C'', old] @ (case new of Some n \<Rightarrow> [n] | None \<Rightarrow> [])) of
        Inl e \<Rightarrow> Inl e
      | Inr out \<Rightarrow> Inr (parse_name_status out))"

definition is_own_output :: "string \<Rightarrow> bool" where
  "is_own_output path \<longleftrightarrow> starts_with path ''.filigrio-out/'' \<or> starts_with path ''.filigrio/''"

definition strip_own_output :: "change_set \<Rightarrow> change_set \<times> nat" where
  "strip_own_output cs =
     (let keep = filter (\<lambda>p. \<not> is_own_output p);
          cs' = \<lparr>added = keep (added cs), modified = keep (modified cs), removed = keep (removed cs)\<rparr>
      in (cs', cs_len cs - cs_len cs'))"

definition changeset_for ::
  "git_env \<Rightarrow> git \<Rightarrow> hook_event \<Rightarrow> string list \<Rightarrow> string \<Rightarrow> git_error + change_set \<times> string"
where
  "changeset_for env g event args stdin =
     (case for_event env g event args stdin of
        Inl e \<Rightarrow> Inl e
      | Inr (NoOp why) \<Rightarrow> Inr (no_change, why)
      | Inr (Diff ep) \<Rightarrow>
          (case git_diff env g (e_old ep) (e_new ep) of
             Inl e \<Rightarrow> Inl e
           | Inr cs \<Rightarrow> Inr (fst (strip_own_output cs), e_why ep)))"

section \<open>Valid text\<close>

lemma takeWhile_all: "list_all P xs \<Longrightarrow> takeWhile P xs = xs"
  by (induction xs) auto

lemma lossy_valid: "utf8_ok b \<Longrightarrow> lossy b = b"
proof (induction b rule: lossy.induct)
  case (2 c cs)
  show ?case
  proof (cases "(of_char c :: nat) < 0x80")
    case True
    with 2 show ?thesis by simp
  next
    case False
    then obtain lo hi n where lead: "utf8_lead (of_char c) = Some (lo, hi, n)"
      using "2.prems" by (cases "utf8_lead (of_char c)") auto
    then obtain d ds where cs: "cs = d # ds" using "2.prems" False by (cases cs) auto
    have ok: "lo \<le> of_char d \<and> of_char d \<le> hi" "n \<le> length ds" "list_all is_cont (take n ds)" "utf8_ok (drop n ds)"
      using "2.prems" False lead cs by auto
    have "length (takeWhile is_cont (take n ds)) = n" using ok(2) by (simp add: takeWhile_all [OF ok(3)])
    from "2.IH"(3) [OF False lead refl refl cs ok(1) refl this ok(4)] have "lossy (drop n ds) = drop n ds" .
    with False lead cs ok show ?thesis by (simp add: takeWhile_all)
  qed
qed simp

section \<open>Records of a difference\<close>

text \<open>What git writes: a touched path with its status, a rename and a copy with their scores.\<close>

datatype git_delta =
  Touched char string string | Renamed string string string | Copied string string string

fun delta_fields :: "git_delta \<Rightarrow> string list" where
  "delta_fields (Touched code score path) = [code # score, path]"
| "delta_fields (Renamed score old new) = [CHR ''R'' # score, old, new]"
| "delta_fields (Copied score old new) = [CHR ''C'' # score, old, new]"

fun delta_added :: "git_delta \<Rightarrow> string list" where
  "delta_added (Touched code score path) = (if code = CHR ''A'' then [path] else [])"
| "delta_added (Renamed score old new) = [new]"
| "delta_added (Copied score old new) = [new]"

fun delta_modified :: "git_delta \<Rightarrow> string list" where
  "delta_modified (Touched code score path) = (if code = CHR ''A'' \<or> code = CHR ''D'' then [] else [path])"
| "delta_modified _ = []"

fun delta_removed :: "git_delta \<Rightarrow> string list" where
  "delta_removed (Touched code score path) = (if code = CHR ''D'' then [path] else [])"
| "delta_removed (Renamed score old new) = [old]"
| "delta_removed (Copied score old new) = []"

definition path_ok :: "string \<Rightarrow> bool" where
  "path_ok p \<longleftrightarrow> p \<noteq> [] \<and> NUL \<notin> set p \<and> utf8_ok p"

definition touch_code :: "char \<Rightarrow> bool" where
  "touch_code code \<longleftrightarrow> list_ex (\<lambda>c. c = code) ''AMDTUXB''"

lemma touch_code_ascii:
  "touch_code code \<Longrightarrow>
     (of_char code :: nat) < 0x80 \<and> code \<noteq> NUL \<and> code \<noteq> CHR ''R'' \<and> code \<noteq> CHR ''C''"
  by (auto simp: touch_code_def)

fun delta_ok :: "git_delta \<Rightarrow> bool" where
  "delta_ok (Touched code score path) \<longleftrightarrow>
     touch_code code \<and> NUL \<notin> set score \<and> utf8_ok score \<and> path_ok path"
| "delta_ok (Renamed score old new) \<longleftrightarrow> NUL \<notin> set score \<and> utf8_ok score \<and> path_ok old \<and> path_ok new"
| "delta_ok (Copied score old new) \<longleftrightarrow> NUL \<notin> set score \<and> utf8_ok score \<and> path_ok old \<and> path_ok new"

text \<open>The beginning of a record that stops between two fields.\<close>

definition cut_record :: "string list \<Rightarrow> bool" where
  "cut_record fs \<longleftrightarrow> fs = [] \<or> (\<exists>d. delta_ok d \<and> (\<exists>n < length (delta_fields d). fs = take n (delta_fields d)))"

definition delta_changes :: "git_delta list \<Rightarrow> change_set" where
  "delta_changes ds =
     \<lparr>added = canon (concat (map delta_added ds)), modified = canon (concat (map delta_modified ds)),
      removed = canon (concat (map delta_removed ds))\<rparr>"

lemma delta_fields_ok: "delta_ok d \<Longrightarrow> f \<in> set (delta_fields d) \<Longrightarrow> f \<noteq> [] \<and> NUL \<notin> set f \<and> lossy f = f"
proof (cases d)
  case (Touched code score path)
  assume "delta_ok d" "f \<in> set (delta_fields d)"
  with Touched touch_code_ascii [of code] show ?thesis by (auto simp: path_ok_def lossy_valid)
qed (auto simp: path_ok_def lossy_valid)

lemma read_record:
  assumes "delta_ok d"
  shows "read_records cs (delta_fields d @ fs) =
    read_records \<lparr>added = added cs @ delta_added d, modified = modified cs @ delta_modified d,
      removed = removed cs @ delta_removed d\<rparr> fs"
proof (cases d)
  case (Touched code score path)
  with assms touch_code_ascii [of code] show ?thesis by (cases cs) simp
qed (cases cs; simp)+

lemma read_cut: "cut_record fs \<Longrightarrow> read_records cs fs = cs"
proof -
  assume "cut_record fs"
  then consider "fs = []" | d n where "delta_ok d" "n < length (delta_fields d)" "fs = take n (delta_fields d)"
    unfolding cut_record_def by blast
  then show ?thesis
  proof cases
    case (2 d n)
    show ?thesis
    proof (cases d)
      case (Touched code score path)
      with 2 have "fs = [] \<or> fs = [code # score]" by (cases n) auto
      with 2(1) Touched touch_code_ascii [of code] show ?thesis by auto
    next
      case (Renamed score old new)
      with 2 have "fs = [] \<or> fs = [CHR ''R'' # score] \<or> fs = [CHR ''R'' # score, old]"
        by (cases n; cases "n - 1") (auto simp: less_Suc_eq)
      then show ?thesis by auto
    next
      case (Copied score old new)
      with 2 have "fs = [] \<or> fs = [CHR ''C'' # score] \<or> fs = [CHR ''C'' # score, old]"
        by (cases n; cases "n - 1") (auto simp: less_Suc_eq)
      then show ?thesis by auto
    qed
  qed simp
qed

lemma read_deltas:
  assumes "list_all delta_ok ds" "cut_record fs"
  shows "read_records cs (concat (map delta_fields ds) @ fs) =
    \<lparr>added = added cs @ concat (map delta_added ds), modified = modified cs @ concat (map delta_modified ds),
     removed = removed cs @ concat (map delta_removed ds)\<rparr>"
  using assms(1)
proof (induction ds arbitrary: cs)
  case Nil
  then show ?case by (simp add: read_cut [OF assms(2)])
next
  case (Cons d ds)
  then show ?case by (simp add: read_record)
qed

text \<open>C25. Git's account of a difference is read back exactly, each status as it is meant: a rename removes its old
  path and adds its new one, a copy leaves its source, and what is neither an addition nor a deletion is a
  modification. A last record that stops between two of its fields is dropped.\<close>

theorem name_status_exact:
  assumes "list_all delta_ok ds" "cut_record fs"
  shows "parse_name_status (terminated NUL (concat (map delta_fields ds) @ fs)) = delta_changes ds"
proof -
  let ?fs = "concat (map delta_fields ds) @ fs"
  have ok: "f \<noteq> [] \<and> NUL \<notin> set f \<and> lossy f = f" if "f \<in> set ?fs" for f
  proof -
    from that consider d where "d \<in> set ds" "f \<in> set (delta_fields d)" | "f \<in> set fs" by auto
    then show ?thesis
    proof cases
      case 1
      with assms(1) have "delta_ok d" by (simp add: list_all_iff)
      from delta_fields_ok [OF this 1(2)] show ?thesis .
    next
      case 2
      with assms(2) obtain d n where "delta_ok d" "f \<in> set (take n (delta_fields d))"
        unfolding cut_record_def by fastforce
      with delta_fields_ok in_set_takeD show ?thesis by metis
    qed
  qed
  then have "filter (\<lambda>f. f \<noteq> []) (split_str [NUL] (terminated NUL ?fs)) = ?fs" "map lossy ?fs = ?fs"
    by (blast intro: nonempty_terminated map_idI)+
  then have "map lossy (filter (\<lambda>f. f \<noteq> []) (split_str [NUL] (terminated NUL ?fs))) = ?fs" by (simp only:)
  then show ?thesis
    by (simp only: parse_name_status_def read_deltas [OF assms])
      (simp add: no_change_def normalize_cs_def delta_changes_def)
qed

section \<open>Rewritten commits\<close>

definition word_ok :: "string \<Rightarrow> bool" where
  "word_ok w \<longleftrightarrow> w \<noteq> [] \<and> list_all (\<lambda>c. \<not> is_space c) w"

definition pair_line :: "string \<times> string \<times> string \<Rightarrow> string" where
  "pair_line = (\<lambda>(old, new, extra). old @ '' '' @ new @ (if extra = [] then [] else '' '' @ extra))"

definition pair_ok :: "string \<times> string \<times> string \<Rightarrow> bool" where
  "pair_ok = (\<lambda>(old, new, extra). word_ok old \<and> word_ok new \<and> (extra = [] \<or> word_ok extra))"

lemma words_acc_word:
  "list_all (\<lambda>c. \<not> is_space c) w \<Longrightarrow> words_acc acc (w @ s) = words_acc (rev w @ acc) s"
  by (induction w arbitrary: acc) auto

lemma words_word: "word_ok w \<Longrightarrow> words_acc [] w = [w]"
  using words_acc_word [of w "[]" "[]"] by (simp add: word_ok_def)

lemma words_space: "word_ok w \<Longrightarrow> words_acc [] (w @ '' '' @ s) = w # words_acc [] s"
  by (simp add: word_ok_def words_acc_word is_space_def)

lemma rewrite_pair_line:
  "pair_ok (old, new, extra) \<Longrightarrow>
     rewrite_pair (pair_line (old, new, extra)) = (if is_null_oid old then None else Some (old, new))"
  by (auto simp: pair_ok_def pair_line_def rewrite_pair_def words_space words_word simp del: append.simps)

lemma word_no_newline: "word_ok w \<Longrightarrow> CHR 0x0A \<notin> set w \<and> last w \<noteq> CHR 0x0D"
  by (auto simp: word_ok_def list_all_iff is_space_def dest: last_in_set)

lemma pair_line_ok:
  "pair_ok p \<Longrightarrow> CHR 0x0A \<notin> set (pair_line p) \<and> (pair_line p = [] \<or> last (pair_line p) \<noteq> CHR 0x0D)"
  using word_no_newline by (cases p) (auto simp: pair_ok_def pair_line_def word_ok_def)

text \<open>The pairs of a rewrite are read in their order, without those whose old side is the null id and whatever
  follows a pair on its line.\<close>

theorem rewrite_pairs_exact:
  assumes "list_all pair_ok ps"
  shows "rewrite_pairs (terminated (CHR 0x0A) (map pair_line ps)) =
    filter (\<lambda>(old, new). \<not> is_null_oid old) (map (\<lambda>(old, new, extra). (old, new)) ps)"
proof -
  have "lines (terminated (CHR 0x0A) (map pair_line ps)) = map pair_line ps"
    using assms pair_line_ok by (intro lines_terminated) (auto simp: list_all_iff)
  then have "rewrite_pairs (terminated (CHR 0x0A) (map pair_line ps)) = List.map_filter rewrite_pair (map pair_line ps)"
    by (simp add: rewrite_pairs_def)
  also have "\<dots> = filter (\<lambda>(old, new). \<not> is_null_oid old) (map (\<lambda>(old, new, extra). (old, new)) ps)"
    using assms by (induction ps) (auto simp: map_filter_simps rewrite_pair_line)
  finally show ?thesis .
qed

lemma rewrite_pairs_not_null: "p \<in> set (rewrite_pairs stdin) \<Longrightarrow> \<not> is_null_oid (fst p)"
  by (auto simp: rewrite_pairs_def map_filter_def rewrite_pair_def split: list.splits if_splits)

section \<open>What is submitted\<close>

text \<open>The hook fails only when git cannot tell the empty tree: with an empty tree, every event and every
  argument list has its two ends or a reason to do nothing.\<close>

theorem ends_are_found:
  assumes "empty_tree env g = Inr t"
  shows "\<exists>r. for_event env g event args stdin = Inr r"
  by (cases event) (auto simp: assms Let_def split: option.splits list.splits)

text \<open>A checkout is submitted only with all its arguments, the branch flag set and its ends apart, and then the
  difference is that of its ends, the empty tree in place of a null id.\<close>

theorem checkout_fails_closed:
  "for_event env g PostCheckout args stdin = Inr (Diff ep) \<longleftrightarrow>
     (\<exists>prev new extra. args = prev # new # ''1'' # extra \<and> prev \<noteq> new \<and> e_new ep = Some new
        \<and> e_why ep = ''checkout endpoints''
        \<and> (if prev = [] \<or> is_null_oid prev then empty_tree env g = Inr (e_old ep) else e_old ep = prev))"
proof (cases "\<exists>prev new branch extra. args = prev # new # branch # extra")
  case False
  then have "for_event env g PostCheckout args stdin = Inr (NoOp ''post-checkout without git's <prev> <new> <branch-flag> arguments'')"
    by (cases args; cases "tl args"; cases "tl (tl args)") auto
  with False show ?thesis by auto
next
  case True
  then obtain prev new branch extra where args: "args = prev # new # branch # extra" by blast
  show ?thesis
  proof (cases "branch = ''1'' \<and> prev \<noteq> new")
    case True
    show ?thesis
      by (cases "prev = [] \<or> is_null_oid prev"; cases "empty_tree env g"; cases ep) (use True in \<open>auto simp: args\<close>)
  qed (auto simp: args)
qed

definition cs_paths :: "change_set \<Rightarrow> string set" where
  "cs_paths cs = set (added cs) \<union> set (modified cs) \<union> set (removed cs)"

lemma parsed_sorted:
  "let cs = parse_name_status raw
   in sorted (added cs) \<and> distinct (added cs) \<and> sorted (modified cs) \<and> distinct (modified cs)
     \<and> sorted (removed cs) \<and> distinct (removed cs)"
  by (simp add: parse_name_status_def normalize_cs_def)

text \<open>Whatever git answers, no path of the daemon's own output is submitted, and each list of a submitted change
  set is sorted without repetitions.\<close>

theorem submitted_clean:
  assumes "changeset_for env g event args stdin = Inr (cs, why)"
  shows "(\<forall>p \<in> cs_paths cs. \<not> is_own_output p)
    \<and> (\<forall>ps \<in> {added cs, modified cs, removed cs}. sorted ps \<and> distinct ps)"
proof -
  have none: ?thesis if "cs = no_change" using that by (simp add: cs_paths_def no_change_def)
  show ?thesis
  proof (cases "for_event env g event args stdin")
    case (Inr r)
    show ?thesis
    proof (cases r)
      case (Diff ep)
      with Inr assms obtain out where "cs = fst (strip_own_output (parse_name_status out))"
        by (auto simp: changeset_for_def git_diff_def split: sum.splits)
      with parsed_sorted [of out] show ?thesis
        by (auto simp: strip_own_output_def Let_def cs_paths_def intro: sorted_wrt_filter)
    qed (use Inr assms none in \<open>simp add: changeset_for_def\<close>)
  qed (use assms in \<open>simp add: changeset_for_def\<close>)
qed

text \<open>The count of what was dropped is exact: what is kept is no longer than what there was.\<close>

lemma strip_count: "cs_len (fst (strip_own_output cs)) + snd (strip_own_output cs) = cs_len cs"
  using length_filter_le [of "\<lambda>p. \<not> is_own_output p" "added cs"]
    length_filter_le [of "\<lambda>p. \<not> is_own_output p" "modified cs"]
    length_filter_le [of "\<lambda>p. \<not> is_own_output p" "removed cs"]
  unfolding strip_own_output_def Let_def cs_len_def fst_conv snd_conv change_set.simps by linarith

section \<open>Concrete hooks\<close>

definition two_deltas :: "git_delta list" where
  "two_deltas = [Renamed ''100'' ''old.rs'' ''new.rs'', Copied ''75'' ''src.rs'' ''dst.rs'', Touched (CHR ''M'') [] ''a b.rs'']"

theorem name_status_exact_witness:
  "parse_name_status (terminated NUL (concat (map delta_fields two_deltas) @ [''R100'', ''x.rs''])) =
     \<lparr>added = [''dst.rs'', ''new.rs''], modified = [''a b.rs''], removed = [''old.rs'']\<rparr>"
proof -
  have ok: "list_all delta_ok two_deltas" "delta_ok (Renamed ''100'' ''x.rs'' ''y.rs'')" by code_simp+
  have "cut_record [''R100'', ''x.rs'']"
    unfolding cut_record_def
    by (intro disjI2 exI [of _ "Renamed ''100'' ''x.rs'' ''y.rs''"] conjI ok(2) exI [of _ 2]) (simp_all add: numeral_2_eq_2)
  moreover have "delta_changes two_deltas =
    \<lparr>added = [''dst.rs'', ''new.rs''], modified = [''a b.rs''], removed = [''old.rs'']\<rparr>" by code_simp
  ultimately show ?thesis using name_status_exact [OF ok(1)] by (simp only:)
qed

theorem rewrite_pairs_exact_witness:
  "rewrite_pairs (terminated (CHR 0x0A) (map pair_line [(''a1'', ''b1'', []), (''000'', ''b2'', []), (''a3'', ''b3'', ''x'')]))
     = [(''a1'', ''b1''), (''a3'', ''b3'')]"
proof -
  let ?ps = "[(''a1'', ''b1'', []), (''000'', ''b2'', []), (''a3'', ''b3'', ''x'')]"
  have "list_all pair_ok ?ps" by code_simp
  moreover have "filter (\<lambda>(old, new). \<not> is_null_oid old) (map (\<lambda>(old, new, extra). (old, new)) ?ps) =
    [(''a1'', ''b1''), (''a3'', ''b3'')]" by code_simp
  ultimately show ?thesis using rewrite_pairs_exact [of ?ps] by (simp only:)
qed

text \<open>A git that knows an empty tree, no revision, and one difference.\<close>

definition toy_git :: git_env where
  "toy_git =
     \<lparr>ge_spawn = (\<lambda>cwd unset args.
        if hd args = ''hash-object'' then Inr (True, ''4b825dc'' @ [CHR 0x0A], [])
        else if hd args = ''diff''
        then Inr (True, terminated NUL [''A'', ''b.rs'', ''M'', ''.filigrio-out/graph.json'', ''A'', ''a.rs''], [])
        else Inr (False, [], ''fatal'')),
      ge_utf8_error = (\<lambda>b. [])\<rparr>"

lemma toy_commit:
  "changeset_for toy_git \<lparr>g_root = ''/r''\<rparr> PostCommit [] [] =
     Inr (\<lparr>added = [''a.rs'', ''b.rs''], modified = [], removed = []\<rparr>, ''HEAD^1..HEAD'')"
  by code_simp

theorem ends_are_found_witness:
  "\<exists>r. for_event toy_git \<lparr>g_root = ''/r''\<rparr> PostMerge [] [] = Inr r"
proof -
  have "empty_tree toy_git \<lparr>g_root = ''/r''\<rparr> = Inr ''4b825dc''" by code_simp
  then show ?thesis by (rule ends_are_found)
qed

theorem submitted_clean_witness:
  "list_all (\<lambda>p. \<not> is_own_output p) [''a.rs'', ''b.rs'']"
  using submitted_clean [OF toy_commit] by (simp add: cs_paths_def)

text \<open>A path that is cut short is taken for the path.\<close>

lemma cut_path_is_misread:
  "parse_name_status (terminated NUL [''R100'', ''src/old.rs''] @ ''src/ne'') =
     \<lparr>added = [''src/ne''], modified = [], removed = [''src/old.rs'']\<rparr>"
  by code_simp

end
