(* ===== verification/Hook_Spool.thy ===== *)
theory Hook_Spool
  imports Protocol BTree Hook_Git
begin

text \<open>
  How a hook's change set reaches the daemon (\<^verbatim>\<open>filigrio-client-cli/src/hook/spool.rs\<close>, \<^verbatim>\<open>deliver.rs\<close>, \<^verbatim>\<open>mod.rs\<close>): over
  the socket, else through a directory of jobs that the next hook replays, else not at all. The directory is a map
  from file names to contents. What the system answers during one hook (which calls fail, the clock, the process id)
  and what becomes of each attempt to reach the daemon are the environment's choice, the two JSON codecs parameters.
\<close>

section \<open>The spool\<close>

definition MAX_JOBS :: nat where
  "MAX_JOBS = 128"

definition FORMAT :: u32 where
  "FORMAT = 1"

record spooled_job =
  sj_format :: u32
  sj_project :: string
  sj_event :: string
  sj_created :: u64
  sj_changeset :: change_set

type_synonym spool = "(string, bytes) btree"

text \<open>A failing write may leave a part of the file.\<close>

record hook_sys =
  hs_mkdir :: "string option"
  hs_list :: bool
  hs_write :: "(string \<times> bytes option) option"
  hs_rename :: "string option"
  hs_read :: "string \<Rightarrow> string option"
  hs_remove :: "string \<Rightarrow> bool"
  hs_secs :: u64
  hs_nanos :: nat
  hs_pid :: nat

definition new_job :: "hook_sys \<Rightarrow> string \<Rightarrow> string \<Rightarrow> change_set \<Rightarrow> spooled_job" where
  "new_job sys project event cs =
     \<lparr>sj_format = FORMAT, sj_project = project, sj_event = event, sj_created = hs_secs sys, sj_changeset = cs\<rparr>"

text \<open>\<open>a.join(b)\<close> for a relative \<open>b\<close>\<close>

definition joined :: "string \<Rightarrow> string \<Rightarrow> string" where
  "joined a b = (if a = [] \<or> ends_with a ''/'' then a @ b else a @ ''/'' @ b)"

definition spool_default_dir :: "string option \<Rightarrow> string option \<Rightarrow> string" where
  "spool_default_dir xdg_cache_home home =
     (let base =
        (case xdg_cache_home of
           Some p \<Rightarrow> if p \<noteq> [] then Some p else map_option (\<lambda>h. joined h ''.cache'') home
         | None \<Rightarrow> map_option (\<lambda>h. joined h ''.cache'') home)
      in joined (joined (case base of Some b \<Rightarrow> b | None \<Rightarrow> ''/tmp'') ''filigrio'') ''spool'')"

text \<open>\<open>path.extension()\<close>: what follows the last dot, unless it is the first character.\<close>

definition has_extension :: "string \<Rightarrow> string \<Rightarrow> bool" where
  "has_extension e name \<longleftrightarrow>
     (case rfind_char (CHR ''.'') name of None \<Rightarrow> False | Some i \<Rightarrow> 0 < i \<and> drop (Suc i) name = e)"

text \<open>\<open>{stamp:039}-{pid}\<close>\<close>

definition job_stem :: "nat \<Rightarrow> nat \<Rightarrow> string" where
  "job_stem nanos process =
     (let s = show_nat nanos in replicate (39 - length s) (CHR ''0'') @ s @ ''-'' @ show_nat process)"

definition spool_jobs :: "hook_sys \<Rightarrow> spool \<Rightarrow> string list" where
  "spool_jobs sys fs = (if hs_list sys then filter (has_extension ''json'') (bt_keys fs) else [])"

definition spool_remove :: "hook_sys \<Rightarrow> string \<Rightarrow> spool \<Rightarrow> spool" where
  "spool_remove sys name fs = (if hs_remove sys name then bt_remove name fs else fs)"

definition spool_sweep :: "hook_sys \<Rightarrow> spool \<Rightarrow> spool" where
  "spool_sweep sys fs =
     (if hs_list sys then fold (spool_remove sys) (filter (has_extension ''tmp'') (bt_keys fs)) fs else fs)"

definition enforce_cap :: "hook_sys \<Rightarrow> spool \<Rightarrow> spool \<times> nat" where
  "enforce_cap sys fs =
     (let jobs = spool_jobs sys fs
      in if length jobs \<le> MAX_JOBS then (fs, 0)
         else (let excess = length jobs - MAX_JOBS in (fold (spool_remove sys) (take excess jobs) fs, excess)))"

definition spool_push ::
  "hook_sys \<Rightarrow> spooled_job codec \<Rightarrow> string \<Rightarrow> spooled_job \<Rightarrow> spool \<Rightarrow> (git_error + string) \<times> spool"
where
  "spool_push sys jobs dir job fs =
     (case hs_mkdir sys of
        Some e \<Rightarrow> (Inl [''create spool dir '' @ dir, e], fs)
      | None \<Rightarrow>
          (let stem = job_stem (hs_nanos sys) (hs_pid sys);
               tmp = stem @ ''.tmp'';
               final = stem @ ''.json'';
               shown = joined dir
           in case c_to_vec jobs job of
                Inl e \<Rightarrow> (Inl [''serialize spooled job'', e], fs)
              | Inr body \<Rightarrow>
                  (case hs_write sys of
                     Some (e, part) \<Rightarrow>
                       (Inl [''write '' @ shown tmp, e], case part of None \<Rightarrow> fs | Some b \<Rightarrow> bt_insert tmp b fs)
                   | None \<Rightarrow>
                       (case hs_rename sys of
                          Some e \<Rightarrow>
                            (Inl [''rename '' @ shown tmp @ '' '' @ [CHR 0xE2, CHR 0x86, CHR 0x92] @ '' '' @ shown final, e],
                             bt_insert tmp body fs)
                        | None \<Rightarrow>
                            (Inr (shown final),
                             fst (enforce_cap sys (bt_insert final body (bt_remove tmp (bt_insert tmp body fs)))))))))"

definition spool_read ::
  "hook_sys \<Rightarrow> spooled_job codec \<Rightarrow> string \<Rightarrow> string \<Rightarrow> spool \<Rightarrow> git_error + spooled_job"
where
  "spool_read sys jobs dir name fs =
     (let path = joined dir name
      in case (case hs_read sys name of
                 Some e \<Rightarrow> Inl e
               | None \<Rightarrow>
                   (case bt_get fs name of None \<Rightarrow> Inl ''No such file or directory (os error 2)'' | Some b \<Rightarrow> Inr b)) of
           Inl e \<Rightarrow> Inl [''read spooled job '' @ path, e]
         | Inr body \<Rightarrow>
             (case c_from_slice jobs body of
                Inl e \<Rightarrow> Inl [''parse spooled job '' @ path, e]
              | Inr job \<Rightarrow>
                  if sj_format job \<noteq> FORMAT
                  then Inl [''spooled job '' @ path @ '' has format '' @ show_nat (unat (sj_format job))
                              @ '' (this build reads '' @ show_nat (unat FORMAT) @ '')'']
                  else Inr job))"

section \<open>Delivery\<close>

datatype attempt = Connects | NoConnect string | NoTimeout string | NoWrite string

text \<open>The attempts made so far, and the frames the daemon has received.\<close>

record wire =
  w_next :: nat
  w_sent :: "bytes list"

definition submit :: "string \<Rightarrow> change_set \<Rightarrow> request" where
  "submit project cs = Control (Command (Submit project cs Git))"

definition fire_and_forget :: "request codec \<Rightarrow> (nat \<Rightarrow> attempt) \<Rightarrow> request \<Rightarrow> wire \<Rightarrow> (string + unit) \<times> wire" where
  "fire_and_forget requests net request w =
     (case frame requests request of
        Inl e \<Rightarrow> (Inl (show_protocol_error e), w)
      | Inr b \<Rightarrow>
          if length b > MAX_FRAME
          then (Inl (''changeset frames to '' @ show_nat (length b) @ '' bytes, over the '' @ show_nat MAX_FRAME
                       @ ''-byte wire limit''), w)
          else
            (let tried = w\<lparr>w_next := Suc (w_next w)\<rparr>
             in case net (w_next w) of
                  NoConnect e \<Rightarrow> (Inl (''connect: '' @ e), tried)
                | NoTimeout e \<Rightarrow> (Inl (''set timeout: '' @ e), tried)
                | NoWrite e \<Rightarrow> (Inl (''write: '' @ e), tried)
                | Connects \<Rightarrow> (Inr (), tried\<lparr>w_sent := w_sent w @ [b]\<rparr>)))"

datatype delivery = To_Daemon | Spooled string | Dropped string

fun delivery_describe :: "delivery \<Rightarrow> string" where
  "delivery_describe To_Daemon = ''submitted to the daemon''"
| "delivery_describe (Spooled p) =
     ''daemon unreachable '' @ [CHR 0xE2, CHR 0x80, CHR 0x94] @ '' spooled at '' @ p"
| "delivery_describe (Dropped why) = ''dropped ('' @ why @ ''); `filigrio project index` will heal it''"

definition deliver ::
  "hook_sys \<Rightarrow> spooled_job codec \<Rightarrow> request codec \<Rightarrow> (nat \<Rightarrow> attempt) \<Rightarrow> string \<Rightarrow> string \<Rightarrow> string \<Rightarrow> change_set \<Rightarrow>
     spool \<times> wire \<Rightarrow> delivery \<times> spool \<times> wire"
where
  "deliver sys jobs requests net dir project event cs st =
     (case st of (fs, w) \<Rightarrow>
        (case fire_and_forget requests net (submit project cs) w of
           (Inr _, w) \<Rightarrow> (To_Daemon, fs, w)
         | (Inl socket_err, w) \<Rightarrow>
             (case spool_push sys jobs dir (new_job sys project event cs) fs of
                (Inr path, fs) \<Rightarrow> (Spooled path, fs, w)
              | (Inl err, fs) \<Rightarrow> (Dropped (''socket '' @ socket_err @ ''; spool '' @ last err), fs, w))))"

record replay =
  r_delivered :: nat
  r_discarded :: nat
  r_remaining :: nat

fun replay_jobs ::
  "hook_sys \<Rightarrow> spooled_job codec \<Rightarrow> request codec \<Rightarrow> (nat \<Rightarrow> attempt) \<Rightarrow> string \<Rightarrow> string list \<Rightarrow> replay \<Rightarrow>
     spool \<times> wire \<Rightarrow> replay \<times> spool \<times> wire"
where
  "replay_jobs sys jobs requests net dir [] out st = (out, st)"
| "replay_jobs sys jobs requests net dir (name # names) out (fs, w) =
     (case spool_read sys jobs dir name fs of
        Inl _ \<Rightarrow>
          replay_jobs sys jobs requests net dir names (out\<lparr>r_discarded := r_discarded out + 1\<rparr>)
            (spool_remove sys name fs, w)
      | Inr job \<Rightarrow>
          (case fire_and_forget requests net (submit (sj_project job) (sj_changeset job)) w of
             (Inr _, w) \<Rightarrow>
               replay_jobs sys jobs requests net dir names (out\<lparr>r_delivered := r_delivered out + 1\<rparr>)
                 (spool_remove sys name fs, w)
           | (Inl _, w) \<Rightarrow> (out\<lparr>r_remaining := length (name # names)\<rparr>, fs, w)))"

definition replay_spool ::
  "hook_sys \<Rightarrow> spooled_job codec \<Rightarrow> request codec \<Rightarrow> (nat \<Rightarrow> attempt) \<Rightarrow> string \<Rightarrow> spool \<times> wire \<Rightarrow>
     replay \<times> spool \<times> wire"
where
  "replay_spool sys jobs requests net dir st =
     (case st of (fs, w) \<Rightarrow>
        (let fs = spool_sweep sys fs
         in replay_jobs sys jobs requests net dir (spool_jobs sys fs)
              \<lparr>r_delivered = 0, r_discarded = 0, r_remaining = 0\<rparr> (fs, w)))"

section \<open>One hook\<close>

record hook_env =
  he_skip :: "string option"
  he_spool_dir :: string

definition skipping :: "hook_env \<Rightarrow> bool" where
  "skipping env \<longleftrightarrow>
     (case he_skip env of
        None \<Rightarrow> False
      | Some v \<Rightarrow> \<not> list_ex (\<lambda>no. to_lowercase (trim v) = no) [[], ''0'', ''false'', ''no''])"

datatype outcome =
    Skipped
  | UnknownEvent string
  | NotARepository string
  | GitFailed string
  | Nothing_Submitted string replay
  | Submitted string hook_event string "nat \<times> nat \<times> nat" delivery replay

definition push_replay :: "replay \<Rightarrow> string list" where
  "push_replay r =
     (if r_delivered r > 0 then [''replayed '' @ show_nat (r_delivered r) @ '' spooled changeset(s)''] else [])
     @ (if r_discarded r > 0 then [''discarded '' @ show_nat (r_discarded r) @ '' unreadable spooled job(s)''] else [])"

text \<open>\<open>dbg\<close> stands for \<open>{name:?}\<close>.\<close>

fun outcome_report :: "(string \<Rightarrow> string) \<Rightarrow> outcome \<Rightarrow> string list" where
  "outcome_report dbg Skipped = []"
| "outcome_report dbg (UnknownEvent name) =
     [''unknown hook event '' @ dbg name @ '' '' @ [CHR 0xE2, CHR 0x80, CHR 0x94]
        @ '' expected post-commit, post-checkout, post-merge or post-rewrite'']"
| "outcome_report dbg (NotARepository cwd) = [cwd @ '' is not inside a git worktree'']"
| "outcome_report dbg (GitFailed err) = [''git said: '' @ err]"
| "outcome_report dbg (Nothing_Submitted why r) = push_replay r @ [''nothing to submit ('' @ why @ '')'']"
| "outcome_report dbg (Submitted project event why (a, m, d) delivery r) =
     push_replay r
     @ [hook_name event @ '' ['' @ why @ ''] '' @ show_nat a @ '' added, '' @ show_nat m @ '' modified, ''
          @ show_nat d @ '' removed in '' @ project @ '' '' @ [CHR 0xE2, CHR 0x80, CHR 0x94] @ '' ''
          @ delivery_describe delivery]"

definition hook_run ::
  "git_env \<Rightarrow> hook_sys \<Rightarrow> spooled_job codec \<Rightarrow> request codec \<Rightarrow> (nat \<Rightarrow> attempt) \<Rightarrow> hook_env \<Rightarrow>
     string \<Rightarrow> string list \<Rightarrow> string \<Rightarrow> string \<Rightarrow> spool \<times> wire \<Rightarrow> outcome \<times> spool \<times> wire"
where
  "hook_run genv sys jobs requests net env event_name args stdin cwd st =
     (if skipping env then (Skipped, st)
      else
        (case hook_parse event_name of
           None \<Rightarrow> (UnknownEvent event_name, st)
         | Some event \<Rightarrow>
             (case git_discover genv cwd of
                None \<Rightarrow> (NotARepository cwd, st)
              | Some git \<Rightarrow>
                  (case replay_spool sys jobs requests net (he_spool_dir env) st of
                     (replayed, st) \<Rightarrow>
                       (case changeset_for genv git event args stdin of
                          Inl e \<Rightarrow> (GitFailed (join_str '': '' e), st)
                        | Inr (cs, why) \<Rightarrow>
                            if cs_is_empty cs then (Nothing_Submitted why replayed, st)
                            else
                              (case deliver sys jobs requests net (he_spool_dir env) (g_root git) (hook_name event) cs st of
                                 (d, st) \<Rightarrow>
                                   (Submitted (g_root git) event why
                                      (length (added cs), length (modified cs), length (removed cs)) d replayed, st)))))))"

end
