(* ===== verification/Hook_Props.thy ===== *)
theory Hook_Props
  imports Hook_Spool
begin

text \<open>
  The spool and the socket together are a queue: hooks that run one after the other on a working disk and a clock that
  goes forward hand over or keep what they submit, oldest first, the last \<open>MAX_JOBS\<close> of what is kept. The queue and
  its steps come first, then the refinement, then what follows from it, and what happens outside its conditions.
\<close>

section \<open>The queue\<close>

text \<open>How many of \<open>n\<close> jobs are taken before the first attempt, counted from \<open>i\<close>, that fails.\<close>

fun taken :: "(nat \<Rightarrow> bool) \<Rightarrow> nat \<Rightarrow> nat \<Rightarrow> nat" where
  "taken up i 0 = 0"
| "taken up i (Suc n) = (if up i then Suc (taken up (Suc i) n) else 0)"

definition newest :: "nat \<Rightarrow> 'a list \<Rightarrow> 'a list" where
  "newest n xs = drop (length xs - n) xs"

text \<open>A hook with the attempts \<open>up\<close> and, maybe, something to submit: what was sent and what waits.\<close>

definition queue_step :: "nat \<Rightarrow> (nat \<Rightarrow> bool) \<Rightarrow> 'a option \<Rightarrow> 'a list \<times> 'a list \<Rightarrow> 'a list \<times> 'a list" where
  "queue_step cap up x sq =
     (let sent = fst sq; waits = snd sq;
          k = taken up 0 (length waits);
          sent = sent @ take k waits;
          rest = drop k waits;
          i = (if rest = [] then k else Suc k)
      in case x of
           None \<Rightarrow> (sent, rest)
         | Some x \<Rightarrow> if up i then (sent @ [x], rest) else (sent, newest cap (rest @ [x])))"

lemma taken_le: "taken up i n \<le> n"
  by (induction n arbitrary: i) auto

lemma length_newest: "length (newest n xs) \<le> n"
  by (simp add: newest_def)

lemma newest_small: "length xs \<le> n \<Longrightarrow> newest n xs = xs"
  by (simp add: newest_def)

text \<open>No job is lost while the queue has room for it.\<close>

definition opt :: "'a option \<Rightarrow> 'a list" where
  "opt x = (case x of None \<Rightarrow> [] | Some x \<Rightarrow> [x])"

lemma queue_step_conserves:
  assumes "length (snd sq) + length (opt x) \<le> cap"
  shows "mset (fst (queue_step cap up x sq)) + mset (snd (queue_step cap up x sq)) =
      mset (fst sq) + mset (snd sq) + mset (opt x)"
    and "length (snd (queue_step cap up x sq)) \<le> length (snd sq) + length (opt x)"
proof -
  let ?k = "taken up 0 (length (snd sq))"
  have "mset (take ?k (snd sq)) + mset (drop ?k (snd sq)) = mset (snd sq)"
    by (metis append_take_drop_id mset_append)
  then show "mset (fst (queue_step cap up x sq)) + mset (snd (queue_step cap up x sq)) =
      mset (fst sq) + mset (snd sq) + mset (opt x)"
    using assms by (auto simp: queue_step_def Let_def newest_small opt_def split: option.splits)
  show "length (snd (queue_step cap up x sq)) \<le> length (snd sq) + length (opt x)"
    by (auto simp: queue_step_def Let_def newest_def opt_def split: option.split)
qed

text \<open>When the daemon is there or away for the whole of each hook, what was sent and what waits stay in order.\<close>

definition steady :: "(nat \<Rightarrow> bool) \<Rightarrow> bool" where
  "steady up \<longleftrightarrow> up = (\<lambda>_. True) \<or> up = (\<lambda>_. False)"

lemma taken_steady: "taken (\<lambda>_. True) i n = n" "taken (\<lambda>_. False) i n = 0"
  by (induction n arbitrary: i) auto

lemma queue_step_ordered:
  assumes "length (snd sq) + length (opt x) \<le> cap" "steady up"
  shows "fst (queue_step cap up x sq) @ snd (queue_step cap up x sq) = fst sq @ snd sq @ opt x"
  using assms
  by (auto simp: queue_step_def Let_def steady_def taken_steady newest_small opt_def split: option.splits)

section \<open>Names in the order of their stamps\<close>

text \<open>The last \<open>k\<close> digits of a number.\<close>

fun digits :: "nat \<Rightarrow> nat \<Rightarrow> string" where
  "digits 0 n = []"
| "digits (Suc k) n = digits k (n div 10) @ [digit_char (n mod 10)]"

lemma length_digits [simp]: "length (digits k n) = k"
  by (induction k n rule: digits.induct) auto

lemma digits_zero: "digits k 0 = replicate k (CHR ''0'')"
proof (induction k)
  case (Suc k)
  have "digit_char 0 = CHR ''0''" by code_simp
  with Suc show ?case by (simp add: replicate_append_same)
qed simp

lemma digits_show:
  "n < 10 ^ k \<Longrightarrow> 0 < k \<Longrightarrow>
     digits k n = replicate (k - length (show_nat n)) (CHR ''0'') @ show_nat n \<and> length (show_nat n) \<le> k"
proof (induction n arbitrary: k rule: show_nat.induct)
  case (1 n)
  then obtain j where k: "k = Suc j" by (cases k) auto
  show ?case
  proof (cases "n < 10")
    case True
    then show ?thesis by (simp add: k digits_zero show_nat.simps [of n])
  next
    case False
    have small: "n div 10 < 10 ^ j" using 1(2) by (simp add: k less_mult_imp_div_less)
    have "0 < j"
    proof (rule ccontr)
      assume "\<not> 0 < j"
      with small False show False by simp
    qed
    from 1(1) [OF False small this] show ?thesis by (simp add: k show_nat.simps [of n] False)
  qed
qed

lemma job_stem_digits: "nanos < 10 ^ 39 \<Longrightarrow> job_stem nanos p = digits 39 nanos @ ''-'' @ show_nat p"
  using digits_show [of nanos 39] by (simp add: job_stem_def Let_def)

lemma digit_char_less: "a < b \<Longrightarrow> b < 10 \<Longrightarrow> digit_char a < digit_char b"
  by (simp add: digit_char_def less_char_def)

lemma list_less_append: "length xs = length ys \<Longrightarrow> xs < ys \<Longrightarrow> xs @ (s :: string) < ys @ t"
proof (induction xs ys rule: list_induct2)
  case (Cons x xs y ys)
  then show ?case by (cases "x < y") auto
qed simp

lemma list_less_append_same: "(s :: string) < t \<Longrightarrow> xs @ s < xs @ t"
  by (induction xs) auto

lemma digits_less: "a < b \<Longrightarrow> b < 10 ^ k \<Longrightarrow> digits k a < digits k b"
proof (induction k arbitrary: a b)
  case (Suc k)
  have b: "b div 10 < 10 ^ k" using Suc.prems(2) by (simp add: less_mult_imp_div_less)
  consider "a div 10 < b div 10" | "a div 10 = b div 10" "a mod 10 < b mod 10"
    using Suc.prems(1) by (metis div_le_mono div_mult_mod_eq le_neq_implies_less less_or_eq_imp_le nat_add_left_cancel_less)
  then show ?case
  proof cases
    case 1
    then show ?thesis using Suc.IH [OF 1 b] by (simp add: list_less_append)
  next
    case 2
    then show ?thesis by (simp add: list_less_append_same digit_char_less)
  qed
qed simp

lemma job_stem_less: "a < b \<Longrightarrow> b < 10 ^ 39 \<Longrightarrow> job_stem a p @ s < job_stem b p' @ s'"
  using digits_less [of a b 39] by (simp add: job_stem_digits list_less_append)

section \<open>The spool holds a queue\<close>

definition working :: "hook_sys \<Rightarrow> bool" where
  "working sys \<longleftrightarrow>
     hs_mkdir sys = None \<and> hs_list sys \<and> hs_write sys = None \<and> hs_rename sys = None
     \<and> hs_read sys = (\<lambda>_. None) \<and> hs_remove sys = (\<lambda>_. True)"

definition framed :: "request codec \<Rightarrow> string \<times> change_set \<Rightarrow> bytes" where
  "framed requests x = (case frame requests (submit (fst x) (snd x)) of Inr b \<Rightarrow> b | Inl _ \<Rightarrow> [])"

definition sendable :: "request codec \<Rightarrow> string \<times> change_set \<Rightarrow> bool" where
  "sendable requests x \<longleftrightarrow>
     frame requests (submit (fst x) (snd x)) = Inr (framed requests x) \<and> length (framed requests x) \<le> MAX_FRAME"

text \<open>What a job file says.\<close>

definition job_as :: "spooled_job codec \<Rightarrow> bytes \<Rightarrow> (string \<times> change_set) option" where
  "job_as jobs b =
     (case c_from_slice jobs b of
        Inl _ \<Rightarrow> None
      | Inr job \<Rightarrow> if sj_format job = FORMAT then Some (sj_project job, sj_changeset job) else None)"

definition storable :: "spooled_job codec \<Rightarrow> spooled_job \<Rightarrow> bool" where
  "storable jobs job \<longleftrightarrow>
     (case c_to_vec jobs job of Inl _ \<Rightarrow> False | Inr b \<Rightarrow> c_from_slice jobs b = Inr job)"

definition entry_ok ::
  "spooled_job codec \<Rightarrow> request codec \<Rightarrow> nat \<Rightarrow> string \<times> bytes \<Rightarrow> string \<times> change_set \<Rightarrow> bool"
where
  "entry_ok jobs requests t e x \<longleftrightarrow>
     (\<exists>s < t. \<exists>p. fst e = job_stem s p @ ''.json'') \<and> job_as jobs (snd e) = Some x \<and> sendable requests x"

definition holds ::
  "spooled_job codec \<Rightarrow> request codec \<Rightarrow> nat \<Rightarrow> spool \<Rightarrow> (string \<times> change_set) list \<Rightarrow> bool"
where
  "holds jobs requests t fs q \<longleftrightarrow> bt_ok fs \<and> list_all2 (entry_ok jobs requests t) fs q"

lemma holds_drop: "holds jobs requests t fs q \<Longrightarrow> holds jobs requests t (drop k fs) (drop k q)"
  by (auto simp: holds_def bt_ok_def drop_map [symmetric] intro: list_all2_dropI sorted_wrt_drop)

lemma holds_later: "holds jobs requests t fs q \<Longrightarrow> t \<le> t' \<Longrightarrow> holds jobs requests t' fs q"
  unfolding holds_def entry_ok_def by (auto elim!: list_all2_mono dest: less_le_trans)

lemma holds_length: "holds jobs requests t fs q \<Longrightarrow> length fs = length q"
  by (auto simp: holds_def dest: list_all2_lengthD)

lemma holds_name: "holds jobs requests t fs q \<Longrightarrow> n \<in> set (map fst fs) \<Longrightarrow> \<exists>s < t. \<exists>p. n = job_stem s p @ ''.json''"
  unfolding holds_def entry_ok_def by (fastforce simp: list_all2_conv_all_nth in_set_conv_nth)

lemma job_stem_dot: "CHR ''.'' \<notin> set (job_stem s p)"
proof -
  have d: "CHR ''.'' \<notin> set (show_nat n)" for n
  proof
    assume "CHR ''.'' \<in> set (show_nat n)"
    then obtain d where "d < 10" "CHR ''.'' = digit_char d" using show_nat_digits by blast
    then have "of_char (CHR ''.'') = (48 + d :: nat)" by (simp add: digit_char_def)
    then show False by simp
  qed
  then show ?thesis by (simp add: job_stem_def Let_def)
qed

lemma stem_extension: "CHR ''.'' \<notin> set x \<Longrightarrow> has_extension e (job_stem s p @ CHR ''.'' # x) \<longleftrightarrow> e = x"
proof -
  assume "CHR ''.'' \<notin> set x"
  then have "rfind_char (CHR ''.'') (job_stem s p @ CHR ''.'' # x) = Some (length (job_stem s p))"
    by (rule rfind_char_append)
  moreover have "job_stem s p \<noteq> []" by (simp add: job_stem_def Let_def)
  ultimately show ?thesis by (auto simp: has_extension_def)
qed

lemma job_extension: "has_extension e (job_stem s p @ ''.json'') \<longleftrightarrow> e = ''json''"
  using stem_extension [of "''json''"] by simp

lemma temp_extension: "has_extension e (job_stem s p @ ''.tmp'') \<longleftrightarrow> e = ''tmp''"
  using stem_extension [of "''tmp''"] by simp

lemma spool_jobs_held: "working sys \<Longrightarrow> holds jobs requests t fs q \<Longrightarrow> spool_jobs sys fs = map fst fs"
proof -
  assume w: "working sys" and h: "holds jobs requests t fs q"
  have "has_extension ''json'' n" if "n \<in> set (map fst fs)" for n
    using holds_name [OF h that] job_extension [of "''json''"] by auto
  then have "filter (has_extension ''json'') (map fst fs) = map fst fs" by (simp only: filter_id_conv) blast
  then show ?thesis using w by (simp add: spool_jobs_def working_def bt_keys_def)
qed

lemma spool_sweep_held: "holds jobs requests t fs q \<Longrightarrow> spool_sweep sys fs = fs"
proof -
  assume h: "holds jobs requests t fs q"
  have "\<not> has_extension ''tmp'' n" if "n \<in> set (map fst fs)" for n
    using holds_name [OF h that] job_extension [of "''tmp''"] by auto
  then have "filter (has_extension ''tmp'') (bt_keys fs) = []" by (simp add: bt_keys_def filter_empty_conv)
  then show ?thesis by (simp add: spool_sweep_def)
qed

section \<open>Replaying\<close>

lemma fire_and_forget_sendable:
  assumes "sendable requests x"
  shows "net (w_next w) = Connects \<Longrightarrow>
      fire_and_forget requests net (submit (fst x) (snd x)) w =
        (Inr (), \<lparr>w_next = Suc (w_next w), w_sent = w_sent w @ [framed requests x]\<rparr>)"
    and "net (w_next w) \<noteq> Connects \<Longrightarrow>
      \<exists>e. fire_and_forget requests net (submit (fst x) (snd x)) w =
        (Inl e, \<lparr>w_next = Suc (w_next w), w_sent = w_sent w\<rparr>)"
  using assms by (cases "net (w_next w)"; cases w; simp add: fire_and_forget_def sendable_def Let_def)+

lemma bt_remove_first: "bt_ok ((n, b) # fs) \<Longrightarrow> bt_remove n ((n, b) # fs) = fs"
  by (auto simp: bt_remove_def bt_ok_Cons filter_id_conv)

lemma read_held:
  assumes "working sys" "holds jobs requests t ((n, b) # fs) (x # q)"
  shows "\<exists>job. spool_read sys jobs dir n ((n, b) # fs) = Inr job \<and> (sj_project job, sj_changeset job) = x"
  using assms
  by (auto simp: working_def holds_def entry_ok_def job_as_def spool_read_def Let_def split: sum.splits if_splits)

lemma replay_jobs_held:
  assumes "working sys" "holds jobs requests t fs q"
  shows "\<exists>out'. replay_jobs sys jobs requests net dir (map fst fs) out (fs, w) =
    (let k = taken (\<lambda>i. net i = Connects) (w_next w) (length q)
     in (out', drop k fs,
         \<lparr>w_next = w_next w + (if k = length q then k else Suc k),
          w_sent = w_sent w @ map (framed requests) (take k q)\<rparr>))"
  using assms(2)
proof (induction fs arbitrary: q w out)
  case Nil
  then show ?case by (cases w) (simp add: holds_def)
next
  case (Cons e fs)
  obtain n b where e: "e = (n, b)" by fastforce
  from holds_length [OF Cons.prems] obtain x q' where q: "q = x # q'" by (cases q) auto
  have h: "holds jobs requests t ((n, b) # fs) (x # q')" using Cons.prems by (simp only: e q)
  have x: "sendable requests x" and rest: "holds jobs requests t fs q'"
    using h holds_drop [OF h, of 1] by (auto simp: holds_def entry_ok_def)
  obtain job where job: "spool_read sys jobs dir n ((n, b) # fs) = Inr job"
      "sj_project job = fst x" "sj_changeset job = snd x"
    using read_held [OF assms(1) h, of dir] by (metis fst_conv snd_conv)
  have gone: "spool_remove sys n ((n, b) # fs) = fs"
    using assms(1) h bt_remove_first [of n b fs] by (simp add: spool_remove_def working_def holds_def)
  show ?case
  proof (cases "net (w_next w) = Connects")
    case True
    let ?w = "\<lparr>w_next = Suc (w_next w), w_sent = w_sent w @ [framed requests x]\<rparr>"
    obtain out' where ih: "replay_jobs sys jobs requests net dir (map fst fs) (out\<lparr>r_delivered := r_delivered out + 1\<rparr>)
        (fs, ?w) =
      (let k = taken (\<lambda>i. net i = Connects) (w_next ?w) (length q')
       in (out', drop k fs, \<lparr>w_next = w_next ?w + (if k = length q' then k else Suc k),
           w_sent = w_sent ?w @ map (framed requests) (take k q')\<rparr>))"
      using Cons.IH [OF rest, of "out\<lparr>r_delivered := r_delivered out + 1\<rparr>" ?w] by blast
    have "replay_jobs sys jobs requests net dir (map fst (e # fs)) out (e # fs, w) =
        replay_jobs sys jobs requests net dir (map fst fs) (out\<lparr>r_delivered := r_delivered out + 1\<rparr>) (fs, ?w)"
      using fire_and_forget_sendable(1) [of requests x net w, OF x True]
      by (simp add: e job gone)
    with ih True show ?thesis by (intro exI [of _ out']) (simp add: q Let_def)
  next
    case False
    obtain err where "fire_and_forget requests net (submit (fst x) (snd x)) w =
        (Inl err, \<lparr>w_next = Suc (w_next w), w_sent = w_sent w\<rparr>)"
      using fire_and_forget_sendable(2) [of requests x net w, OF x False] by blast
    with False show ?thesis by (simp add: e job q Let_def)
  qed
qed

section \<open>Spooling\<close>

lemma bt_insert_last: "\<forall>n \<in> set (map fst fs). n < m \<Longrightarrow> bt_insert m b fs = fs @ [(m, b)]"
  by (induction fs) auto

lemma remove_prefix:
  assumes "hs_remove sys = (\<lambda>_. True)" "bt_ok (xs @ fs)"
  shows "fold (spool_remove sys) (map fst xs) (xs @ fs) = fs"
  using assms(2)
proof (induction xs)
  case (Cons x xs)
  obtain n b where x: "x = (n, b)" by fastforce
  have "spool_remove sys n (x # xs @ fs) = xs @ fs"
    using assms(1) Cons.prems bt_remove_first [of n b "xs @ fs"] by (simp add: spool_remove_def x)
  then show ?case using Cons by (simp add: x bt_ok_Cons)
qed simp

lemma enforce_cap_held:
  assumes "working sys" "holds jobs requests t fs q"
  shows "fst (enforce_cap sys fs) = newest MAX_JOBS fs"
proof (cases "length fs \<le> MAX_JOBS")
  case True
  then show ?thesis by (simp add: enforce_cap_def spool_jobs_held [OF assms] newest_small Let_def)
next
  case False
  let ?k = "length fs - MAX_JOBS"
  have "fold (spool_remove sys) (map fst (take ?k fs)) (take ?k fs @ drop ?k fs) = drop ?k fs"
    using assms by (intro remove_prefix) (simp_all add: working_def holds_def)
  with False show ?thesis
    by (simp add: enforce_cap_def spool_jobs_held [OF assms] newest_def Let_def take_map)
qed

lemma holds_push:
  assumes "holds jobs requests t fs q" "t \<le> s" "s < 10 ^ 39" "job_as jobs b = Some x" "sendable requests x"
  shows "holds jobs requests (Suc s) (bt_insert (job_stem s p @ ''.json'') b fs) (q @ [x])"
    and "bt_insert (job_stem s p @ ''.json'') b fs = fs @ [(job_stem s p @ ''.json'', b)]"
proof -
  let ?n = "job_stem s p @ ''.json''"
  have "\<forall>n \<in> set (map fst fs). n < ?n"
  proof
    fix n
    assume "n \<in> set (map fst fs)"
    then obtain s' p' where "s' < t" "n = job_stem s' p' @ ''.json''" using holds_name [OF assms(1)] by blast
    with assms(2,3) show "n < ?n" by (simp add: job_stem_less)
  qed
  then show last: "bt_insert ?n b fs = fs @ [(?n, b)]" by (rule bt_insert_last)
  have "bt_ok (bt_insert ?n b fs)" using assms(1) by (auto simp: holds_def)
  moreover have "entry_ok jobs requests (Suc s) (?n, b) x" using assms(4,5) by (auto simp: entry_ok_def)
  moreover have "holds jobs requests (Suc s) fs q" by (rule holds_later [OF assms(1)]) (use assms(2) in simp)
  ultimately show "holds jobs requests (Suc s) (bt_insert ?n b fs) (q @ [x])"
    unfolding holds_def last by (simp add: list_all2_appendI)
qed

lemma holds_newest: "holds jobs requests t fs q \<Longrightarrow> holds jobs requests t (newest k fs) (newest k q)"
  by (simp add: newest_def holds_length holds_drop)

lemma spool_push_held:
  assumes "working sys" "holds jobs requests t fs q" "t \<le> hs_nanos sys" "hs_nanos sys < 10 ^ 39"
    and "storable jobs job" "sj_format job = FORMAT" "x = (sj_project job, sj_changeset job)" "sendable requests x"
  shows "\<exists>path fs'. spool_push sys jobs dir job fs = (Inr path, fs')
    \<and> holds jobs requests (Suc (hs_nanos sys)) fs' (newest MAX_JOBS (q @ [x]))"
proof -
  let ?stem = "job_stem (hs_nanos sys) (hs_pid sys)"
  obtain b where b: "c_to_vec jobs job = Inr b" "c_from_slice jobs b = Inr job"
    using assms(5) by (auto simp: storable_def split: sum.splits)
  then have "job_as jobs b = Some x" by (simp add: job_as_def assms(6,7))
  note new = holds_push [OF assms(2-4) this assms(8)]
  have "bt_get fs (?stem @ ''.tmp'') = None"
  proof (rule ccontr)
    assume "bt_get fs (?stem @ ''.tmp'') \<noteq> None"
    then have "?stem @ ''.tmp'' \<in> set (map fst fs)" by (auto simp: bt_get_def map_of_eq_None_iff)
    then obtain s' p' where "?stem @ ''.tmp'' = job_stem s' p' @ ''.json''" using holds_name [OF assms(2)] by blast
    then have "last (?stem @ ''.tmp'') = last (job_stem s' p' @ ''.json'')" by simp
    then show False by simp
  qed
  then have "bt_remove (?stem @ ''.tmp'') (bt_insert (?stem @ ''.tmp'') b fs) = fs"
    using assms(2) bt.remove_insert by (auto simp: holds_def)
  then have "spool_push sys jobs dir job fs =
      (Inr (joined dir (?stem @ ''.json'')), fst (enforce_cap sys (bt_insert (?stem @ ''.json'') b fs)))"
    using assms(1) b(1) by (simp add: spool_push_def working_def Let_def)
  also have "fst (enforce_cap sys (bt_insert (?stem @ ''.json'') b fs)) =
      newest MAX_JOBS (bt_insert (?stem @ ''.json'') b fs)"
    by (rule enforce_cap_held [OF assms(1) new(1)])
  finally show ?thesis using holds_newest [OF new(1)] by blast
qed

section \<open>Hooks\<close>

record invocation =
  iv_git :: git_env
  iv_sys :: hook_sys
  iv_net :: "nat \<Rightarrow> attempt"
  iv_env :: hook_env
  iv_event :: string
  iv_args :: "string list"
  iv_stdin :: string
  iv_cwd :: string

definition run_invocation ::
  "spooled_job codec \<Rightarrow> request codec \<Rightarrow> invocation \<Rightarrow> spool \<times> wire \<Rightarrow> outcome \<times> spool \<times> wire"
where
  "run_invocation jobs requests iv =
     hook_run (iv_git iv) (iv_sys iv) jobs requests (iv_net iv) (iv_env iv) (iv_event iv) (iv_args iv) (iv_stdin iv)
       (iv_cwd iv)"

text \<open>Hooks one after the other, each a process of its own.\<close>

fun hooks ::
  "spooled_job codec \<Rightarrow> request codec \<Rightarrow> invocation list \<Rightarrow> spool \<times> bytes list \<Rightarrow> spool \<times> bytes list"
where
  "hooks jobs requests [] st = st"
| "hooks jobs requests (iv # ivs) st =
     (case run_invocation jobs requests iv (fst st, \<lparr>w_next = 0, w_sent = snd st\<rparr>) of
        (_, fs, w) \<Rightarrow> hooks jobs requests ivs (fs, w_sent w))"

text \<open>A hook that gets as far as the socket, and what it has to submit.\<close>

definition reaches :: "invocation \<Rightarrow> bool" where
  "reaches iv \<longleftrightarrow>
     \<not> skipping (iv_env iv) \<and> hook_parse (iv_event iv) \<noteq> None \<and> git_discover (iv_git iv) (iv_cwd iv) \<noteq> None"

definition submission :: "invocation \<Rightarrow> (string \<times> change_set) option" where
  "submission iv =
     (case (hook_parse (iv_event iv), git_discover (iv_git iv) (iv_cwd iv)) of
        (Some event, Some g) \<Rightarrow>
          (case changeset_for (iv_git iv) g event (iv_args iv) (iv_stdin iv) of
             Inl _ \<Rightarrow> None
           | Inr (cs, _) \<Rightarrow> if cs_is_empty cs then None else Some (g_root g, cs))
      | _ \<Rightarrow> None)"

definition up :: "invocation \<Rightarrow> nat \<Rightarrow> bool" where
  "up iv i \<longleftrightarrow> iv_net iv i = Connects"

fun queue_hooks ::
  "invocation list \<Rightarrow> (string \<times> change_set) list \<times> (string \<times> change_set) list \<Rightarrow>
     (string \<times> change_set) list \<times> (string \<times> change_set) list"
where
  "queue_hooks [] sq = sq"
| "queue_hooks (iv # ivs) sq =
     queue_hooks ivs (if reaches iv then queue_step MAX_JOBS (up iv) (submission iv) sq else sq)"

text \<open>A disk that works, a clock within the stamp's width, and a change set that both codecs carry.\<close>

definition invocation_ok :: "spooled_job codec \<Rightarrow> request codec \<Rightarrow> invocation \<Rightarrow> bool" where
  "invocation_ok jobs requests iv \<longleftrightarrow>
     working (iv_sys iv) \<and> hs_nanos (iv_sys iv) < 10 ^ 39
     \<and> (case submission iv of
          None \<Rightarrow> True
        | Some x \<Rightarrow>
            sendable requests x \<and> storable jobs (new_job (iv_sys iv) (fst x) (iv_event iv) (snd x)))"

lemma hook_name_parse: "hook_parse n = Some e \<Longrightarrow> hook_name e = n"
  by (auto simp: hook_parse_def split: if_splits)

text \<open>The two halves of a hook: the attempts the replay makes, and what becomes of the new change set.\<close>

lemma replay_held:
  assumes "working sys" "holds jobs requests t fs q"
    and k: "k = taken (\<lambda>i. net i = Connects) 0 (length q)"
  shows "\<exists>out. replay_spool sys jobs requests net dir (fs, \<lparr>w_next = 0, w_sent = sent\<rparr>) =
    (out, drop k fs, \<lparr>w_next = (if k = length q then k else Suc k), w_sent = sent @ map (framed requests) (take k q)\<rparr>)"
  using replay_jobs_held [OF assms(1,2), of net dir "\<lparr>r_delivered = 0, r_discarded = 0, r_remaining = 0\<rparr>"
      "\<lparr>w_next = 0, w_sent = sent\<rparr>"]
  by (auto simp: replay_spool_def spool_sweep_held [OF assms(2)] spool_jobs_held [OF assms(1,2)] k Let_def)

lemma deliver_held:
  assumes "working sys" "holds jobs requests t fs q" "t \<le> hs_nanos sys" "hs_nanos sys < 10 ^ 39"
    and "sendable requests (project, cs)" "storable jobs (new_job sys project event cs)"
  shows "\<exists>d fs' w'. deliver sys jobs requests net dir project event cs (fs, w) = (d, fs', w')
    \<and> (let there = (net (w_next w) = Connects)
       in holds jobs requests (Suc (hs_nanos sys)) fs' (if there then q else newest MAX_JOBS (q @ [(project, cs)]))
          \<and> w_sent w' = w_sent w @ (if there then [framed requests (project, cs)] else []))"
proof (cases "net (w_next w) = Connects")
  case True
  have "holds jobs requests (Suc (hs_nanos sys)) fs q" by (rule holds_later [OF assms(2)]) (use assms(3) in simp)
  with fire_and_forget_sendable(1) [OF assms(5), of net w, OF True] True show ?thesis by (simp add: deliver_def)
next
  case False
  obtain path fs' where "spool_push sys jobs dir (new_job sys project event cs) fs = (Inr path, fs')"
      "holds jobs requests (Suc (hs_nanos sys)) fs' (newest MAX_JOBS (q @ [(project, cs)]))"
    using spool_push_held [OF assms(1-4,6), of "(project, cs)" dir] assms(5) by (auto simp: new_job_def)
  with fire_and_forget_sendable(2) [OF assms(5), of net w, OF False] False show ?thesis
    by (auto simp: deliver_def)
qed

lemma run_refines:
  assumes ok: "invocation_ok jobs requests iv"
    and held: "holds jobs requests t fs (snd sq)" "t \<le> hs_nanos (iv_sys iv)"
  defines "sq' \<equiv> (if reaches iv then queue_step MAX_JOBS (up iv) (submission iv) sq else sq)"
  shows "\<exists>out fs' w. run_invocation jobs requests iv (fs, \<lparr>w_next = 0, w_sent = map (framed requests) (fst sq)\<rparr>) =
      (out, fs', w) \<and> holds jobs requests (Suc (hs_nanos (iv_sys iv))) fs' (snd sq')
      \<and> w_sent w = map (framed requests) (fst sq')"
proof (cases "reaches iv")
  case False
  then have "\<exists>out. run_invocation jobs requests iv st = (out, st)" for st
    by (auto simp: reaches_def run_invocation_def hook_run_def split: option.splits)
  moreover have "holds jobs requests (Suc (hs_nanos (iv_sys iv))) fs (snd sq)"
    by (rule holds_later [OF held(1)]) (use held(2) in simp)
  ultimately show ?thesis using False by (fastforce simp: sq'_def)
next
  case True
  let ?sys = "iv_sys iv" and ?net = "iv_net iv" and ?dir = "he_spool_dir (iv_env iv)"
  let ?w0 = "\<lparr>w_next = 0, w_sent = map (framed requests) (fst sq)\<rparr>"
  let ?k = "taken (up iv) 0 (length (snd sq))"
  let ?w1 = "\<lparr>w_next = (if ?k = length (snd sq) then ?k else Suc ?k),
    w_sent = map (framed requests) (fst sq @ take ?k (snd sq))\<rparr>"
  have sys: "working ?sys" and late: "hs_nanos ?sys < 10 ^ 39" using ok by (simp_all add: invocation_ok_def)
  obtain event g where ev: "hook_parse (iv_event iv) = Some event" and g: "git_discover (iv_git iv) (iv_cwd iv) = Some g"
    and go: "\<not> skipping (iv_env iv)" using True by (auto simp: reaches_def)
  have up: "(\<lambda>i. ?net i = Connects) = up iv" by (simp add: up_def fun_eq_iff)
  obtain out where "replay_spool ?sys jobs requests ?net ?dir (fs, ?w0) = (out, drop ?k fs, ?w1)"
    using replay_held [OF sys held(1), of ?k ?net ?dir] by (auto simp: up)
  then have run: "run_invocation jobs requests iv (fs, ?w0) =
      (case changeset_for (iv_git iv) g event (iv_args iv) (iv_stdin iv) of
         Inl e \<Rightarrow> (GitFailed (join_str '': '' e), drop ?k fs, ?w1)
       | Inr (cs, why) \<Rightarrow>
           if cs_is_empty cs then (Nothing_Submitted why out, drop ?k fs, ?w1)
           else
             (case deliver ?sys jobs requests ?net ?dir (g_root g) (hook_name event) cs (drop ?k fs, ?w1) of
                (d, st) \<Rightarrow>
                  (Submitted (g_root g) event why (length (added cs), length (modified cs), length (removed cs)) d out, st)))"
    using go ev g by (simp only: run_invocation_def hook_run_def if_False option.case prod.case)
  note rest = holds_drop [OF held(1), of ?k]
  have rest': "holds jobs requests (Suc (hs_nanos ?sys)) (drop ?k fs) (drop ?k (snd sq))"
    by (rule holds_later [OF rest]) (use held(2) in simp)
  show ?thesis
  proof (cases "submission iv")
    case None
    then have "\<exists>o1. run_invocation jobs requests iv (fs, ?w0) = (o1, drop ?k fs, ?w1)"
      unfolding run by (auto simp: submission_def ev g split: sum.splits if_splits)
    with rest' show ?thesis by (auto simp: sq'_def True None queue_step_def Let_def)
  next
    case (Some x)
    then obtain cs why where cs: "changeset_for (iv_git iv) g event (iv_args iv) (iv_stdin iv) = Inr (cs, why)"
        "\<not> cs_is_empty cs" and x: "x = (g_root g, cs)"
      by (auto simp: submission_def ev g split: sum.splits if_splits)
    have send: "sendable requests x" and store: "storable jobs (new_job ?sys (fst x) (iv_event iv) (snd x))"
      using ok Some by (simp_all add: invocation_ok_def)
    have full: "drop ?k (snd sq) = [] \<longleftrightarrow> ?k = length (snd sq)"
      using taken_le [of "up iv" 0 "length (snd sq)"] by auto
    have store': "storable jobs (new_job ?sys (g_root g) (hook_name event) cs)"
      using store by (simp add: x hook_name_parse [OF ev])
    obtain d fs' w' where "deliver ?sys jobs requests ?net ?dir (g_root g) (hook_name event) cs (drop ?k fs, ?w1) = (d, fs', w')"
        "let there = (?net (w_next ?w1) = Connects)
         in holds jobs requests (Suc (hs_nanos ?sys)) fs' (if there then drop ?k (snd sq) else newest MAX_JOBS (drop ?k (snd sq) @ [x]))
            \<and> w_sent w' = w_sent ?w1 @ (if there then [framed requests x] else [])"
      using deliver_held [OF sys rest held(2) late send [unfolded x] store', of ?net ?dir ?w1] unfolding x by blast
    with run cs taken_le [of "up iv" 0 "length (snd sq)"] show ?thesis
      by (auto simp: sq'_def \<open>reaches iv\<close> Some queue_step_def Let_def full up_def)
  qed
qed

section \<open>What hooks achieve\<close>

definition stamp :: "invocation \<Rightarrow> nat" where
  "stamp iv = hs_nanos (iv_sys iv)"

definition waiting :: "spooled_job codec \<Rightarrow> spool \<Rightarrow> (string \<times> change_set) list" where
  "waiting jobs fs = List.map_filter (\<lambda>e. job_as jobs (snd e)) fs"

definition submissions :: "invocation list \<Rightarrow> (string \<times> change_set) list" where
  "submissions ivs = List.map_filter submission (filter reaches ivs)"

lemma waiting_held: "holds jobs requests t fs q \<Longrightarrow> waiting jobs fs = q"
proof -
  assume "holds jobs requests t fs q"
  then have "list_all2 (entry_ok jobs requests t) fs q" by (simp add: holds_def)
  then show ?thesis
    by (induction rule: list_all2_induct) (simp_all add: waiting_def entry_ok_def map_filter_simps)
qed

lemma hooks_held:
  assumes "list_all (invocation_ok jobs requests) ivs" "sorted_wrt (<) (map stamp ivs)"
    and "holds jobs requests t fs (snd sq)" "\<forall>iv \<in> set ivs. t \<le> stamp iv"
  shows "\<exists>t' fs'. hooks jobs requests ivs (fs, map (framed requests) (fst sq)) =
      (fs', map (framed requests) (fst (queue_hooks ivs sq))) \<and> holds jobs requests t' fs' (snd (queue_hooks ivs sq))"
  using assms
proof (induction ivs arbitrary: t fs sq)
  case (Cons iv ivs)
  let ?sq = "if reaches iv then queue_step MAX_JOBS (up iv) (submission iv) sq else sq"
  obtain out fs' w where step: "run_invocation jobs requests iv (fs, \<lparr>w_next = 0, w_sent = map (framed requests) (fst sq)\<rparr>) =
      (out, fs', w)" "holds jobs requests (Suc (stamp iv)) fs' (snd ?sq)" "w_sent w = map (framed requests) (fst ?sq)"
    using run_refines [of jobs requests iv t fs sq] Cons.prems by (auto simp: stamp_def)
  have "\<forall>iv' \<in> set ivs. Suc (stamp iv) \<le> stamp iv'" using Cons.prems(2) by auto
  with Cons.IH [OF _ _ step(2)] Cons.prems(1,2) step(1,3) show ?case by simp
qed auto

lemma holds_Nil: "holds jobs requests 0 [] []"
  by (simp add: holds_def)

text \<open>C19. The spool and the socket are a bounded queue: after any hooks on a working disk whose clock goes forward,
  whatever becomes of each attempt to reach the daemon, the daemon has received the frames of what the queue sent, and
  the spool holds the changes that wait in it, at most \<open>MAX_JOBS\<close>.\<close>

theorem hooks_refine_queue:
  assumes "list_all (invocation_ok jobs requests) ivs" "sorted_wrt (<) (map stamp ivs)"
  shows "(waiting jobs (fst (hooks jobs requests ivs ([], []))), snd (hooks jobs requests ivs ([], []))) =
      (snd (queue_hooks ivs ([], [])), map (framed requests) (fst (queue_hooks ivs ([], []))))"
  using hooks_held [OF assms, of 0 "[]" "([], [])"] holds_Nil waiting_held by fastforce

lemma submissions_Cons: "submissions (iv # ivs) = (if reaches iv then opt (submission iv) else []) @ submissions ivs"
  by (simp add: submissions_def map_filter_simps opt_def split: option.split)

lemma queue_hooks_room:
  assumes "length (snd sq) + length (submissions (iv # ivs)) \<le> MAX_JOBS"
  defines "sq' \<equiv> (if reaches iv then queue_step MAX_JOBS (up iv) (submission iv) sq else sq)"
  shows "reaches iv \<Longrightarrow> length (snd sq) + length (opt (submission iv)) \<le> MAX_JOBS"
    and "length (snd sq') + length (submissions ivs) \<le> MAX_JOBS"
proof -
  show room: "reaches iv \<Longrightarrow> length (snd sq) + length (opt (submission iv)) \<le> MAX_JOBS"
    using assms(1) by (simp add: submissions_Cons)
  show "length (snd sq') + length (submissions ivs) \<le> MAX_JOBS"
    using queue_step_conserves(2) [OF room, of "up iv"] assms(1) by (auto simp: submissions_Cons sq'_def)
qed

lemma queue_hooks_conserves:
  "length (snd sq) + length (submissions ivs) \<le> MAX_JOBS \<Longrightarrow>
     mset (fst (queue_hooks ivs sq)) + mset (snd (queue_hooks ivs sq)) =
       mset (fst sq) + mset (snd sq) + mset (submissions ivs)"
proof (induction ivs arbitrary: sq)
  case (Cons iv ivs)
  note room = queue_hooks_room [OF Cons.prems]
  from Cons.IH [OF room(2)] queue_step_conserves(1) [OF room(1), of "up iv"]
  show ?case by (simp add: submissions_Cons)
qed (simp add: submissions_def map_filter_simps)

lemma queue_hooks_ordered:
  "length (snd sq) + length (submissions ivs) \<le> MAX_JOBS \<Longrightarrow> list_all (\<lambda>iv. steady (up iv)) ivs \<Longrightarrow>
     fst (queue_hooks ivs sq) @ snd (queue_hooks ivs sq) = fst sq @ snd sq @ submissions ivs"
proof (induction ivs arbitrary: sq)
  case (Cons iv ivs)
  note room = queue_hooks_room [OF Cons.prems(1)]
  from Cons.prems(2) have "steady (up iv)" "list_all (\<lambda>iv. steady (up iv)) ivs" by simp_all
  with Cons.IH [OF room(2)] queue_step_ordered [OF room(1), of "up iv"]
  show ?case by (simp add: submissions_Cons)
qed (simp add: submissions_def map_filter_simps)

text \<open>C18. As long as no more than \<open>MAX_JOBS\<close> changes are submitted, each has either reached the daemon or waits, none
  twice; and they are in the order of the hooks when the daemon is there, or away, for the whole of each hook.\<close>

theorem hooks_lose_nothing:
  assumes "list_all (invocation_ok jobs requests) ivs" "sorted_wrt (<) (map stamp ivs)"
    and "length (submissions ivs) \<le> MAX_JOBS"
    and "hooks jobs requests ivs ([], []) = (fs, sent)"
  shows "mset sent + mset (map (framed requests) (waiting jobs fs)) = mset (map (framed requests) (submissions ivs))
    \<and> (list_all (\<lambda>iv. steady (up iv)) ivs \<longrightarrow>
        sent @ map (framed requests) (waiting jobs fs) = map (framed requests) (submissions ivs))"
proof -
  let ?sq = "queue_hooks ivs ([], [])"
  obtain t' fs' where "hooks jobs requests ivs ([], map (framed requests) []) = (fs', map (framed requests) (fst ?sq))"
      "holds jobs requests t' fs' (snd ?sq)"
    using hooks_held [OF assms(1,2), of 0 "[]" "([], [])"] holds_Nil by auto
  then have sq: "sent = map (framed requests) (fst ?sq)" "waiting jobs fs = snd ?sq"
    using assms(4) waiting_held by auto
  have room: "length (snd ([], []) :: (string \<times> change_set) list) + length (submissions ivs) \<le> MAX_JOBS"
    using assms(3) by simp
  have "mset sent + mset (map (framed requests) (waiting jobs fs)) =
      image_mset (framed requests) (mset (fst ?sq) + mset (snd ?sq))" by (simp add: sq)
  also have "\<dots> = mset (map (framed requests) (submissions ivs))" by (simp add: queue_hooks_conserves [OF room])
  finally have all: "mset sent + mset (map (framed requests) (waiting jobs fs)) =
      mset (map (framed requests) (submissions ivs))" .
  have "sent @ map (framed requests) (waiting jobs fs) = map (framed requests) (submissions ivs)"
    if "list_all (\<lambda>iv. steady (up iv)) ivs"
  proof -
    have "sent @ map (framed requests) (waiting jobs fs) = map (framed requests) (fst ?sq @ snd ?sq)" by (simp add: sq)
    also have "fst ?sq @ snd ?sq = submissions ivs" using queue_hooks_ordered [OF room that] by simp
    finally show ?thesis .
  qed
  with all show ?thesis by blast
qed

end
