(* ===== verification/Hook_Examples.thy ===== *)
theory Hook_Examples
  imports Hook_Props
begin

text \<open>
  Hooks on concrete repositories: two commits, the first while the daemon is away; and what happens to the spool
  outside the conditions of \<open>Hook_Props\<close>, with a job too long to send, a clock that was set back, a daemon that comes
  back within a hook, and two hooks at once.
\<close>

section \<open>Two commits\<close>

definition toy_repo :: git_env where
  "toy_repo = toy_git\<lparr>ge_spawn := (\<lambda>cwd unset args.
     if args = [''rev-parse'', ''--show-toplevel''] then Inr (True, ''/r'' @ [CHR 0x0A], []) else ge_spawn toy_git cwd unset args)\<rparr>"

definition toy_change :: change_set where
  "toy_change = \<lparr>added = [''a.rs'', ''b.rs''], modified = [], removed = []\<rparr>"

text \<open>Codecs that carry the jobs and requests of this repository.\<close>

definition toy_jobs :: "spooled_job codec" where
  "toy_jobs = \<lparr>c_to_vec = (\<lambda>job. Inr (sj_project job)),
     c_from_slice = (\<lambda>b. Inr \<lparr>sj_format = FORMAT, sj_project = b, sj_event = ''post-commit'', sj_created = 0,
       sj_changeset = toy_change\<rparr>)\<rparr>"

definition toy_requests :: "request codec" where
  "toy_requests = \<lparr>c_to_vec = (\<lambda>r. Inr ''submit''), c_from_slice = (\<lambda>b. Inl ''not here'')\<rparr>"

definition toy_sys :: "nat \<Rightarrow> hook_sys" where
  "toy_sys nanos =
     \<lparr>hs_mkdir = None, hs_list = True, hs_write = None, hs_rename = None, hs_read = (\<lambda>_. None), hs_remove = (\<lambda>_. True),
      hs_secs = 0, hs_nanos = nanos, hs_pid = 7\<rparr>"

definition toy_commit_at :: "nat \<Rightarrow> (nat \<Rightarrow> attempt) \<Rightarrow> invocation" where
  "toy_commit_at nanos net =
     \<lparr>iv_git = toy_repo, iv_sys = toy_sys nanos, iv_net = net, iv_env = \<lparr>he_skip = None, he_spool_dir = ''/s''\<rparr>,
      iv_event = ''post-commit'', iv_args = [], iv_stdin = [], iv_cwd = ''/r''\<rparr>"

definition two_commits :: "invocation list" where
  "two_commits = [toy_commit_at 1 (\<lambda>_. NoConnect ''refused''), toy_commit_at 2 (\<lambda>_. Connects)]"

lemma toy_discovered: "git_discover toy_repo ''/r'' = Some \<lparr>g_root = ''/r''\<rparr>"
  by code_simp

lemma toy_parsed: "hook_parse ''post-commit'' = Some PostCommit"
  by code_simp

lemma toy_changes: "changeset_for toy_repo \<lparr>g_root = ''/r''\<rparr> PostCommit [] [] = Inr (toy_change, ''HEAD^1..HEAD'')"
  by code_simp

lemma toy_running: "\<not> skipping \<lparr>he_skip = None, he_spool_dir = ''/s''\<rparr>"
  by (simp add: skipping_def)

lemma toy_submission: "submission (toy_commit_at nanos net) = Some (''/r'', toy_change)"
  "reaches (toy_commit_at nanos net)"
  by (simp_all add: submission_def reaches_def toy_commit_at_def toy_discovered toy_parsed toy_changes toy_running
      toy_change_def cs_is_empty_def)

lemma toy_framed: "framed toy_requests x = to_be_bytes 6 @ ''submit''" "sendable toy_requests x"
proof -
  show fr: "framed toy_requests x = to_be_bytes 6 @ ''submit''"
    by (simp add: framed_def frame_def toy_requests_def)
  have "10 \<le> MAX_FRAME" by (simp add: MAX_FRAME_def)
  then show "sendable toy_requests x"
    by (simp add: sendable_def fr) (simp add: frame_def toy_requests_def to_be_bytes_def)
qed

lemma two_commits_ok: "list_all (invocation_ok toy_jobs toy_requests) two_commits" "sorted_wrt (<) (map stamp two_commits)"
proof -
  have "storable toy_jobs (new_job (toy_sys n) ''/r'' ''post-commit'' toy_change)" for n
    by (simp add: storable_def toy_jobs_def new_job_def toy_sys_def)
  moreover have "iv_event (toy_commit_at n net) = ''post-commit''" "iv_sys (toy_commit_at n net) = toy_sys n" for n net
    by (simp_all add: toy_commit_at_def)
  moreover have "working (toy_sys n)" "hs_nanos (toy_sys n) = n" for n by (simp_all add: working_def toy_sys_def)
  ultimately show "list_all (invocation_ok toy_jobs toy_requests) two_commits" "sorted_wrt (<) (map stamp two_commits)"
    by (simp_all add: invocation_ok_def two_commits_def toy_submission toy_framed stamp_def)
qed

theorem hooks_refine_queue_witness:
  "snd (hooks toy_jobs toy_requests two_commits ([], [])) =
     [to_be_bytes 6 @ ''submit'', to_be_bytes 6 @ ''submit'']"
proof -
  have "queue_hooks two_commits ([], []) = ([(''/r'', toy_change), (''/r'', toy_change)], [])"
    by (simp add: two_commits_def toy_submission queue_step_def newest_def MAX_JOBS_def Let_def up_def
        toy_commit_at_def [THEN arg_cong, of iv_net])
  with hooks_refine_queue [OF two_commits_ok] show ?thesis by (simp add: toy_framed)
qed

theorem hooks_lose_nothing_witness:
  "snd (hooks toy_jobs toy_requests two_commits ([], [])) @
     map (framed toy_requests) (waiting toy_jobs (fst (hooks toy_jobs toy_requests two_commits ([], [])))) =
   [to_be_bytes 6 @ ''submit'', to_be_bytes 6 @ ''submit'']"
proof -
  have subs: "submissions two_commits = [(''/r'', toy_change), (''/r'', toy_change)]"
    by (simp add: two_commits_def submissions_Cons toy_submission opt_def) (simp add: submissions_def map_filter_simps)
  have "list_all (\<lambda>iv. steady (up iv)) two_commits"
    by (simp add: two_commits_def steady_def up_def toy_commit_at_def fun_eq_iff)
  with hooks_lose_nothing [OF two_commits_ok _ surjective_pairing] show ?thesis
    by (simp add: subs MAX_JOBS_def toy_framed)
qed

section \<open>A job too long to send\<close>

text \<open>A change set that no frame can carry is spooled, and then no replay gets past it.\<close>

lemma oversize_change_is_spooled:
  assumes "working sys" "c_to_vec jobs (new_job sys project event cs) = Inr body"
    and "frame requests (submit project cs) = Inr b" "MAX_FRAME < length b"
  shows "\<exists>path fs'. deliver sys jobs requests net dir project event cs (fs, w) = (Spooled path, fs', w)"
  using assms by (simp add: deliver_def fire_and_forget_def spool_push_def working_def Let_def)

lemma oversize_job_wedges:
  assumes "hs_list sys" "hs_read sys = (\<lambda>_. None)" "bt_keys fs = n # ns" "list_all (has_extension ''json'') (n # ns)"
    and "bt_get fs n = Some b" "job_as jobs b = Some (project, cs)"
    and "frame requests (submit project cs) = Inr f" "MAX_FRAME < length f"
  shows "replay_spool sys jobs requests net dir (fs, w) =
    (\<lparr>r_delivered = 0, r_discarded = 0, r_remaining = Suc (length ns)\<rparr>, fs, w)"
proof -
  have "filter (has_extension ''tmp'') (bt_keys fs) = []"
    using assms(3,4) unfolding filter_empty_conv list_all_iff has_extension_def by (auto split: option.splits)
  then have "spool_sweep sys fs = fs" by (simp add: spool_sweep_def)
  moreover have "spool_jobs sys fs = n # ns" using assms(1,3,4) by (simp add: spool_jobs_def list_all_iff filter_id_conv)
  ultimately show ?thesis
    using assms(2,5-8)
    by (auto simp: replay_spool_def spool_read_def job_as_def fire_and_forget_def Let_def split: sum.splits if_splits)
qed

section \<open>A clock that was set back\<close>

text \<open>A full spool and a stamp before all of its: the new job is the one that the cap drops, and it is reported as
  spooled.\<close>

lemma clock_back_drops_new_job:
  fixes sys
  defines "name \<equiv> job_stem (hs_nanos sys) (hs_pid sys)"
  assumes "working sys" "bt_ok fs" "list_all (has_extension ''json'') (bt_keys fs)" "MAX_JOBS \<le> length fs"
    and "c_to_vec jobs job = Inr b" "list_all (\<lambda>n. name @ ''.json'' < n) (bt_keys fs)"
  shows "\<exists>path fs'. spool_push sys jobs dir job fs = (Inr path, fs') \<and> bt_get fs' (name @ ''.json'') = None"
proof -
  let ?n = "name @ ''.json''"
  have "name @ ''.tmp'' \<notin> set (bt_keys fs)"
    using assms(4) temp_extension [of "''json''" "hs_nanos sys" "hs_pid sys"] by (auto simp: list_all_iff name_def)
  then have tmp: "bt_remove (name @ ''.tmp'') (bt_insert (name @ ''.tmp'') b fs) = fs"
    using assms(3) bt.remove_insert by (auto simp: bt_get_def map_of_eq_None_iff bt_keys_def)
  have first: "bt_insert ?n b fs = (?n, b) # fs" using assms(7) by (cases fs) (auto simp: bt_keys_def)
  have ok: "bt_ok ((?n, b) # fs)" using assms(3) bt_ok_insert [of fs ?n b] by (simp only: first)
  have "has_extension ''json'' ?n" unfolding name_def job_extension by simp
  then have jobs: "spool_jobs sys ((?n, b) # fs) = map fst ((?n, b) # fs)"
    using assms(2,4) by (simp add: spool_jobs_def working_def bt_keys_def list_all_iff filter_id_conv)
  let ?k = "Suc (length fs) - MAX_JOBS" and ?fs = "(?n, b) # fs"
  have "fold (spool_remove sys) (map fst (take ?k ?fs)) (take ?k ?fs @ drop ?k ?fs) = drop ?k ?fs"
    using assms(2) ok by (intro remove_prefix) (simp_all only: working_def append_take_drop_id)
  then have "fst (enforce_cap sys ?fs) = drop ?k ?fs"
    using assms(5) by (simp add: enforce_cap_def jobs Let_def take_map del: list.map drop_Cons')
  also have "\<dots> = drop (length fs - MAX_JOBS) fs" using assms(5) by (simp add: Suc_diff_le)
  finally have capped: "fst (enforce_cap sys ?fs) = drop (length fs - MAX_JOBS) fs" .
  have "?n \<notin> set (bt_keys fs)" using assms(7) by (auto simp: list_all_iff)
  then have "bt_get (drop (length fs - MAX_JOBS) fs) ?n = None"
    by (auto simp: bt_get_def map_of_eq_None_iff bt_keys_def dest: in_set_dropD)
  moreover have "spool_push sys jobs dir job fs = (Inr (joined dir ?n), fst (enforce_cap sys ?fs))"
    using assms(2,6) by (simp add: spool_push_def working_def Let_def name_def [symmetric] tmp first)
  ultimately show ?thesis by (simp add: capped)
qed

section \<open>A daemon that comes back within a hook\<close>

text \<open>The replay finds it away and the delivery after it does not: the newer change is sent before the older one.\<close>

lemma returning_daemon_reorders:
  "queue_step MAX_JOBS (\<lambda>i. i = 1) (Some newer) ([], [older]) = ([newer], [older])"
  by (simp add: queue_step_def newest_def MAX_JOBS_def Let_def)

section \<open>Two hooks at once\<close>

text \<open>The sweep of one hook removes the job that another has written and not yet renamed; its rename then fails and
  the job is dropped.\<close>

lemma get_remove_all:
  assumes "hs_remove sys = (\<lambda>_. True)"
  shows "bt_get (fold (spool_remove sys) ns fs) n = (if n \<in> set ns then None else bt_get fs n)"
  by (induction ns arbitrary: fs) (auto simp: spool_remove_def assms bt_get_remove)

lemma sweep_takes_written_job:
  fixes nanos process
  defines "temp \<equiv> job_stem nanos process @ ''.tmp''"
  assumes "hs_list sys" "hs_remove sys = (\<lambda>_. True)"
  shows "bt_get (spool_sweep sys (bt_insert temp b fs)) temp = None"
proof -
  have "has_extension ''tmp'' temp" unfolding temp_def temp_extension by simp
  then have "temp \<in> set (filter (has_extension ''tmp'') (bt_keys (bt_insert temp b fs)))"
    using bt_keys_insert [of temp b fs] by (simp add: bt_keys_def)
  then show ?thesis unfolding spool_sweep_def by (simp only: assms(2) if_True get_remove_all [OF assms(3)])
qed

end
