(* ===== verification/Ingest.thy ===== *)
theory Ingest
  imports Sched Syntax_Tree
begin

text \<open>
  Which files are source files (\<^verbatim>\<open>filigrio-ingest\<close>): the boundary of \<^verbatim>\<open>boundary.rs\<close>, which enumerates a tree and
  judges a single path, the file source of \<^verbatim>\<open>lib.rs\<close>, the triggered producer of \<^verbatim>\<open>producer.rs\<close> and the watcher's
  classification of events of \<^verbatim>\<open>watcher.rs\<close>. The patterns of a \<^verbatim>\<open>.gitignore\<close> and the walk over the tree belong to
  the third-party crate \<^verbatim>\<open>ignore\<close> and are parameters; Unix paths are lists of names, each its bytes.
\<close>

section \<open>Trees of files\<close>

text \<open>A symbolic link has what it leads to.\<close>

datatype fs_entry = EFile bytes | EDir "(string \<times> fs_entry) list" | ELink "fs_entry option" | EOther

fun followed :: "fs_entry \<Rightarrow> fs_entry option" where
  "followed (ELink None) = None"
| "followed (ELink (Some e)) = followed e"
| "followed e = Some e"

text \<open>\<open>stat\<close> follows links, \<open>lookup\<close> does not.\<close>

fun fs_stat :: "fs_entry \<Rightarrow> string list \<Rightarrow> fs_entry option" where
  "fs_stat e [] = followed e"
| "fs_stat e (n # ns) =
     (case followed e of
        Some (EDir es) \<Rightarrow> (case map_of es n of Some e' \<Rightarrow> fs_stat e' ns | None \<Rightarrow> None)
      | _ \<Rightarrow> None)"

fun fs_lookup :: "fs_entry \<Rightarrow> string list \<Rightarrow> fs_entry option" where
  "fs_lookup e [] = Some e"
| "fs_lookup e (n # ns) =
     (case e of EDir es \<Rightarrow> (case map_of es n of Some e' \<Rightarrow> fs_lookup e' ns | None \<Rightarrow> None) | _ \<Rightarrow> None)"

definition is_file :: "fs_entry option \<Rightarrow> bool" where
  "is_file e \<longleftrightarrow> (case e of Some (EFile _) \<Rightarrow> True | _ \<Rightarrow> False)"

definition is_directory :: "fs_entry option \<Rightarrow> bool" where
  "is_directory e \<longleftrightarrow> (case e of Some (EDir _) \<Rightarrow> True | _ \<Rightarrow> False)"

section \<open>Ignore files\<close>

datatype verdict = Ignored | Whitelisted | Unmatched

text \<open>The crate \<^verbatim>\<open>ignore\<close>: whether patterns build, what they say of a path below their directory, and a walk.\<close>

record walk_options =
  wo_hidden :: bool
  wo_git_ignore :: bool
  wo_git_global :: bool
  wo_git_exclude :: bool
  wo_ignore :: bool
  wo_parents :: bool
  wo_require_git :: bool

record ignore_crate =
  ic_builds :: "bytes \<Rightarrow> bool"
  ic_matched :: "bytes \<Rightarrow> string list \<Rightarrow> bool \<Rightarrow> verdict"
  ic_walk :: "walk_options \<Rightarrow> (string \<Rightarrow> bool) \<Rightarrow> fs_entry \<Rightarrow> string + (string list \<times> fs_entry) list"

record gitignore =
  gi_dir :: "string list"
  gi_text :: bytes

definition load_gitignore :: "ignore_crate \<Rightarrow> fs_entry \<Rightarrow> string list \<Rightarrow> gitignore option" where
  "load_gitignore ic tree dir =
     (case fs_stat tree (dir @ [''.gitignore'']) of
        Some (EFile b) \<Rightarrow> if ic_builds ic b then Some \<lparr>gi_dir = dir, gi_text = b\<rparr> else None
      | _ \<Rightarrow> None)"

definition gi_matched :: "ignore_crate \<Rightarrow> gitignore \<Rightarrow> string list \<Rightarrow> bool \<Rightarrow> verdict" where
  "gi_matched ic gi path is_dir = ic_matched ic (gi_text gi) (drop (length (gi_dir gi)) path) is_dir"

fun decision_from :: "ignore_crate \<Rightarrow> string list \<Rightarrow> bool \<Rightarrow> bool option \<Rightarrow> gitignore list \<Rightarrow> bool option" where
  "decision_from ic path is_dir result [] = result"
| "decision_from ic path is_dir result (gi # gis) =
     decision_from ic path is_dir
       (case gi_matched ic gi path is_dir of Ignored \<Rightarrow> Some True | Whitelisted \<Rightarrow> Some False | Unmatched \<Rightarrow> result) gis"

definition decision :: "ignore_crate \<Rightarrow> gitignore list \<Rightarrow> string list \<Rightarrow> bool \<Rightarrow> bool option" where
  "decision ic stack path is_dir = decision_from ic path is_dir None stack"

section \<open>The boundary\<close>

definition is_builtin_noise :: "string \<Rightarrow> bool" where
  "is_builtin_noise name \<longleftrightarrow>
     name \<in> set [''.git'', ''target'', ''node_modules'', ''.venv'', ''__pycache__'', ''.mypy_cache'', ''.filigrio-out'',
       ''.filigrio'']"

text \<open>The compiled ignore files by directory, as far as they have been asked for.\<close>

type_synonym gitignore_cache = "(string list, gitignore option) btree"

definition gitignore_for ::
  "ignore_crate \<Rightarrow> fs_entry \<Rightarrow> string list \<Rightarrow> gitignore_cache \<Rightarrow> gitignore option \<times> gitignore_cache"
where
  "gitignore_for ic tree dir cache =
     (case bt_get cache dir of
        Some hit \<Rightarrow> (hit, cache)
      | None \<Rightarrow> (let compiled = load_gitignore ic tree dir in (compiled, bt_insert dir compiled cache)))"

fun matches_parts ::
  "ignore_crate \<Rightarrow> fs_entry \<Rightarrow> string list \<Rightarrow> gitignore list \<Rightarrow> string list \<Rightarrow> gitignore_cache \<Rightarrow> bool \<times> gitignore_cache"
where
  "matches_parts ic tree cur stack [] cache = (True, cache)"
| "matches_parts ic tree cur stack (name # parts) cache =
     (let is_dir = (parts \<noteq> []) in
      if starts_with name ''.'' \<or> is_builtin_noise name then (False, cache)
      else
        (let cur = cur @ [name] in
         if decision ic stack cur is_dir = Some True then (False, cache)
         else if is_dir
         then
           (case gitignore_for ic tree cur cache of
              (Some gi, cache) \<Rightarrow> matches_parts ic tree cur (stack @ [gi]) parts cache
            | (None, cache) \<Rightarrow> matches_parts ic tree cur stack parts cache)
         else matches_parts ic tree cur stack parts cache))"

fun trim_dot_slashes :: "string \<Rightarrow> string" where
  "trim_dot_slashes (a # b # s) = (if a = CHR ''.'' \<and> b = CHR ''/'' then trim_dot_slashes s else a # b # s)"
| "trim_dot_slashes s = s"

definition path_parts :: "string \<Rightarrow> string list" where
  "path_parts rel =
     filter (\<lambda>s. s \<noteq> [] \<and> s \<noteq> ''.'')
       (split_str ''/'' (trim_dot_slashes (replace_char (CHR 0x5C) (CHR ''/'') rel)))"

definition boundary_matches :: "ignore_crate \<Rightarrow> fs_entry \<Rightarrow> string \<Rightarrow> gitignore_cache \<Rightarrow> bool \<times> gitignore_cache" where
  "boundary_matches ic tree rel cache =
     (let parts = path_parts rel in
      if parts = [] then (False, cache)
      else
        (case gitignore_for ic tree [] cache of
           (Some gi, cache) \<Rightarrow> matches_parts ic tree [] [gi] parts cache
         | (None, cache) \<Rightarrow> matches_parts ic tree [] [] parts cache))"

definition WALK_OPTIONS :: walk_options where
  "WALK_OPTIONS =
     \<lparr>wo_hidden = True, wo_git_ignore = True, wo_git_global = False, wo_git_exclude = False, wo_ignore = False,
      wo_parents = False, wo_require_git = False\<rparr>"

definition walked_path :: "string list \<times> fs_entry \<Rightarrow> string option" where
  "walked_path entry =
     (case entry of (path, e) \<Rightarrow>
        if is_file (Some e)
        then
          (let rel = join_str ''/'' path
           in if utf8_ok rel then Some (replace_char (CHR 0x5C) (CHR ''/'') rel) else None)
        else None)"

definition boundary_walk :: "ignore_crate \<Rightarrow> fs_entry \<Rightarrow> error + string list" where
  "boundary_walk ic tree =
     (case ic_walk ic WALK_OPTIONS (\<lambda>name. \<not> is_builtin_noise name) tree of
        Inl e \<Rightarrow> Inl (Io (''walk: '' @ e))
      | Inr entries \<Rightarrow> Inr (canon (List.map_filter walked_path entries)))"

section \<open>The source\<close>

record fs_source =
  fs_root :: string
  fs_cache :: gitignore_cache

definition fs_source_new :: "string \<Rightarrow> fs_source" where
  "fs_source_new dir = \<lparr>fs_root = dir, fs_cache = []\<rparr>"

text \<open>\<open>tree\<close> is what is at the root, if anything.\<close>

definition fs_poll :: "ignore_crate \<Rightarrow> fs_entry option \<Rightarrow> fs_source \<Rightarrow> error + change_set" where
  "fs_poll ic tree src =
     (case tree of
        None \<Rightarrow> Inl (Io (''source root does not exist: '' @ fs_root src))
      | Some t \<Rightarrow> map_sum id all_added (boundary_walk ic t))"

definition fs_in_scope :: "ignore_crate \<Rightarrow> fs_entry \<Rightarrow> string \<Rightarrow> fs_source \<Rightarrow> bool \<times> fs_source" where
  "fs_in_scope ic tree rel src =
     (case boundary_matches ic tree rel (fs_cache src) of (r, cache) \<Rightarrow> (r, src\<lparr>fs_cache := cache\<rparr>))"

definition fs_exists :: "fs_entry \<Rightarrow> string list \<Rightarrow> bool" where
  "fs_exists tree path \<longleftrightarrow> is_file (fs_stat tree path)"

section \<open>Producers\<close>

datatype produced_kind = PK_Authoritative | PK_Reconcile bool

record triggered_producer =
  tp_poll :: "error + change_set" \<comment> \<open>what the wrapped source answers\<close>
  tp_priority :: lane
  tp_kind :: produced_kind

definition tp_fire :: "triggered_producer \<Rightarrow> error + produced" where
  "tp_fire p =
     (case tp_kind p of
        PK_Authoritative \<Rightarrow> map_sum id Authoritative (tp_poll p)
      | PK_Reconcile deep \<Rightarrow> Inr (Reconcile_Request deep))"

definition tp_start :: "triggered_producer \<Rightarrow> produced list \<Rightarrow> (error + unit) \<times> produced list" where
  "tp_start p sink = (case tp_fire p of Inl e \<Rightarrow> (Inl e, sink) | Inr x \<Rightarrow> (Inr (), sink @ [x]))"

section \<open>The watcher\<close>

datatype access_mode = AM_Any | AM_Execute | AM_Read | AM_Write | AM_Other

datatype access_kind = AK_Any | AK_Read | AK_Open access_mode | AK_Close access_mode | AK_Other

datatype event_kind = EK_Any | EK_Access access_kind | EK_Create | EK_Modify | EK_Remove | EK_Other

fun is_read_event :: "event_kind \<Rightarrow> bool" where
  "is_read_event (EK_Access AK_Read) = True"
| "is_read_event (EK_Access (AK_Open _)) = True"
| "is_read_event (EK_Access (AK_Close AM_Read)) = True"
| "is_read_event (EK_Access (AK_Close AM_Execute)) = True"
| "is_read_event _ = False"

text \<open>A path of an event: outside the root, or below it. \<open>shown\<close> is \<open>path.to_string_lossy()\<close>.\<close>

record event_path =
  ep_shown :: string
  ep_below :: "string list option"

definition ep_name :: "event_path \<Rightarrow> string" where
  "ep_name p = after_last (CHR ''/'') (ep_shown p)"

fun classify_path ::
  "ignore_crate \<Rightarrow> fs_entry \<Rightarrow> event_kind \<Rightarrow> event_path \<Rightarrow> (change_set \<times> bool) \<times> gitignore_cache \<Rightarrow>
     (change_set \<times> bool) \<times> gitignore_cache"
where
  "classify_path ic tree kind p ((cs, ignore_changed), cache) =
     (if ep_name p = ''.gitignore'' then ((cs, True), cache)
      else if kind \<noteq> EK_Remove \<and> (case ep_below p of Some path \<Rightarrow> is_directory (fs_stat tree path) | None \<Rightarrow> False)
      then ((cs, ignore_changed), cache)
      else if \<not> is_indexable (ep_shown p) then ((cs, ignore_changed), cache)
      else
        (case ep_below p of
           None \<Rightarrow> ((cs, ignore_changed), cache)
         | Some path \<Rightarrow>
             (let rel = join_str ''/'' path in
              if \<not> utf8_ok rel then ((cs, ignore_changed), cache)
              else
                (case boundary_matches ic tree rel cache of
                   (False, cache) \<Rightarrow> ((cs, ignore_changed), cache)
                 | (True, cache) \<Rightarrow>
                     ((case kind of
                         EK_Create \<Rightarrow> cs\<lparr>added := added cs @ [rel]\<rparr>
                       | EK_Remove \<Rightarrow> cs\<lparr>removed := removed cs @ [rel]\<rparr>
                       | _ \<Rightarrow> cs\<lparr>modified := modified cs @ [rel]\<rparr>, ignore_changed), cache)))))"

definition classify_events ::
  "ignore_crate \<Rightarrow> fs_entry \<Rightarrow> (event_kind \<times> event_path list) list \<Rightarrow> gitignore_cache \<Rightarrow>
     (change_set \<times> bool) \<times> gitignore_cache"
where
  "classify_events ic tree events cache =
     fold (\<lambda>(kind, paths) st. if is_read_event kind then st else fold (classify_path ic tree kind) paths st) events
       ((all_added [], False), cache)"

text \<open>One debounced batch: what is sent, and the boundary's cache for the next.\<close>

definition watcher_batch ::
  "ignore_crate \<Rightarrow> fs_entry \<Rightarrow> (event_kind \<times> event_path list) list \<Rightarrow> gitignore_cache \<Rightarrow>
     produced list \<times> gitignore_cache"
where
  "watcher_batch ic tree events cache =
     (case classify_events ic tree events cache of
        ((cs, ignore_changed), cache) \<Rightarrow>
          (case (if ignore_changed then (case classify_events ic tree events [] of ((cs, _), cache) \<Rightarrow> (cs, cache))
                 else (cs, cache)) of
             (cs, cache) \<Rightarrow>
               ((if ignore_changed then [Reconcile_Request False] else [])
                @ (if added cs = [] \<and> modified cs = [] \<and> removed cs = [] then [] else [Signal cs]), cache)))"

end
