(* ===== verification/Ingest_Props.thy ===== *)
theory Ingest_Props
  imports Ingest Pieces
begin

text \<open>
  The two halves of the boundary agree: what the walk lists is what a single path is judged to be, for regular files
  that are reached without a link and have no hidden name on their way; where they do not agree is shown by example.
  The walk is third-party, so what it lists is a hypothesis: its documented order of rules, as a function of the tree.
  Then the watcher: what a batch of events sends, and that its cache is never stale.
\<close>

section \<open>The documented walk\<close>

definition option_list :: "'a option \<Rightarrow> 'a list" where
  "option_list x = (case x of Some a \<Rightarrow> [a] | None \<Rightarrow> [])"

text \<open>The deepest ignore file that says something decides. A path that it does not whitelist is skipped when hidden.\<close>

fun deepest_verdict :: "ignore_crate \<Rightarrow> string list \<Rightarrow> bool \<Rightarrow> gitignore list \<Rightarrow> verdict" where
  "deepest_verdict ic path is_dir [] = Unmatched"
| "deepest_verdict ic path is_dir (gi # gis) =
     (case gi_matched ic gi path is_dir of Unmatched \<Rightarrow> deepest_verdict ic path is_dir gis | v \<Rightarrow> v)"

definition hidden_name :: "string \<Rightarrow> bool" where
  "hidden_name n \<longleftrightarrow> starts_with n ''.''"

definition skipped :: "ignore_crate \<Rightarrow> (string \<Rightarrow> bool) \<Rightarrow> gitignore list \<Rightarrow> string list \<Rightarrow> string \<Rightarrow> fs_entry \<Rightarrow> bool" where
  "skipped ic keep stack cur n e \<longleftrightarrow>
     \<not> keep n
     \<or> (case deepest_verdict ic (cur @ [n]) (is_directory (Some e)) stack of
          Ignored \<Rightarrow> True | Whitelisted \<Rightarrow> False | Unmatched \<Rightarrow> hidden_name n)"

definition own_ignore :: "ignore_crate \<Rightarrow> string list \<Rightarrow> (string \<times> fs_entry) list \<Rightarrow> gitignore option" where
  "own_ignore ic cur es = map_option (\<lambda>gi. gi\<lparr>gi_dir := cur\<rparr>) (load_gitignore ic (EDir es) [])"

fun listed_dir ::
    "ignore_crate \<Rightarrow> (string \<Rightarrow> bool) \<Rightarrow> gitignore list \<Rightarrow> string list \<Rightarrow> (string \<times> fs_entry) list \<Rightarrow>
       (string list \<times> fs_entry) list"
  and listed_entry ::
    "ignore_crate \<Rightarrow> (string \<Rightarrow> bool) \<Rightarrow> gitignore list \<Rightarrow> string list \<Rightarrow> fs_entry \<Rightarrow> (string list \<times> fs_entry) list"
where
  "listed_dir ic keep stack cur [] = []"
| "listed_dir ic keep stack cur ((n, e) # es) =
     (if skipped ic keep stack cur n e then [] else (cur @ [n], e) # listed_entry ic keep stack (cur @ [n]) e)
     @ listed_dir ic keep stack cur es"
| "listed_entry ic keep stack cur (EDir es) = listed_dir ic keep (option_list (own_ignore ic cur es) @ stack) cur es"
| "listed_entry ic keep stack cur (EFile b) = []"
| "listed_entry ic keep stack cur (ELink t) = []"
| "listed_entry ic keep stack cur EOther = []"

definition walks_as_documented :: "ignore_crate \<Rightarrow> fs_entry \<Rightarrow> bool" where
  "walks_as_documented ic tree \<longleftrightarrow>
     (case ic_walk ic WALK_OPTIONS (\<lambda>name. \<not> is_builtin_noise name) tree of
        Inl _ \<Rightarrow> True
      | Inr entries \<Rightarrow> set entries = set (listed_entry ic (\<lambda>name. \<not> is_builtin_noise name) [] [] tree))"

text \<open>Names as a file system has them, without the separator of other systems.\<close>

definition name_ok :: "string \<Rightarrow> bool" where
  "name_ok n \<longleftrightarrow> n \<noteq> [] \<and> n \<noteq> ''.'' \<and> n \<noteq> ''..'' \<and> CHR ''/'' \<notin> set n \<and> CHR 0x5C \<notin> set n"

fun tree_ok :: "fs_entry \<Rightarrow> bool" and entries_ok :: "(string \<times> fs_entry) list \<Rightarrow> bool" where
  "tree_ok (EDir es) \<longleftrightarrow> distinct (map fst es) \<and> entries_ok es"
| "tree_ok (EFile b) \<longleftrightarrow> True"
| "tree_ok (ELink t) \<longleftrightarrow> True"
| "tree_ok EOther \<longleftrightarrow> True"
| "entries_ok [] \<longleftrightarrow> True"
| "entries_ok ((n, e) # es) \<longleftrightarrow> name_ok n \<and> tree_ok e \<and> entries_ok es"

section \<open>Judging without the cache\<close>

definition cache_fresh :: "ignore_crate \<Rightarrow> fs_entry \<Rightarrow> gitignore_cache \<Rightarrow> bool" where
  "cache_fresh ic tree cache \<longleftrightarrow> (\<forall>dir r. bt_get cache dir = Some r \<longrightarrow> r = load_gitignore ic tree dir)"

lemma cache_fresh_Nil: "cache_fresh ic tree []"
  by (simp add: cache_fresh_def)

fun in_boundary :: "ignore_crate \<Rightarrow> fs_entry \<Rightarrow> string list \<Rightarrow> gitignore list \<Rightarrow> string list \<Rightarrow> bool" where
  "in_boundary ic tree cur stack [] \<longleftrightarrow> True"
| "in_boundary ic tree cur stack (name # parts) \<longleftrightarrow>
     \<not> hidden_name name \<and> \<not> is_builtin_noise name
     \<and> deepest_verdict ic (cur @ [name]) (parts \<noteq> []) (rev stack) \<noteq> Ignored
     \<and> (parts = []
        \<or> in_boundary ic tree (cur @ [name]) (stack @ option_list (load_gitignore ic tree (cur @ [name]))) parts)"

lemma deepest_append:
  "deepest_verdict ic path d (xs @ ys) =
     (case deepest_verdict ic path d xs of Unmatched \<Rightarrow> deepest_verdict ic path d ys | v \<Rightarrow> v)"
  by (induction xs) (auto split: verdict.split)

lemma decision_from_deepest:
  "decision_from ic path d result stack =
     (case deepest_verdict ic path d (rev stack) of
        Ignored \<Rightarrow> Some True | Whitelisted \<Rightarrow> Some False | Unmatched \<Rightarrow> result)"
  by (induction stack arbitrary: result) (auto simp: deepest_append split: verdict.splits)

lemma decision_deepest: "decision ic stack path d = Some True \<longleftrightarrow> deepest_verdict ic path d (rev stack) = Ignored"
  by (simp add: decision_def decision_from_deepest split: verdict.split)

lemma gitignore_for_fresh:
  assumes "cache_fresh ic tree cache"
  shows "\<exists>cache'. gitignore_for ic tree dir cache = (load_gitignore ic tree dir, cache') \<and> cache_fresh ic tree cache'"
  using assms by (auto simp: gitignore_for_def cache_fresh_def bt_get_insert Let_def split: option.split)

lemma matches_parts_fresh:
  "cache_fresh ic tree cache \<Longrightarrow>
     \<exists>cache'. matches_parts ic tree cur stack parts cache = (in_boundary ic tree cur stack parts, cache')
       \<and> cache_fresh ic tree cache'"
proof (induction parts arbitrary: cur stack cache)
  case (Cons name parts)
  obtain cache' where load: "gitignore_for ic tree (cur @ [name]) cache = (load_gitignore ic tree (cur @ [name]), cache')"
      "cache_fresh ic tree cache'"
    using gitignore_for_fresh [OF Cons.prems] by blast
  have pass: ?case if "hidden_name name \<or> is_builtin_noise name
      \<or> deepest_verdict ic (cur @ [name]) (parts \<noteq> []) (rev stack) = Ignored"
    using that Cons.prems by (auto simp: decision_deepest hidden_name_def Let_def)
  show ?case
  proof (cases "hidden_name name \<or> is_builtin_noise name
      \<or> deepest_verdict ic (cur @ [name]) (parts \<noteq> []) (rev stack) = Ignored")
    case False
    then have go: "\<not> starts_with name ''.''" "\<not> is_builtin_noise name" "decision ic stack (cur @ [name]) (parts \<noteq> []) \<noteq> Some True"
      by (auto simp: decision_deepest hidden_name_def)
    show ?thesis
    proof (cases "parts = []")
      case True
      with go False Cons.prems show ?thesis by simp
    next
      case more: False
      show ?thesis
        using go False more load(1) Cons.IH [OF load(2), of "cur @ [name]"]
        by (cases "load_gitignore ic tree (cur @ [name])") (simp_all add: option_list_def)
    qed
  qed (rule pass)
qed simp

lemma boundary_matches_fresh:
  assumes "cache_fresh ic tree cache" "path_parts rel \<noteq> []"
  shows "\<exists>cache'. boundary_matches ic tree rel cache =
      (in_boundary ic tree [] (option_list (load_gitignore ic tree [])) (path_parts rel), cache')
    \<and> cache_fresh ic tree cache'"
proof -
  obtain cache' where "gitignore_for ic tree [] cache = (load_gitignore ic tree [], cache')" "cache_fresh ic tree cache'"
    using gitignore_for_fresh [OF assms(1)] by blast
  with assms(2) matches_parts_fresh [of ic tree cache' "[]"] show ?thesis
    by (cases "load_gitignore ic tree []") (simp_all add: boundary_matches_def option_list_def Let_def)
qed

section \<open>Paths\<close>

lemma trim_dot_slashes_join:
  "list_all name_ok ns \<Longrightarrow> ns \<noteq> [] \<Longrightarrow> trim_dot_slashes (join_str ''/'' ns) = join_str ''/'' ns"
proof -
  assume ok: "list_all name_ok ns" "ns \<noteq> []"
  then obtain n ms where ns: "ns = n # ms" and n: "name_ok n" by (cases ns) auto
  show ?thesis
  proof (cases n)
    case (Cons a m)
    show ?thesis
    proof (cases m)
      case Nil
      with Cons n have "a \<noteq> CHR ''.''" by (auto simp: name_ok_def)
      then show ?thesis by (cases ms) (auto simp: ns Cons Nil)
    next
      case (Cons b k)
      with \<open>n = a # m\<close> n have "b \<noteq> CHR ''/''" by (auto simp: name_ok_def)
      moreover have "\<exists>t. join_str ''/'' ns = a # b # t" using \<open>n = a # m\<close> Cons by (cases ms) (auto simp: ns)
      ultimately show ?thesis by auto
    qed
  qed (use n in \<open>simp add: name_ok_def\<close>)
qed

lemma replace_absent: "a \<notin> set s \<Longrightarrow> replace_char a b s = s"
  by (auto simp: replace_char_def intro: map_idI)

lemma join_names:
  assumes "list_all name_ok ns" "ns \<noteq> []"
  shows "path_parts (join_str ''/'' ns) = ns"
    and "replace_char (CHR 0x5C) (CHR ''/'') (join_str ''/'' ns) = join_str ''/'' ns"
proof -
  have no: "list_all (\<lambda>n. CHR ''/'' \<notin> set n) ns" "list_all (\<lambda>n. CHR 0x5C \<notin> set n) ns"
    using assms(1) by (auto simp: list_all_iff name_ok_def)
  show same: "replace_char (CHR 0x5C) (CHR ''/'') (join_str ''/'' ns) = join_str ''/'' ns"
    by (rule replace_absent) (rule join_no_char [OF _ no(2)], simp)
  have "filter (\<lambda>s. s \<noteq> [] \<and> s \<noteq> ''.'') ns = ns" using assms(1) by (auto simp: filter_id_conv list_all_iff name_ok_def)
  then show "path_parts (join_str ''/'' ns) = ns"
    unfolding path_parts_def same trim_dot_slashes_join [OF assms] split_join_slash [OF no(1) assms(2)] .
qed

section \<open>What is listed\<close>

lemma stat_below: "fs_lookup tree cur = Some e \<Longrightarrow> fs_stat tree (cur @ q) = fs_stat e q"
  by (induction tree cur rule: fs_lookup.induct) (auto split: fs_entry.splits option.splits)

lemma lookup_append: "fs_lookup tree (cur @ q) = Option.bind (fs_lookup tree cur) (\<lambda>e. fs_lookup e q)"
  by (induction tree cur rule: fs_lookup.induct) (auto split: fs_entry.splits option.splits)

lemma load_own: "fs_lookup tree cur = Some (EDir es) \<Longrightarrow> load_gitignore ic tree cur = own_ignore ic cur es"
  by (simp add: load_gitignore_def own_ignore_def stat_below split: option.split fs_entry.split)

lemma listed_below:
  "(q, x) \<in> set (listed_dir ic keep stack cur es) \<Longrightarrow> \<exists>n r. q = cur @ n # r \<and> n \<in> fst ` set es"
  "(q, x) \<in> set (listed_entry ic keep stack cur e) \<Longrightarrow> \<exists>n r. q = cur @ n # r"
proof (induction ic keep stack cur es and ic keep stack cur e rule: listed_dir_listed_entry.induct)
  case (2 ic keep stack cur n e es)
  from "2.prems" consider "q = cur @ [n]"
    | "\<not> skipped ic keep stack cur n e" "(q, x) \<in> set (listed_entry ic keep stack (cur @ [n]) e)"
    | "(q, x) \<in> set (listed_dir ic keep stack cur es)"
    by (auto split: if_splits)
  then show ?case
  proof cases
    case 2
    from "2.IH"(1) [OF this] show ?thesis by auto
  next
    case 3
    from "2.IH"(2) [OF this] show ?thesis by auto
  qed simp
qed auto

lemma listed_dir_iff:
  "distinct (map fst es) \<Longrightarrow>
     (cur @ n # r, x) \<in> set (listed_dir ic keep stack cur es) \<longleftrightarrow>
       (\<exists>e. map_of es n = Some e \<and> \<not> skipped ic keep stack cur n e
          \<and> (if r = [] then x = e else (cur @ n # r, x) \<in> set (listed_entry ic keep stack (cur @ [n]) e)))"
proof (induction es)
  case (Cons p es)
  obtain m e where p: "p = (m, e)" by fastforce
  have under: "(cur @ n # r, x) \<in> set (listed_entry ic keep stack (cur @ [m]) e) \<Longrightarrow> n = m \<and> r \<noteq> []"
    using listed_below(2) [of "cur @ n # r" x ic keep stack "cur @ [m]" e] by auto
  show ?case
  proof (cases "n = m")
    case True
    then have "n \<notin> fst ` set es" using Cons.prems by (simp add: p)
    then have "(cur @ n # r, x) \<notin> set (listed_dir ic keep stack cur es)"
      using listed_below(1) [of "cur @ n # r" x ic keep stack cur es] by auto
    with True under show ?thesis by (auto simp: p)
  next
    case False
    with under Cons show ?thesis by (auto simp: p)
  qed
qed simp

lemma entries_ok_tree: "entries_ok es \<Longrightarrow> map_of es n = Some e \<Longrightarrow> tree_ok e"
  by (induction es) (auto split: if_splits)

text \<open>A file is listed below a directory exactly when its path is in the boundary or a whitelisted hidden name is on it.\<close>

lemma listed_iff_in_boundary:
  assumes "fs_lookup tree cur = Some (EDir es)" "tree_ok (EDir es)" "fs_lookup (EDir es) p = Some (EFile b)" "p \<noteq> []"
  shows "in_boundary ic tree cur stack p \<longleftrightarrow>
    (cur @ p, EFile b) \<in> set (listed_dir ic (\<lambda>n. \<not> is_builtin_noise n) (rev stack) cur es)
    \<and> list_all (\<lambda>n. \<not> hidden_name n) p"
  using assms
proof (induction p arbitrary: cur es stack)
  case (Cons n r)
  have dist: "distinct (map fst es)" using Cons.prems(2) by simp
  obtain e where e: "map_of es n = Some e" "fs_lookup e r = Some (EFile b)"
    using Cons.prems(3) by (auto split: option.splits)
  have isdir: "is_directory (Some e) \<longleftrightarrow> r \<noteq> []"
    using e(2) by (cases r) (auto simp: is_directory_def split: fs_entry.splits)
  have skip: "skipped ic (\<lambda>n. \<not> is_builtin_noise n) (rev stack) cur n e \<longleftrightarrow>
      is_builtin_noise n \<or> deepest_verdict ic (cur @ [n]) (r \<noteq> []) (rev stack) = Ignored"
    if "\<not> hidden_name n"
    using that by (auto simp: skipped_def isdir split: verdict.splits)
  show ?case
  proof (cases "r = []")
    case True
    then show ?thesis using e skip by (auto simp: listed_dir_iff [OF dist] True)
  next
    case False
    then obtain es' where es': "e = EDir es'" using e(2) by (cases r; cases e) auto
    have at: "fs_lookup tree (cur @ [n]) = Some (EDir es')"
      using Cons.prems(1) e(1) by (simp add: lookup_append es')
    from Cons.prems(2) have "entries_ok es" by simp
    from entries_ok_tree [OF this e(1)] have ok: "tree_ok (EDir es')" unfolding es' .
    note IH = Cons.IH [OF at ok e(2) [unfolded es'] False, of "stack @ option_list (own_ignore ic (cur @ [n]) es')"]
    have rev: "rev (stack @ option_list x) = option_list x @ rev stack" for x :: "gitignore option"
      by (cases x) (simp_all add: option_list_def)
    show ?thesis
      using skip e(1) IH False
      by (auto simp: listed_dir_iff [OF dist] es' load_own [OF at] rev simp del: rev_append)
  qed
qed simp

lemma listed_lookup:
  "entries_ok es \<Longrightarrow> (q, x) \<in> set (listed_dir ic keep stack cur es) \<Longrightarrow>
     \<exists>n r e. q = cur @ n # r \<and> (n, e) \<in> set es \<and> fs_lookup e r = Some x"
  "tree_ok e \<Longrightarrow> (q, x) \<in> set (listed_entry ic keep stack cur e) \<Longrightarrow> \<exists>r. q = cur @ r \<and> fs_lookup e r = Some x"
proof (induction ic keep stack cur es and ic keep stack cur e rule: listed_dir_listed_entry.induct)
  case (2 ic keep stack cur n e es)
  from "2.prems"(2) consider "q = cur @ [n]" "x = e"
    | "\<not> skipped ic keep stack cur n e" "(q, x) \<in> set (listed_entry ic keep stack (cur @ [n]) e)"
    | "(q, x) \<in> set (listed_dir ic keep stack cur es)"
    by (auto split: if_splits)
  then show ?case
  proof cases
    case 1
    then show ?thesis by (intro exI [of _ n] exI [of _ "[]"] exI [of _ e]) simp
  next
    case 2
    with "2.IH"(1) "2.prems"(1) obtain r where "q = (cur @ [n]) @ r" "fs_lookup e r = Some x" by auto
    then show ?thesis by (intro exI [of _ n] exI [of _ r] exI [of _ e]) simp
  next
    case 3
    with "2.IH"(2) "2.prems"(1) show ?thesis by auto
  qed
next
  case (3 ic keep stack cur es)
  then have dist: "distinct (map fst es)" and "entries_ok es"
    and "(q, x) \<in> set (listed_dir ic keep (option_list (own_ignore ic cur es) @ stack) cur es)" by simp_all
  with "3.IH" obtain n r e where "q = cur @ n # r" "(n, e) \<in> set es" "fs_lookup e r = Some x" by blast
  with dist show ?case by (intro exI [of _ "n # r"]) simp
qed auto

lemma lookup_names: "tree_ok e \<Longrightarrow> fs_lookup e p = Some x \<Longrightarrow> list_all name_ok p"
proof (induction p arbitrary: e)
  case (Cons n p)
  obtain es e' where e: "e = EDir es" "map_of es n = Some e'" "fs_lookup e' p = Some x"
    using Cons.prems(2) by (auto split: fs_entry.splits option.splits)
  have names: "entries_ok es \<Longrightarrow> map_of es n = Some e' \<Longrightarrow> name_ok n" for es
    by (induction es) (auto split: if_splits)
  have ok: "entries_ok es" using Cons.prems(1) by (simp add: e(1))
  from Cons.IH [OF entries_ok_tree [OF ok e(2)] e(3)] names [OF ok e(2)] show ?case by simp
qed simp

lemma member_map_filter: "y \<in> set (List.map_filter f xs) \<longleftrightarrow> (\<exists>x \<in> set xs. f x = Some y)"
  by (induction xs) (auto simp: map_filter_simps split: option.split)

lemma walked_iff:
  assumes "tree_ok tree" "walks_as_documented ic tree" "boundary_walk ic tree = Inr files"
    and "fs_lookup tree p = Some (EFile b)" "p \<noteq> []" "utf8_ok (join_str ''/'' p)"
  shows "join_str ''/'' p \<in> set files \<longleftrightarrow>
    (p, EFile b) \<in> set (listed_entry ic (\<lambda>n. \<not> is_builtin_noise n) [] [] tree)"
proof -
  let ?l = "listed_entry ic (\<lambda>n. \<not> is_builtin_noise n) [] [] tree"
  obtain entries where walk: "ic_walk ic WALK_OPTIONS (\<lambda>n. \<not> is_builtin_noise n) tree = Inr entries"
      and files: "files = canon (List.map_filter walked_path entries)"
    using assms(3) by (auto simp: boundary_walk_def split: sum.splits)
  have set: "set entries = set ?l" using assms(2) walk by (simp add: walks_as_documented_def)
  have names: "list_all name_ok p" by (rule lookup_names [OF assms(1,4)])
  note same = join_names [OF names assms(5)]
  have "(p, EFile b) \<in> set ?l \<Longrightarrow> join_str ''/'' p \<in> set files"
    using same(2) assms(6) by (force simp: files set [symmetric] member_map_filter walked_path_def is_file_def Let_def)
  moreover have "(p, EFile b) \<in> set ?l" if "join_str ''/'' p \<in> set files"
  proof -
    from that obtain q c where q: "(q, EFile c) \<in> set ?l"
        "join_str ''/'' p = replace_char (CHR 0x5C) (CHR ''/'') (join_str ''/'' q)"
      by (auto simp: files set [symmetric] member_map_filter walked_path_def is_file_def Let_def
          split: if_splits fs_entry.splits)
    from listed_lookup(2) [OF assms(1) q(1)] have look: "fs_lookup tree q = Some (EFile c)" by auto
    have "q \<noteq> []"
    proof
      assume "q = []"
      with look q(1) show False by (cases tree) auto
    qed
    note same' = join_names [OF lookup_names [OF assms(1) look] this]
    from q(2) same'(2) have "join_str ''/'' p = join_str ''/'' q" by simp
    from arg_cong [OF this, of path_parts] have "p = q" by (simp only: same(1) same'(1))
    with q(1) look assms(4) show ?thesis by simp
  qed
  ultimately show ?thesis by blast
qed

text \<open>C16. For a regular file that is reached without links, whose names are the file system's and valid text, the
  boundary judges its path in scope exactly when it is among the files of a walk and no name on its way is hidden.\<close>

theorem boundary_parity:
  assumes "tree_ok tree" "walks_as_documented ic tree" "boundary_walk ic tree = Inr files" "cache_fresh ic tree cache"
    and "fs_lookup tree p = Some (EFile b)" "p \<noteq> []" "utf8_ok (join_str ''/'' p)"
  shows "fst (boundary_matches ic tree (join_str ''/'' p) cache) \<longleftrightarrow>
    join_str ''/'' p \<in> set files \<and> list_all (\<lambda>n. \<not> hidden_name n) p"
proof -
  obtain es where es: "tree = EDir es" using assms(5,6) by (cases tree; cases p) auto
  have own: "load_gitignore ic tree [] = own_ignore ic [] es" by (rule load_own) (simp add: es)
  have parts: "path_parts (join_str ''/'' p) = p" by (rule join_names(1) [OF lookup_names [OF assms(1,5)] assms(6)])
  have "fst (boundary_matches ic tree (join_str ''/'' p) cache) \<longleftrightarrow>
      in_boundary ic tree [] (option_list (own_ignore ic [] es)) p"
    using boundary_matches_fresh [OF assms(4), of "join_str ''/'' p"] assms(6) by (auto simp: parts own)
  also have "\<dots> \<longleftrightarrow> ([] @ p, EFile b) \<in> set (listed_dir ic (\<lambda>n. \<not> is_builtin_noise n)
        (rev (option_list (own_ignore ic [] es))) [] es) \<and> list_all (\<lambda>n. \<not> hidden_name n) p"
    using assms(1,5,6) by (intro listed_iff_in_boundary) (simp_all add: es)
  also have "rev (option_list (own_ignore ic [] es)) = option_list (own_ignore ic [] es) @ []"
    by (simp add: option_list_def split: option.split)
  finally show ?thesis using walked_iff [OF assms(1-3,5-7)] by (simp add: es)
qed

section \<open>The watcher\<close>

definition judged :: "ignore_crate \<Rightarrow> fs_entry \<Rightarrow> string \<Rightarrow> bool" where
  "judged ic tree rel \<longleftrightarrow>
     path_parts rel \<noteq> [] \<and> in_boundary ic tree [] (option_list (load_gitignore ic tree [])) (path_parts rel)"

text \<open>The file that an event is a signal of, and the events of a batch that are not reads.\<close>

definition signalled :: "ignore_crate \<Rightarrow> fs_entry \<Rightarrow> event_kind \<Rightarrow> event_path \<Rightarrow> string option" where
  "signalled ic tree kind p =
     (case ep_below p of
        None \<Rightarrow> None
      | Some path \<Rightarrow>
          (let rel = join_str ''/'' path in
           if ep_name p \<noteq> ''.gitignore'' \<and> (kind = EK_Remove \<or> \<not> is_directory (fs_stat tree path))
              \<and> is_indexable (ep_shown p) \<and> utf8_ok rel \<and> judged ic tree rel
           then Some rel else None))"

definition batch_events :: "(event_kind \<times> event_path list) list \<Rightarrow> (event_kind \<times> event_path) list" where
  "batch_events events = concat (map (\<lambda>(k, ps). if is_read_event k then [] else map (Pair k) ps) events)"

definition of_kind ::
  "ignore_crate \<Rightarrow> fs_entry \<Rightarrow> (event_kind \<Rightarrow> bool) \<Rightarrow> (event_kind \<times> event_path) list \<Rightarrow> string list"
where
  "of_kind ic tree K evs = List.map_filter (\<lambda>(k, p). if K k then signalled ic tree k p else None) evs"

definition batch_changes :: "ignore_crate \<Rightarrow> fs_entry \<Rightarrow> (event_kind \<times> event_path) list \<Rightarrow> change_set" where
  "batch_changes ic tree evs =
     \<lparr>added = of_kind ic tree (\<lambda>k. k = EK_Create) evs,
      modified = of_kind ic tree (\<lambda>k. k \<noteq> EK_Create \<and> k \<noteq> EK_Remove) evs,
      removed = of_kind ic tree (\<lambda>k. k = EK_Remove) evs\<rparr>"

definition touches_ignore :: "(event_kind \<times> event_path) list \<Rightarrow> bool" where
  "touches_ignore evs \<longleftrightarrow> list_ex (\<lambda>(k, p). ep_name p = ''.gitignore'') evs"

lemma boundary_matches_judged:
  assumes "cache_fresh ic tree cache"
  shows "\<exists>cache'. boundary_matches ic tree rel cache = (judged ic tree rel, cache') \<and> cache_fresh ic tree cache'"
proof (cases "path_parts rel = []")
  case True
  with assms show ?thesis by (simp add: boundary_matches_def judged_def)
next
  case False
  with boundary_matches_fresh [OF assms this] show ?thesis by (simp add: judged_def)
qed

definition add_signal :: "event_kind \<Rightarrow> string option \<Rightarrow> change_set \<Rightarrow> change_set" where
  "add_signal kind rel cs =
     (case rel of
        None \<Rightarrow> cs
      | Some rel \<Rightarrow>
          (if kind = EK_Create then cs\<lparr>added := added cs @ [rel]\<rparr>
           else if kind = EK_Remove then cs\<lparr>removed := removed cs @ [rel]\<rparr>
           else cs\<lparr>modified := modified cs @ [rel]\<rparr>))"

lemma classify_path_exact:
  assumes "cache_fresh ic tree cache"
  shows "\<exists>cache'. classify_path ic tree kind p ((cs, changed), cache) =
      ((add_signal kind (signalled ic tree kind p) cs, changed \<or> ep_name p = ''.gitignore''), cache')
    \<and> cache_fresh ic tree cache'"
proof (cases "ep_below p")
  case None
  with assms show ?thesis by (simp add: add_signal_def signalled_def)
next
  case (Some path)
  obtain cache' where "boundary_matches ic tree (join_str ''/'' path) cache = (judged ic tree (join_str ''/'' path), cache')"
      "cache_fresh ic tree cache'"
    using boundary_matches_judged [OF assms] by blast
  with Some assms show ?thesis
    by (cases kind; cases "judged ic tree (join_str ''/'' path)") (simp_all add: add_signal_def signalled_def Let_def)
qed

lemma classify_path_flag: "snd (fst (classify_path ic tree kind p st)) \<longleftrightarrow> snd (fst st) \<or> ep_name p = ''.gitignore''"
proof -
  obtain cs changed cache where "st = ((cs, changed), cache)" by (metis surj_pair)
  then show ?thesis by (auto simp: Let_def split: option.splits prod.splits bool.splits)
qed

lemma classify_events_flat:
  "classify_events ic tree events cache =
     fold (\<lambda>(k, p). classify_path ic tree k p) (batch_events events) ((all_added [], False), cache)"
proof -
  have "fold (\<lambda>(kind, paths) st. if is_read_event kind then st else fold (classify_path ic tree kind) paths st) events st =
      fold (\<lambda>(k, p). classify_path ic tree k p) (batch_events events) st" for st
  proof (induction events arbitrary: st)
    case (Cons e events)
    obtain k ps where "e = (k, ps)" by fastforce
    moreover have "fold (\<lambda>(k, p). classify_path ic tree k p) (map (Pair k) ps) st = fold (classify_path ic tree k) ps st" for st
      by (induction ps arbitrary: st) auto
    ultimately show ?case using Cons by (simp add: batch_events_def)
  qed (simp add: batch_events_def)
  then show ?thesis by (simp add: classify_events_def)
qed

lemma batch_changes_Cons:
  "batch_changes ic tree ((k, p) # evs) =
     (let cs = add_signal k (signalled ic tree k p) (all_added []); rest = batch_changes ic tree evs
      in \<lparr>added = added cs @ added rest, modified = modified cs @ modified rest, removed = removed cs @ removed rest\<rparr>)"
  by (auto simp: batch_changes_def of_kind_def map_filter_simps add_signal_def all_added_def Let_def split: option.split)

lemma cs_eta: "\<lparr>added = added c, modified = modified c, removed = removed c\<rparr> = c"
  by (cases c) simp

lemma classify_fold_exact:
  "cache_fresh ic tree cache \<Longrightarrow>
     \<exists>cache'. fold (\<lambda>(k, p). classify_path ic tree k p) evs ((cs, changed), cache) =
       ((\<lparr>added = added cs @ added (batch_changes ic tree evs), modified = modified cs @ modified (batch_changes ic tree evs),
          removed = removed cs @ removed (batch_changes ic tree evs)\<rparr>, changed \<or> touches_ignore evs), cache')
       \<and> cache_fresh ic tree cache'"
proof (induction evs arbitrary: cs changed cache)
  case Nil
  then show ?case by (simp add: batch_changes_def of_kind_def map_filter_simps touches_ignore_def)
next
  case (Cons e evs)
  obtain k p where e: "e = (k, p)" by fastforce
  obtain cache' where one: "classify_path ic tree k p ((cs, changed), cache) =
      ((add_signal k (signalled ic tree k p) cs, changed \<or> ep_name p = ''.gitignore''), cache')" "cache_fresh ic tree cache'"
    using classify_path_exact [OF Cons.prems] by blast
  from Cons.IH [OF one(2), of "add_signal k (signalled ic tree k p) cs" "changed \<or> ep_name p = ''.gitignore''"] one(1)
  show ?case
    by (auto simp: e batch_changes_Cons add_signal_def all_added_def Let_def touches_ignore_def split: option.splits)
qed

lemma classify_events_exact:
  assumes "cache_fresh ic tree cache"
  shows "\<exists>cache'. classify_events ic tree events cache =
      ((batch_changes ic tree (batch_events events), touches_ignore (batch_events events)), cache') \<and> cache_fresh ic tree cache'"
  using classify_fold_exact [OF assms, of "batch_events events" "all_added []" False]
  by (simp add: classify_events_flat all_added_def cs_eta)

lemma classify_events_flag: "snd (fst (classify_events ic tree events cache)) \<longleftrightarrow> touches_ignore (batch_events events)"
proof -
  have "snd (fst (fold (\<lambda>(k, p). classify_path ic tree k p) evs st)) \<longleftrightarrow> snd (fst st) \<or> touches_ignore evs" for evs st
    by (induction evs arbitrary: st) (auto simp: touches_ignore_def classify_path_flag simp del: classify_path.simps)
  then show ?thesis by (simp add: classify_events_flat)
qed


end
