(* ===== verification/Ingest_Examples.thy ===== *)
theory Ingest_Examples
  imports Ingest_Props
begin

text \<open>
  Small trees: a walk and a batch of events under ignore files of one pattern; and the files on which the walk and the
  judgement of a single path do not agree, which are links, hidden names that are whitelisted and names with the
  separator of other systems; and a directory that is replaced under the watcher.
\<close>

section \<open>Ignore files of one name\<close>

definition one_pattern :: "bytes \<Rightarrow> string list \<Rightarrow> bool \<Rightarrow> verdict" where
  "one_pattern text path is_dir =
     (if path \<noteq> [] \<and> last path = text then Ignored
      else if path \<noteq> [] \<and> text = CHR ''!'' # last path then Whitelisted
      else Unmatched)"

definition toy_rules :: ignore_crate where
  "toy_rules = \<lparr>ic_builds = (\<lambda>b. True), ic_matched = one_pattern, ic_walk = (\<lambda>opts keep tree. Inl ''no walk'')\<rparr>"

definition toy_ignore :: ignore_crate where
  "toy_ignore = toy_rules\<lparr>ic_walk := (\<lambda>opts keep tree. Inr (listed_entry toy_rules keep [] [] tree))\<rparr>"

text \<open>\<open>src/lib.rs\<close> and the ignored \<open>src/gen.rs\<close>.\<close>

definition small_tree :: fs_entry where
  "small_tree =
     EDir [(''src'', EDir [(''.gitignore'', EFile ''gen.rs''), (''gen.rs'', EFile ''g''), (''lib.rs'', EFile ''l'')]),
           (''target'', EDir [(''x.rs'', EFile ''x'')])]"

lemma small_tree_ok: "tree_ok small_tree" "walks_as_documented toy_ignore small_tree"
  "boundary_walk toy_ignore small_tree = Inr [''src/lib.rs'']"
  by code_simp+

theorem boundary_parity_witness:
  "fst (boundary_matches toy_ignore small_tree ''src/lib.rs'' [])"
proof -
  have "fs_lookup small_tree [''src'', ''lib.rs''] = Some (EFile ''l'')" "utf8_ok (join_str ''/'' [''src'', ''lib.rs''])"
    "list_all (\<lambda>n. \<not> hidden_name n) [''src'', ''lib.rs'']" "join_str ''/'' [''src'', ''lib.rs''] = ''src/lib.rs''" by code_simp+
  with boundary_parity [OF small_tree_ok cache_fresh_Nil this(1) _ this(2)] show ?thesis by simp
qed

definition event_at :: "string list \<Rightarrow> event_path" where
  "event_at path = \<lparr>ep_shown = ''/r/'' @ join_str ''/'' path, ep_below = Some path\<rparr>"

definition small_batch :: "(event_kind \<times> event_path list) list" where
  "small_batch =
     [(EK_Create, [event_at [''src'', ''lib.rs''], event_at [''src'', ''gen.rs'']]),
      (EK_Access AK_Read, [event_at [''src'', ''.gitignore'']]),
      (EK_Remove, [event_at [''src'', ''old.rs'']])]"


section \<open>Where the two halves part\<close>

text \<open>A link to a file is judged in scope and not walked.\<close>

lemma linked_file_drifts:
  "let tree = EDir [(''a.rs'', EFile ''a''), (''b.rs'', ELink (Some (EFile ''a'')))]
   in walks_as_documented toy_ignore tree \<and> boundary_walk toy_ignore tree = Inr [''a.rs'']
     \<and> fst (boundary_matches toy_ignore tree ''b.rs'' [])"
  by code_simp

text \<open>A hidden name that an ignore file whitelists is walked and judged out of scope.\<close>

lemma whitelisted_hidden_drifts:
  "let tree = EDir [(''.gitignore'', EFile ''!.storybook''), (''.storybook'', EDir [(''main.ts'', EFile ''m'')])]
   in walks_as_documented toy_ignore tree \<and> boundary_walk toy_ignore tree = Inr [''.storybook/main.ts'']
     \<and> \<not> fst (boundary_matches toy_ignore tree ''.storybook/main.ts'' [])"
  by code_simp

text \<open>On Unix a backslash is a character of a name; the walk then lists a path that does not exist.\<close>

lemma backslash_path_renamed:
  "let tree = EDir [(''a'' @ [CHR 0x5C] @ ''b.rs'', EFile ''x'')]
   in walks_as_documented toy_ignore tree \<and> boundary_walk toy_ignore tree = Inr [''a/b.rs'']
     \<and> \<not> fs_exists tree [''a'', ''b.rs'']"
  by code_simp

text \<open>A directory with an ignore file is replaced by one without: the events name the directory only, so the watcher
  goes on with the rules of the old one and does not signal the file they had ignored.\<close>

lemma replaced_directory_keeps_rules:
  "let before = EDir [(''pkg'', EDir [(''.gitignore'', EFile ''x.rs''), (''x.rs'', EFile ''1'')])];
       after = EDir [(''pkg'', EDir [(''x.rs'', EFile ''1'')])];
       cache = snd (watcher_batch toy_ignore before [(EK_Modify, [event_at [''pkg'', ''x.rs'']])] []);
       cache' = snd (watcher_batch toy_ignore after [(EK_Modify, [event_at [''pkg'']])] cache)
   in judged toy_ignore after ''pkg/x.rs''
     \<and> fst (watcher_batch toy_ignore after [(EK_Modify, [event_at [''pkg'', ''x.rs'']])] cache') = []"
  by code_simp

end
